(* ===== verification/Prelude.thy ===== *)
theory Prelude
  imports Main
    "HOL-Library.List_Lexorder"
    "HOL-Library.Signed_Division"
    "HOL-Library.Code_Target_Numeral"
begin

text \<open>
  Shared ground of the development: Rust results as sums, machine integers with their
  bounds written out, UTF-8 strings as lists of Unicode scalar values, and the ordered
  maps (\<open>BTreeMap\<close>) the components keep their named data in.
  Three collections drive the component proofs: \<open>res_simps\<close> (results),
  \<open>int_defs\<close> (bounded arithmetic) and \<open>str_simps\<close> (strings).
\<close>

named_theorems res_simps \<open>case analysis of results\<close>
named_theorems int_defs \<open>definitions of bounded machine arithmetic\<close>
named_theorems str_simps \<open>UTF-8 length and string literals\<close>

section \<open>Results\<close>

text \<open>
  A Rust \<open>Result<T, E>\<close> is a value of \<open>'e + 'a\<close>, with \<open>Inl\<close> the error; \<open>sbind\<close> is
  the \<open>?\<close> operator: it returns the first error and continues with the value otherwise.
\<close>

definition sbind :: "'e + 'a \<Rightarrow> ('a \<Rightarrow> 'e + 'b) \<Rightarrow> 'e + 'b" where
  "sbind m f = (case m of Inl e \<Rightarrow> Inl e | Inr x \<Rightarrow> f x)"

definition ok_or :: "'a option \<Rightarrow> 'e \<Rightarrow> 'e + 'a" where
  "ok_or m e = (case m of None \<Rightarrow> Inl e | Some x \<Rightarrow> Inr x)"

definition guard_ok :: "bool \<Rightarrow> 'e \<Rightarrow> 'e + unit" where
  "guard_ok b e = (if b then Inr () else Inl e)"

lemma sbind_simps [simp]: "sbind (Inl e) f = Inl e" "sbind (Inr x) f = f x"
  by (simp_all add: sbind_def)

lemma sbind_cong [fundef_cong]:
  "m = m' \<Longrightarrow> (\<And>x. m' = Inr x \<Longrightarrow> f x = f' x) \<Longrightarrow> sbind m f = sbind m' f'"
  by (auto simp: sbind_def split: sum.split)

lemma sbind_Inr_iff [res_simps]: "sbind m f = Inr y \<longleftrightarrow> (\<exists>x. m = Inr x \<and> f x = Inr y)"
  by (cases m) auto

lemma sbind_Inl_iff [res_simps]:
  "sbind m f = Inl e \<longleftrightarrow> m = Inl e \<or> (\<exists>x. m = Inr x \<and> f x = Inl e)"
  by (cases m) auto

lemma sbind_assoc: "sbind (sbind m f) g = sbind m (\<lambda>x. sbind (f x) g)"
  by (cases m) auto

lemma ok_or_simps [simp]: "ok_or None e = Inl e" "ok_or (Some x) e = Inr x"
  by (simp_all add: ok_or_def)

lemma ok_or_Inr_iff [res_simps]: "ok_or m e = Inr x \<longleftrightarrow> m = Some x"
  by (cases m) auto

lemma ok_or_Inl_iff [res_simps]: "ok_or m e = Inl e' \<longleftrightarrow> m = None \<and> e' = e"
  by (cases m) auto

lemma guard_ok_simps [simp]: "guard_ok True e = Inr ()" "guard_ok False e = Inl e"
  by (simp_all add: guard_ok_def)

lemma guard_ok_Inr_iff [res_simps]: "guard_ok b e = Inr u \<longleftrightarrow> b"
  by (cases b) auto

lemma guard_ok_Inl_iff [res_simps]: "guard_ok b e = Inl e' \<longleftrightarrow> \<not> b \<and> e' = e"
  by (cases b) auto

text \<open>\<open>map_err\<close>.\<close>

definition map_error :: "('e \<Rightarrow> 'f) \<Rightarrow> 'e + 'a \<Rightarrow> 'f + 'a" where
  "map_error f r = (case r of Inl e \<Rightarrow> Inl (f e) | Inr x \<Rightarrow> Inr x)"

lemma map_error_simps [simp]: "map_error f (Inl e) = Inl (f e)" "map_error f (Inr x) = Inr x"
  by (simp_all add: map_error_def)

lemma map_error_Inr_iff [res_simps]: "map_error f r = Inr x \<longleftrightarrow> r = Inr x"
  by (cases r) simp_all

lemma map_error_Inl_iff [res_simps]: "map_error f r = Inl e \<longleftrightarrow> (\<exists>e0. r = Inl e0 \<and> e = f e0)"
  by (cases r) (auto simp: map_error_def)

text \<open>Checking every element of a list in order, as a \<open>for\<close> loop with early return does.\<close>

fun each_ok :: "('a \<Rightarrow> 'e + unit) \<Rightarrow> 'a list \<Rightarrow> 'e + unit" where
  "each_ok f [] = Inr ()"
| "each_ok f (x # xs) = sbind (f x) (\<lambda>_. each_ok f xs)"

lemma each_ok_Inr_iff: "each_ok f xs = Inr u \<longleftrightarrow> (\<forall>x \<in> set xs. f x = Inr ())"
  by (induction xs) (auto simp: res_simps)

lemma each_ok_Inl: "each_ok f xs = Inl e \<Longrightarrow> \<exists>x \<in> set xs. f x = Inl e"
  by (induction xs) (auto simp: res_simps)

text \<open>Mapping with early return, as \<open>iter().map(..).collect::<Result<_, _>>()\<close> does.\<close>

fun map_ok :: "('a \<Rightarrow> 'e + 'b) \<Rightarrow> 'a list \<Rightarrow> 'e + 'b list" where
  "map_ok f [] = Inr []"
| "map_ok f (x # xs) = sbind (f x) (\<lambda>y. sbind (map_ok f xs) (\<lambda>ys. Inr (y # ys)))"

lemma map_ok_Inr_iff: "map_ok f xs = Inr ys \<longleftrightarrow> list_all2 (\<lambda>x y. f x = Inr y) xs ys"
  by (induction xs arbitrary: ys) (auto simp: res_simps list_all2_Cons1)

lemma map_ok_cong [fundef_cong]:
  "xs = ys \<Longrightarrow> (\<And>x. x \<in> set ys \<Longrightarrow> f x = g x) \<Longrightarrow> map_ok f xs = map_ok g ys"
  by (induction xs arbitrary: ys) (auto intro!: sbind_cong)

section \<open>Machine integers\<close>

text \<open>
  \<open>usize\<close> and \<open>u64\<close> are \<open>nat\<close> with the bound of a 64-bit target, \<open>i64\<close> is \<open>int\<close>;
  checked operations return \<open>None\<close> outside the bounds, saturating ones stop at them.
\<close>

definition U64_MAX :: nat where "U64_MAX = 2 ^ 64 - 1"
definition I64_MAX :: int where "I64_MAX = 2 ^ 63 - 1"
definition I64_MIN :: int where "I64_MIN = - (2 ^ 63)"

definition in_i64 :: "int \<Rightarrow> bool" where
  "in_i64 i \<longleftrightarrow> I64_MIN \<le> i \<and> i \<le> I64_MAX"

definition checked_i64 :: "int \<Rightarrow> int option" where
  "checked_i64 i = (if in_i64 i then Some i else None)"

definition checked_add_u64 :: "nat \<Rightarrow> nat \<Rightarrow> nat option" where
  "checked_add_u64 a b = (if a + b \<le> U64_MAX then Some (a + b) else None)"

definition saturating_add_u64 :: "nat \<Rightarrow> nat \<Rightarrow> nat" where
  "saturating_add_u64 a b = min (a + b) U64_MAX"

definition saturating_mul_u64 :: "nat \<Rightarrow> nat \<Rightarrow> nat" where
  "saturating_mul_u64 a b = min (a * b) U64_MAX"

definition saturating_add_i64 :: "int \<Rightarrow> int \<Rightarrow> int" where
  "saturating_add_i64 a b = max I64_MIN (min I64_MAX (a + b))"

lemmas bound_defs [int_defs] = U64_MAX_def I64_MAX_def I64_MIN_def

lemma checked_i64_Some_iff [res_simps]: "checked_i64 i = Some j \<longleftrightarrow> in_i64 i \<and> j = i"
  by (auto simp: checked_i64_def)

lemma checked_i64_None_iff [res_simps]: "checked_i64 i = None \<longleftrightarrow> \<not> in_i64 i"
  by (simp add: checked_i64_def)

lemma checked_add_u64_Some_iff [res_simps]:
  "checked_add_u64 a b = Some c \<longleftrightarrow> a + b \<le> U64_MAX \<and> c = a + b"
  by (auto simp: checked_add_u64_def)

lemma checked_add_u64_None_iff [res_simps]: "checked_add_u64 a b = None \<longleftrightarrow> U64_MAX < a + b"
  by (auto simp: checked_add_u64_def)

lemma saturating_add_u64_le: "saturating_add_u64 a b \<le> a + b" "saturating_add_u64 a b \<le> U64_MAX"
  by (simp_all add: saturating_add_u64_def)

section \<open>Strings\<close>

text \<open>
  A Rust \<open>char\<close> is a Unicode scalar value, a number; a \<open>String\<close> is the list of its
  characters, and \<open>len()\<close> counts the bytes of their UTF-8 encoding. The order of
  strings (bytewise in Rust) is the lexicographic order of the scalar values.
\<close>

type_synonym rchar = nat
type_synonym rstring = "rchar list"

definition is_scalar :: "nat \<Rightarrow> bool" where
  "is_scalar c \<longleftrightarrow> c < 0x110000 \<and> \<not> (0xD800 \<le> c \<and> c \<le> 0xDFFF)"

definition len_utf8 :: "rchar \<Rightarrow> nat" where
  "len_utf8 c = (if c < 0x80 then 1 else if c < 0x800 then 2 else if c < 0x10000 then 3 else 4)"

definition str_len :: "rstring \<Rightarrow> nat" where
  "str_len s = sum_list (map len_utf8 s)"

definition lit :: "string \<Rightarrow> rstring" where
  "lit s = map of_char s"

definition is_control :: "rchar \<Rightarrow> bool" where
  "is_control c \<longleftrightarrow> c \<le> 0x1F \<or> (0x7F \<le> c \<and> c \<le> 0x9F)"

definition is_ascii_digit :: "rchar \<Rightarrow> bool" where
  "is_ascii_digit c \<longleftrightarrow> 48 \<le> c \<and> c \<le> 57"

definition is_ascii_lowercase :: "rchar \<Rightarrow> bool" where
  "is_ascii_lowercase c \<longleftrightarrow> 97 \<le> c \<and> c \<le> 122"

definition is_ascii_alphabetic :: "rchar \<Rightarrow> bool" where
  "is_ascii_alphabetic c \<longleftrightarrow> (65 \<le> c \<and> c \<le> 90) \<or> (97 \<le> c \<and> c \<le> 122)"

definition is_ascii_alphanumeric :: "rchar \<Rightarrow> bool" where
  "is_ascii_alphanumeric c \<longleftrightarrow> is_ascii_alphabetic c \<or> is_ascii_digit c"

definition is_ascii_hexdigit :: "rchar \<Rightarrow> bool" where
  "is_ascii_hexdigit c \<longleftrightarrow> is_ascii_digit c \<or> (65 \<le> c \<and> c \<le> 70) \<or> (97 \<le> c \<and> c \<le> 102)"

definition is_ascii_whitespace :: "rchar \<Rightarrow> bool" where
  "is_ascii_whitespace c \<longleftrightarrow> c \<in> {32, 9, 10, 12, 13}"

lemmas char_class_defs = is_control_def is_ascii_digit_def is_ascii_lowercase_def
  is_ascii_alphabetic_def is_ascii_alphanumeric_def is_ascii_hexdigit_def is_ascii_whitespace_def

lemma len_utf8_pos [str_simps, simp]: "0 < len_utf8 c"
  by (simp add: len_utf8_def)

lemma len_utf8_le: "len_utf8 c \<le> 4"
  by (simp add: len_utf8_def)

lemma str_len_simps [str_simps, simp]:
  "str_len [] = 0"
  "str_len (c # s) = len_utf8 c + str_len s"
  "str_len (s @ t) = str_len s + str_len t"
  "str_len (rev s) = str_len s"
  by (simp_all add: str_len_def sum_list_rev flip: rev_map)

lemma str_len_zero_iff [str_simps, simp]: "str_len s = 0 \<longleftrightarrow> s = []"
  by (cases s) auto

lemma length_le_str_len: "length s \<le> str_len s"
proof (induction s)
  case (Cons c s)
  have "Suc 0 \<le> len_utf8 c" by (simp add: Suc_le_eq)
  with Cons show ?case by simp
qed simp

lemma lit_Nil_iff [str_simps, simp]: "lit s = [] \<longleftrightarrow> s = []"
  by (simp add: lit_def)

lemma lit_eq_iff [str_simps, simp]: "lit s = lit t \<longleftrightarrow> s = t"
proof -
  have "inj (of_char :: char \<Rightarrow> nat)" by (rule injI) simp
  then show ?thesis by (simp add: lit_def inj_map_eq_map)
qed

text \<open>Decimal text of integers, as \<open>to_string\<close> prints them.\<close>

fun digits_of :: "nat \<Rightarrow> rstring" where
  "digits_of n = (if n < 10 then [48 + n] else digits_of (n div 10) @ [48 + n mod 10])"

declare digits_of.simps [simp del]

definition int_to_string :: "int \<Rightarrow> rstring" where
  "int_to_string i = (if i < 0 then 45 # digits_of (nat (- i)) else digits_of (nat i))"

definition digits_value :: "rstring \<Rightarrow> nat" where
  "digits_value ds = foldl (\<lambda>n d. 10 * n + (d - 48)) 0 ds"

lemma digits_of_digit: "c \<in> set (digits_of n) \<Longrightarrow> is_ascii_digit c"
proof (induction n rule: digits_of.induct)
  case (1 n)
  have "n mod 10 < 10" by simp
  with 1 show ?case
    by (subst (asm) (2) digits_of.simps) (auto simp: is_ascii_digit_def split: if_splits)
qed

lemma digits_of_nonempty [simp]: "digits_of n \<noteq> []"
  by (subst digits_of.simps) simp

lemma digits_value_of [simp]: "digits_value (digits_of n) = n"
proof (induction n rule: digits_of.induct)
  case (1 n)
  then show ?case
    by (subst digits_of.simps) (auto simp: digits_value_def)
qed

lemma str_len_ascii: "(\<And>c. c \<in> set s \<Longrightarrow> c < 0x80) \<Longrightarrow> str_len s = length s"
  by (induction s) (auto simp: len_utf8_def)

lemma str_len_digits_of: "str_len (digits_of n) = length (digits_of n)"
  by (rule str_len_ascii) (auto dest!: digits_of_digit simp: is_ascii_digit_def)

end
