(* ===== verification/BTreeMap.thy ===== *)
theory BTreeMap
  imports Prelude
begin

text \<open>
  Rust's \<open>BTreeMap\<close> as the list of its entries in key order. The \<open>ordered_map\<close> locale is the
  interface the components use (\<open>get\<close>, \<open>insert\<close>, iteration over the keys in order); the lists
  are its interpretation.
\<close>

type_synonym ('k, 'v) btree = "('k \<times> 'v) list"

definition bt_empty :: "('k, 'v) btree" where
  "bt_empty = []"

definition bt_get :: "('k, 'v) btree \<Rightarrow> 'k \<Rightarrow> 'v option" where
  "bt_get m k = map_of m k"

definition bt_contains :: "('k, 'v) btree \<Rightarrow> 'k \<Rightarrow> bool" where
  "bt_contains m k \<longleftrightarrow> bt_get m k \<noteq> None"

fun bt_insert :: "'k::linorder \<Rightarrow> 'v \<Rightarrow> ('k, 'v) btree \<Rightarrow> ('k, 'v) btree" where
  "bt_insert k v [] = [(k, v)]"
| "bt_insert k v ((k', v') # m) =
     (if k < k' then (k, v) # (k', v') # m
      else if k = k' then (k, v) # m
      else (k', v') # bt_insert k v m)"

definition bt_remove :: "'k \<Rightarrow> ('k, 'v) btree \<Rightarrow> ('k, 'v) btree" where
  "bt_remove k m = filter (\<lambda>(k', _). k' \<noteq> k) m"

definition bt_keys :: "('k, 'v) btree \<Rightarrow> 'k list" where
  "bt_keys m = map fst m"

definition bt_values :: "('k, 'v) btree \<Rightarrow> 'v list" where
  "bt_values m = map snd m"

definition bt_wf :: "('k::linorder, 'v) btree \<Rightarrow> bool" where
  "bt_wf m \<longleftrightarrow> sorted_wrt (<) (bt_keys m)"

lemma bt_contains_simps [simp]:
  "bt_contains [] k = False"
  "bt_contains ((k', v) # m) k = (k = k' \<or> bt_contains m k)"
  by (auto simp: bt_contains_def bt_get_def)

lemma bt_get_insert: "bt_get (bt_insert k v m) k' = (if k' = k then Some v else bt_get m k')"
  by (induction k v m rule: bt_insert.induct) (auto simp: bt_get_def)

lemma bt_get_remove: "bt_get (bt_remove k m) k' = (if k' = k then None else bt_get m k')"
  by (induction m) (auto simp: bt_get_def bt_remove_def)

lemma bt_contains_insert [simp]: "bt_contains (bt_insert k v m) k' \<longleftrightarrow> k' = k \<or> bt_contains m k'"
  by (auto simp: bt_contains_def bt_get_insert)

lemma bt_keys_simps [simp]: "bt_keys [] = []" "bt_keys ((k, v) # m) = k # bt_keys m"
  by (simp_all add: bt_keys_def)

lemma bt_wf_simps [simp]:
  "bt_wf []" "bt_wf ((k, v) # m) \<longleftrightarrow> (\<forall>x \<in> set (bt_keys m). k < x) \<and> bt_wf m"
  by (auto simp: bt_wf_def)

lemma bt_keys_insert [simp]: "set (bt_keys (bt_insert k v m)) = insert k (set (bt_keys m))"
  by (induction k v m rule: bt_insert.induct) auto

lemma bt_wf_insert: "bt_wf m \<Longrightarrow> bt_wf (bt_insert k v m)"
  by (induction k v m rule: bt_insert.induct) (auto intro: order.strict_trans)

lemma bt_wf_remove: "bt_wf m \<Longrightarrow> bt_wf (bt_remove k m)"
  by (auto simp: bt_wf_def bt_keys_def bt_remove_def sorted_wrt_map intro: sorted_wrt_filter)

lemma bt_contains_keys: "bt_contains m k \<longleftrightarrow> k \<in> set (bt_keys m)"
  by (induction m) auto

lemma bt_get_Some_in: "bt_get m k = Some v \<Longrightarrow> (k, v) \<in> set m"
  by (auto simp: bt_get_def dest: map_of_SomeD)

lemma bt_wf_distinct: "bt_wf m \<Longrightarrow> distinct (bt_keys m)"
  by (simp add: bt_wf_def strict_sorted_iff)

lemma bt_get_eq: "bt_wf m \<Longrightarrow> bt_get m k = Some v \<longleftrightarrow> (k, v) \<in> set m"
  using bt_wf_distinct [of m] by (auto simp: bt_get_def bt_keys_def)

lemma length_bt_insert:
  "length (bt_insert k v m) = (if bt_contains m k then length m else Suc (length m))"
  if "bt_wf m"
  using that
  by (induction k v m rule: bt_insert.induct) (auto simp: bt_contains_keys)

section \<open>The interface\<close>

locale ordered_map =
  fixes get :: "'m \<Rightarrow> 'k::linorder \<Rightarrow> 'v option"
    and insert :: "'k \<Rightarrow> 'v \<Rightarrow> 'm \<Rightarrow> 'm"
    and keys :: "'m \<Rightarrow> 'k list"
    and wf :: "'m \<Rightarrow> bool"
  assumes get_insert: "get (insert k v m) k' = (if k' = k then Some v else get m k')"
    and keys_get: "wf m \<Longrightarrow> k \<in> set (keys m) \<longleftrightarrow> get m k \<noteq> None"
    and keys_sorted: "wf m \<Longrightarrow> sorted_wrt (<) (keys m)"
    and wf_insert: "wf m \<Longrightarrow> wf (insert k v m)"
begin

lemma keys_insert: "wf m \<Longrightarrow> set (keys (insert k v m)) = {k} \<union> set (keys m)"
  using keys_get [of m] keys_get [OF wf_insert, of m] by (auto simp: get_insert split: if_splits)

lemma size_insert:
  assumes "wf m"
  shows "length (keys (insert k v m)) =
    (if get m k = None then Suc (length (keys m)) else length (keys m))"
proof -
  have d: "distinct (keys m)" if "wf m" for m
    using keys_sorted [OF that] by (simp add: strict_sorted_iff)
  have "length (keys (insert k v m)) = card ({k} \<union> set (keys m))"
    using distinct_card [OF d [OF wf_insert [OF assms]]] keys_insert [OF assms] by metis
  then show ?thesis
    using distinct_card [OF d [OF assms]] keys_get [OF assms, of k] by (auto simp: insert_absorb)
qed

lemma insert_keeps: "get m k = Some v \<Longrightarrow> k' \<noteq> k \<Longrightarrow> get (insert k' v' m) k = Some v"
  by (simp add: get_insert)

end

interpretation bt: ordered_map bt_get bt_insert bt_keys bt_wf
proof unfold_locales
  show "k \<in> set (bt_keys m) \<longleftrightarrow> bt_get m k \<noteq> None" for m :: "('a, 'b) btree" and k
    using bt_contains_keys [of m k] by (simp add: bt_contains_def)
  show "bt_wf m \<Longrightarrow> sorted_wrt (<) (bt_keys m)" for m :: "('a, 'b) btree"
    by (simp add: bt_wf_def)
qed (auto simp: bt_get_insert bt_wf_insert)

end
