(* ===== verification/MacroBase.thy ===== *)
theory MacroBase
  imports Prelude
begin

text \<open>
  \<open>crates/serial-macro/src/lib.rs\<close>: the data model of Macro Script v1 that the lexer, the
  parser, the compiler and the virtual machine share. An error keeps the code and the span
  the source gives it; its message is display text on which nothing depends and is left out.
  A computation of the crate ends in a value, in an error, in a Rust panic (an index out of
  range, an \<open>unwrap\<close> of \<open>None\<close>, \<open>unreachable!\<close>) or, for the parser, whose recursion is
  bounded by fuel here, in \<open>Out_of_fuel\<close>: that the last two never happen is proved.
\<close>

section \<open>Spans and errors\<close>

record span =
  span_offset :: nat
  span_end :: nat
  span_line :: nat
  span_column :: nat

definition span_default :: span where
  "span_default = \<lparr>span_offset = 0, span_end = 0, span_line = 0, span_column = 0\<rparr>"

definition span_start :: span where
  "span_start = span_default\<lparr>span_line := 1, span_column := 1\<rparr>"

datatype ecode =
    Argument_count | Command_control_character | Division_by_zero | Duplicate_variable
  | Duration_limit | Effect_budget | Effect_failed | Effect_protocol | Empty_pattern
  | Expect_timeout | Instruction_budget | Integer_overflow | Interrupted
  | Invalid_command_mode | Invalid_escape | Invalid_limits | Invalid_loop_control
  | Invalid_parameter | Invalid_string | Missing_parameter | Missing_prompt | Nesting_limit
  | Parameter_limit | Parameter_type | Source_limit | Stack_limit | Static_prompt_required
  | String_limit | Syntax_error | Tx_budget | Type_error | Unexpected_character
  | Unknown_field | Unknown_function | Unknown_parameter | Unknown_prompt | Unknown_variable
  | Unknown_watcher | Unterminated_string | Variable_limit | Vm_invariant | Watcher_budget

record macro_error =
  err_code :: ecode
  err_span :: span

datatype fault = Fail macro_error | Panic | Out_of_fuel

type_synonym 'a res = "fault + 'a"

definition err :: "ecode \<Rightarrow> span \<Rightarrow> fault" where
  "err c sp = Fail \<lparr>err_code = c, err_span = sp\<rparr>"

lemma err_simps [simp]:
  "err c sp \<noteq> Panic" "err c sp \<noteq> Out_of_fuel" "Panic \<noteq> err c sp" "Out_of_fuel \<noteq> err c sp"
  "err c sp = Fail e \<longleftrightarrow> e = \<lparr>err_code = c, err_span = sp\<rparr>"
  "err c sp = err c' sp' \<longleftrightarrow> c = c' \<and> sp = sp'"
  by (auto simp: err_def)

text \<open>The failures that are no error of the script: a panic, or a bound of the model.\<close>

definition crash_free :: "'a res \<Rightarrow> bool" where
  "crash_free r \<longleftrightarrow> r \<noteq> Inl Panic \<and> r \<noteq> Inl Out_of_fuel"

lemma crash_free_simps [simp, intro]:
  "crash_free (Inr x)" "crash_free (Inl (err c sp))" "\<not> crash_free (Inl Panic)"
  "\<not> crash_free (Inl Out_of_fuel)" "crash_free (Inl (Fail e))"
  by (auto simp: crash_free_def)

lemma crash_free_bind [intro]:
  "crash_free m \<Longrightarrow> (\<And>x. m = Inr x \<Longrightarrow> crash_free (f x)) \<Longrightarrow> crash_free (sbind m f)"
  by (cases m) (auto simp: crash_free_def)

lemma crash_free_ok_or [simp, intro]: "crash_free (ok_or m (err c sp))"
  by (cases m) auto

lemma crash_free_guard [simp, intro]: "crash_free (guard_ok b (err c sp))"
  by (cases b) auto

section \<open>Values\<close>

datatype valty = TString | TInteger | TBoolean

datatype val = VString rstring | VInteger int | VBoolean bool

fun value_type :: "val \<Rightarrow> valty" where
  "value_type (VString _) = TString"
| "value_type (VInteger _) = TInteger"
| "value_type (VBoolean _) = TBoolean"

text \<open>
  The values a program can hold: an \<open>i64\<close> is within its bounds, and a string is within the
  byte limit \<open>max_str\<close> of the program.
\<close>

fun wf_val :: "nat \<Rightarrow> val \<Rightarrow> bool" where
  "wf_val max_str (VString s) = (str_len s \<le> max_str)"
| "wf_val max_str (VInteger i) = in_i64 i"
| "wf_val max_str (VBoolean b) = True"

section \<open>Limits\<close>

record limits =
  max_source_bytes :: nat
  max_string_bytes :: nat
  max_nesting :: nat
  max_variables :: nat
  max_watchers :: nat
  max_instructions :: nat
  instructions_per_yield :: nat
  max_duration_ms :: nat
  max_total_command_bytes :: nat

definition default_limits :: limits where
  "default_limits =
     \<lparr>max_source_bytes = 65536, max_string_bytes = 4096, max_nesting = 64,
      max_variables = 256, max_watchers = 256, max_instructions = 100000,
      instructions_per_yield = 256, max_duration_ms = 300000,
      max_total_command_bytes = 1048576\<rparr>"

section \<open>Effects\<close>

type_synonym watcher_id = nat

datatype effect_kind =
    Command (cmd_text: rstring) (verify_echo: bool)
  | Watch (watch_id: watcher_id) (watch_pattern: rstring)
  | Wait (wait_id: watcher_id) (timeout_ms: nat) (strict: bool)
  | Delay (duration_ms: nat)

record effect =
  eff_id :: nat
  eff_span :: span
  eff_kind :: effect_kind

datatype effect_result = Done | Matched bool

datatype vm_step = Step_effect effect | Yielded | Complete

text \<open>Commands are line-oriented: bounded, and without any control character.\<close>

definition validate_command :: "rstring \<Rightarrow> nat \<Rightarrow> span \<Rightarrow> unit res" where
  "validate_command text max_bytes sp =
     (if str_len text > max_bytes then Inl (err String_limit sp)
      else if \<exists>c \<in> set text. is_control c then Inl (err Command_control_character sp)
      else Inr ())"

lemma validate_command_Inr_iff:
  "validate_command text n sp = Inr u \<longleftrightarrow>
     str_len text \<le> n \<and> (\<forall>c \<in> set text. \<not> is_control c)"
  by (auto simp: validate_command_def)

lemma crash_free_validate_command [simp, intro]: "crash_free (validate_command t n sp)"
  by (simp add: validate_command_def)

end
