(* ===== verification/MacroLexer.thy ===== *)
theory MacroLexer
  imports MacroBase
begin

text \<open>
  The lexer of \<open>crates/serial-macro/src/syntax.rs\<close>. The state keeps the characters still to
  be read instead of the whole source and a byte offset into it; the offset, the line and
  the column are carried as the code does. A slice of the source between two offsets is the
  list of the characters read between them.
\<close>

section \<open>Tokens\<close>

datatype token_kind =
    TIdent rstring | TStr rstring | TInt int
  | LParen | RParen | LBrace | RBrace | Semicolon | Comma | Dot
  | Plus | Minus | Star | Slash | Percent | Bang | Equal
  | EqualEqual | BangEqual | Less | LessEqual | Greater | GreaterEqual
  | AndAnd | OrOr | PlusPlus | MinusMinus
  | PlusEqual | MinusEqual | StarEqual | SlashEqual | PercentEqual | Eof

record token =
  kind :: token_kind
  tspan :: span

section \<open>Reading characters\<close>

record lexer =
  rest :: rstring
  offset :: nat
  line :: nat
  column :: nat
  max_string :: nat

definition lex_peek :: "lexer \<Rightarrow> rchar option" where
  "lex_peek lx = (case rest lx of [] \<Rightarrow> None | c # _ \<Rightarrow> Some c)"

definition advance_char :: "rchar \<Rightarrow> lexer \<Rightarrow> lexer" where
  "advance_char c lx =
     (let lx = lx\<lparr>rest := tl (rest lx), offset := offset lx + len_utf8 c\<rparr> in
      if c = 10 then lx\<lparr>line := line lx + 1, column := 1\<rparr>
      else lx\<lparr>column := column lx + 1\<rparr>)"

definition lex_next :: "lexer \<Rightarrow> (rchar \<times> lexer) option" where
  "lex_next lx = (case lex_peek lx of None \<Rightarrow> None | Some c \<Rightarrow> Some (c, advance_char c lx))"

definition lex_span :: "lexer \<Rightarrow> span" where
  "lex_span lx = \<lparr>span_offset = offset lx, span_end = offset lx,
                   span_line = line lx, span_column = column lx\<rparr>"

definition lex_take :: "rchar \<Rightarrow> lexer \<Rightarrow> bool \<times> lexer" where
  "lex_take c lx = (if lex_peek lx = Some c then (True, advance_char c lx) else (False, lx))"

text \<open>\<open>while self.peek().is_some_and(p) { self.next(); }\<close>, with the characters it reads.\<close>

function lex_while :: "(rchar \<Rightarrow> bool) \<Rightarrow> lexer \<Rightarrow> rstring \<times> lexer" where
  "lex_while p lx =
     (case rest lx of
        [] \<Rightarrow> ([], lx)
      | c # _ \<Rightarrow>
          if p c then (let (s, lx') = lex_while p (advance_char c lx) in (c # s, lx'))
          else ([], lx))"
  by pat_completeness auto
termination
  by (relation "measure (\<lambda>(p, lx). length (rest lx))") (auto simp: advance_char_def Let_def)

declare lex_while.simps [simp del]

section \<open>String literals\<close>

definition hex_digit :: "rchar \<Rightarrow> nat" where
  "hex_digit c = (if is_ascii_digit c then c - 48 else if 97 \<le> c then c - 87 else c - 55)"

definition from_hex :: "rstring \<Rightarrow> nat" where
  "from_hex hex = foldl (\<lambda>n c. 16 * n + hex_digit c) 0 hex"

text \<open>The digits of \<open>\u{...}\<close>: at most \<open>n\<close> of them; of \<open>\uXXXX\<close>: exactly \<open>n\<close>.\<close>

fun hex_upto :: "nat \<Rightarrow> lexer \<Rightarrow> rstring \<times> lexer" where
  "hex_upto 0 lx = ([], lx)"
| "hex_upto (Suc n) lx =
     (case lex_peek lx of
        Some c \<Rightarrow>
          if is_ascii_hexdigit c
          then (let (s, lx') = hex_upto n (advance_char c lx) in (c # s, lx'))
          else ([], lx)
      | None \<Rightarrow> ([], lx))"

fun hex_exact :: "nat \<Rightarrow> span \<Rightarrow> lexer \<Rightarrow> (rstring \<times> lexer) res" where
  "hex_exact 0 start lx = Inr ([], lx)"
| "hex_exact (Suc n) start lx =
     (case lex_next lx of
        None \<Rightarrow> Inl (err Invalid_escape start)
      | Some (c, lx) \<Rightarrow>
          if is_ascii_hexdigit c
          then sbind (hex_exact n start lx) (\<lambda>(s, lx). Inr (c # s, lx))
          else Inl (err Invalid_escape start))"

definition lex_unicode_escape :: "span \<Rightarrow> lexer \<Rightarrow> (rchar \<times> lexer) res" where
  "lex_unicode_escape start lx =
     (let (brace, lx) = lex_take (of_char CHR ''{'') lx in
      sbind
        (if brace then
           (let (hex, lx) = hex_upto 6 lx;
                (closed, lx) = lex_take (of_char CHR ''}'') lx in
            if hex = [] \<or> \<not> closed then Inl (err Invalid_escape start) else Inr (hex, lx))
         else hex_exact 4 start lx)
        (\<lambda>(hex, lx).
           let n = from_hex hex in
           if is_scalar n then Inr (n, lx) else Inl (err Invalid_escape start)))"

definition lex_escape :: "span \<Rightarrow> lexer \<Rightarrow> (rchar \<times> lexer) res" where
  "lex_escape start lx =
     (case lex_next lx of
        None \<Rightarrow> Inl (err Invalid_escape start)
      | Some (escaped, lx) \<Rightarrow>
          if escaped = of_char CHR ''\"'' then Inr (of_char CHR ''\"'', lx)
          else if escaped = 92 then Inr (92, lx)
          else if escaped = of_char CHR ''n'' then Inr (10, lx)
          else if escaped = of_char CHR ''r'' then Inr (13, lx)
          else if escaped = of_char CHR ''t'' then Inr (9, lx)
          else if escaped = of_char CHR ''0'' then Inr (0, lx)
          else if escaped = of_char CHR ''u'' then lex_unicode_escape start lx
          else Inl (err Invalid_escape start))"

section \<open>Reading consumes the input\<close>

text \<open>
  \<open>lex_le lx' lx\<close>: the lexer moved from \<open>lx\<close> to \<open>lx'\<close> by reading characters, so the
  characters left are a suffix and the offset grew by the bytes of what was read.
\<close>

definition lex_le :: "lexer \<Rightarrow> lexer \<Rightarrow> bool" where
  "lex_le lx' lx \<longleftrightarrow>
     (\<exists>read. rest lx = read @ rest lx' \<and> offset lx' = offset lx + str_len read)
     \<and> max_string lx' = max_string lx"

lemma lex_leI:
  "rest lx = read @ rest lx' \<Longrightarrow> offset lx' = offset lx + str_len read \<Longrightarrow>
   max_string lx' = max_string lx \<Longrightarrow> lex_le lx' lx"
  by (auto simp: lex_le_def)

lemma lex_le_refl [simp, intro]: "lex_le lx lx"
  by (rule lex_leI [where read = "[]"]) simp_all

lemma lex_le_trans [trans]: "lex_le lx3 lx2 \<Longrightarrow> lex_le lx2 lx1 \<Longrightarrow> lex_le lx3 lx1"
  unfolding lex_le_def by (metis append.assoc add.assoc str_len_simps(3))

lemma lex_le_length: "lex_le lx' lx \<Longrightarrow> length (rest lx') \<le> length (rest lx)"
  by (auto simp: lex_le_def)

lemma lex_le_offset: "lex_le lx' lx \<Longrightarrow> offset lx \<le> offset lx'"
  by (auto simp: lex_le_def)

lemma lex_le_total:
  "lex_le lx' lx \<Longrightarrow> offset lx' + str_len (rest lx') = offset lx + str_len (rest lx)"
  by (auto simp: lex_le_def)

lemma advance_char_fields:
  "rest (advance_char c lx) = tl (rest lx)"
  "offset (advance_char c lx) = offset lx + len_utf8 c"
  "max_string (advance_char c lx) = max_string lx"
  by (simp_all add: advance_char_def Let_def)

lemma advance_char_le: "lex_peek lx = Some c \<Longrightarrow> lex_le (advance_char c lx) lx"
  by (rule lex_leI [where read = "[c]"])
     (auto simp: lex_peek_def advance_char_fields split: list.splits)

lemma advance_char_less:
  "lex_peek lx = Some c \<Longrightarrow> length (rest (advance_char c lx)) < length (rest lx)"
  by (auto simp: lex_peek_def advance_char_fields split: list.splits)

lemma lex_next_Some_iff:
  "lex_next lx = Some (c, lx') \<longleftrightarrow> lex_peek lx = Some c \<and> lx' = advance_char c lx"
  by (auto simp: lex_next_def split: option.splits)

lemma lex_next_le: "lex_next lx = Some (c, lx') \<Longrightarrow> lex_le lx' lx"
  by (auto simp: lex_next_Some_iff intro: advance_char_le)

lemma lex_next_less: "lex_next lx = Some (c, lx') \<Longrightarrow> length (rest lx') < length (rest lx)"
  by (auto simp: lex_next_Some_iff intro: advance_char_less)

lemma lex_take_le: "lex_take c lx = (b, lx') \<Longrightarrow> lex_le lx' lx"
  by (auto simp: lex_take_def intro: advance_char_le split: if_splits)

lemma lex_while_le: "lex_while p lx = (s, lx') \<Longrightarrow> lex_le lx' lx"
proof (induction p lx arbitrary: s lx' rule: lex_while.induct)
  case (1 p lx)
  show ?case
  proof (cases "\<exists>c. lex_peek lx = Some c \<and> p c")
    case True
    then obtain c cs where c: "lex_peek lx = Some c" "p c" "rest lx = c # cs"
      by (auto simp: lex_peek_def split: list.splits)
    obtain s1 lx1 where r: "lex_while p (advance_char c lx) = (s1, lx1)" by fastforce
    from "1.prems" c r have "lx' = lx1" by (simp add: lex_while.simps [of p lx])
    moreover from "1.IH" [OF c(3) c(2) r] have "lex_le lx1 (advance_char c lx)" .
    ultimately show ?thesis using advance_char_le [OF c(1)] by (blast intro: lex_le_trans)
  next
    case False
    with "1.prems" have "lx' = lx"
      by (auto simp: lex_while.simps [of p lx] lex_peek_def split: list.splits)
    then show ?thesis by simp
  qed
qed

lemma hex_upto_le: "hex_upto n lx = (s, lx') \<Longrightarrow> lex_le lx' lx"
  by (induction n lx arbitrary: s lx' rule: hex_upto.induct)
     (auto split: option.splits if_splits prod.splits, blast intro: lex_le_trans advance_char_le)

lemma hex_exact_le: "hex_exact n start lx = Inr (s, lx') \<Longrightarrow> lex_le lx' lx"
  by (induction n start lx arbitrary: s lx' rule: hex_exact.induct)
     (auto split: option.splits if_splits prod.splits simp: res_simps,
      blast intro: lex_le_trans lex_next_le)

lemma lex_unicode_escape_le: "lex_unicode_escape start lx = Inr (c, lx') \<Longrightarrow> lex_le lx' lx"
  by (auto simp: lex_unicode_escape_def res_simps Let_def split: prod.splits if_splits
           dest!: lex_take_le hex_upto_le hex_exact_le intro: lex_le_trans)

lemma lex_escape_le: "lex_escape start lx = Inr (c, lx') \<Longrightarrow> lex_le lx' lx"
  by (auto simp: lex_escape_def split: option.splits if_splits
           dest!: lex_next_le lex_unicode_escape_le intro: lex_le_trans)

text \<open>
  \<open>Lexer::string\<close>, after the opening quote. One round of its loop reads the closing
  quote (\<open>None\<close>) or one character of the text, escaped or not; \<open>out\<close> is the text so far,
  whose length is checked after every character.
\<close>

definition string_char :: "span \<Rightarrow> lexer \<Rightarrow> (rchar option \<times> lexer) res" where
  "string_char start lx =
     (case lex_next lx of
        None \<Rightarrow> Inl (err Unterminated_string start)
      | Some (c, lx) \<Rightarrow>
          if c = of_char CHR ''\"'' then Inr (None, lx)
          else if c = 92 then sbind (lex_escape start lx) (\<lambda>(d, lx). Inr (Some d, lx))
          else if is_control c then Inl (err Invalid_string start)
          else Inr (Some c, lx))"

lemma string_char_le:
  assumes "string_char start lx = Inr (r, lx')"
  shows "lex_le lx' lx" and "length (rest lx') < length (rest lx)"
proof -
  obtain c lx1 where n: "lex_next lx = Some (c, lx1)" and l: "lex_le lx' lx1"
    using assms
    by (auto simp: string_char_def res_simps split: option.splits if_splits)
       (blast intro: lex_escape_le)
  show "lex_le lx' lx" using l lex_next_le [OF n] by (rule lex_le_trans)
  show "length (rest lx') < length (rest lx)"
    using lex_le_length [OF l] lex_next_less [OF n] by simp
qed

function lex_string :: "span \<Rightarrow> rstring \<Rightarrow> lexer \<Rightarrow> (rstring \<times> lexer) res" where
  "lex_string start out lx =
     (case string_char start lx of
        Inl e \<Rightarrow> Inl e
      | Inr (None, lx') \<Rightarrow> Inr (out, lx')
      | Inr (Some c, lx') \<Rightarrow>
          if str_len (out @ [c]) > max_string lx' then Inl (err String_limit start)
          else lex_string start (out @ [c]) lx')"
  by pat_completeness auto
termination
  by (relation "measure (\<lambda>(start, out, lx). length (rest lx))") (auto dest: string_char_le)

declare lex_string.simps [simp del]

lemma lex_string_sound:
  "lex_string start out lx = Inr (s, lx') \<Longrightarrow>
   lex_le lx' lx \<and> (str_len out \<le> max_string lx \<longrightarrow> str_len s \<le> max_string lx)"
proof (induction start out lx arbitrary: s lx' rule: lex_string.induct)
  case (1 start out lx)
  obtain r lx1 where c: "string_char start lx = Inr (r, lx1)"
    using "1.prems" by (cases "string_char start lx") (auto simp: lex_string.simps [of start out lx])
  note le = string_char_le(1) [OF c]
  have m: "max_string lx1 = max_string lx" using le by (simp add: lex_le_def)
  show ?case
  proof (cases r)
    case None
    with c "1.prems" le show ?thesis by (auto simp: lex_string.simps [of start out lx])
  next
    case (Some d)
    with c "1.prems" have len: "str_len (out @ [d]) \<le> max_string lx1"
      and r: "lex_string start (out @ [d]) lx1 = Inr (s, lx')"
      by (auto simp: lex_string.simps [of start out lx] split: if_splits)
    from Some have "\<not> str_len (out @ [d]) > max_string lx1" using len by simp
    from "1.IH" [OF c refl Some this r] len m le show ?thesis by (auto intro: lex_le_trans)
  qed
qed

lemma lex_string_le: "lex_string start out lx = Inr (s, lx') \<Longrightarrow> lex_le lx' lx"
  by (drule lex_string_sound) simp

section \<open>Tokens of a source text\<close>

text \<open>The tokens that one or two characters decide; \<open>None\<close>: no punctuation starts with \<open>c\<close>.\<close>

definition take_or :: "rchar \<Rightarrow> token_kind \<Rightarrow> token_kind \<Rightarrow> lexer \<Rightarrow> token_kind \<times> lexer" where
  "take_or c yes no lx = (let (b, lx') = lex_take c lx in if b then (yes, lx') else (no, lx'))"

definition lex_punct :: "rchar \<Rightarrow> lexer \<Rightarrow> (token_kind \<times> lexer) option" where
  "lex_punct c lx =
     (let eq = of_char CHR ''='' in
      if c = of_char CHR ''('' then Some (LParen, lx)
      else if c = of_char CHR '')'' then Some (RParen, lx)
      else if c = of_char CHR ''{'' then Some (LBrace, lx)
      else if c = of_char CHR ''}'' then Some (RBrace, lx)
      else if c = of_char CHR '';'' then Some (Semicolon, lx)
      else if c = of_char CHR '','' then Some (Comma, lx)
      else if c = of_char CHR ''.'' then Some (Dot, lx)
      else if c = of_char CHR ''+'' then
        Some (let (b, lx1) = lex_take (of_char CHR ''+'') lx in
              if b then (PlusPlus, lx1) else take_or eq PlusEqual Plus lx1)
      else if c = of_char CHR ''-'' then
        Some (let (b, lx1) = lex_take (of_char CHR ''-'') lx in
              if b then (MinusMinus, lx1) else take_or eq MinusEqual Minus lx1)
      else if c = of_char CHR ''*'' then Some (take_or eq StarEqual Star lx)
      else if c = of_char CHR ''/'' then Some (take_or eq SlashEqual Slash lx)
      else if c = of_char CHR ''%'' then Some (take_or eq PercentEqual Percent lx)
      else if c = of_char CHR ''!'' then Some (take_or eq BangEqual Bang lx)
      else if c = of_char CHR ''='' then Some (take_or eq EqualEqual Equal lx)
      else if c = of_char CHR ''<'' then Some (take_or eq LessEqual Less lx)
      else if c = of_char CHR ''>'' then Some (take_or eq GreaterEqual Greater lx)
      else if c = of_char CHR ''&'' \<and> fst (lex_take c lx) then Some (AndAnd, snd (lex_take c lx))
      else if c = of_char CHR ''|'' \<and> fst (lex_take c lx) then Some (OrOr, snd (lex_take c lx))
      else None)"

definition parse_i64 :: "rstring \<Rightarrow> int option" where
  "parse_i64 ds = checked_i64 (int (digits_value ds))"

definition ident_start :: "rchar \<Rightarrow> bool" where
  "ident_start c \<longleftrightarrow> is_ascii_alphabetic c \<or> c = 95"

definition ident_char :: "rchar \<Rightarrow> bool" where
  "ident_char c \<longleftrightarrow> is_ascii_alphanumeric c \<or> c = 95"

text \<open>
  The token that starts with \<open>c\<close>, which has just been read: the \<open>match c\<close> of \<open>tokens\<close>.
\<close>

definition lex_token :: "rchar \<Rightarrow> span \<Rightarrow> lexer \<Rightarrow> (token_kind \<times> lexer) res" where
  "lex_token c sp lx =
     (case lex_punct c lx of
        Some r \<Rightarrow> Inr r
      | None \<Rightarrow>
          if c = of_char CHR ''\"'' then
            sbind (lex_string sp [] lx) (\<lambda>(s, lx). Inr (TStr s, lx))
          else if is_ascii_digit c then
            (let (ds, lx) = lex_while is_ascii_digit lx in
             sbind (ok_or (parse_i64 (c # ds)) (err Integer_overflow sp))
               (\<lambda>v. Inr (TInt v, lx)))
          else if ident_start c then
            (let (s, lx) = lex_while ident_char lx in Inr (TIdent (c # s), lx))
          else Inl (err Unexpected_character sp))"

definition starts_comment :: "lexer \<Rightarrow> bool" where
  "starts_comment lx \<longleftrightarrow> take 2 (rest lx) = lit ''//''"

definition skip_comment :: "lexer \<Rightarrow> lexer" where
  "skip_comment lx = snd (lex_while (\<lambda>c. c \<noteq> 10) lx)"

lemma take_or_le: "take_or c y n lx = (k, lx') \<Longrightarrow> lex_le lx' lx"
  by (auto simp: take_or_def Let_def split: prod.splits if_splits dest: lex_take_le)

lemma lex_punct_le: "lex_punct c lx = Some (k, lx') \<Longrightarrow> lex_le lx' lx"
proof -
  have t: "lex_le (snd (lex_take d lx)) lx" for d
    using lex_take_le [of d lx "fst (lex_take d lx)" "snd (lex_take d lx)"] by simp
  assume "lex_punct c lx = Some (k, lx')"
  then show ?thesis
    unfolding lex_punct_def Let_def
    by (auto split: if_splits prod.splits dest!: take_or_le dest: lex_take_le intro: t lex_le_trans)
qed

lemma lex_token_le: "lex_token c sp lx = Inr (k, lx') \<Longrightarrow> lex_le lx' lx"
  by (auto simp: lex_token_def res_simps Let_def split: option.splits if_splits prod.splits
           dest: lex_punct_le lex_string_le lex_while_le)

lemma skip_comment_le: "lex_le (skip_comment lx) lx"
  unfolding skip_comment_def
  by (metis lex_while_le prod.collapse)

lemma skip_comment_less:
  "starts_comment lx \<Longrightarrow> length (rest (skip_comment lx)) < length (rest lx)"
proof -
  assume "starts_comment lx"
  then obtain cs where r: "rest lx = 47 # cs"
    by (cases "rest lx") (auto simp: starts_comment_def lit_def)
  then have p: "lex_peek lx = Some 47" by (simp add: lex_peek_def)
  have "length (rest (snd (lex_while (\<lambda>c. c \<noteq> 10) (advance_char 47 lx))))
      \<le> length (rest (advance_char 47 lx))"
    by (rule lex_le_length) (metis lex_while_le prod.collapse)
  with r advance_char_less [OF p] show ?thesis
    by (cases "lex_while (\<lambda>c. c \<noteq> 10) (advance_char 47 lx)")
       (simp add: skip_comment_def lex_while.simps [of _ lx])
qed

text \<open>\<open>Lexer::tokens\<close>: white space and comments are skipped, every other character starts
  a token, and the end of the source is one more token.\<close>

function lex_tokens :: "lexer \<Rightarrow> token list res" where
  "lex_tokens lx =
     (case lex_peek lx of
        None \<Rightarrow> Inr [\<lparr>kind = Eof, tspan = lex_span lx\<rparr>]
      | Some c \<Rightarrow>
          if is_ascii_whitespace c then lex_tokens (advance_char c lx)
          else if starts_comment lx then lex_tokens (skip_comment lx)
          else
            (let sp = lex_span lx in
             case lex_token c sp (advance_char c lx) of
               Inl e \<Rightarrow> Inl e
             | Inr (k, lx') \<Rightarrow>
                 sbind (lex_tokens lx')
                   (\<lambda>ts. Inr (\<lparr>kind = k, tspan = sp\<lparr>span_end := offset lx'\<rparr>\<rparr> # ts))))"
  by pat_completeness auto
termination
  by (relation "measure (\<lambda>lx. length (rest lx))")
     (auto dest!: lex_token_le lex_le_length dest: advance_char_less skip_comment_less)

declare lex_tokens.simps [simp del]

definition lexer_new :: "rstring \<Rightarrow> nat \<Rightarrow> lexer" where
  "lexer_new source max_str =
     \<lparr>rest = source, offset = 0, line = 1, column = 1, max_string = max_str\<rparr>"

end
