(* ===== verification/MacroAst.thy ===== *)
theory MacroAst
  imports MacroBase
begin

text \<open>
  The syntax trees of \<open>crates/serial-macro/src/syntax.rs\<close> and the depth check the parser runs
  on them. The constructors carry the names of the Rust enums, prefixed where they would
  hide a HOL name; \<open>Box\<close> disappears.
\<close>

section \<open>Expressions and statements\<close>

datatype unary = Negate | Not

datatype binary =
    Add | Subtract | Multiply | Divide | Remainder
  | BEqual | BNotEqual | BLess | BLessEqual | BGreater | BGreaterEqual
  | And | Or

datatype expr = Expr (ekind: expr_kind) (espan: span)
  and expr_kind =
      ELiteral val
    | EVariable rstring
    | EMember expr rstring
    | EUnary unary expr
    | EBinary binary expr expr
    | ECall rstring "expr list"

datatype stmt = Stmt (skind: stmt_kind) (sspan: span)
  and stmt_kind =
      SLet rstring expr
    | SAssign rstring expr
    | SExpression expr
    | SBlock "stmt list"
    | SIf expr stmt "stmt option"
    | SWhile expr stmt
    | SFor "stmt option" "expr option" "stmt option" stmt
    | SBreak
    | SContinue
    | SEmpty

section \<open>The depth of an expression\<close>

fun expr_depth :: "expr \<Rightarrow> nat"
  and expr_depths :: "expr list \<Rightarrow> nat" where
  "expr_depth (Expr (ELiteral v) sp) = 1"
| "expr_depth (Expr (EVariable x) sp) = 1"
| "expr_depth (Expr (EMember e f) sp) = Suc (expr_depth e)"
| "expr_depth (Expr (EUnary u e) sp) = Suc (expr_depth e)"
| "expr_depth (Expr (EBinary b l r) sp) = Suc (max (expr_depth l) (expr_depth r))"
| "expr_depth (Expr (ECall f es) sp) = Suc (expr_depths es)"
| "expr_depths [] = 0"
| "expr_depths (e # es) = max (expr_depth e) (expr_depths es)"

lemma expr_depths_le_iff: "expr_depths es \<le> n \<longleftrightarrow> (\<forall>e \<in> set es. expr_depth e \<le> n)"
  by (induction es) auto

lemma expr_depth_pos: "0 < expr_depth e"
  by (cases e; cases "ekind e") auto

lemma expr_depths_add_le_iff:
  "expr_depths es + d \<le> m \<longleftrightarrow> d \<le> m \<and> (\<forall>e \<in> set es. expr_depth e + d \<le> m)"
  by (induction es) auto

text \<open>
  \<open>Parser::check_expression_depth\<close> walks the tree with an explicit stack of pending nodes
  and their depth; the head of the list is the top of the \<open>Vec\<close>.
\<close>

fun pending_children :: "expr \<Rightarrow> expr list" where
  "pending_children (Expr (EMember base _) _) = [base]"
| "pending_children (Expr (EUnary _ base) _) = [base]"
| "pending_children (Expr (EBinary _ left right) _) = [left, right]"
| "pending_children (Expr (ECall _ args) _) = args"
| "pending_children (Expr (ELiteral _) _) = []"
| "pending_children (Expr (EVariable _) _) = []"

fun expr_nodes :: "expr \<Rightarrow> nat"
  and exprs_nodes :: "expr list \<Rightarrow> nat" where
  "expr_nodes (Expr (ELiteral v) sp) = 1"
| "expr_nodes (Expr (EVariable x) sp) = 1"
| "expr_nodes (Expr (EMember e f) sp) = Suc (expr_nodes e)"
| "expr_nodes (Expr (EUnary u e) sp) = Suc (expr_nodes e)"
| "expr_nodes (Expr (EBinary b l r) sp) = Suc (expr_nodes l + expr_nodes r)"
| "expr_nodes (Expr (ECall f es) sp) = Suc (exprs_nodes es)"
| "exprs_nodes [] = 0"
| "exprs_nodes (e # es) = expr_nodes e + exprs_nodes es"

lemma exprs_nodes_sum: "exprs_nodes es = sum_list (map expr_nodes es)"
  by (induction es) auto

lemma expr_nodes_children: "expr_nodes e = Suc (sum_list (map expr_nodes (pending_children e)))"
  by (induction e rule: pending_children.induct) (auto simp: exprs_nodes_sum)

lemma expr_nodes_children_less:
  "(\<Sum>c\<leftarrow>pending_children e. expr_nodes c) < expr_nodes e"
  by (subst (2) expr_nodes_children) simp

lemma expr_depth_children:
  "expr_depth e + d \<le> Suc m \<longleftrightarrow> d \<le> m \<and> (\<forall>c \<in> set (pending_children e). expr_depth c + d \<le> m)"
  by (induction e rule: pending_children.induct) (auto simp: expr_depths_add_le_iff)

function check_pending :: "nat \<Rightarrow> (expr \<times> nat) list \<Rightarrow> unit res" where
  "check_pending max_depth pending =
     (case pending of
        [] \<Rightarrow> Inr ()
      | (expression, depth) # pending \<Rightarrow>
          if depth > max_depth then Inl (err Nesting_limit (espan expression))
          else check_pending max_depth
                 (rev (map (\<lambda>c. (c, depth + 1)) (pending_children expression)) @ pending))"
  by pat_completeness auto
termination
  by (relation "measure (\<lambda>(m, pending). sum_list (map (expr_nodes \<circ> fst) pending))")
     (auto simp: comp_def sum_list_rev expr_nodes_children_less simp flip: rev_map)

declare check_pending.simps [simp del]

definition check_expression_depth :: "nat \<Rightarrow> expr \<Rightarrow> unit res" where
  "check_expression_depth max_depth root = check_pending max_depth [(root, 1)]"

lemma check_pending_Inr_iff:
  "check_pending m ps = Inr u \<longleftrightarrow> (\<forall>(e, d) \<in> set ps. expr_depth e + d \<le> Suc m)"
proof (induction m ps rule: check_pending.induct)
  case (1 m ps)
  show ?case
  proof (cases ps)
    case Nil
    then show ?thesis by (simp add: check_pending.simps [of m "[]"])
  next
    case (Cons p qs)
    obtain e d where p: "p = (e, d)" by fastforce
    show ?thesis
    proof (cases "d > m")
      case True
      then show ?thesis
        using expr_depth_pos [of e] by (auto simp: check_pending.simps [of m "(e, d) # qs"] Cons p)
    next
      case False
      then show ?thesis using "1.IH" [OF Cons p [symmetric] False] expr_depth_children [of e d m]
        by (simp add: check_pending.simps [of m "(e, d) # qs"] Cons p ball_Un)
    qed
  qed
qed

lemma check_expression_depth_iff: "check_expression_depth m e = Inr u \<longleftrightarrow> expr_depth e \<le> m"
  using expr_depth_pos [of e] by (auto simp: check_expression_depth_def check_pending_Inr_iff)

lemma crash_free_check_pending: "crash_free (check_pending m ps)"
  by (induction m ps rule: check_pending.induct)
     (subst check_pending.simps, auto split: list.splits)

lemma crash_free_check_expression_depth [simp, intro]:
  "crash_free (check_expression_depth m e)"
  by (simp add: check_expression_depth_def crash_free_check_pending)

section \<open>Well-formed trees\<close>

text \<open>
  What the parser guarantees of its result and the compiler relies on: literals are values of
  the language, expressions are bounded in depth, the body of a control-flow statement is a
  block (or, after \<open>else\<close>, another \<open>if\<close>), and a \<open>for\<close> header holds simple statements.
\<close>

fun wf_expr :: "nat \<Rightarrow> expr \<Rightarrow> bool"
  and wf_exprs :: "nat \<Rightarrow> expr list \<Rightarrow> bool" where
  "wf_expr ms (Expr (ELiteral v) sp) = wf_val ms v"
| "wf_expr ms (Expr (EVariable x) sp) = True"
| "wf_expr ms (Expr (EMember e f) sp) = wf_expr ms e"
| "wf_expr ms (Expr (EUnary u e) sp) = wf_expr ms e"
| "wf_expr ms (Expr (EBinary b l r) sp) = (wf_expr ms l \<and> wf_expr ms r)"
| "wf_expr ms (Expr (ECall f es) sp) = wf_exprs ms es"
| "wf_exprs ms [] = True"
| "wf_exprs ms (e # es) = (wf_expr ms e \<and> wf_exprs ms es)"

definition ok_expr :: "nat \<Rightarrow> nat \<Rightarrow> expr \<Rightarrow> bool" where
  "ok_expr ms d e \<longleftrightarrow> wf_expr ms e \<and> expr_depth e \<le> d"

lemma wf_expr_span: "wf_expr ms (Expr k sp) = wf_expr ms (Expr k sp')"
  by (cases k) auto

lemma wf_expr_ekind [simp]: "wf_expr ms (Expr (ekind e) sp) = wf_expr ms e"
  by (cases e) (simp add: wf_expr_span [of ms _ sp])

fun is_block :: "stmt \<Rightarrow> bool" where
  "is_block (Stmt (SBlock _) _) = True"
| "is_block _ = False"

fun is_if :: "stmt \<Rightarrow> bool" where
  "is_if (Stmt (SIf _ _ _) _) = True"
| "is_if _ = False"

fun is_simple :: "stmt \<Rightarrow> bool" where
  "is_simple (Stmt (SLet _ _) _) = True"
| "is_simple (Stmt (SAssign _ _) _) = True"
| "is_simple (Stmt (SExpression _) _) = True"
| "is_simple _ = False"

fun wf_stmt :: "nat \<Rightarrow> nat \<Rightarrow> stmt \<Rightarrow> bool"
  and wf_stmts :: "nat \<Rightarrow> nat \<Rightarrow> stmt list \<Rightarrow> bool"
  and wf_stmt_option :: "nat \<Rightarrow> nat \<Rightarrow> stmt option \<Rightarrow> bool" where
  "wf_stmt ms d (Stmt (SLet x e) sp) = ok_expr ms d e"
| "wf_stmt ms d (Stmt (SAssign x e) sp) = ok_expr ms d e"
| "wf_stmt ms d (Stmt (SExpression e) sp) = ok_expr ms d e"
| "wf_stmt ms d (Stmt (SBlock ss) sp) = wf_stmts ms d ss"
| "wf_stmt ms d (Stmt (SIf c s alt) sp) =
     (ok_expr ms d c \<and> is_block s \<and> wf_stmt ms d s \<and>
      (\<forall>a \<in> set_option alt. is_block a \<or> is_if a) \<and> wf_stmt_option ms d alt)"
| "wf_stmt ms d (Stmt (SWhile c s) sp) = (ok_expr ms d c \<and> is_block s \<and> wf_stmt ms d s)"
| "wf_stmt ms d (Stmt (SFor i c u s) sp) =
     ((\<forall>i \<in> set_option i. is_simple i) \<and> wf_stmt_option ms d i \<and>
      (\<forall>c \<in> set_option c. ok_expr ms d c) \<and>
      (\<forall>u \<in> set_option u. is_simple u) \<and> wf_stmt_option ms d u \<and>
      is_block s \<and> wf_stmt ms d s)"
| "wf_stmt ms d (Stmt SBreak sp) = True"
| "wf_stmt ms d (Stmt SContinue sp) = True"
| "wf_stmt ms d (Stmt SEmpty sp) = True"
| "wf_stmts ms d [] = True"
| "wf_stmts ms d (s # ss) = (wf_stmt ms d s \<and> wf_stmts ms d ss)"
| "wf_stmt_option ms d None = True"
| "wf_stmt_option ms d (Some s) = wf_stmt ms d s"

lemma wf_stmt_span: "wf_stmt ms d (Stmt k sp) = wf_stmt ms d (Stmt k sp')"
  by (cases k) auto

lemma wf_stmt_skind [simp]: "wf_stmt ms d (Stmt (skind s) sp) = wf_stmt ms d s"
  by (cases s) (simp add: wf_stmt_span [of ms d _ sp])

lemma is_simple_span: "is_simple (Stmt k sp) = is_simple (Stmt k sp')"
  by (cases k) auto

lemma ok_expr_mono: "ok_expr ms d e \<Longrightarrow> d \<le> d' \<Longrightarrow> ok_expr ms d' e"
  by (simp add: ok_expr_def)

end
