(* ===== verification/MacroParser.thy ===== *)
theory MacroParser
  imports MacroLexer MacroAst
begin

text \<open>
  The recursive-descent parser of \<open>crates/serial-macro/src/syntax.rs\<close>. Its state splits the
  token vector at the index: \<open>cur\<close> is \<open>tokens[index]\<close>, \<open>later\<close> the tokens behind it; moving
  past the last token is the out-of-range read of the Rust code, a \<open>Panic\<close>. The mutually
  recursive methods take a fuel argument, which bounds the depth of the call chain; the
  loops are recursive calls of their own. \<open>parse_fuel\<close> is enough for every token list.
\<close>

section \<open>State and token tests\<close>

record parser =
  cur :: token
  later :: "token list"
  depth :: nat
  max_depth :: nat

definition at :: "token_kind \<Rightarrow> parser \<Rightarrow> bool" where
  "at k p \<longleftrightarrow> kind (cur p) = k"

definition keyword :: "string \<Rightarrow> parser \<Rightarrow> bool" where
  "keyword text p \<longleftrightarrow> kind (cur p) = TIdent (lit text)"

definition bump :: "parser \<Rightarrow> (token \<times> parser) res" where
  "bump p =
     (if kind (cur p) = Eof then Inr (cur p, p)
      else (case later p of
              [] \<Rightarrow> Inl Panic
            | t # ts \<Rightarrow> Inr (cur p, p\<lparr>cur := t, later := ts\<rparr>)))"

definition skip :: "parser \<Rightarrow> (unit \<times> parser) res" where
  "skip p = sbind (bump p) (\<lambda>(_, p). Inr ((), p))"

definition take_tok :: "token_kind \<Rightarrow> parser \<Rightarrow> (bool \<times> parser) res" where
  "take_tok k p =
     (if at k p then sbind (bump p) (\<lambda>(_, p). Inr (True, p)) else Inr (False, p))"

definition expect :: "token_kind \<Rightarrow> parser \<Rightarrow> (unit \<times> parser) res" where
  "expect k p =
     sbind (take_tok k p)
       (\<lambda>(b, p). if b then Inr ((), p) else Inl (err Syntax_error (tspan (cur p))))"

definition enter :: "parser \<Rightarrow> parser res" where
  "enter p =
     (if depth p \<ge> max_depth p then Inl (err Nesting_limit (tspan (cur p)))
      else Inr (p\<lparr>depth := depth p + 1\<rparr>))"

definition leave :: "parser \<Rightarrow> parser" where
  "leave p = p\<lparr>depth := depth p - 1\<rparr>"

definition reserved_words :: "string list" where
  "reserved_words =
     [''let'', ''if'', ''else'', ''for'', ''while'', ''break'', ''continue'', ''true'',
      ''false'', ''args'', ''return'', ''fn'', ''function'', ''import'', ''eval'']"

definition reserved :: "rstring \<Rightarrow> bool" where
  "reserved name \<longleftrightarrow> name \<in> set (map lit reserved_words)"

fun ident_name :: "token_kind \<Rightarrow> rstring option" where
  "ident_name (TIdent name) = Some name"
| "ident_name _ = None"

fun literal_value :: "token_kind \<Rightarrow> val option" where
  "literal_value (TStr s) = Some (VString s)"
| "literal_value (TInt i) = Some (VInteger i)"
| "literal_value _ = None"

definition p_identifier :: "parser \<Rightarrow> (rstring \<times> parser) res" where
  "p_identifier p =
     sbind (bump p)
       (\<lambda>(token, p).
          case ident_name (kind token) of
            Some name \<Rightarrow>
              if \<not> reserved name then Inr (name, p) else Inl (err Syntax_error (tspan token))
          | None \<Rightarrow> Inl (err Syntax_error (tspan token)))"

lemma ident_name_Some_iff: "ident_name k = Some x \<longleftrightarrow> k = TIdent x"
  by (cases k) auto

lemma literal_value_Some: "literal_value k = Some v \<Longrightarrow> k \<noteq> Eof"
  by (cases k) auto

fun binary :: "token_kind \<Rightarrow> (binary \<times> nat) option" where
  "binary OrOr = Some (Or, 1)"
| "binary AndAnd = Some (And, 2)"
| "binary EqualEqual = Some (BEqual, 3)"
| "binary BangEqual = Some (BNotEqual, 3)"
| "binary Less = Some (BLess, 4)"
| "binary LessEqual = Some (BLessEqual, 4)"
| "binary Greater = Some (BGreater, 4)"
| "binary GreaterEqual = Some (BGreaterEqual, 4)"
| "binary Plus = Some (Add, 5)"
| "binary Minus = Some (Subtract, 5)"
| "binary Star = Some (Multiply, 6)"
| "binary Slash = Some (Divide, 6)"
| "binary Percent = Some (Remainder, 6)"
| "binary _ = None"

text \<open>The operator of an assignment token: \<open>Some None\<close> is plain \<open>=\<close>.\<close>

fun assign_operator :: "token_kind \<Rightarrow> binary option option" where
  "assign_operator Equal = Some None"
| "assign_operator PlusEqual = Some (Some Add)"
| "assign_operator PlusPlus = Some (Some Add)"
| "assign_operator MinusEqual = Some (Some Subtract)"
| "assign_operator MinusMinus = Some (Some Subtract)"
| "assign_operator StarEqual = Some (Some Multiply)"
| "assign_operator SlashEqual = Some (Some Divide)"
| "assign_operator PercentEqual = Some (Some Remainder)"
| "assign_operator _ = None"

section \<open>Total correctness of a parser step\<close>

text \<open>
  \<open>wf_parser\<close>: the tokens end in \<open>Eof\<close> and their literals are values of the language
  (\<open>ms\<close> is the string limit the lexer worked under). \<open>moves_to ms p p'\<close>: the parser went from
  \<open>p\<close> to \<open>p'\<close> over at least one token, at the same nesting depth; \<open>stays_to\<close> allows no token at all.
  \<open>wp r Q\<close>: the result \<open>r\<close> is no crash, and if it is a value and a state they satisfy \<open>Q\<close>.
\<close>

fun wf_token_kind :: "nat \<Rightarrow> token_kind \<Rightarrow> bool" where
  "wf_token_kind ms (TStr s) = (str_len s \<le> ms)"
| "wf_token_kind ms (TInt i) = in_i64 i"
| "wf_token_kind ms _ = True"

definition wf_token :: "nat \<Rightarrow> token \<Rightarrow> bool" where
  "wf_token ms t \<longleftrightarrow> wf_token_kind ms (kind t)"

lemma wf_literal_value: "literal_value k = Some v \<Longrightarrow> wf_token_kind ms k \<Longrightarrow> wf_val ms v"
  by (cases k) auto

definition tokens_left :: "parser \<Rightarrow> nat" where
  "tokens_left p = length (later p)"

definition wf_parser :: "nat \<Rightarrow> parser \<Rightarrow> bool" where
  "wf_parser ms p \<longleftrightarrow>
     kind (last (cur p # later p)) = Eof \<and> (\<forall>t \<in> set (cur p # later p). wf_token ms t)"

definition stays_to :: "nat \<Rightarrow> parser \<Rightarrow> parser \<Rightarrow> bool" where
  "stays_to ms p p' \<longleftrightarrow>
     wf_parser ms p' \<and> tokens_left p' \<le> tokens_left p \<and> depth p' = depth p \<and> max_depth p' = max_depth p"

definition moves_to :: "nat \<Rightarrow> parser \<Rightarrow> parser \<Rightarrow> bool" where
  "moves_to ms p p' \<longleftrightarrow> stays_to ms p p' \<and> tokens_left p' < tokens_left p"

lemmas move_defs = stays_to_def moves_to_def

definition wp :: "('a \<times> parser) res \<Rightarrow> ('a \<Rightarrow> parser \<Rightarrow> bool) \<Rightarrow> bool" where
  "wp r Q \<longleftrightarrow> (case r of Inl f \<Rightarrow> f \<noteq> Panic \<and> f \<noteq> Out_of_fuel | Inr (x, p) \<Rightarrow> Q x p)"

named_theorems wp_intros \<open>rules that reduce a parser step to its parts\<close>

lemma wp_Inr [wp_intros]: "Q x p \<Longrightarrow> wp (Inr (x, p)) Q"
  by (simp add: wp_def)

lemma wp_err [wp_intros]: "wp (Inl (err c sp)) Q"
  by (simp add: wp_def)

lemma wp_sbind [wp_intros]: "wp m (\<lambda>x p. wp (f (x, p)) Q) \<Longrightarrow> wp (sbind m f) Q"
  by (auto simp: wp_def split: sum.splits)

lemma wp_prod [wp_intros]: "wp (f x p) Q \<Longrightarrow> wp (case (x, p) of (x, p) \<Rightarrow> f x p) Q"
  by simp

lemma wp_Let [wp_intros]: "wp (f x) Q \<Longrightarrow> wp (Let x f) Q"
  by simp

lemma wp_if [wp_intros]:
  "(b \<Longrightarrow> wp r Q) \<Longrightarrow> (\<not> b \<Longrightarrow> wp s Q) \<Longrightarrow> wp (if b then r else s) Q"
  by simp

lemma wp_check [wp_intros]:
  "(expr_depth e \<le> d \<Longrightarrow> wp (f ()) Q) \<Longrightarrow> wp (sbind (check_expression_depth d e) f) Q"
  using crash_free_check_expression_depth [of d e]
  by (cases "check_expression_depth d e")
     (auto simp: wp_def crash_free_def dest: check_expression_depth_iff [THEN iffD1])

lemma wp_enter [wp_intros]:
  "(depth p < max_depth p \<Longrightarrow> wp (f (p\<lparr>depth := depth p + 1\<rparr>)) Q) \<Longrightarrow> wp (sbind (enter p) f) Q"
  by (auto simp: enter_def wp_def)

lemma wp_mono: "wp r Q \<Longrightarrow> (\<And>x p. Q x p \<Longrightarrow> Q' x p) \<Longrightarrow> wp r Q'"
  by (auto simp: wp_def split: sum.splits)

lemma wp_Inr_D: "wp r Q \<Longrightarrow> r = Inr (x, p) \<Longrightarrow> Q x p"
  by (simp add: wp_def)

lemma wp_crash_free: "wp r Q \<Longrightarrow> crash_free r"
  by (auto simp: wp_def crash_free_def split: sum.splits)

lemma leave_simps [simp]:
  "tokens_left (leave p) = tokens_left p" "wf_parser ms (leave p) = wf_parser ms p"
  "max_depth (leave p) = max_depth p" "depth (leave p) = depth p - 1"
  by (simp_all add: leave_def tokens_left_def wf_parser_def)

lemma enter_simps [simp]:
  "tokens_left (p\<lparr>depth := d\<rparr>) = tokens_left p" "wf_parser ms (p\<lparr>depth := d\<rparr>) = wf_parser ms p"
  by (simp_all add: tokens_left_def wf_parser_def)

lemma wp_bump:
  "wf_parser ms p \<Longrightarrow>
   wp (bump p) (\<lambda>t p'. t = cur p \<and> (if kind t = Eof then p' = p else moves_to ms p p'))"
  by (auto simp: wp_def bump_def wf_parser_def move_defs tokens_left_def split: list.splits)

lemma wp_bump_move:
  "wf_parser ms p \<Longrightarrow> (\<And>p'. kind (cur p) \<noteq> Eof \<Longrightarrow> moves_to ms p p' \<Longrightarrow> Q (cur p) p') \<Longrightarrow>
   (kind (cur p) = Eof \<Longrightarrow> Q (cur p) p) \<Longrightarrow> wp (bump p) Q"
  by (rule wp_mono [OF wp_bump]) (auto split: if_splits)

lemma wp_skip:
  "wf_parser ms p \<Longrightarrow> kind (cur p) \<noteq> Eof \<Longrightarrow> (\<And>p'. moves_to ms p p' \<Longrightarrow> Q () p') \<Longrightarrow> wp (skip p) Q"
  unfolding skip_def by (intro wp_intros wp_bump_move [where ms = ms]) auto

lemma wp_take_tok:
  "wf_parser ms p \<Longrightarrow> k \<noteq> Eof \<Longrightarrow> (\<And>p'. at k p \<Longrightarrow> moves_to ms p p' \<Longrightarrow> Q True p') \<Longrightarrow>
   (\<not> at k p \<Longrightarrow> Q False p) \<Longrightarrow> wp (take_tok k p) Q"
  unfolding take_tok_def by (intro wp_intros wp_bump_move [where ms = ms]) (auto simp: at_def)

lemma wp_expect:
  "wf_parser ms p \<Longrightarrow> k \<noteq> Eof \<Longrightarrow> (\<And>p'. moves_to ms p p' \<Longrightarrow> Q () p') \<Longrightarrow> wp (expect k p) Q"
  unfolding expect_def by (intro wp_intros wp_take_tok [where ms = ms]) auto

lemma wp_identifier:
  "wf_parser ms p \<Longrightarrow> (\<And>x p'. moves_to ms p p' \<Longrightarrow> Q x p') \<Longrightarrow> wp (p_identifier p) Q"
  unfolding p_identifier_def
  by (intro wp_intros wp_bump_move [where ms = ms]) (auto split: option.splits simp: wp_def)

lemmas wp_moves = wp_bump_move wp_skip wp_take_tok wp_expect wp_identifier

lemma keyword_not_Eof: "keyword w p \<Longrightarrow> kind (cur p) \<noteq> Eof"
  by (auto simp: keyword_def)

lemma binary_not_Eof: "binary k = Some b \<Longrightarrow> k \<noteq> Eof"
  by (cases k) auto

section \<open>Expressions and statements\<close>

text \<open>
  The tail of \<open>primary\<close>: \<open>.field\<close> as long as a dot follows, each checked for depth.
\<close>

definition p_field :: "expr \<Rightarrow> span \<Rightarrow> parser \<Rightarrow> (expr option \<times> parser) res" where
  "p_field e sp p =
     sbind (take_tok Dot p) (\<lambda>(dot, p).
     if dot then
       sbind (p_identifier p) (\<lambda>(field, p).
       let e' = Expr (EMember e field) sp in
       sbind (check_expression_depth (max_depth p) e') (\<lambda>_. Inr (Some e', p)))
     else Inr (None, p))"

lemma p_field_Some:
  "p_field e sp p = Inr (Some e', p') \<Longrightarrow> tokens_left p' < tokens_left p"
  by (auto simp: p_field_def p_identifier_def take_tok_def bump_def res_simps at_def Let_def
        tokens_left_def split: if_splits list.splits option.splits)

lemma wp_field:
  "wf_parser ms p \<Longrightarrow>
   wp (p_field e sp p) (\<lambda>r p'. case r of None \<Rightarrow> stays_to ms p p'
     | Some e' \<Rightarrow> moves_to ms p p' \<and> expr_depth e' \<le> max_depth p \<and> (\<exists>f. e' = Expr (EMember e f) sp))"
  unfolding p_field_def by (intro wp_intros wp_moves [where ms = ms]) (auto simp: move_defs)

function p_fields :: "expr \<Rightarrow> span \<Rightarrow> parser \<Rightarrow> (expr \<times> parser) res" where
  "p_fields e sp p =
     (case p_field e sp p of
        Inl f \<Rightarrow> Inl f
      | Inr (None, p') \<Rightarrow> Inr (e, p')
      | Inr (Some e', p') \<Rightarrow> p_fields e' sp p')"
  by pat_completeness auto
termination
  by (relation "measure (\<lambda>(e, sp, p). tokens_left p)")
     (auto dest!: p_field_Some)

declare p_fields.simps [simp del]

text \<open>The expression a compound assignment to \<open>name\<close> stands for.\<close>

definition assign_value :: "rstring \<Rightarrow> span \<Rightarrow> binary option \<Rightarrow> expr \<Rightarrow> expr" where
  "assign_value name sp operator rhs =
     (case operator of
        Some op \<Rightarrow> Expr (EBinary op (Expr (EVariable name) sp) rhs) sp
      | None \<Rightarrow> rhs)"

definition next_kind :: "parser \<Rightarrow> token_kind option" where
  "next_kind p = (case later p of [] \<Rightarrow> None | t # _ \<Rightarrow> Some (kind t))"

fun p_expression :: "nat \<Rightarrow> nat \<Rightarrow> parser \<Rightarrow> (expr \<times> parser) res"
  and p_binary :: "nat \<Rightarrow> nat \<Rightarrow> expr \<Rightarrow> parser \<Rightarrow> (expr \<times> parser) res"
  and p_primary :: "nat \<Rightarrow> parser \<Rightarrow> (expr \<times> parser) res"
  and p_primary_kind :: "nat \<Rightarrow> token \<Rightarrow> parser \<Rightarrow> (expr_kind \<times> parser) res"
  and p_args :: "nat \<Rightarrow> parser \<Rightarrow> (expr list \<times> parser) res" where
  "p_expression 0 minimum p = Inl Out_of_fuel"
| "p_expression (Suc n) minimum p =
     sbind (enter p) (\<lambda>p.
     sbind (p_primary n p) (\<lambda>(left, p).
     sbind (p_binary n minimum left p) (\<lambda>(left, p).
     Inr (left, leave p))))"
| "p_binary 0 minimum left p = Inl Out_of_fuel"
| "p_binary (Suc n) minimum left p =
     (case binary (kind (cur p)) of
        None \<Rightarrow> Inr (left, p)
      | Some (operator, precedence) \<Rightarrow>
          if precedence < minimum then Inr (left, p)
          else
            sbind (skip p) (\<lambda>(_, p).
            sbind (p_expression n (precedence + 1) p) (\<lambda>(right, p).
            let left = Expr (EBinary operator left right) (espan left) in
            sbind (check_expression_depth (max_depth p) left) (\<lambda>_.
            p_binary n minimum left p))))"
| "p_primary 0 p = Inl Out_of_fuel"
| "p_primary (Suc n) p =
     sbind (bump p) (\<lambda>(token, p).
     sbind (p_primary_kind n token p) (\<lambda>(k, p).
     sbind (p_fields (Expr k (tspan token)) (tspan token) p) (\<lambda>(e, p).
     sbind (check_expression_depth (max_depth p) e) (\<lambda>_.
     Inr (e, p)))))"
| "p_primary_kind 0 token p = Inl Out_of_fuel"
| "p_primary_kind (Suc n) token p =
     (case literal_value (kind token) of
        Some v \<Rightarrow> Inr (ELiteral v, p)
      | None \<Rightarrow>
     (case ident_name (kind token) of
        Some name \<Rightarrow>
          if name = lit ''true'' \<or> name = lit ''false''
          then Inr (ELiteral (VBoolean (name = lit ''true'')), p)
          else if \<not> reserved name \<or> name = lit ''args'' then
            sbind (take_tok LParen p) (\<lambda>(call, p).
            if call then
              sbind (if at RParen p then Inr ([], p) else p_args n p) (\<lambda>(args, p).
              sbind (expect RParen p) (\<lambda>(_, p).
              Inr (ECall name args, p)))
            else Inr (EVariable name, p))
          else Inl (err Syntax_error (tspan token))
      | None \<Rightarrow>
          if kind token = Bang \<or> kind token = Minus then
            sbind (p_expression n 7 p) (\<lambda>(e, p).
            Inr (EUnary (if kind token = Bang then Not else Negate) e, p))
          else if kind token = LParen then
            sbind (p_expression n 0 p) (\<lambda>(e, p).
            sbind (expect RParen p) (\<lambda>(_, p).
            Inr (ekind e, p)))
          else Inl (err Syntax_error (tspan token))))"
| "p_args 0 p = Inl Out_of_fuel"
| "p_args (Suc n) p =
     sbind (p_expression n 0 p) (\<lambda>(e, p).
     sbind (take_tok Comma p) (\<lambda>(more, p).
     if more then sbind (p_args n p) (\<lambda>(es, p). Inr (e # es, p))
     else Inr ([e], p)))"

text \<open>\<open>simple\<close>: a declaration, an assignment or an expression, without the semicolon.\<close>

definition p_simple :: "nat \<Rightarrow> parser \<Rightarrow> (stmt \<times> parser) res" where
  "p_simple n p =
     (let sp = tspan (cur p) in
      if keyword ''let'' p then
        sbind (skip p) (\<lambda>(_, p).
        sbind (p_identifier p) (\<lambda>(name, p).
        sbind (expect Equal p) (\<lambda>(_, p).
        sbind (p_expression n 0 p) (\<lambda>(e, p).
        Inr (Stmt (SLet name e) sp, p)))))
      else
        (case (ident_name (kind (cur p)), Option.bind (next_kind p) assign_operator) of
           (Some name, Some operator) \<Rightarrow>
             sbind (skip p) (\<lambda>(_, p).
             sbind (bump p) (\<lambda>(token, p).
             sbind (if kind token = PlusPlus \<or> kind token = MinusMinus
                    then Inr (Expr (ELiteral (VInteger 1)) (tspan token), p)
                    else p_expression n 0 p) (\<lambda>(rhs, p).
             Inr (Stmt (SAssign name (assign_value name sp operator rhs)) sp, p))))
         | _ \<Rightarrow>
             sbind (p_expression n 0 p) (\<lambda>(e, p). Inr (Stmt (SExpression e) sp, p))))"

text \<open>An optional part of a \<open>for\<close> header: absent when the token that closes it follows.\<close>

definition p_optional ::
  "token_kind \<Rightarrow> (parser \<Rightarrow> ('a \<times> parser) res) \<Rightarrow> parser \<Rightarrow> ('a option \<times> parser) res" where
  "p_optional close f p =
     (if at close p then Inr (None, p) else sbind (f p) (\<lambda>(x, p). Inr (Some x, p)))"

fun p_statement :: "nat \<Rightarrow> parser \<Rightarrow> (stmt \<times> parser) res"
  and p_statement_kind :: "nat \<Rightarrow> parser \<Rightarrow> (stmt_kind \<times> parser) res"
  and p_block :: "nat \<Rightarrow> parser \<Rightarrow> (stmt \<times> parser) res"
  and p_statements :: "nat \<Rightarrow> bool \<Rightarrow> parser \<Rightarrow> (stmt list \<times> parser) res" where
  "p_statement 0 p = Inl Out_of_fuel"
| "p_statement (Suc n) p =
     sbind (enter p) (\<lambda>p.
     let sp = tspan (cur p) in
     sbind (p_statement_kind n p) (\<lambda>(k, p).
     Inr (Stmt k sp, leave p)))"
| "p_statement_kind 0 p = Inl Out_of_fuel"
| "p_statement_kind (Suc n) p =
     sbind (take_tok LBrace p) (\<lambda>(brace, p).
     if brace then sbind (p_statements n True p) (\<lambda>(ss, p). Inr (SBlock ss, p))
     else if keyword ''if'' p then
       sbind (skip p) (\<lambda>(_, p).
       sbind (expect LParen p) (\<lambda>(_, p).
       sbind (p_expression n 0 p) (\<lambda>(condition, p).
       sbind (expect RParen p) (\<lambda>(_, p).
       sbind (p_block n p) (\<lambda>(body, p).
       if keyword ''else'' p then
         sbind (skip p) (\<lambda>(_, p).
         sbind (if keyword ''if'' p then p_statement n p else p_block n p)
           (\<lambda>(alternative, p). Inr (SIf condition body (Some alternative), p)))
       else Inr (SIf condition body None, p))))))
     else if keyword ''while'' p then
       sbind (skip p) (\<lambda>(_, p).
       sbind (expect LParen p) (\<lambda>(_, p).
       sbind (p_expression n 0 p) (\<lambda>(condition, p).
       sbind (expect RParen p) (\<lambda>(_, p).
       sbind (p_block n p) (\<lambda>(body, p).
       Inr (SWhile condition body, p))))))
     else if keyword ''for'' p then
       sbind (skip p) (\<lambda>(_, p).
       sbind (expect LParen p) (\<lambda>(_, p).
       sbind (p_optional Semicolon (p_simple n) p) (\<lambda>(init, p).
       sbind (expect Semicolon p) (\<lambda>(_, p).
       sbind (p_optional Semicolon (p_expression n 0) p) (\<lambda>(condition, p).
       sbind (expect Semicolon p) (\<lambda>(_, p).
       sbind (p_optional RParen (p_simple n) p) (\<lambda>(step, p).
       sbind (expect RParen p) (\<lambda>(_, p).
       sbind (p_block n p) (\<lambda>(body, p).
       Inr (SFor init condition step body, p))))))))))
     else if keyword ''break'' p \<or> keyword ''continue'' p then
       (let is_break = keyword ''break'' p in
        sbind (skip p) (\<lambda>(_, p).
        sbind (expect Semicolon p) (\<lambda>(_, p).
        Inr (if is_break then SBreak else SContinue, p))))
     else
       sbind (take_tok Semicolon p) (\<lambda>(empty, p).
       if empty then Inr (SEmpty, p)
       else
         sbind (p_simple n p) (\<lambda>(s, p).
         sbind (expect Semicolon p) (\<lambda>(_, p).
         Inr (skind s, p)))))"
| "p_block 0 p = Inl Out_of_fuel"
| "p_block (Suc n) p =
     (if \<not> at LBrace p then Inl (err Syntax_error (tspan (cur p)))
      else p_statement n p)"
| "p_statements 0 block p = Inl Out_of_fuel"
| "p_statements (Suc n) block p =
     (if at Eof p \<or> block \<and> at RBrace p then
        (if block then sbind (expect RBrace p) (\<lambda>(_, p). Inr ([], p)) else Inr ([], p))
      else
        sbind (p_statement n p) (\<lambda>(s, p).
        sbind (p_statements n block p) (\<lambda>(ss, p).
        Inr (s # ss, p))))"

section \<open>Parsing a source text\<close>

definition parser_new :: "token list \<Rightarrow> nat \<Rightarrow> parser res" where
  "parser_new ts max_d =
     (case ts of [] \<Rightarrow> Inl Panic
      | t # ts \<Rightarrow> Inr \<lparr>cur = t, later = ts, depth = 0, max_depth = max_d\<rparr>)"

definition parse_fuel :: "token list \<Rightarrow> nat" where
  "parse_fuel ts = 8 * length ts + 8"

definition parse :: "rstring \<Rightarrow> limits \<Rightarrow> stmt list res" where
  "parse source limits =
     (if str_len source > max_source_bytes limits then Inl (err Source_limit span_start)
      else
        sbind (lex_tokens (lexer_new source (max_string_bytes limits))) (\<lambda>ts.
        sbind (parser_new ts (max_nesting limits)) (\<lambda>p.
        sbind (p_statements (parse_fuel ts) False p) (\<lambda>(ss, p).
        Inr ss))))"

end
