(* ===== verification/MacroCompiler.thy ===== *)
theory MacroCompiler
  imports BTreeMap MacroParser
begin

text \<open>
  \<open>crates/serial-macro/src/compiler.rs\<close>: type checking and code generation in one pass. The
  scope stack and the loop stack have the innermost element at the head. Rust panics
  (\<open>unwrap\<close> on an empty stack, an index out of range, \<open>unreachable!\<close>) are \<open>Panic\<close>.
\<close>

section \<open>Types, instructions, compiler state\<close>

datatype ty = Scalar valty | Watcher | Void

datatype builtin = Cmd | CmdSendOnly | BWatch | BWait | BExpect | BDelay

datatype op =
    OPush val | OArg rstring | OPrompt rstring | OLoad nat | OStore nat | OPop | OMatched
  | OIntegerToString | OUnary unary | OBinary binary
  | OJump nat | OJumpIfFalse nat | OAnd nat | OOr nat | OCall builtin

record instruction =
  iop :: op
  ispan :: span

record var_info =
  var_index :: nat
  var_kind :: ty

record loop_info =
  breaks :: "nat list"
  continues :: "nat list"

record compiler =
  code :: "instruction list"
  scopes :: "(rstring, var_info) btree list"
  loops :: "loop_info list"
  n_variables :: nat
  params :: "(rstring, valty) btree"
  prompts :: "(rstring, span) btree"
  lims :: limits

record program =
  p_code :: "instruction list"
  p_params :: "(rstring, valty) btree"
  p_prompts :: "(rstring, span) btree"
  p_variables :: nat
  p_limits :: limits

section \<open>Helpers\<close>

definition emit :: "op \<Rightarrow> span \<Rightarrow> compiler \<Rightarrow> nat \<times> compiler" where
  "emit oper sp c = (length (code c), c\<lparr>code := code c @ [\<lparr>iop = oper, ispan = sp\<rparr>]\<rparr>)"

definition emit_op :: "op \<Rightarrow> span \<Rightarrow> compiler \<Rightarrow> compiler" where
  "emit_op oper sp c = snd (emit oper sp c)"

fun set_target :: "op \<Rightarrow> nat \<Rightarrow> op option" where
  "set_target (OJump _) target = Some (OJump target)"
| "set_target (OJumpIfFalse _) target = Some (OJumpIfFalse target)"
| "set_target (OAnd _) target = Some (OAnd target)"
| "set_target (OOr _) target = Some (OOr target)"
| "set_target _ target = None"

definition patch :: "nat \<Rightarrow> nat \<Rightarrow> compiler \<Rightarrow> compiler res" where
  "patch i target c =
     (if i < length (code c) then
        (case set_target (iop (code c ! i)) target of
           Some oper \<Rightarrow> Inr (c\<lparr>code := (code c)[i := (code c ! i)\<lparr>iop := oper\<rparr>]\<rparr>)
         | None \<Rightarrow> Inl Panic)
      else Inl Panic)"

fun patch_all :: "nat list \<Rightarrow> nat \<Rightarrow> compiler \<Rightarrow> compiler res" where
  "patch_all [] target c = Inr c"
| "patch_all (i # is) target c = sbind (patch i target c) (patch_all is target)"

fun find_scope :: "rstring \<Rightarrow> (rstring, var_info) btree list \<Rightarrow> var_info option" where
  "find_scope name [] = None"
| "find_scope name (s # ss) =
     (case bt_get s name of Some v \<Rightarrow> Some v | None \<Rightarrow> find_scope name ss)"

definition lookup :: "rstring \<Rightarrow> span \<Rightarrow> compiler \<Rightarrow> var_info res" where
  "lookup name sp c = ok_or (find_scope name (scopes c)) (err Unknown_variable sp)"

definition require :: "ty \<Rightarrow> ty \<Rightarrow> span \<Rightarrow> unit res" where
  "require actual expected sp = guard_ok (actual = expected) (err Type_error sp)"

definition builtin_name :: "rstring \<Rightarrow> bool" where
  "builtin_name name \<longleftrightarrow>
     name \<in> set (map lit [''cmd'', ''watch'', ''prompt'', ''wait'', ''expect'', ''delay'', ''str''])"

fun constant_string :: "nat \<Rightarrow> expr \<Rightarrow> rstring option res" where
  "constant_string max_bytes (Expr (ELiteral (VString v)) sp) = Inr (Some v)"
| "constant_string max_bytes (Expr (EBinary Add left right) sp) =
     sbind (constant_string max_bytes left) (\<lambda>l.
     sbind (constant_string max_bytes right) (\<lambda>r.
     case (l, r) of
       (Some l, Some r) \<Rightarrow>
         if saturating_add_u64 (str_len l) (str_len r) > max_bytes
         then Inl (err String_limit sp)
         else Inr (Some (l @ r))
     | _ \<Rightarrow> Inr None))"
| "constant_string max_bytes _ = Inr None"

text \<open>The signatures of the built-in calls that are compiled the common way.\<close>

definition builtin_signature :: "rstring \<Rightarrow> (builtin \<times> ty list \<times> ty) option" where
  "builtin_signature name =
     (if name = lit ''cmd'' then Some (Cmd, [Scalar TString], Void)
      else if name = lit ''watch'' then Some (BWatch, [Scalar TString], Watcher)
      else if name = lit ''wait'' then Some (BWait, [Watcher, Scalar TInteger], Scalar TBoolean)
      else if name = lit ''expect'' then Some (BExpect, [Watcher, Scalar TInteger], Void)
      else if name = lit ''delay'' then Some (BDelay, [Scalar TInteger], Void)
      else None)"

text \<open>The checks on constant arguments after they are compiled.\<close>

definition check_command :: "expr list \<Rightarrow> compiler \<Rightarrow> unit res" where
  "check_command args c =
     (case args of
        [] \<Rightarrow> Inl Panic
      | a # _ \<Rightarrow>
          sbind (constant_string (max_string_bytes (lims c)) a) (\<lambda>text.
          case text of
            Some text \<Rightarrow> validate_command text (max_string_bytes (lims c)) (espan a)
          | None \<Rightarrow> Inr ()))"

definition check_watch :: "expr list \<Rightarrow> compiler \<Rightarrow> unit res" where
  "check_watch args c =
     (case args of
        [] \<Rightarrow> Inl Panic
      | a # _ \<Rightarrow>
          sbind (constant_string (max_string_bytes (lims c)) a) (\<lambda>text.
          guard_ok (text \<noteq> Some []) (err Empty_pattern (espan a))))"

definition check_duration :: "expr list \<Rightarrow> compiler \<Rightarrow> unit res" where
  "check_duration args c =
     (if args = [] then Inl Panic
      else
        (case last args of
           Expr (ELiteral (VInteger ms)) sp \<Rightarrow>
             guard_ok (\<not> (ms < 0 \<or> nat ms > max_duration_ms (lims c))) (err Duration_limit sp)
         | _ \<Rightarrow> Inr ()))"

definition check_constants :: "builtin \<Rightarrow> expr list \<Rightarrow> compiler \<Rightarrow> unit res" where
  "check_constants b args c =
     sbind (if b = Cmd then check_command args c else Inr ()) (\<lambda>_.
     sbind (if b = BWatch then check_watch args c else Inr ()) (\<lambda>_.
     if b \<in> {BWait, BExpect, BDelay} then check_duration args c else Inr ()))"

text \<open>The result type of a binary operator other than \<open>&&\<close> and \<open>||\<close>.\<close>

definition binary_type :: "binary \<Rightarrow> ty \<Rightarrow> span \<Rightarrow> span \<Rightarrow> ty res" where
  "binary_type operator left_type left_span sp =
     (if operator = Add \<and> left_type = Scalar TString then Inr left_type
      else if operator \<in> {Add, Subtract, Multiply, Divide, Remainder} then
        sbind (require left_type (Scalar TInteger) left_span) (\<lambda>_. Inr left_type)
      else if operator \<in> {BLess, BLessEqual, BGreater, BGreaterEqual} then
        sbind (require left_type (Scalar TInteger) left_span) (\<lambda>_. Inr (Scalar TBoolean))
      else if operator \<in> {BEqual, BNotEqual} then
        (case left_type of
           Scalar _ \<Rightarrow> Inr (Scalar TBoolean)
         | _ \<Rightarrow> Inl (err Type_error sp))
      else Inl Panic)"

definition is_send_only :: "expr \<Rightarrow> bool" where
  "is_send_only e \<longleftrightarrow> ekind e = ELiteral (VString (lit ''send_only''))"

fun literal_string :: "expr \<Rightarrow> rstring option" where
  "literal_string (Expr (ELiteral (VString s)) sp) = Some s"
| "literal_string _ = None"

definition add_prompt :: "rstring \<Rightarrow> span \<Rightarrow> compiler \<Rightarrow> compiler" where
  "add_prompt name sp c =
     (if bt_contains (prompts c) name then c
      else c\<lparr>prompts := bt_insert name sp (prompts c)\<rparr>)"

definition compile_prompt :: "expr list \<Rightarrow> span \<Rightarrow> compiler \<Rightarrow> (ty \<times> compiler) res" where
  "compile_prompt args sp c =
     (case args of
        [a] \<Rightarrow>
          (case literal_string a of
             None \<Rightarrow> Inl (err Static_prompt_required (espan a))
           | Some name \<Rightarrow>
               if name \<noteq> lit ''shell'' \<and> name \<noteq> lit ''uboot''
               then Inl (err Unknown_prompt (espan a))
               else Inr (Scalar TString, emit_op (OPrompt name) sp (add_prompt name (espan a) c)))
      | _ \<Rightarrow> Inl (err Argument_count sp))"

section \<open>Expressions\<close>

definition is_args :: "expr \<Rightarrow> bool" where
  "is_args e \<longleftrightarrow> ekind e = EVariable (lit ''args'')"

fun comp_expr :: "expr \<Rightarrow> compiler \<Rightarrow> (ty \<times> compiler) res"
  and comp_arguments :: "expr list \<Rightarrow> ty list \<Rightarrow> compiler \<Rightarrow> compiler res" where
  "comp_expr (Expr (ELiteral v) sp) c = Inr (Scalar (value_type v), emit_op (OPush v) sp c)"
| "comp_expr (Expr (EVariable name) sp) c =
     sbind (lookup name sp c) (\<lambda>v. Inr (var_kind v, emit_op (OLoad (var_index v)) sp c))"
| "comp_expr (Expr (EMember base field) sp) c =
     (if is_args base then
        sbind (ok_or (bt_get (params c) field) (err Unknown_parameter sp)) (\<lambda>k.
        Inr (Scalar k, emit_op (OArg field) sp c))
      else
        sbind (comp_expr base c) (\<lambda>(k, c).
        if k \<noteq> Watcher \<or> field \<noteq> lit ''matched'' then Inl (err Unknown_field sp)
        else Inr (Scalar TBoolean, emit_op OMatched sp c)))"
| "comp_expr (Expr (EUnary operator operand) sp) c =
     sbind (comp_expr operand c) (\<lambda>(k, c).
     sbind (require k (Scalar (case operator of Negate \<Rightarrow> TInteger | Not \<Rightarrow> TBoolean))
              (espan operand)) (\<lambda>_.
     Inr (k, emit_op (OUnary operator) sp c)))"
| "comp_expr (Expr (EBinary operator left right) sp) c =
     (if operator = And \<or> operator = Or then
        sbind (comp_expr left c) (\<lambda>(left_type, c).
        sbind (require left_type (Scalar TBoolean) (espan left)) (\<lambda>_.
        let (branch, c) = emit (if operator = And then OAnd 0 else OOr 0) sp c in
        sbind (comp_expr right c) (\<lambda>(right_type, c).
        sbind (require right_type (Scalar TBoolean) (espan right)) (\<lambda>_.
        sbind (patch branch (length (code c)) c) (\<lambda>c.
        Inr (Scalar TBoolean, c))))))
      else
        sbind (comp_expr left c) (\<lambda>(left_type, c).
        sbind (comp_expr right c) (\<lambda>(right_type, c).
        sbind (require right_type left_type (espan right)) (\<lambda>_.
        sbind (binary_type operator left_type (espan left) sp) (\<lambda>output.
        Inr (output, emit_op (OBinary operator) sp c))))))"
| "comp_expr (Expr (ECall name args) sp) c =
     (if name = lit ''str'' then
        (if length args \<noteq> 1 then Inl (err Argument_count sp)
         else
           sbind (comp_arguments args [Scalar TInteger] c) (\<lambda>c.
           Inr (Scalar TString, emit_op OIntegerToString sp c)))
      else if name = lit ''cmd'' \<and> length args = 2 then
        (if \<not> is_send_only (args ! 1) then Inl (err Invalid_command_mode (espan (args ! 1)))
         else
           sbind (comp_arguments args [Scalar TString] c) (\<lambda>c.
           sbind (check_command args c) (\<lambda>_.
           Inr (Void, emit_op (OCall CmdSendOnly) sp c))))
      else if name = lit ''prompt'' then compile_prompt args sp c
      else
        (case builtin_signature name of
           None \<Rightarrow> Inl (err Unknown_function sp)
         | Some (builtin, expected, result) \<Rightarrow>
             if length args \<noteq> length expected then Inl (err Argument_count sp)
             else
               sbind (comp_arguments args expected c) (\<lambda>c.
               sbind (check_constants builtin args c) (\<lambda>_.
               Inr (result, emit_op (OCall builtin) sp c)))))"
| "comp_arguments (a # as) (t # ts) c =
     sbind (comp_expr a c) (\<lambda>(actual, c).
     sbind (require actual t (espan a)) (\<lambda>_.
     comp_arguments as ts c))"
| "comp_arguments _ _ c = Inr c"

section \<open>Statements\<close>

definition push_scope :: "compiler \<Rightarrow> compiler" where
  "push_scope c = c\<lparr>scopes := bt_empty # scopes c\<rparr>"

definition pop_scope :: "compiler \<Rightarrow> compiler" where
  "pop_scope c = c\<lparr>scopes := tl (scopes c)\<rparr>"

definition push_loop :: "compiler \<Rightarrow> compiler" where
  "push_loop c = c\<lparr>loops := \<lparr>breaks = [], continues = []\<rparr> # loops c\<rparr>"

definition declare_var :: "rstring \<Rightarrow> ty \<Rightarrow> compiler \<Rightarrow> (nat \<times> compiler) res" where
  "declare_var name k c =
     (case scopes c of
        [] \<Rightarrow> Inl Panic
      | s # ss \<Rightarrow>
          let index = n_variables c in
          Inr (index, c\<lparr>n_variables := index + 1,
                        scopes := bt_insert name \<lparr>var_index = index, var_kind = k\<rparr> s # ss\<rparr>))"

definition check_declaration :: "rstring \<Rightarrow> span \<Rightarrow> compiler \<Rightarrow> unit res" where
  "check_declaration name sp c =
     (case scopes c of
        [] \<Rightarrow> Inl Panic
      | s # _ \<Rightarrow>
          guard_ok (\<not> (bt_contains s name \<or> builtin_name name \<or> reserved name))
            (err Duplicate_variable sp))"

definition loop_jump :: "bool \<Rightarrow> span \<Rightarrow> compiler \<Rightarrow> compiler res" where
  "loop_jump is_break sp c =
     (if loops c = [] then Inl (err Invalid_loop_control sp)
      else
        (let (jump, c) = emit (OJump 0) sp c in
         case loops c of
           [] \<Rightarrow> Inl Panic
         | l # ls \<Rightarrow>
             Inr (c\<lparr>loops :=
               (if is_break then l\<lparr>breaks := breaks l @ [jump]\<rparr>
                else l\<lparr>continues := continues l @ [jump]\<rparr>) # ls\<rparr>)))"

definition finish_loop :: "nat \<Rightarrow> nat \<Rightarrow> compiler \<Rightarrow> compiler res" where
  "finish_loop continue_at end c =
     (case loops c of
        [] \<Rightarrow> Inl Panic
      | l # ls \<Rightarrow>
          sbind (patch_all (breaks l) end (c\<lparr>loops := ls\<rparr>)) (patch_all (continues l) continue_at))"

fun is_let :: "stmt \<Rightarrow> bool" where
  "is_let (Stmt (SLet _ _) _) = True"
| "is_let _ = False"

text \<open>A condition and the branch past it that a false value takes.\<close>

definition comp_condition :: "expr \<Rightarrow> compiler \<Rightarrow> (nat \<times> compiler) res" where
  "comp_condition condition c =
     sbind (comp_expr condition c) (\<lambda>(k, c).
     sbind (require k (Scalar TBoolean) (espan condition)) (\<lambda>_.
     Inr (emit (OJumpIfFalse 0) (espan condition) c)))"

fun comp_stmt :: "stmt \<Rightarrow> compiler \<Rightarrow> compiler res"
  and comp_stmts :: "stmt list \<Rightarrow> compiler \<Rightarrow> compiler res" where
  "comp_stmt (Stmt (SLet name e) sp) c =
     sbind (check_declaration name sp c) (\<lambda>_.
     sbind (comp_expr e c) (\<lambda>(k, c).
     if k = Void then Inl (err Type_error (espan e))
     else if n_variables c \<ge> max_variables (lims c) then Inl (err Variable_limit sp)
     else
       sbind (declare_var name k c) (\<lambda>(index, c).
       Inr (emit_op (OStore index) sp c))))"
| "comp_stmt (Stmt (SAssign name e) sp) c =
     sbind (lookup name sp c) (\<lambda>v.
     sbind (comp_expr e c) (\<lambda>(k, c).
     sbind (require k (var_kind v) (espan e)) (\<lambda>_.
     Inr (emit_op (OStore (var_index v)) sp c))))"
| "comp_stmt (Stmt (SExpression e) sp) c =
     sbind (comp_expr e c) (\<lambda>(k, c).
     Inr (if k \<noteq> Void then emit_op OPop sp c else c))"
| "comp_stmt (Stmt (SBlock ss) sp) c =
     sbind (comp_stmts ss (push_scope c)) (\<lambda>c. Inr (pop_scope c))"
| "comp_stmt (Stmt (SIf condition body alternative) sp) c =
     sbind (comp_condition condition c) (\<lambda>(skip, c).
     sbind (comp_stmt body c) (\<lambda>c.
     case alternative of
       Some alternative \<Rightarrow>
         (let (end, c) = emit (OJump 0) sp c in
          sbind (patch skip (length (code c)) c) (\<lambda>c.
          sbind (comp_stmt alternative c) (\<lambda>c.
          patch end (length (code c)) c)))
     | None \<Rightarrow> patch skip (length (code c)) c))"
| "comp_stmt (Stmt (SWhile condition body) sp) c =
     (let begin = length (code c) in
      sbind (comp_condition condition c) (\<lambda>(stop, c).
      sbind (comp_stmt body (push_loop c)) (\<lambda>c.
      let c = emit_op (OJump begin) sp c; end = length (code c) in
      sbind (patch stop end c) (\<lambda>c.
      finish_loop begin end c))))"
| "comp_stmt (Stmt (SFor init condition step body) sp) c =
     sbind (case init of Some i \<Rightarrow> comp_stmt i (push_scope c) | None \<Rightarrow> Inr (push_scope c)) (\<lambda>c.
     let begin = length (code c) in
     sbind (case condition of
              Some e \<Rightarrow> sbind (comp_condition e c) (\<lambda>(stop, c). Inr (Some stop, c))
            | None \<Rightarrow> Inr (None, c)) (\<lambda>(stop, c).
     sbind (comp_stmt body (push_loop c)) (\<lambda>c.
     let continue_at = length (code c) in
     sbind (case step of
              Some s \<Rightarrow> if is_let s then Inl (err Syntax_error (sspan s)) else comp_stmt s c
            | None \<Rightarrow> Inr c) (\<lambda>c.
     let c = emit_op (OJump begin) sp c; end = length (code c) in
     sbind (case stop of Some stop \<Rightarrow> patch stop end c | None \<Rightarrow> Inr c) (\<lambda>c.
     sbind (finish_loop continue_at end c) (\<lambda>c.
     Inr (pop_scope c)))))))"
| "comp_stmt (Stmt SBreak sp) c = loop_jump True sp c"
| "comp_stmt (Stmt SContinue sp) c = loop_jump False sp c"
| "comp_stmt (Stmt SEmpty sp) c = Inr (emit_op (OJump (length (code c) + 1)) sp c)"
| "comp_stmts [] c = Inr c"
| "comp_stmts (s # ss) c = sbind (comp_stmt s c) (comp_stmts ss)"

section \<open>Compiling a source text\<close>

definition valid_parameter_name :: "rstring \<Rightarrow> bool" where
  "valid_parameter_name name \<longleftrightarrow>
     (case name of
        [] \<Rightarrow> False
      | c # cs \<Rightarrow> ident_start c \<and> (\<forall>d \<in> set cs. ident_char d) \<and> \<not> reserved name)"

definition compiler_new :: "(rstring, valty) btree \<Rightarrow> limits \<Rightarrow> compiler" where
  "compiler_new parameters limits =
     \<lparr>code = [], scopes = [bt_empty], loops = [], n_variables = 0, params = parameters,
      prompts = bt_empty, lims = limits\<rparr>"

definition compile_statements ::
  "stmt list \<Rightarrow> (rstring, valty) btree \<Rightarrow> limits \<Rightarrow> program res" where
  "compile_statements ss parameters limits =
     sbind (comp_stmts ss (compiler_new parameters limits)) (\<lambda>c.
     Inr \<lparr>p_code = code c, p_params = params c, p_prompts = prompts c,
          p_variables = n_variables c, p_limits = limits\<rparr>)"

definition compile :: "rstring \<Rightarrow> (rstring, valty) btree \<Rightarrow> limits \<Rightarrow> program res" where
  "compile source parameters limits =
     (if max_nesting limits = 0 \<or> max_nesting limits > 128 \<or> instructions_per_yield limits = 0
      then Inl (err Invalid_limits span_start)
      else
        sbind (each_ok (\<lambda>name. guard_ok (valid_parameter_name name) (err Invalid_parameter span_start))
                 (bt_keys parameters)) (\<lambda>_.
        if length parameters > max_variables limits then Inl (err Parameter_limit span_start)
        else
          sbind (parse source limits) (\<lambda>ss. compile_statements ss parameters limits)))"

end
