(* ===== verification/MacroVm.thy ===== *)
theory MacroVm
  imports MacroCompiler
begin

text \<open>
  \<open>crates/serial-macro/src/vm.rs\<close>: the cooperative virtual machine. A method on \<open>&mut self\<close>
  that returns a \<open>Result\<close> is an action \<open>'a act\<close>: it yields a result and the new state also when
  it fails, since the counters of a failed machine stay observable. The head of \<open>stack\<close> is the
  top of the \<open>Vec\<close>. Indexing that panics in Rust is \<open>Panic\<close>.
\<close>

section \<open>State and actions\<close>

datatype rt_value = Sc val | Wt watcher_id

record vm =
  prog :: program
  vm_args :: "(rstring, val) btree"
  vm_prompts :: "(rstring, rstring) btree"
  variables :: "rt_value option list"
  stack :: "rt_value list"
  watchers :: "bool list"
  pc :: nat
  instructions :: nat
  command_bytes :: nat
  command_effects :: nat
  next_effect :: nat
  pending :: "effect option"
  failure :: "macro_error option"
  last_span :: span

type_synonym 'a act = "vm \<Rightarrow> 'a res \<times> vm"

abbreviation limit :: "(limits \<Rightarrow> 'a) \<Rightarrow> vm \<Rightarrow> 'a" where
  "limit f s \<equiv> f (p_limits (prog s))"

definition ret :: "'a \<Rightarrow> 'a act" where
  "ret x s = (Inr x, s)"

definition vbind :: "'a act \<Rightarrow> ('a \<Rightarrow> 'b act) \<Rightarrow> 'b act" where
  "vbind m f s = (case m s of (Inl e, s) \<Rightarrow> (Inl e, s) | (Inr x, s) \<Rightarrow> f x s)"

definition vm_error :: "ecode \<Rightarrow> 'a act" where
  "vm_error c s = (Inl (err c (last_span s)), s)"

definition vm_panic :: "'a act" where
  "vm_panic s = (Inl Panic, s)"

definition update :: "(vm \<Rightarrow> vm) \<Rightarrow> unit act" where
  "update f s = (Inr (), f s)"

definition gets :: "(vm \<Rightarrow> 'a) \<Rightarrow> 'a act" where
  "gets f s = (Inr (f s), s)"

definition check :: "(vm \<Rightarrow> bool) \<Rightarrow> ecode \<Rightarrow> unit act" where
  "check P c s = (if P s then ret () s else vm_error c s)"

definition or_error :: "'a option \<Rightarrow> ecode \<Rightarrow> 'a act" where
  "or_error x c = (case x of Some x \<Rightarrow> ret x | None \<Rightarrow> vm_error c)"

definition or_panic :: "'a option \<Rightarrow> 'a act" where
  "or_panic x = (case x of Some x \<Rightarrow> ret x | None \<Rightarrow> vm_panic)"

definition nth_opt :: "'a list \<Rightarrow> nat \<Rightarrow> 'a option" where
  "nth_opt xs i = (if i < length xs then Some (xs ! i) else None)"

section \<open>The stack\<close>

definition push :: "rt_value \<Rightarrow> unit act" where
  "push v = update (\<lambda>s. s\<lparr>stack := v # stack s\<rparr>)"

definition push_bool :: "bool \<Rightarrow> unit act" where
  "push_bool b = push (Sc (VBoolean b))"

definition pop :: "rt_value act" where
  "pop s = (case stack s of [] \<Rightarrow> vm_error Vm_invariant s | v # vs \<Rightarrow> ret v (s\<lparr>stack := vs\<rparr>))"

definition pop_scalar :: "val act" where
  "pop_scalar = vbind pop (\<lambda>v. case v of Sc x \<Rightarrow> ret x | Wt _ \<Rightarrow> vm_error Vm_invariant)"

definition pop_integer :: "int act" where
  "pop_integer =
     vbind pop_scalar (\<lambda>v. case v of VInteger i \<Rightarrow> ret i | _ \<Rightarrow> vm_error Vm_invariant)"

definition pop_bool :: "bool act" where
  "pop_bool =
     vbind pop_scalar (\<lambda>v. case v of VBoolean b \<Rightarrow> ret b | _ \<Rightarrow> vm_error Vm_invariant)"

definition pop_string :: "rstring act" where
  "pop_string =
     vbind pop_scalar (\<lambda>v. case v of VString t \<Rightarrow> ret t | _ \<Rightarrow> vm_error Vm_invariant)"

definition pop_watcher :: "watcher_id act" where
  "pop_watcher = vbind pop (\<lambda>v. case v of Wt w \<Rightarrow> ret w | Sc _ \<Rightarrow> vm_error Vm_invariant)"

definition pop_duration :: "nat act" where
  "pop_duration =
     vbind pop_integer (\<lambda>i.
     vbind (check (\<lambda>s. \<not> (i < 0 \<or> nat i > limit max_duration_ms s)) Duration_limit) (\<lambda>_.
     ret (nat i)))"

definition peek_bool :: "bool act" where
  "peek_bool s =
     (case stack s of Sc (VBoolean b) # _ \<Rightarrow> ret b s | _ \<Rightarrow> vm_error Vm_invariant s)"

section \<open>Operators\<close>

definition vm_unary :: "unary \<Rightarrow> unit act" where
  "vm_unary operator =
     (case operator of
        Not \<Rightarrow> vbind pop_bool (\<lambda>b. push_bool (\<not> b))
      | Negate \<Rightarrow>
          vbind pop_integer (\<lambda>i.
          vbind (or_error (checked_i64 (- i)) Integer_overflow) (\<lambda>j.
          push (Sc (VInteger j)))))"

definition checked_rem :: "int \<Rightarrow> int \<Rightarrow> int option" where
  "checked_rem l r = (if l = I64_MIN \<and> r = -1 then None else Some (l smod r))"

text \<open>The integer operators; the comparisons push their result directly.\<close>

definition binary_integer :: "binary \<Rightarrow> int \<Rightarrow> int \<Rightarrow> val act" where
  "binary_integer operator l r =
     (let int_result = (\<lambda>x. vbind (or_error x Integer_overflow) (\<lambda>i. ret (VInteger i))) in
      case operator of
        Add \<Rightarrow> int_result (checked_i64 (l + r))
      | Subtract \<Rightarrow> int_result (checked_i64 (l - r))
      | Multiply \<Rightarrow> int_result (checked_i64 (l * r))
      | Divide \<Rightarrow>
          if r = 0 then vm_error Division_by_zero else int_result (checked_i64 (l sdiv r))
      | Remainder \<Rightarrow>
          if r = 0 then vm_error Division_by_zero else int_result (checked_rem l r)
      | BLess \<Rightarrow> ret (VBoolean (l < r))
      | BLessEqual \<Rightarrow> ret (VBoolean (l \<le> r))
      | BGreater \<Rightarrow> ret (VBoolean (l > r))
      | BGreaterEqual \<Rightarrow> ret (VBoolean (l \<ge> r))
      | _ \<Rightarrow> vm_error Vm_invariant)"

definition vm_binary :: "binary \<Rightarrow> unit act" where
  "vm_binary operator =
     vbind pop_scalar (\<lambda>right.
     vbind pop_scalar (\<lambda>left.
     vbind
       (if operator = BEqual then ret (VBoolean (left = right))
        else if operator = BNotEqual then ret (VBoolean (left \<noteq> right))
        else
          (case (left, right) of
             (VString l, VString r) \<Rightarrow>
               if operator = Add then
                 vbind (check (\<lambda>s. saturating_add_u64 (str_len l) (str_len r) \<le> limit max_string_bytes s)
                          String_limit) (\<lambda>_.
                 ret (VString (l @ r)))
               else vm_error Vm_invariant
           | (VInteger l, VInteger r) \<Rightarrow> binary_integer operator l r
           | _ \<Rightarrow> vm_error Vm_invariant))
       (\<lambda>v. push (Sc v))))"

section \<open>Calls\<close>

definition lift_res :: "'a res \<Rightarrow> 'a act" where
  "lift_res r s = (r, s)"

definition watcher_matched :: "watcher_id \<Rightarrow> bool act" where
  "watcher_matched w = vbind (gets (\<lambda>s. nth_opt (watchers s) w)) (\<lambda>m. or_error m Unknown_watcher)"

definition call_command :: "bool \<Rightarrow> effect_kind act" where
  "call_command verify =
     vbind pop_string (\<lambda>text.
     vbind (\<lambda>s. lift_res (validate_command text (limit max_string_bytes s) (last_span s)) s) (\<lambda>_.
     vbind (gets command_bytes) (\<lambda>n.
     vbind (or_error (checked_add_u64 n (str_len text)) Tx_budget) (\<lambda>bytes.
     vbind (check (\<lambda>s. bytes \<le> limit max_total_command_bytes s) Tx_budget) (\<lambda>_.
     vbind (update (\<lambda>s. s\<lparr>command_bytes := bytes, command_effects := command_effects s + 1\<rparr>)) (\<lambda>_.
     ret (Command text verify)))))))"

definition call_watch :: "effect_kind act" where
  "call_watch =
     vbind pop_string (\<lambda>pattern.
     vbind (check (\<lambda>_. pattern \<noteq> []) Empty_pattern) (\<lambda>_.
     vbind (check (\<lambda>s. length (watchers s) < limit max_watchers s) Watcher_budget) (\<lambda>_.
     vbind (gets (\<lambda>s. length (watchers s))) (\<lambda>w.
     vbind (update (\<lambda>s. s\<lparr>watchers := watchers s @ [False]\<rparr>)) (\<lambda>_.
     ret (Watch w pattern))))))"

definition call_wait :: "bool \<Rightarrow> effect_kind act" where
  "call_wait is_strict =
     vbind pop_duration (\<lambda>timeout.
     vbind pop_watcher (\<lambda>w.
     ret (Wait w timeout is_strict)))"

definition call_delay :: "effect_kind act" where
  "call_delay = vbind pop_duration (\<lambda>d. ret (Delay d))"

fun call_kind :: "builtin \<Rightarrow> effect_kind act" where
  "call_kind Cmd = call_command True"
| "call_kind CmdSendOnly = call_command False"
| "call_kind BWatch = call_watch"
| "call_kind BWait = call_wait False"
| "call_kind BExpect = call_wait True"
| "call_kind BDelay = call_delay"

definition vm_call :: "builtin \<Rightarrow> effect act" where
  "vm_call b =
     vbind (call_kind b) (\<lambda>k.
     vbind (gets next_effect) (\<lambda>i.
     vbind (or_error (checked_add_u64 i 1) Effect_budget) (\<lambda>next.
     vbind (update (\<lambda>s. s\<lparr>next_effect := next\<rparr>)) (\<lambda>_.
     gets (\<lambda>s. \<lparr>eff_id = i, eff_span = last_span s, eff_kind = k\<rparr>)))))"

section \<open>Instructions\<close>

definition jump :: "nat \<Rightarrow> unit act" where
  "jump target = update (\<lambda>s. s\<lparr>pc := target\<rparr>)"

definition load_var :: "nat \<Rightarrow> unit act" where
  "load_var i =
     vbind (gets (\<lambda>s. nth_opt (variables s) i)) (\<lambda>slot.
     vbind (or_panic slot) (\<lambda>v.
     vbind (or_error v Vm_invariant) push))"

definition store_var :: "nat \<Rightarrow> unit act" where
  "store_var i =
     vbind pop (\<lambda>v s.
       if i < length (variables s) then ret () (s\<lparr>variables := (variables s)[i := Some v]\<rparr>)
       else vm_panic s)"

definition and_then :: "unit act \<Rightarrow> vm_step option act" where
  "and_then m = vbind m (\<lambda>_. ret None)"

fun exec_op :: "op \<Rightarrow> vm_step option act" where
  "exec_op (OPush v) = and_then (push (Sc v))"
| "exec_op (OArg name) =
     and_then (vbind (gets (\<lambda>s. bt_get (vm_args s) name)) (\<lambda>v.
               vbind (or_panic v) (\<lambda>v. push (Sc v))))"
| "exec_op (OPrompt name) =
     and_then (vbind (gets (\<lambda>s. bt_get (vm_prompts s) name)) (\<lambda>v.
               vbind (or_panic v) (\<lambda>v. push (Sc (VString v)))))"
| "exec_op (OLoad i) = and_then (load_var i)"
| "exec_op (OStore i) = and_then (store_var i)"
| "exec_op OPop = and_then (vbind pop (\<lambda>_. ret ()))"
| "exec_op OMatched =
     and_then (vbind pop_watcher (\<lambda>w. vbind (watcher_matched w) push_bool))"
| "exec_op OIntegerToString =
     and_then (vbind pop_integer (\<lambda>i.
               let text = int_to_string i in
               vbind (check (\<lambda>s. str_len text \<le> limit max_string_bytes s) String_limit) (\<lambda>_.
               push (Sc (VString text)))))"
| "exec_op (OUnary operator) = and_then (vm_unary operator)"
| "exec_op (OBinary operator) = and_then (vm_binary operator)"
| "exec_op (OJump target) = and_then (jump target)"
| "exec_op (OJumpIfFalse target) =
     and_then (vbind pop_bool (\<lambda>b. if \<not> b then jump target else ret ()))"
| "exec_op (OAnd target) =
     and_then (vbind peek_bool (\<lambda>b. if \<not> b then jump target else vbind pop (\<lambda>_. ret ())))"
| "exec_op (OOr target) =
     and_then (vbind peek_bool (\<lambda>b. if b then jump target else vbind pop (\<lambda>_. ret ())))"
| "exec_op (OCall b) =
     vbind (vm_call b) (\<lambda>e.
     vbind (update (\<lambda>s. s\<lparr>pending := Some e\<rparr>)) (\<lambda>_.
     ret (Some (Step_effect e))))"

definition stack_bound :: "limits \<Rightarrow> nat" where
  "stack_bound l = saturating_add_u64 (saturating_mul_u64 (max_nesting l) 4) 16"

text \<open>
  One round of the loop of \<open>advance_inner\<close>; \<open>None\<close>: the loop goes on.
\<close>

definition vm_round :: "vm_step option act" where
  "vm_round s =
     (if pc s \<ge> length (p_code (prog s)) then
        (if stack s \<noteq> [] then vm_error Vm_invariant s else ret (Some Complete) s)
      else
        (let i = p_code (prog s) ! pc s; s = s\<lparr>last_span := ispan i\<rparr> in
         if instructions s \<ge> limit max_instructions s then vm_error Instruction_budget s
         else
           vbind (exec_op (iop i)) (\<lambda>r.
             case r of
               Some step \<Rightarrow> ret (Some step)
             | None \<Rightarrow>
                 vbind (check (\<lambda>s. length (stack s) \<le> limit stack_bound s) Stack_limit)
                   (\<lambda>_. ret None))
             (s\<lparr>instructions := instructions s + 1, pc := pc s + 1\<rparr>)))"

fun advance_inner :: "nat \<Rightarrow> vm_step act" where
  "advance_inner 0 = ret Yielded"
| "advance_inner (Suc n) =
     vbind vm_round (\<lambda>r. case r of Some step \<Rightarrow> ret step | None \<Rightarrow> advance_inner n)"

section \<open>The interface of the driver\<close>

text \<open>An error of the machine is recorded: \<open>failure\<close> is sticky.\<close>

definition record_failure :: "'a act \<Rightarrow> 'a act" where
  "record_failure m s =
     (case m s of
        (Inl (Fail e), s) \<Rightarrow> (Inl (Fail e), s\<lparr>failure := Some e\<rparr>)
      | r \<Rightarrow> r)"

definition advance :: "vm_step act" where
  "advance s =
     (case failure s of
        Some e \<Rightarrow> (Inl (Fail e), s)
      | None \<Rightarrow>
          (case pending s of
             Some e \<Rightarrow> (Inr (Step_effect e), s)
           | None \<Rightarrow> record_failure (advance_inner (limit instructions_per_yield s)) s))"

definition resume_wait :: "watcher_id \<Rightarrow> bool \<Rightarrow> bool \<Rightarrow> unit act" where
  "resume_wait w is_strict matched =
     vbind (watcher_matched w) (\<lambda>_.
     vbind (update (\<lambda>s. if matched then s\<lparr>watchers := (watchers s)[w := True]\<rparr> else s)) (\<lambda>_.
     if is_strict then check (\<lambda>_. matched) Expect_timeout else push_bool matched))"

definition resume_inner :: "nat \<Rightarrow> effect_result \<Rightarrow> unit act" where
  "resume_inner effect_id result =
     vbind (gets pending) (\<lambda>p.
     vbind (or_error p Effect_protocol) (\<lambda>e.
     vbind (check (\<lambda>_. eff_id e = effect_id) Effect_protocol) (\<lambda>_.
     vbind
       (case (eff_kind e, result) of
          (Command _ _, Done) \<Rightarrow> ret ()
        | (Delay _, Done) \<Rightarrow> ret ()
        | (Watch w _, Done) \<Rightarrow> push (Wt w)
        | (Wait w _ is_strict, Matched matched) \<Rightarrow> resume_wait w is_strict matched
        | _ \<Rightarrow> vm_error Effect_protocol) (\<lambda>_.
     update (\<lambda>s. s\<lparr>pending := None\<rparr>)))))"

definition resume :: "nat \<Rightarrow> effect_result \<Rightarrow> unit act" where
  "resume effect_id result s =
     (case failure s of
        Some e \<Rightarrow> (Inl (Fail e), s)
      | None \<Rightarrow> record_failure (resume_inner effect_id result) s)"

definition fail_effect :: "nat \<Rightarrow> unit act" where
  "fail_effect effect_id s =
     (case failure s of
        Some e \<Rightarrow> (Inl (Fail e), s)
      | None \<Rightarrow>
          record_failure
            (vm_error
              (if \<exists>e \<in> set_option (pending s). eff_id e = effect_id
               then Effect_failed else Effect_protocol)) s)"

definition interrupt :: "vm \<Rightarrow> macro_error \<times> vm" where
  "interrupt s =
     (case failure s of
        Some e \<Rightarrow> (e, s)
      | None \<Rightarrow>
          (let e = \<lparr>err_code = Interrupted, err_span = last_span s\<rparr> in
           (e, s\<lparr>failure := Some e\<rparr>)))"

definition mark_matched :: "watcher_id \<Rightarrow> unit act" where
  "mark_matched w s =
     (case failure s of
        Some e \<Rightarrow> (Inl (Fail e), s)
      | None \<Rightarrow>
          if w < length (watchers s) then (Inr (), s\<lparr>watchers := (watchers s)[w := True]\<rparr>)
          else vm_error Unknown_watcher s)"

section \<open>Starting a program\<close>

definition check_argument ::
  "program \<Rightarrow> (rstring, val) btree \<Rightarrow> rstring \<times> valty \<Rightarrow> unit res" where
  "check_argument p args = (\<lambda>(name, expected).
     sbind (ok_or (bt_get args name) (err Missing_parameter span_start)) (\<lambda>v.
     sbind (guard_ok (value_type v = expected) (err Parameter_type span_start)) (\<lambda>_.
     case v of
       VString t \<Rightarrow> guard_ok (str_len t \<le> max_string_bytes (p_limits p)) (err String_limit span_start)
     | _ \<Rightarrow> Inr ())))"

definition check_prompt ::
  "program \<Rightarrow> (rstring, rstring) btree \<Rightarrow> rstring \<times> span \<Rightarrow> unit res" where
  "check_prompt p texts = (\<lambda>(name, sp).
     sbind (ok_or (bt_get texts name) (err Missing_prompt sp)) (\<lambda>t.
     if t = [] then Inl (err Empty_pattern sp)
     else guard_ok (str_len t \<le> max_string_bytes (p_limits p)) (err String_limit sp)))"

definition vm_new ::
  "program \<Rightarrow> (rstring, val) btree \<Rightarrow> (rstring, rstring) btree \<Rightarrow> vm res" where
  "vm_new p args texts =
     sbind (each_ok (check_argument p args) (p_params p)) (\<lambda>_.
     sbind (each_ok (\<lambda>name. guard_ok (bt_contains (p_params p) name) (err Unknown_parameter span_start))
              (bt_keys args)) (\<lambda>_.
     sbind (each_ok (check_prompt p texts) (p_prompts p)) (\<lambda>_.
     Inr \<lparr>prog = p, vm_args = args, vm_prompts = texts,
          variables = replicate (p_variables p) None, stack = [], watchers = [], pc = 0,
          instructions = 0, command_bytes = 0, command_effects = 0, next_effect = 1,
          pending = None, failure = None, last_span = span_start\<rparr>)))"

end
