(* ===== verification/MacroTyping.thy ===== *)
theory MacroTyping
  imports MacroCompiler MacroVm
begin

text \<open>
  The type system of the instruction set, in the manner of a bytecode verifier: a state type
  gives the types on the stack (top first) and the variables known to be initialised with
  their types; an instruction is well-typed when it is applicable and the state type at every
  successor is implied by its effect. The section on expressions shows that what
  \<open>comp_expr\<close> emits is well-typed.
\<close>

section \<open>State types and effects\<close>

type_synonym env = "(nat \<times> ty) set"
type_synonym stype = "ty list \<times> env"

text \<open>
  What typing depends on: the declared parameters, the required prompts, the number of
  variables and the byte limit of strings.
\<close>

record tctx =
  t_params :: "(rstring, valty) btree"
  t_prompts :: "rstring set"
  t_vars :: nat
  t_max_str :: nat

fun builtin_eff :: "builtin \<Rightarrow> ty list \<Rightarrow> ty list option" where
  "builtin_eff Cmd (Scalar TString # ST) = Some ST"
| "builtin_eff CmdSendOnly (Scalar TString # ST) = Some ST"
| "builtin_eff BWatch (Scalar TString # ST) = Some (Watcher # ST)"
| "builtin_eff BWait (Scalar TInteger # Watcher # ST) = Some (Scalar TBoolean # ST)"
| "builtin_eff BExpect (Scalar TInteger # Watcher # ST) = Some ST"
| "builtin_eff BDelay (Scalar TInteger # ST) = Some ST"
| "builtin_eff _ _ = None"

definition bin_result :: "binary \<Rightarrow> valty \<Rightarrow> valty option" where
  "bin_result b t =
     (if b = Add \<and> t = TString then Some TString
      else if b \<in> {Add, Subtract, Multiply, Divide, Remainder} \<and> t = TInteger then Some TInteger
      else if b \<in> {BLess, BLessEqual, BGreater, BGreaterEqual} \<and> t = TInteger then Some TBoolean
      else if b \<in> {BEqual, BNotEqual} then Some TBoolean
      else None)"

fun un_type :: "unary \<Rightarrow> valty" where
  "un_type Negate = TInteger"
| "un_type Not = TBoolean"

definition store_env :: "nat \<Rightarrow> ty \<Rightarrow> env \<Rightarrow> env" where
  "store_env i t A = insert (i, t) {x \<in> A. fst x \<noteq> i}"

text \<open>
  \<open>op_eff G op k \<tau> \<sigma>s\<close>: \<open>op\<close> at \<open>k\<close> is applicable in \<open>\<tau>\<close> and goes to the successors \<open>\<sigma>s\<close>.
\<close>

inductive op_eff :: "tctx \<Rightarrow> op \<Rightarrow> nat \<Rightarrow> stype \<Rightarrow> (nat \<times> stype) list \<Rightarrow> bool" for G where
  eff_push: "wf_val (t_max_str G) v \<Longrightarrow> t = value_type v \<Longrightarrow>
     op_eff G (OPush v) k (ST, A) [(Suc k, Scalar t # ST, A)]"
| eff_arg: "bt_get (t_params G) x = Some t \<Longrightarrow>
     op_eff G (OArg x) k (ST, A) [(Suc k, Scalar t # ST, A)]"
| eff_prompt: "x \<in> t_prompts G \<Longrightarrow>
     op_eff G (OPrompt x) k (ST, A) [(Suc k, Scalar TString # ST, A)]"
| eff_load: "(i, t) \<in> A \<Longrightarrow> op_eff G (OLoad i) k (ST, A) [(Suc k, t # ST, A)]"
| eff_store: "i < t_vars G \<Longrightarrow>
     op_eff G (OStore i) k (t # ST, A) [(Suc k, ST, store_env i t A)]"
| eff_pop: "op_eff G OPop k (t # ST, A) [(Suc k, ST, A)]"
| eff_matched: "op_eff G OMatched k (Watcher # ST, A) [(Suc k, Scalar TBoolean # ST, A)]"
| eff_str: "op_eff G OIntegerToString k (Scalar TInteger # ST, A) [(Suc k, Scalar TString # ST, A)]"
| eff_unary: "op_eff G (OUnary u) k (Scalar (un_type u) # ST, A) [(Suc k, Scalar (un_type u) # ST, A)]"
| eff_binary: "bin_result b t = Some r \<Longrightarrow>
     op_eff G (OBinary b) k (Scalar t # Scalar t # ST, A) [(Suc k, Scalar r # ST, A)]"
| eff_jump: "op_eff G (OJump target) k (ST, A) [(target, ST, A)]"
| eff_if: "op_eff G (OJumpIfFalse target) k (Scalar TBoolean # ST, A)
     [(Suc k, ST, A), (target, ST, A)]"
| eff_and: "op_eff G (OAnd target) k (Scalar TBoolean # ST, A)
     [(Suc k, ST, A), (target, Scalar TBoolean # ST, A)]"
| eff_or: "op_eff G (OOr target) k (Scalar TBoolean # ST, A)
     [(Suc k, ST, A), (target, Scalar TBoolean # ST, A)]"
| eff_call: "builtin_eff b ST = Some ST' \<Longrightarrow> op_eff G (OCall b) k (ST, A) [(Suc k, ST', A)]"

inductive_cases op_effE: "op_eff G oper k \<tau> \<sigma>s"

definition ctx_le :: "tctx \<Rightarrow> tctx \<Rightarrow> bool" where
  "ctx_le G G' \<longleftrightarrow> t_params G' = t_params G \<and> t_prompts G \<subseteq> t_prompts G' \<and>
     t_vars G \<le> t_vars G' \<and> t_max_str G' = t_max_str G"

lemma op_eff_mono: "op_eff G oper k \<tau> \<sigma>s \<Longrightarrow> ctx_le G G' \<Longrightarrow> op_eff G' oper k \<tau> \<sigma>s"
  by (induction rule: op_eff.induct) (auto simp: ctx_le_def intro!: op_eff.intros)

text \<open>A state type is implied by another with the same stack and more initialised variables.\<close>

definition leq :: "stype \<Rightarrow> stype \<Rightarrow> bool" where
  "leq \<sigma> \<tau> \<longleftrightarrow> fst \<sigma> = fst \<tau> \<and> snd \<tau> \<subseteq> snd \<sigma>"

lemma leq_refl [simp]: "leq \<sigma> \<sigma>"
  by (simp add: leq_def)

lemma leq_trans: "leq \<rho> \<sigma> \<Longrightarrow> leq \<sigma> \<tau> \<Longrightarrow> leq \<rho> \<tau>"
  by (auto simp: leq_def)

definition wt :: "tctx \<Rightarrow> instruction list \<Rightarrow> (nat \<Rightarrow> stype) \<Rightarrow> nat \<Rightarrow> bool" where
  "wt G cd \<Phi> k \<longleftrightarrow>
     (\<exists>\<sigma>s. op_eff G (iop (cd ! k)) k (\<Phi> k) \<sigma>s \<and>
        (\<forall>(q, \<sigma>) \<in> set \<sigma>s. q \<le> length cd \<and> leq \<sigma> (\<Phi> q)))"

text \<open>
  Code in the making: \<open>typed c \<Phi> P\<close> says that all instructions of \<open>c\<close> are well-typed, apart
  from the branches at the positions \<open>P\<close>, whose targets are still to be patched.
\<close>

definition ctx_of :: "compiler \<Rightarrow> tctx" where
  "ctx_of c = \<lparr>t_params = params c, t_prompts = set (bt_keys (prompts c)),
     t_vars = n_variables c, t_max_str = max_string_bytes (lims c)\<rparr>"

definition typed :: "compiler \<Rightarrow> (nat \<Rightarrow> stype) \<Rightarrow> nat set \<Rightarrow> bool" where
  "typed c \<Phi> P \<longleftrightarrow>
     (\<forall>k \<le> length (code c). length (fst (\<Phi> k)) \<le> stack_bound (lims c)) \<and>
     (\<forall>k < length (code c). k \<notin> P \<longrightarrow> wt (ctx_of c) (code c) \<Phi> k)"

lemma typed_mono: "typed c \<Phi> P \<Longrightarrow> P \<subseteq> P' \<Longrightarrow> typed c \<Phi> P'"
  by (auto simp: typed_def)

lemma wt_ctx: "wt G cd \<Phi> k \<Longrightarrow> ctx_le G G' \<Longrightarrow> wt G' cd \<Phi> k"
  unfolding wt_def by (blast intro: op_eff_mono)

lemma typed_ctx:
  "typed c \<Phi> P \<Longrightarrow> ctx_le (ctx_of c) (ctx_of c') \<Longrightarrow> code c' = code c \<Longrightarrow> lims c' = lims c \<Longrightarrow>
   typed c' \<Phi> P"
  by (auto simp: typed_def intro: wt_ctx)

lemma wt_extend:
  "wt G cd \<Phi> k \<Longrightarrow> k < length cd \<Longrightarrow> (\<And>q. q \<le> length cd \<Longrightarrow> \<Phi>' q = \<Phi> q) \<Longrightarrow>
   wt G (cd @ cd') \<Phi>' k"
  unfolding wt_def by (fastforce simp: nth_append)

lemma emit_op_sel [simp]:
  "code (emit_op oper sp c) = code c @ [\<lparr>iop = oper, ispan = sp\<rparr>]"
  "scopes (emit_op oper sp c) = scopes c" "loops (emit_op oper sp c) = loops c"
  "n_variables (emit_op oper sp c) = n_variables c" "params (emit_op oper sp c) = params c"
  "prompts (emit_op oper sp c) = prompts c" "lims (emit_op oper sp c) = lims c"
  "ctx_of (emit_op oper sp c) = ctx_of c"
  by (simp_all add: emit_op_def emit_def ctx_of_def)

lemma typed_emit_pending:
  assumes t: "typed c \<Phi> P" and n: "length (fst \<tau>) \<le> stack_bound (lims c)"
  shows "typed (emit_op oper sp c) (\<Phi>(Suc (length (code c)) := \<tau>)) (insert (length (code c)) P)"
proof -
  have "wt (ctx_of c) (code c @ [\<lparr>iop = oper, ispan = sp\<rparr>]) (\<Phi>(Suc (length (code c)) := \<tau>)) k"
    if "k < length (code c)" "k \<notin> P" for k
    by (rule wt_extend) (use t that in \<open>auto simp: typed_def\<close>)
  moreover have "length (fst ((\<Phi>(Suc (length (code c)) := \<tau>)) k)) \<le> stack_bound (lims c)"
    if "k \<le> Suc (length (code c))" for k
    using t n that by (cases "k = Suc (length (code c))") (auto simp: typed_def)
  ultimately show ?thesis by (auto simp: typed_def less_Suc_eq)
qed

lemma typed_emit:
  assumes t: "typed c \<Phi> P" and e: "op_eff (ctx_of c) oper (length (code c)) (\<Phi> (length (code c))) \<sigma>s"
    and s: "\<And>q \<sigma>. (q, \<sigma>) \<in> set \<sigma>s \<Longrightarrow>
      (q \<le> length (code c) \<and> leq \<sigma> (\<Phi> q)) \<or> (q = Suc (length (code c)) \<and> leq \<sigma> \<tau>)"
    and n: "length (fst \<tau>) \<le> stack_bound (lims c)"
  shows "typed (emit_op oper sp c) (\<Phi>(Suc (length (code c)) := \<tau>)) P"
proof -
  have "wt (ctx_of c) (code c @ [\<lparr>iop = oper, ispan = sp\<rparr>])
      (\<Phi>(Suc (length (code c)) := \<tau>)) (length (code c))"
    unfolding wt_def
    by (rule exI [of _ \<sigma>s]) (use e s in \<open>fastforce simp: nth_append\<close>)
  then show ?thesis using typed_emit_pending [OF t n, of oper sp]
    by (auto simp: typed_def)
qed

lemma wt_weaken:
  assumes "wt G cd \<Phi> k" "\<Phi>' k = \<Phi> k" and le: "\<And>q. q \<le> length cd \<Longrightarrow> leq (\<Phi> q) (\<Phi>' q)"
  shows "wt G cd \<Phi>' k"
proof -
  obtain \<sigma>s where e: "op_eff G (iop (cd ! k)) k (\<Phi>' k) \<sigma>s"
    and s: "\<And>q \<sigma>. (q, \<sigma>) \<in> set \<sigma>s \<Longrightarrow> q \<le> length cd \<and> leq \<sigma> (\<Phi> q)"
    using assms(1,2) by (auto simp: wt_def)
  have "q \<le> length cd \<and> leq \<sigma> (\<Phi>' q)" if "(q, \<sigma>) \<in> set \<sigma>s" for q \<sigma>
    using s [OF that] le leq_trans by blast
  with e show ?thesis by (auto simp: wt_def)
qed

lemma typed_weaken:
  assumes t: "typed c \<Phi> P" and le: "leq (\<Phi> (length (code c))) \<tau>"
  shows "typed c (\<Phi>(length (code c) := \<tau>)) P"
  unfolding typed_def
proof (intro conjI allI impI)
  fix k assume k: "k < length (code c)" "k \<notin> P"
  show "wt (ctx_of c) (code c) (\<Phi>(length (code c) := \<tau>)) k"
    by (rule wt_weaken [of _ _ \<Phi>]) (use t le k in \<open>auto simp: typed_def\<close>)
next
  fix k assume "k \<le> length (code c)"
  then show "length (fst ((\<Phi>(length (code c) := \<tau>)) k)) \<le> stack_bound (lims c)"
    using t le by (auto simp: typed_def leq_def)
qed

lemma patch_eq:
  "i < length (code c) \<Longrightarrow> set_target (iop (code c ! i)) target = Some oper \<Longrightarrow>
   patch i target c = Inr (c\<lparr>code := (code c)[i := (code c ! i)\<lparr>iop := oper\<rparr>]\<rparr>)"
  by (simp add: patch_def)

lemma typed_patch:
  assumes t: "typed c \<Phi> P" and i: "i < length (code c)"
    and e: "op_eff (ctx_of c) oper i (\<Phi> i) \<sigma>s"
    and s: "\<And>q \<sigma>. (q, \<sigma>) \<in> set \<sigma>s \<Longrightarrow> q \<le> length (code c) \<and> leq \<sigma> (\<Phi> q)"
  shows "typed (c\<lparr>code := (code c)[i := (code c ! i)\<lparr>iop := oper\<rparr>]\<rparr>) \<Phi> (P - {i})"
  unfolding typed_def
proof (intro conjI allI impI)
  fix k assume k: "k < length (code (c\<lparr>code := (code c)[i := (code c ! i)\<lparr>iop := oper\<rparr>]\<rparr>))"
    and P: "k \<notin> P - {i}"
  show "wt (ctx_of (c\<lparr>code := (code c)[i := (code c ! i)\<lparr>iop := oper\<rparr>]\<rparr>))
      (code (c\<lparr>code := (code c)[i := (code c ! i)\<lparr>iop := oper\<rparr>]\<rparr>)) \<Phi> k"
  proof (cases "k = i")
    case True
    with e s i show ?thesis unfolding wt_def by (fastforce simp: ctx_of_def)
  next
    case False
    with t P k show ?thesis by (auto simp: typed_def wt_def ctx_of_def)
  qed
qed (use t in \<open>auto simp: typed_def\<close>)

end
