(* ===== verification/MacroExprTyping.thy ===== *)
theory MacroExprTyping
  imports MacroTyping
begin

text \<open>
  The code of an expression is well-typed and leaves one value of the type that
  \<open>comp_expr\<close> returns (none for \<open>Void\<close>) on top of the stack; the compiler never panics on it.
\<close>

section \<open>Results of the compiler\<close>

definition cwp :: "'a res \<Rightarrow> ('a \<Rightarrow> bool) \<Rightarrow> bool" where
  "cwp r Q \<longleftrightarrow> (case r of Inl f \<Rightarrow> f \<noteq> Panic \<and> f \<noteq> Out_of_fuel | Inr x \<Rightarrow> Q x)"

named_theorems cwp_intros \<open>rules that reduce a step of the compiler to its parts\<close>

lemma cwp_Inr [cwp_intros]: "Q x \<Longrightarrow> cwp (Inr x) Q"
  by (simp add: cwp_def)

lemma cwp_err [cwp_intros]: "cwp (Inl (err e sp)) Q"
  by (simp add: cwp_def)

lemma cwp_sbind [cwp_intros]: "cwp m (\<lambda>x. cwp (f x) Q) \<Longrightarrow> cwp (sbind m f) Q"
  by (auto simp: cwp_def split: sum.splits)

lemma cwp_prod [cwp_intros]: "(\<And>a b. x = (a, b) \<Longrightarrow> cwp (f a b) Q) \<Longrightarrow> cwp (case x of (a, b) \<Rightarrow> f a b) Q"
  by (cases x) simp

lemma cwp_if [cwp_intros]:
  "(b \<Longrightarrow> cwp r Q) \<Longrightarrow> (\<not> b \<Longrightarrow> cwp s Q) \<Longrightarrow> cwp (if b then r else s) Q"
  by simp

lemma cwp_Let [cwp_intros]: "cwp (f x) Q \<Longrightarrow> cwp (Let x f) Q"
  by simp

lemma cwp_ok_or [cwp_intros]:
  "(\<And>x. m = Some x \<Longrightarrow> Q x) \<Longrightarrow> cwp (ok_or m (err e sp)) Q"
  by (cases m) (simp_all add: cwp_def)

lemma cwp_guard [cwp_intros]: "(b \<Longrightarrow> Q ()) \<Longrightarrow> cwp (guard_ok b (err e sp)) Q"
  by (cases b) (simp_all add: cwp_def)

lemma cwp_require [cwp_intros]: "(t = t' \<Longrightarrow> Q ()) \<Longrightarrow> cwp (require t t' sp) Q"
  by (simp add: require_def cwp_guard)

lemma cwp_mono: "cwp r Q \<Longrightarrow> (\<And>x. Q x \<Longrightarrow> Q' x) \<Longrightarrow> cwp r Q'"
  by (auto simp: cwp_def split: sum.splits)

lemma cwp_crash_free: "cwp r Q \<Longrightarrow> crash_free r"
  by (auto simp: cwp_def crash_free_def split: sum.splits)

lemma cwp_Inr_D: "cwp r Q \<Longrightarrow> r = Inr x \<Longrightarrow> Q x"
  by (simp add: cwp_def)

lemma cwp_crash_free_iff: "crash_free r \<longleftrightarrow> cwp r (\<lambda>_. True)"
  by (auto simp: cwp_def crash_free_def split: sum.splits)

section \<open>The checks on constants do not panic\<close>

lemma crash_free_constant_string [simp, intro]: "crash_free (constant_string n e)"
  by (induction n e rule: constant_string.induct)
     (auto intro!: crash_free_bind split: option.splits)

lemma cwp_check_command: "args \<noteq> [] \<Longrightarrow> cwp (check_command args c) (\<lambda>_. True)"
  by (auto simp: check_command_def cwp_crash_free_iff [symmetric] split: list.splits option.splits
      intro!: crash_free_bind)

lemma cwp_check_constants: "args \<noteq> [] \<Longrightarrow> cwp (check_constants b args c) (\<lambda>_. True)"
  using cwp_check_command [of args c]
  by (auto simp: check_constants_def check_watch_def check_duration_def cwp_crash_free_iff [symmetric]
      split: list.splits option.splits expr.splits expr_kind.splits val.splits
      intro!: crash_free_bind)

section \<open>Extending the code\<close>

text \<open>
  What compiling an expression leaves as it was: the code and the state types before it, and
  everything of the compiler but the prompts, which can only become more.
\<close>

definition extends :: "(nat \<Rightarrow> stype) \<Rightarrow> compiler \<Rightarrow> (nat \<Rightarrow> stype) \<Rightarrow> compiler \<Rightarrow> bool" where
  "extends \<Phi> c \<Phi>' c' \<longleftrightarrow>
     length (code c) \<le> length (code c') \<and> take (length (code c)) (code c') = code c \<and>
     (\<forall>q \<le> length (code c). \<Phi>' q = \<Phi> q) \<and>
     params c' = params c \<and> lims c' = lims c \<and> n_variables c \<le> n_variables c' \<and>
     set (bt_keys (prompts c)) \<subseteq> set (bt_keys (prompts c'))"

definition same_scopes :: "compiler \<Rightarrow> compiler \<Rightarrow> bool" where
  "same_scopes c c' \<longleftrightarrow>
     scopes c' = scopes c \<and> loops c' = loops c \<and> n_variables c' = n_variables c"

lemma extends_refl [simp]: "extends \<Phi> c \<Phi> c"
  by (simp add: extends_def)

lemma same_scopes_refl [simp]: "same_scopes c c"
  by (simp add: same_scopes_def)

lemma take_take_eq:
  "take (length xs) ys = xs \<Longrightarrow> take (length ys) zs = ys \<Longrightarrow> length xs \<le> length ys \<Longrightarrow>
   take (length xs) zs = xs"
  by (metis min.absorb1 take_take)

lemma extends_trans: "extends \<Phi> c \<Phi>1 c1 \<Longrightarrow> extends \<Phi>1 c1 \<Phi>2 c2 \<Longrightarrow> extends \<Phi> c \<Phi>2 c2"
  unfolding extends_def by (auto intro: take_take_eq)

lemma same_scopes_trans: "same_scopes c c1 \<Longrightarrow> same_scopes c1 c2 \<Longrightarrow> same_scopes c c2"
  by (simp add: same_scopes_def)

lemma extends_emit:
  "extends \<Phi> c (\<Phi>(Suc (length (code c)) := \<tau>)) (emit_op oper sp c)"
  by (simp add: extends_def)

lemma same_scopes_emit [simp]: "same_scopes c (emit_op oper sp c')  \<longleftrightarrow> same_scopes c c'"
  by (simp add: same_scopes_def)

lemma extends_nth: "extends \<Phi> c \<Phi>' c' \<Longrightarrow> i < length (code c) \<Longrightarrow> code c' ! i = code c ! i"
  unfolding extends_def by (metis nth_take)

lemma extends_length: "extends \<Phi> c \<Phi>' c' \<Longrightarrow> length (code c) \<le> length (code c')"
  by (simp add: extends_def)

lemma extends_phi: "extends \<Phi> c \<Phi>' c' \<Longrightarrow> q \<le> length (code c) \<Longrightarrow> \<Phi>' q = \<Phi> q"
  by (simp add: extends_def)

lemma extends_lims: "extends \<Phi> c \<Phi>' c' \<Longrightarrow> lims c' = lims c" "extends \<Phi> c \<Phi>' c' \<Longrightarrow> params c' = params c"
  by (simp_all add: extends_def)

text \<open>Patching a branch of the part that was added.\<close>

lemma extends_patch:
  "extends \<Phi> c \<Phi>' c' \<Longrightarrow> length (code c) \<le> i \<Longrightarrow> extends \<Phi> c \<Phi>' (c'\<lparr>code := (code c')[i := x]\<rparr>)"
  by (simp add: extends_def)

section \<open>Environments\<close>

definition scope_env :: "(rstring, var_info) btree \<Rightarrow> env" where
  "scope_env s = (\<lambda>(x, v). (var_index v, var_kind v)) ` set s"

definition env_of :: "compiler \<Rightarrow> env" where
  "env_of c = \<Union> (scope_env ` set (scopes c))"

text \<open>The variables in scope are initialised, and no variable has the type \<open>Void\<close>.\<close>

definition env_in :: "compiler \<Rightarrow> env \<Rightarrow> bool" where
  "env_in c A \<longleftrightarrow> env_of c \<subseteq> A \<and> Void \<notin> snd ` env_of c"

lemma find_scope_env:
  "find_scope name ss = Some v \<Longrightarrow> (var_index v, var_kind v) \<in> \<Union> (scope_env ` set ss)"
  by (induction ss) (force simp: scope_env_def split: option.splits dest!: bt_get_Some_in)+

lemma cwp_lookup:
  "(\<And>v. (var_index v, var_kind v) \<in> env_of c \<Longrightarrow> Q v) \<Longrightarrow> cwp (lookup name sp c) Q"
  unfolding lookup_def env_of_def by (intro cwp_intros) (metis find_scope_env)

section \<open>Expressions\<close>

fun push_type :: "ty \<Rightarrow> ty list \<Rightarrow> ty list" where
  "push_type Void ST = ST"
| "push_type t ST = t # ST"

text \<open>The state in which code generation goes on.\<close>

definition at_end :: "compiler \<Rightarrow> (nat \<Rightarrow> stype) \<Rightarrow> nat set \<Rightarrow> ty list \<Rightarrow> env \<Rightarrow> bool" where
  "at_end c \<Phi> P ST A \<longleftrightarrow> typed c \<Phi> P \<and> \<Phi> (length (code c)) = (ST, A)"

definition grows ::
  "compiler \<Rightarrow> (nat \<Rightarrow> stype) \<Rightarrow> nat set \<Rightarrow> ty list \<Rightarrow> env \<Rightarrow> compiler \<Rightarrow> bool" where
  "grows c \<Phi> P ST A c' \<longleftrightarrow>
     same_scopes c c' \<and> (\<exists>\<Phi>'. at_end c' \<Phi>' P ST A \<and> extends \<Phi> c \<Phi>' c')"

lemma grows_refl: "at_end c \<Phi> P ST A \<Longrightarrow> grows c \<Phi> P ST A c"
  by (auto simp: grows_def)

lemma grows_trans:
  "grows c \<Phi> P ST A c1 \<Longrightarrow>
   (\<And>\<Phi>1. at_end c1 \<Phi>1 P ST A \<Longrightarrow> extends \<Phi> c \<Phi>1 c1 \<Longrightarrow> grows c1 \<Phi>1 P ST' A' c2) \<Longrightarrow>
   grows c \<Phi> P ST' A' c2"
  unfolding grows_def by (meson extends_trans same_scopes_trans)

lemma grows_from:
  "extends \<Phi> c \<Phi>1 c1 \<Longrightarrow> same_scopes c c1 \<Longrightarrow> grows c1 \<Phi>1 P ST A c2 \<Longrightarrow> grows c \<Phi> P ST A c2"
  unfolding grows_def by (meson extends_trans same_scopes_trans)

text \<open>An instruction whose only successor is the next position.\<close>

lemma grows_emit:
  assumes g: "grows c \<Phi> P ST A c1"
    and e: "op_eff (ctx_of c1) oper (length (code c1)) (ST, A) [(Suc (length (code c1)), ST', A')]"
    and n: "length ST' \<le> stack_bound (lims c)"
  shows "grows c \<Phi> P ST' A' (emit_op oper sp c1)"
proof (rule grows_trans [OF g])
  fix \<Phi>1 assume a: "at_end c1 \<Phi>1 P ST A" and x: "extends \<Phi> c \<Phi>1 c1"
  let ?\<Phi> = "\<Phi>1(Suc (length (code c1)) := (ST', A'))"
  have "typed (emit_op oper sp c1) ?\<Phi> P"
    by (rule typed_emit [where \<sigma>s = "[(Suc (length (code c1)), ST', A')]"])
       (use a e n extends_lims [OF x] in \<open>auto simp: at_end_def\<close>)
  then show "grows c1 \<Phi>1 P ST' A' (emit_op oper sp c1)"
    by (auto simp: grows_def at_end_def intro!: exI [of _ ?\<Phi>] extends_emit)
qed

text \<open>The short-circuit operators: a branch over the code of the right operand.\<close>

lemma short_circuit_branch:
  assumes g: "grows c \<Phi> P (Scalar TBoolean # ST) A c1" and n: "Suc (length ST) \<le> stack_bound (lims c)"
  obtains \<Phi>2 where "at_end (emit_op oper sp c1) \<Phi>2 (insert (length (code c1)) P) ST A"
    "\<Phi>2 (length (code c1)) = (Scalar TBoolean # ST, A)" "extends \<Phi> c \<Phi>2 (emit_op oper sp c1)"
    "same_scopes c (emit_op oper sp c1)"
proof -
  obtain \<Phi>1 where a1: "at_end c1 \<Phi>1 P (Scalar TBoolean # ST) A" and x1: "extends \<Phi> c \<Phi>1 c1"
    and s1: "same_scopes c c1"
    using g by (auto simp: grows_def)
  let ?\<Phi>2 = "\<Phi>1(Suc (length (code c1)) := (ST, A))"
  have "at_end (emit_op oper sp c1) ?\<Phi>2 (insert (length (code c1)) P) ST A"
    using a1 n extends_lims [OF x1] by (auto simp: at_end_def intro!: typed_emit_pending)
  moreover have "?\<Phi>2 (length (code c1)) = (Scalar TBoolean # ST, A)"
    using a1 by (simp add: at_end_def)
  ultimately show thesis
    using s1 by (intro that [of ?\<Phi>2] extends_trans [OF x1 extends_emit]) simp_all
qed

lemma short_circuit_patch:
  assumes x2: "extends \<Phi> c \<Phi>2 (emit_op oper sp c1)" and s2: "same_scopes c (emit_op oper sp c1)"
    and le: "length (code c) \<le> length (code c1)"
    and oper: "oper = OAnd 0 \<or> oper = OOr 0"
    and at_2: "at_end (emit_op oper sp c1) \<Phi>2 (insert (length (code c1)) P) ST A"
    and at_b: "\<Phi>2 (length (code c1)) = (Scalar TBoolean # ST, A)"
    and g: "grows (emit_op oper sp c1) \<Phi>2 (insert (length (code c1)) P) (Scalar TBoolean # ST) A c3"
  shows "cwp (patch (length (code c1)) (length (code c3)) c3)
     (\<lambda>c4. grows c \<Phi> P (Scalar TBoolean # ST) A c4)"
proof -
  let ?b = "length (code c1)" and ?t = "length (code c3)" and ?S = "Scalar TBoolean # ST"
  obtain \<Phi>3 where a3: "at_end c3 \<Phi>3 (insert ?b P) ?S A"
    and x3: "extends \<Phi>2 (emit_op oper sp c1) \<Phi>3 c3" and s3: "same_scopes (emit_op oper sp c1) c3"
    using g by (auto simp: grows_def)
  have b: "?b < length (code c3)" using extends_length [OF x3] by simp
  have code_b: "iop (code c3 ! ?b) = oper" using extends_nth [OF x3, of ?b] by simp
  have phi: "\<Phi>3 ?b = (?S, A)" "\<Phi>3 (Suc ?b) = (ST, A)" "\<Phi>3 ?t = (?S, A)"
    using extends_phi [OF x3, of ?b] extends_phi [OF x3, of "Suc ?b"] at_2 at_b a3
    by (simp_all add: at_end_def)
  obtain oper' where op': "set_target oper ?t = Some oper'"
    and e: "op_eff (ctx_of c3) oper' ?b (\<Phi>3 ?b) [(Suc ?b, ST, A), (?t, ?S, A)]"
  proof -
    have "op_eff (ctx_of c3) (OAnd ?t) ?b (?S, A) [(Suc ?b, ST, A), (?t, ?S, A)]"
      "op_eff (ctx_of c3) (OOr ?t) ?b (?S, A) [(Suc ?b, ST, A), (?t, ?S, A)]"
      by (rule eff_and eff_or)+
    with oper phi that show ?thesis by auto
  qed
  let ?c4 = "c3\<lparr>code := (code c3)[?b := (code c3 ! ?b)\<lparr>iop := oper'\<rparr>]\<rparr>"
  have "typed ?c4 \<Phi>3 (insert ?b P - {?b})"
  proof (rule typed_patch)
    show "op_eff (ctx_of c3) oper' ?b (\<Phi>3 ?b) [(Suc ?b, ST, A), (?t, ?S, A)]" by (fact e)
  qed (use a3 b phi in \<open>auto simp: at_end_def\<close>)
  then have "typed ?c4 \<Phi>3 P" by (rule typed_mono) auto
  moreover have "extends \<Phi> c \<Phi>3 ?c4" using extends_trans [OF x2 x3] le by (rule extends_patch)
  moreover have "same_scopes c ?c4" using s2 s3 by (simp add: same_scopes_def)
  ultimately have "grows c \<Phi> P ?S A ?c4" using phi by (auto simp: grows_def at_end_def)
  then show ?thesis by (simp add: patch_eq [OF b] code_b op' cwp_Inr)
qed

definition expr_typed :: "expr \<Rightarrow> bool" where
  "expr_typed e \<longleftrightarrow> (\<forall>c \<Phi> P ST A. at_end c \<Phi> P ST A \<longrightarrow> env_in c A \<longrightarrow>
     wf_expr (max_string_bytes (lims c)) e \<longrightarrow> length ST + expr_depth e \<le> stack_bound (lims c) \<longrightarrow>
     cwp (comp_expr e c) (\<lambda>(t, c'). grows c \<Phi> P (push_type t ST) A c'))"

definition args_typed :: "expr list \<Rightarrow> bool" where
  "args_typed es \<longleftrightarrow> (\<forall>c \<Phi> P ST A ts. at_end c \<Phi> P ST A \<longrightarrow> env_in c A \<longrightarrow>
     wf_exprs (max_string_bytes (lims c)) es \<longrightarrow> length ts \<le> length es \<longrightarrow> Void \<notin> set ts \<longrightarrow>
     length ST + length ts + expr_depths es \<le> Suc (stack_bound (lims c)) \<longrightarrow>
     cwp (comp_arguments es ts c) (\<lambda>c'. grows c \<Phi> P (rev ts @ ST) A c'))"

lemma env_in_grows: "grows c \<Phi> P ST A' c1 \<Longrightarrow> env_in c A \<Longrightarrow> env_in c1 A"
  by (simp add: grows_def same_scopes_def env_in_def env_of_def)

lemma grows_env: "grows c \<Phi> P ST A c1 \<Longrightarrow> env_of c1 = env_of c"
  by (simp add: grows_def same_scopes_def env_of_def)

lemma grows_lims: "grows c \<Phi> P ST A c1 \<Longrightarrow> lims c1 = lims c"
  "grows c \<Phi> P ST A c1 \<Longrightarrow> params c1 = params c"
  by (auto simp: grows_def extends_def)

lemma expr_typedD:
  assumes "expr_typed e" "grows c \<Phi> P ST A c1" "env_in c A"
    "wf_expr (max_string_bytes (lims c)) e" "length ST + expr_depth e \<le> stack_bound (lims c)"
    and Q: "\<And>t c2. grows c \<Phi> P (push_type t ST) A c2 \<Longrightarrow> Q (t, c2)"
  shows "cwp (comp_expr e c1) Q"
proof -
  obtain \<Phi>1 where a: "at_end c1 \<Phi>1 P ST A" and x: "extends \<Phi> c \<Phi>1 c1" and s: "same_scopes c c1"
    using assms(2) by (auto simp: grows_def)
  have "cwp (comp_expr e c1) (\<lambda>(t, c'). grows c1 \<Phi>1 P (push_type t ST) A c')"
    using assms(1,3-5) a env_in_grows [OF assms(2)] grows_lims [OF assms(2)] by (simp add: expr_typed_def)
  then show ?thesis
    by (rule cwp_mono) (auto intro!: Q elim: grows_from [OF x s])
qed

lemma args_typedD:
  assumes "args_typed es" "grows c \<Phi> P ST A c1" "env_in c A"
    "wf_exprs (max_string_bytes (lims c)) es" "length ts \<le> length es" "Void \<notin> set ts"
    "length ST + length ts + expr_depths es \<le> Suc (stack_bound (lims c))"
    and Q: "\<And>c2. grows c \<Phi> P (rev ts @ ST) A c2 \<Longrightarrow> Q c2"
  shows "cwp (comp_arguments es ts c1) Q"
proof -
  obtain \<Phi>1 where a: "at_end c1 \<Phi>1 P ST A" and x: "extends \<Phi> c \<Phi>1 c1" and s: "same_scopes c c1"
    using assms(2) by (auto simp: grows_def)
  have "cwp (comp_arguments es ts c1) (\<lambda>c'. grows c1 \<Phi>1 P (rev ts @ ST) A c')"
    using assms(1,3-7) a env_in_grows [OF assms(2)] grows_lims [OF assms(2)] by (simp add: args_typed_def)
  then show ?thesis
    by (rule cwp_mono) (auto intro!: Q elim: grows_from [OF x s])
qed

lemma ctx_of_params: "t_params (ctx_of c) = params c" "t_prompts (ctx_of c) = set (bt_keys (prompts c))"
    "t_vars (ctx_of c) = n_variables c" "t_max_str (ctx_of c) = max_string_bytes (lims c)"
  by (simp_all add: ctx_of_def)

lemma push_type_simps [simp]:
  "push_type (Scalar v) ST = Scalar v # ST" "t \<noteq> Void \<Longrightarrow> push_type t ST = t # ST"
  by (cases t; simp)+

lemma binary_type_result:
  "cwp (binary_type b t lsp sp) (\<lambda>r. \<forall>s s'. b \<noteq> And \<and> b \<noteq> Or \<longrightarrow>
     (\<exists>u v. t = Scalar u \<and> r = Scalar v \<and> bin_result b u = Some v))" if "b \<noteq> And" "b \<noteq> Or"
  using that
  by (cases b; cases t) (auto simp: binary_type_def require_def bin_result_def intro!: cwp_intros)

lemma builtin_signature_eff:
  "builtin_signature name = Some (b, ts, r) \<Longrightarrow>
   builtin_eff b (rev ts @ ST) = Some (push_type r ST) \<and> ts \<noteq> [] \<and> Void \<notin> set ts \<and> length ts \<le> 2"
  by (auto simp: builtin_signature_def split: if_splits)

lemma grows_prompt:
  assumes "grows c \<Phi> P ST A c1"
  shows "grows c \<Phi> P ST A (add_prompt name sp c1)"
proof -
  have "typed (add_prompt name sp c1) \<Phi>1 P" if "typed c1 \<Phi>1 P" for \<Phi>1
    by (rule typed_ctx [OF that]) (auto simp: add_prompt_def ctx_le_def ctx_of_def)
  moreover have "code (add_prompt name sp c1) = code c1" "same_scopes c1 (add_prompt name sp c1)"
    "set (bt_keys (prompts c1)) \<subseteq> set (bt_keys (prompts (add_prompt name sp c1)))"
    "lims (add_prompt name sp c1) = lims c1" "params (add_prompt name sp c1) = params c1"
    by (auto simp: add_prompt_def same_scopes_def)
  ultimately show ?thesis using assms
    by (fastforce simp: grows_def at_end_def extends_def same_scopes_def)
qed

lemma expr_typedI:
  assumes "\<And>c \<Phi> P ST A. at_end c \<Phi> P ST A \<Longrightarrow> grows c \<Phi> P ST A c \<Longrightarrow> env_in c A \<Longrightarrow>
     wf_expr (max_string_bytes (lims c)) e \<Longrightarrow> length ST + expr_depth e \<le> stack_bound (lims c) \<Longrightarrow>
     cwp (comp_expr e c) (\<lambda>(t, c'). grows c \<Phi> P (push_type t ST) A c')"
  shows "expr_typed e"
  using assms by (simp add: expr_typed_def grows_refl)

lemma literal_typed: "expr_typed (Expr (ELiteral v) sp)"
  by (rule expr_typedI, unfold comp_expr.simps, rule cwp_Inr)
     (auto simp: ctx_of_params intro!: grows_emit eff_push)

lemma variable_typed: "expr_typed (Expr (EVariable x) sp)"
proof (rule expr_typedI, unfold comp_expr.simps)
  fix c \<Phi> P ST A
  assume g: "grows c \<Phi> P ST A c" and A: "env_in c A"
    and n: "length ST + expr_depth (Expr (EVariable x) sp) \<le> stack_bound (lims c)"
  have "grows c \<Phi> P (push_type (var_kind v) ST) A (emit_op (OLoad (var_index v)) sp c)" if v: "(var_index v, var_kind v) \<in> env_of c" for v
  proof -
    have "(var_index v, var_kind v) \<in> A" "var_kind v \<noteq> Void"
      using v A by (force simp: env_in_def)+
    then show ?thesis
      by (intro grows_emit [OF g]) (use n in \<open>auto intro: eff_load\<close>)
  qed
  then show "cwp (sbind (lookup x sp c) (\<lambda>v. Inr (var_kind v, emit_op (OLoad (var_index v)) sp c)))
      (\<lambda>(t, c'). grows c \<Phi> P (push_type t ST) A c')"
    by (intro cwp_intros cwp_lookup) simp
qed

lemma member_typed:
  assumes e: "expr_typed base"
  shows "expr_typed (Expr (EMember base field) sp)"
proof (rule expr_typedI)
  fix c \<Phi> P ST A
  let ?Q = "\<lambda>(t, c'). grows c \<Phi> P (push_type t ST) A c'"
  assume g: "grows c \<Phi> P ST A c" and A: "env_in c A"
    and w: "wf_expr (max_string_bytes (lims c)) (Expr (EMember base field) sp)"
    and n: "length ST + expr_depth (Expr (EMember base field) sp) \<le> stack_bound (lims c)"
  have args: "grows c \<Phi> P (Scalar k # ST) A (emit_op (OArg field) sp c)"
    if "bt_get (params c) field = Some k" for k
    by (rule grows_emit [OF g]) (use that n in \<open>auto simp: ctx_of_params intro: eff_arg\<close>)
  have matched: "grows c \<Phi> P (Scalar TBoolean # ST) A (emit_op OMatched sp c1)"
    if "grows c \<Phi> P (Watcher # ST) A c1" for c1
    by (rule grows_emit [OF that]) (use n in \<open>auto intro: eff_matched\<close>)
  show "cwp (comp_expr (Expr (EMember base field) sp) c) ?Q"
    unfolding comp_expr.simps
    by (intro cwp_intros args expr_typedD [OF e g A]) (use w n in \<open>auto intro: matched args\<close>)
qed

lemma unary_typed:
  assumes e: "expr_typed operand"
  shows "expr_typed (Expr (EUnary operator operand) sp)"
proof (rule expr_typedI)
  fix c \<Phi> P ST A
  let ?Q = "\<lambda>(t, c'). grows c \<Phi> P (push_type t ST) A c'"
  assume g: "grows c \<Phi> P ST A c" and A: "env_in c A"
    and w: "wf_expr (max_string_bytes (lims c)) (Expr (EUnary operator operand) sp)"
    and n: "length ST + expr_depth (Expr (EUnary operator operand) sp) \<le> stack_bound (lims c)"
  let ?T = "Scalar (un_type operator)"
  have T: "Scalar (case operator of Negate \<Rightarrow> TInteger | Not \<Rightarrow> TBoolean) = ?T"
    by (cases operator) auto
  have step: "grows c \<Phi> P (?T # ST) A (emit_op (OUnary operator) sp c1)"
    if "grows c \<Phi> P (?T # ST) A c1" for c1
    by (rule grows_emit [OF that]) (use n in \<open>auto intro: eff_unary\<close>)
  show "cwp (comp_expr (Expr (EUnary operator operand) sp) c) ?Q"
    unfolding comp_expr.simps T
    by (intro cwp_intros expr_typedD [OF e g A]) (use w n in \<open>auto intro: step\<close>)
qed

lemma emit_pair: "emit oper sp c = (length (code c), emit_op oper sp c)"
  by (simp add: emit_op_def emit_def)

lemma grows_length: "grows c \<Phi> P ST A c1 \<Longrightarrow> length (code c) \<le> length (code c1)"
  by (auto simp: grows_def extends_def)

lemma logical_typed:
  assumes l: "expr_typed left" and r: "expr_typed right" and b: "operator = And \<or> operator = Or"
  shows "expr_typed (Expr (EBinary operator left right) sp)"
proof (rule expr_typedI)
  fix c \<Phi> P ST A
  let ?T = "Scalar TBoolean"
  define oper where "oper = (if operator = And then OAnd 0 else OOr 0)"
  have oper: "oper = OAnd 0 \<or> oper = OOr 0" by (simp add: oper_def)
  let ?Q = "\<lambda>(t, c'). grows c \<Phi> P (push_type t ST) A c'"
  assume g: "grows c \<Phi> P ST A c" and A: "env_in c A"
    and w: "wf_expr (max_string_bytes (lims c)) (Expr (EBinary operator left right) sp)"
    and n: "length ST + expr_depth (Expr (EBinary operator left right) sp) \<le> stack_bound (lims c)"
  have n': "Suc (length ST) \<le> stack_bound (lims c)" using n by simp
  have rest: "cwp (sbind (comp_expr right (emit_op oper sp c1)) (\<lambda>(right_type, c2).
      sbind (require right_type ?T (espan right)) (\<lambda>_.
      sbind (patch (length (code c1)) (length (code c2)) c2) (\<lambda>c3. Inr (?T, c3))))) ?Q"
    if g1: "grows c \<Phi> P (?T # ST) A c1" for c1
  proof -
    obtain \<Phi>2 where a: "at_end (emit_op oper sp c1) \<Phi>2 (insert (length (code c1)) P) ST A"
      and b: "\<Phi>2 (length (code c1)) = (?T # ST, A)" and x: "extends \<Phi> c \<Phi>2 (emit_op oper sp c1)"
      and s: "same_scopes c (emit_op oper sp c1)"
      using short_circuit_branch [OF g1 n'] .
    have A2: "env_in (emit_op oper sp c1) A" using A s by (simp add: env_in_def env_of_def same_scopes_def)
    have L: "lims (emit_op oper sp c1) = lims c" using extends_lims [OF x] by simp
    have p: "cwp (patch (length (code c1)) (length (code c2)) c2) (\<lambda>c4. cwp (Inr (?T, c4)) ?Q)"
      if "grows (emit_op oper sp c1) \<Phi>2 (insert (length (code c1)) P) (?T # ST) A c2" for c2
      by (rule cwp_mono [OF short_circuit_patch [OF x s grows_length [OF g1] oper a b that]])
         (auto intro: cwp_Inr)
    show ?thesis
      by (intro cwp_intros expr_typedD [OF r grows_refl [OF a] A2]) (use w n L in \<open>auto intro!: p\<close>)
  qed
  have "cwp (sbind (comp_expr left c) (\<lambda>(left_type, c1).
        sbind (require left_type ?T (espan left)) (\<lambda>_.
        sbind (comp_expr right (emit_op oper sp c1)) (\<lambda>(right_type, c2).
        sbind (require right_type ?T (espan right)) (\<lambda>_.
        sbind (patch (length (code c1)) (length (code c2)) c2) (\<lambda>c3. Inr (?T, c3))))))) ?Q"
    by (rule cwp_sbind, rule expr_typedD [OF l g A])
       (use w n in \<open>auto intro!: cwp_sbind [where f = "\<lambda>_. F" for F] cwp_require rest\<close>)
  then show "cwp (comp_expr (Expr (EBinary operator left right) sp) c) ?Q"
    using b by (simp add: emit_pair flip: oper_def)
qed

lemma binary_typed:
  assumes l: "expr_typed left" and r: "expr_typed right" and b: "operator \<noteq> And" "operator \<noteq> Or"
  shows "expr_typed (Expr (EBinary operator left right) sp)"
proof (rule expr_typedI)
  fix c \<Phi> P ST A
  let ?Q = "\<lambda>(t, c'). grows c \<Phi> P (push_type t ST) A c'"
  assume g: "grows c \<Phi> P ST A c" and A: "env_in c A"
    and w: "wf_expr (max_string_bytes (lims c)) (Expr (EBinary operator left right) sp)"
    and n: "length ST + expr_depth (Expr (EBinary operator left right) sp) \<le> stack_bound (lims c)"
  have end_: "cwp (sbind (binary_type operator t (espan left) sp) (\<lambda>output.
      Inr (output, emit_op (OBinary operator) sp c2))) ?Q"
    if g2: "grows c \<Phi> P (push_type t (push_type t ST)) A c2" for t c2
  proof (rule cwp_sbind, rule cwp_mono [OF binary_type_result [OF b]], rule cwp_Inr)
    fix x assume "\<forall>s s'. operator \<noteq> And \<and> operator \<noteq> Or \<longrightarrow>
      (\<exists>u v. t = Scalar u \<and> x = Scalar v \<and> bin_result operator u = Some v)"
    then obtain u v where t: "t = Scalar u" "x = Scalar v" "bin_result operator u = Some v"
      using b by blast
    show "?Q (x, emit_op (OBinary operator) sp c2)"
      using grows_emit [OF g2 [unfolded t push_type.simps] eff_binary [OF t(3)], of sp] n
      by (simp add: t)
  qed
  have "cwp (sbind (comp_expr right c1) (\<lambda>(right_type, c2).
        sbind (require right_type t (espan right)) (\<lambda>_.
        sbind (binary_type operator t (espan left) sp) (\<lambda>output.
        Inr (output, emit_op (OBinary operator) sp c2))))) ?Q"
    if g1: "grows c \<Phi> P (push_type t ST) A c1" for t c1
    by (rule cwp_sbind, rule expr_typedD [OF r g1 A])
       (use w n in \<open>auto intro!: cwp_sbind [where f = "\<lambda>_. F" for F] cwp_require end_
          intro: order.trans [rotated] simp: le_Suc_eq\<close>, cases t, auto)
  then show "cwp (comp_expr (Expr (EBinary operator left right) sp) c) ?Q"
    unfolding comp_expr.simps
    by (simp add: b, intro cwp_sbind expr_typedD [OF l g A]) (use w n in auto)
qed

lemma arguments_Nil_typed: "args_typed []"
  by (auto simp: args_typed_def intro!: cwp_Inr grows_refl)

lemma arguments_Cons_typed:
  assumes e: "expr_typed e" and es: "args_typed es"
  shows "args_typed (e # es)"
  unfolding args_typed_def
proof (intro allI impI)
  fix c \<Phi> P ST A ts
  assume a: "at_end c \<Phi> P ST A" and A: "env_in c A"
    and w: "wf_exprs (max_string_bytes (lims c)) (e # es)" and le: "length ts \<le> length (e # es)"
    and v: "Void \<notin> set ts"
    and n: "length ST + length ts + expr_depths (e # es) \<le> Suc (stack_bound (lims c))"
  note g = grows_refl [OF a]
  show "cwp (comp_arguments (e # es) ts c) (\<lambda>c'. grows c \<Phi> P (rev ts @ ST) A c')"
  proof (cases ts)
    case Nil
    with g show ?thesis by (auto intro: cwp_Inr)
  next
    case (Cons t ts')
    have t: "push_type t ST = t # ST" using v Cons by (cases t) auto
    have "cwp (comp_arguments es ts' c1) (\<lambda>c'. grows c \<Phi> P (rev ts @ ST) A c')"
      if "grows c \<Phi> P (t # ST) A c1" for c1
      by (rule args_typedD [OF es that A]) (use w le v n Cons in auto)
    then show ?thesis unfolding Cons comp_arguments.simps
      by (intro cwp_intros expr_typedD [OF e g A]) (use w n Cons t in auto)
  qed
qed

lemma cwp_compile_prompt:
  assumes g: "grows c \<Phi> P ST A c1" and n: "Suc (length ST) \<le> stack_bound (lims c)"
  shows "cwp (compile_prompt args sp c1) (\<lambda>(t, c'). grows c \<Phi> P (push_type t ST) A c')"
proof -
  have "grows c \<Phi> P (Scalar TString # ST) A (emit_op (OPrompt name) sp (add_prompt name sp' c1))" for name sp'
    by (rule grows_emit [OF grows_prompt [OF g]])
       (use n in \<open>auto simp: ctx_of_params add_prompt_def bt_contains_keys intro: eff_prompt\<close>)
  then show ?thesis
    by (auto simp: compile_prompt_def split: list.splits option.splits intro!: cwp_intros)
qed

lemma call_typed:
  assumes es: "args_typed args"
  shows "expr_typed (Expr (ECall name args) sp)"
proof (rule expr_typedI)
  fix c \<Phi> P ST A
  let ?Q = "\<lambda>(t, c'). grows c \<Phi> P (push_type t ST) A c'"
  assume g: "grows c \<Phi> P ST A c" and A: "env_in c A"
    and w: "wf_expr (max_string_bytes (lims c)) (Expr (ECall name args) sp)"
    and n: "length ST + expr_depth (Expr (ECall name args) sp) \<le> stack_bound (lims c)"
  note args = args_typedD [OF es g A]
  have str: "grows c \<Phi> P (Scalar TString # ST) A (emit_op OIntegerToString sp c1)"
    if "grows c \<Phi> P (Scalar TInteger # ST) A c1" for c1
    by (rule grows_emit [OF that eff_str]) (use n in auto)
  have send: "grows c \<Phi> P ST A (emit_op (OCall CmdSendOnly) sp c1)"
    if "grows c \<Phi> P (Scalar TString # ST) A c1" for c1
    by (rule grows_emit [OF that eff_call]) (use n in auto)
  have call: "cwp (sbind (comp_arguments args ts c) (\<lambda>c.
        sbind (check_constants b args c) (\<lambda>_. Inr (r, emit_op (OCall b) sp c)))) ?Q"
    if sig: "builtin_signature name = Some (b, ts, r)" and l: "length args = length ts" for b ts r
  proof -
    note s = builtin_signature_eff [OF sig, of ST]
    have args0: "args \<noteq> []" using s l by auto
    have d: "length ST + length ts + expr_depths args \<le> Suc (stack_bound (lims c))"
      using s n by simp
    have "length (push_type r ST) \<le> stack_bound (lims c)"
      using n by (cases r) auto
    then have "grows c \<Phi> P (push_type r ST) A (emit_op (OCall b) sp c1)"
      if "grows c \<Phi> P (rev ts @ ST) A c1" for c1
      by (intro grows_emit [OF that eff_call]) (use s in auto)
    then show ?thesis
      by (intro cwp_sbind args cwp_mono [OF cwp_check_constants [OF args0]] cwp_Inr)
         (use w s l d in auto)
  qed
  have "cwp (compile_prompt args sp c) ?Q"
    by (rule cwp_compile_prompt [OF g]) (use n in simp)
  moreover have "cwp (sbind (comp_arguments args [Scalar TInteger] c)
      (\<lambda>c. Inr (Scalar TString, emit_op OIntegerToString sp c))) ?Q" if "length args = 1"
    by (intro cwp_intros args) (use w n that in \<open>auto intro: str\<close>)
  moreover have "cwp (sbind (comp_arguments args [Scalar TString] c) (\<lambda>c.
      sbind (check_command args c) (\<lambda>_. Inr (Void, emit_op (OCall CmdSendOnly) sp c)))) ?Q"
    if "length args = 2"
  proof -
    from that have "args \<noteq> []" by auto
    then show ?thesis
      by (intro cwp_sbind args cwp_mono [OF cwp_check_command] cwp_Inr)
         (use w n that in \<open>auto intro: send\<close>)
  qed
  ultimately show "cwp (comp_expr (Expr (ECall name args) sp) c) ?Q"
    unfolding comp_expr.simps
    by (auto split: option.splits intro!: cwp_err intro: call cwp_if)
qed

lemma compiled_expr_typed:
  "wf_expr ms e \<Longrightarrow> expr_typed e"
  "wf_exprs ms es \<Longrightarrow> args_typed es"
proof (induction ms e and ms es rule: wf_expr_wf_exprs.induct)
  case (5 ms b l r sp)
  then show ?case
    by (cases "b = And \<or> b = Or") (auto intro: logical_typed binary_typed)
qed (auto intro: literal_typed variable_typed member_typed unary_typed call_typed
       arguments_Nil_typed arguments_Cons_typed)

end
