(* ===== verification/MacroLexerProps.thy ===== *)
theory MacroLexerProps
  imports MacroLexer MacroParser
begin

text \<open>
  Properties of the lexer: it never crashes, its tokens carry values of the language and end
  in one \<open>Eof\<close>, their spans are non-empty, ordered and within the source, and printed integers
  and strings are read back.
\<close>

section \<open>No crash\<close>

lemma crash_free_hex_exact: "crash_free (hex_exact n sp lx)"
  by (induction n sp lx rule: hex_exact.induct) (auto split: option.splits)

lemma crash_free_unicode: "crash_free (lex_unicode_escape sp lx)"
  by (auto simp: lex_unicode_escape_def Let_def crash_free_hex_exact split: prod.splits)

lemma crash_free_escape: "crash_free (lex_escape sp lx)"
  by (auto simp: lex_escape_def crash_free_unicode split: option.splits)

lemma crash_free_string_char: "crash_free (string_char sp lx)"
  by (auto simp: string_char_def crash_free_escape split: option.splits)

lemma crash_free_lex_string: "crash_free (lex_string sp out lx)"
proof (induction sp out lx rule: lex_string.induct)
  case (1 sp out lx)
  then show ?case
    using crash_free_string_char [of sp lx]
    by (auto simp: lex_string.simps [of sp out lx] crash_free_def split: sum.splits option.splits)
qed

lemma crash_free_lex_token: "crash_free (lex_token c sp lx)"
  by (auto simp: lex_token_def crash_free_lex_string split: option.splits prod.splits)

lemma lex_tokens_cases:
  assumes "lex_peek lx = Some c"
  obtains (white) "is_ascii_whitespace c" "lex_tokens lx = lex_tokens (advance_char c lx)"
  | (comment) "\<not> is_ascii_whitespace c" "starts_comment lx"
      "lex_tokens lx = lex_tokens (skip_comment lx)"
  | (fail) e where "lex_token c (lex_span lx) (advance_char c lx) = Inl e" "lex_tokens lx = Inl e"
  | (token) k lx' where "\<not> is_ascii_whitespace c" "\<not> starts_comment lx"
      "lex_token c (lex_span lx) (advance_char c lx) = Inr (k, lx')"
      "lex_tokens lx = sbind (lex_tokens lx')
         (\<lambda>ts. Inr (\<lparr>kind = k, tspan = (lex_span lx)\<lparr>span_end := offset lx'\<rparr>\<rparr> # ts))"
proof (cases "is_ascii_whitespace c")
  case True
  then show thesis by (intro white) (simp_all add: lex_tokens.simps [of lx] assms)
next
  case nw: False
  show thesis
  proof (cases "starts_comment lx")
    case True
    with nw show thesis by (intro comment) (simp_all add: lex_tokens.simps [of lx] assms)
  next
    case nc: False
    show thesis
    proof (cases "lex_token c (lex_span lx) (advance_char c lx)")
      case (Inl e)
      with nw nc show thesis
        by (intro fail) (simp_all add: lex_tokens.simps [of lx] assms Let_def)
    next
      case (Inr r)
      obtain k lx' where "r = (k, lx')" by fastforce
      with Inr nw nc show thesis
        by (intro token [of k lx']) (simp_all add: lex_tokens.simps [of lx] assms Let_def)
    qed
  qed
qed

lemma lex_tokens_end:
  "lex_peek lx = None \<Longrightarrow> lex_tokens lx = Inr [\<lparr>kind = Eof, tspan = lex_span lx\<rparr>]"
  by (simp add: lex_tokens.simps)

text \<open>Induction over the rounds of the token loop.\<close>

lemma lex_tokens_induct [case_names finish white comment fail token]:
  assumes "\<And>lx. lex_peek lx = None \<Longrightarrow> P lx"
    and "\<And>lx c. lex_peek lx = Some c \<Longrightarrow> is_ascii_whitespace c \<Longrightarrow>
      lex_tokens lx = lex_tokens (advance_char c lx) \<Longrightarrow> P (advance_char c lx) \<Longrightarrow> P lx"
    and "\<And>lx c. lex_peek lx = Some c \<Longrightarrow> lex_tokens lx = lex_tokens (skip_comment lx) \<Longrightarrow>
      P (skip_comment lx) \<Longrightarrow> P lx"
    and "\<And>lx c e. lex_peek lx = Some c \<Longrightarrow>
      lex_token c (lex_span lx) (advance_char c lx) = Inl e \<Longrightarrow> lex_tokens lx = Inl e \<Longrightarrow> P lx"
    and "\<And>lx c k lx'. lex_peek lx = Some c \<Longrightarrow>
      lex_token c (lex_span lx) (advance_char c lx) = Inr (k, lx') \<Longrightarrow>
      lex_tokens lx = sbind (lex_tokens lx')
        (\<lambda>ts. Inr (\<lparr>kind = k, tspan = (lex_span lx)\<lparr>span_end := offset lx'\<rparr>\<rparr> # ts)) \<Longrightarrow>
      P lx' \<Longrightarrow> P lx"
  shows "P lx"
proof (induction "length (rest lx)" arbitrary: lx rule: less_induct)
  case less
  show ?case
  proof (cases "lex_peek lx")
    case None
    then show ?thesis by (rule assms(1))
  next
    case (Some c)
    note adv = advance_char_less [OF Some]
    show ?thesis
    proof (cases rule: lex_tokens_cases [OF Some])
      case 1
      with Some adv less show ?thesis by (blast intro: assms(2))
    next
      case 2
      with Some skip_comment_less less show ?thesis by (blast intro: assms(3))
    next
      case 3
      with Some show ?thesis by (blast intro: assms(4))
    next
      case (4 k lx')
      from lex_le_length [OF lex_token_le [OF 4(3)]] adv
      have "length (rest lx') < length (rest lx)" by simp
      from less [OF this] 4 Some show ?thesis by (blast intro: assms(5))
    qed
  qed
qed

lemma crash_free_lex_tokens: "crash_free (lex_tokens lx)"
proof (induction lx rule: lex_tokens_induct)
  case (fail lx c e)
  then show ?case using crash_free_lex_token [of c "lex_span lx" "advance_char c lx"]
    by (simp add: crash_free_def)
qed (auto simp: lex_tokens_end)

section \<open>Tokens of the language\<close>

lemma lex_punct_kind: "lex_punct c lx = Some (k, lx') \<Longrightarrow> wf_token_kind ms k \<and> k \<noteq> Eof"
  unfolding lex_punct_def Let_def take_or_def by (auto split: if_splits prod.splits)

lemma lex_token_kind:
  "lex_token c sp lx = Inr (k, lx') \<Longrightarrow> wf_token_kind (max_string lx) k \<and> k \<noteq> Eof"
proof (cases "lex_punct c lx")
  case None
  assume "lex_token c sp lx = Inr (k, lx')"
  with None show ?thesis
    by (auto simp: lex_token_def res_simps parse_i64_def Let_def split: if_splits prod.splits
             dest: lex_string_sound)
qed (auto simp: lex_token_def dest: lex_punct_kind)

lemma lex_tokens_wf:
  "lex_tokens lx = Inr ts \<Longrightarrow>
   ts \<noteq> [] \<and> kind (last ts) = Eof \<and> (\<forall>t \<in> set (butlast ts). kind t \<noteq> Eof) \<and>
   (\<forall>t \<in> set ts. wf_token (max_string lx) t)"
proof (induction lx arbitrary: ts rule: lex_tokens_induct)
  case (white lx c)
  from white.prems white.hyps(3) have "lex_tokens (advance_char c lx) = Inr ts" by simp
  then show ?case using white.IH by (simp add: advance_char_fields)
next
  case (comment lx c)
  have "max_string (skip_comment lx) = max_string lx"
    using skip_comment_le [of lx] by (simp add: lex_le_def)
  moreover have "lex_tokens (skip_comment lx) = Inr ts"
    using comment.prems comment.hyps(2) by simp
  ultimately show ?case using comment.IH by simp
next
  case (token lx c k lx')
  have m: "max_string lx' = max_string lx"
    using lex_token_le [OF token(2)] by (simp add: lex_le_def advance_char_fields)
  obtain ts' where "lex_tokens lx' = Inr ts'"
    and ts: "ts = \<lparr>kind = k, tspan = (lex_span lx)\<lparr>span_end := offset lx'\<rparr>\<rparr> # ts'"
    using token.prems unfolding token.hyps(3) by (auto simp: res_simps)
  with token.IH m lex_token_kind [OF token.hyps(2)] show ?case
    by (auto simp: wf_token_def advance_char_fields)
qed (auto simp: lex_tokens_end wf_token_def advance_char_fields)

section \<open>Spans\<close>

fun spans_within :: "nat \<Rightarrow> token list \<Rightarrow> nat \<Rightarrow> bool" where
  "spans_within lo [] hi = (lo \<le> hi)"
| "spans_within lo (t # ts) hi =
     (lo \<le> span_offset (tspan t) \<and>
      (if kind t = Eof then span_end (tspan t) = span_offset (tspan t)
       else span_offset (tspan t) < span_end (tspan t)) \<and>
      spans_within (span_end (tspan t)) ts hi)"

lemma spans_within_mono: "spans_within lo ts hi \<Longrightarrow> lo' \<le> lo \<Longrightarrow> spans_within lo' ts hi"
  by (cases ts) auto

lemma lex_tokens_spans:
  "lex_tokens lx = Inr ts \<Longrightarrow> spans_within (offset lx) ts (offset lx + str_len (rest lx))"
proof (induction lx arbitrary: ts rule: lex_tokens_induct)
  case (finish lx)
  then show ?case by (auto simp: lex_tokens_end lex_span_def)
next
  case (white lx c)
  have le: "lex_le (advance_char c lx) lx" using white by (simp add: advance_char_le)
  from white.IH white.prems white.hyps(3)
  have "spans_within (offset (advance_char c lx)) ts (offset lx + str_len (rest lx))"
    using lex_le_total [OF le] by simp
  then show ?case using lex_le_offset [OF le] by (rule spans_within_mono)
next
  case (comment lx c)
  note le = skip_comment_le [of lx]
  from comment.IH comment.prems comment.hyps(2)
  have "spans_within (offset (skip_comment lx)) ts (offset lx + str_len (rest lx))"
    using lex_le_total [OF le] by simp
  then show ?case using lex_le_offset [OF le] by (rule spans_within_mono)
next
  case (token lx c k lx')
  have le: "lex_le lx' (advance_char c lx)" using token by (simp add: lex_token_le)
  have le2: "lex_le (advance_char c lx) lx" using token by (simp add: advance_char_le)
  have off: "offset lx < offset lx'"
    using lex_le_offset [OF le] by (simp add: advance_char_fields) (use len_utf8_pos [of c] in linarith)
  obtain ts' where "lex_tokens lx' = Inr ts'"
    and ts: "ts = \<lparr>kind = k, tspan = (lex_span lx)\<lparr>span_end := offset lx'\<rparr>\<rparr> # ts'"
    using token.prems unfolding token.hyps(3) by (auto simp: res_simps)
  with token.IH have "spans_within (offset lx') ts' (offset lx' + str_len (rest lx'))" by simp
  with off lex_token_kind [OF token.hyps(2)] lex_le_total [OF le] lex_le_total [OF le2]
  show ?case by (simp add: ts lex_span_def)
qed (auto simp: lex_tokens_end)

section \<open>Printed literals are read back\<close>

text \<open>Reading a run of characters of one class.\<close>

lemma lex_while_run:
  "\<forall>c \<in> set s. p c \<Longrightarrow> rest lx = s @ tail \<Longrightarrow> (\<forall>c \<in> set (take 1 tail). \<not> p c) \<Longrightarrow>
   \<exists>lx'. lex_while p lx = (s, lx') \<and> rest lx' = tail"
proof (induction s arbitrary: lx)
  case Nil
  then show ?case by (cases tail) (auto simp: lex_while.simps [of p lx])
next
  case (Cons c s)
  then have "rest (advance_char c lx) = s @ tail" by (simp add: advance_char_fields)
  with Cons obtain lx' where "lex_while p (advance_char c lx) = (s, lx')" "rest lx' = tail"
    by auto
  with Cons.prems show ?case by (simp add: lex_while.simps [of p lx])
qed

lemma lex_punct_digit: "is_ascii_digit c \<Longrightarrow> lex_punct c lx = None"
  by (simp add: lex_punct_def is_ascii_digit_def Let_def)

lemma digit_facts:
  assumes "is_ascii_digit c"
  shows "\<not> is_ascii_whitespace c" "c \<noteq> 47" "c \<noteq> of_char CHR ''\"''"
  using assms by (auto simp: char_class_defs)

lemma not_starts_comment: "rest lx = c # cs \<Longrightarrow> c \<noteq> 47 \<Longrightarrow> \<not> starts_comment lx"
  by (auto simp: starts_comment_def lit_def)

lemma lex_tokens_token:
  assumes "rest lx = c # cs" "\<not> is_ascii_whitespace c" "c \<noteq> 47"
    and "lex_token c (lex_span lx) (advance_char c lx) = Inr (k, lx')" "rest lx' = []"
  shows "\<exists>t e. lex_tokens lx = Inr [t, e] \<and> kind t = k \<and> kind e = Eof"
  using assms not_starts_comment [OF assms(1,3)]
  by (simp add: lex_tokens.simps [of lx] lex_peek_def lex_tokens_end [of lx'])

lemma lex_digits_of:
  assumes "int n \<le> I64_MAX"
  shows "\<exists>t e. lex_tokens (lexer_new (digits_of n) ms) = Inr [t, e] \<and> kind t = TInt (int n) \<and> kind e = Eof"
proof -
  obtain c cs where ds: "digits_of n = c # cs" using digits_of_nonempty [of n] by (cases "digits_of n") auto
  have dig: "\<forall>d \<in> set (c # cs). is_ascii_digit d" using digits_of_digit ds by metis
  let ?lx = "lexer_new (c # cs) ms"
  obtain lx' where w: "lex_while is_ascii_digit (advance_char c ?lx) = (cs, lx')" "rest lx' = []"
    using lex_while_run [of cs is_ascii_digit "advance_char c ?lx" "[]"] dig
    by (auto simp: advance_char_fields lexer_new_def)
  have "digits_value (c # cs) = n" using digits_value_of [of n] by (simp add: ds)
  with assms have "parse_i64 (c # cs) = Some (int n)"
    by (simp add: parse_i64_def checked_i64_def in_i64_def int_defs)
  with dig w digit_facts [of c] have "lex_token c (lex_span ?lx) (advance_char c ?lx) = Inr (TInt (int n), lx')"
    by (simp add: lex_token_def lex_punct_digit)
  from lex_tokens_token [OF _ _ _ this w(2)] digit_facts [of c] dig ds show ?thesis
    by (simp add: lexer_new_def)
qed

text \<open>
  A printer for string literals, the specification side of the round trip: quotes and
  backslashes are escaped, control characters are written as four hex digits.
\<close>

definition hex_char :: "nat \<Rightarrow> rchar" where
  "hex_char n = (if n < 10 then 48 + n else 87 + n)"

definition quote_char :: "rchar \<Rightarrow> rstring" where
  "quote_char c =
     (if c = of_char CHR ''\"'' then [92, of_char CHR ''\"'']
      else if c = 92 then [92, 92]
      else if is_control c then
        [92, of_char CHR ''u'', 48, 48, hex_char (c div 16), hex_char (c mod 16)]
      else [c])"

definition quote :: "rstring \<Rightarrow> rstring" where
  "quote s = of_char CHR ''\"'' # concat (map quote_char s) @ [of_char CHR ''\"'']"

lemma hex_char_digit: "n < 16 \<Longrightarrow> is_ascii_hexdigit (hex_char n) \<and> hex_digit (hex_char n) = n"
  by (auto simp: hex_char_def hex_digit_def char_class_defs)

lemma lex_next_Cons: "rest lx = c # cs \<Longrightarrow> lex_next lx = Some (c, advance_char c lx)"
  by (simp add: lex_next_def lex_peek_def)

lemma hex_exact_run:
  "rest lx = ds @ tail \<Longrightarrow> \<forall>d \<in> set ds. is_ascii_hexdigit d \<Longrightarrow>
   \<exists>lx'. hex_exact (length ds) start lx = Inr (ds, lx') \<and> rest lx' = tail"
proof (induction ds arbitrary: lx)
  case (Cons d ds)
  then have "rest (advance_char d lx) = ds @ tail" by (simp add: advance_char_fields)
  with Cons obtain lx' where "hex_exact (length ds) start (advance_char d lx) = Inr (ds, lx')"
    "rest lx' = tail" by auto
  with Cons.prems show ?case by (simp add: lex_next_Cons)
qed simp

lemma lex_unicode_escape_run:
  assumes "rest lx = ds @ tail" "length ds = 4" "\<forall>d \<in> set ds. is_ascii_hexdigit d"
    and "is_scalar (from_hex ds)"
  shows "\<exists>lx'. lex_unicode_escape start lx = Inr (from_hex ds, lx') \<and> rest lx' = tail"
proof -
  obtain lx' where h: "hex_exact 4 start lx = Inr (ds, lx')" and r: "rest lx' = tail"
    using hex_exact_run [OF assms(1,3)] assms(2) by auto
  obtain d ds' where d: "ds = d # ds'" using assms(2) by (cases ds) auto
  with assms(3) have "d \<noteq> of_char CHR ''{''" by (auto simp: char_class_defs)
  then have "lex_take (of_char CHR ''{'') lx = (False, lx)"
    by (simp add: lex_take_def lex_peek_def assms(1) d)
  with h r assms(4) show ?thesis by (simp add: lex_unicode_escape_def Let_def)
qed

lemma string_char_escaped:
  assumes "rest lx = 92 # u # tail" and "lex_escape start (advance_char 92 lx) = Inr (c, lx')"
  shows "string_char start lx = Inr (Some c, lx')"
  using assms by (simp add: string_char_def lex_next_Cons)

lemma string_char_quoted:
  assumes "rest lx = quote_char c @ tail"
  shows "\<exists>lx'. string_char start lx = Inr (Some c, lx') \<and> rest lx' = tail"
proof (cases "is_control c")
  case True
  then have c: "c \<noteq> 34" "c \<noteq> 92" "c < 256" by (auto simp: is_control_def)
  let ?ds = "[48, 48, hex_char (c div 16), hex_char (c mod 16)]"
  have r: "rest lx = 92 # 117 # ?ds @ tail"
    using assms c True by (simp add: quote_char_def)
  have ds: "\<forall>d \<in> set ?ds. is_ascii_hexdigit d" "from_hex ?ds = c"
    using c hex_char_digit [of "c div 16"] hex_char_digit [of "c mod 16"]
    by (auto simp: from_hex_def hex_digit_def char_class_defs)
  have sc: "is_scalar (from_hex ?ds)" unfolding ds using c by (simp add: is_scalar_def)
  let ?lx2 = "advance_char 117 (advance_char 92 lx)"
  have r2: "rest ?lx2 = ?ds @ tail" by (simp add: advance_char_fields r)
  obtain lx' where u: "lex_unicode_escape start ?lx2 = Inr (c, lx')" "rest lx' = tail"
    using lex_unicode_escape_run [OF r2 _ ds(1) sc] ds(2) by auto
  have "lex_next (advance_char 92 lx) = Some (117, ?lx2)"
    by (rule lex_next_Cons) (simp add: advance_char_fields r)
  with u have "lex_escape start (advance_char 92 lx) = Inr (c, lx')" by (simp add: lex_escape_def)
  with u r show ?thesis by (blast intro: string_char_escaped)
next
  case False
  then show ?thesis using assms
    by (auto simp: quote_char_def string_char_def lex_escape_def lex_next_Cons
        advance_char_fields split: if_splits)
qed

lemma lex_string_quoted:
  "rest lx = concat (map quote_char s) @ 34 # tail \<Longrightarrow> str_len (out @ s) \<le> max_string lx \<Longrightarrow>
   \<exists>lx'. lex_string start out lx = Inr (out @ s, lx') \<and> rest lx' = tail"
proof (induction s arbitrary: lx out)
  case Nil
  then have "string_char start lx = Inr (None, advance_char 34 lx)"
    by (simp add: string_char_def lex_next_Cons)
  with Nil show ?case by (simp add: lex_string.simps [of start out lx] advance_char_fields)
next
  case (Cons c s)
  then obtain lx1 where c: "string_char start lx = Inr (Some c, lx1)"
    and r: "rest lx1 = concat (map quote_char s) @ 34 # tail"
    using string_char_quoted [of lx c "concat (map quote_char s) @ 34 # tail" start] by auto
  have m: "max_string lx1 = max_string lx"
    using string_char_le(1) [OF c] by (simp add: lex_le_def)
  with Cons.prems have "str_len ((out @ [c]) @ s) \<le> max_string lx1" by simp
  from Cons.IH [OF r this] obtain lx' where
    "lex_string start (out @ [c]) lx1 = Inr ((out @ [c]) @ s, lx')" "rest lx' = tail" by blast
  with c m Cons.prems show ?case by (simp add: lex_string.simps [of start out lx])
qed

lemma lex_quote:
  assumes "str_len s \<le> ms"
  shows "\<exists>t e. lex_tokens (lexer_new (quote s) ms) = Inr [t, e] \<and> kind t = TStr s \<and> kind e = Eof"
proof -
  let ?lx = "lexer_new (quote s) ms"
  have r: "rest ?lx = 34 # concat (map quote_char s) @ [34]" by (simp add: lexer_new_def quote_def)
  obtain lx' where l: "lex_string (lex_span ?lx) [] (advance_char 34 ?lx) = Inr (s, lx')" "rest lx' = []"
    using lex_string_quoted [of "advance_char 34 ?lx" s "[]" "[]" "lex_span ?lx"] assms r
    by (auto simp: advance_char_fields lexer_new_def)
  have "lex_punct 34 lx = None" for lx by (simp add: lex_punct_def Let_def)
  with l have "lex_token 34 (lex_span ?lx) (advance_char 34 ?lx) = Inr (TStr s, lx')"
    by (simp add: lex_token_def)
  from lex_tokens_token [OF r _ _ this l(2)] show ?thesis by (simp add: is_ascii_whitespace_def)
qed

end
