(* ===== verification/MacroParserProps.thy ===== *)
theory MacroParserProps
  imports MacroLexerProps
begin

text \<open>
  Properties of the parser: every method moves forward and keeps the nesting depth; the fuel
  of \<open>parse\<close> is enough and no index is out of range; the trees it returns are bounded in
  depth and have the block structure the compiler relies on.
\<close>

section \<open>Expressions\<close>

lemma wp_fields:
  "wf_parser ms p \<Longrightarrow>
   wp (p_fields e sp p) (\<lambda>e' p'. stays_to ms p p' \<and> (wf_expr ms e \<longrightarrow> wf_expr ms e'))"
proof (induction e sp p rule: p_fields.induct)
  case (1 e sp p)
  note one = wp_field [OF "1.prems", of e sp]
  show ?case
  proof (cases "p_field e sp p")
    case (Inl f)
    with one show ?thesis by (simp add: p_fields.simps [of e sp p] wp_def)
  next
    case (Inr r)
    obtain x p1 where r: "p_field e sp p = Inr (x, p1)" using Inr by (cases r) auto
    note post = wp_Inr_D [OF one r]
    show ?thesis
    proof (cases x)
      case None
      with r post show ?thesis by (auto simp: p_fields.simps [of e sp p] intro: wp_Inr)
    next
      case (Some e1)
      with post have m: "moves_to ms p p1" and w: "wf_parser ms p1"
        and e1: "wf_expr ms e \<longrightarrow> wf_expr ms e1" by (auto simp: move_defs)
      have "wp (p_fields e1 sp p1) (\<lambda>e' p'. stays_to ms p p' \<and> (wf_expr ms e \<longrightarrow> wf_expr ms e'))"
        by (rule wp_mono [OF "1.IH" [OF r refl Some w]]) (use m e1 in \<open>auto simp: move_defs\<close>)
      with r Some show ?thesis by (simp add: p_fields.simps [of e sp p])
    qed
  qed
qed

text \<open>
  One induction over the fuel proves everything about the five expression methods: with the
  fuel on the left of each implication there is no crash, the parser moves forward, and the
  tree is well-formed and of a depth within the limit.
\<close>

definition expr_spec :: "nat \<Rightarrow> nat \<Rightarrow> bool" where
  "expr_spec ms n \<longleftrightarrow>
     (\<forall>m p. wf_parser ms p \<and> 8 * tokens_left p + 3 \<le> n \<longrightarrow>
        wp (p_expression n m p) (\<lambda>e p'. moves_to ms p p' \<and> ok_expr ms (max_depth p) e)) \<and>
     (\<forall>m l p. wf_parser ms p \<and> 8 * tokens_left p + 1 \<le> n \<and> ok_expr ms (max_depth p) l \<longrightarrow>
        wp (p_binary n m l p) (\<lambda>e p'. stays_to ms p p' \<and> ok_expr ms (max_depth p) e)) \<and>
     (\<forall>p. wf_parser ms p \<and> 8 * tokens_left p + 2 \<le> n \<longrightarrow>
        wp (p_primary n p) (\<lambda>e p'. moves_to ms p p' \<and> ok_expr ms (max_depth p) e)) \<and>
     (\<forall>t p. wf_parser ms p \<and> wf_token ms t \<and>
          (if kind t = Eof then 1 \<le> n else 8 * tokens_left p + 4 \<le> n) \<longrightarrow>
        wp (p_primary_kind n t p)
          (\<lambda>k p'. stays_to ms p p' \<and> kind t \<noteq> Eof \<and> (\<forall>sp. wf_expr ms (Expr k sp)))) \<and>
     (\<forall>p. wf_parser ms p \<and> 8 * tokens_left p + 4 \<le> n \<longrightarrow>
        wp (p_args n p) (\<lambda>es p'. moves_to ms p p' \<and> wf_exprs ms es))"

lemma wf_parser_cur: "wf_parser ms p \<Longrightarrow> wf_token ms (cur p)"
  by (simp add: wf_parser_def)

lemma ok_expr_D: "ok_expr ms d e \<Longrightarrow> wf_expr ms e" "ok_expr ms d e \<Longrightarrow> expr_depth e \<le> d"
  by (simp_all add: ok_expr_def)

lemma expr_spec: "expr_spec ms n"
proof (induction n)
  case 0
  then show ?case by (simp add: expr_spec_def)
next
  case (Suc n)
  note IH = Suc [unfolded expr_spec_def] and W = wp_moves [where ms = ms]
  have E: "wf_parser ms p \<Longrightarrow> 8 * tokens_left p + 3 \<le> n \<Longrightarrow>
      (\<And>e p'. moves_to ms p p' \<Longrightarrow> ok_expr ms (max_depth p) e \<Longrightarrow> Q e p') \<Longrightarrow>
      wp (p_expression n m p) Q" for m p Q
    using IH by (blast intro: wp_mono)
  have B: "wf_parser ms p \<Longrightarrow> 8 * tokens_left p + 1 \<le> n \<Longrightarrow> ok_expr ms (max_depth p) l \<Longrightarrow>
      (\<And>e p'. stays_to ms p p' \<Longrightarrow> ok_expr ms (max_depth p) e \<Longrightarrow> Q e p') \<Longrightarrow>
      wp (p_binary n m l p) Q" for m l p Q
    using IH by (blast intro: wp_mono)
  have P: "wf_parser ms p \<Longrightarrow> 8 * tokens_left p + 2 \<le> n \<Longrightarrow>
      (\<And>e p'. moves_to ms p p' \<Longrightarrow> ok_expr ms (max_depth p) e \<Longrightarrow> Q e p') \<Longrightarrow>
      wp (p_primary n p) Q" for p Q
    using IH by (blast intro: wp_mono)
  have K: "wf_parser ms p \<Longrightarrow> wf_token ms t \<Longrightarrow>
      (if kind t = Eof then 1 \<le> n else 8 * tokens_left p + 4 \<le> n) \<Longrightarrow>
      (\<And>k p'. stays_to ms p p' \<Longrightarrow> kind t \<noteq> Eof \<Longrightarrow> \<forall>sp. wf_expr ms (Expr k sp) \<Longrightarrow> Q k p') \<Longrightarrow>
      wp (p_primary_kind n t p) Q" for t p Q
    using IH [THEN conjunct2, THEN conjunct2, THEN conjunct2, THEN conjunct1]
    by (auto elim!: allE [where x = t] allE [where x = p] intro: wp_mono)
  have A: "wf_parser ms p \<Longrightarrow> 8 * tokens_left p + 4 \<le> n \<Longrightarrow>
      (\<And>es p'. moves_to ms p p' \<Longrightarrow> wf_exprs ms es \<Longrightarrow> Q es p') \<Longrightarrow> wp (p_args n p) Q" for p Q
    using IH by (blast intro: wp_mono)
  have F: "wf_parser ms p \<Longrightarrow>
      (\<And>e' p'. stays_to ms p p' \<Longrightarrow> wf_expr ms e \<longrightarrow> wf_expr ms e' \<Longrightarrow> Q e' p') \<Longrightarrow>
      wp (p_fields e sp p) Q" for e sp p Q
    using wp_fields by (blast intro: wp_mono)
  have "wp (p_expression (Suc n) m p) (\<lambda>e p'. moves_to ms p p' \<and> ok_expr ms (max_depth p) e)"
    if "wf_parser ms p" "8 * tokens_left p + 3 \<le> Suc n" for m p
    unfolding p_expression.simps using that
    by (intro wp_intros W P B) (auto simp: move_defs)
  moreover have "wp (p_binary (Suc n) m l p) (\<lambda>e p'. stays_to ms p p' \<and> ok_expr ms (max_depth p) e)"
    if "wf_parser ms p" "8 * tokens_left p + 1 \<le> Suc n" "ok_expr ms (max_depth p) l" for m l p
  proof (cases "MacroParser.binary (kind (cur p))")
    case None
    with that show ?thesis by (auto simp: move_defs intro: wp_Inr)
  next
    case (Some r)
    obtain op prec where r: "MacroParser.binary (kind (cur p)) = Some (op, prec)"
      using Some by (cases r) auto
    note ne = binary_not_Eof [OF r]
    show ?thesis unfolding p_binary.simps r option.case prod.case using that ne
      by (intro wp_intros W E B) (auto simp: move_defs ok_expr_def)
  qed
  moreover have "wp (p_primary (Suc n) p) (\<lambda>e p'. moves_to ms p p' \<and> ok_expr ms (max_depth p) e)"
    if "wf_parser ms p" "8 * tokens_left p + 2 \<le> Suc n" for p
    unfolding p_primary.simps using that
    by (intro wp_intros W K F) (auto simp: move_defs wf_parser_cur ok_expr_def)
  moreover have "wp (p_primary_kind (Suc n) t p)
      (\<lambda>k p'. stays_to ms p p' \<and> kind t \<noteq> Eof \<and> (\<forall>sp. wf_expr ms (Expr k sp)))"
    if w: "wf_parser ms p" and t: "wf_token ms t"
      and f: "if kind t = Eof then 1 \<le> Suc n else 8 * tokens_left p + 4 \<le> Suc n" for t p
  proof (cases "literal_value (kind t)")
    case (Some v)
    with w t show ?thesis
      by (auto simp: move_defs wf_token_def intro!: wp_Inr wf_literal_value dest: literal_value_Some)
  next
    case lit: None
    show ?thesis
    proof (cases "ident_name (kind t)")
      case (Some name)
      then have "kind t \<noteq> Eof" by (auto simp: ident_name_Some_iff)
      with w f show ?thesis unfolding p_primary_kind.simps lit Some option.case
        by (intro wp_intros W A) (auto simp: move_defs)
    next
      case None
      from w f show ?thesis unfolding p_primary_kind.simps lit None option.case
        by (intro wp_intros W E)
           (auto simp: move_defs ok_expr_def)
    qed
  qed
  moreover have "wp (p_args (Suc n) p) (\<lambda>es p'. moves_to ms p p' \<and> wf_exprs ms es)"
    if "wf_parser ms p" "8 * tokens_left p + 4 \<le> Suc n" for p
    unfolding p_args.simps using that
    by (intro wp_intros W E A) (auto simp: move_defs ok_expr_def)
  ultimately show ?case unfolding expr_spec_def by blast
qed

lemma wp_expression:
  "wf_parser ms p \<Longrightarrow> 8 * tokens_left p + 3 \<le> n \<Longrightarrow>
   (\<And>e p'. moves_to ms p p' \<Longrightarrow> ok_expr ms (max_depth p) e \<Longrightarrow> Q e p') \<Longrightarrow>
   wp (p_expression n m p) Q"
  using expr_spec [of ms n] unfolding expr_spec_def by (blast intro: wp_mono)

section \<open>Statements\<close>

lemma wp_optional:
  "(at k p \<Longrightarrow> Q None p) \<Longrightarrow> (\<not> at k p \<Longrightarrow> wp (f p) (\<lambda>x p. Q (Some x) p)) \<Longrightarrow>
   wp (p_optional k f p) Q"
  unfolding p_optional_def by (intro wp_intros) (auto intro!: wp_intros elim: wp_mono)

lemma ok_assign_value:
  "ok_expr ms d rhs \<Longrightarrow> ok_expr ms (Suc d) (assign_value name sp operator rhs)"
  using expr_depth_pos [of rhs] by (auto simp: assign_value_def ok_expr_def split: option.splits)

lemma ok_one: "0 < d \<Longrightarrow> ok_expr ms d (Expr (ELiteral (VInteger 1)) sp)"
  by (auto simp: ok_expr_def in_i64_def int_defs)

lemma assign_operator_not_Eof: "assign_operator k = Some r \<Longrightarrow> k \<noteq> Eof"
  by (cases k) auto

definition simple_ok :: "nat \<Rightarrow> parser \<Rightarrow> stmt \<Rightarrow> parser \<Rightarrow> bool" where
  "simple_ok ms p s p' \<longleftrightarrow> moves_to ms p p' \<and> is_simple s \<and> wf_stmt ms (Suc (max_depth p)) s"

lemma wp_assign:
  assumes w: "wf_parser ms p" and n: "8 * tokens_left p + 3 \<le> n" and d: "0 < max_depth p"
    and t: "kind (cur p) \<noteq> Eof"
  shows "wp (sbind (skip p) (\<lambda>(_, p).
             sbind (bump p) (\<lambda>(token, p).
             sbind (if kind token = PlusPlus \<or> kind token = MinusMinus
                    then Inr (Expr (ELiteral (VInteger 1)) (tspan token), p)
                    else p_expression n 0 p) (\<lambda>(rhs, p).
             Inr (Stmt (SAssign name (assign_value name sp operator rhs)) sp, p)))))
          (simple_ok ms p)"
  using assms
  by (intro wp_intros wp_moves [where ms = ms] wp_expression [where ms = ms])
     (auto simp: move_defs simple_ok_def intro!: ok_assign_value ok_one)

lemma wp_simple:
  assumes w: "wf_parser ms p" and n: "8 * tokens_left p + 3 \<le> n" and d: "0 < max_depth p"
  shows "wp (p_simple n p) (simple_ok ms p)"
proof -
  have L: "wp (sbind (skip p) (\<lambda>(_, p).
        sbind (p_identifier p) (\<lambda>(name, p).
        sbind (expect Equal p) (\<lambda>(_, p).
        sbind (p_expression n 0 p) (\<lambda>(e, p).
        Inr (Stmt (SLet name e) sp, p)))))) (simple_ok ms p)"
    if "keyword ''let'' p" for sp
    using w n keyword_not_Eof [OF that]
    by (intro wp_intros wp_moves [where ms = ms] wp_expression [where ms = ms])
       (auto simp: move_defs simple_ok_def intro: ok_expr_mono)
  have X: "wp (sbind (p_expression n 0 p) (\<lambda>(e, p). Inr (Stmt (SExpression e) sp, p)))
      (simple_ok ms p)" for sp
    using w n
    by (intro wp_intros wp_expression [where ms = ms])
       (auto simp: move_defs simple_ok_def intro: ok_expr_mono)
  show ?thesis unfolding p_simple_def Let_def
    by (auto simp: ident_name_Some_iff intro!: L X wp_assign [OF w n d] split: option.splits)
qed

definition stmt_spec :: "nat \<Rightarrow> nat \<Rightarrow> bool" where
  "stmt_spec ms n \<longleftrightarrow>
     (\<forall>p. wf_parser ms p \<and> 8 * tokens_left p + 5 \<le> n \<longrightarrow>
        wp (p_statement n p) (\<lambda>s p'. moves_to ms p p' \<and> wf_stmt ms (Suc (max_depth p)) s \<and>
          (at LBrace p \<longrightarrow> is_block s) \<and> (keyword ''if'' p \<longrightarrow> is_if s))) \<and>
     (\<forall>p. wf_parser ms p \<and> 0 < max_depth p \<and> 8 * tokens_left p + 4 \<le> n \<longrightarrow>
        wp (p_statement_kind n p) (\<lambda>k p'. moves_to ms p p' \<and>
          (\<forall>sp. wf_stmt ms (Suc (max_depth p)) (Stmt k sp) \<and>
            (at LBrace p \<longrightarrow> is_block (Stmt k sp)) \<and> (keyword ''if'' p \<longrightarrow> is_if (Stmt k sp))))) \<and>
     (\<forall>p. wf_parser ms p \<and> 8 * tokens_left p + 6 \<le> n \<longrightarrow>
        wp (p_block n p) (\<lambda>s p'. moves_to ms p p' \<and> wf_stmt ms (Suc (max_depth p)) s \<and> is_block s)) \<and>
     (\<forall>b p. wf_parser ms p \<and> 8 * tokens_left p + 6 \<le> n \<longrightarrow>
        wp (p_statements n b p) (\<lambda>ss p'. stays_to ms p p' \<and> wf_stmts ms (Suc (max_depth p)) ss \<and>
          (b \<longrightarrow> moves_to ms p p')))"

lemma stmt_spec: "stmt_spec ms n"
proof (induction n)
  case 0
  then show ?case by (simp add: stmt_spec_def)
next
  case (Suc n)
  note IH = Suc [unfolded stmt_spec_def] and W = wp_moves [where ms = ms]
    and E = wp_expression [where ms = ms]
  have S: "wf_parser ms p \<Longrightarrow> 8 * tokens_left p + 5 \<le> n \<Longrightarrow>
      (\<And>s p'. moves_to ms p p' \<Longrightarrow> wf_stmt ms (Suc (max_depth p)) s \<Longrightarrow>
         (at LBrace p \<longrightarrow> is_block s) \<Longrightarrow> (keyword ''if'' p \<longrightarrow> is_if s) \<Longrightarrow> Q s p') \<Longrightarrow>
      wp (p_statement n p) Q" for p Q
    by (rule wp_mono [OF IH [THEN conjunct1, rule_format]]) auto
  have K: "wf_parser ms p \<Longrightarrow> 0 < max_depth p \<Longrightarrow> 8 * tokens_left p + 4 \<le> n \<Longrightarrow>
      (\<And>k p'. moves_to ms p p' \<Longrightarrow> (\<forall>sp. wf_stmt ms (Suc (max_depth p)) (Stmt k sp) \<and>
         (at LBrace p \<longrightarrow> is_block (Stmt k sp)) \<and> (keyword ''if'' p \<longrightarrow> is_if (Stmt k sp))) \<Longrightarrow> Q k p') \<Longrightarrow>
      wp (p_statement_kind n p) Q" for p Q
    by (rule wp_mono [OF IH [THEN conjunct2, THEN conjunct1, rule_format]]) auto
  have B: "wf_parser ms p \<Longrightarrow> 8 * tokens_left p + 6 \<le> n \<Longrightarrow>
      (\<And>s p'. moves_to ms p p' \<Longrightarrow> wf_stmt ms (Suc (max_depth p)) s \<Longrightarrow> is_block s \<Longrightarrow> Q s p') \<Longrightarrow>
      wp (p_block n p) Q" for p Q
    by (rule wp_mono [OF IH [THEN conjunct2, THEN conjunct2, THEN conjunct1, rule_format]]) auto
  have SS: "wf_parser ms p \<Longrightarrow> 8 * tokens_left p + 6 \<le> n \<Longrightarrow>
      (\<And>ss p'. stays_to ms p p' \<Longrightarrow> wf_stmts ms (Suc (max_depth p)) ss \<Longrightarrow>
         (b \<longrightarrow> moves_to ms p p') \<Longrightarrow> Q ss p') \<Longrightarrow> wp (p_statements n b p) Q" for b p Q
    by (rule wp_mono [OF IH [THEN conjunct2, THEN conjunct2, THEN conjunct2, rule_format]]) auto
  have Si: "wf_parser ms p \<Longrightarrow> 8 * tokens_left p + 3 \<le> n \<Longrightarrow> 0 < max_depth p \<Longrightarrow>
      (\<And>s p'. simple_ok ms p s p' \<Longrightarrow> Q s p') \<Longrightarrow> wp (p_simple n p) Q" for p Q
    using wp_simple by (blast intro: wp_mono)
  have "wp (p_statement (Suc n) p) (\<lambda>s p'. moves_to ms p p' \<and> wf_stmt ms (Suc (max_depth p)) s \<and>
          (at LBrace p \<longrightarrow> is_block s) \<and> (keyword ''if'' p \<longrightarrow> is_if s))"
    if "wf_parser ms p" "8 * tokens_left p + 5 \<le> Suc n" for p
    unfolding p_statement.simps using that
    by (intro wp_intros K) (auto simp: move_defs at_def keyword_def)
  moreover have "wp (p_block (Suc n) p)
      (\<lambda>s p'. moves_to ms p p' \<and> wf_stmt ms (Suc (max_depth p)) s \<and> is_block s)"
    if "wf_parser ms p" "8 * tokens_left p + 6 \<le> Suc n" for p
    unfolding p_block.simps using that by (intro wp_intros S) auto
  moreover have "wp (p_statements (Suc n) b p)
      (\<lambda>ss p'. stays_to ms p p' \<and> wf_stmts ms (Suc (max_depth p)) ss \<and> (b \<longrightarrow> moves_to ms p p'))"
    if "wf_parser ms p" "8 * tokens_left p + 6 \<le> Suc n" for b p
    unfolding p_statements.simps using that
    by (intro wp_intros W S SS) (auto simp: move_defs)
  moreover have "wp (p_statement_kind (Suc n) p) (\<lambda>k p'. moves_to ms p p' \<and>
      (\<forall>sp. wf_stmt ms (Suc (max_depth p)) (Stmt k sp) \<and>
        (at LBrace p \<longrightarrow> is_block (Stmt k sp)) \<and> (keyword ''if'' p \<longrightarrow> is_if (Stmt k sp))))"
    if "wf_parser ms p" "0 < max_depth p" "8 * tokens_left p + 4 \<le> Suc n" for p
    unfolding p_statement_kind.simps using that
    by (intro wp_intros W E B S SS Si wp_optional)
       (auto simp: move_defs simple_ok_def keyword_not_Eof at_def keyword_def intro: ok_expr_mono)
  ultimately show ?case unfolding stmt_spec_def by blast
qed

section \<open>Parsing a source text\<close>

lemma wp_statements:
  "wf_parser ms p \<Longrightarrow> 8 * tokens_left p + 6 \<le> n \<Longrightarrow>
   wp (p_statements n b p) (\<lambda>ss p'. wf_stmts ms (Suc (max_depth p)) ss)"
  using stmt_spec [of ms n] unfolding stmt_spec_def by (blast intro: wp_mono)

lemma parse_total:
  "crash_free (parse source lim) \<and>
   (\<forall>ss. parse source lim = Inr ss \<longrightarrow> wf_stmts (max_string_bytes lim) (Suc (max_nesting lim)) ss)"
proof (cases "lex_tokens (lexer_new source (max_string_bytes lim))")
  case (Inl e)
  with crash_free_lex_tokens [of "lexer_new source (max_string_bytes lim)"] show ?thesis
    by (auto simp: parse_def crash_free_def)
next
  case (Inr ts)
  let ?ms = "max_string_bytes lim"
  note wf = lex_tokens_wf [OF Inr]
  then obtain t ts' where ts: "ts = t # ts'" by (cases ts) auto
  define p where "p = \<lparr>cur = t, later = ts', depth = 0, max_depth = max_nesting lim\<rparr>"
  have "wf_parser ?ms p"
    using wf by (auto simp: wf_parser_def p_def ts lexer_new_def)
  moreover have "8 * tokens_left p + 6 \<le> parse_fuel ts"
    by (simp add: tokens_left_def p_def parse_fuel_def ts)
  ultimately have W: "wp (p_statements (parse_fuel ts) False p)
      (\<lambda>ss p'. wf_stmts ?ms (Suc (max_nesting lim)) ss)"
    using wp_statements [of ?ms p "parse_fuel ts" False] by (simp add: p_def)
  have new: "parser_new ts (max_nesting lim) = Inr p" by (simp add: parser_new_def ts p_def)
  show ?thesis
  proof (cases "str_len source > max_source_bytes lim")
    case True
    then show ?thesis by (simp add: parse_def)
  next
    case False
    then show ?thesis using wp_crash_free [OF W] W
      by (cases "p_statements (parse_fuel ts) False p")
         (auto simp: parse_def Inr new wp_def crash_free_def)
  qed
qed

lemmas crash_free_parse = parse_total [THEN conjunct1]

lemma parse_wf:
  "parse source lim = Inr ss \<Longrightarrow> wf_stmts (max_string_bytes lim) (Suc (max_nesting lim)) ss"
  using parse_total by blast

end
