(* ===== verification/MacroStmtTyping.thy ===== *)
theory MacroStmtTyping
  imports MacroExprTyping MacroParserProps
begin

text \<open>
  The code of a statement is well-typed: between statements the stack is empty and every
  variable in scope is initialised. The branches of \<open>break\<close> and \<open>continue\<close> stay open until their
  loop ends; \<open>loop_ok\<close> is what is known of them meanwhile, relative to the variables in scope
  where the loop began. The compiler never panics and its output is well-typed from start to end.
\<close>

section \<open>The invariant of code generation\<close>

definition jumps_of :: "loop_info \<Rightarrow> nat set" where
  "jumps_of l = set (breaks l) \<union> set (continues l)"

definition pending_jumps :: "compiler \<Rightarrow> nat set" where
  "pending_jumps c = \<Union> (jumps_of ` set (loops c))"

definition jump_ok :: "compiler \<Rightarrow> (nat \<Rightarrow> stype) \<Rightarrow> env \<Rightarrow> nat \<Rightarrow> bool" where
  "jump_ok c \<Phi> E p \<longleftrightarrow>
     p < length (code c) \<and> iop (code c ! p) \<in> range OJump \<and> fst (\<Phi> p) = [] \<and> E \<subseteq> snd (\<Phi> p)"

definition loop_ok :: "compiler \<Rightarrow> (nat \<Rightarrow> stype) \<Rightarrow> loop_info \<Rightarrow> env \<Rightarrow> bool" where
  "loop_ok c \<Phi> l E \<longleftrightarrow> E \<subseteq> env_of c \<and> (\<forall>p \<in> jumps_of l. jump_ok c \<Phi> E p)"

definition env_wf :: "compiler \<Rightarrow> bool" where
  "env_wf c \<longleftrightarrow> (\<forall>(i, t) \<in> env_of c. i < n_variables c \<and> t \<noteq> Void) \<and> single_valued (env_of c)"

definition cg_inv :: "compiler \<Rightarrow> (nat \<Rightarrow> stype) \<Rightarrow> nat set \<Rightarrow> env list \<Rightarrow> bool" where
  "cg_inv c \<Phi> P L \<longleftrightarrow>
     scopes c \<noteq> [] \<and> env_wf c \<and> n_variables c \<le> max_variables (lims c) \<and> list_all2 (loop_ok c \<Phi>) (loops c) L \<and>
     at_end c \<Phi> (P \<union> pending_jumps c) [] (env_of c)"

text \<open>How a statement changes the compiler.\<close>

definition loops_ext :: "nat \<Rightarrow> loop_info list \<Rightarrow> loop_info list \<Rightarrow> bool" where
  "loops_ext n = list_all2 (\<lambda>l l'. \<forall>p \<in> jumps_of l'. p \<in> jumps_of l \<or> n \<le> p)"

definition follows :: "(nat \<Rightarrow> stype) \<Rightarrow> compiler \<Rightarrow> (nat \<Rightarrow> stype) \<Rightarrow> compiler \<Rightarrow> bool" where
  "follows \<Phi> c \<Phi>' c' \<longleftrightarrow>
     extends \<Phi> c \<Phi>' c' \<and> loops_ext (length (code c)) (loops c) (loops c') \<and>
     tl (scopes c') = tl (scopes c) \<and> env_of c \<subseteq> env_of c'"

lemma loops_ext_refl [simp]: "loops_ext n ls ls"
  by (simp add: loops_ext_def list_all2_same)

lemma loops_ext_trans:
  assumes "loops_ext n l1 l2" "loops_ext m l2 l3" "n \<le> m"
  shows "loops_ext n l1 l3"
  unfolding loops_ext_def
  by (rule list_all2_trans [OF _ assms(1,2) [unfolded loops_ext_def]]) (use assms(3) in force)

lemma follows_refl [simp]: "follows \<Phi> c \<Phi> c"
  by (simp add: follows_def)

lemma follows_trans:
  assumes a: "follows \<Phi> c \<Phi>1 c1" and b: "follows \<Phi>1 c1 \<Phi>2 c2"
  shows "follows \<Phi> c \<Phi>2 c2"
proof -
  have x: "extends \<Phi> c \<Phi>1 c1" "extends \<Phi>1 c1 \<Phi>2 c2" using a b by (simp_all add: follows_def)
  have "loops_ext (length (code c)) (loops c) (loops c2)"
    using a b loops_ext_trans [OF _ _ extends_length [OF x(1)]] by (auto simp: follows_def)
  with a b extends_trans [OF x] show ?thesis by (auto simp: follows_def)
qed

lemma follows_lims: "follows \<Phi> c \<Phi>' c' \<Longrightarrow> lims c' = lims c"
  by (simp add: follows_def extends_def)

lemma follows_same:
  "extends \<Phi> c \<Phi>' c' \<Longrightarrow> same_scopes c c' \<Longrightarrow> follows \<Phi> c \<Phi>' c'"
  by (simp add: follows_def same_scopes_def env_of_def)

lemma inv_env_in: "cg_inv c \<Phi> P L \<Longrightarrow> env_in c (env_of c)"
  by (auto simp: cg_inv_def env_wf_def env_in_def)

lemma inv_grows: "cg_inv c \<Phi> P L \<Longrightarrow> grows c \<Phi> (P \<union> pending_jumps c) [] (env_of c) c"
  by (auto simp: cg_inv_def intro: grows_refl)

lemma jump_ok_extends: "jump_ok c \<Phi> E p \<Longrightarrow> extends \<Phi> c \<Phi>' c' \<Longrightarrow> jump_ok c' \<Phi>' E p"
  using extends_nth [of \<Phi> c \<Phi>' c' p] extends_phi [of \<Phi> c \<Phi>' c' p] extends_length [of \<Phi> c \<Phi>' c']
  by (auto simp: jump_ok_def)

lemma loops_ok_extends:
  "list_all2 (loop_ok c \<Phi>) ls L \<Longrightarrow> extends \<Phi> c \<Phi>' c' \<Longrightarrow> env_of c \<subseteq> env_of c' \<Longrightarrow>
   list_all2 (loop_ok c' \<Phi>') ls L"
  by (erule list_all2_mono) (auto simp: loop_ok_def intro: jump_ok_extends)

lemma same_scopes_env: "same_scopes c c' \<Longrightarrow> env_of c' = env_of c"
  by (simp add: same_scopes_def env_of_def)

text \<open>Code that leaves the scopes and the loops alone keeps the invariant.\<close>

lemma inv_same:
  assumes i: "cg_inv c \<Phi> P L" and x: "extends \<Phi> c \<Phi>' c'" and s: "same_scopes c c'"
    and a: "at_end c' \<Phi>' (P' \<union> pending_jumps c) [] (env_of c)"
  shows "cg_inv c' \<Phi>' P' L"
proof -
  note e = same_scopes_env [OF s]
  have "list_all2 (loop_ok c' \<Phi>') (loops c') L"
    using i loops_ok_extends [OF _ x] e s by (auto simp: cg_inv_def same_scopes_def)
  then show ?thesis
    using i a s e extends_lims(1) [OF x] by (auto simp: cg_inv_def env_wf_def same_scopes_def pending_jumps_def)
qed

lemma inv_of_grows:
  assumes i: "cg_inv c \<Phi> P L" and g: "grows c \<Phi> (P \<union> pending_jumps c) [] (env_of c) c'"
  obtains \<Phi>' where "cg_inv c' \<Phi>' P L" "follows \<Phi> c \<Phi>' c'" "scopes c' = scopes c"
proof -
  obtain \<Phi>' where s: "same_scopes c c'" and x: "extends \<Phi> c \<Phi>' c'"
    and a: "at_end c' \<Phi>' (P \<union> pending_jumps c) [] (env_of c)"
    using g by (auto simp: grows_def)
  show thesis
    by (rule that [OF inv_same [OF i x s a] follows_same [OF x s]]) (use s in \<open>simp add: same_scopes_def\<close>)
qed

section \<open>Patching\<close>

text \<open>What patching branches after position \<open>n\<close> leaves as it was.\<close>

definition patched :: "nat \<Rightarrow> compiler \<Rightarrow> compiler \<Rightarrow> bool" where
  "patched n c c' \<longleftrightarrow>
     (\<exists>cd. c' = c\<lparr>code := cd\<rparr> \<and> length cd = length (code c) \<and> take n cd = take n (code c) \<and>
        (\<forall>p < length cd. iop (code c ! p) \<in> range OJump \<longrightarrow> iop (cd ! p) \<in> range OJump))"

lemma patched_code:
  assumes "patched n c c'"
  shows "length (code c') = length (code c)" "take n (code c') = take n (code c)"
    "p < length (code c) \<Longrightarrow> iop (code c ! p) \<in> range OJump \<Longrightarrow> iop (code c' ! p) \<in> range OJump"
  using assms by (auto simp: patched_def)

lemma patched_refl [simp]: "patched n c c"
  by (auto simp: patched_def intro!: exI [of _ "code c"])

lemma patched_trans:
  assumes "patched n c c1" "patched n c1 c2"
  shows "patched n c c2"
proof -
  obtain X where X: "c1 = c\<lparr>code := X\<rparr>" "length X = length (code c)" "take n X = take n (code c)"
    "\<forall>p < length X. iop (code c ! p) \<in> range OJump \<longrightarrow> iop (X ! p) \<in> range OJump"
    using assms(1) by (auto simp only: patched_def)
  obtain Y where Y: "c2 = c1\<lparr>code := Y\<rparr>" "length Y = length (code c1)" "take n Y = take n (code c1)"
    "\<forall>p < length Y. iop (code c1 ! p) \<in> range OJump \<longrightarrow> iop (Y ! p) \<in> range OJump"
    using assms(2) by (auto simp only: patched_def)
  show ?thesis unfolding patched_def
    by (rule exI [of _ Y]) (simp add: X Y)
qed

lemma patched_sel:
  assumes "patched n c c'"
  shows "scopes c' = scopes c" "loops c' = loops c" "n_variables c' = n_variables c"
    "params c' = params c" "prompts c' = prompts c" "lims c' = lims c" "ctx_of c' = ctx_of c"
    "env_of c' = env_of c" "pending_jumps c' = pending_jumps c" "length (code c') = length (code c)"
proof -
  obtain X where c': "c' = c\<lparr>code := X\<rparr>" and "length X = length (code c)"
    using assms by (auto simp: patched_def)
  then show "scopes c' = scopes c" "loops c' = loops c" "n_variables c' = n_variables c"
    "params c' = params c" "prompts c' = prompts c" "lims c' = lims c" "ctx_of c' = ctx_of c"
    "env_of c' = env_of c" "pending_jumps c' = pending_jumps c" "length (code c') = length (code c)"
    by (simp_all add: c' ctx_of_def env_of_def pending_jumps_def)
qed

lemma patched_follows:
  assumes f: "follows \<Phi> c \<Phi>' c1" and p: "patched (length (code c)) c1 c2"
  shows "follows \<Phi> c \<Phi>' c2"
proof -
  have "take (length (code c)) (code c2) = take (length (code c)) (code c1)"
    by (rule patched_code [OF p])
  then show ?thesis
    using f patched_sel [OF p] by (simp add: follows_def extends_def)
qed

lemma patched_inv:
  assumes i: "cg_inv c \<Phi> P L" and p: "patched n c c'" and t: "typed c' \<Phi> (P' \<union> pending_jumps c)"
  shows "cg_inv c' \<Phi> P' L"
proof -
  note s = patched_sel [OF p]
  have "jump_ok c' \<Phi> E q" if "jump_ok c \<Phi> E q" for E q
    using that patched_code [OF p] by (auto simp: jump_ok_def)
  then have "list_all2 (loop_ok c' \<Phi>) (loops c) L"
    using i s by (auto simp: cg_inv_def loop_ok_def elim!: list_all2_mono)
  with i t s show ?thesis by (simp add: cg_inv_def env_wf_def at_end_def)
qed

lemma set_target_jump: "set_target oper t = Some oper' \<Longrightarrow> oper \<in> range OJump \<Longrightarrow> oper' \<in> range OJump"
  by auto

lemma patched_one:
  assumes "n \<le> i" "i < length (code c)" "set_target (iop (code c ! i)) t = Some oper"
  shows "patched n c (c\<lparr>code := (code c)[i := (code c ! i)\<lparr>iop := oper\<rparr>]\<rparr>)"
  using assms set_target_jump [OF assms(3)]
  by (auto simp: patched_def nth_list_update)

text \<open>Patching one open branch.\<close>

lemma inv_patch:
  assumes i: "cg_inv c \<Phi> (insert b P) L" and b: "b < length (code c)" and n: "n \<le> b"
    and op': "set_target (iop (code c ! b)) t = Some oper"
    and e: "op_eff (ctx_of c) oper b (\<Phi> b) \<sigma>s"
    and s: "\<And>q \<sigma>. (q, \<sigma>) \<in> set \<sigma>s \<Longrightarrow> q \<le> length (code c) \<and> leq \<sigma> (\<Phi> q)"
    and Q: "\<And>c'. patched n c c' \<Longrightarrow> cg_inv c' \<Phi> P L \<Longrightarrow> Q c'"
  shows "cwp (patch b t c) Q"
proof -
  let ?c = "c\<lparr>code := (code c)[b := (code c ! b)\<lparr>iop := oper\<rparr>]\<rparr>"
  note p = patched_one [OF n b op']
  have "typed ?c \<Phi> (insert b P \<union> pending_jumps c - {b})"
  proof (rule typed_patch)
    show "op_eff (ctx_of c) oper b (\<Phi> b) \<sigma>s" by (fact e)
  qed (use i b s in \<open>auto simp: cg_inv_def at_end_def\<close>)
  then have "typed ?c \<Phi> (P \<union> pending_jumps c)" by (rule typed_mono) auto
  then show ?thesis
    unfolding patch_eq [OF b op'] by (intro cwp_Inr Q p patched_inv [OF i p])
qed

section \<open>The single steps\<close>

definition stmt_typed :: "nat \<Rightarrow> nat \<Rightarrow> stmt \<Rightarrow> bool" where
  "stmt_typed ms d s \<longleftrightarrow> (\<forall>c \<Phi> P L. cg_inv c \<Phi> P L \<longrightarrow> max_string_bytes (lims c) = ms \<longrightarrow>
     d \<le> stack_bound (lims c) \<longrightarrow>
     cwp (comp_stmt s c) (\<lambda>c'. \<exists>\<Phi>'. cg_inv c' \<Phi>' P L \<and> follows \<Phi> c \<Phi>' c' \<and>
       (\<not> is_let s \<longrightarrow> scopes c' = scopes c)))"

definition stmts_typed :: "nat \<Rightarrow> nat \<Rightarrow> stmt list \<Rightarrow> bool" where
  "stmts_typed ms d ss \<longleftrightarrow> (\<forall>c \<Phi> P L. cg_inv c \<Phi> P L \<longrightarrow> max_string_bytes (lims c) = ms \<longrightarrow>
     d \<le> stack_bound (lims c) \<longrightarrow>
     cwp (comp_stmts ss c) (\<lambda>c'. \<exists>\<Phi>'. cg_inv c' \<Phi>' P L \<and> follows \<Phi> c \<Phi>' c'))"

lemma stmt_typedD:
  assumes "stmt_typed ms d s" "cg_inv c \<Phi> P L" "max_string_bytes (lims c) = ms"
    "d \<le> stack_bound (lims c)"
    "\<And>c' \<Phi>'. cg_inv c' \<Phi>' P L \<Longrightarrow> follows \<Phi> c \<Phi>' c' \<Longrightarrow> (\<not> is_let s \<Longrightarrow> scopes c' = scopes c) \<Longrightarrow> Q c'"
  shows "cwp (comp_stmt s c) Q"
  by (rule cwp_mono [OF assms(1) [unfolded stmt_typed_def, rule_format, OF assms(2-4)]])
     (use assms(5) in blast)

lemma stmts_typedD:
  assumes "stmts_typed ms d ss" "cg_inv c \<Phi> P L" "max_string_bytes (lims c) = ms"
    "d \<le> stack_bound (lims c)"
    "\<And>c' \<Phi>'. cg_inv c' \<Phi>' P L \<Longrightarrow> follows \<Phi> c \<Phi>' c' \<Longrightarrow> Q c'"
  shows "cwp (comp_stmts ss c) Q"
  by (rule cwp_mono [OF assms(1) [unfolded stmts_typed_def, rule_format, OF assms(2-4)]])
     (use assms(5) in blast)

lemma stmt_typedI:
  assumes "\<And>c \<Phi> P L. cg_inv c \<Phi> P L \<Longrightarrow> max_string_bytes (lims c) = ms \<Longrightarrow> d \<le> stack_bound (lims c) \<Longrightarrow>
     cwp (comp_stmt s c) (\<lambda>c'. \<exists>\<Phi>'. cg_inv c' \<Phi>' P L \<and> follows \<Phi> c \<Phi>' c' \<and>
       (\<not> is_let s \<longrightarrow> scopes c' = scopes c))"
  shows "stmt_typed ms d s"
  using assms by (simp add: stmt_typed_def)

text \<open>An expression at the start of a statement, where the stack is empty.\<close>

lemma cwp_expr_stmt:
  assumes e: "ok_expr ms d e" and i: "cg_inv c \<Phi> P L" and ms: "max_string_bytes (lims c) = ms"
    and d: "d \<le> stack_bound (lims c)"
    and Q: "\<And>t c'. grows c \<Phi> (P \<union> pending_jumps c) (push_type t []) (env_of c) c' \<Longrightarrow> Q (t, c')"
  shows "cwp (comp_expr e c) Q"
  using e by (intro expr_typedD [OF compiled_expr_typed(1) inv_grows [OF i] inv_env_in [OF i]])
    (use ms d in \<open>auto simp: ok_expr_def intro: Q\<close>)

text \<open>Storing into the variable \<open>i\<close> of type \<open>t\<close>.\<close>

lemma store_assign:
  assumes w: "env_wf c" and it: "(i, t) \<in> env_of c"
  shows "env_of c \<subseteq> store_env i t (env_of c)"
proof
  fix x assume x: "x \<in> env_of c"
  show "x \<in> store_env i t (env_of c)"
  proof (cases "fst x = i")
    case True
    then have "snd x = t" using w it x unfolding env_wf_def by (metis prod.collapse single_valuedD)
    with True show ?thesis by (cases x) (simp add: store_env_def)
  qed (use x in \<open>simp add: store_env_def\<close>)
qed

lemma grows_weaken:
  assumes g: "grows c \<Phi> P ST A c1" and l: "length (code c) < length (code c1)" and A: "A' \<subseteq> A"
  shows "grows c \<Phi> P ST A' c1"
proof -
  obtain \<Phi>1 where a: "at_end c1 \<Phi>1 P ST A" and x: "extends \<Phi> c \<Phi>1 c1" and s: "same_scopes c c1"
    using g by (auto simp: grows_def)
  let ?\<Phi> = "\<Phi>1(length (code c1) := (ST, A'))"
  have "typed c1 ?\<Phi> P" by (rule typed_weaken) (use a A in \<open>auto simp: at_end_def leq_def\<close>)
  moreover have "extends \<Phi> c ?\<Phi> c1" using x l by (auto simp: extends_def)
  ultimately show ?thesis using s by (auto simp: grows_def at_end_def)
qed

lemma assign_typed:
  assumes e: "ok_expr ms d e"
  shows "stmt_typed ms d (Stmt (SAssign x e) sp)"
proof (rule stmt_typedI)
  fix c \<Phi> P L
  assume i: "cg_inv c \<Phi> P L" and ms: "max_string_bytes (lims c) = ms" and d: "d \<le> stack_bound (lims c)"
  have w: "env_wf c" using i by (simp add: cg_inv_def)
  let ?Q = "\<lambda>c'. \<exists>\<Phi>'. cg_inv c' \<Phi>' P L \<and> follows \<Phi> c \<Phi>' c' \<and> scopes c' = scopes c"
  have step: "?Q (emit_op (OStore (var_index v)) sp c1)"
    if v: "(var_index v, var_kind v) \<in> env_of c"
      and g: "grows c \<Phi> (P \<union> pending_jumps c) (push_type (var_kind v) []) (env_of c) c1" for v c1
  proof -
    have "var_kind v \<noteq> Void" "var_index v < n_variables c"
      using w v by (auto simp: env_wf_def)
    then have "op_eff (ctx_of c1) (OStore (var_index v)) (length (code c1))
        (push_type (var_kind v) [], env_of c)
        [(Suc (length (code c1)), [], store_env (var_index v) (var_kind v) (env_of c))]"
      using g by (simp, intro eff_store) (simp add: ctx_of_params grows_def same_scopes_def)
    from grows_emit [OF g this]
    have "grows c \<Phi> (P \<union> pending_jumps c) [] (env_of c) (emit_op (OStore (var_index v)) sp c1)"
      by (rule grows_weaken [OF _ _ store_assign [OF w v]]) (use grows_length [OF g] in auto)
    then show ?thesis by (elim inv_of_grows [OF i]) blast
  qed
  show "cwp (comp_stmt (Stmt (SAssign x e) sp) c) (\<lambda>c'. \<exists>\<Phi>'. cg_inv c' \<Phi>' P L \<and>
      follows \<Phi> c \<Phi>' c' \<and> (\<not> is_let (Stmt (SAssign x e) sp) \<longrightarrow> scopes c' = scopes c))"
    unfolding comp_stmt.simps is_let.simps
    by (intro cwp_intros cwp_lookup cwp_expr_stmt [OF e i ms d]) (use step in auto)
qed

lemma expression_typed:
  assumes e: "ok_expr ms d e"
  shows "stmt_typed ms d (Stmt (SExpression e) sp)"
proof (rule stmt_typedI)
  fix c \<Phi> P L
  assume i: "cg_inv c \<Phi> P L" and ms: "max_string_bytes (lims c) = ms" and d: "d \<le> stack_bound (lims c)"
  let ?Q = "\<lambda>c'. \<exists>\<Phi>'. cg_inv c' \<Phi>' P L \<and> follows \<Phi> c \<Phi>' c' \<and> scopes c' = scopes c"
  have step: "?Q (if k \<noteq> Void then emit_op OPop sp c1 else c1)"
    if g: "grows c \<Phi> (P \<union> pending_jumps c) (push_type k []) (env_of c) c1" for k c1
  proof -
    have "op_eff (ctx_of c1) OPop (length (code c1)) (push_type k [], env_of c)
        [(Suc (length (code c1)), [], env_of c)]" if "k \<noteq> Void"
      using that by (simp add: eff_pop)
    from grows_emit [OF g this]
    have "grows c \<Phi> (P \<union> pending_jumps c) [] (env_of c) (if k \<noteq> Void then emit_op OPop sp c1 else c1)"
      using g by auto
    then show ?thesis by (elim inv_of_grows [OF i]) blast
  qed
  show "cwp (comp_stmt (Stmt (SExpression e) sp) c) (\<lambda>c'. \<exists>\<Phi>'. cg_inv c' \<Phi>' P L \<and>
      follows \<Phi> c \<Phi>' c' \<and> (\<not> is_let (Stmt (SExpression e) sp) \<longrightarrow> scopes c' = scopes c))"
    unfolding comp_stmt.simps is_let.simps
    by (intro cwp_sbind cwp_expr_stmt [OF e i ms d], simp only: prod.case, rule cwp_Inr)
       (use step in auto)
qed

lemma empty_typed: "stmt_typed ms d (Stmt SEmpty sp)"
proof (rule stmt_typedI)
  fix c \<Phi> P L
  assume i: "cg_inv c \<Phi> P L"
  have "grows c \<Phi> (P \<union> pending_jumps c) [] (env_of c) (emit_op (OJump (length (code c) + 1)) sp c)"
    by (rule grows_emit [OF inv_grows [OF i]]) (auto intro: op_eff.intros)
  then show "cwp (comp_stmt (Stmt SEmpty sp) c) (\<lambda>c'. \<exists>\<Phi>'. cg_inv c' \<Phi>' P L \<and>
      follows \<Phi> c \<Phi>' c' \<and> (\<not> is_let (Stmt SEmpty sp) \<longrightarrow> scopes c' = scopes c))"
    unfolding comp_stmt.simps by (intro cwp_Inr, elim inv_of_grows [OF i]) blast
qed

section \<open>Declarations\<close>

lemma env_insert:
  "scopes c = s # ss \<Longrightarrow> \<not> bt_contains s x \<Longrightarrow>
   env_of (c\<lparr>scopes := bt_insert x v s # ss\<rparr>) = insert (var_index v, var_kind v) (env_of c)"
proof -
  have "set (bt_insert x v s) = insert (x, v) (set s)" if "\<not> bt_contains s x"
    using that by (induction x v s rule: bt_insert.induct) auto
  then show "scopes c = s # ss \<Longrightarrow> \<not> bt_contains s x \<Longrightarrow>
   env_of (c\<lparr>scopes := bt_insert x v s # ss\<rparr>) = insert (var_index v, var_kind v) (env_of c)"
    by (auto simp: env_of_def scope_env_def)
qed

lemma let_step:
  assumes i: "cg_inv c \<Phi> P L" and s: "scopes c = s # ss" and x: "\<not> bt_contains s x"
    and g: "grows c \<Phi> (P \<union> pending_jumps c) (push_type k []) (env_of c) c1" and k: "k \<noteq> Void"
    and m: "n_variables c1 < max_variables (lims c1)"
    and c2: "c2 = c1\<lparr>n_variables := Suc (n_variables c1),
      scopes := bt_insert x \<lparr>var_index = n_variables c1, var_kind = k\<rparr> s # ss\<rparr>"
  obtains \<Phi>' where "cg_inv (emit_op (OStore (n_variables c1)) sp c2) \<Phi>' P L"
    "follows \<Phi> c \<Phi>' (emit_op (OStore (n_variables c1)) sp c2)"
proof -
  let ?i = "n_variables c1" and ?P = "P \<union> pending_jumps c" and ?n = "length (code c1)"
  let ?c3 = "emit_op (OStore ?i) sp c2"
  obtain \<Phi>1 where a1: "at_end c1 \<Phi>1 ?P [k] (env_of c)" and x1: "extends \<Phi> c \<Phi>1 c1"
    and s1: "same_scopes c c1"
    using g k by (auto simp: grows_def)
  have w: "env_wf c" using i by (simp add: cg_inv_def)
  have env1: "env_of c1 = env_of c" by (rule same_scopes_env [OF s1])
  have sc1: "scopes c1 = s # ss" "n_variables c1 = n_variables c" "loops c1 = loops c"
    using s s1 by (simp_all add: same_scopes_def)
  have env2: "env_of c2 = insert (?i, k) (env_of c)"
    using env_insert [OF sc1(1) x, of "\<lparr>var_index = ?i, var_kind = k\<rparr>"] env1
    by (simp add: c2 env_of_def)
  have store: "store_env ?i k (env_of c) = env_of c2"
    using w unfolding env2 store_env_def env_wf_def sc1 by fastforce
  let ?\<Phi> = "\<Phi>1(Suc ?n := ([], env_of c2))"
  have "typed c2 \<Phi>1 ?P"
    by (rule typed_ctx [of c1]) (use a1 in \<open>auto simp: at_end_def c2 ctx_le_def ctx_of_def\<close>)
  moreover have "op_eff (ctx_of c2) (OStore ?i) (length (code c2)) (\<Phi>1 (length (code c2)))
      [(Suc (length (code c2)), [], store_env ?i k (env_of c))]"
  proof -
    have "\<Phi>1 (length (code c2)) = ([k], env_of c)" using a1 by (simp add: at_end_def c2)
    then show ?thesis by (simp only:) (rule eff_store, simp add: ctx_of_params c2)
  qed
  ultimately have "typed ?c3 (\<Phi>1(Suc (length (code c2)) := ([], env_of c2))) ?P"
    by (rule typed_emit) (auto simp: store leq_def)
  then have t3: "typed ?c3 ?\<Phi> ?P" by (simp add: c2)
  have x3: "extends \<Phi> c ?\<Phi> ?c3"
    using extends_trans [OF x1, of "?\<Phi>" ?c3] by (simp add: extends_def c2)
  have e3: "env_of ?c3 = insert (?i, k) (env_of c)" using env2 by (simp add: env_of_def)
  have wf3: "env_wf ?c3"
  proof -
    have n3: "n_variables ?c3 = Suc ?i" by (simp add: c2)
    have "single_valued (insert (?i, k) (env_of c))"
      using w sc1 unfolding single_valued_def env_wf_def by fastforce
    then show ?thesis
      using w k sc1 unfolding env_wf_def e3 n3 by fastforce
  qed
  have sel3: "loops ?c3 = loops c" "pending_jumps ?c3 = pending_jumps c" "scopes ?c3 \<noteq> []"
    "tl (scopes ?c3) = tl (scopes c)" "length (code ?c3) = Suc ?n" "env_of ?c3 = env_of c2"
    "n_variables ?c3 \<le> max_variables (lims ?c3)"
    using s sc1 m by (simp_all add: c2 pending_jumps_def env_of_def)
  have sub: "env_of c \<subseteq> env_of ?c3" using e3 by blast
  have "list_all2 (loop_ok ?c3 ?\<Phi>) (loops c) L"
    by (rule loops_ok_extends [OF _ x3 sub]) (use i in \<open>simp add: cg_inv_def\<close>)
  moreover have "at_end ?c3 ?\<Phi> (P \<union> pending_jumps c) [] (env_of c2)"
    using t3 unfolding at_end_def sel3 by simp
  ultimately have "cg_inv ?c3 ?\<Phi> P L" using wf3 sel3 unfolding cg_inv_def by simp
  moreover have "follows \<Phi> c ?\<Phi> ?c3"
    using x3 sub sel3 unfolding follows_def by simp
  ultimately show thesis by (rule that)
qed

lemma let_typed:
  assumes e: "ok_expr ms d e"
  shows "stmt_typed ms d (Stmt (SLet x e) sp)"
proof (rule stmt_typedI)
  fix c \<Phi> P L
  assume i: "cg_inv c \<Phi> P L" and ms: "max_string_bytes (lims c) = ms" and d: "d \<le> stack_bound (lims c)"
  obtain s ss where s: "scopes c = s # ss" using i by (cases "scopes c") (auto simp: cg_inv_def)
  let ?Q = "\<lambda>c'. \<exists>\<Phi>'. cg_inv c' \<Phi>' P L \<and> follows \<Phi> c \<Phi>' c'"
  have step: "cwp (sbind (declare_var x k c1) (\<lambda>(index, c). Inr (emit_op (OStore index) sp c))) ?Q"
    if g: "grows c \<Phi> (P \<union> pending_jumps c) (push_type k []) (env_of c) c1"
      and k: "k \<noteq> Void" and x: "\<not> bt_contains s x"
      and m: "\<not> max_variables (lims c1) \<le> n_variables c1" for k c1
  proof -
    have "scopes c1 = s # ss" using g s by (simp add: grows_def same_scopes_def)
    then show ?thesis
      by (simp add: declare_var_def Let_def) (rule cwp_Inr, rule let_step [OF i s x g k m [unfolded not_le] refl], blast)
  qed
  show "cwp (comp_stmt (Stmt (SLet x e) sp) c) (\<lambda>c'. \<exists>\<Phi>'. cg_inv c' \<Phi>' P L \<and>
      follows \<Phi> c \<Phi>' c' \<and> (\<not> is_let (Stmt (SLet x e) sp) \<longrightarrow> scopes c' = scopes c))"
    unfolding comp_stmt.simps check_declaration_def s list.case is_let.simps
    by (simp only: not_True_eq_False simp_thms, intro cwp_sbind cwp_guard cwp_expr_stmt [OF e i ms d],
        simp only: prod.case, intro cwp_if cwp_err step) auto
qed

section \<open>Blocks\<close>

lemma env_push_scope [simp]: "env_of (push_scope c) = env_of c"
  by (simp add: env_of_def push_scope_def bt_empty_def scope_env_def)

lemma cg_inv_env: "cg_inv c \<Phi> P L \<Longrightarrow> \<forall>E \<in> set L. E \<subseteq> env_of c"
  by (auto simp: cg_inv_def loop_ok_def list_all2_conv_all_nth in_set_conv_nth) blast

lemma push_scope_sel [simp]:
  "code (push_scope c) = code c" "loops (push_scope c) = loops c" "lims (push_scope c) = lims c"
  "scopes (push_scope c) = bt_empty # scopes c" "n_variables (push_scope c) = n_variables c"
  "ctx_of (push_scope c) = ctx_of c" "params (push_scope c) = params c"
  "prompts (push_scope c) = prompts c" "pending_jumps (push_scope c) = pending_jumps c"
  by (simp_all add: push_scope_def ctx_of_def pending_jumps_def)

lemma pop_scope_sel [simp]:
  "code (pop_scope c) = code c" "loops (pop_scope c) = loops c" "lims (pop_scope c) = lims c"
  "scopes (pop_scope c) = tl (scopes c)" "n_variables (pop_scope c) = n_variables c"
  "ctx_of (pop_scope c) = ctx_of c" "params (pop_scope c) = params c"
  "prompts (pop_scope c) = prompts c" "pending_jumps (pop_scope c) = pending_jumps c"
  by (simp_all add: pop_scope_def ctx_of_def pending_jumps_def)

lemma typed_same:
  "typed c \<Phi> P \<Longrightarrow> code c' = code c \<Longrightarrow> lims c' = lims c \<Longrightarrow> ctx_of c' = ctx_of c \<Longrightarrow> typed c' \<Phi> P"
  by (simp add: typed_def)

lemma loops_ok_jumps:
  "list_all2 (loop_ok c \<Phi>) ls L \<Longrightarrow> \<forall>E \<in> set L. E \<subseteq> env_of c' \<Longrightarrow>
   (\<And>E p. jump_ok c \<Phi> E p \<Longrightarrow> jump_ok c' \<Phi>' E p) \<Longrightarrow> list_all2 (loop_ok c' \<Phi>') ls L"
  by (induction ls L rule: list_all2_induct) (auto simp: loop_ok_def)

lemma inv_push_scope:
  assumes i: "cg_inv c \<Phi> P L"
  shows "cg_inv (push_scope c) \<Phi> P L"
proof -
  have "list_all2 (loop_ok (push_scope c) \<Phi>) (loops c) L"
    by (rule loops_ok_jumps [of c \<Phi>])
       (use i cg_inv_env [OF i] in \<open>simp_all add: cg_inv_def jump_ok_def\<close>)
  moreover have "typed (push_scope c) \<Phi> (P \<union> pending_jumps c)"
    using i by (auto simp: cg_inv_def at_end_def intro: typed_same)
  ultimately show ?thesis using i by (simp add: cg_inv_def env_wf_def at_end_def)
qed

lemma inv_pop_scope:
  assumes i: "cg_inv c \<Phi> P L" and i1: "cg_inv c1 \<Phi>1 P L" and f: "follows \<Phi> (push_scope c) \<Phi>1 c1"
  obtains \<Phi>2 where "cg_inv (pop_scope c1) \<Phi>2 P L" "follows \<Phi> c \<Phi>2 (pop_scope c1)"
    "scopes (pop_scope c1) = scopes c"
proof -
  let ?n = "length (code c1)"
  let ?\<Phi> = "\<Phi>1(?n := ([], env_of c))"
  have sc: "tl (scopes c1) = scopes c" and sub: "env_of c \<subseteq> env_of c1"
    and x: "extends \<Phi> (push_scope c) \<Phi>1 c1"
    using f by (simp_all add: follows_def)
  have env: "env_of (pop_scope c1) = env_of c" using sc by (simp add: env_of_def)
  have a: "\<Phi> (length (code c)) = ([], env_of c)" using i by (simp add: cg_inv_def at_end_def)
  have t: "typed (pop_scope c1) ?\<Phi> (P \<union> pending_jumps c1)"
  proof (rule typed_same)
    show "typed c1 ?\<Phi> (P \<union> pending_jumps c1)"
      by (rule typed_weaken) (use i1 sub in \<open>auto simp: cg_inv_def at_end_def leq_def\<close>)
  qed simp_all
  have "list_all2 (loop_ok (pop_scope c1) ?\<Phi>) (loops c1) L"
  proof (rule loops_ok_jumps)
    show "list_all2 (loop_ok c1 \<Phi>1) (loops c1) L" using i1 by (simp add: cg_inv_def)
    show "\<forall>E \<in> set L. E \<subseteq> env_of (pop_scope c1)" unfolding env by (rule cg_inv_env [OF i])
    show "jump_ok (pop_scope c1) ?\<Phi> E p" if "jump_ok c1 \<Phi>1 E p" for E p
      using that by (auto simp: jump_ok_def)
  qed
  moreover have "env_wf (pop_scope c1)"
  proof -
    have w: "\<forall>x \<in> env_of c1. (case x of (i, t) \<Rightarrow> i < n_variables c1 \<and> t \<noteq> Void)"
      and v: "single_valued (env_of c1)"
      using i1 by (simp_all add: cg_inv_def env_wf_def)
    show ?thesis
      unfolding env_wf_def env pop_scope_sel
      using subsetD [OF sub, THEN w [rule_format]] single_valued_subset [OF sub v] by blast
  qed
  ultimately have "cg_inv (pop_scope c1) ?\<Phi> P L"
  proof -
    assume "list_all2 (loop_ok (pop_scope c1) ?\<Phi>) (loops c1) L" "env_wf (pop_scope c1)"
    moreover have "scopes c \<noteq> []" "n_variables c1 \<le> max_variables (lims c1)"
      using i i1 by (simp_all add: cg_inv_def)
    ultimately show ?thesis
      using t unfolding cg_inv_def at_end_def env pop_scope_sel sc by simp
  qed
  moreover have "extends \<Phi> c ?\<Phi> (pop_scope c1)"
  proof -
    have "?\<Phi> q = \<Phi> q" if q: "q \<le> length (code c)" for q
    proof (cases "q = ?n")
      case True
      then have "q = length (code c)" using q extends_length [OF x] by simp
      with True a show ?thesis by simp
    next
      case False
      then show ?thesis using extends_phi [OF x, of q] q by simp
    qed
    with x show ?thesis unfolding extends_def by simp
  qed
  then have "follows \<Phi> c ?\<Phi> (pop_scope c1)"
    using f unfolding follows_def env by (simp add: sc)
  ultimately show thesis by (rule that) (simp add: sc)
qed

lemma block_typed:
  assumes ss: "stmts_typed ms d ss"
  shows "stmt_typed ms d (Stmt (SBlock ss) sp)"
proof (rule stmt_typedI)
  fix c \<Phi> P L
  assume i: "cg_inv c \<Phi> P L" and ms: "max_string_bytes (lims c) = ms" and d: "d \<le> stack_bound (lims c)"
  show "cwp (comp_stmt (Stmt (SBlock ss) sp) c) (\<lambda>c'. \<exists>\<Phi>'. cg_inv c' \<Phi>' P L \<and>
      follows \<Phi> c \<Phi>' c' \<and> (\<not> is_let (Stmt (SBlock ss) sp) \<longrightarrow> scopes c' = scopes c))"
    unfolding comp_stmt.simps
    by (intro cwp_sbind stmts_typedD [OF ss inv_push_scope [OF i]] cwp_Inr)
       (use ms d in \<open>simp_all\<close>, metis inv_pop_scope [OF i] pop_scope_sel(4))
qed

lemma stmts_Nil_typed: "stmts_typed ms d []"
  by (auto simp: stmts_typed_def intro!: cwp_Inr)

lemma stmts_Cons_typed:
  assumes s: "stmt_typed ms d s" and ss: "stmts_typed ms d ss"
  shows "stmts_typed ms d (s # ss)"
  unfolding stmts_typed_def
proof (intro allI impI)
  fix c \<Phi> P L
  assume i: "cg_inv c \<Phi> P L" and ms: "max_string_bytes (lims c) = ms" and d: "d \<le> stack_bound (lims c)"
  have "cwp (comp_stmts ss c1) (\<lambda>c'. \<exists>\<Phi>'. cg_inv c' \<Phi>' P L \<and> follows \<Phi> c \<Phi>' c')"
    if "cg_inv c1 \<Phi>1 P L" "follows \<Phi> c \<Phi>1 c1" for c1 \<Phi>1
    by (rule stmts_typedD [OF ss that(1)])
       (use that ms d follows_lims [OF that(2)] follows_trans in \<open>auto\<close>)
  then show "cwp (comp_stmts (s # ss) c) (\<lambda>c'. \<exists>\<Phi>'. cg_inv c' \<Phi>' P L \<and> follows \<Phi> c \<Phi>' c')"
    unfolding comp_stmts.simps by (intro cwp_sbind stmt_typedD [OF s i ms d])
qed

section \<open>Jumps out of a loop\<close>

lemma loop_jump_typed:
  assumes i: "cg_inv c \<Phi> P L"
  shows "cwp (loop_jump b sp c) (\<lambda>c'. \<exists>\<Phi>'. cg_inv c' \<Phi>' P L \<and> follows \<Phi> c \<Phi>' c' \<and> scopes c' = scopes c)"
proof (cases "loops c")
  case Nil
  then show ?thesis by (simp add: loop_jump_def cwp_err)
next
  case (Cons l ls)
  let ?n = "length (code c)"
  let ?\<Phi> = "\<Phi>(Suc ?n := ([], env_of c))"
  define l' where "l' = (if b then l\<lparr>breaks := breaks l @ [?n]\<rparr> else l\<lparr>continues := continues l @ [?n]\<rparr>)"
  define c' where "c' = (emit_op (OJump 0) sp c)\<lparr>loops := l' # ls\<rparr>"
  obtain E L' where L: "L = E # L'" and l: "loop_ok c \<Phi> l E" and ls: "list_all2 (loop_ok c \<Phi>) ls L'"
    using i Cons by (auto simp: cg_inv_def list_all2_Cons1)
  have a: "typed c \<Phi> (P \<union> pending_jumps c)" "\<Phi> ?n = ([], env_of c)"
    using i by (simp_all add: cg_inv_def at_end_def)
  have eq: "loop_jump b sp c = Inr c'"
    by (simp add: loop_jump_def Cons emit_pair c'_def l'_def)
  have sel: "code c' = code c @ [\<lparr>iop = OJump 0, ispan = sp\<rparr>]" "scopes c' = scopes c"
    "loops c' = l' # ls" "env_of c' = env_of c" "lims c' = lims c" "ctx_of c' = ctx_of c"
    "n_variables c' = n_variables c" "params c' = params c" "prompts c' = prompts c"
    by (simp_all add: c'_def env_of_def ctx_of_def)
  have jl: "jumps_of l' = insert ?n (jumps_of l)" by (auto simp: l'_def jumps_of_def)
  have J: "pending_jumps c' = insert ?n (pending_jumps c)"
    by (simp add: pending_jumps_def sel Cons jl)
  have x: "extends \<Phi> c ?\<Phi> c'" by (simp add: extends_def sel)
  have "jump_ok c' ?\<Phi> E ?n"
    using l a by (simp add: jump_ok_def sel loop_ok_def)
  then have "loop_ok c' ?\<Phi> l' E"
    using l jump_ok_extends [OF _ x] by (auto simp: loop_ok_def jl sel)
  moreover have "list_all2 (loop_ok c' ?\<Phi>) ls L'"
    by (rule loops_ok_extends [OF ls x]) (simp add: sel)
  moreover have "typed (emit_op (OJump 0) sp c) ?\<Phi> (insert ?n (P \<union> pending_jumps c))"
    by (rule typed_emit_pending [OF a(1)]) simp
  then have "typed c' ?\<Phi> (P \<union> pending_jumps c')"
    by (rule typed_same [THEN typed_mono]) (auto simp: sel J)
  ultimately have "cg_inv c' ?\<Phi> P L"
    using i by (simp add: cg_inv_def sel L env_wf_def at_end_def)
  moreover have "loops_ext ?n (loops c) (loops c')"
    using loops_ext_refl [of ?n ls] by (auto simp: loops_ext_def sel Cons jl)
  then have "follows \<Phi> c ?\<Phi> c'" using x by (simp add: follows_def sel)
  ultimately show ?thesis unfolding eq by (intro cwp_Inr) (auto simp: sel)
qed

section \<open>Branches over statements\<close>

definition cond_open :: "compiler \<Rightarrow> (nat \<Rightarrow> stype) \<Rightarrow> nat \<Rightarrow> env \<Rightarrow> bool" where
  "cond_open c \<Phi> b A \<longleftrightarrow> b < length (code c) \<and> iop (code c ! b) = OJumpIfFalse 0 \<and>
     \<Phi> b = ([Scalar TBoolean], A) \<and> \<Phi> (Suc b) = ([], A)"

lemma cond_open_follows: "cond_open c \<Phi> b A \<Longrightarrow> follows \<Phi> c \<Phi>' c' \<Longrightarrow> cond_open c' \<Phi>' b A"
  using extends_nth [of \<Phi> c \<Phi>' c' b] extends_length [of \<Phi> c \<Phi>' c']
    extends_phi [of \<Phi> c \<Phi>' c' b] extends_phi [of \<Phi> c \<Phi>' c' "Suc b"]
  by (auto simp: cond_open_def follows_def)

lemma jump_ok_follows: "jump_ok c \<Phi> E p \<Longrightarrow> follows \<Phi> c \<Phi>' c' \<Longrightarrow> jump_ok c' \<Phi>' E p"
  by (auto simp: follows_def intro: jump_ok_extends)

lemma jump_ok_patched: "jump_ok c \<Phi> E p \<Longrightarrow> patched n c c' \<Longrightarrow> jump_ok c' \<Phi> E p"
  using patched_code [of n c c'] by (auto simp: jump_ok_def)

text \<open>A position with an empty stack where at most the variables \<open>A\<close> are needed.\<close>

definition target_ok :: "compiler \<Rightarrow> (nat \<Rightarrow> stype) \<Rightarrow> nat \<Rightarrow> env \<Rightarrow> bool" where
  "target_ok c \<Phi> t A \<longleftrightarrow> t \<le> length (code c) \<and> fst (\<Phi> t) = [] \<and> snd (\<Phi> t) \<subseteq> A"

lemma target_ok_end: "cg_inv c \<Phi> P L \<Longrightarrow> env_of c \<subseteq> A \<Longrightarrow> target_ok c \<Phi> (length (code c)) A"
  by (simp add: target_ok_def cg_inv_def at_end_def)

lemma target_ok_follows: "target_ok c \<Phi> t A \<Longrightarrow> follows \<Phi> c \<Phi>' c' \<Longrightarrow> target_ok c' \<Phi>' t A"
  using extends_phi [of \<Phi> c \<Phi>' c' t] extends_length [of \<Phi> c \<Phi>' c']
  by (auto simp: target_ok_def follows_def)

lemma target_ok_patched: "target_ok c \<Phi> t A \<Longrightarrow> patched n c c' \<Longrightarrow> target_ok c' \<Phi> t A"
  using patched_code [of n c c'] by (simp add: target_ok_def)

lemma close_condition:
  assumes i: "cg_inv c \<Phi> (insert b P) L" and o: "cond_open c \<Phi> b A" and n: "n \<le> b"
    and t: "target_ok c \<Phi> t A"
    and Q: "\<And>c'. patched n c c' \<Longrightarrow> cg_inv c' \<Phi> P L \<Longrightarrow> Q c'"
  shows "cwp (patch b t c) Q"
proof (rule inv_patch [OF i _ n])
  show "b < length (code c)" "set_target (iop (code c ! b)) t = Some (OJumpIfFalse t)"
    using o by (simp_all add: cond_open_def)
  have "\<Phi> b = ([Scalar TBoolean], A)" using o by (simp add: cond_open_def)
  then show "op_eff (ctx_of c) (OJumpIfFalse t) b (\<Phi> b) [(Suc b, [], A), (t, [], A)]"
    by (simp add: eff_if)
  show "q \<le> length (code c) \<and> leq \<sigma> (\<Phi> q)" if "(q, \<sigma>) \<in> set [(Suc b, [], A), (t, [], A)]" for q \<sigma>
    using that o t by (auto simp: cond_open_def target_ok_def leq_def)
qed (rule Q)

lemma close_jump:
  assumes i: "cg_inv c \<Phi> (insert b P) L" and o: "jump_ok c \<Phi> A b" and n: "n \<le> b"
    and t: "target_ok c \<Phi> t A"
    and Q: "\<And>c'. patched n c c' \<Longrightarrow> cg_inv c' \<Phi> P L \<Longrightarrow> Q c'"
  shows "cwp (patch b t c) Q"
proof (rule inv_patch [OF i _ n])
  show "b < length (code c)" "set_target (iop (code c ! b)) t = Some (OJump t)"
    using o by (auto simp: jump_ok_def)
  show "op_eff (ctx_of c) (OJump t) b (\<Phi> b) [(t, \<Phi> b)]"
    by (cases "\<Phi> b") (simp add: eff_jump)
  show "q \<le> length (code c) \<and> leq \<sigma> (\<Phi> q)" if "(q, \<sigma>) \<in> set [(t, \<Phi> b)]" for q \<sigma>
    using that o t by (auto simp: jump_ok_def target_ok_def leq_def)
qed (rule Q)

text \<open>Emitting the branches.\<close>

lemma inv_emit:
  assumes i: "cg_inv c \<Phi> P L"
    and t: "typed (emit_op oper sp c) (\<Phi>(Suc (length (code c)) := ([], env_of c))) (P' \<union> pending_jumps c)"
  shows "cg_inv (emit_op oper sp c) (\<Phi>(Suc (length (code c)) := ([], env_of c))) P' L"
    "follows \<Phi> c (\<Phi>(Suc (length (code c)) := ([], env_of c))) (emit_op oper sp c)"
proof -
  show "cg_inv (emit_op oper sp c) (\<Phi>(Suc (length (code c)) := ([], env_of c))) P' L"
    by (rule inv_same [OF i extends_emit]) (use t in \<open>auto simp: at_end_def\<close>)
  show "follows \<Phi> c (\<Phi>(Suc (length (code c)) := ([], env_of c))) (emit_op oper sp c)"
    by (rule follows_same [OF extends_emit]) simp
qed

lemma emit_open_jump:
  assumes i: "cg_inv c \<Phi> P L"
  obtains \<Phi>' where "cg_inv (emit_op (OJump 0) sp c) \<Phi>' (insert (length (code c)) P) L"
    "follows \<Phi> c \<Phi>' (emit_op (OJump 0) sp c)" "jump_ok (emit_op (OJump 0) sp c) \<Phi>' (env_of c) (length (code c))"
proof -
  let ?\<Phi> = "\<Phi>(Suc (length (code c)) := ([], env_of c))"
  have a: "typed c \<Phi> (P \<union> pending_jumps c)" "\<Phi> (length (code c)) = ([], env_of c)"
    using i by (simp_all add: cg_inv_def at_end_def)
  have "typed (emit_op (OJump 0) sp c) ?\<Phi> (insert (length (code c)) P \<union> pending_jumps c)"
    using typed_emit_pending [OF a(1), of "([], env_of c)"] by simp
  from inv_emit [OF i this] show thesis by (rule that) (simp add: jump_ok_def a)
qed

lemma emit_back_jump:
  assumes i: "cg_inv c \<Phi> P L" and t: "target_ok c \<Phi> t (env_of c)"
  obtains \<Phi>' where "cg_inv (emit_op (OJump t) sp c) \<Phi>' P L" "follows \<Phi> c \<Phi>' (emit_op (OJump t) sp c)"
proof -
  let ?\<Phi> = "\<Phi>(Suc (length (code c)) := ([], env_of c))"
  have a: "typed c \<Phi> (P \<union> pending_jumps c)" "\<Phi> (length (code c)) = ([], env_of c)"
    using i by (simp_all add: cg_inv_def at_end_def)
  have "typed (emit_op (OJump t) sp c) ?\<Phi> (P \<union> pending_jumps c)"
    by (rule typed_emit [OF a(1), where \<sigma>s = "[(t, [], env_of c)]"])
       (use t in \<open>auto simp: a target_ok_def leq_def intro: eff_jump\<close>)
  from inv_emit [OF i this] show thesis by (rule that)
qed

lemma cwp_comp_condition:
  assumes e: "ok_expr ms d e" and i: "cg_inv c \<Phi> P L" and ms: "max_string_bytes (lims c) = ms"
    and d: "d \<le> stack_bound (lims c)"
    and Q: "\<And>b c' \<Phi>'. cg_inv c' \<Phi>' (insert b P) L \<Longrightarrow> follows \<Phi> c \<Phi>' c' \<Longrightarrow> scopes c' = scopes c \<Longrightarrow>
      cond_open c' \<Phi>' b (env_of c) \<Longrightarrow> length (code c) \<le> b \<Longrightarrow> Q (b, c')"
  shows "cwp (comp_condition e c) Q"
proof -
  have step: "Q (emit (OJumpIfFalse 0) sp c1)"
    if g: "grows c \<Phi> (P \<union> pending_jumps c) [Scalar TBoolean] (env_of c) c1" for c1 sp
  proof -
    let ?b = "length (code c1)" and ?c2 = "emit_op (OJumpIfFalse 0) sp c1"
    obtain \<Phi>1 where a: "at_end c1 \<Phi>1 (P \<union> pending_jumps c) [Scalar TBoolean] (env_of c)"
      and x: "extends \<Phi> c \<Phi>1 c1" and s: "same_scopes c c1"
      using g by (auto simp: grows_def)
    let ?\<Phi> = "\<Phi>1(Suc ?b := ([], env_of c))"
    note x2 = extends_trans [OF x extends_emit, of "([], env_of c)" "OJumpIfFalse 0" sp]
    have "typed ?c2 ?\<Phi> (insert ?b (P \<union> pending_jumps c))"
      by (rule typed_emit_pending) (use a in \<open>auto simp: at_end_def\<close>)
    then have "at_end ?c2 ?\<Phi> (insert ?b P \<union> pending_jumps c) [] (env_of c)"
      by (simp add: at_end_def)
    then have "cg_inv ?c2 ?\<Phi> (insert ?b P) L"
      by (rule inv_same [OF i x2, rotated]) (simp add: s)
    moreover have "follows \<Phi> c ?\<Phi> ?c2" using x2 by (rule follows_same) (simp add: s)
    moreover have "cond_open ?c2 ?\<Phi> ?b (env_of c)" using a by (simp add: cond_open_def at_end_def)
    ultimately show ?thesis
      unfolding emit_pair using s extends_length [OF x] by (intro Q) (simp_all add: same_scopes_def)
  qed
  show ?thesis unfolding comp_condition_def
    by (intro cwp_intros cwp_expr_stmt [OF e i ms d]) (use step in auto)
qed

section \<open>Conditionals and loops\<close>

lemma patched_done:
  "follows \<Phi> c \<Phi>1 c1 \<Longrightarrow> scopes c1 = scopes c \<Longrightarrow> patched (length (code c)) c1 c' \<Longrightarrow> cg_inv c' \<Phi>1 P L \<Longrightarrow>
   \<exists>\<Phi>'. cg_inv c' \<Phi>' P L \<and> follows \<Phi> c \<Phi>' c' \<and> scopes c' = scopes c"
  by (metis patched_follows patched_sel(1))

lemma if_typed:
  assumes e: "ok_expr ms d e" and b: "stmt_typed ms d body" "\<not> is_let body"
    and alt: "\<And>s. alternative = Some s \<Longrightarrow> stmt_typed ms d s \<and> \<not> is_let s"
  shows "stmt_typed ms d (Stmt (SIf e body alternative) sp)"
proof (rule stmt_typedI)
  fix c \<Phi> P L
  assume i: "cg_inv c \<Phi> P L" and ms: "max_string_bytes (lims c) = ms" and d: "d \<le> stack_bound (lims c)"
  let ?Q = "\<lambda>c'. \<exists>\<Phi>'. cg_inv c' \<Phi>' P L \<and> follows \<Phi> c \<Phi>' c' \<and> scopes c' = scopes c"
  have env: "env_of c' = env_of c" if "scopes c' = scopes c" for c' using that by (simp add: env_of_def)
  have "cwp (case alternative of
       Some alternative \<Rightarrow>
         (let (stop, c) = emit (OJump 0) sp c2 in
          sbind (patch skip (length (code c)) c) (\<lambda>c.
          sbind (comp_stmt alternative c) (\<lambda>c.
          patch stop (length (code c)) c)))
     | None \<Rightarrow> patch skip (length (code c2)) c2) ?Q"
    if i2: "cg_inv c2 \<Phi>2 (insert skip P) L" and f2: "follows \<Phi> c \<Phi>2 c2" and s2: "scopes c2 = scopes c"
      and o2: "cond_open c2 \<Phi>2 skip (env_of c)" and n: "length (code c) \<le> skip" for c2 \<Phi>2 skip
  proof (cases alternative)
    case None
    have "cwp (patch skip (length (code c2)) c2) ?Q"
      by (rule close_condition [OF i2 o2 n target_ok_end [OF i2]])
         (simp add: env [OF s2], rule patched_done [OF f2 s2])
    with None show ?thesis by simp
  next
    case (Some s)
    let ?stop = "length (code c2)" and ?c3 = "emit_op (OJump 0) sp c2"
    obtain \<Phi>3 where i3: "cg_inv ?c3 \<Phi>3 (insert ?stop (insert skip P)) L" and f3: "follows \<Phi>2 c2 \<Phi>3 ?c3"
      and j3: "jump_ok ?c3 \<Phi>3 (env_of c2) ?stop"
      using emit_open_jump [OF i2] .
    have i3': "cg_inv ?c3 \<Phi>3 (insert skip (insert ?stop P)) L" using i3 by (simp add: insert_commute)
    note f3' = follows_trans [OF f2 f3]
    have s3: "scopes ?c3 = scopes c" using s2 by simp
    have n3: "length (code c) \<le> ?stop" using f2 by (simp add: follows_def extends_def)
    have alt: "cwp (sbind (comp_stmt s c4) (\<lambda>c. patch ?stop (length (code c)) c)) ?Q"
      if p4: "patched (length (code c)) ?c3 c4" and i4: "cg_inv c4 \<Phi>3 (insert ?stop P) L" for c4
    proof (rule cwp_sbind, rule stmt_typedD [OF _ i4])
      note f4 = patched_follows [OF f3' p4]
      show "stmt_typed ms d s" using alt [OF Some] by simp
      show "max_string_bytes (lims c4) = ms" "d \<le> stack_bound (lims c4)"
        using ms d follows_lims [OF f4] by simp_all
      fix c5 \<Phi>5
      assume i5: "cg_inv c5 \<Phi>5 (insert ?stop P) L" and f5: "follows \<Phi>3 c4 \<Phi>5 c5"
        and s5: "\<not> is_let s \<Longrightarrow> scopes c5 = scopes c4"
      have sc: "scopes c5 = scopes c" using s5 alt [OF Some] patched_sel(1) [OF p4] s3 by simp
      have j5: "jump_ok c5 \<Phi>5 (env_of c) ?stop"
        using jump_ok_follows [OF jump_ok_patched [OF j3 p4] f5] env [OF s2] by simp
      show "cwp (patch ?stop (length (code c5)) c5) ?Q"
        by (rule close_jump [OF i5 j5 n3 target_ok_end [OF i5]])
           (simp add: env [OF sc], rule patched_done [OF follows_trans [OF f4 f5] sc])
    qed
    have "cwp (sbind (patch skip (length (code ?c3)) ?c3) (\<lambda>c.
        sbind (comp_stmt s c) (\<lambda>c. patch ?stop (length (code c)) c))) ?Q"
      by (rule cwp_sbind, rule close_condition [OF i3' cond_open_follows [OF o2 f3] n target_ok_end [OF i3']])
         (simp only: env [OF s3] subset_refl, rule alt)
    with Some show ?thesis by (simp add: emit_pair)
  qed
  note rest = this
  have "cwp (sbind (comp_condition e c) (\<lambda>(skip, c). sbind (comp_stmt body c) (F skip))) ?Q"
    if F: "\<And>skip c2 \<Phi>2. cg_inv c2 \<Phi>2 (insert skip P) L \<Longrightarrow> follows \<Phi> c \<Phi>2 c2 \<Longrightarrow> scopes c2 = scopes c \<Longrightarrow>
      cond_open c2 \<Phi>2 skip (env_of c) \<Longrightarrow> length (code c) \<le> skip \<Longrightarrow> cwp (F skip c2) ?Q" for F
  proof (rule cwp_sbind, rule cwp_comp_condition [OF e i ms d], simp only: prod.case, rule cwp_sbind)
    fix skip c1 \<Phi>1
    assume i1: "cg_inv c1 \<Phi>1 (insert skip P) L" and f1: "follows \<Phi> c \<Phi>1 c1" and s1: "scopes c1 = scopes c"
      and o1: "cond_open c1 \<Phi>1 skip (env_of c)" and n: "length (code c) \<le> skip"
    show "cwp (comp_stmt body c1) (\<lambda>c2. cwp (F skip c2) ?Q)"
      by (rule stmt_typedD [OF b(1) i1])
         (use ms d follows_lims [OF f1] b(2) s1 F [OF _ follows_trans [OF f1] _ cond_open_follows [OF o1] n] in auto)
  qed
  then show "cwp (comp_stmt (Stmt (SIf e body alternative) sp) c) (\<lambda>c'. \<exists>\<Phi>'. cg_inv c' \<Phi>' P L \<and>
      follows \<Phi> c \<Phi>' c' \<and> (\<not> is_let (Stmt (SIf e body alternative) sp) \<longrightarrow> scopes c' = scopes c))"
    unfolding comp_stmt.simps is_let.simps using rest by simp
qed

text \<open>A loop: its jumps are open from \<open>push_loop\<close> to \<open>finish_loop\<close>.\<close>

lemma push_loop_sel [simp]:
  "code (push_loop c) = code c" "loops (push_loop c) = \<lparr>breaks = [], continues = []\<rparr> # loops c"
  "lims (push_loop c) = lims c" "scopes (push_loop c) = scopes c"
  "n_variables (push_loop c) = n_variables c" "ctx_of (push_loop c) = ctx_of c"
  "params (push_loop c) = params c" "prompts (push_loop c) = prompts c"
  "env_of (push_loop c) = env_of c" "pending_jumps (push_loop c) = pending_jumps c"
  by (simp_all add: push_loop_def ctx_of_def pending_jumps_def env_of_def jumps_of_def)

lemma inv_push_loop:
  assumes i: "cg_inv c \<Phi> P L"
  shows "cg_inv (push_loop c) \<Phi> P (env_of c # L)"
proof -
  have "list_all2 (loop_ok (push_loop c) \<Phi>) (loops c) L"
    by (rule loops_ok_jumps [of c \<Phi>])
       (use i cg_inv_env [OF i] in \<open>simp_all add: cg_inv_def jump_ok_def\<close>)
  moreover have "typed (push_loop c) \<Phi> (P \<union> pending_jumps c)"
    using i by (auto simp: cg_inv_def at_end_def intro: typed_same)
  ultimately show ?thesis
    using i by (simp add: cg_inv_def env_wf_def at_end_def loop_ok_def jumps_of_def)
qed

lemma follows_pop_loop:
  assumes f: "follows \<Phi> (push_loop c) \<Phi>' c'"
  obtains l ls where "loops c' = l # ls" "\<forall>p \<in> jumps_of l. length (code c) \<le> p"
    "follows \<Phi> c \<Phi>' (c'\<lparr>loops := ls\<rparr>)"
proof -
  have "loops_ext (length (code c)) (\<lparr>breaks = [], continues = []\<rparr> # loops c) (loops c')"
    using f by (simp add: follows_def)
  then obtain l ls where l: "loops c' = l # ls" "\<forall>p \<in> jumps_of l. length (code c) \<le> p"
    "loops_ext (length (code c)) (loops c) ls"
    by (auto simp: loops_ext_def list_all2_Cons1 jumps_of_def)
  have "follows \<Phi> c \<Phi>' (c'\<lparr>loops := ls\<rparr>)"
    using f l(3) by (simp add: follows_def extends_def env_of_def)
  with l show thesis by (intro that)
qed

lemma inv_pop_loop:
  assumes i: "cg_inv c \<Phi> P (E # L)" and l: "loops c = l # ls"
  shows "cg_inv (c\<lparr>loops := ls\<rparr>) \<Phi> (P \<union> jumps_of l) L" "\<forall>p \<in> jumps_of l. jump_ok (c\<lparr>loops := ls\<rparr>) \<Phi> E p"
proof -
  let ?c = "c\<lparr>loops := ls\<rparr>"
  have J: "P \<union> pending_jumps c = P \<union> jumps_of l \<union> pending_jumps ?c"
    by (auto simp: pending_jumps_def l)
  have env: "env_of ?c = env_of c" by (simp add: env_of_def)
  have "typed ?c \<Phi> (P \<union> jumps_of l \<union> pending_jumps ?c)"
    by (rule typed_same [of c])
       (use i in \<open>simp_all add: cg_inv_def at_end_def J [symmetric]\<close>, simp add: ctx_of_def)
  moreover have "list_all2 (loop_ok ?c \<Phi>) ls L"
  proof (rule loops_ok_jumps)
    show "list_all2 (loop_ok c \<Phi>) ls L" using i by (simp add: cg_inv_def l)
    show "\<forall>E \<in> set L. E \<subseteq> env_of ?c" using cg_inv_env [OF i] by (simp add: env)
    show "jump_ok ?c \<Phi> E p" if "jump_ok c \<Phi> E p" for E p using that by (simp add: jump_ok_def)
  qed
  ultimately show "cg_inv ?c \<Phi> (P \<union> jumps_of l) L"
    using i by (simp add: cg_inv_def env_wf_def at_end_def env)
  show "\<forall>p \<in> jumps_of l. jump_ok ?c \<Phi> E p"
    using i by (simp add: cg_inv_def l loop_ok_def jump_ok_def)
qed

lemma cwp_patch_all:
  assumes "cg_inv c \<Phi> (P \<union> set is) L" "\<forall>p \<in> set is. jump_ok c \<Phi> E p \<and> n \<le> p" "target_ok c \<Phi> t E"
    and Q: "\<And>c'. patched n c c' \<Longrightarrow> cg_inv c' \<Phi> P L \<Longrightarrow> Q c'"
  shows "cwp (patch_all is t c) Q"
  using assms
proof (induction "is" arbitrary: c P Q)
  case Nil
  then show ?case by (simp add: cwp_Inr)
next
  case (Cons i "is")
  have i: "cg_inv c \<Phi> (insert i (P \<union> set is)) L" and j: "jump_ok c \<Phi> E i" and n: "n \<le> i"
    using Cons.prems by simp_all
  have "cwp (patch_all is t c1) Q" if p: "patched n c c1" and i1: "cg_inv c1 \<Phi> (P \<union> set is) L" for c1
    by (rule Cons.IH [OF i1 _ target_ok_patched [OF Cons.prems(3) p]])
       (use Cons.prems(2) jump_ok_patched [OF _ p] Cons.prems(4) patched_trans [OF p] in auto)
  then show ?case
    unfolding patch_all.simps by (intro cwp_sbind close_jump [OF i j n Cons.prems(3)])
qed

lemma finish_typed:
  assumes i: "cg_inv c \<Phi> P (E # L)" and f: "follows \<Phi>1 (push_loop c1) \<Phi> c"
    and t: "target_ok c \<Phi> begin E" and t': "target_ok c \<Phi> end E"
    and Q: "\<And>c'. cg_inv c' \<Phi> P L \<Longrightarrow> follows \<Phi>1 c1 \<Phi> c' \<Longrightarrow> scopes c' = scopes c \<Longrightarrow> Q c'"
  shows "cwp (finish_loop begin end c) Q"
proof -
  obtain l ls where l: "loops c = l # ls" and n: "\<forall>p \<in> jumps_of l. length (code c1) \<le> p"
    and f2: "follows \<Phi>1 c1 \<Phi> (c\<lparr>loops := ls\<rparr>)"
    using follows_pop_loop [OF f] .
  let ?c = "c\<lparr>loops := ls\<rparr>" and ?n = "length (code c1)"
  have i2: "cg_inv ?c \<Phi> (P \<union> set (continues l) \<union> set (breaks l)) L"
    using inv_pop_loop(1) [OF i l] by (simp add: jumps_of_def Un_commute Un_left_commute)
  have j: "jump_ok ?c \<Phi> E p" "?n \<le> p" if "p \<in> set (breaks l) \<union> set (continues l)" for p
    using inv_pop_loop(2) [OF i l] n that by (auto simp: jumps_of_def)
  have T: "target_ok ?c \<Phi> begin E" "target_ok ?c \<Phi> end E" using t t' by (simp_all add: target_ok_def)
  have "cwp (patch_all (continues l) begin c2) Q"
    if p: "patched ?n ?c c2" and i2: "cg_inv c2 \<Phi> (P \<union> set (continues l)) L" for c2
  proof (rule cwp_patch_all [OF i2 _ target_ok_patched [OF T(1) p]])
    show "\<forall>p \<in> set (continues l). jump_ok c2 \<Phi> E p \<and> ?n \<le> p"
      using j jump_ok_patched [OF _ p] by auto
    fix c3 assume p': "patched ?n c2 c3" and i3: "cg_inv c3 \<Phi> P L"
    show "Q c3"
      by (rule Q [OF i3 patched_follows [OF f2 patched_trans [OF p p']]])
         (simp add: patched_sel(1) [OF p'] patched_sel(1) [OF p])
  qed
  then show ?thesis
    unfolding finish_loop_def l list.case
    by (intro cwp_sbind cwp_patch_all [OF i2 _ T(2), where n = ?n]) (use j in auto)
qed

lemma follows_push_loop: "follows \<Phi> c \<Phi>1 c1 \<Longrightarrow> follows \<Phi> (push_loop c) \<Phi>1 (push_loop c1)"
  by (simp add: follows_def extends_def loops_ext_def jumps_of_def)

text \<open>
  The end of a loop with the exit branch \<open>stop\<close>, when there is a condition: what follows the
  back jump is reached from \<open>stop\<close> and from the \<open>break\<close>s.
\<close>

lemma cwp_loop_end:
  assumes i: "cg_inv c3 \<Phi>3 (set_option stop \<union> P) (env_of c # L)"
    and f: "follows \<Phi> (push_loop c) \<Phi>3 c3" and s: "scopes c3 = scopes c"
    and o: "\<And>b. stop = Some b \<Longrightarrow> cond_open c3 \<Phi>3 b (env_of c) \<and> length (code c) \<le> b"
    and begin_ok: "target_ok c3 \<Phi>3 begin_at (env_of c)" and cont: "target_ok c3 \<Phi>3 continue_at (env_of c)"
    and Q: "\<And>c' \<Phi>'. cg_inv c' \<Phi>' P L \<Longrightarrow> follows \<Phi> c \<Phi>' c' \<Longrightarrow> scopes c' = scopes c \<Longrightarrow> Q c'"
    and c4: "c4 = emit_op (OJump begin_at) sp c3"
  shows "cwp (sbind (case stop of Some stop \<Rightarrow> patch stop (length (code c4)) c4 | None \<Rightarrow> Inr c4)
      (finish_loop continue_at (length (code c4)))) Q"
proof -
  have env: "env_of c' = env_of c" if "scopes c' = scopes c" for c' using that by (simp add: env_of_def)
  obtain \<Phi>4 where i4: "cg_inv c4 \<Phi>4 (set_option stop \<union> P) (env_of c # L)" and f4: "follows \<Phi>3 c3 \<Phi>4 c4"
    using emit_back_jump [OF i, of begin_at sp] begin_ok env [OF s] unfolding c4 by auto
  let ?e = "length (code c4)"
  have s4: "scopes c4 = scopes c" using s c4 by simp
  have e4: "target_ok c4 \<Phi>4 ?e (env_of c)" using target_ok_end [OF i4] env [OF s4] by simp
  note t4 = target_ok_follows [OF cont f4] and f4' = follows_trans [OF f f4]
  have fin: "cwp (finish_loop continue_at ?e c5) Q"
    if p: "patched (length (code c)) c4 c5" and i5: "cg_inv c5 \<Phi>4 P (env_of c # L)" for c5
  proof (rule finish_typed [OF i5 _ target_ok_patched [OF t4 p] target_ok_patched [OF e4 p]])
    show "follows \<Phi> (push_loop c) \<Phi>4 c5" by (rule patched_follows [OF f4']) (simp add: p)
    show "Q c'" if "cg_inv c' \<Phi>4 P L" "follows \<Phi> c \<Phi>4 c'" "scopes c' = scopes c5" for c'
      using that patched_sel(1) [OF p] s4 by (intro Q) simp_all
  qed
  show ?thesis
  proof (cases stop)
    case None
    with fin [OF patched_refl] i4 show ?thesis by simp
  next
    case (Some b)
    have "cwp (patch b ?e c4) (\<lambda>c. cwp (finish_loop continue_at ?e c) Q)"
    proof (rule close_condition [OF _ _ _ e4 fin])
      show "cg_inv c4 \<Phi>4 (insert b P) (env_of c # L)" using i4 Some by simp
      show "cond_open c4 \<Phi>4 b (env_of c)" using o [OF Some] cond_open_follows [OF _ f4] by blast
      show "length (code c) \<le> b" using o [OF Some] by simp
    qed
    with Some show ?thesis by (simp add: cwp_sbind)
  qed
qed

lemma while_typed:
  assumes e: "ok_expr ms d e" and b: "stmt_typed ms d body" "\<not> is_let body"
  shows "stmt_typed ms d (Stmt (SWhile e body) sp)"
proof (rule stmt_typedI)
  fix c \<Phi> P L
  assume i: "cg_inv c \<Phi> P L" and ms: "max_string_bytes (lims c) = ms" and d: "d \<le> stack_bound (lims c)"
  let ?Q = "\<lambda>c'. \<exists>\<Phi>'. cg_inv c' \<Phi>' P L \<and> follows \<Phi> c \<Phi>' c' \<and> scopes c' = scopes c"
  have env: "env_of c' = env_of c" if "scopes c' = scopes c" for c' using that by (simp add: env_of_def)
  have t: "target_ok c \<Phi> (length (code c)) (env_of c)" by (rule target_ok_end [OF i]) simp
  have "cwp (sbind (comp_stmt body (push_loop c1)) (\<lambda>c3.
      let c4 = emit_op (OJump (length (code c))) sp c3 in
      sbind (patch stop (length (code c4)) c4) (finish_loop (length (code c)) (length (code c4))))) ?Q"
    if i1: "cg_inv c1 \<Phi>1 (insert stop P) L" and f1: "follows \<Phi> c \<Phi>1 c1" and s1: "scopes c1 = scopes c"
      and o1: "cond_open c1 \<Phi>1 stop (env_of c)" and n: "length (code c) \<le> stop" for c1 \<Phi>1 stop
  proof (rule cwp_sbind, rule stmt_typedD [OF b(1) inv_push_loop [OF i1]])
    show "max_string_bytes (lims (push_loop c1)) = ms" "d \<le> stack_bound (lims (push_loop c1))"
      using ms d follows_lims [OF f1] by simp_all
    fix c3 \<Phi>3
    assume i3: "cg_inv c3 \<Phi>3 (insert stop P) (env_of c1 # L)" and f3: "follows \<Phi>1 (push_loop c1) \<Phi>3 c3"
      and s3: "\<not> is_let body \<Longrightarrow> scopes c3 = scopes (push_loop c1)"
    note f = follows_trans [OF follows_push_loop [OF f1] f3]
    have t3: "target_ok c3 \<Phi>3 (length (code c)) (env_of c)"
      by (rule target_ok_follows [OF _ f]) (use t in \<open>simp add: target_ok_def\<close>)
    have o3: "cond_open c3 \<Phi>3 stop (env_of c)"
      by (rule cond_open_follows [OF _ f3]) (use o1 in \<open>simp add: cond_open_def\<close>)
    have "cwp (sbind (case Some stop of Some stop \<Rightarrow> patch stop (length (code c4)) c4 | None \<Rightarrow> Inr c4)
        (finish_loop (length (code c)) (length (code c4)))) ?Q"
      if "c4 = emit_op (OJump (length (code c))) sp c3" for c4
      by (rule cwp_loop_end [OF _ f _ _ t3 t3 _ that])
         (use i3 s3 b(2) s1 env [OF s1] o3 n in auto)
    then show "cwp (let c4 = emit_op (OJump (length (code c))) sp c3 in
      sbind (patch stop (length (code c4)) c4) (finish_loop (length (code c)) (length (code c4)))) ?Q"
      by (simp add: Let_def)
  qed
  then have "cwp (sbind (comp_condition e c) (\<lambda>(stop, c1). sbind (comp_stmt body (push_loop c1)) (\<lambda>c3.
      let c4 = emit_op (OJump (length (code c))) sp c3 in
      sbind (patch stop (length (code c4)) c4) (finish_loop (length (code c)) (length (code c4)))))) ?Q"
    by (intro cwp_sbind cwp_comp_condition [OF e i ms d]) simp
  then show "cwp (comp_stmt (Stmt (SWhile e body) sp) c) (\<lambda>c'. \<exists>\<Phi>'. cg_inv c' \<Phi>' P L \<and>
      follows \<Phi> c \<Phi>' c' \<and> (\<not> is_let (Stmt (SWhile e body) sp) \<longrightarrow> scopes c' = scopes c))"
    by (simp add: Let_def)
qed

text \<open>A \<open>for\<close> loop from its step on, with the body compiled.\<close>

definition comp_step :: "stmt option \<Rightarrow> compiler \<Rightarrow> compiler res" where
  "comp_step step c =
     (case step of
        Some s \<Rightarrow> if is_let s then Inl (err Syntax_error (sspan s)) else comp_stmt s c
      | None \<Rightarrow> Inr c)"

definition for_end :: "nat \<Rightarrow> nat option \<Rightarrow> span \<Rightarrow> stmt option \<Rightarrow> compiler \<Rightarrow> compiler res" where
  "for_end begin_at stop sp step c2 =
     sbind (comp_step step c2) (\<lambda>c3.
     let c4 = emit_op (OJump begin_at) sp c3 in
     sbind (case stop of Some stop \<Rightarrow> patch stop (length (code c4)) c4 | None \<Rightarrow> Inr c4)
       (finish_loop (length (code c2)) (length (code c4))))"

lemma for_end_typed:
  assumes step: "\<And>s. step = Some s \<Longrightarrow> stmt_typed ms d s"
    and i: "cg_inv c2 \<Phi>2 (set_option stop \<union> P) (env_of c # L)" and f: "follows \<Phi> (push_loop c) \<Phi>2 c2"
    and s2: "scopes c2 = scopes c" and ms: "max_string_bytes (lims c) = ms" and d: "d \<le> stack_bound (lims c)"
    and o: "\<And>b. stop = Some b \<Longrightarrow> cond_open c2 \<Phi>2 b (env_of c) \<and> length (code c) \<le> b"
    and begin_ok: "target_ok c2 \<Phi>2 begin_at (env_of c)"
    and Q: "\<And>c' \<Phi>'. cg_inv c' \<Phi>' P L \<Longrightarrow> follows \<Phi> c \<Phi>' c' \<Longrightarrow> scopes c' = scopes c \<Longrightarrow> Q c'"
  shows "cwp (for_end begin_at stop sp step c2) Q"
proof -
  have env: "env_of c2 = env_of c" using s2 by (simp add: env_of_def)
  have "cwp (comp_step step c2) (\<lambda>c3. \<exists>\<Phi>3. cg_inv c3 \<Phi>3 (set_option stop \<union> P) (env_of c # L) \<and>
      follows \<Phi>2 c2 \<Phi>3 c3 \<and> scopes c3 = scopes c)"
  proof (cases step)
    case None
    then show ?thesis using i s2 by (auto simp: comp_step_def intro!: cwp_Inr)
  next
    case (Some s)
    show ?thesis
      unfolding comp_step_def Some option.case
      by (intro cwp_if cwp_err stmt_typedD [OF step [OF Some] i])
         (use s2 ms d follows_lims [OF f] in auto)
  qed
  then show ?thesis unfolding for_end_def
  proof (rule cwp_sbind [OF cwp_mono], elim exE conjE)
    fix c3 \<Phi>3
    assume i3: "cg_inv c3 \<Phi>3 (set_option stop \<union> P) (env_of c # L)" and f3: "follows \<Phi>2 c2 \<Phi>3 c3"
      and s3: "scopes c3 = scopes c"
    have t: "target_ok c3 \<Phi>3 (length (code c2)) (env_of c)"
      by (rule target_ok_follows [OF target_ok_end [OF i] f3]) (simp add: env)
    have o3: "cond_open c3 \<Phi>3 b (env_of c) \<and> length (code c) \<le> b" if "stop = Some b" for b
      using o [OF that] cond_open_follows [OF _ f3] by blast
    show "cwp (let c4 = emit_op (OJump begin_at) sp c3 in
       sbind (case stop of Some stop \<Rightarrow> patch stop (length (code c4)) c4 | None \<Rightarrow> Inr c4)
         (finish_loop (length (code c2)) (length (code c4)))) Q"
      unfolding Let_def
      by (rule cwp_loop_end [OF i3 follows_trans [OF f f3] s3 o3 target_ok_follows [OF begin_ok f3] t Q refl])
  qed
qed

definition comp_for_condition :: "expr option \<Rightarrow> compiler \<Rightarrow> (nat option \<times> compiler) res" where
  "comp_for_condition condition c =
     (case condition of
        Some e \<Rightarrow> sbind (comp_condition e c) (\<lambda>(stop, c). Inr (Some stop, c))
      | None \<Rightarrow> Inr (None, c))"

lemma comp_for_eq:
  "comp_stmt (Stmt (SFor init condition step body) sp) c =
     sbind (case init of Some i \<Rightarrow> comp_stmt i (push_scope c) | None \<Rightarrow> Inr (push_scope c)) (\<lambda>c0.
     sbind (sbind (comp_for_condition condition c0) (\<lambda>(stop, c1).
            sbind (comp_stmt body (push_loop c1)) (for_end (length (code c0)) stop sp step)))
       (\<lambda>c. Inr (pop_scope c)))"
  by (simp add: sbind_assoc comp_for_condition_def for_end_def comp_step_def Let_def case_prod_beta
      cong: sbind_cong option.case_cong)

lemma for_loop_typed:
  assumes e: "\<And>e. condition = Some e \<Longrightarrow> ok_expr ms d e" and b: "stmt_typed ms d body" "\<not> is_let body"
    and step: "\<And>s. step = Some s \<Longrightarrow> stmt_typed ms d s"
    and i: "cg_inv c \<Phi> P L" and ms: "max_string_bytes (lims c) = ms" and d: "d \<le> stack_bound (lims c)"
    and Q: "\<And>c' \<Phi>'. cg_inv c' \<Phi>' P L \<Longrightarrow> follows \<Phi> c \<Phi>' c' \<Longrightarrow> scopes c' = scopes c \<Longrightarrow> Q c'"
  shows "cwp (sbind (comp_for_condition condition c) (\<lambda>(stop, c1).
     sbind (comp_stmt body (push_loop c1)) (for_end (length (code c)) stop sp step))) Q"
proof -
  have cond: "cwp (comp_for_condition condition c) (\<lambda>(stop, c1). \<exists>\<Phi>1. cg_inv c1 \<Phi>1 (set_option stop \<union> P) L \<and>
      follows \<Phi> c \<Phi>1 c1 \<and> scopes c1 = scopes c \<and>
      (\<forall>b. stop = Some b \<longrightarrow> cond_open c1 \<Phi>1 b (env_of c) \<and> length (code c) \<le> b))"
  proof (cases condition)
    case None
    then show ?thesis using i by (auto simp: comp_for_condition_def intro!: cwp_Inr)
  next
    case (Some e')
    show ?thesis
      unfolding comp_for_condition_def Some option.case
      by (rule cwp_sbind, rule cwp_comp_condition [OF e [OF Some] i ms d]) (auto intro!: cwp_Inr)
  qed
  have t: "target_ok c \<Phi> (length (code c)) (env_of c)" by (rule target_ok_end [OF i]) simp
  have "cwp (sbind (comp_stmt body (push_loop c1)) (for_end (length (code c)) stop sp step)) Q"
    if i1: "cg_inv c1 \<Phi>1 (set_option stop \<union> P) L" and f1: "follows \<Phi> c \<Phi>1 c1" and s1: "scopes c1 = scopes c"
      and o1: "\<And>b. stop = Some b \<Longrightarrow> cond_open c1 \<Phi>1 b (env_of c) \<and> length (code c) \<le> b" for stop c1 \<Phi>1
  proof (rule cwp_sbind, rule stmt_typedD [OF b(1) inv_push_loop [OF i1]])
    show "max_string_bytes (lims (push_loop c1)) = ms" "d \<le> stack_bound (lims (push_loop c1))"
      using ms d follows_lims [OF f1] by simp_all
    fix c2 \<Phi>2
    assume i2: "cg_inv c2 \<Phi>2 (set_option stop \<union> P) (env_of c1 # L)" and f2: "follows \<Phi>1 (push_loop c1) \<Phi>2 c2"
      and s2: "\<not> is_let body \<Longrightarrow> scopes c2 = scopes (push_loop c1)"
    have env: "env_of c1 = env_of c" using s1 by (simp add: env_of_def)
    note f = follows_trans [OF follows_push_loop [OF f1] f2]
    show "cwp (for_end (length (code c)) stop sp step c2) Q"
    proof (rule for_end_typed [OF step i2 [unfolded env] f _ ms d _ _ Q])
      show "scopes c2 = scopes c" using s2 b(2) s1 by simp
      show "target_ok c2 \<Phi>2 (length (code c)) (env_of c)"
        by (rule target_ok_follows [OF _ f]) (use t in \<open>simp add: target_ok_def\<close>)
      show "cond_open c2 \<Phi>2 b (env_of c) \<and> length (code c) \<le> b" if "stop = Some b" for b
        using o1 [OF that] cond_open_follows [OF _ f2, of b] by (simp add: cond_open_def)
    qed
  qed
  then show ?thesis
    by (intro cwp_sbind cwp_mono [OF cond]) auto
qed

lemma for_typed:
  assumes init: "\<And>s. init = Some s \<Longrightarrow> stmt_typed ms d s"
    and e: "\<And>e. condition = Some e \<Longrightarrow> ok_expr ms d e" and b: "stmt_typed ms d body" "\<not> is_let body"
    and step: "\<And>s. step = Some s \<Longrightarrow> stmt_typed ms d s"
  shows "stmt_typed ms d (Stmt (SFor init condition step body) sp)"
proof (rule stmt_typedI)
  fix c \<Phi> P L
  assume i: "cg_inv c \<Phi> P L" and ms: "max_string_bytes (lims c) = ms" and d: "d \<le> stack_bound (lims c)"
  have "cwp (case init of Some i \<Rightarrow> comp_stmt i (push_scope c) | None \<Rightarrow> Inr (push_scope c))
      (\<lambda>c0. \<exists>\<Phi>0. cg_inv c0 \<Phi>0 P L \<and> follows \<Phi> (push_scope c) \<Phi>0 c0)"
  proof (cases init)
    case None
    then show ?thesis using inv_push_scope [OF i] by (auto intro!: cwp_Inr)
  next
    case (Some s)
    then show ?thesis
      by simp (rule stmt_typedD [OF init [OF Some] inv_push_scope [OF i]], use ms d in auto)
  qed
  moreover have "cwp (sbind (sbind (comp_for_condition condition c0) (\<lambda>(stop, c1).
            sbind (comp_stmt body (push_loop c1)) (for_end (length (code c0)) stop sp step)))
       (\<lambda>c. Inr (pop_scope c))) (\<lambda>c'. \<exists>\<Phi>'. cg_inv c' \<Phi>' P L \<and> follows \<Phi> c \<Phi>' c' \<and> scopes c' = scopes c)"
    if i0: "cg_inv c0 \<Phi>0 P L" and f0: "follows \<Phi> (push_scope c) \<Phi>0 c0" for c0 \<Phi>0
  proof (rule cwp_sbind, rule for_loop_typed [OF e b step i0])
    show "max_string_bytes (lims c0) = ms" "d \<le> stack_bound (lims c0)"
      using ms d follows_lims [OF f0] by simp_all
    fix c' \<Phi>' assume i': "cg_inv c' \<Phi>' P L" and f': "follows \<Phi>0 c0 \<Phi>' c'"
    show "cwp (Inr (pop_scope c')) (\<lambda>c'. \<exists>\<Phi>'. cg_inv c' \<Phi>' P L \<and> follows \<Phi> c \<Phi>' c' \<and> scopes c' = scopes c)"
      by (rule cwp_Inr, rule inv_pop_scope [OF i i' follows_trans [OF f0 f']]) blast
  qed
  ultimately show "cwp (comp_stmt (Stmt (SFor init condition step body) sp) c) (\<lambda>c'. \<exists>\<Phi>'. cg_inv c' \<Phi>' P L \<and>
      follows \<Phi> c \<Phi>' c' \<and> (\<not> is_let (Stmt (SFor init condition step body) sp) \<longrightarrow> scopes c' = scopes c))"
    unfolding comp_for_eq is_let.simps
    by (simp only: not_False_eq_True simp_thms) (rule cwp_sbind, erule cwp_mono, blast)
qed

section \<open>Programs\<close>

lemma is_simple_not_let: "is_block s \<or> is_if s \<Longrightarrow> \<not> is_let s"
  by (cases s rule: is_let.cases) auto

lemma compiled_stmt_typed:
  "wf_stmt ms d s \<Longrightarrow> stmt_typed ms d s"
  "wf_stmts ms d ss \<Longrightarrow> stmts_typed ms d ss"
  "wf_stmt_option ms d os \<Longrightarrow> (\<forall>s. os = Some s \<longrightarrow> stmt_typed ms d s)"
proof (induction ms d s and ms d ss and ms d os rule: wf_stmt_wf_stmts_wf_stmt_option.induct)
  case (8 ms d sp)
  then show ?case using loop_jump_typed by (auto intro: stmt_typedI)
next
  case (9 ms d sp)
  then show ?case using loop_jump_typed by (auto intro: stmt_typedI)
qed (auto intro!: let_typed assign_typed expression_typed block_typed if_typed while_typed for_typed
       empty_typed stmts_Nil_typed stmts_Cons_typed is_simple_not_let)

text \<open>
  Well-typed programs: some assignment of state types to the positions of the code, empty at
  the start and with an empty stack at the end, to which every instruction conforms.
\<close>

definition prog_ctx :: "program \<Rightarrow> tctx" where
  "prog_ctx p = \<lparr>t_params = p_params p, t_prompts = set (bt_keys (p_prompts p)),
     t_vars = p_variables p, t_max_str = max_string_bytes (p_limits p)\<rparr>"

definition typed_by :: "program \<Rightarrow> (nat \<Rightarrow> stype) \<Rightarrow> bool" where
  "typed_by p \<Phi> \<longleftrightarrow>
     (\<forall>k \<le> length (p_code p). length (fst (\<Phi> k)) \<le> stack_bound (p_limits p)) \<and>
     (\<forall>k < length (p_code p). wt (prog_ctx p) (p_code p) \<Phi> k) \<and>
     \<Phi> 0 = ([], {}) \<and> fst (\<Phi> (length (p_code p))) = []"

definition typed_program :: "program \<Rightarrow> bool" where
  "typed_program p \<longleftrightarrow> (\<exists>\<Phi>. typed_by p \<Phi>)"

lemma stack_bound_nesting: "m \<le> 128 \<Longrightarrow> max_nesting l = m \<Longrightarrow> Suc m \<le> stack_bound l"
  by (simp add: stack_bound_def saturating_add_u64_def saturating_mul_u64_def U64_MAX_def)

lemma cg_inv_new: "cg_inv (compiler_new ps l) (\<lambda>_. ([], {})) {} []"
  by (simp add: cg_inv_def compiler_new_def env_wf_def env_of_def bt_empty_def scope_env_def
      at_end_def typed_def pending_jumps_def single_valued_def)

lemma cwp_compile_statements:
  assumes w: "wf_stmts (max_string_bytes l) d ss" and d: "d \<le> stack_bound l"
  shows "cwp (compile_statements ss ps l)
    (\<lambda>p. typed_program p \<and> p_variables p \<le> max_variables l \<and> p_limits p = l \<and> p_params p = ps)"
proof -
  have "typed_by \<lparr>p_code = code c, p_params = params c, p_prompts = prompts c,
      p_variables = n_variables c, p_limits = l\<rparr> \<Phi> \<and> n_variables c \<le> max_variables l \<and> params c = ps"
    if i: "cg_inv c \<Phi> {} []" and f: "follows (\<lambda>_. ([], {})) (compiler_new ps l) \<Phi> c" for c \<Phi>
  proof -
    have l: "lims c = l" and p: "params c = ps"
      using f by (simp_all add: follows_def extends_def compiler_new_def)
    have z: "\<Phi> 0 = ([], {})" using f by (simp add: follows_def extends_def compiler_new_def)
    have t: "typed c \<Phi> {}" "fst (\<Phi> (length (code c))) = []" "n_variables c \<le> max_variables l"
      using i l by (auto simp: cg_inv_def at_end_def pending_jumps_def)
    show ?thesis using t z p unfolding typed_by_def typed_def
      by (simp add: l prog_ctx_def ctx_of_def)
  qed
  then show ?thesis
    unfolding compile_statements_def
    by (intro cwp_sbind stmts_typedD [OF compiled_stmt_typed(2) [OF w] cg_inv_new] cwp_Inr)
       (use d in \<open>auto simp: compiler_new_def typed_program_def\<close>)
qed

lemma cwp_each_ok: "(\<And>x. cwp (f x) (\<lambda>_. True)) \<Longrightarrow> cwp (each_ok f xs) (\<lambda>_. True)"
  by (induction xs) (auto intro!: cwp_Inr cwp_sbind elim: cwp_mono)

lemma compile_total:
  "cwp (compile source ps l)
    (\<lambda>p. typed_program p \<and> p_variables p \<le> max_variables l \<and> p_limits p = l \<and> p_params p = ps)"
proof -
  have p: "cwp (sbind (parse source l) (\<lambda>ss. compile_statements ss ps l))
      (\<lambda>p. typed_program p \<and> p_variables p \<le> max_variables l \<and> p_limits p = l \<and> p_params p = ps)"
    if "max_nesting l \<le> 128"
  proof (cases "parse source l")
    case (Inl f)
    then show ?thesis using crash_free_parse [of source l] by (simp add: cwp_def crash_free_def)
  next
    case (Inr ss)
    show ?thesis unfolding Inr sbind_simps
      by (rule cwp_compile_statements [OF parse_wf [OF Inr] stack_bound_nesting [OF that refl]])
  qed
  show ?thesis unfolding compile_def
    by (intro cwp_if cwp_err cwp_sbind cwp_mono [OF cwp_each_ok] cwp_guard TrueI p) simp_all
qed

end
