(* ===== verification/MacroSafety.thy ===== *)
theory MacroSafety
  imports MacroStmtTyping
begin

text \<open>
  A well-typed program runs safely: whatever the driver does between the steps, the machine
  never panics, never finds its own invariants broken (\<open>vm_invariant\<close>, \<open>stack_limit\<close>,
  \<open>unknown_watcher\<close>), and completes with an empty stack only.
\<close>

section \<open>Results of actions\<close>

definition awp :: "(fault \<Rightarrow> vm \<Rightarrow> bool) \<Rightarrow> 'a act \<Rightarrow> vm \<Rightarrow> ('a \<Rightarrow> vm \<Rightarrow> bool) \<Rightarrow> bool" where
  "awp E m s Q \<longleftrightarrow> (case m s of (Inl f, s') \<Rightarrow> E f s' | (Inr x, s') \<Rightarrow> Q x s')"

named_theorems awp_intros \<open>rules that reduce an action to its parts\<close>

lemma awp_ret [awp_intros]: "Q x s \<Longrightarrow> awp E (ret x) s Q"
  by (simp add: awp_def ret_def)

lemma awp_vbind [awp_intros]: "awp E m s (\<lambda>x s. awp E (f x) s Q) \<Longrightarrow> awp E (vbind m f) s Q"
  by (auto simp: awp_def vbind_def split: prod.splits sum.splits)

lemma awp_error [awp_intros]: "E (err c (last_span s)) s \<Longrightarrow> awp E (vm_error c) s Q"
  by (simp add: awp_def vm_error_def)

lemma awp_update [awp_intros]: "Q () (f s) \<Longrightarrow> awp E (update f) s Q"
  by (simp add: awp_def update_def)

lemma awp_gets [awp_intros]: "Q (f s) s \<Longrightarrow> awp E (gets f) s Q"
  by (simp add: awp_def gets_def)

lemma awp_check [awp_intros]:
  "(P s \<Longrightarrow> Q () s) \<Longrightarrow> (\<not> P s \<Longrightarrow> E (err c (last_span s)) s) \<Longrightarrow> awp E (check P c) s Q"
  by (simp add: awp_def check_def ret_def vm_error_def)

lemma awp_or_error [awp_intros]:
  "(\<And>y. x = Some y \<Longrightarrow> Q y s) \<Longrightarrow> (x = None \<Longrightarrow> E (err c (last_span s)) s) \<Longrightarrow> awp E (or_error x c) s Q"
  by (auto simp: awp_def or_error_def ret_def vm_error_def split: option.splits)

lemma awp_or_panic [awp_intros]:
  "(\<And>y. x = Some y \<Longrightarrow> Q y s) \<Longrightarrow> (x = None \<Longrightarrow> E Panic s) \<Longrightarrow> awp E (or_panic x) s Q"
  by (auto simp: awp_def or_panic_def ret_def vm_panic_def split: option.splits)

lemma awp_push [awp_intros]: "Q () (s\<lparr>stack := v # stack s\<rparr>) \<Longrightarrow> awp E (push v) s Q"
  by (simp add: push_def awp_update)

lemma awp_push_bool [awp_intros]:
  "Q () (s\<lparr>stack := Sc (VBoolean b) # stack s\<rparr>) \<Longrightarrow> awp E (push_bool b) s Q"
  by (simp add: push_bool_def awp_push)

lemma awp_if [awp_intros]:
  "(b \<Longrightarrow> awp E m s Q) \<Longrightarrow> (\<not> b \<Longrightarrow> awp E n s Q) \<Longrightarrow> awp E (if b then m else n) s Q"
  by simp

lemma awp_mono:
  "awp E m s Q \<Longrightarrow> (\<And>x s. Q x s \<Longrightarrow> Q' x s) \<Longrightarrow> (\<And>f s. E f s \<Longrightarrow> E' f s) \<Longrightarrow> awp E' m s Q'"
  by (auto simp: awp_def split: prod.splits sum.splits)

text \<open>Popping from a stack whose top is known.\<close>

lemma awp_pop: "stack s = v # vs \<Longrightarrow> Q v (s\<lparr>stack := vs\<rparr>) \<Longrightarrow> awp E pop s Q"
  by (simp add: awp_def pop_def ret_def)

lemma awp_pops:
  "stack s = Sc x # vs \<Longrightarrow> Q' x (s\<lparr>stack := vs\<rparr>) \<Longrightarrow> awp E pop_scalar s Q'"
  "stack s = Sc (VInteger i) # vs \<Longrightarrow> Qi i (s\<lparr>stack := vs\<rparr>) \<Longrightarrow> awp E pop_integer s Qi"
  "stack s = Sc (VBoolean b) # vs \<Longrightarrow> Qb b (s\<lparr>stack := vs\<rparr>) \<Longrightarrow> awp E pop_bool s Qb"
  "stack s = Sc (VString t) # vs \<Longrightarrow> Qs t (s\<lparr>stack := vs\<rparr>) \<Longrightarrow> awp E pop_string s Qs"
  "stack s = Wt w # vs \<Longrightarrow> Qw w (s\<lparr>stack := vs\<rparr>) \<Longrightarrow> awp E pop_watcher s Qw"
  by (simp_all add: awp_def pop_def ret_def pop_scalar_def pop_integer_def pop_bool_def pop_string_def
      pop_watcher_def vbind_def)

lemma awp_store_var:
  "stack s = v # vs \<Longrightarrow> i < length (variables s) \<Longrightarrow>
   Q () (s\<lparr>stack := vs, variables := (variables s)[i := Some v]\<rparr>) \<Longrightarrow> awp E (store_var i) s Q"
  by (simp add: awp_def store_var_def pop_def ret_def vbind_def)

lemma awp_peek_bool: "stack s = Sc (VBoolean b) # vs \<Longrightarrow> Q b s \<Longrightarrow> awp E peek_bool s Q"
  by (simp add: awp_def peek_bool_def ret_def)

section \<open>Conformance\<close>

fun rt_ok :: "nat \<Rightarrow> nat \<Rightarrow> ty \<Rightarrow> rt_value \<Rightarrow> bool" where
  "rt_ok ms n (Scalar t) (Sc v) = (value_type v = t \<and> wf_val ms v)"
| "rt_ok ms n Watcher (Wt w) = (w < n)"
| "rt_ok ms n _ _ = False"

text \<open>\<open>conforms p \<sigma> s\<close>: the state \<open>s\<close> of a machine that runs \<open>p\<close> has the state type \<open>\<sigma>\<close>.\<close>

definition stack_ok :: "nat \<Rightarrow> ty list \<Rightarrow> vm \<Rightarrow> bool" where
  "stack_ok ms ST s \<longleftrightarrow> list_all2 (rt_ok ms (length (watchers s))) ST (stack s)"

definition env_ok :: "nat \<Rightarrow> env \<Rightarrow> vm \<Rightarrow> bool" where
  "env_ok ms A s \<longleftrightarrow>
     (\<forall>(i, t) \<in> A. i < length (variables s) \<and>
        (\<exists>v. variables s ! i = Some v \<and> rt_ok ms (length (watchers s)) t v))"

definition inputs_ok :: "program \<Rightarrow> vm \<Rightarrow> bool" where
  "inputs_ok p s \<longleftrightarrow>
     prog s = p \<and> max_string_bytes (p_limits p) < U64_MAX \<and> length (variables s) = p_variables p \<and>
     (\<forall>x t. bt_get (p_params p) x = Some t \<longrightarrow>
        (\<exists>v. bt_get (vm_args s) x = Some v \<and> value_type v = t \<and> wf_val (max_string_bytes (p_limits p)) v)) \<and>
     (\<forall>x \<in> set (bt_keys (p_prompts p)).
        (\<exists>t. bt_get (vm_prompts s) x = Some t \<and> str_len t \<le> max_string_bytes (p_limits p)))"

definition conforms :: "program \<Rightarrow> stype \<Rightarrow> vm \<Rightarrow> bool" where
  "conforms p \<sigma> s \<longleftrightarrow> inputs_ok p s \<and> stack_ok (max_string_bytes (p_limits p)) (fst \<sigma>) s \<and>
     env_ok (max_string_bytes (p_limits p)) (snd \<sigma>) s"

text \<open>
  While an effect is pending the stack lacks the value its completion will push: a watcher
  for \<open>watch\<close>, a boolean for \<open>wait\<close>.
\<close>

definition waiting :: "program \<Rightarrow> effect \<Rightarrow> stype \<Rightarrow> vm \<Rightarrow> bool" where
  "waiting p e \<sigma> s \<longleftrightarrow>
     (case eff_kind e of
        Command _ _ \<Rightarrow> conforms p \<sigma> s
      | Delay _ \<Rightarrow> conforms p \<sigma> s
      | Watch w _ \<Rightarrow> w < length (watchers s) \<and> (\<exists>ST. fst \<sigma> = Watcher # ST \<and> conforms p (ST, snd \<sigma>) s)
      | Wait w _ is_strict \<Rightarrow> w < length (watchers s) \<and>
          (if is_strict then conforms p \<sigma> s
           else \<exists>ST. fst \<sigma> = Scalar TBoolean # ST \<and> conforms p (ST, snd \<sigma>) s))"

definition internal :: "ecode \<Rightarrow> bool" where
  "internal c \<longleftrightarrow> c \<in> {Vm_invariant, Stack_limit, Unknown_watcher}"

fun clean :: "fault \<Rightarrow> bool" where
  "clean (Fail e) = (\<not> internal (err_code e))"
| "clean _ = False"

lemma clean_err [simp]: "clean (err c sp) \<longleftrightarrow> \<not> internal c"
  by (simp add: err_def)

lemma rt_ok_scalar: "rt_ok ms n (Scalar t) v \<longleftrightarrow> (\<exists>x. v = Sc x \<and> value_type x = t \<and> wf_val ms x)"
  by (cases v) auto

lemma rt_ok_watcher: "rt_ok ms n Watcher v \<longleftrightarrow> (\<exists>w. v = Wt w \<and> w < n)"
  by (cases v) auto

lemma rt_ok_mono: "rt_ok ms n t v \<Longrightarrow> n \<le> m \<Longrightarrow> rt_ok ms m t v"
  by (cases "(ms, n, t, v)" rule: rt_ok.cases) auto

lemma value_type_iff:
  "value_type x = TString \<longleftrightarrow> (\<exists>s. x = VString s)"
  "value_type x = TInteger \<longleftrightarrow> (\<exists>i. x = VInteger i)"
  "value_type x = TBoolean \<longleftrightarrow> (\<exists>b. x = VBoolean b)"
  by (cases x; simp)+

lemma conforms_leq: "conforms p \<sigma> s \<Longrightarrow> leq \<sigma> \<tau> \<Longrightarrow> conforms p \<tau> s"
  by (auto simp: conforms_def leq_def env_ok_def)

text \<open>Updates of the state that leave its type alone, or change it as an instruction does.\<close>

lemma inputs_ok_cong:
  "prog s' = prog s \<Longrightarrow> length (variables s') = length (variables s) \<Longrightarrow> vm_args s' = vm_args s \<Longrightarrow>
   vm_prompts s' = vm_prompts s \<Longrightarrow> inputs_ok p s' = inputs_ok p s"
  by (simp add: inputs_ok_def)

lemma env_ok_cong:
  "variables s' = variables s \<Longrightarrow> length (watchers s') = length (watchers s) \<Longrightarrow> env_ok ms A s' = env_ok ms A s"
  by (simp add: env_ok_def)

lemma stack_ok_cong:
  "stack s' = stack s \<Longrightarrow> length (watchers s') = length (watchers s) \<Longrightarrow> stack_ok ms ST s' = stack_ok ms ST s"
  by (simp add: stack_ok_def)

lemmas conforms_congs = inputs_ok_cong env_ok_cong stack_ok_cong

lemma conforms_stack:
  assumes "conforms p (ST, A) s"
    "list_all2 (rt_ok (max_string_bytes (p_limits p)) (length (watchers s))) ST' vs"
  shows "conforms p (ST', A) (s\<lparr>stack := vs\<rparr>)"
  using assms env_ok_cong [of "s\<lparr>stack := vs\<rparr>" s] inputs_ok_cong [of "s\<lparr>stack := vs\<rparr>" s]
  by (simp add: conforms_def stack_ok_def)

lemma conforms_pushI:
  "conforms p (ST, A) s \<Longrightarrow> rt_ok (max_string_bytes (p_limits p)) (length (watchers s)) t v \<Longrightarrow>
   conforms p (t # ST, A) (s\<lparr>stack := v # stack s\<rparr>)"
  by (rule conforms_stack) (auto simp: conforms_def stack_ok_def)

lemma conforms_eq:
  "conforms p \<sigma> s' = conforms p \<sigma> s"
  if "prog s' = prog s" "variables s' = variables s" "vm_args s' = vm_args s" "vm_prompts s' = vm_prompts s"
    "stack s' = stack s" "length (watchers s') = length (watchers s)"
  using that inputs_ok_cong [of s' s] env_ok_cong [of s' s] stack_ok_cong [of s' s]
  by (simp add: conforms_def)

lemma conforms_frame [simp]:
  "conforms p \<sigma> (s\<lparr>pc := k\<rparr>) = conforms p \<sigma> s"
  "conforms p \<sigma> (s\<lparr>next_effect := n\<rparr>) = conforms p \<sigma> s"
  "conforms p \<sigma> (s\<lparr>pending := e\<rparr>) = conforms p \<sigma> s"
  "conforms p \<sigma> (s\<lparr>failure := f\<rparr>) = conforms p \<sigma> s"
  "conforms p \<sigma> (s\<lparr>command_bytes := n\<rparr>) = conforms p \<sigma> s"
  "conforms p \<sigma> (s\<lparr>command_effects := n\<rparr>) = conforms p \<sigma> s"
  "conforms p \<sigma> (s\<lparr>instructions := n\<rparr>) = conforms p \<sigma> s"
  "conforms p \<sigma> (s\<lparr>last_span := sp\<rparr>) = conforms p \<sigma> s"
  "conforms p \<sigma> (s\<lparr>watchers := (watchers s)[w := b]\<rparr>) = conforms p \<sigma> s"
  by (rule conforms_eq; simp)+

lemma conforms_new_watcher:
  assumes c: "conforms p \<sigma> s"
  shows "conforms p \<sigma> (s\<lparr>watchers := watchers s @ [b]\<rparr>)"
proof -
  let ?s = "s\<lparr>watchers := watchers s @ [b]\<rparr>"
  have "stack_ok ms ST ?s" if "stack_ok ms ST s" for ms ST
    using that unfolding stack_ok_def by (auto elim!: list_all2_mono rt_ok_mono)
  moreover have "env_ok ms A ?s" if "env_ok ms A s" for ms A
    using that unfolding env_ok_def by (fastforce elim: rt_ok_mono)
  ultimately show ?thesis using c inputs_ok_cong [of ?s s] by (simp add: conforms_def)
qed

lemma conforms_store:
  assumes c: "conforms p (t # ST, A) s" and v: "stack s = v # vs" and i: "i < length (variables s)"
  shows "conforms p (ST, store_env i t A) (s\<lparr>stack := vs, variables := (variables s)[i := Some v]\<rparr>)"
proof -
  let ?s = "s\<lparr>stack := vs, variables := (variables s)[i := Some v]\<rparr>"
  have "env_ok ms (store_env i t A) ?s" if "env_ok ms A s" "rt_ok ms (length (watchers s)) t v" for ms
    using that i unfolding env_ok_def store_env_def by (fastforce simp: nth_list_update)
  then show ?thesis using c v inputs_ok_cong [of ?s s] by (auto simp: conforms_def stack_ok_def)
qed

lemma conforms_top:
  assumes "conforms p (t # ST, A) s"
  obtains v vs where "stack s = v # vs" "rt_ok (max_string_bytes (p_limits p)) (length (watchers s)) t v"
    "list_all2 (rt_ok (max_string_bytes (p_limits p)) (length (watchers s))) ST vs"
  using assms by (auto simp: conforms_def stack_ok_def list_all2_Cons1)

section \<open>Instructions\<close>

abbreviation ok :: "fault \<Rightarrow> vm \<Rightarrow> bool" where
  "ok f s \<equiv> clean f"

definition stepped :: "program \<Rightarrow> (nat \<times> stype) list \<Rightarrow> vm \<Rightarrow> vm \<Rightarrow> bool" where
  "stepped p \<sigma>s s s' \<longleftrightarrow> pending s' = pending s \<and> failure s' = failure s \<and>
     (\<exists>q \<sigma>. (q, \<sigma>) \<in> set \<sigma>s \<and> pc s' = q \<and> conforms p \<sigma> s')"

definition exec_post :: "program \<Rightarrow> (nat \<times> stype) list \<Rightarrow> vm \<Rightarrow> vm_step option \<Rightarrow> vm \<Rightarrow> bool" where
  "exec_post p \<sigma>s s r s' \<longleftrightarrow>
     (case r of
        None \<Rightarrow> stepped p \<sigma>s s s'
      | Some st \<Rightarrow> failure s' = failure s \<and>
          (\<exists>e q \<sigma>. st = Step_effect e \<and> pending s' = Some e \<and> (q, \<sigma>) \<in> set \<sigma>s \<and> pc s' = q \<and>
             waiting p e \<sigma> s'))"

lemma awp_and_then: "awp E m s (\<lambda>_ s'. stepped p \<sigma>s s s') \<Longrightarrow> awp E (and_then m) s (exec_post p \<sigma>s s)"
  unfolding and_then_def
  by (intro awp_intros) (auto simp: exec_post_def elim!: awp_mono intro!: awp_ret)

lemma stepped_push:
  "conforms p (ST, A) s \<Longrightarrow> pc s = Suc k \<Longrightarrow>
   rt_ok (max_string_bytes (p_limits p)) (length (watchers s)) t v \<Longrightarrow>
   stepped p [(Suc k, t # ST, A)] s (s\<lparr>stack := v # stack s\<rparr>)"
  by (auto simp: stepped_def intro: conforms_pushI)

text \<open>Replacing the \<open>n\<close> topmost values by the result.\<close>

lemma stepped_stack:
  "conforms p (ST, A) s \<Longrightarrow> pc s = k \<Longrightarrow> (k, ST', A) \<in> set \<sigma>s \<Longrightarrow>
   list_all2 (rt_ok (max_string_bytes (p_limits p)) (length (watchers s))) ST' vs \<Longrightarrow>
   stepped p \<sigma>s s (s\<lparr>stack := vs\<rparr>)"
  by (auto simp: stepped_def intro!: conforms_stack)

lemma conforms_prog: "conforms p \<sigma> s \<Longrightarrow> prog s = p"
  by (simp add: conforms_def inputs_ok_def)

lemma checked_rem_in_i64:
  assumes "checked_rem l r = Some i" "in_i64 l" "r \<noteq> 0"
  shows "in_i64 i"
proof -
  have m: "0 \<le> \<bar>l\<bar> mod \<bar>r\<bar>" "\<bar>l\<bar> mod \<bar>r\<bar> \<le> \<bar>l\<bar>"
    using assms(3) by (simp_all add: zmod_le_nonneg_dividend)
  have i: "i = sgn l * (\<bar>l\<bar> mod \<bar>r\<bar>)"
    using assms(1) by (simp add: checked_rem_def signed_modulo_int_def split: if_splits)
  show ?thesis
  proof (cases "0 \<le> l")
    case True
    then have "0 \<le> i" "i \<le> l" using i m by (cases "l = 0"; simp)+
    with assms(2) show ?thesis by (simp add: in_i64_def int_defs)
  next
    case False
    then have "l \<le> i" "i \<le> 0" using i m by simp_all
    with assms(2) show ?thesis by (simp add: in_i64_def int_defs)
  qed
qed

text \<open>The operators: from operands of the types the compiler checked to a result in bounds.\<close>

lemma awp_binary_integer:
  assumes "in_i64 l" "in_i64 r" "bin_result b TInteger = Some t"
    and Q: "\<And>v. value_type v = t \<Longrightarrow> wf_val ms v \<Longrightarrow> Q v s" and b: "b \<noteq> BEqual" "b \<noteq> BNotEqual"
  shows "awp ok (binary_integer b l r) s Q"
  using assms
  by (cases b) (auto simp: binary_integer_def bin_result_def res_simps internal_def checked_rem_in_i64
      intro!: awp_intros Q)

lemma awp_binary:
  assumes c: "conforms p (Scalar t # Scalar t # ST, A) s" and r: "bin_result b t = Some u"
    and k: "pc s = Suc k"
  shows "awp ok (vm_binary b) s (\<lambda>_ s'. stepped p [(Suc k, Scalar u # ST, A)] s s')"
proof -
  let ?ms = "max_string_bytes (p_limits p)"
  obtain x y vs where v: "stack s = Sc y # Sc x # vs" and xy: "value_type x = t" "value_type y = t"
    "wf_val ?ms x" "wf_val ?ms y" and vs: "list_all2 (rt_ok ?ms (length (watchers s))) ST vs"
    using c by (auto simp: conforms_def stack_ok_def list_all2_Cons1 rt_ok_scalar)
  have push: "stepped p [(Suc k, Scalar u # ST, A)] s (s\<lparr>stack := Sc z # vs\<rparr>)"
    if "value_type z = u" "wf_val ?ms z" for z
    by (rule stepped_stack [OF c k]) (use that vs in auto)
  have p: "prog s = p" "?ms < U64_MAX" using c by (simp_all add: conforms_def inputs_ok_def)
  have "awp ok (if b = BEqual then ret (VBoolean (x = y))
        else if b = BNotEqual then ret (VBoolean (x \<noteq> y))
        else
          (case (x, y) of
             (VString l, VString r) \<Rightarrow>
               if b = Add then
                 vbind (check (\<lambda>s. saturating_add_u64 (str_len l) (str_len r) \<le> limit max_string_bytes s)
                          String_limit) (\<lambda>_.
                 ret (VString (l @ r)))
               else vm_error Vm_invariant
           | (VInteger l, VInteger r) \<Rightarrow> binary_integer b l r
           | _ \<Rightarrow> vm_error Vm_invariant)) (s\<lparr>stack := vs\<rparr>)
      (\<lambda>z s'. s' = s\<lparr>stack := vs\<rparr> \<and> value_type z = u \<and> wf_val ?ms z)"
  proof (cases x; cases y)
    fix l r' assume "x = VInteger l" "y = VInteger r'"
    then show ?thesis using xy r
      by (auto simp: bin_result_def split: if_splits intro!: awp_ret awp_binary_integer [where t = u])
  next
    fix l r' assume xy': "x = VString l" "y = VString r'"
    then show ?thesis using xy r p(2)
      by (auto simp: bin_result_def internal_def p(1) saturating_add_u64_def min_le_iff_disj not_le split: if_splits intro!: awp_intros)
  qed (use xy r in \<open>auto simp: bin_result_def split: if_splits intro!: awp_ret\<close>)
  then have "awp ok (vbind (if b = BEqual then ret (VBoolean (x = y))
        else if b = BNotEqual then ret (VBoolean (x \<noteq> y))
        else
          (case (x, y) of
             (VString l, VString r) \<Rightarrow>
               if b = Add then
                 vbind (check (\<lambda>s. saturating_add_u64 (str_len l) (str_len r) \<le> limit max_string_bytes s)
                          String_limit) (\<lambda>_.
                 ret (VString (l @ r)))
               else vm_error Vm_invariant
           | (VInteger l, VInteger r) \<Rightarrow> binary_integer b l r
           | _ \<Rightarrow> vm_error Vm_invariant)) (\<lambda>v. push (Sc v))) (s\<lparr>stack := vs\<rparr>)
       (\<lambda>_ s'. stepped p [(Suc k, Scalar u # ST, A)] s s')"
    by (rule awp_vbind [OF awp_mono]) (use push in \<open>auto intro!: awp_push\<close>)
  then show ?thesis unfolding vm_binary_def
    by (intro awp_vbind [of _ pop_scalar]; intro awp_pops(1) [OF v] awp_vbind [of _ pop_scalar]
        awp_pops(1) [of _ x vs]) simp_all
qed

lemma exec_simple_op:
  assumes e: "op_eff (prog_ctx p) oper k (ST, A) \<sigma>s" and c: "conforms p (ST, A) s" and k: "pc s = Suc k"
    and not_call: "\<And>b. oper \<noteq> OCall b"
  shows "awp ok (exec_op oper) s (exec_post p \<sigma>s s)"
proof -
  let ?ms = "max_string_bytes (p_limits p)"
  let ?ok = "rt_ok ?ms (length (watchers s))"
  have p: "prog s = p" "length (variables s) = p_variables p"
    using c by (simp_all add: conforms_def inputs_ok_def)
  have st: "list_all2 ?ok ST (stack s)" using c by (simp add: conforms_def stack_ok_def)
  have jump: "stepped p \<sigma>s s (s\<lparr>pc := t\<rparr>)" if "(t, ST, A) \<in> set \<sigma>s" for t \<sigma>s
    using that c by (auto simp: stepped_def)
  have result: "stepped p \<sigma>s s (s\<lparr>stack := vs\<rparr>)"
    if "(Suc k, ST', A) \<in> set \<sigma>s" "list_all2 ?ok ST' vs" for ST' vs \<sigma>s
    by (rule stepped_stack [OF c k that])
  have jumped: "stepped p \<sigma>s s (s\<lparr>stack := vs, pc := t\<rparr>)"
    if "(t, ST', A) \<in> set \<sigma>s" "list_all2 ?ok ST' vs" for ST' vs t \<sigma>s
    using that conforms_stack [OF c that(2)] by (auto simp: stepped_def)
  show ?thesis
    using e
  proof (cases rule: op_eff.cases)
    case (eff_push v t)
    then show ?thesis using st
      by (auto simp: prog_ctx_def intro!: awp_and_then awp_push result)
  next
    case (eff_arg x t)
    then obtain v where "bt_get (vm_args s) x = Some v" "value_type v = t" "wf_val ?ms v"
      using c by (auto simp: conforms_def inputs_ok_def prog_ctx_def)
    with eff_arg st show ?thesis
      by (auto intro!: awp_and_then awp_vbind awp_gets awp_or_panic awp_push result)
  next
    case (eff_prompt x)
    then obtain v where "bt_get (vm_prompts s) x = Some v" "str_len v \<le> ?ms"
      using c by (auto simp: conforms_def inputs_ok_def prog_ctx_def)
    with eff_prompt st show ?thesis
      by (auto intro!: awp_and_then awp_vbind awp_gets awp_or_panic awp_push result)
  next
    case (eff_load i t)
    then have i: "i < length (variables s) \<and> (\<exists>v. variables s ! i = Some v \<and> ?ok t v)"
      using c by (auto simp: conforms_def env_ok_def)
    with eff_load st show ?thesis
      by (auto simp: load_var_def nth_opt_def
          intro!: awp_and_then awp_vbind awp_gets awp_or_panic awp_or_error awp_push result)
  next
    case (eff_store i t ST')
    then obtain v vs where v: "stack s = v # vs" using c by (auto elim: conforms_top)
    have i: "i < length (variables s)" using eff_store p by (simp add: prog_ctx_def)
    have "stepped p \<sigma>s s (s\<lparr>stack := vs, variables := (variables s)[i := Some v]\<rparr>)"
      using conforms_store [OF _ v i, of p t ST' A] c k eff_store by (simp add: stepped_def)
    with eff_store v i show ?thesis
      by (auto intro!: awp_and_then awp_store_var)
  next
    case (eff_pop t ST')
    then obtain v vs where "stack s = v # vs" "list_all2 ?ok ST' vs"
      using st by (auto simp: list_all2_Cons1)
    with eff_pop show ?thesis
      by (auto intro!: awp_and_then awp_vbind awp_pop awp_ret result)
  next
    case (eff_matched ST')
    then obtain w vs where "stack s = Wt w # vs" "w < length (watchers s)" "list_all2 ?ok ST' vs"
      using st by (auto simp: list_all2_Cons1 rt_ok_watcher)
    with eff_matched show ?thesis
      by (auto simp: watcher_matched_def nth_opt_def
          intro!: awp_and_then awp_vbind awp_pops awp_gets awp_or_error awp_push_bool result)
  next
    case (eff_str ST')
    then obtain i vs where "stack s = Sc (VInteger i) # vs" "list_all2 ?ok ST' vs"
      using st by (auto simp: list_all2_Cons1 rt_ok_scalar value_type_iff)
    with eff_str show ?thesis
      by (auto simp: Let_def p internal_def intro!: awp_and_then awp_vbind awp_pops awp_check awp_push result)
  next
    case (eff_unary u ST')
    then obtain x vs where x: "stack s = Sc x # vs" "value_type x = un_type u" "wf_val ?ms x"
      and vs: "list_all2 ?ok ST' vs"
      using st by (auto simp: list_all2_Cons1 rt_ok_scalar)
    show ?thesis
    proof (cases u)
      case Negate
      with x vs eff_unary show ?thesis
        by (auto simp: value_type_iff vm_unary_def res_simps internal_def
            intro!: awp_and_then awp_vbind awp_pops awp_or_error awp_push result)
    next
      case Not
      with x vs eff_unary show ?thesis
        by (auto simp: value_type_iff vm_unary_def
            intro!: awp_and_then awp_vbind awp_pops awp_push_bool result)
    qed
  next
    case (eff_binary b t r ST')
    with c k show ?thesis by (auto intro!: awp_and_then awp_binary)
  next
    case (eff_jump target)
    then show ?thesis by (auto simp: jump_def intro!: awp_and_then awp_update jump)
  next
    case (eff_if target ST')
    then obtain b vs where "stack s = Sc (VBoolean b) # vs" "list_all2 ?ok ST' vs"
      using st by (auto simp: list_all2_Cons1 rt_ok_scalar value_type_iff)
    with eff_if show ?thesis
      by (auto simp: jump_def intro!: awp_and_then awp_vbind awp_pops awp_if awp_update awp_ret result jumped)
  next
    case (eff_and target ST')
    then obtain b vs where "stack s = Sc (VBoolean b) # vs" "list_all2 ?ok ST' vs"
      using st by (auto simp: list_all2_Cons1 rt_ok_scalar value_type_iff)
    with eff_and show ?thesis
      by (auto simp: jump_def intro!: awp_and_then awp_vbind awp_peek_bool awp_pop awp_if awp_update awp_ret
          result jump)
  next
    case (eff_or target ST')
    then obtain b vs where "stack s = Sc (VBoolean b) # vs" "list_all2 ?ok ST' vs"
      using st by (auto simp: list_all2_Cons1 rt_ok_scalar value_type_iff)
    with eff_or show ?thesis
      by (auto simp: jump_def intro!: awp_and_then awp_vbind awp_peek_bool awp_pop awp_if awp_update awp_ret
          result jump)
  next
    case (eff_call b ST')
    with not_call [of b] show ?thesis by simp
  qed
qed

section \<open>Calls\<close>

lemma awp_pop_duration:
  assumes "stack s = Sc (VInteger i) # vs"
    "\<And>n. n = nat i \<Longrightarrow> n \<le> limit max_duration_ms s \<Longrightarrow> Q n (s\<lparr>stack := vs\<rparr>)"
  shows "awp ok pop_duration s Q"
  unfolding pop_duration_def using assms
  by (intro awp_vbind awp_pops(2) awp_check awp_ret) (auto simp: internal_def)

lemma awp_lift_validate:
  "(\<lbrakk>str_len t \<le> limit max_string_bytes s; \<forall>c \<in> set t. \<not> is_control c\<rbrakk> \<Longrightarrow> Q () s) \<Longrightarrow>
   awp ok (\<lambda>s. lift_res (validate_command t (limit max_string_bytes s) (last_span s)) s) s Q"
  by (auto simp: awp_def lift_res_def validate_command_def internal_def)

text \<open>The state after the operands of a call are popped and before its effect is pending.\<close>

lemma awp_call_kind:
  assumes b: "builtin_eff b ST = Some ST'" and c: "conforms p (ST, A) s"
  shows "awp ok (call_kind b) s (\<lambda>kind s'. failure s' = failure s \<and> pc s' = pc s \<and>
     waiting p \<lparr>eff_id = n, eff_span = sp, eff_kind = kind\<rparr> (ST', A) s')"
proof -
  let ?ms = "max_string_bytes (p_limits p)"
  let ?ok = "rt_ok ?ms (length (watchers s))"
  have st: "list_all2 ?ok ST (stack s)" using c by (simp add: conforms_def stack_ok_def)
  have popped: "conforms p (ST'', A) (s\<lparr>stack := vs\<rparr>)" if "list_all2 ?ok ST'' vs" for ST'' vs
    by (rule conforms_stack [OF c that])
  have command: "awp ok (call_command v) s (\<lambda>kind s'. failure s' = failure s \<and> pc s' = pc s \<and>
     waiting p \<lparr>eff_id = n, eff_span = sp, eff_kind = kind\<rparr> (ST', A) s')"
    if ST: "ST = Scalar TString # ST'" for v
  proof -
    obtain t vs where "stack s = Sc (VString t) # vs" "list_all2 ?ok ST' vs"
      using st ST by (auto simp: list_all2_Cons1 rt_ok_scalar value_type_iff)
    then show ?thesis unfolding call_command_def
      by (intro awp_vbind [of _ pop_string] awp_pops(4) awp_vbind [OF awp_lift_validate] awp_vbind awp_gets
            awp_or_error awp_check awp_update awp_ret)
         (auto simp: waiting_def internal_def intro: popped)
  qed
  have wait: "awp ok (call_wait w) s (\<lambda>kind s'. failure s' = failure s \<and> pc s' = pc s \<and>
     waiting p \<lparr>eff_id = n, eff_span = sp, eff_kind = kind\<rparr> (ST', A) s')"
    if ST: "ST = Scalar TInteger # Watcher # ST2" and ST': "ST' = (if w then ST2 else Scalar TBoolean # ST2)"
    for w ST2
  proof -
    obtain i x vs where "stack s = Sc (VInteger i) # Wt x # vs" "list_all2 ?ok ST2 vs" "x < length (watchers s)"
      using st ST by (auto simp: list_all2_Cons1 rt_ok_scalar rt_ok_watcher value_type_iff)
    then show ?thesis unfolding call_wait_def
      by (intro awp_vbind awp_pop_duration awp_pops(5) awp_ret) (auto simp: waiting_def ST' intro: popped)
  qed
  show ?thesis
  proof (cases "(b, ST)" rule: builtin_eff.cases)
    case (3 ST2)
    then obtain t vs where "stack s = Sc (VString t) # vs" "list_all2 ?ok ST2 vs"
      using st by (auto simp: list_all2_Cons1 rt_ok_scalar value_type_iff)
    moreover from this have "conforms p (ST2, A) (s\<lparr>stack := vs, watchers := watchers s @ [False]\<rparr>)"
      using conforms_new_watcher [OF popped, of ST2 vs False] by simp
    ultimately show ?thesis using 3 b
      by (auto simp: call_watch_def waiting_def internal_def
          intro!: awp_vbind awp_pops awp_check awp_gets awp_update awp_ret)
  next
    case (6 ST2)
    then obtain i vs where "stack s = Sc (VInteger i) # vs" "list_all2 ?ok ST2 vs"
      using st by (auto simp: list_all2_Cons1 rt_ok_scalar value_type_iff)
    with 6 b show ?thesis
      by (auto simp: call_delay_def waiting_def intro!: awp_vbind awp_pop_duration awp_ret popped)
  qed (use b command wait in auto)
qed

lemma waiting_frame [simp]:
  "waiting p e \<sigma> (s\<lparr>next_effect := n\<rparr>) = waiting p e \<sigma> s"
  "waiting p e \<sigma> (s\<lparr>pending := x\<rparr>) = waiting p e \<sigma> s"
  "waiting p e \<sigma> (s\<lparr>failure := y\<rparr>) = waiting p e \<sigma> s"
  by (simp_all add: waiting_def split: effect_kind.splits)

lemma waiting_kind: "eff_kind e = eff_kind e' \<Longrightarrow> waiting p e \<sigma> s = waiting p e' \<sigma> s"
  by (simp add: waiting_def)

lemma exec_call:
  assumes e: "op_eff (prog_ctx p) (OCall b) k (ST, A) \<sigma>s" and c: "conforms p (ST, A) s" and k: "pc s = Suc k"
  shows "awp ok (exec_op (OCall b)) s (exec_post p \<sigma>s s)"
proof -
  obtain ST' where b: "builtin_eff b ST = Some ST'" and \<sigma>s: "\<sigma>s = [(Suc k, ST', A)]"
    using e by (auto elim: op_eff.cases)
  have kind: "awp ok (vbind (gets next_effect) (\<lambda>i.
        vbind (or_error (checked_add_u64 i 1) Effect_budget) (\<lambda>next.
        vbind (update (\<lambda>s. s\<lparr>next_effect := next\<rparr>)) (\<lambda>_.
        gets (\<lambda>s. \<lparr>eff_id = i, eff_span = last_span s, eff_kind = kd\<rparr>))))) s'
      (\<lambda>e s'. failure s' = failure s \<and> pc s' = pc s \<and> waiting p e (ST', A) s')"
    if s': "failure s' = failure s \<and> pc s' = pc s \<and>
      waiting p \<lparr>eff_id = 0, eff_span = span_default, eff_kind = kd\<rparr> (ST', A) s'" for kd s'
  proof -
    have "waiting p e (ST', A) s'" if "eff_kind e = kd" for e
      using s' waiting_kind [of e "\<lparr>eff_id = 0, eff_span = span_default, eff_kind = kd\<rparr>"] that by simp
    with s' show ?thesis
      by (intro awp_intros) (auto simp: internal_def)
  qed
  have "awp ok (vm_call b) s (\<lambda>e s'. failure s' = failure s \<and> pc s' = pc s \<and> waiting p e (ST', A) s')"
    unfolding vm_call_def
    by (rule awp_vbind, rule awp_mono [OF awp_call_kind [OF b c, of 0 span_default]]) (rule kind)
  then show ?thesis unfolding exec_op.simps
    by (intro awp_vbind, elim awp_mono) (auto simp: exec_post_def \<sigma>s k intro!: awp_intros)
qed

lemmas exec_ok = exec_simple_op exec_call

section \<open>The machine\<close>

text \<open>The invariant of a machine that runs a program typed by \<open>\<Phi>\<close>.\<close>

definition safe :: "program \<Rightarrow> (nat \<Rightarrow> stype) \<Rightarrow> vm \<Rightarrow> bool" where
  "safe p \<Phi> s \<longleftrightarrow>
     (case failure s of
        Some e \<Rightarrow> \<not> internal (err_code e)
      | None \<Rightarrow> pc s \<le> length (p_code p) \<and>
          (case pending s of
             None \<Rightarrow> conforms p (\<Phi> (pc s)) s
           | Some e \<Rightarrow> waiting p e (\<Phi> (pc s)) s))"

text \<open>One round: the machine goes on in a typed state, or stops for a reason of the script.\<close>

definition round_post :: "program \<Rightarrow> (nat \<Rightarrow> stype) \<Rightarrow> vm_step option \<Rightarrow> vm \<Rightarrow> bool" where
  "round_post p \<Phi> r s \<longleftrightarrow>
     failure s = None \<and> safe p \<Phi> s \<and>
     (case r of
        None \<Rightarrow> pending s = None
      | Some (Step_effect e) \<Rightarrow> pending s = Some e
      | Some Yielded \<Rightarrow> pending s = None
      | Some Complete \<Rightarrow> pending s = None \<and> stack s = [] \<and> length (p_code p) \<le> pc s)"

lemma waiting_leq: "waiting p e \<sigma> s \<Longrightarrow> leq \<sigma> \<tau> \<Longrightarrow> waiting p e \<tau> s"
  by (auto simp: waiting_def leq_def elim!: conforms_leq split: effect_kind.splits if_splits)

lemma conforms_length: "conforms p \<sigma> s \<Longrightarrow> length (stack s) = length (fst \<sigma>)"
  by (auto simp: conforms_def stack_ok_def dest: list_all2_lengthD)

lemma awp_round:
  assumes t: "typed_by p \<Phi>" and s: "safe p \<Phi> s" and f: "failure s = None" "pending s = None"
  shows "awp ok vm_round s (round_post p \<Phi>)"
proof -
  have c: "conforms p (\<Phi> (pc s)) s" and k: "pc s \<le> length (p_code p)"
    using s f by (simp_all add: safe_def)
  have p: "prog s = p" by (rule conforms_prog [OF c])
  show ?thesis
  proof (cases "length (p_code p) \<le> pc s")
    case True
    then have "stack s = []" using t k conforms_length [OF c] by (simp add: typed_by_def)
    with True s f show ?thesis
      by (simp add: vm_round_def p awp_def ret_def round_post_def)
  next
    case False
    let ?i = "p_code p ! pc s"
    let ?s = "s\<lparr>last_span := ispan ?i, instructions := instructions s + 1, pc := pc s + 1\<rparr>"
    obtain ST A where ST: "\<Phi> (pc s) = (ST, A)" by fastforce
    obtain \<sigma>s where e: "op_eff (prog_ctx p) (iop ?i) (pc s) (ST, A) \<sigma>s"
      and le: "\<And>q \<sigma>. (q, \<sigma>) \<in> set \<sigma>s \<Longrightarrow> q \<le> length (p_code p) \<and> leq \<sigma> (\<Phi> q)"
    proof -
      have "wt (prog_ctx p) (p_code p) \<Phi> (pc s)" using t False by (simp add: typed_by_def)
      then show thesis using that unfolding wt_def ST by blast
    qed
    have c': "conforms p (ST, A) ?s" using c ST by simp
    have "awp ok (exec_op (iop ?i)) ?s (exec_post p \<sigma>s ?s)"
    proof (cases "\<exists>b. iop ?i = OCall b")
      case True
      then obtain b where b: "iop ?i = OCall b" by blast
      show ?thesis unfolding b by (rule exec_call [OF e [unfolded b] c']) simp
    next
      case False
      show ?thesis by (rule exec_simple_op [OF e c']) (use False in auto)
    qed
    then have exec: "awp ok (exec_op (iop ?i)) ?s (\<lambda>r s'. awp ok (case r of
        Some step \<Rightarrow> ret (Some step)
      | None \<Rightarrow> vbind (check (\<lambda>s. length (stack s) \<le> limit stack_bound s) Stack_limit) (\<lambda>_. ret None)) s'
        (round_post p \<Phi>))"
    proof (rule awp_mono)
      fix r s' assume post: "exec_post p \<sigma>s ?s r s'"
      show "awp ok (case r of
          Some step \<Rightarrow> ret (Some step)
        | None \<Rightarrow> vbind (check (\<lambda>s. length (stack s) \<le> limit stack_bound s) Stack_limit) (\<lambda>_. ret None)) s'
          (round_post p \<Phi>)"
      proof (cases r)
        case None
        then obtain q \<sigma> where q: "(q, \<sigma>) \<in> set \<sigma>s" "pc s' = q" "conforms p \<sigma> s'"
          and s': "pending s' = None" "failure s' = None"
          using post f by (auto simp: exec_post_def stepped_def)
        note cq = conforms_leq [OF q(3) conjunct2 [OF le [OF q(1)]]]
        have "length (stack s') \<le> stack_bound (p_limits p)"
          using conforms_length [OF cq] t le [OF q(1)] by (simp add: typed_by_def)
        then have "round_post p \<Phi> None s'" "length (stack s') \<le> limit stack_bound s'"
          using s' q cq le [OF q(1)] conforms_prog [OF cq] by (simp_all add: round_post_def safe_def)
        then show ?thesis using None by (auto intro!: awp_intros)
      next
        case (Some st)
        then obtain x q \<sigma> where q: "(q, \<sigma>) \<in> set \<sigma>s" "pc s' = q" "waiting p x \<sigma> s'"
          and s': "st = Step_effect x" "pending s' = Some x" "failure s' = None"
          using post f by (auto simp: exec_post_def)
        have "round_post p \<Phi> (Some st) s'"
          using s' q waiting_leq [OF q(3)] le [OF q(1)] by (simp add: round_post_def safe_def)
        then show ?thesis using Some by (auto intro!: awp_intros)
      qed
    qed
    show ?thesis
    proof (cases "limit max_instructions s \<le> instructions s")
      case True
      then show ?thesis using False
        by (simp add: vm_round_def p Let_def awp_def vm_error_def internal_def)
    next
      case more: False
      then show ?thesis using False awp_vbind [OF exec]
        by (simp add: vm_round_def p Let_def awp_def)
    qed
  qed
qed

lemma awp_advance_inner:
  assumes t: "typed_by p \<Phi>"
  shows "safe p \<Phi> s \<Longrightarrow> failure s = None \<Longrightarrow> pending s = None \<Longrightarrow>
    awp ok (advance_inner n) s (\<lambda>st. round_post p \<Phi> (Some st))"
proof (induction n arbitrary: s)
  case 0
  then show ?case by (auto simp: round_post_def intro!: awp_ret)
next
  case (Suc n)
  show ?case unfolding advance_inner.simps
  proof (rule awp_vbind, rule awp_mono [OF awp_round [OF t Suc.prems]])
    fix r s' assume post: "round_post p \<Phi> r s'"
    show "awp ok (case r of Some step \<Rightarrow> ret step | None \<Rightarrow> advance_inner n) s'
        (\<lambda>st. round_post p \<Phi> (Some st))"
    proof (cases r)
      case None
      then show ?thesis using Suc.IH [of s'] post by (simp add: round_post_def [of _ _ None])
    next
      case (Some st)
      then show ?thesis using post by (simp add: awp_ret)
    qed
  qed simp
qed

text \<open>
  What an operation of the machine's interface guarantees: the machine stays safe, and an
  error is one of the script or of the driver. The sticky failure itself may be returned.
\<close>

definition op_safe :: "program \<Rightarrow> (nat \<Rightarrow> stype) \<Rightarrow> 'a res \<times> vm \<Rightarrow> bool" where
  "op_safe p \<Phi> r \<longleftrightarrow> safe p \<Phi> (snd r) \<and> (\<forall>f. fst r = Inl f \<longrightarrow> (\<exists>e. f = Fail e))"

lemma op_safe_record:
  assumes "awp ok m s (\<lambda>x. safe p \<Phi>)"
  shows "op_safe p \<Phi> (record_failure m s)"
proof (cases "m s")
  case (Pair r s')
  show ?thesis
  proof (cases r)
    case (Inl f)
    then obtain e where "f = Fail e" "\<not> internal (err_code e)"
      using assms Pair by (cases f) (auto simp: awp_def)
    then show ?thesis by (simp add: record_failure_def Pair Inl op_safe_def safe_def)
  next
    case (Inr x)
    then show ?thesis using assms by (simp add: record_failure_def Pair op_safe_def awp_def)
  qed
qed

lemma safe_advance:
  assumes t: "typed_by p \<Phi>" and s: "safe p \<Phi> s"
  shows "op_safe p \<Phi> (advance s)"
proof (cases "failure s")
  case None
  show ?thesis
  proof (cases "pending s")
    case (Some e)
    with None s show ?thesis by (simp add: advance_def op_safe_def)
  next
    case pending: None
    have "awp ok (advance_inner (limit instructions_per_yield s)) s (\<lambda>_. safe p \<Phi>)"
      by (rule awp_mono [OF awp_advance_inner [OF t s None pending]]) (auto simp: round_post_def)
    with None pending show ?thesis by (simp add: advance_def op_safe_record)
  qed
qed (use s in \<open>simp add: advance_def op_safe_def\<close>)

lemma advance_complete:
  assumes t: "typed_by p \<Phi>" and s: "safe p \<Phi> s" and r: "advance s = (Inr Complete, s')"
  shows "stack s' = [] \<and> length (p_code p) \<le> pc s' \<and> failure s' = None"
proof -
  have f: "failure s = None" "pending s = None"
    using r by (auto simp: advance_def split: option.splits)
  have "advance_inner (limit instructions_per_yield s) s = (Inr Complete, s')"
    using r f by (auto simp: advance_def record_failure_def split: prod.splits sum.splits fault.splits)
  with awp_advance_inner [OF t s f, of "limit instructions_per_yield s"] show ?thesis
    by (simp add: awp_def round_post_def)
qed

lemma awp_resume_effect:
  assumes s: "safe p \<Phi> s" "failure s = None" "pending s = Some e"
  shows "awp ok (case (eff_kind e, result) of
          (Command _ _, Done) \<Rightarrow> ret ()
        | (Delay _, Done) \<Rightarrow> ret ()
        | (Watch w _, Done) \<Rightarrow> push (Wt w)
        | (Wait w _ is_strict, Matched matched) \<Rightarrow> resume_wait w is_strict matched
        | _ \<Rightarrow> vm_error Effect_protocol) s
      (\<lambda>_ s'. failure s' = None \<and> pc s' = pc s \<and> conforms p (\<Phi> (pc s)) s')"
proof -
  have w: "waiting p e (\<Phi> (pc s)) s" using s by (simp add: safe_def)
  have push: "conforms p (\<Phi> (pc s)) (s'\<lparr>stack := v # stack s'\<rparr>)"
    if "fst (\<Phi> (pc s)) = t # ST" "conforms p (ST, snd (\<Phi> (pc s))) s'"
      "rt_ok (max_string_bytes (p_limits p)) (length (watchers s')) t v" for s' t ST v
    using conforms_pushI [OF that(2,3)] that(1) by (metis prod.collapse)
  show ?thesis
    using w s push
    by (auto simp: waiting_def resume_wait_def watcher_matched_def nth_opt_def internal_def
        split: effect_kind.splits effect_result.splits if_splits intro!: awp_intros)
qed

lemma safe_resume:
  assumes s: "safe p \<Phi> s"
  shows "op_safe p \<Phi> (resume effect_id result s)"
proof (cases "failure s")
  case None
  have "awp ok (resume_inner effect_id result) s (\<lambda>_. safe p \<Phi>)"
  proof (cases "pending s")
    case None
    then show ?thesis by (auto simp: resume_inner_def internal_def intro!: awp_intros)
  next
    case (Some e)
    have k: "pc s \<le> length (p_code p)" using s \<open>failure s = None\<close> by (simp add: safe_def)
    show ?thesis unfolding resume_inner_def
    proof (rule awp_vbind, rule awp_gets, rule awp_vbind, rule awp_or_error)
      fix e' assume "pending s = Some e'"
      with Some have e': "e' = e" by simp
      show "awp ok (vbind (check (\<lambda>_. eff_id e' = effect_id) Effect_protocol) (\<lambda>_.
         vbind (case (eff_kind e', result) of
          (Command _ _, Done) \<Rightarrow> ret ()
        | (Delay _, Done) \<Rightarrow> ret ()
        | (Watch w _, Done) \<Rightarrow> push (Wt w)
        | (Wait w _ is_strict, Matched matched) \<Rightarrow> resume_wait w is_strict matched
        | _ \<Rightarrow> vm_error Effect_protocol) (\<lambda>_. update (\<lambda>s. s\<lparr>pending := None\<rparr>)))) s (\<lambda>_. safe p \<Phi>)"
        unfolding e'
        by (rule awp_vbind, rule awp_check, rule awp_vbind, rule awp_mono [OF awp_resume_effect [OF s None Some]])
           (auto simp: safe_def internal_def k intro!: awp_update)
    qed (simp add: Some)
  qed
  with None show ?thesis by (simp add: resume_def op_safe_record)
qed (use s in \<open>simp add: resume_def op_safe_def\<close>)

lemma safe_fail_effect:
  assumes "safe p \<Phi> s"
  shows "op_safe p \<Phi> (fail_effect n s)"
proof (cases "failure s")
  case None
  then show ?thesis
    unfolding fail_effect_def None option.case
    by (intro op_safe_record awp_error) (simp add: internal_def)
next
  case (Some e)
  with assms show ?thesis by (simp add: fail_effect_def op_safe_def)
qed

lemma safe_interrupt: "safe p \<Phi> s \<Longrightarrow> safe p \<Phi> (snd (interrupt s))"
  by (auto simp: interrupt_def safe_def internal_def Let_def split: option.splits)

lemma safe_mark_matched: "safe p \<Phi> s \<Longrightarrow> op_safe p \<Phi> (mark_matched w s)"
  by (auto simp: mark_matched_def op_safe_def vm_error_def safe_def waiting_def err_def
      split: option.splits effect_kind.splits)

section \<open>Runs\<close>

text \<open>
  What a driver can do with a machine. It may answer effects as it likes, out of order or with
  the wrong kind of answer: the machine rejects what does not fit.
\<close>

datatype driver_call =
    Call_advance
  | Call_resume nat effect_result
  | Call_fail nat
  | Call_interrupt
  | Call_matched watcher_id

fun outcome :: "'a res \<times> vm \<Rightarrow> fault option \<times> vm" where
  "outcome (Inl f, s) = (Some f, s)"
| "outcome (Inr x, s) = (None, s)"

fun drive :: "driver_call \<Rightarrow> vm \<Rightarrow> fault option \<times> vm" where
  "drive Call_advance s = outcome (advance s)"
| "drive (Call_resume n x) s = outcome (resume n x s)"
| "drive (Call_fail n) s = outcome (fail_effect n s)"
| "drive Call_interrupt s = (None, snd (interrupt s))"
| "drive (Call_matched w) s = outcome (mark_matched w s)"

inductive reaches :: "vm \<Rightarrow> vm \<Rightarrow> bool" for s0 where
  reaches_refl: "reaches s0 s0"
| reaches_step: "reaches s0 s \<Longrightarrow> reaches s0 (snd (drive call s))"

inductive_cases reachesE: "reaches s0 s"

lemma op_safe_outcome:
  "op_safe p \<Phi> r \<Longrightarrow> safe p \<Phi> (snd (outcome r)) \<and> (\<forall>f. fst (outcome r) = Some f \<longrightarrow> (\<exists>e. f = Fail e))"
  by (cases r rule: outcome.cases) (auto simp: op_safe_def)

lemma drive_safe:
  assumes t: "typed_by p \<Phi>" and s: "safe p \<Phi> s"
  shows "safe p \<Phi> (snd (drive call s)) \<and> (\<forall>f. fst (drive call s) = Some f \<longrightarrow> (\<exists>e. f = Fail e))"
proof (cases call)
  case Call_interrupt
  then show ?thesis using safe_interrupt [OF s] by simp
qed (simp only: drive.simps, intro op_safe_outcome safe_advance [OF t] safe_resume safe_fail_effect
      safe_mark_matched s)+

lemma reaches_safe:
  assumes t: "typed_by p \<Phi>" and r: "reaches s0 s" and s0: "safe p \<Phi> s0"
  shows "safe p \<Phi> s"
  using r by (induction rule: reaches.induct) (auto simp: s0 drive_safe [OF t])

text \<open>The arguments a driver passes are values: an integer is an \<open>i64\<close>.\<close>

definition args_in_range :: "(rstring, val) btree \<Rightarrow> bool" where
  "args_in_range args \<longleftrightarrow> (\<forall>(x, v) \<in> set args. \<forall>i. v = VInteger i \<longrightarrow> in_i64 i)"

lemma check_argument_ok:
  assumes "check_argument p args (x, t) = Inr u" "args_in_range args"
  obtains v where "bt_get args x = Some v" "value_type v = t" "wf_val (max_string_bytes (p_limits p)) v"
proof -
  obtain v where v: "bt_get args x = Some v" "value_type v = t"
    "\<And>s. v = VString s \<Longrightarrow> str_len s \<le> max_string_bytes (p_limits p)"
  proof -
    obtain v where v: "bt_get args x = Some v" "value_type v = t"
      and r: "(case v of VString t \<Rightarrow> guard_ok (str_len t \<le> max_string_bytes (p_limits p)) (err String_limit span_start)
        | _ \<Rightarrow> Inr ()) = Inr u"
      using assms(1) by (auto simp: check_argument_def res_simps)
    show thesis by (rule that [OF v]) (use r in \<open>auto simp: res_simps\<close>)
  qed
  have "wf_val (max_string_bytes (p_limits p)) v"
    using v assms(2) by (cases v) (fastforce simp: args_in_range_def dest: bt_get_Some_in)+
  with v(1,2) show thesis by (rule that)
qed

lemma vm_new_safe:
  assumes t: "typed_by p \<Phi>" and n: "vm_new p args texts = Inr s" and a: "args_in_range args"
    and m: "max_string_bytes (p_limits p) < U64_MAX"
  shows "safe p \<Phi> s"
proof -
  have args: "\<forall>x \<in> set (p_params p). check_argument p args x = Inr ()"
    and texts: "\<forall>x \<in> set (p_prompts p). check_prompt p texts x = Inr ()"
    and s: "prog s = p" "vm_args s = args" "vm_prompts s = texts" "variables s = replicate (p_variables p) None"
      "stack s = []" "watchers s = []" "pc s = 0" "pending s = None" "failure s = None"
    using n by (auto simp: vm_new_def res_simps each_ok_Inr_iff)
  have "\<exists>v. bt_get args x = Some v \<and> value_type v = t \<and> wf_val (max_string_bytes (p_limits p)) v"
    if "bt_get (p_params p) x = Some t" for x t
    using args bt_get_Some_in [OF that] check_argument_ok [OF _ a] by (metis (no_types))
  moreover have "\<exists>t. bt_get texts x = Some t \<and> str_len t \<le> max_string_bytes (p_limits p)"
    if "x \<in> set (bt_keys (p_prompts p))" for x
    using texts that by (fastforce simp: bt_keys_def check_prompt_def res_simps split: if_splits)
  ultimately have "inputs_ok p s" using s m by (simp add: inputs_ok_def)
  then have "conforms p ([], {}) s" using s by (simp add: conforms_def stack_ok_def env_ok_def)
  then show ?thesis using t s by (simp add: safe_def typed_by_def)
qed

lemma run_safe:
  assumes "typed_program p" "vm_new p args texts = Inr s0" "args_in_range args"
    "max_string_bytes (p_limits p) < U64_MAX" "reaches s0 s"
  obtains \<Phi> where "typed_by p \<Phi>" "safe p \<Phi> s"
  using assms reaches_safe vm_new_safe unfolding typed_program_def by blast

end
