(* ===== verification/MacroBudgets.thy ===== *)
theory MacroBudgets
  imports MacroSafety
begin

text \<open>
  The bounds of the machine, whatever program it runs and whatever the driver does: commands
  and watchers within their budgets, effects within their limits and numbered in order, and an
  instruction budget that makes every run end.
\<close>

section \<open>Actions that keep the budgets\<close>

definition budget :: "vm \<Rightarrow> bool" where
  "budget s \<longleftrightarrow> command_bytes s \<le> limit max_total_command_bytes s \<and>
     length (watchers s) \<le> limit max_watchers s"

definition tame :: "vm \<Rightarrow> vm \<Rightarrow> bool" where
  "tame s s' \<longleftrightarrow> prog s' = prog s \<and> failure s' = failure s \<and> pending s' = pending s \<and>
     instructions s' = instructions s \<and> next_effect s' = next_effect s \<and> (budget s \<longrightarrow> budget s')"

definition keeps :: "'a act \<Rightarrow> bool" where
  "keeps m \<longleftrightarrow> (\<forall>s. tame s (snd (m s)))"

named_theorems keeps_intros \<open>actions that keep the budgets\<close>

lemma tame_refl [simp]: "tame s s"
  by (simp add: tame_def)

lemma tame_trans: "tame s s1 \<Longrightarrow> tame s1 s2 \<Longrightarrow> tame s s2"
  by (simp add: tame_def)

lemma keeps_vbind [keeps_intros]: "keeps m \<Longrightarrow> (\<And>x. keeps (f x)) \<Longrightarrow> keeps (vbind m f)"
  unfolding keeps_def vbind_def
  by (auto split: prod.splits sum.splits) (metis snd_conv, metis snd_conv tame_trans)

lemma keeps_simple [keeps_intros]:
  "keeps (ret x)" "keeps (vm_error c)" "keeps vm_panic" "keeps (gets f)" "keeps (check P c)"
  "keeps (or_error y c)" "keeps (or_panic y)" "keeps pop" "keeps peek_bool" "keeps (lift_res r)"
  by (auto simp: keeps_def ret_def vm_error_def vm_panic_def gets_def check_def or_error_def or_panic_def
      pop_def peek_bool_def lift_res_def tame_def budget_def split: option.splits list.splits
      rt_value.splits val.splits)

lemma keeps_update: "(\<And>s. tame s (f s)) \<Longrightarrow> keeps (update f)"
  by (simp add: keeps_def update_def)

lemma keeps_push [keeps_intros]: "keeps (push v)" "keeps (push_bool b)" "keeps (jump t)"
  by (auto simp: push_bool_def push_def jump_def tame_def budget_def intro!: keeps_update)

lemma keeps_pops [keeps_intros]:
  "keeps pop_scalar" "keeps pop_integer" "keeps pop_bool" "keeps pop_string" "keeps pop_watcher"
  "keeps pop_duration"
  unfolding pop_scalar_def pop_integer_def pop_bool_def pop_string_def pop_watcher_def pop_duration_def
  by (auto intro!: keeps_intros split: rt_value.splits val.splits)

lemma keeps_if [keeps_intros]: "keeps m \<Longrightarrow> keeps n \<Longrightarrow> keeps (if b then m else n)"
  by simp

lemma keeps_binary_integer [keeps_intros]: "keeps (binary_integer b l r)"
  by (cases b) (auto simp: binary_integer_def intro!: keeps_intros)

lemma keeps_operators [keeps_intros]: "keeps (vm_unary u)" "keeps (vm_binary b)"
  unfolding vm_unary_def vm_binary_def
  by (cases u; auto intro!: keeps_intros) (auto intro!: keeps_intros split: val.splits)

lemma keeps_load_var [keeps_intros]: "keeps (load_var i)"
  unfolding load_var_def by (intro keeps_intros)

lemma keeps_store_var [keeps_intros]: "keeps (store_var i)"
proof -
  have "keeps (\<lambda>s. if i < length (variables s) then ret () (s\<lparr>variables := (variables s)[i := Some v]\<rparr>)
      else vm_panic s)" for v
    by (auto simp: keeps_def ret_def vm_panic_def tame_def budget_def)
  then show ?thesis unfolding store_var_def by (rule keeps_vbind [OF keeps_simple(8)])
qed

lemma keeps_and_then [keeps_intros]: "keeps m \<Longrightarrow> keeps (and_then m)"
  unfolding and_then_def by (intro keeps_intros)

lemma keeps_watcher_matched [keeps_intros]: "keeps (watcher_matched w)"
  unfolding watcher_matched_def by (intro keeps_intros)

text \<open>An instruction other than a call does not stop the loop.\<close>

lemma exec_op_keeps:
  assumes "\<And>b. oper \<noteq> OCall b"
  obtains m where "exec_op oper = and_then m" "keeps m"
proof (cases oper)
  case (OCall b)
  with assms [of b] show thesis by simp
qed (rule that, simp, simp add: Let_def, intro keeps_intros)+

section \<open>Effects\<close>

text \<open>What the machine guarantees of an effect it hands to the driver.\<close>

definition effect_ok :: "limits \<Rightarrow> effect_kind \<Rightarrow> bool" where
  "effect_ok l k \<longleftrightarrow>
     (case k of
        Command t _ \<Rightarrow> str_len t \<le> max_string_bytes l \<and> (\<forall>c \<in> set t. \<not> is_control c)
      | Watch _ pattern \<Rightarrow> pattern \<noteq> []
      | Wait _ t _ \<Rightarrow> t \<le> max_duration_ms l
      | Delay d \<Rightarrow> d \<le> max_duration_ms l)"

definition any_fault :: "vm \<Rightarrow> fault \<Rightarrow> vm \<Rightarrow> bool" where
  "any_fault s f s' \<longleftrightarrow> tame s s'"

lemma awp_keeps: "keeps m \<Longrightarrow> tame s0 s \<Longrightarrow> (\<And>x s'. tame s0 s' \<Longrightarrow> Q x s') \<Longrightarrow> awp (any_fault s0) m s Q"
  unfolding keeps_def awp_def any_fault_def
  by (metis (mono_tags, lifting) case_prodI2 snd_conv sum.case_eq_if tame_trans)

lemma awp_duration:
  assumes t: "tame s0 s" and Q: "\<And>n s'. n \<le> limit max_duration_ms s0 \<Longrightarrow> tame s0 s' \<Longrightarrow> Q n s'"
  shows "awp (any_fault s0) pop_duration s Q"
proof -
  have check: "awp (any_fault s0)
      (vbind (check (\<lambda>s. \<not> (i < 0 \<or> nat i > limit max_duration_ms s)) Duration_limit) (\<lambda>_. ret (nat i))) s' Q"
    if t': "tame s0 s'" for i s'
  proof -
    have "prog s' = prog s0" using t' by (simp add: tame_def)
    then show ?thesis using t' by (auto simp: any_fault_def intro!: awp_intros Q)
  qed
  show ?thesis unfolding pop_duration_def
    by (rule awp_vbind, rule awp_keeps [OF _ t check]) (intro keeps_intros)
qed

lemma awp_call_budget:
  "awp (any_fault s) (call_kind b) s (\<lambda>kind s'. tame s s' \<and> effect_ok (p_limits (prog s)) kind)"
proof -
  have command: "awp (any_fault s) (call_command v) s (\<lambda>kind s'. tame s s' \<and> effect_ok (p_limits (prog s)) kind)" for v
    unfolding call_command_def
    by (rule awp_vbind, rule awp_keeps [OF _ tame_refl], intro keeps_intros)
       (auto simp: awp_def vbind_def lift_res_def validate_command_def gets_def or_error_def check_def
          update_def ret_def vm_error_def tame_def budget_def effect_ok_def any_fault_def
          split: option.splits if_splits)
  have watch: "awp (any_fault s) call_watch s (\<lambda>kind s'. tame s s' \<and> effect_ok (p_limits (prog s)) kind)"
    unfolding call_watch_def
    by (rule awp_vbind, rule awp_keeps [OF _ tame_refl], intro keeps_intros)
       (auto simp: awp_def vbind_def gets_def check_def update_def ret_def vm_error_def tame_def budget_def
          effect_ok_def any_fault_def split: if_splits)
  have wait: "awp (any_fault s) (call_wait v) s (\<lambda>kind s'. tame s s' \<and> effect_ok (p_limits (prog s)) kind)" for v
    unfolding call_wait_def
    by (rule awp_vbind, rule awp_duration [OF tame_refl], rule awp_vbind, rule awp_keeps)
       (auto simp: effect_ok_def intro!: awp_ret keeps_intros)
  have delay: "awp (any_fault s) call_delay s (\<lambda>kind s'. tame s s' \<and> effect_ok (p_limits (prog s)) kind)"
    unfolding call_delay_def
    by (rule awp_vbind, rule awp_duration [OF tame_refl]) (auto simp: effect_ok_def intro!: awp_ret)
  show ?thesis by (cases b) (simp_all add: command watch wait delay)
qed

section \<open>Rounds\<close>

text \<open>\<open>moved s n s'\<close>: the machine executed \<open>n\<close> instructions, within the instruction budget.\<close>

definition moved :: "vm \<Rightarrow> nat \<Rightarrow> vm \<Rightarrow> bool" where
  "moved s n s' \<longleftrightarrow> prog s' = prog s \<and> failure s' = failure s \<and> instructions s' = instructions s + n \<and>
     (n = 0 \<or> instructions s' \<le> limit max_instructions s) \<and> (budget s \<longrightarrow> budget s')"

definition quiet :: "vm \<Rightarrow> nat \<Rightarrow> vm \<Rightarrow> bool" where
  "quiet s n s' \<longleftrightarrow> moved s n s' \<and> pending s' = pending s \<and> next_effect s' = next_effect s"

definition issued :: "vm \<Rightarrow> nat \<Rightarrow> effect \<Rightarrow> vm \<Rightarrow> bool" where
  "issued s n e s' \<longleftrightarrow> moved s n s' \<and> pending s' = Some e \<and> eff_id e = next_effect s \<and>
     next_effect s' = Suc (next_effect s) \<and> effect_ok (p_limits (prog s)) (eff_kind e)"

lemma quiet_refl [simp]: "quiet s 0 s"
  by (simp add: quiet_def moved_def)

lemma quiet_trans: "quiet s m s1 \<Longrightarrow> quiet s1 n s2 \<Longrightarrow> quiet s (m + n) s2"
  by (auto simp: quiet_def moved_def)

lemma issued_trans: "quiet s m s1 \<Longrightarrow> issued s1 n e s2 \<Longrightarrow> issued s (m + n) e s2"
  by (auto simp: quiet_def moved_def issued_def)

lemma awp_vm_call:
  "awp (any_fault s) (vm_call b) s (\<lambda>e s'.
     eff_id e = next_effect s \<and> next_effect s' = Suc (next_effect s) \<and> prog s' = prog s \<and>
     failure s' = failure s \<and> pending s' = pending s \<and> instructions s' = instructions s \<and>
     (budget s \<longrightarrow> budget s') \<and> effect_ok (p_limits (prog s)) (eff_kind e))"
  unfolding vm_call_def
  by (rule awp_vbind, rule awp_mono [OF awp_call_budget])
     (auto simp: tame_def any_fault_def res_simps budget_def intro!: awp_intros)

lemma awp_round_budget:
  "awp (\<lambda>f s'. \<exists>n \<le> 1. quiet s n s') vm_round s (\<lambda>r s'.
     case r of
       None \<Rightarrow> quiet s 1 s'
     | Some (Step_effect e) \<Rightarrow> issued s 1 e s'
     | Some Yielded \<Rightarrow> False
     | Some Complete \<Rightarrow> quiet s 0 s')"
proof (cases "length (p_code (prog s)) \<le> pc s \<or> limit max_instructions s \<le> instructions s")
  case True
  then show ?thesis
    by (auto simp: vm_round_def Let_def awp_def vm_error_def ret_def quiet_def moved_def budget_def
        intro!: exI [of _ 0])
next
  case False
  let ?i = "p_code (prog s) ! pc s"
  let ?s = "s\<lparr>last_span := ispan ?i, instructions := instructions s + 1, pc := pc s + 1\<rparr>"
  have tame: "quiet s 1 s'" if "tame ?s s'" for s'
    using that False by (auto simp: tame_def quiet_def moved_def budget_def)
  have E: "\<exists>n \<le> 1. quiet s n s'" if "any_fault ?s f s'" for f s'
    using tame that by (auto simp: any_fault_def)
  have "awp (\<lambda>f s'. \<exists>n \<le> 1. quiet s n s') (exec_op (iop ?i)) ?s
      (\<lambda>r s'. awp (\<lambda>f s'. \<exists>n \<le> 1. quiet s n s') (case r of
        Some step \<Rightarrow> ret (Some step)
      | None \<Rightarrow> vbind (check (\<lambda>s. length (stack s) \<le> limit stack_bound s) Stack_limit) (\<lambda>_. ret None)) s'
       (\<lambda>r s'. case r of
         None \<Rightarrow> quiet s 1 s'
       | Some (Step_effect e) \<Rightarrow> issued s 1 e s'
       | Some Yielded \<Rightarrow> False
       | Some Complete \<Rightarrow> quiet s 0 s'))"
  proof (cases "\<exists>b. iop ?i = OCall b")
    case True
    then obtain b where b: "iop ?i = OCall b" by blast
    have call: "awp (any_fault ?s) (vm_call b) ?s (\<lambda>e s'. issued s 1 e (s'\<lparr>pending := Some e\<rparr>))"
      by (rule awp_mono [OF awp_vm_call]) (use False in \<open>auto simp: issued_def moved_def budget_def\<close>)
    show ?thesis unfolding b exec_op.simps
      by (rule awp_vbind, rule awp_mono [OF call])
         (auto intro!: awp_intros E [simplified])
  next
    case not_call: False
    obtain m where m: "exec_op (iop ?i) = and_then m" "keeps m"
      using exec_op_keeps [of "iop ?i"] not_call by metis
    have TE: "\<exists>n \<le> Suc 0. quiet s n s'" if "tame ?s s'" for s'
      using tame [OF that] by auto
    show ?thesis unfolding m(1) and_then_def
      by (rule awp_vbind, rule awp_mono [OF awp_keeps [OF m(2) tame_refl]])
         (auto simp: any_fault_def intro!: awp_intros tame [simplified] TE)
  qed
  from awp_vbind [OF this] False show ?thesis by (simp add: vm_round_def Let_def awp_def)
qed

lemma awp_inner_budget:
  "awp (\<lambda>f s'. \<exists>m \<le> n. quiet s m s') (advance_inner n) s (\<lambda>st s'.
     case st of
       Yielded \<Rightarrow> quiet s n s'
     | Step_effect e \<Rightarrow> \<exists>m. 0 < m \<and> m \<le> n \<and> issued s m e s'
     | Complete \<Rightarrow> \<exists>m \<le> n. quiet s m s')"
proof (induction n arbitrary: s)
  case 0
  then show ?case by (simp add: awp_ret)
next
  case (Suc n)
  show ?case unfolding advance_inner.simps
  proof (rule awp_vbind, rule awp_mono [OF awp_round_budget])
    fix r s1
    assume r: "case r of
       None \<Rightarrow> quiet s 1 s1
     | Some (Step_effect e) \<Rightarrow> issued s 1 e s1
     | Some Yielded \<Rightarrow> False
     | Some Complete \<Rightarrow> quiet s 0 s1"
    show "awp (\<lambda>f s'. \<exists>m \<le> Suc n. quiet s m s') (case r of Some step \<Rightarrow> ret step | None \<Rightarrow> advance_inner n) s1
       (\<lambda>st s'. case st of
         Yielded \<Rightarrow> quiet s (Suc n) s'
       | Step_effect e \<Rightarrow> \<exists>m. 0 < m \<and> m \<le> Suc n \<and> issued s m e s'
       | Complete \<Rightarrow> \<exists>m \<le> Suc n. quiet s m s')"
    proof (cases r)
      case None
      have q: "quiet s 1 s1" using r None by simp
      have "quiet s (Suc m) s'" if "quiet s1 m s'" for m s' using quiet_trans [OF q that] by simp
      moreover have "issued s (Suc m) e s'" if "issued s1 m e s'" for m e s' using issued_trans [OF q that] by simp
      ultimately have "awp (\<lambda>f s'. \<exists>m \<le> Suc n. quiet s m s') (advance_inner n) s1
       (\<lambda>st s'. case st of
         Yielded \<Rightarrow> quiet s (Suc n) s'
       | Step_effect e \<Rightarrow> \<exists>m. 0 < m \<and> m \<le> Suc n \<and> issued s m e s'
       | Complete \<Rightarrow> \<exists>m \<le> Suc n. quiet s m s')"
        by (intro awp_mono [OF Suc.IH]) (fastforce split: vm_step.splits)+
      with None show ?thesis by simp
    next
      case (Some st)
      then show ?thesis using r by (cases st) (auto intro!: awp_ret intro: exI [of _ 1] exI [of _ 0])
    qed
  next
    fix f s1 assume "\<exists>m \<le> 1. quiet s m s1"
    then show "\<exists>m \<le> Suc n. quiet s m s1" using le_trans by fastforce
  qed
qed

section \<open>The invariant\<close>

definition within :: "vm \<Rightarrow> bool" where
  "within s \<longleftrightarrow> budget s \<and> instructions s \<le> limit max_instructions s \<and>
     (\<forall>e. pending s = Some e \<longrightarrow> eff_id e < next_effect s \<and> effect_ok (p_limits (prog s)) (eff_kind e))"

lemma within_quiet: "within s \<Longrightarrow> quiet s n s' \<Longrightarrow> within s'"
  by (cases n) (auto simp: within_def quiet_def moved_def)

lemma within_issued: "within s \<Longrightarrow> issued s n e s' \<Longrightarrow> within s'"
  by (cases n) (auto simp: within_def issued_def moved_def)

lemma within_failure [simp]: "within (s\<lparr>failure := f\<rparr>) = within s"
  by (simp add: within_def budget_def)

lemma advance_ready:
  assumes "failure s = None" "pending s = None"
  shows "advance s = record_failure (advance_inner (limit instructions_per_yield s)) s"
  using assms by (simp add: advance_def)

text \<open>One call of \<open>advance\<close> on a machine that is ready to run.\<close>

lemma advance_cases:
  assumes f: "failure s = None" "pending s = None" and r: "advance s = (r, s')"
  shows "case r of
      Inl fault \<Rightarrow> \<exists>m s1. m \<le> limit instructions_per_yield s \<and> quiet s m s1 \<and> (\<exists>f. s' = s1\<lparr>failure := f\<rparr>)
    | Inr Yielded \<Rightarrow> quiet s (limit instructions_per_yield s) s'
    | Inr (Step_effect e) \<Rightarrow> \<exists>m. 0 < m \<and> m \<le> limit instructions_per_yield s \<and> issued s m e s'
    | Inr Complete \<Rightarrow> \<exists>m \<le> limit instructions_per_yield s. quiet s m s'"
proof -
  obtain r1 s1 where i: "advance_inner (limit instructions_per_yield s) s = (r1, s1)" by fastforce
  note b = awp_inner_budget [of "limit instructions_per_yield s" s, unfolded awp_def i prod.case]
  have a: "(r, s') = (case r1 of Inl (Fail e) \<Rightarrow> (r1, s1\<lparr>failure := Some e\<rparr>) | _ \<Rightarrow> (r1, s1))"
    using r by (auto simp: advance_ready [OF f] record_failure_def i split: sum.splits fault.splits)
  show ?thesis
  proof (cases r1)
    case (Inl fa)
    have s': "r = Inl fa \<and> s' = (case fa of Fail e \<Rightarrow> s1\<lparr>failure := Some e\<rparr> | _ \<Rightarrow> s1)"
      using a Inl by (simp split: fault.splits)
    have s1: "s1\<lparr>failure := failure s1\<rparr> = s1" by simp
    have "\<exists>x. s1\<lparr>failure := x\<rparr> = s'"
    proof (cases fa)
      case (Fail e)
      with s' show ?thesis by (intro exI [of _ "Some e"]) simp
    qed (use s' s1 in \<open>intro exI [of _ "failure s1"], simp\<close>)+
    then have "r = Inl fa" "\<exists>x. s' = s1\<lparr>failure := x\<rparr>" using s' by blast+
    moreover obtain m where "m \<le> limit instructions_per_yield s" "quiet s m s1"
      using b Inl by auto
    ultimately show ?thesis by auto
  next
    case (Inr st)
    with a b show ?thesis by (simp split: vm_step.splits)
  qed
qed

lemma within_advance:
  assumes w: "within s"
  shows "within (snd (advance s))"
proof (cases "failure s = None \<and> pending s = None")
  case True
  obtain r s' where r: "advance s = (r, s')" by fastforce
  from advance_cases [OF _ _ r] True show ?thesis
    by (auto simp: r split: sum.splits vm_step.splits
        intro: within_quiet [OF w] within_issued [OF w])
qed (use w in \<open>auto simp: advance_def split: option.splits\<close>)

text \<open>The other operations of the interface execute nothing.\<close>

definition idle :: "vm \<Rightarrow> vm \<Rightarrow> bool" where
  "idle s s' \<longleftrightarrow> prog s' = prog s \<and> instructions s' = instructions s \<and> next_effect s' = next_effect s \<and>
     (pending s' = pending s \<or> pending s' = None) \<and> command_bytes s' = command_bytes s \<and>
     length (watchers s') = length (watchers s)"

lemma within_idle: "within s \<Longrightarrow> idle s s' \<Longrightarrow> within s'"
  by (auto simp: within_def idle_def budget_def)

lemma idle_record: "awp (\<lambda>_. idle s) m s (\<lambda>_. idle s) \<Longrightarrow> idle s (snd (record_failure m s))"
  by (auto simp: awp_def record_failure_def idle_def split: prod.splits sum.splits fault.splits)

lemma idle_resume: "idle s (snd (resume n result s))"
proof (cases "failure s")
  case None
  have "awp (\<lambda>_. idle s) (resume_inner n result) s (\<lambda>_. idle s)"
    unfolding resume_inner_def resume_wait_def watcher_matched_def
    by (auto simp: idle_def split: effect_kind.splits effect_result.splits intro!: awp_intros)
  with None show ?thesis by (simp add: resume_def idle_record)
qed (simp add: resume_def idle_def)

lemma idle_fail: "idle s (snd (fail_effect n s))"
proof (cases "failure s")
  case None
  then show ?thesis unfolding fail_effect_def None option.case
    by (intro idle_record awp_error) (simp add: idle_def)
qed (simp add: fail_effect_def idle_def)

lemma idle_interrupt: "idle s (snd (interrupt s))"
  by (simp add: interrupt_def idle_def Let_def split: option.splits)

lemma idle_mark: "idle s (snd (mark_matched w s))"
  by (simp add: mark_matched_def idle_def vm_error_def split: option.splits)

lemma snd_outcome [simp]: "snd (outcome r) = snd r"
  by (cases r rule: outcome.cases) auto

lemma within_drive: "within s \<Longrightarrow> within (snd (drive call s))"
  by (cases call) (auto intro: within_advance within_idle idle_resume idle_fail idle_interrupt idle_mark)

lemma within_new: "vm_new p args texts = Inr s \<Longrightarrow> within s"
  by (auto simp: vm_new_def res_simps within_def budget_def)

lemma within_reaches: "reaches s0 s \<Longrightarrow> within s0 \<Longrightarrow> within s"
  by (induction rule: reaches.induct) (auto intro: within_drive)

lemma prog_drive: "prog (snd (drive call s)) = prog s"
proof (cases "call = Call_advance \<and> failure s = None \<and> pending s = None")
  case True
  obtain r s' where r: "advance s = (r, s')" by fastforce
  from advance_cases [OF _ _ r] True show ?thesis
    by (auto simp: r quiet_def issued_def moved_def split: sum.splits vm_step.splits)
next
  case False
  have "idle s (snd (drive call s))"
  proof (cases call)
    case Call_advance
    with False show ?thesis by (auto simp: advance_def idle_def split: option.splits)
  qed (simp_all add: idle_resume idle_fail idle_interrupt idle_mark)
  then show ?thesis by (simp add: idle_def)
qed

lemma prog_reaches: "reaches s0 s \<Longrightarrow> prog s = prog s0"
  by (induction rule: reaches.induct) (simp_all add: prog_drive)

lemma vm_new_fields:
  "vm_new p args texts = Inr s \<Longrightarrow>
   prog s = p \<and> instructions s = 0 \<and> failure s = None \<and> pending s = None \<and> next_effect s = 1"
  by (auto simp: vm_new_def res_simps)

lemma advance_failure: "advance s = (Inl (Fail e), s') \<Longrightarrow> failure s' = Some e"
  by (auto simp: advance_def record_failure_def split: option.splits prod.splits sum.splits fault.splits)

section \<open>Effects are numbered in order\<close>

lemma next_effect_drive: "next_effect s \<le> next_effect (snd (drive call s))"
proof (cases "call = Call_advance \<and> failure s = None \<and> pending s = None")
  case True
  obtain r s' where r: "advance s = (r, s')" by fastforce
  from advance_cases [OF _ _ r] True show ?thesis
    by (auto simp: r quiet_def issued_def split: sum.splits vm_step.splits)
next
  case False
  have "idle s s' \<Longrightarrow> next_effect s \<le> next_effect s'" for s' by (simp add: idle_def)
  with False show ?thesis
    by (cases call) (auto simp: advance_def idle_resume idle_fail idle_interrupt idle_mark split: option.splits)
qed

lemma next_effect_reaches: "reaches s0 s \<Longrightarrow> next_effect s0 \<le> next_effect s"
  by (induction rule: reaches.induct) (auto intro: order.trans next_effect_drive)

text \<open>An effect is numbered when it is issued, and returned again until it is answered.\<close>

lemma advance_issues:
  assumes "advance s = (Inr (Step_effect e), s')" "pending s = None"
  shows "eff_id e = next_effect s \<and> next_effect s' = Suc (next_effect s) \<and> pending s' = Some e \<and>
    failure s' = None"
proof -
  have f: "failure s = None" using assms(1) by (simp add: advance_def split: option.splits)
  from advance_cases [OF f assms(2) assms(1)] f show ?thesis by (auto simp: issued_def moved_def)
qed

lemma advance_again: "pending s = Some e \<Longrightarrow> failure s = None \<Longrightarrow> advance s = (Inr (Step_effect e), s)"
  by (simp add: advance_def)

lemma later_effect:
  assumes "advance s = (Inr (Step_effect e), s')" "pending s = None" "reaches s' t" "pending t = None"
    "advance t = (Inr (Step_effect e2), t')"
  shows "eff_id e < eff_id e2"
  using advance_issues [OF assms(1,2)] advance_issues [OF assms(5,4)] next_effect_reaches [OF assms(3)] by simp

lemma failure_sticky_drive: "failure s = Some e \<Longrightarrow> drive call s = (if call = Call_interrupt then None else Some (Fail e), s)"
  by (cases call) (auto simp: advance_def resume_def fail_effect_def interrupt_def mark_matched_def)

lemma failed_reaches: "reaches s t \<Longrightarrow> failure s = Some e \<Longrightarrow> t = s"
  by (induction rule: reaches.induct) (auto simp: failure_sticky_drive)

text \<open>A sequence of driver calls. The pending effect stays until its own acknowledgement.\<close>

definition drive_calls :: "driver_call list \<Rightarrow> vm \<Rightarrow> vm" where
  "drive_calls calls s = fold (\<lambda>call s. snd (drive call s)) calls s"

lemma drive_calls_simps [simp]:
  "drive_calls [] s = s"
  "drive_calls (call # calls) s = drive_calls calls (snd (drive call s))"
  by (simp_all add: drive_calls_def)

lemma drive_calls_failed: "failure s = Some e \<Longrightarrow> drive_calls calls s = s"
  by (induction calls) (simp_all add: failure_sticky_drive)

lemma resume_other_fails:
  "pending s = Some e \<Longrightarrow> failure s = None \<Longrightarrow> n \<noteq> eff_id e \<Longrightarrow> failure (snd (resume n r s)) \<noteq> None"
  by (simp add: resume_def resume_inner_def vbind_def gets_def or_error_def check_def ret_def vm_error_def
      record_failure_def err_def)

lemma pending_kept:
  assumes "pending s = Some e" "failure s = None" "failure (snd (drive call s)) = None"
    and "\<forall>r. call \<noteq> Call_resume (eff_id e) r"
  shows "pending (snd (drive call s)) = Some e"
proof (cases call)
  case (Call_resume n x)
  with assms have "n \<noteq> eff_id e" by auto
  then have "failure (snd (resume n x s)) \<noteq> None" by (rule resume_other_fails [OF assms(1,2)])
  moreover have "failure (snd (resume n x s)) = None" using assms(3) by (simp add: Call_resume)
  ultimately show ?thesis by blast
qed (use assms in \<open>auto simp: advance_def fail_effect_def interrupt_def mark_matched_def vm_error_def
      record_failure_def err_def Let_def split: if_splits\<close>)

lemma unanswered_effect_stays:
  assumes "pending s = Some e" "failure s = None" "failure (drive_calls calls s) = None"
    and "\<forall>r. Call_resume (eff_id e) r \<notin> set calls"
  shows "pending (drive_calls calls s) = Some e"
  using assms
proof (induction calls arbitrary: s)
  case (Cons call calls)
  have ok: "failure (snd (drive call s)) = None"
  proof (cases "failure (snd (drive call s))")
    case (Some x)
    with Cons.prems(3) show ?thesis by (simp add: drive_calls_failed)
  qed
  have "pending (snd (drive call s)) = Some e"
    by (rule pending_kept [OF Cons.prems(1,2) ok]) (use Cons.prems(4) in auto)
  from Cons.IH [OF this ok] Cons.prems(3,4) show ?case by simp
qed simp

section \<open>Every run ends\<close>

text \<open>
  A driver that advances the machine and answers every effect, until the machine completes or
  fails. \<open>None\<close>: the number of calls it was given was not enough.
\<close>

fun drive_all :: "nat \<Rightarrow> (effect \<Rightarrow> effect_result) \<Rightarrow> vm \<Rightarrow> (unit res \<times> vm) option" where
  "drive_all 0 answer s = None"
| "drive_all (Suc n) answer s =
     (case advance s of
        (Inl f, s) \<Rightarrow> Some (Inl f, s)
      | (Inr Complete, s) \<Rightarrow> Some (Inr (), s)
      | (Inr Yielded, s) \<Rightarrow> drive_all n answer s
      | (Inr (Step_effect e), s) \<Rightarrow>
          (case resume (eff_id e) (answer e) s of
             (Inl f, s) \<Rightarrow> Some (Inl f, s)
           | (Inr _, s) \<Rightarrow> drive_all n answer s))"

lemma resume_done:
  assumes "resume n x s = (Inr u, s')"
  shows "pending s' = None \<and> failure s' = None \<and> prog s' = prog s \<and> instructions s' = instructions s"
proof -
  have f: "failure s = None" using assms by (simp add: resume_def split: option.splits)
  have "awp (\<lambda>_. idle s) (resume_inner n x) s (\<lambda>_ s'. idle s s' \<and> pending s' = None \<and> failure s' = None)"
    unfolding resume_inner_def resume_wait_def watcher_matched_def
    using f by (auto simp: idle_def split: effect_kind.splits effect_result.splits intro!: awp_intros)
  moreover have "resume_inner n x s = (Inr u, s')"
    using assms f by (auto simp: resume_def record_failure_def split: prod.splits sum.splits fault.splits)
  ultimately show ?thesis by (simp add: awp_def idle_def)
qed

lemma drive_all_returns:
  assumes "within s" "0 < limit instructions_per_yield s" "failure s = None" "pending s = None"
    "limit max_instructions s < instructions s + n"
  shows "\<exists>r. drive_all n answer s = Some r"
  using assms
proof (induction n arbitrary: s)
  case 0
  then show ?case by (simp add: within_def)
next
  case (Suc n)
  obtain r s' where r: "advance s = (r, s')" by fastforce
  note c = advance_cases [OF Suc.prems(3,4) r]
  have w': "within s'" using within_advance [OF Suc.prems(1)] r by simp
  show ?case
  proof (cases r)
    case (Inl f)
    then show ?thesis by (simp add: r)
  next
    case (Inr st)
    show ?thesis
    proof (cases st)
      case Complete
      then show ?thesis by (simp add: r Inr)
    next
      case Yielded
      then have "quiet s (limit instructions_per_yield s) s'" using c Inr by simp
      then have "\<exists>r. drive_all n answer s' = Some r"
        using Suc.prems w' by (intro Suc.IH) (auto simp: quiet_def moved_def)
      then show ?thesis by (simp add: r Inr Yielded)
    next
      case (Step_effect e)
      then obtain m where m: "0 < m" "issued s m e s'" using c Inr by auto
      obtain r2 s2 where r2: "resume (eff_id e) (answer e) s' = (r2, s2)" by fastforce
      show ?thesis
      proof (cases r2)
        case (Inl f)
        then show ?thesis by (simp add: r Inr Step_effect r2)
      next
        case ok: (Inr u)
        have w2: "within s2" using within_idle [OF w' idle_resume] r2 by (metis snd_conv)
        have "\<exists>r. drive_all n answer s2 = Some r"
          using Suc.prems m resume_done [OF r2 [unfolded ok]] w2
          by (intro Suc.IH) (auto simp: issued_def moved_def)
        then show ?thesis using r2 ok by (simp add: r Inr Step_effect)
      qed
    qed
  qed
qed

section \<open>Compiled programs\<close>

lemma compile_limits:
  assumes "compile source ps l = Inr p"
  shows "typed_program p" "p_limits p = l" "0 < instructions_per_yield l"
  using assms compile_total [of source ps l] by (auto simp: cwp_def compile_def split: if_splits)

lemma compiled_advance:
  assumes c: "compile source ps l = Inr p" and n: "vm_new p args texts = Inr s0" and a: "args_in_range args"
    and m: "max_string_bytes l < U64_MAX" and r: "reaches s0 s"
  shows "case advance s of
      (Inl f, s') \<Rightarrow> (case f of Fail e \<Rightarrow> \<not> internal (err_code e) \<and> failure s' = Some e | _ \<Rightarrow> False)
    | (Inr Complete, s') \<Rightarrow> stack s' = [] \<and> length (p_code p) \<le> pc s'
    | (Inr _, s') \<Rightarrow> failure s' = None"
proof -
  have "max_string_bytes (p_limits p) < U64_MAX" using m compile_limits(2) [OF c] by simp
  then obtain \<Phi> where t: "typed_by p \<Phi>" and s: "safe p \<Phi> s"
    using run_safe [OF compile_limits(1) [OF c] n a _ r] by blast
  obtain x s' where x: "advance s = (x, s')" by fastforce
  show ?thesis
  proof (cases x)
    case (Inl f)
    with safe_advance [OF t s] x obtain e where f: "f = Fail e" and s': "safe p \<Phi> s'"
      by (auto simp: op_safe_def)
    with advance_failure [of s e s'] x Inl show ?thesis by (auto simp: safe_def)
  next
    case (Inr y)
    show ?thesis
    proof (cases y)
      case Complete
      with advance_complete [OF t s] x Inr show ?thesis by simp
    next
      case Yielded
      have f: "failure s = None" "pending s = None"
        using x Inr Yielded by (auto simp: advance_def split: option.splits)
      from advance_cases [OF f x] f Inr Yielded show ?thesis by (simp add: x quiet_def moved_def)
    next
      case (Step_effect e)
      have f: "failure s = None" using x Inr by (auto simp: advance_def split: option.splits)
      show ?thesis
      proof (cases "pending s")
        case None
        with advance_issues [of s e s'] x Inr Step_effect show ?thesis by simp
      next
        case (Some e')
        with f x Inr Step_effect show ?thesis by (auto simp: advance_def)
      qed
    qed
  qed
qed

lemma run_returns:
  assumes c: "compile source ps l = Inr p" and n: "vm_new p args texts = Inr s" and k: "max_instructions l < n"
  shows "\<exists>r. drive_all n answer s = Some r"
  using vm_new_fields [OF n] compile_limits(2,3) [OF c] k
  by (intro drive_all_returns [OF within_new [OF n]]) simp_all

end
