(* ===== verification/Bytes.thy ===== *)
theory Bytes
  imports BTreeMap "HOL-Library.Word"
begin

text \<open>
  Bytes, and the fixed-width integers that the wire frames and the journal lay out in them:
  \<open>u32::to_le_bytes\<close>, \<open>u32::from_le_bytes\<close> and their big-endian counterparts of the standard
  library, with the laws a reader of such a layout needs.
\<close>

type_synonym byte = "8 word"
type_synonym bytes = "byte list"

definition byte_at :: "nat \<Rightarrow> 32 word \<Rightarrow> byte" where
  "byte_at n w = ucast (drop_bit (8 * n) w)"

definition to_le_bytes :: "32 word \<Rightarrow> bytes" where
  "to_le_bytes w = [byte_at 0 w, byte_at 1 w, byte_at 2 w, byte_at 3 w]"

definition to_be_bytes :: "32 word \<Rightarrow> bytes" where
  "to_be_bytes w = rev (to_le_bytes w)"

fun from_le_bytes :: "bytes \<Rightarrow> 32 word" where
  "from_le_bytes [] = 0"
| "from_le_bytes (b # bs) = or (ucast b) (push_bit 8 (from_le_bytes bs))"

definition from_be_bytes :: "bytes \<Rightarrow> 32 word" where
  "from_be_bytes bs = from_le_bytes (rev bs)"

lemma length_to_le_bytes [simp]: "length (to_le_bytes w) = 4"
  by (simp add: to_le_bytes_def)

lemma length_to_be_bytes [simp]: "length (to_be_bytes w) = 4"
  by (simp add: to_be_bytes_def)

lemma bit_byte_at: "bit (byte_at n w) i \<longleftrightarrow> i < 8 \<and> bit w (8 * n + i)"
  by (auto simp: byte_at_def bit_simps)

lemma from_to_le_bytes [simp]: "from_le_bytes (to_le_bytes w) = w"
proof (rule bit_word_eqI)
  fix n assume "n < LENGTH(32)"
  then have n: "n < 32" by simp
  consider "n < 8" | "8 \<le> n" "n < 16" | "16 \<le> n" "n < 24" | "24 \<le> n" using n by linarith
  then show "bit (from_le_bytes (to_le_bytes w)) n = bit w n"
    using n by cases (auto simp: to_le_bytes_def bit_simps bit_byte_at)
qed

lemma to_from_le_bytes:
  assumes "length bs = 4"
  shows "to_le_bytes (from_le_bytes bs) = bs"
proof -
  obtain a b c d where bs: "bs = [a, b, c, d]"
    using assms by (auto simp: length_Suc_conv numeral_eq_Suc)
  have "byte_at k (from_le_bytes bs) = bs ! k" if "k < 4" for k
  proof (rule bit_word_eqI)
    fix n assume "n < LENGTH(8)"
    then have n: "n < 8" by simp
    consider "k = 0" | "k = 1" | "k = 2" | "k = 3" using \<open>k < 4\<close> by (auto simp: numeral_eq_Suc less_Suc_eq)
    then show "bit (byte_at k (from_le_bytes bs)) n = bit (bs ! k) n"
      using n by cases (auto simp: bs bit_byte_at bit_simps dest: bit_imp_le_length)
  qed
  from this [of 0] this [of 1] this [of 2] this [of 3] show ?thesis
    by (simp add: to_le_bytes_def bs)
qed

lemma from_to_be_bytes [simp]: "from_be_bytes (to_be_bytes w) = w"
  by (simp add: from_be_bytes_def to_be_bytes_def)

lemma to_from_be_bytes: "length bs = 4 \<Longrightarrow> to_be_bytes (from_be_bytes bs) = bs"
  by (simp add: from_be_bytes_def to_be_bytes_def to_from_le_bytes)

text \<open>A length that fits its field is read back.\<close>

lemma unat_of_bounded [simp]: "n < 2 ^ 32 \<Longrightarrow> unat (word_of_nat n :: 32 word) = n"
  by (simp add: unat_of_nat take_bit_nat_eq_self)

section \<open>Slices\<close>

text \<open>\<open>bytes[from..until]\<close>, for bounds the caller has checked.\<close>

definition slice :: "nat \<Rightarrow> nat \<Rightarrow> 'a list \<Rightarrow> 'a list" where
  "slice i j xs = take (j - i) (drop i xs)"

lemma length_slice [simp]: "i \<le> j \<Longrightarrow> j \<le> length xs \<Longrightarrow> length (slice i j xs) = j - i"
  by (simp add: slice_def)

lemma slice_append_left [simp]: "j \<le> length xs \<Longrightarrow> slice i j (xs @ ys) = slice i j xs"
  by (simp add: slice_def)

lemma slice_append_right: "length xs \<le> i \<Longrightarrow> slice i j (xs @ ys) = slice (i - length xs) (j - length xs) ys"
  by (simp add: slice_def)

lemma slice_all [simp]: "j = length xs \<Longrightarrow> slice 0 j xs = xs"
  by (simp add: slice_def)

lemma slice_drop [simp]: "i \<le> j \<Longrightarrow> slice i j xs @ drop j xs = drop i xs"
  using append_take_drop_id [of "j - i" "drop i xs"] by (simp add: slice_def)

section \<open>Text as bytes\<close>

text \<open>The UTF-8 bytes of a character.\<close>

definition utf8_char :: "rchar \<Rightarrow> bytes" where
  "utf8_char c =
     map word_of_nat
     (if c < 0x80 then [c]
      else if c < 0x800 then [0xC0 + c div 64, 0x80 + c mod 64]
      else if c < 0x10000 then [0xE0 + c div 4096, 0x80 + c div 64 mod 64, 0x80 + c mod 64]
      else [0xF0 + c div 262144, 0x80 + c div 4096 mod 64, 0x80 + c div 64 mod 64, 0x80 + c mod 64])"

definition utf8 :: "rstring \<Rightarrow> bytes" where
  "utf8 s = concat (map utf8_char s)"

lemma length_utf8_char [simp]: "length (utf8_char c) = len_utf8 c"
  by (simp add: utf8_char_def len_utf8_def)

lemma length_utf8 [simp]: "length (utf8 s) = str_len s"
  by (induction s) (simp_all add: utf8_def str_len_def)

end
