(* ===== verification/Protocol.thy ===== *)
theory Protocol
  imports Bytes
begin

text \<open>
  \<open>crates/serial-protocol/src/lib.rs\<close>: the data the daemon and its clients share. A \<open>Uuid\<close> is
  its 128-bit number. \<open>serde_json::Value\<close> is third-party: it is a type variable, and what the
  code reads from a value is a field of \<open>json_api\<close>, a parameter of the operations that use it.
\<close>

type_synonym uuid = nat

record 'j json_api =
  as_bool :: "'j \<Rightarrow> bool option"
  as_str :: "'j \<Rightarrow> rstring option"
  as_i64 :: "'j \<Rightarrow> int option"

section \<open>Actors, leases, runs\<close>

datatype actor_kind = Human | Agent | Script | System

record actor =
  actor_id :: rstring
  actor_label :: rstring
  actor_kind :: actor_kind

record control_lease =
  ls_id :: uuid
  ls_owner :: actor
  ls_epoch :: uuid
  ls_generation :: nat
  ls_fence :: nat
  ls_issued_wall_time_ns :: int
  ls_expires_wall_time_ns :: int

datatype control_mode = Queue | Takeover

datatype run_status = Active | Completed | Aborted

record 'j run_info =
  run_uuid :: uuid
  run_owner :: actor
  run_label :: rstring
  run_status :: run_status
  run_start_seq :: nat
  run_end_seq :: "nat option"
  run_metadata :: "(rstring, 'j) btree"

record 'j agent_run_record =
  ar_port :: rstring
  ar_epoch :: uuid
  ar_run :: "'j run_info"
  ar_started_wall_time_ns :: int
  ar_through_seq :: nat
  ar_hidden :: bool

record agent_history_visibility =
  av_revision :: nat
  av_hidden :: "uuid list"

section \<open>The timeline\<close>

datatype direction = DRx | DTx | DNone

datatype event_kind =
    KRx | KTx | KSerialOpening | KSerialOpened | KSerialOpenFailed | KSerialClosed
  | KPortReconfigured | KPortRemoved | KControlGranted | KControlReleased | KControlRevoked
  | KControlExpired | KRunStartRequested | KRunStartApproved | KRunStartDenied
  | KRunStartTimedOut | KRunStartCancelled | KRunStarted | KRunEnded | KRunAborted
  | KTriggerStarted | KTriggerCompleted | KTriggerCancelled | KTriggerFailed
  | KCommandCaptureCompleted | KBreak | KCheckpoint | KLoggingDegraded | KGap

record 'j timeline_event =
  ev_port :: rstring
  ev_epoch :: uuid
  ev_seq :: nat
  ev_generation :: nat
  ev_wall_time_ns :: int
  ev_monotonic_time_ns :: nat
  ev_kind :: event_kind
  ev_direction :: direction
  ev_actor :: "actor option"
  ev_run_id :: "uuid option"
  ev_operation_id :: "uuid option"
  ev_offset_start :: "nat option"
  ev_offset_end :: "nat option"
  ev_data :: bytes
  ev_metadata :: "(rstring, 'j) btree"
  ev_durable :: bool

record cursor =
  cu_epoch :: uuid
  cu_after_seq :: nat

datatype gap_reason =
  EpochChanged | RingEvicted | Retention | Corruption | LoggingFault | SequenceDiscontinuity

end
