(* ===== verification/Storage.thy ===== *)
theory Storage
  imports Bytes "HOL-Library.Product_Lexorder"
begin

text \<open>
  What the daemon's stores use of the file system, and the one routine that writes them,
  \<open>atomic_write\<close> of \<open>crates/seriald/src/config.rs\<close>. A path is a directory and a file name. The
  answers of the operating system during one operation are an \<open>os\<close>: the error of each call, if
  any, how much of a failed write reached the file, the random identifiers drawn, as the \<open>uuid\<close>
  crate prints them, and how the \<open>read\<close> calls on an open file cut it up (with no answers left, a
  read gives all it is asked for).
\<close>

section \<open>Errors and files\<close>

datatype io_error_kind =
    IoNotFound | IoPermissionDenied | IoAlreadyExists | IoWouldBlock | IoInvalidInput | IoInvalidData
  | IoUnexpectedEof | IoInterrupted | IoOther | IoUncategorized nat

record io_error =
  io_kind :: io_error_kind
  io_text :: rstring

definition io_fail :: "io_error_kind \<Rightarrow> rstring \<Rightarrow> io_error" where
  "io_fail k t = \<lparr>io_kind = k, io_text = t\<rparr>"

type_synonym path = "rstring \<times> rstring"

datatype node = Regular bytes | Special

type_synonym files = "(path, node) btree"

datatype fs_call =
    FsMetadata path | FsRead path | FsReadDir rstring | FsCreateDir rstring | FsOpenNew path
  | FsWrite path | FsSync path | FsRename path path | FsSyncDir rstring | FsRemove path
  | FsDirEntry path | FsFileType path | FsOpen path | FsSeek path | FsSetLen path

text \<open>What one \<open>read\<close> call on an open file answers: an error, or at most so many bytes.\<close>

datatype read_answer = ReadFails io_error | Short nat

record os =
  os_fault :: "fs_call \<Rightarrow> io_error option"
  os_written :: nat
  os_uuids :: "rstring list"
  os_reads :: "path \<Rightarrow> read_answer list"

definition os_ok :: "rstring list \<Rightarrow> os" where
  "os_ok us = \<lparr>os_fault = \<lambda>_. None, os_written = 0, os_uuids = us, os_reads = \<lambda>_. []\<rparr>"

section \<open>Reading\<close>

text \<open>\<open>fs::symlink_metadata\<close>: whether the path is a regular file, and its length.\<close>

definition fs_metadata :: "os \<Rightarrow> path \<Rightarrow> files \<Rightarrow> io_error + (bool \<times> nat)" where
  "fs_metadata d p fs =
     (case os_fault d (FsMetadata p) of
        Some e \<Rightarrow> Inl e
      | None \<Rightarrow>
          (case bt_get fs p of
             None \<Rightarrow> Inl (io_fail IoNotFound (lit ''not found''))
           | Some (Regular bs) \<Rightarrow> Inr (True, length bs)
           | Some Special \<Rightarrow> Inr (False, 0)))"

definition fs_read :: "os \<Rightarrow> path \<Rightarrow> files \<Rightarrow> io_error + bytes" where
  "fs_read d p fs =
     (case os_fault d (FsRead p) of
        Some e \<Rightarrow> Inl e
      | None \<Rightarrow>
          (case bt_get fs p of
             Some (Regular bs) \<Rightarrow> Inr bs
           | _ \<Rightarrow> Inl (io_fail IoNotFound (lit ''not found''))))"

definition fs_call_ok :: "os \<Rightarrow> fs_call \<Rightarrow> io_error + unit" where
  "fs_call_ok d c = (case os_fault d c of Some e \<Rightarrow> Inl e | None \<Rightarrow> Inr ())"

text \<open>The names in a directory. A directory that does not exist reads as an empty one.\<close>

definition fs_read_dir :: "os \<Rightarrow> rstring \<Rightarrow> files \<Rightarrow> io_error + rstring list" where
  "fs_read_dir d dir fs =
     (case os_fault d (FsReadDir dir) of
        Some e \<Rightarrow> Inl e
      | None \<Rightarrow> Inr (map snd (filter (\<lambda>p. fst p = dir) (bt_keys fs))))"

definition fs_file_type :: "os \<Rightarrow> path \<Rightarrow> files \<Rightarrow> io_error + bool" where
  "fs_file_type d p fs =
     (case os_fault d (FsFileType p) of
        Some e \<Rightarrow> Inl e
      | None \<Rightarrow> Inr (case bt_get fs p of Some (Regular _) \<Rightarrow> True | _ \<Rightarrow> False))"

section \<open>The atomic write\<close>

definition temporary_name :: "rstring \<Rightarrow> rstring \<Rightarrow> rstring" where
  "temporary_name file_name u = lit ''.'' @ file_name @ lit ''.'' @ u @ lit ''.tmp''"

definition open_private_temporary :: "os \<Rightarrow> path \<Rightarrow> files \<Rightarrow> io_error + files" where
  "open_private_temporary d p fs =
     (case os_fault d (FsOpenNew p) of
        Some e \<Rightarrow> Inl e
      | None \<Rightarrow> if bt_contains fs p then Inl (io_fail IoAlreadyExists (lit ''exists''))
               else Inr (bt_insert p (Regular []) fs))"

definition replace_file :: "os \<Rightarrow> path \<Rightarrow> path \<Rightarrow> files \<Rightarrow> (io_error + unit) \<times> files" where
  "replace_file d source target fs =
     (case os_fault d (FsRename source target) of
        Some e \<Rightarrow> (Inl e, fs)
      | None \<Rightarrow>
          (case bt_get fs source of
             None \<Rightarrow> (Inl (io_fail IoNotFound (lit ''not found'')), fs)
           | Some n \<Rightarrow> (Inr (), bt_insert target n (bt_remove source fs))))"

definition sync_parent_directory :: "os \<Rightarrow> rstring \<Rightarrow> io_error + unit" where
  "sync_parent_directory d parent =
     (case os_fault d (FsSyncDir parent) of Some e \<Rightarrow> Inl e | None \<Rightarrow> Inr ())"

definition remove_file :: "os \<Rightarrow> path \<Rightarrow> files \<Rightarrow> files" where
  "remove_file d p fs = (if os_fault d (FsRemove p) = None then bt_remove p fs else fs)"

text \<open>The search for a free name; \<open>None\<close> when the identifiers drawn so far have all collided.\<close>

fun open_temporary ::
  "os \<Rightarrow> path \<Rightarrow> rstring list \<Rightarrow> path list \<Rightarrow> files \<Rightarrow> (io_error + path \<times> files) option" where
  "open_temporary d target [] attempted_paths fs = None"
| "open_temporary d target (u # us) attempted_paths fs =
     (let candidate = (fst target, temporary_name (snd target) u)
      in if candidate \<in> set attempted_paths then open_temporary d target us attempted_paths fs
         else (case open_private_temporary d candidate fs of
                 Inr fs' \<Rightarrow> Some (Inr (candidate, fs'))
               | Inl e \<Rightarrow>
                   if io_kind e = IoAlreadyExists
                   then open_temporary d target us (candidate # attempted_paths) fs
                   else Some (Inl e)))"

definition write_temporary :: "os \<Rightarrow> path \<Rightarrow> path \<Rightarrow> bytes \<Rightarrow> files \<Rightarrow> (io_error + unit) \<times> files" where
  "write_temporary d temporary target contents fs =
     (case os_fault d (FsWrite temporary) of
        Some e \<Rightarrow> (Inl e, bt_insert temporary (Regular (take (os_written d) contents)) fs)
      | None \<Rightarrow>
          (let fs = bt_insert temporary (Regular contents) fs
           in case os_fault d (FsSync temporary) of
                Some e \<Rightarrow> (Inl e, fs)
              | None \<Rightarrow>
                  (case replace_file d temporary target fs of
                     (Inl e, fs) \<Rightarrow> (Inl e, fs)
                   | (Inr _, fs) \<Rightarrow> (sync_parent_directory d (fst target), fs))))"

definition atomic_write :: "os \<Rightarrow> path \<Rightarrow> bytes \<Rightarrow> files \<Rightarrow> ((io_error + unit) \<times> files) option" where
  "atomic_write d target contents fs =
     (case open_temporary d target (os_uuids d) [] fs of
        None \<Rightarrow> None
      | Some (Inl e) \<Rightarrow> Some (Inl e, fs)
      | Some (Inr (temporary, fs)) \<Rightarrow>
          (case write_temporary d temporary target contents fs of
             (Inl e, fs) \<Rightarrow> Some (Inl e, remove_file d temporary fs)
           | (Inr _, fs) \<Rightarrow> Some (Inr (), fs)))"

section \<open>Atomicity\<close>

lemma temporary_name_neq [simp]: "temporary_name n u \<noteq> n" "n \<noteq> temporary_name n u"
proof -
  have "length (temporary_name n u) > length n" by (simp add: temporary_name_def lit_def)
  then show "temporary_name n u \<noteq> n" "n \<noteq> temporary_name n u" by auto
qed

lemma open_temporary_Inr:
  "open_temporary d target us ps fs = Some (Inr (tmp, fs')) \<Longrightarrow>
   tmp \<noteq> target \<and> fs' = bt_insert tmp (Regular []) fs \<and> bt_get fs tmp = None"
  by (induction d target us ps fs rule: open_temporary.induct)
    (auto simp: Let_def open_private_temporary_def bt_contains_def split: if_splits option.splits)

text \<open>The outcome of a write that returns, case by case.\<close>

lemma atomic_write_cases:
  assumes "atomic_write d target contents fs = Some (r, fs')"
  obtains (refused) e where "r = Inl e" "fs' = fs"
  | (failed) e tmp where "r = Inl e" "tmp \<noteq> target" "bt_get fs tmp = None"
      "\<And>p. p \<noteq> tmp \<Longrightarrow> bt_get fs' p = bt_get fs p"
  | (unsynced) e where "r = Inl e" "os_fault d (FsSyncDir (fst target)) = Some e"
      "\<And>p. bt_get fs' p = (if p = target then Some (Regular contents) else bt_get fs p)"
  | (stored) "r = Inr ()"
      "\<And>p. bt_get fs' p = (if p = target then Some (Regular contents) else bt_get fs p)"
proof (cases "open_temporary d target (os_uuids d) [] fs")
  case None
  with assms show ?thesis by (simp add: atomic_write_def)
next
  case (Some o1)
  show ?thesis
  proof (cases o1)
    case (Inl e)
    with Some assms show ?thesis by (intro refused) (auto simp: atomic_write_def)
  next
    case (Inr y)
    obtain tmp f1 where y: "y = (tmp, f1)" by fastforce
    have t: "tmp \<noteq> target" "f1 = bt_insert tmp (Regular []) fs" "bt_get fs tmp = None"
      using open_temporary_Inr Some Inr y by blast+
    obtain r2 f2 where w: "write_temporary d tmp target contents f1 = (r2, f2)" by fastforce
    have eq: "r = (case r2 of Inl e \<Rightarrow> Inl e | Inr _ \<Rightarrow> Inr ())"
      "fs' = (case r2 of Inl e \<Rightarrow> remove_file d tmp f2 | Inr _ \<Rightarrow> f2)"
      using assms Some Inr y w by (auto simp: atomic_write_def split: sum.splits)
    show ?thesis
    proof (cases "(\<exists>e. r2 = Inl e) \<and> (\<forall>p. p \<noteq> tmp \<longrightarrow> bt_get f2 p = bt_get fs p)")
      case True
      then obtain e where "r2 = Inl e" by blast
      with True eq t show ?thesis
        by (intro failed [of e tmp]) (auto simp: remove_file_def bt_get_remove)
    next
      case False
      then have r2: "(r2 = Inr () \<or> (\<exists>e. r2 = Inl e \<and> os_fault d (FsSyncDir (fst target)) = Some e)) \<and>
        (\<forall>p. bt_get f2 p = (if p = target then Some (Regular contents) else bt_get fs p))"
        using w t
        by (auto simp: write_temporary_def Let_def replace_file_def sync_parent_directory_def
            bt_get_insert bt_get_remove split: option.splits if_splits)
      then have *: "bt_get fs' p = (if p = target then Some (Regular contents) else bt_get fs p)" for p
        using eq t by (cases p) (auto simp: remove_file_def bt_get_remove)
      from r2 show ?thesis
      proof (elim conjE disjE exE)
        assume "r2 = Inr ()"
        with eq show ?thesis by (intro stored [OF _ *]) simp
      next
        fix e assume "r2 = Inl e" "os_fault d (FsSyncDir (fst target)) = Some e"
        with eq show ?thesis by (intro unsynced [OF _ _ *]) simp_all
      qed
    qed
  qed
qed

lemma atomic_write_target:
  "atomic_write d target contents fs = Some (r, fs') \<Longrightarrow>
   bt_get fs' target = bt_get fs target \<or> bt_get fs' target = Some (Regular contents)"
  by (erule atomic_write_cases) auto

lemma atomic_write_ok:
  "atomic_write d target contents fs = Some (Inr u, fs') \<Longrightarrow>
   bt_get fs' p = (if p = target then Some (Regular contents) else bt_get fs p)"
  by (erule atomic_write_cases) auto

lemma atomic_write_err:
  "atomic_write d target contents fs = Some (Inl e, fs') \<Longrightarrow>
   os_fault d (FsSyncDir (fst target)) = None \<Longrightarrow> bt_get fs' target = bt_get fs target"
  by (erule atomic_write_cases) auto

text \<open>Existing files other than the target are never touched.\<close>

lemma atomic_write_frame:
  "atomic_write d target contents fs = Some (r, fs') \<Longrightarrow> p \<noteq> target \<Longrightarrow> bt_get fs p = Some n \<Longrightarrow>
   bt_get fs' p = Some n"
  by (erule atomic_write_cases) (simp_all, metis option.distinct(1))

lemma atomic_write_wf:
  "bt_wf fs \<Longrightarrow> atomic_write d target contents fs = Some (r, fs') \<Longrightarrow> bt_wf fs'"
proof -
  have o: "bt_wf fs \<Longrightarrow> open_temporary d target us ps fs = Some (Inr (tmp, fs1)) \<Longrightarrow> bt_wf fs1" for us ps tmp fs1
    using open_temporary_Inr [of d target us ps fs tmp fs1] by (auto intro: bt_wf_insert)
  assume "bt_wf fs" "atomic_write d target contents fs = Some (r, fs')"
  then show ?thesis
    by (auto simp: atomic_write_def write_temporary_def Let_def replace_file_def remove_file_def
        sync_parent_directory_def split: option.splits sum.splits if_splits prod.splits
        intro!: bt_wf_insert bt_wf_remove dest!: o)
qed

lemma open_temporary_returns:
  assumes "u \<in> set us" "\<not> bt_contains fs (fst target, temporary_name (snd target) u)"
    "(fst target, temporary_name (snd target) u) \<notin> set ps"
    "\<And>p. os_fault d (FsOpenNew p) = None"
  shows "\<exists>y. open_temporary d target us ps fs = Some y"
  using assms
proof (induction us arbitrary: ps)
  case (Cons v us)
  show ?case
  proof (cases "temporary_name (snd target) v = temporary_name (snd target) u")
    case True
    with Cons.prems show ?thesis by (auto simp: Let_def open_private_temporary_def)
  next
    case False
    with Cons.prems have "u \<in> set us" by auto
    note IH = Cons.IH [OF this Cons.prems(2)]
    show ?thesis using Cons.prems False IH [of ps]
        IH [of "(fst target, temporary_name (snd target) v) # ps"]
      by (auto simp: Let_def open_private_temporary_def split: sum.splits if_splits)
  qed
qed simp

text \<open>One free identifier among those drawn is enough for the write to return.\<close>

lemma atomic_write_returns:
  assumes "u \<in> set (os_uuids d)" "\<not> bt_contains fs (fst target, temporary_name (snd target) u)"
    "\<And>p. os_fault d (FsOpenNew p) = None"
  shows "\<exists>r fs'. atomic_write d target contents fs = Some (r, fs')"
  using open_temporary_returns [OF assms(1,2) _ assms(3), of "[]"]
  by (auto simp: atomic_write_def split: sum.splits prod.splits)

section \<open>JSON\<close>

text \<open>The encoder and decoder of \<open>serde_json\<close>, third-party code, at one type.\<close>

record 'a codec =
  encode_json :: "'a \<Rightarrow> io_error + bytes"
  decode_json :: "bytes \<Rightarrow> io_error + 'a"

text \<open>What the stores rely on: a value that was encoded decodes to itself.\<close>

definition codec_ok :: "'a codec \<Rightarrow> bool" where
  "codec_ok c \<longleftrightarrow> (\<forall>x bs. encode_json c x = Inr bs \<longrightarrow> decode_json c bs = Inr x)"

end
