(* ===== verification/Steps.thy ===== *)
theory Steps
  imports Prelude
begin

text \<open>
  Two contracts the components share. A \<open>machine\<close> keeps an invariant under each of its calls
  and has a counter that never goes back. A \<open>versioned_store\<close> changes its data only together
  with its revision: the contract behind every optimistic check of a revision in the daemon.
\<close>

locale machine =
  fixes step :: "'c \<Rightarrow> 's \<Rightarrow> 's"
    and inv :: "'s \<Rightarrow> bool"
    and stamp :: "'s \<Rightarrow> nat"
  assumes step_inv: "inv s \<Longrightarrow> inv (step c s)"
    and step_stamp: "inv s \<Longrightarrow> stamp s \<le> stamp (step c s)"
begin

lemma run_inv: "inv s \<Longrightarrow> inv (fold step cs s)"
  by (induction cs arbitrary: s) (auto intro: step_inv)

lemma run_stamp: "inv s \<Longrightarrow> stamp s \<le> stamp (fold step cs s)"
proof (induction cs arbitrary: s)
  case (Cons c cs)
  have "stamp s \<le> stamp (step c s)" by (rule step_stamp [OF Cons.prems])
  also have "\<dots> \<le> stamp (fold step cs (step c s))" by (rule Cons.IH [OF step_inv [OF Cons.prems]])
  finally show ?case by simp
qed simp

lemma run_between: "inv s \<Longrightarrow> stamp (fold step cs s) \<le> stamp (fold step (cs @ ds) s)"
  using run_stamp [OF run_inv, of s cs ds] by simp

end

locale versioned_store =
  fixes commit :: "'c \<Rightarrow> 's \<Rightarrow> 's"
    and rev :: "'s \<Rightarrow> nat"
    and data :: "'s \<Rightarrow> 'd"
    and inv :: "'s \<Rightarrow> bool"
  assumes commit_inv: "inv s \<Longrightarrow> inv (commit c s)"
    and commit_rev: "inv s \<Longrightarrow>
      (rev (commit c s) = rev s \<and> data (commit c s) = data s) \<or> rev (commit c s) = Suc (rev s)"

sublocale versioned_store \<subseteq> machine commit inv rev
proof unfold_locales
  show "inv s \<Longrightarrow> inv (commit c s)" for s c by (rule commit_inv)
  show "rev s \<le> rev (commit c s)" if "inv s" for s c using commit_rev [OF that, of c] by auto
qed

context versioned_store
begin

text \<open>An unchanged revision certifies unchanged data: no change can hide behind it.\<close>

lemma same_revision_same_data:
  "inv s \<Longrightarrow> rev (fold commit cs s) = rev s \<Longrightarrow> data (fold commit cs s) = data s"
proof (induction cs arbitrary: s)
  case (Cons c cs)
  have "rev (commit c s) \<le> rev (fold commit cs (commit c s))"
    by (rule run_stamp [OF commit_inv [OF Cons.prems(1)]])
  then have "rev (commit c s) = rev s \<and> data (commit c s) = data s"
    using commit_rev [OF Cons.prems(1), of c] Cons.prems(2) by auto
  with Cons show ?case by (simp add: commit_inv)
qed simp

lemma revision_bound: "inv s \<Longrightarrow> rev (fold commit cs s) \<le> rev s + length cs"
proof (induction cs arbitrary: s)
  case (Cons c cs)
  then show ?case using commit_rev [of s c] Cons.IH [OF commit_inv, of s c] by auto
qed simp

end

end
