(* ===== verification/MacroCatalog.thy ===== *)
theory MacroCatalog
  imports Protocol Storage Steps MacroSafety "HOL-Library.Sublist"
begin

text \<open>
  \<open>crates/seriald/src/macros.rs\<close> with its types in \<open>crates/serial-protocol/src/features.rs\<close>: the
  catalog of Macro Scripts. Saving validates and compiles a definition, checks the revision the
  client expects and writes the catalog; preparing turns a request to run a macro into a compiled
  program and its arguments. The mutex of the code makes every operation one step.
\<close>

definition MACRO_LANGUAGE_VERSION :: nat where "MACRO_LANGUAGE_VERSION = 1"
definition MAX_MACRO_TIMEOUT_SECONDS :: nat where "MAX_MACRO_TIMEOUT_SECONDS = 120"
definition MAX_MACROS :: nat where "MAX_MACROS = 512"
definition MAX_CATALOG_BYTES :: nat where "MAX_CATALOG_BYTES = 40 * 1024 * 1024"

section \<open>Data\<close>

datatype parameter_type = PString | PInteger | PBoolean

record 'j macro_parameter =
  mp_value_type :: parameter_type
  mp_default :: "'j option"
  mp_minimum :: "int option"
  mp_maximum :: "int option"
  mp_description :: "rstring option"

record macro_applicability =
  ma_model_family :: rstring
  ma_model_names :: "rstring list"

record 'j macro_definition =
  md_id :: rstring
  md_name :: rstring
  md_description :: rstring
  md_language_version :: nat
  md_revision :: nat
  md_parameters :: "(rstring, 'j macro_parameter) btree"
  md_script :: rstring
  md_shared :: bool
  md_applies_to :: "macro_applicability option"
  md_updated_at_ns :: int

record 'j macro_summary =
  ms_id :: rstring
  ms_name :: rstring
  ms_description :: rstring
  ms_language_version :: nat
  ms_revision :: nat
  ms_parameters :: "(rstring, 'j macro_parameter) btree"
  ms_shared :: bool
  ms_applies_to :: "macro_applicability option"

definition macro_summary :: "'j macro_definition \<Rightarrow> 'j macro_summary" where
  "macro_summary v =
     \<lparr>ms_id = md_id v, ms_name = md_name v, ms_description = md_description v,
      ms_language_version = md_language_version v, ms_revision = md_revision v,
      ms_parameters = md_parameters v, ms_shared = md_shared v, ms_applies_to = md_applies_to v\<rparr>"

record macro_list_query =
  mq_id :: "rstring option"
  mq_query :: "rstring option"
  mq_include_drafts :: bool
  mq_offset :: "nat option"
  mq_limit :: "nat option"

record 'j macro_list_response =
  ml_catalog_revision :: nat
  ml_macros :: "'j macro_summary list"
  ml_definition :: "'j macro_definition option"
  ml_total :: nat
  ml_next_offset :: "nat option"

record 'j macro_save_request =
  mr_id :: rstring
  mr_name :: rstring
  mr_description :: rstring
  mr_parameters :: "(rstring, 'j macro_parameter) btree"
  mr_script :: rstring
  mr_expected_revision :: "nat option"
  mr_shared :: "bool option"
  mr_applies_to :: "macro_applicability option"

record 'j macro_save_response =
  mv_catalog_revision :: nat
  mv_definition :: "'j macro_definition"

record 'j macro_run_spec =
  mx_macro_id :: "rstring option"
  mx_revision :: "nat option"
  mx_script :: "rstring option"
  mx_description :: "rstring option"
  mx_args :: "(rstring, 'j) btree"
  mx_timeout_seconds :: nat

datatype macro_failure =
    MInvalid rstring
  | MScript fault
  | MNotFound rstring
  | MConflict rstring "nat option" nat
  | MStorage io_error
  | MCodec io_error

record 'j catalog =
  ct_revision :: nat
  ct_macros :: "(rstring, 'j macro_definition) btree"

definition catalog_default :: "'j catalog" where
  "catalog_default = \<lparr>ct_revision = 0, ct_macros = bt_empty\<rparr>"

record 'j prepared_macro =
  pm_spec :: "'j macro_run_spec"
  pm_definition :: "'j macro_definition option"
  pm_program :: program
  pm_arguments :: "(rstring, val) btree"
  pm_description :: rstring

section \<open>Validation\<close>

text \<open>The Unicode property \<open>White_Space\<close> and \<open>str::trim\<close>.\<close>

definition is_whitespace :: "rchar \<Rightarrow> bool" where
  "is_whitespace c \<longleftrightarrow>
     (9 \<le> c \<and> c \<le> 13) \<or> c = 0x20 \<or> c = 0x85 \<or> c = 0xA0 \<or> c = 0x1680 \<or> (0x2000 \<le> c \<and> c \<le> 0x200A) \<or>
     c = 0x2028 \<or> c = 0x2029 \<or> c = 0x202F \<or> c = 0x205F \<or> c = 0x3000"

definition str_trim :: "rstring \<Rightarrow> rstring" where
  "str_trim s = rev (dropWhile is_whitespace (rev (dropWhile is_whitespace s)))"

definition validate_label :: "rstring \<Rightarrow> rstring \<Rightarrow> nat \<Rightarrow> macro_failure + unit" where
  "validate_label field v maximum =
     (if str_trim v \<noteq> v \<or> v = [] \<or> maximum < str_len v \<or> list_ex is_control v
      then Inl (MInvalid (field @ lit '' must be nonempty, trimmed, control-free and at most ''
        @ digits_of maximum @ lit '' bytes''))
      else Inr ())"

definition argument :: "'j json_api \<Rightarrow> rstring \<Rightarrow> 'j macro_parameter \<Rightarrow> 'j \<Rightarrow> macro_failure + val" where
  "argument j name parameter v =
     (let invalid = MInvalid (lit ''args.'' @ name @ lit '': value violates declared type or bounds'')
      in case mp_value_type parameter of
           PString \<Rightarrow>
             (case as_str j v of
                Some t \<Rightarrow> if str_len t \<le> 4096 then Inr (VString t) else Inl invalid
              | None \<Rightarrow> Inl invalid)
         | PBoolean \<Rightarrow> (case as_bool j v of Some b \<Rightarrow> Inr (VBoolean b) | None \<Rightarrow> Inl invalid)
         | PInteger \<Rightarrow>
             (case as_i64 j v of
                Some i \<Rightarrow>
                  if (case mp_minimum parameter of None \<Rightarrow> True | Some m \<Rightarrow> m \<le> i) \<and>
                     (case mp_maximum parameter of None \<Rightarrow> True | Some m \<Rightarrow> i \<le> m)
                  then Inr (VInteger i) else Inl invalid
              | None \<Rightarrow> Inl invalid))"

fun script_type :: "parameter_type \<Rightarrow> valty" where
  "script_type PString = TString"
| "script_type PInteger = TInteger"
| "script_type PBoolean = TBoolean"

definition macro_parameter_name :: "rstring \<Rightarrow> bool" where
  "macro_parameter_name name \<longleftrightarrow>
     name \<noteq> [] \<and> str_len name \<le> 64 \<and>
     (\<forall>i < length name. name ! i = 95 \<or> is_ascii_alphabetic (name ! i) \<or> (0 < i \<and> is_ascii_digit (name ! i)))"

definition parameter_entry ::
  "'j json_api \<Rightarrow> rstring \<times> 'j macro_parameter \<Rightarrow> macro_failure + rstring \<times> valty" where
  "parameter_entry j = (\<lambda>(name, parameter).
     sbind (guard_ok (macro_parameter_name name)
       (MInvalid (lit ''invalid parameter name '' @ name))) (\<lambda>_.
     sbind (guard_ok (\<not> ((mp_minimum parameter \<noteq> None \<or> mp_maximum parameter \<noteq> None) \<and>
         mp_value_type parameter \<noteq> PInteger))
       (MInvalid (name @ lit '': bounds require integer type''))) (\<lambda>_.
     sbind (guard_ok (\<not> (case (mp_minimum parameter, mp_maximum parameter) of
         (Some a, Some b) \<Rightarrow> b < a | _ \<Rightarrow> False))
       (MInvalid (name @ lit '': minimum exceeds maximum''))) (\<lambda>_.
     sbind (case mp_default parameter of
         None \<Rightarrow> Inr () | Some v \<Rightarrow> sbind (argument j name parameter v) (\<lambda>_. Inr ())) (\<lambda>_.
     sbind (case mp_description parameter of
         None \<Rightarrow> Inr ()
       | Some t \<Rightarrow> validate_label (lit ''parameters.'' @ name @ lit ''.description'') t 1024) (\<lambda>_.
     Inr (name, script_type (mp_value_type parameter))))))))"

definition parameter_types ::
  "'j json_api \<Rightarrow> (rstring, 'j macro_parameter) btree \<Rightarrow> macro_failure + (rstring, valty) btree" where
  "parameter_types j parameters =
     (if length parameters > 32 then Inl (MInvalid (lit ''at most 32 parameters''))
      else map_ok (parameter_entry j) parameters)"

definition valid_macro_id :: "rstring \<Rightarrow> bool" where
  "valid_macro_id i \<longleftrightarrow>
     \<not> (i = [] \<or> 80 < str_len i \<or>
        \<not> list_all (\<lambda>b. is_ascii_lowercase b \<or> is_ascii_digit b \<or> b = 95 \<or> b = 45) i)"

definition validate_applies :: "macro_applicability \<Rightarrow> macro_failure + unit" where
  "validate_applies a =
     sbind (validate_label (lit ''applies_to.model_family'') (ma_model_family a) 128) (\<lambda>_.
     if length (ma_model_names a) > 128 then Inl (MInvalid (lit ''too many model names''))
     else each_ok (\<lambda>name. validate_label (lit ''model_name'') name 128) (ma_model_names a))"

definition validate_definition :: "'j json_api \<Rightarrow> 'j macro_definition \<Rightarrow> macro_failure + unit" where
  "validate_definition j d =
     sbind (guard_ok (valid_macro_id (md_id d))
       (MInvalid (lit ''id must use 1..80 lowercase letters, digits, _ or -''))) (\<lambda>_.
     sbind (validate_label (lit ''name'') (md_name d) 128) (\<lambda>_.
     sbind (validate_label (lit ''description'') (md_description d) 256) (\<lambda>_.
     sbind (case md_applies_to d of None \<Rightarrow> Inr () | Some a \<Rightarrow> validate_applies a) (\<lambda>_.
     sbind (parameter_types j (md_parameters d)) (\<lambda>types.
     sbind (map_error MScript (compile (md_script d) types default_limits)) (\<lambda>_. Inr ()))))))"

definition arguments ::
  "'j json_api \<Rightarrow> (rstring, 'j macro_parameter) btree \<Rightarrow> (rstring, 'j) btree \<Rightarrow>
   macro_failure + (rstring, val) btree" where
  "arguments j parameters args =
     (case find (\<lambda>name. \<not> bt_contains parameters name) (bt_keys args) of
        Some name \<Rightarrow> Inl (MInvalid (lit ''unknown args.'' @ name))
      | None \<Rightarrow>
          map_ok (\<lambda>(name, parameter).
            sbind (ok_or (case bt_get args name of Some v \<Rightarrow> Some v | None \<Rightarrow> mp_default parameter)
                (MInvalid (lit ''missing args.'' @ name))) (\<lambda>v.
            sbind (argument j name parameter v) (\<lambda>a. Inr (name, a)))) parameters)"

section \<open>The store\<close>

definition check_entry :: "'j json_api \<Rightarrow> rstring \<times> 'j macro_definition \<Rightarrow> macro_failure + unit" where
  "check_entry j = (\<lambda>(i, d).
     if i \<noteq> md_id d \<or> md_language_version d \<noteq> MACRO_LANGUAGE_VERSION
     then Inl (MInvalid (lit ''catalog identity/language version mismatch''))
     else validate_definition j d)"

definition catalog_load ::
  "os \<Rightarrow> 'j json_api \<Rightarrow> 'j catalog codec \<Rightarrow> path \<Rightarrow> files \<Rightarrow> macro_failure + 'j catalog" where
  "catalog_load d j json p fs =
     (case fs_metadata d p fs of
        Inr (is_file, len) \<Rightarrow>
          if \<not> is_file \<or> MAX_CATALOG_BYTES < len
          then Inl (MInvalid (lit ''catalog is not a bounded regular file''))
          else sbind (map_error MStorage (fs_read d p fs)) (\<lambda>bs.
               sbind (map_error MCodec (decode_json json bs)) (\<lambda>state.
               if length (ct_macros state) > MAX_MACROS
               then Inl (MInvalid (lit ''catalog capacity exceeded''))
               else sbind (each_ok (check_entry j) (ct_macros state)) (\<lambda>_. Inr state)))
      | Inl e \<Rightarrow> if io_kind e = IoNotFound then Inr catalog_default else Inl (MStorage e))"

text \<open>\<open>with_catalog\<close>: the catalog is read at the first use; the state is what is cached.\<close>

definition cached ::
  "os \<Rightarrow> 'j json_api \<Rightarrow> 'j catalog codec \<Rightarrow> path \<Rightarrow> files \<Rightarrow> 'j catalog option \<Rightarrow> macro_failure + 'j catalog" where
  "cached d j json p fs state =
     (case state of Some c \<Rightarrow> Inr c | None \<Rightarrow> catalog_load d j json p fs)"

definition summary_text :: "'j macro_definition \<Rightarrow> rstring" where
  "summary_text d = md_id d @ lit '' '' @ md_name d @ lit '' '' @ md_description d"

text \<open>\<open>lower\<close> is \<open>str::to_lowercase\<close>, the case tables of Unicode.\<close>

definition list_candidates ::
  "(rstring \<Rightarrow> rstring) \<Rightarrow> macro_list_query \<Rightarrow> 'j catalog \<Rightarrow> 'j macro_definition list" where
  "list_candidates lower q c =
     (let text = lower (case mq_query q of None \<Rightarrow> [] | Some t \<Rightarrow> t)
      in filter (\<lambda>d. (mq_include_drafts q \<or> md_shared d) \<and>
           (text = [] \<or> sublist text (lower (summary_text d)))) (bt_values (ct_macros c)))"

definition list_limit :: "macro_list_query \<Rightarrow> nat" where
  "list_limit q = max 1 (min (case mq_limit q of None \<Rightarrow> 50 | Some n \<Rightarrow> n) 100)"

definition list_catalog ::
  "(rstring \<Rightarrow> rstring) \<Rightarrow> macro_list_query \<Rightarrow> 'j catalog \<Rightarrow> macro_failure + 'j macro_list_response" where
  "list_catalog lower q c =
     (case mq_id q of
        Some i \<Rightarrow>
          sbind (ok_or (bt_get (ct_macros c) i) (MNotFound i)) (\<lambda>d.
          Inr \<lparr>ml_catalog_revision = ct_revision c, ml_macros = [macro_summary d],
               ml_definition = Some d, ml_total = 1, ml_next_offset = None\<rparr>)
      | None \<Rightarrow>
          (let candidates = list_candidates lower q c;
               total = length candidates;
               offset = (case mq_offset q of None \<Rightarrow> 0 | Some n \<Rightarrow> n);
               macros = map macro_summary (take (list_limit q) (drop offset candidates));
               end_offset = saturating_add_u64 offset (length macros)
           in Inr \<lparr>ml_catalog_revision = ct_revision c, ml_macros = macros, ml_definition = None,
                   ml_total = total,
                   ml_next_offset = (if end_offset < total then Some end_offset else None)\<rparr>))"

definition macro_list ::
  "os \<Rightarrow> 'j json_api \<Rightarrow> 'j catalog codec \<Rightarrow> path \<Rightarrow> (rstring \<Rightarrow> rstring) \<Rightarrow> macro_list_query \<Rightarrow> files \<Rightarrow>
   'j catalog option \<Rightarrow> (macro_failure + 'j macro_list_response) \<times> 'j catalog option" where
  "macro_list d j json p lower q fs state =
     (if mq_id q \<noteq> None \<and> (mq_query q \<noteq> None \<or> mq_offset q \<noteq> None)
      then (Inl (MInvalid (lit ''id lookup cannot be combined with search/pagination'')), state)
      else case cached d j json p fs state of
             Inl e \<Rightarrow> (Inl e, state)
           | Inr c \<Rightarrow> (list_catalog lower q c, Some c))"

section \<open>Saving\<close>

definition next_macro_revision :: "'j macro_save_request \<Rightarrow> 'j catalog \<Rightarrow> macro_failure + nat" where
  "next_macro_revision r c =
     (case bt_get (ct_macros c) (mr_id r) of
        Some previous \<Rightarrow>
          if mr_expected_revision r = Some (md_revision previous)
          then ok_or (checked_add_u64 (md_revision previous) 1) (MInvalid (lit ''revision exhausted''))
          else Inl (MConflict (mr_id r) (mr_expected_revision r) (md_revision previous))
      | None \<Rightarrow>
          if mr_expected_revision r \<noteq> None then Inl (MNotFound (mr_id r))
          else if length (ct_macros c) \<ge> MAX_MACROS then Inl (MInvalid (lit ''macro catalog is full''))
          else Inr 1)"

text \<open>\<open>now\<close> is the clock in nanoseconds, \<open>None\<close> when it does not fit.\<close>

definition requested_definition ::
  "'j macro_save_request \<Rightarrow> int option \<Rightarrow> nat \<Rightarrow> 'j catalog \<Rightarrow> 'j macro_definition" where
  "requested_definition r now revision c =
     \<lparr>md_id = mr_id r, md_name = mr_name r, md_description = mr_description r,
      md_language_version = MACRO_LANGUAGE_VERSION, md_revision = revision,
      md_parameters = mr_parameters r, md_script = mr_script r,
      md_shared = (case mr_shared r of
          Some b \<Rightarrow> b
        | None \<Rightarrow> (case bt_get (ct_macros c) (mr_id r) of None \<Rightarrow> False | Some d \<Rightarrow> md_shared d)),
      md_applies_to = mr_applies_to r,
      md_updated_at_ns = (case now of None \<Rightarrow> I64_MAX | Some t \<Rightarrow> t)\<rparr>"

text \<open>The next catalog and its encoding, before anything is written.\<close>

definition save_plan ::
  "'j json_api \<Rightarrow> 'j catalog codec \<Rightarrow> 'j macro_save_request \<Rightarrow> int option \<Rightarrow> 'j catalog \<Rightarrow>
   macro_failure + ('j macro_definition \<times> 'j catalog \<times> bytes)" where
  "save_plan j json r now c =
     sbind (next_macro_revision r c) (\<lambda>revision.
     let d = requested_definition r now revision c
     in sbind (validate_definition j d) (\<lambda>_.
        sbind (ok_or (checked_add_u64 (ct_revision c) 1)
          (MInvalid (lit ''catalog revision exhausted''))) (\<lambda>catalog_revision.
        let next_catalog = \<lparr>ct_revision = catalog_revision,
                            ct_macros = bt_insert (md_id d) d (ct_macros c)\<rparr>
        in sbind (map_error MCodec (encode_json json next_catalog)) (\<lambda>bs.
           if length bs > MAX_CATALOG_BYTES then Inl (MInvalid (lit ''catalog size limit''))
           else Inr (d, next_catalog, bs)))))"

definition macro_save ::
  "os \<Rightarrow> 'j json_api \<Rightarrow> 'j catalog codec \<Rightarrow> path \<Rightarrow> 'j macro_save_request \<Rightarrow> int option \<Rightarrow> files \<Rightarrow>
   'j catalog option \<Rightarrow>
   ((macro_failure + 'j macro_save_response) \<times> 'j catalog option \<times> files) option" where
  "macro_save d j json p r now fs state =
     (case cached d j json p fs state of
        Inl e \<Rightarrow> Some (Inl e, state, fs)
      | Inr c \<Rightarrow>
          (case save_plan j json r now c of
             Inl e \<Rightarrow> Some (Inl e, Some c, fs)
           | Inr (definition1, next_catalog, bs) \<Rightarrow>
               (case atomic_write d p bs fs of
                  None \<Rightarrow> None
                | Some (Inl e, fs') \<Rightarrow> Some (Inl (MStorage e), Some c, fs')
                | Some (Inr _, fs') \<Rightarrow>
                    Some (Inr \<lparr>mv_catalog_revision = ct_revision next_catalog, mv_definition = definition1\<rparr>,
                          Some next_catalog, fs'))))"

section \<open>Preparing a run\<close>

definition lookup_revision :: "rstring \<Rightarrow> nat \<Rightarrow> 'j catalog \<Rightarrow> macro_failure + 'j macro_definition" where
  "lookup_revision i revision c =
     sbind (ok_or (bt_get (ct_macros c) i) (MNotFound i)) (\<lambda>d.
     if md_revision d \<noteq> revision then Inl (MConflict i (Some revision) (md_revision d)) else Inr d)"

text \<open>What the request names: a stored macro of that revision, or an inline script.\<close>

definition run_source ::
  "os \<Rightarrow> 'j json_api \<Rightarrow> 'j catalog codec \<Rightarrow> path \<Rightarrow> 'j macro_run_spec \<Rightarrow> files \<Rightarrow> 'j catalog option \<Rightarrow>
   (macro_failure + 'j macro_definition option \<times> rstring) \<times> 'j catalog option" where
  "run_source d j json p spec fs state =
     (case (mx_macro_id spec, mx_script spec, mx_revision spec) of
        (Some i, None, Some revision) \<Rightarrow>
          (case cached d j json p fs state of
             Inl e \<Rightarrow> (Inl e, state)
           | Inr c \<Rightarrow>
               (sbind (lookup_revision i revision c) (\<lambda>m. Inr (Some m, md_script m)), Some c))
      | (None, Some source, None) \<Rightarrow>
          if mx_args spec = [] then (Inr (None, source), state)
          else (Inl (MInvalid (lit ''choose macro_id+revision+args OR inline script without args/revision'')), state)
      | _ \<Rightarrow>
          (Inl (MInvalid (lit ''choose macro_id+revision+args OR inline script without args/revision'')), state))"

definition prepare_source ::
  "'j json_api \<Rightarrow> 'j macro_run_spec \<Rightarrow> 'j macro_definition option \<Rightarrow> rstring \<Rightarrow> macro_failure + 'j prepared_macro" where
  "prepare_source j spec definition1 source =
     (let parameters = (case definition1 of None \<Rightarrow> bt_empty | Some m \<Rightarrow> md_parameters m);
          description =
            (case mx_description spec of
               Some t \<Rightarrow> t
             | None \<Rightarrow> (case definition1 of
                 Some m \<Rightarrow> md_description m | None \<Rightarrow> lit ''Run inline Macro Script v1''))
      in sbind (validate_label (lit ''description'') description 256) (\<lambda>_.
         sbind (parameter_types j parameters) (\<lambda>types.
         sbind (map_error MScript (compile source types default_limits)) (\<lambda>program.
         sbind (arguments j parameters (mx_args spec)) (\<lambda>args.
         Inr \<lparr>pm_spec = spec, pm_definition = definition1, pm_program = program,
              pm_arguments = args, pm_description = description\<rparr>)))))"

definition macro_prepare ::
  "os \<Rightarrow> 'j json_api \<Rightarrow> 'j catalog codec \<Rightarrow> path \<Rightarrow> 'j macro_run_spec \<Rightarrow> files \<Rightarrow> 'j catalog option \<Rightarrow>
   (macro_failure + 'j prepared_macro) \<times> 'j catalog option" where
  "macro_prepare d j json p spec fs state =
     (if \<not> (1 \<le> mx_timeout_seconds spec \<and> mx_timeout_seconds spec \<le> MAX_MACRO_TIMEOUT_SECONDS)
      then (Inl (MInvalid (lit ''timeout_seconds must be 1..='' @ digits_of MAX_MACRO_TIMEOUT_SECONDS)), state)
      else case run_source d j json p spec fs state of
             (Inl e, state') \<Rightarrow> (Inl e, state')
           | (Inr (definition1, source), state') \<Rightarrow> (prepare_source j spec definition1 source, state'))"

end
