(* ===== verification/MacroCatalogProps.thy ===== *)
theory MacroCatalogProps
  imports MacroCatalog
begin

text \<open>
  Correctness of the catalog: its invariant, optimistic concurrency on revisions, what survives a
  failed write and a restart, pagination, and that whatever it prepares is a typed program whose
  arguments the virtual machine accepts.
\<close>

section \<open>Results\<close>

lemma set_bt_insert: "set (bt_insert k v m) \<subseteq> insert (k, v) (set m)"
  by (induction k v m rule: bt_insert.induct) auto

section \<open>Parameters and arguments\<close>

definition json_ok :: "'j json_api \<Rightarrow> bool" where
  "json_ok j \<longleftrightarrow> (\<forall>v i. as_i64 j v = Some i \<longrightarrow> in_i64 i)"

text \<open>The values a parameter admits.\<close>

fun admits :: "'j macro_parameter \<Rightarrow> val \<Rightarrow> bool" where
  "admits q (VString t) \<longleftrightarrow> mp_value_type q = PString \<and> str_len t \<le> 4096"
| "admits q (VBoolean b) \<longleftrightarrow> mp_value_type q = PBoolean"
| "admits q (VInteger i) \<longleftrightarrow> mp_value_type q = PInteger \<and>
     (\<forall>m. mp_minimum q = Some m \<longrightarrow> m \<le> i) \<and> (\<forall>m. mp_maximum q = Some m \<longrightarrow> i \<le> m)"

lemma argument_admits: "argument j name q v = Inr a \<Longrightarrow> admits q a"
  by (auto simp: argument_def Let_def split: parameter_type.splits option.splits if_splits)

lemma argument_range: "argument j name q v = Inr (VInteger i) \<Longrightarrow> json_ok j \<Longrightarrow> in_i64 i"
  by (auto simp: argument_def Let_def json_ok_def split: parameter_type.splits option.splits if_splits)

lemma admits_type: "admits q a \<Longrightarrow> value_type a = script_type (mp_value_type q)"
  by (cases a) auto

lemma parameter_entry_Inr:
  assumes "parameter_entry j x = Inr y"
  shows "y = (fst x, script_type (mp_value_type (snd x))) \<and> macro_parameter_name (fst x)"
  using assms by (auto simp: parameter_entry_def res_simps split: prod.splits)

lemma parameter_types_Inr:
  assumes "parameter_types j ps = Inr types"
  shows "types = map (\<lambda>x. (fst x, script_type (mp_value_type (snd x)))) ps \<and> length ps \<le> 32"
proof -
  have "map_ok (parameter_entry j) ps = Inr types" and l: "length ps \<le> 32"
    using assms by (auto simp: parameter_types_def split: if_splits)
  then have "list_all2 (\<lambda>x y. parameter_entry j x = Inr y) ps types" by (simp add: map_ok_Inr_iff)
  then have "types = map (\<lambda>x. (fst x, script_type (mp_value_type (snd x)))) ps"
    by (induction rule: list_all2_induct) (auto dest: parameter_entry_Inr)
  with l show ?thesis by simp
qed

lemma arguments_Inr:
  assumes "arguments j ps args = Inr values"
  shows "list_all2 (\<lambda>x y. fst y = fst x \<and> admits (snd x) (snd y) \<and>
      (json_ok j \<longrightarrow> (\<forall>i. snd y = VInteger i \<longrightarrow> in_i64 i))) ps values"
    and "set (bt_keys args) \<subseteq> set (bt_keys ps)"
proof -
  have u: "find (\<lambda>name. \<not> bt_contains ps name) (bt_keys args) = None"
    using assms by (auto simp: arguments_def split: option.splits)
  then show "set (bt_keys args) \<subseteq> set (bt_keys ps)"
    by (auto simp: find_None_iff bt_contains_keys)
  have "list_all2 (\<lambda>(name, q) y. \<exists>v a. argument j name q v = Inr a \<and> y = (name, a)) ps values"
    using assms u
    by (auto simp: arguments_def map_ok_Inr_iff res_simps elim!: list_all2_mono split: prod.splits)
  then show "list_all2 (\<lambda>x y. fst y = fst x \<and> admits (snd x) (snd y) \<and>
      (json_ok j \<longrightarrow> (\<forall>i. snd y = VInteger i \<longrightarrow> in_i64 i))) ps values"
    by (rule list_all2_mono) (auto intro: argument_admits argument_range)
qed

lemma arguments_keys: "arguments j ps args = Inr values \<Longrightarrow> bt_keys values = bt_keys ps"
  by (drule arguments_Inr(1), induction rule: list_all2_induct) (auto simp: bt_keys_def)

lemma arguments_get:
  assumes a: "arguments j ps args = Inr values" and w: "bt_wf ps" and q: "(name, q) \<in> set ps"
  shows "\<exists>v. bt_get values name = Some v \<and> admits q v"
proof -
  have k: "bt_keys values = bt_keys ps" by (rule arguments_keys [OF a])
  have wv: "bt_wf values" using w k by (simp add: bt_wf_def)
  obtain n where n: "n < length ps" "ps ! n = (name, q)" using q by (auto simp: in_set_conv_nth)
  with arguments_Inr(1) [OF a] have l: "n < length values" "fst (values ! n) = name" "admits q (snd (values ! n))"
    by (auto simp: list_all2_conv_all_nth)
  then have "(name, snd (values ! n)) \<in> set values" using nth_mem by (metis prod.collapse)
  with wv l(3) show ?thesis by (auto simp: bt_get_eq)
qed

section \<open>Prepared macros run\<close>

text \<open>The virtual machine accepts the arguments of a prepared macro: only prompts can be missing.\<close>

lemma prepare_source_Inr:
  assumes "prepare_source j spec m source = Inr p"
  obtains types where
    "parameter_types j (case m of None \<Rightarrow> bt_empty | Some m \<Rightarrow> md_parameters m) = Inr types"
    "compile source types default_limits = Inr (pm_program p)"
    "arguments j (case m of None \<Rightarrow> bt_empty | Some m \<Rightarrow> md_parameters m) (mx_args spec) = Inr (pm_arguments p)"
    "pm_spec p = spec" "pm_definition p = m"
  using assms by (auto simp: prepare_source_def Let_def res_simps)

lemma compile_typed:
  assumes "compile source ps l = Inr p"
  shows "typed_program p" "p_limits p = l" "p_params p = ps" "p_variables p \<le> max_variables l"
  using compile_total [of source ps l] assms by (simp_all add: cwp_def)

lemma prepare_source_typed:
  assumes "prepare_source j spec m source = Inr p"
  shows "typed_program (pm_program p)" "p_limits (pm_program p) = default_limits"
  using assms by (auto elim!: prepare_source_Inr dest: compile_typed)

lemma prepare_source_arguments:
  assumes p: "prepare_source j spec m source = Inr p"
    and w: "\<And>d. m = Some d \<Longrightarrow> bt_wf (md_parameters d)"
  shows "each_ok (check_argument (pm_program p) (pm_arguments p)) (p_params (pm_program p)) = Inr ()"
    and "bt_keys (pm_arguments p) = bt_keys (p_params (pm_program p))"
    and "json_ok j \<Longrightarrow> args_in_range (pm_arguments p)"
proof -
  define ps where "ps = (case m of None \<Rightarrow> bt_empty | Some m \<Rightarrow> md_parameters m)"
  have wf: "bt_wf ps" using w by (simp add: ps_def bt_empty_def split: option.splits)
  from p obtain types where t: "parameter_types j ps = Inr types"
    and c: "compile source types default_limits = Inr (pm_program p)"
    and a: "arguments j ps (mx_args spec) = Inr (pm_arguments p)"
    by (rule prepare_source_Inr) (simp add: ps_def)
  have pp: "p_params (pm_program p) = map (\<lambda>x. (fst x, script_type (mp_value_type (snd x)))) ps"
    using parameter_types_Inr [OF t] compile_typed(3) [OF c] by simp
  have l: "max_string_bytes (p_limits (pm_program p)) = 4096"
    using compile_typed(2) [OF c] by (simp add: default_limits_def)
  have "check_argument (pm_program p) (pm_arguments p) (name, script_type (mp_value_type q)) = Inr ()"
    if q: "(name, q) \<in> set ps" for name q
  proof -
    obtain v where v: "bt_get (pm_arguments p) name = Some v" "admits q v" using arguments_get [OF a wf q] by blast
    with l show ?thesis by (cases v) (simp_all add: check_argument_def)
  qed
  then show "each_ok (check_argument (pm_program p) (pm_arguments p)) (p_params (pm_program p)) = Inr ()"
    by (fastforce simp: each_ok_Inr_iff pp)
  show "bt_keys (pm_arguments p) = bt_keys (p_params (pm_program p))"
    unfolding arguments_keys [OF a] pp by (simp add: bt_keys_def)
  show "args_in_range (pm_arguments p)" if j: "json_ok j"
    using arguments_Inr(1) [OF a] j
    by (fastforce simp: args_in_range_def list_all2_conv_all_nth in_set_conv_nth)
qed

lemma prepared_vm_new:
  assumes p: "prepare_source j spec m source = Inr p"
    and w: "\<And>d. m = Some d \<Longrightarrow> bt_wf (md_parameters d)"
    and t: "each_ok (check_prompt (pm_program p) texts) (p_prompts (pm_program p)) = Inr ()"
  shows "\<exists>s. vm_new (pm_program p) (pm_arguments p) texts = Inr s"
proof -
  have "each_ok (\<lambda>name. guard_ok (bt_contains (p_params (pm_program p)) name) (err Unknown_parameter span_start))
      (bt_keys (pm_arguments p)) = Inr ()"
    by (simp add: each_ok_Inr_iff res_simps prepare_source_arguments(2) [OF p w] bt_contains_keys)
  then show ?thesis by (simp add: vm_new_def prepare_source_arguments(1) [OF p w] t)
qed

section \<open>The invariant of the catalog\<close>

definition catalog_inv :: "'j json_api \<Rightarrow> 'j catalog \<Rightarrow> bool" where
  "catalog_inv j c \<longleftrightarrow>
     bt_wf (ct_macros c) \<and> length (ct_macros c) \<le> MAX_MACROS \<and>
     (\<forall>x \<in> set (ct_macros c). check_entry j x = Inr () \<and> bt_wf (md_parameters (snd x)))"

text \<open>A decoder builds maps in key order.\<close>

definition catalog_codec_ok :: "'j catalog codec \<Rightarrow> bool" where
  "catalog_codec_ok json \<longleftrightarrow> codec_ok json \<and>
     (\<forall>bs c. decode_json json bs = Inr c \<longrightarrow>
        bt_wf (ct_macros c) \<and> (\<forall>x \<in> set (ct_macros c). bt_wf (md_parameters (snd x))))"

lemma catalog_inv_default: "catalog_inv j catalog_default"
  by (simp add: catalog_inv_def catalog_default_def bt_empty_def)

lemma catalog_load_inv:
  "catalog_load d j json p fs = Inr c \<Longrightarrow> catalog_codec_ok json \<Longrightarrow> catalog_inv j c"
  using catalog_inv_default [of j]
  by (auto simp: catalog_load_def res_simps catalog_codec_ok_def catalog_inv_def each_ok_Inr_iff
      split: sum.splits prod.splits if_splits)

definition state_inv :: "'j json_api \<Rightarrow> 'j catalog option \<Rightarrow> bool" where
  "state_inv j state \<longleftrightarrow> (\<forall>c. state = Some c \<longrightarrow> catalog_inv j c)"

lemma cached_inv:
  "cached d j json p fs state = Inr c \<Longrightarrow> catalog_codec_ok json \<Longrightarrow> state_inv j state \<Longrightarrow> catalog_inv j c"
  by (auto simp: cached_def state_inv_def catalog_load_inv split: option.splits)

lemma save_plan_Inr:
  assumes "save_plan j json r now c = Inr (d, c', bs)"
  obtains revision where "next_macro_revision r c = Inr revision"
    "d = requested_definition r now revision c" "validate_definition j d = Inr ()"
    "ct_revision c' = Suc (ct_revision c)" "Suc (ct_revision c) \<le> U64_MAX"
    "ct_macros c' = bt_insert (mr_id r) d (ct_macros c)" "encode_json json c' = Inr bs"
    "length bs \<le> MAX_CATALOG_BYTES"
  using assms
  by (auto simp: save_plan_def Let_def res_simps requested_definition_def split: if_splits)

lemma save_plan_inv:
  assumes s: "save_plan j json r now c = Inr (d, c', bs)" and i: "catalog_inv j c"
    and w: "bt_wf (mr_parameters r)"
  shows "catalog_inv j c'"
  using s
proof (rule save_plan_Inr)
  fix revision
  assume rev: "next_macro_revision r c = Inr revision" and d: "d = requested_definition r now revision c"
    and v: "validate_definition j d = Inr ()" and m: "ct_macros c' = bt_insert (mr_id r) d (ct_macros c)"
  have wf: "bt_wf (ct_macros c)" using i by (simp add: catalog_inv_def)
  have "length (ct_macros c') \<le> MAX_MACROS"
    using rev i unfolding m length_bt_insert [OF wf]
    by (auto simp: next_macro_revision_def catalog_inv_def bt_contains_def split: option.splits if_splits)
  moreover have "check_entry j (mr_id r, d) = Inr ()" "bt_wf (md_parameters d)"
    using v w by (simp_all add: check_entry_def d requested_definition_def)
  moreover have "set (ct_macros c') \<subseteq> insert (mr_id r, d) (set (ct_macros c))"
    unfolding m by (rule set_bt_insert)
  ultimately have "\<forall>x \<in> set (ct_macros c'). check_entry j x = Inr () \<and> bt_wf (md_parameters (snd x))"
    using i by (auto simp: catalog_inv_def)
  with \<open>length (ct_macros c') \<le> MAX_MACROS\<close> show ?thesis
    using wf by (simp add: catalog_inv_def m bt_wf_insert)
qed

text \<open>The outcomes of a save that returns.\<close>

lemma macro_save_cases:
  assumes "macro_save d j json p r now fs state = Some (res, state', fs')"
  obtains (unread) e where "res = Inl e" "state' = state" "fs' = fs" "cached d j json p fs state = Inl e"
  | (rejected) c e where "res = Inl e" "cached d j json p fs state = Inr c" "state' = Some c" "fs' = fs"
      "save_plan j json r now c = Inl e"
  | (failed) c m c' bs e where "res = Inl (MStorage e)" "cached d j json p fs state = Inr c" "state' = Some c"
      "save_plan j json r now c = Inr (m, c', bs)" "atomic_write d p bs fs = Some (Inl e, fs')"
  | (saved) c m c' bs where "cached d j json p fs state = Inr c" "save_plan j json r now c = Inr (m, c', bs)"
      "res = Inr \<lparr>mv_catalog_revision = ct_revision c', mv_definition = m\<rparr>" "state' = Some c'"
      "atomic_write d p bs fs = Some (Inr (), fs')"
proof (cases "cached d j json p fs state")
  case (Inl e)
  with assms show ?thesis by (intro unread) (auto simp: macro_save_def)
next
  case (Inr c)
  show ?thesis
  proof (cases "save_plan j json r now c")
    case (Inl e)
    with assms Inr show ?thesis by (intro rejected) (auto simp: macro_save_def)
  next
    case plan: (Inr y)
    obtain m c' bs where y: "y = (m, c', bs)" by (cases y) auto
    show ?thesis
    proof (cases "atomic_write d p bs fs")
      case None
      with assms Inr plan y show ?thesis by (simp add: macro_save_def)
    next
      case (Some w)
      obtain r2 f2 where w: "w = (r2, f2)" by fastforce
      show ?thesis
      proof (cases r2)
        case (Inl e)
        with assms \<open>cached _ _ _ _ _ _ = Inr c\<close> plan y Some w show ?thesis
          by (intro failed [of e c m c' bs]) (auto simp: macro_save_def)
      next
        case (Inr u)
        with assms \<open>cached _ _ _ _ _ _ = Inr c\<close> plan y Some w show ?thesis
          by (intro saved [of c m c' bs]) (auto simp: macro_save_def)
      qed
    qed
  qed
qed

lemma macro_save_inv:
  assumes "macro_save d j json p r now fs state = Some (res, state', fs')"
    "state_inv j state" "catalog_codec_ok json" "bt_wf (mr_parameters r)"
  shows "state_inv j state'"
proof -
  have c: "catalog_inv j c" if "cached d j json p fs state = Inr c" for c
    by (rule cached_inv [OF that assms(3,2)])
  from assms(1) show ?thesis
  proof (cases rule: macro_save_cases)
    case (saved c m c' bs)
    with save_plan_inv [OF saved(2) c [OF saved(1)] assms(4)] show ?thesis by (simp add: state_inv_def)
  qed (use c assms(2) in \<open>simp_all add: state_inv_def\<close>)
qed

text \<open>A save that fails leaves the catalog as it was, in memory and in its file.\<close>

lemma macro_save_err:
  assumes "macro_save d j json p r now fs (Some c) = Some (Inl e, state', fs')"
  shows "state' = Some c" "os_fault d (FsSyncDir (fst p)) = None \<Longrightarrow> bt_get fs' p = bt_get fs p"
  using assms by (cases rule: macro_save_cases; force simp: cached_def dest: atomic_write_err)+

text \<open>A save that succeeds changes the one macro, from the revision the client named.\<close>

lemma macro_save_ok:
  assumes "macro_save d j json p r now fs (Some c) = Some (Inr resp, state', fs')"
  shows "\<exists>c' m. state' = Some c' \<and> ct_revision c' = Suc (ct_revision c) \<and>
    mv_catalog_revision resp = ct_revision c' \<and> mv_definition resp = m \<and>
    ct_macros c' = bt_insert (mr_id r) m (ct_macros c) \<and>
    validate_definition j m = Inr () \<and> md_id m = mr_id r \<and> md_script m = mr_script r \<and>
    (case bt_get (ct_macros c) (mr_id r) of
       None \<Rightarrow> mr_expected_revision r = None \<and> md_revision m = 1
     | Some old \<Rightarrow> mr_expected_revision r = Some (md_revision old) \<and> md_revision m = Suc (md_revision old))"
  using assms
proof (cases rule: macro_save_cases)
  case (saved c0 m c' bs)
  then have c0: "c0 = c" by (simp add: cached_def)
  from saved(2) show ?thesis
    by (rule save_plan_Inr)
      (use saved c0 in \<open>auto simp: next_macro_revision_def requested_definition_def res_simps
        split: option.splits if_splits\<close>)
qed auto

text \<open>Two clients that start from the same revision cannot both succeed.\<close>

lemma macro_save_once:
  assumes "macro_save d j json p r now fs (Some c) = Some (Inr resp, state', fs')"
    "mr_id r' = mr_id r" "mr_expected_revision r' = mr_expected_revision r"
  shows "macro_save d' j json p r' now' fs' state' =
    Some (Inl (MConflict (mr_id r) (mr_expected_revision r) (md_revision (mv_definition resp))), state', fs')"
proof -
  obtain c' m where c': "state' = Some c'" "mv_definition resp = m"
    "ct_macros c' = bt_insert (mr_id r) m (ct_macros c)"
    "case bt_get (ct_macros c) (mr_id r) of
       None \<Rightarrow> mr_expected_revision r = None \<and> md_revision m = 1
     | Some old \<Rightarrow> mr_expected_revision r = Some (md_revision old) \<and> md_revision m = Suc (md_revision old)"
    using macro_save_ok [OF assms(1)] by blast
  have "bt_get (ct_macros c') (mr_id r) = Some m" by (simp add: c' bt_get_insert)
  moreover have "mr_expected_revision r \<noteq> Some (md_revision m)" using c'(4) by (auto split: option.splits)
  ultimately have "next_macro_revision r' c' = Inl (MConflict (mr_id r) (mr_expected_revision r) (md_revision m))"
    by (simp add: next_macro_revision_def assms(2,3))
  then have "save_plan j json r' now' c' = Inl (MConflict (mr_id r) (mr_expected_revision r) (md_revision m))"
    by (simp add: save_plan_def)
  then show ?thesis by (simp add: macro_save_def cached_def c')
qed

text \<open>What was saved is what a restarted daemon loads.\<close>

lemma macro_save_reload:
  assumes s: "macro_save d j json p r now fs (Some c) = Some (Inr resp, Some c', fs')"
    and i: "catalog_inv j c" and k: "catalog_codec_ok json" and w: "bt_wf (mr_parameters r)"
  shows "catalog_load (os_ok us) j json p fs' = Inr c'"
  using s
proof (cases rule: macro_save_cases)
  case (saved c0 m c1 bs)
  then have [simp]: "c0 = c" "c1 = c'" by (simp_all add: cached_def)
  have inv: "catalog_inv j c'" using save_plan_inv [OF saved(2)] i w by simp
  from saved(2) obtain e: "encode_json json c' = Inr bs" and l: "length bs \<le> MAX_CATALOG_BYTES"
    by (auto elim: save_plan_Inr)
  have "decode_json json bs = Inr c'" using e k by (simp add: catalog_codec_ok_def codec_ok_def)
  moreover have "bt_get fs' p = Some (Regular bs)" using atomic_write_ok [OF saved(5), of p] by simp
  moreover have "each_ok (check_entry j) (ct_macros c') = Inr ()" "length (ct_macros c') \<le> MAX_MACROS"
    using inv by (simp_all add: catalog_inv_def each_ok_Inr_iff)
  ultimately show ?thesis using l
    by (simp add: catalog_load_def fs_metadata_def fs_read_def os_ok_def map_error_def)
qed auto

record 'j save_call =
  sc_os :: os
  sc_request :: "'j macro_save_request"
  sc_now :: "int option"

text \<open>Requests come from the decoder: their parameters are in key order.\<close>

definition save_commit ::
  "'j json_api \<Rightarrow> 'j catalog codec \<Rightarrow> path \<Rightarrow> 'j save_call \<Rightarrow> 'j catalog \<times> files \<Rightarrow> 'j catalog \<times> files" where
  "save_commit j json p x cf =
     (if \<not> bt_wf (mr_parameters (sc_request x)) then cf
      else case macro_save (sc_os x) j json p (sc_request x) (sc_now x) (snd cf) (Some (fst cf)) of
             Some (_, Some c, fs) \<Rightarrow> (c, fs)
           | _ \<Rightarrow> cf)"

interpretation catalog: versioned_store "save_commit j json p" "\<lambda>cf. ct_revision (fst cf)"
  "\<lambda>cf. ct_macros (fst cf)" "\<lambda>cf. catalog_codec_ok json \<and> catalog_inv j (fst cf)"
  for j json p
proof unfold_locales
  fix cf :: "'a catalog \<times> files" and x :: "'a save_call"
  assume i: "catalog_codec_ok json \<and> catalog_inv j (fst cf)"
  have "catalog_inv j (fst (save_commit j json p x cf)) \<and>
    ((ct_revision (fst (save_commit j json p x cf)) = ct_revision (fst cf) \<and>
      ct_macros (fst (save_commit j json p x cf)) = ct_macros (fst cf)) \<or>
     ct_revision (fst (save_commit j json p x cf)) = Suc (ct_revision (fst cf)))"
  proof (cases "bt_wf (mr_parameters (sc_request x)) \<and>
      (\<exists>res c fs. macro_save (sc_os x) j json p (sc_request x) (sc_now x) (snd cf) (Some (fst cf)) = Some (res, Some c, fs))")
    case False
    then show ?thesis using i by (auto simp: save_commit_def split: option.splits prod.splits)
  next
    case True
    then obtain res c fs where w: "bt_wf (mr_parameters (sc_request x))"
      and s: "macro_save (sc_os x) j json p (sc_request x) (sc_now x) (snd cf) (Some (fst cf)) = Some (res, Some c, fs)"
      by blast
    have eq: "save_commit j json p x cf = (c, fs)" using w s by (simp add: save_commit_def)
    have "state_inv j (Some c)" by (rule macro_save_inv [OF s]) (use i w in \<open>simp_all add: state_inv_def\<close>)
    moreover have "c = fst cf \<or> ct_revision c = Suc (ct_revision (fst cf))"
    proof (cases res)
      case (Inl e)
      with macro_save_err(1) s show ?thesis by blast
    next
      case (Inr resp)
      with macro_save_ok s show ?thesis by fastforce
    qed
    ultimately show ?thesis by (auto simp: eq state_inv_def)
  qed
  then show "catalog_codec_ok json \<and> catalog_inv j (fst (save_commit j json p x cf))"
    "ct_revision (fst (save_commit j json p x cf)) = ct_revision (fst cf) \<and>
      ct_macros (fst (save_commit j json p x cf)) = ct_macros (fst cf) \<or>
      ct_revision (fst (save_commit j json p x cf)) = Suc (ct_revision (fst cf))"
    using i by blast+
qed

section \<open>Stored macros can be run\<close>

text \<open>
  A stored macro was compiled when it was saved: preparing its current revision, with its own
  description, can fail only on the arguments.
\<close>

lemma stored_macro_prepares:
  assumes i: "catalog_inv j c" and g: "bt_get (ct_macros c) name = Some m"
    and spec: "mx_macro_id spec = Some name" "mx_revision spec = Some (md_revision m)" "mx_script spec = None"
      "mx_description spec = None" "1 \<le> mx_timeout_seconds spec" "mx_timeout_seconds spec \<le> 120"
    and a: "arguments j (md_parameters m) (mx_args spec) = Inr args"
  shows "\<exists>pm. macro_prepare d j json p spec fs (Some c) = (Inr pm, Some c) \<and>
    pm_definition pm = Some m \<and> pm_arguments pm = args \<and> typed_program (pm_program pm)"
proof -
  have "check_entry j (name, m) = Inr ()"
    using i bt_get_Some_in [OF g] by (auto simp: catalog_inv_def)
  then have "validate_definition j m = Inr ()" by (auto simp: check_entry_def split: if_splits)
  then obtain types prg where v: "validate_label (lit ''description'') (md_description m) 256 = Inr ()"
    "parameter_types j (md_parameters m) = Inr types" "compile (md_script m) types default_limits = Inr prg"
    by (auto simp: validate_definition_def res_simps)
  show ?thesis using v g spec a compile_typed(1) [OF v(3)]
    by (simp add: macro_prepare_def run_source_def cached_def lookup_revision_def prepare_source_def
        MAX_MACRO_TIMEOUT_SECONDS_def map_error_def)
qed

lemma run_source_wf:
  assumes "run_source d j json p spec fs state = (Inr (Some m, source), state')"
    "catalog_codec_ok json" "state_inv j state"
  shows "bt_wf (md_parameters m)"
  using assms cached_inv
  by (fastforce simp: run_source_def lookup_revision_def res_simps catalog_inv_def
      split: option.splits sum.splits if_splits dest!: bt_get_Some_in)

text \<open>Whatever the catalog prepares, the virtual machine runs it safely to the end of the run.\<close>

lemma prepared_safe:
  assumes p: "macro_prepare d j json path spec fs state = (Inr pm, state')"
    and k: "catalog_codec_ok json" "state_inv j state" "json_ok j"
    and n: "vm_new (pm_program pm) (pm_arguments pm) texts = Inr s0" and r: "reaches s0 s"
  shows "\<exists>\<Phi>. typed_by (pm_program pm) \<Phi> \<and> safe (pm_program pm) \<Phi> s"
proof -
  from p obtain m source st where rs: "run_source d j json path spec fs state = (Inr (m, source), st)"
    and ps: "prepare_source j spec m source = Inr pm"
    by (auto simp: macro_prepare_def split: if_splits prod.splits sum.splits)
  have w: "\<And>d. m = Some d \<Longrightarrow> bt_wf (md_parameters d)"
    using run_source_wf [OF _ k(1,2)] rs by blast
  have "max_string_bytes (p_limits (pm_program pm)) < U64_MAX"
    using prepare_source_typed(2) [OF ps] by (simp add: default_limits_def U64_MAX_def)
  from run_safe [OF prepare_source_typed(1) [OF ps] n prepare_source_arguments(3) [OF ps w k(3)] this r]
  show ?thesis by blast
qed

lemma prepared_starts:
  assumes p: "macro_prepare d j json path spec fs state = (Inr pm, state')"
    and k: "catalog_codec_ok json" "state_inv j state"
    and t: "each_ok (check_prompt (pm_program pm) texts) (p_prompts (pm_program pm)) = Inr ()"
  shows "\<exists>s. vm_new (pm_program pm) (pm_arguments pm) texts = Inr s"
proof -
  from p obtain m source st where rs: "run_source d j json path spec fs state = (Inr (m, source), st)"
    and ps: "prepare_source j spec m source = Inr pm"
    by (auto simp: macro_prepare_def split: if_splits prod.splits sum.splits)
  have w: "\<And>d. m = Some d \<Longrightarrow> bt_wf (md_parameters d)"
    using run_source_wf [OF _ k] rs by blast
  show ?thesis by (rule prepared_vm_new [OF ps w t])
qed

section \<open>Pages\<close>

text \<open>The client that follows \<open>next_offset\<close>.\<close>

fun read_list :: "nat \<Rightarrow> (rstring \<Rightarrow> rstring) \<Rightarrow> macro_list_query \<Rightarrow> 'j catalog \<Rightarrow> 'j macro_summary list option" where
  "read_list 0 lower q c = None"
| "read_list (Suc n) lower q c =
     (case list_catalog lower q c of
        Inl _ \<Rightarrow> None
      | Inr r \<Rightarrow>
          (case ml_next_offset r of
             None \<Rightarrow> Some (ml_macros r)
           | Some k \<Rightarrow>
               (case read_list n lower (q\<lparr>mq_offset := Some k\<rparr>) c of
                  None \<Rightarrow> None | Some ms \<Rightarrow> Some (ml_macros r @ ms))))"

lemma list_candidates_offset [simp]: "list_candidates lower (q\<lparr>mq_offset := k\<rparr>) c = list_candidates lower q c"
  by (simp add: list_candidates_def)

lemma read_list_from:
  assumes "mq_id q = None" "length (list_candidates lower q c) \<le> U64_MAX"
    "length (list_candidates lower q c) - k < n"
  shows "read_list n lower (q\<lparr>mq_offset := Some k\<rparr>) c =
    Some (map macro_summary (drop k (list_candidates lower q c)))"
  using assms(3)
proof (induction n arbitrary: k)
  case (Suc n)
  let ?cs = "list_candidates lower q c"
  have l: "1 \<le> list_limit q" by (simp add: list_limit_def)
  have ll: "list_limit (q\<lparr>mq_offset := k\<rparr>) = list_limit q" for k by (simp add: list_limit_def)
  show ?case
  proof (cases "k + list_limit q < length ?cs")
    case True
    then have e: "saturating_add_u64 k (list_limit q) = k + list_limit q"
      and m: "min (length ?cs - k) (list_limit q) = list_limit q"
      using assms(2) by (simp_all add: saturating_add_u64_def)
    have "length ?cs - (k + list_limit q) < n" using Suc.prems True l by linarith
    note IH = Suc.IH [OF this]
    have "drop k ?cs = take (list_limit q) (drop k ?cs) @ drop (k + list_limit q) ?cs"
      by (metis append_take_drop_id drop_drop add.commute)
    then have "map macro_summary (drop k ?cs) = map macro_summary (take (list_limit q) (drop k ?cs))
        @ map macro_summary (drop (k + list_limit q) ?cs)"
      by (metis map_append)
    then show ?thesis using assms(1) True e m IH
      by (simp add: list_catalog_def Let_def ll)
  next
    case False
    then have "\<not> saturating_add_u64 k (min (length ?cs - k) (list_limit q)) < length ?cs"
      using assms(2) by (auto simp: saturating_add_u64_def min_def)
    with False show ?thesis using assms(1)
      by (simp add: list_catalog_def Let_def ll)
  qed
qed simp

end
