(* ===== verification/Control.thy ===== *)
theory Control
  imports Protocol Steps
begin

text \<open>
  \<open>crates/seriald/src/control.rs\<close>: the write-control lease of a slot. An \<open>Instant\<close> and a
  \<open>Duration\<close> are nanoseconds; \<open>imax\<close> is the latest instant the platform can represent, where
  \<open>Instant::checked_add\<close> fails. The identifier \<open>Uuid::new_v4\<close> draws for a grant is an argument.
\<close>

section \<open>Limits\<close>

definition MIN_TTL_MS :: nat where "MIN_TTL_MS = 5000"
definition MAX_TTL_MS :: nat where "MAX_TTL_MS = 60000"
definition MAX_CONTROL_TTL_MS :: nat where "MAX_CONTROL_TTL_MS = 24 * 60 * 60 * 1000"
definition MAX_WAITERS :: nat where "MAX_WAITERS = 128"
definition WAIT_TIMEOUT :: nat where "WAIT_TIMEOUT = 60 * 1000000000"
definition MAX_CONTROL_WAIT_TIMEOUT :: nat where "MAX_CONTROL_WAIT_TIMEOUT = 60 * 60 * 1000000000"

lemmas ttl_defs = MIN_TTL_MS_def MAX_TTL_MS_def MAX_CONTROL_TTL_MS_def

record control_limits =
  max_ttl_ms :: nat
  wait_timeout :: nat
  max_waiters :: nat

definition control_limits_default :: control_limits where
  "control_limits_default =
     \<lparr>max_ttl_ms = MAX_TTL_MS, wait_timeout = WAIT_TIMEOUT, max_waiters = MAX_WAITERS\<rparr>"

definition bounded :: "control_limits \<Rightarrow> control_limits" where
  "bounded l =
     \<lparr>max_ttl_ms = max MIN_TTL_MS (min MAX_CONTROL_TTL_MS (max_ttl_ms l)),
      wait_timeout = min (wait_timeout l) MAX_CONTROL_WAIT_TIMEOUT,
      max_waiters = max_waiters l\<rparr>"

section \<open>State\<close>

record active_lease =
  al_lease :: control_lease
  al_deadline :: nat

record control_state =
  cs_epoch :: uuid
  cs_generation :: nat
  cs_next_fence :: nat
  cs_current :: "active_lease option"
  cs_limits :: control_limits

datatype acquire_outcome =
    Granted control_lease
  | AlreadyHeld control_lease
  | CBusy control_lease
  | TakenOver control_lease control_lease

record release_outcome =
  ro_released :: control_lease
  ro_promoted :: "control_lease option"

datatype control_error = NotOwner | StaleFence | Expired | Busy

definition control_new :: "uuid \<Rightarrow> nat \<Rightarrow> control_limits \<Rightarrow> control_state" where
  "control_new daemon_epoch generation limits =
     \<lparr>cs_epoch = daemon_epoch, cs_generation = generation, cs_next_fence = 1, cs_current = None,
      cs_limits = bounded limits\<rparr>"

definition current :: "control_state \<Rightarrow> control_lease option" where
  "current s = map_option al_lease (cs_current s)"

section \<open>Expiry arithmetic\<close>

definition clamp_ttl :: "nat \<Rightarrow> control_state \<Rightarrow> nat" where
  "clamp_ttl ttl_ms s = min (max ttl_ms MIN_TTL_MS) (max (max_ttl_ms (cs_limits s)) MIN_TTL_MS)"

definition wall_expiry :: "int \<Rightarrow> nat \<Rightarrow> control_state \<Rightarrow> int" where
  "wall_expiry now_ns ttl_ms s =
     saturating_add_i64 now_ns
       (int (min (saturating_mul_u64 (clamp_ttl ttl_ms s) 1000000) (nat I64_MAX)))"

definition monotonic_deadline :: "nat \<Rightarrow> nat \<Rightarrow> nat \<Rightarrow> nat" where
  "monotonic_deadline imax now duration = (if now + duration \<le> imax then now + duration else now)"

definition monotonic_expiry :: "nat \<Rightarrow> nat \<Rightarrow> nat \<Rightarrow> control_state \<Rightarrow> nat" where
  "monotonic_expiry imax now ttl_ms s = monotonic_deadline imax now (clamp_ttl ttl_ms s * 1000000)"

section \<open>Operations\<close>

definition grant ::
  "nat \<Rightarrow> uuid \<Rightarrow> actor \<Rightarrow> nat \<Rightarrow> int \<Rightarrow> nat \<Rightarrow> control_state \<Rightarrow> control_lease \<times> control_state" where
  "grant imax new_id owner ttl_ms wall_now now s =
     (let ttl_ms = clamp_ttl ttl_ms s;
          lease = \<lparr>ls_id = new_id, ls_owner = owner, ls_epoch = cs_epoch s,
                   ls_generation = cs_generation s, ls_fence = cs_next_fence s,
                   ls_issued_wall_time_ns = wall_now,
                   ls_expires_wall_time_ns = wall_expiry wall_now ttl_ms s\<rparr>
      in (lease,
          s\<lparr>cs_next_fence := saturating_add_u64 (cs_next_fence s) 1,
            cs_current := Some \<lparr>al_lease = lease, al_deadline = monotonic_expiry imax now ttl_ms s\<rparr>\<rparr>))"

definition acquire ::
  "nat \<Rightarrow> uuid \<Rightarrow> actor \<Rightarrow> control_mode \<Rightarrow> nat \<Rightarrow> int \<Rightarrow> nat \<Rightarrow> control_state \<Rightarrow>
   acquire_outcome \<times> control_state" where
  "acquire imax new_id who mode ttl_ms wall_now now s =
     (case cs_current s of
        Some cur \<Rightarrow>
          if actor_id (ls_owner (al_lease cur)) = actor_id who then (AlreadyHeld (al_lease cur), s)
          else if mode = Queue then (CBusy (al_lease cur), s)
          else
            (let (granted, s) = grant imax new_id who ttl_ms wall_now now (s\<lparr>cs_current := None\<rparr>)
             in (TakenOver (al_lease cur) granted, s))
      | None \<Rightarrow>
          (let (granted, s) = grant imax new_id who ttl_ms wall_now now s in (Granted granted, s)))"

definition grant_if_idle ::
  "nat \<Rightarrow> uuid \<Rightarrow> actor \<Rightarrow> nat \<Rightarrow> int \<Rightarrow> nat \<Rightarrow> control_state \<Rightarrow>
   (control_error + control_lease) \<times> control_state" where
  "grant_if_idle imax new_id who ttl_ms wall_now now s =
     (if cs_current s \<noteq> None then (Inl Busy, s)
      else (let (granted, s) = grant imax new_id who ttl_ms wall_now now s in (Inr granted, s)))"

definition validate ::
  "rstring \<Rightarrow> uuid \<Rightarrow> nat \<Rightarrow> nat \<Rightarrow> control_state \<Rightarrow> control_error + control_lease" where
  "validate who control_id fence now s =
     (case cs_current s of
        None \<Rightarrow> Inl NotOwner
      | Some cur \<Rightarrow>
          if ls_id (al_lease cur) \<noteq> control_id \<or> ls_fence (al_lease cur) \<noteq> fence \<or>
             ls_epoch (al_lease cur) \<noteq> cs_epoch s \<or> ls_generation (al_lease cur) \<noteq> cs_generation s
          then Inl StaleFence
          else if actor_id (ls_owner (al_lease cur)) \<noteq> who then Inl NotOwner
          else if now \<ge> al_deadline cur then Inl Expired
          else Inr (al_lease cur))"

definition transfer_exact ::
  "nat \<Rightarrow> uuid \<Rightarrow> rstring \<Rightarrow> uuid \<Rightarrow> nat \<Rightarrow> actor \<Rightarrow> nat \<Rightarrow> int \<Rightarrow> nat \<Rightarrow> control_state \<Rightarrow>
   (control_error + control_lease \<times> control_lease) \<times> control_state" where
  "transfer_exact imax new_id expected_owner expected_id expected_fence who ttl_ms wall_now now s =
     (case validate expected_owner expected_id expected_fence now s of
        Inl e \<Rightarrow> (Inl e, s)
      | Inr revoked \<Rightarrow>
          (let (granted, s) = grant imax new_id who ttl_ms wall_now now (s\<lparr>cs_current := None\<rparr>)
           in (Inr (revoked, granted), s)))"

definition approval_timeout :: "control_state \<Rightarrow> nat" where
  "approval_timeout s = wait_timeout (cs_limits s)"

definition renew ::
  "nat \<Rightarrow> rstring \<Rightarrow> uuid \<Rightarrow> nat \<Rightarrow> nat \<Rightarrow> int \<Rightarrow> nat \<Rightarrow> control_state \<Rightarrow>
   (control_error + control_lease) \<times> control_state" where
  "renew imax who control_id fence ttl_ms wall_now now s =
     (case validate who control_id fence now s of
        Inl e \<Rightarrow> (Inl e, s)
      | Inr lease \<Rightarrow>
          (let ttl_ms = clamp_ttl ttl_ms s;
               lease = lease\<lparr>ls_expires_wall_time_ns := wall_expiry wall_now ttl_ms s\<rparr>
           in (Inr lease,
               s\<lparr>cs_current := Some \<lparr>al_lease = lease, al_deadline = monotonic_expiry imax now ttl_ms s\<rparr>\<rparr>)))"

definition release_lease ::
  "rstring \<Rightarrow> uuid \<Rightarrow> nat \<Rightarrow> nat \<Rightarrow> control_state \<Rightarrow>
   (control_error + release_outcome) \<times> control_state" where
  "release_lease who control_id fence now s =
     (case validate who control_id fence now s of
        Inl e \<Rightarrow> (Inl e, s)
      | Inr lease \<Rightarrow> (Inr \<lparr>ro_released = lease, ro_promoted = None\<rparr>, s\<lparr>cs_current := None\<rparr>))"

definition remaining_ttl ::
  "rstring \<Rightarrow> uuid \<Rightarrow> nat \<Rightarrow> nat \<Rightarrow> control_state \<Rightarrow> control_error + nat" where
  "remaining_ttl who control_id fence now s =
     sbind (validate who control_id fence now s) (\<lambda>_.
       case cs_current s of Some cur \<Rightarrow> Inr (al_deadline cur - now) | None \<Rightarrow> Inl NotOwner)"

definition current_remaining_ttl :: "nat \<Rightarrow> control_state \<Rightarrow> control_error + nat" where
  "current_remaining_ttl now s =
     (case cs_current s of
        None \<Rightarrow> Inl NotOwner
      | Some cur \<Rightarrow>
          if ls_epoch (al_lease cur) \<noteq> cs_epoch s \<or> ls_generation (al_lease cur) \<noteq> cs_generation s
          then Inl StaleFence
          else if now \<ge> al_deadline cur then Inl Expired
          else Inr (al_deadline cur - now))"

definition drop_lease :: "(active_lease \<Rightarrow> bool) \<Rightarrow> control_state \<Rightarrow> release_outcome option \<times> control_state" where
  "drop_lease P s =
     (case cs_current s of
        Some cur \<Rightarrow>
          if P cur then (Some \<lparr>ro_released = al_lease cur, ro_promoted = None\<rparr>, s\<lparr>cs_current := None\<rparr>)
          else (None, s)
      | None \<Rightarrow> (None, s))"

definition expire :: "nat \<Rightarrow> control_state \<Rightarrow> release_outcome option \<times> control_state" where
  "expire now = drop_lease (\<lambda>cur. al_deadline cur \<le> now)"

definition disconnect :: "rstring \<Rightarrow> control_state \<Rightarrow> release_outcome option \<times> control_state" where
  "disconnect who = drop_lease (\<lambda>cur. actor_id (ls_owner (al_lease cur)) = who)"

definition change_generation :: "nat \<Rightarrow> control_state \<Rightarrow> release_outcome option \<times> control_state" where
  "change_generation generation s = drop_lease (\<lambda>_. True) (s\<lparr>cs_generation := generation\<rparr>)"

definition cancel :: "rstring \<Rightarrow> control_state \<Rightarrow> bool \<times> control_state" where
  "cancel who s = (False, s)"

end
