(* ===== verification/ControlProps.thy ===== *)
theory ControlProps
  imports Control
begin

text \<open>
  Properties of the control lease: the invariant of the state, fencing along every sequence of
  calls, the meaning of validation and expiry, and the refinement of an abstract lock.
\<close>

section \<open>Sequences of calls\<close>

datatype control_call =
    Call_acquire uuid actor control_mode nat int nat
  | Call_grant_if_idle uuid actor nat int nat
  | Call_transfer uuid rstring uuid nat actor nat int nat
  | Call_renew rstring uuid nat nat int nat
  | Call_release rstring uuid nat nat
  | Call_expire nat
  | Call_disconnect rstring
  | Call_generation nat

text \<open>The lease a call grants, if it grants one, and the state after it.\<close>

fun granted_by :: "acquire_outcome \<Rightarrow> control_lease option" where
  "granted_by (Granted l) = Some l"
| "granted_by (TakenOver _ l) = Some l"
| "granted_by (AlreadyHeld _) = None"
| "granted_by (CBusy _) = None"

fun control_exec :: "nat \<Rightarrow> control_call \<Rightarrow> control_state \<Rightarrow> control_lease option \<times> control_state" where
  "control_exec imax (Call_acquire u who mode ttl wall now) s =
     (case acquire imax u who mode ttl wall now s of (r, s') \<Rightarrow> (granted_by r, s'))"
| "control_exec imax (Call_grant_if_idle u who ttl wall now) s =
     (case grant_if_idle imax u who ttl wall now s of
        (Inr l, s') \<Rightarrow> (Some l, s') | (Inl _, s') \<Rightarrow> (None, s'))"
| "control_exec imax (Call_transfer u owner cid fence who ttl wall now) s =
     (case transfer_exact imax u owner cid fence who ttl wall now s of
        (Inr (_, l), s') \<Rightarrow> (Some l, s') | (Inl _, s') \<Rightarrow> (None, s'))"
| "control_exec imax (Call_renew who cid fence ttl wall now) s =
     (None, snd (renew imax who cid fence ttl wall now s))"
| "control_exec imax (Call_release who cid fence now) s = (None, snd (release_lease who cid fence now s))"
| "control_exec imax (Call_expire now) s = (None, snd (expire now s))"
| "control_exec imax (Call_disconnect who) s = (None, snd (disconnect who s))"
| "control_exec imax (Call_generation g) s = (None, snd (change_generation g s))"

definition control_step :: "nat \<Rightarrow> control_call \<Rightarrow> control_state \<Rightarrow> control_state" where
  "control_step imax call s = snd (control_exec imax call s)"

fun grants :: "nat \<Rightarrow> control_call list \<Rightarrow> control_state \<Rightarrow> control_lease list" where
  "grants imax [] s = []"
| "grants imax (call # calls) s =
     (case control_exec imax call s of
        (Some l, s') \<Rightarrow> l # grants imax calls s'
      | (None, s') \<Rightarrow> grants imax calls s')"

section \<open>The invariant\<close>

text \<open>
  The current lease is the latest grant, of this daemon and of this generation. How long it may
  live is stated below, against the call that set its expiry (\<open>lease_life\<close>).
\<close>

definition control_inv :: "control_state \<Rightarrow> bool" where
  "control_inv s \<longleftrightarrow>
     1 \<le> cs_next_fence s \<and> cs_next_fence s \<le> U64_MAX \<and>
     MIN_TTL_MS \<le> max_ttl_ms (cs_limits s) \<and> max_ttl_ms (cs_limits s) \<le> MAX_CONTROL_TTL_MS \<and>
     (\<forall>cur. cs_current s = Some cur \<longrightarrow>
        ls_epoch (al_lease cur) = cs_epoch s \<and> ls_generation (al_lease cur) = cs_generation s \<and>
        (Suc (ls_fence (al_lease cur)) = cs_next_fence s \<or>
         cs_next_fence s = U64_MAX \<and> ls_fence (al_lease cur) = U64_MAX))"

lemma control_inv_new: "control_inv (control_new e g l)"
  by (auto simp: control_inv_def control_new_def bounded_def ttl_defs U64_MAX_def)

lemma control_inv_idle: "control_inv s \<Longrightarrow> control_inv (s\<lparr>cs_current := None\<rparr>)"
  by (simp add: control_inv_def)

lemma control_inv_grant: "control_inv s \<Longrightarrow> control_inv (snd (grant imax u who ttl wall now s))"
  by (auto simp: control_inv_def grant_def Let_def saturating_add_u64_def)

lemma validate_Inr_iff:
  "validate who cid fence now s = Inr l \<longleftrightarrow>
     (\<exists>cur. cs_current s = Some cur \<and> l = al_lease cur \<and> ls_id l = cid \<and> ls_fence l = fence \<and>
        ls_epoch l = cs_epoch s \<and> ls_generation l = cs_generation s \<and> actor_id (ls_owner l) = who \<and>
        now < al_deadline cur)"
  by (auto simp: validate_def split: option.splits)

lemma control_inv_renew: "control_inv s \<Longrightarrow> control_inv (snd (renew imax who cid fence ttl wall now s))"
  by (auto simp: renew_def Let_def control_inv_def validate_Inr_iff split: sum.splits)

lemma control_inv_transfer:
  "control_inv s \<Longrightarrow> control_inv (snd (transfer_exact imax u owner cid fence who ttl wall now s))"
  using control_inv_grant [OF control_inv_idle, of s imax u who ttl wall now]
  by (auto simp: transfer_exact_def split: sum.splits prod.splits)

lemma control_inv_acquire: "control_inv s \<Longrightarrow> control_inv (snd (acquire imax u who mode ttl wall now s))"
  using control_inv_grant [OF control_inv_idle, of s imax u who ttl wall now]
    control_inv_grant [of s imax u who ttl wall now]
  by (auto simp: acquire_def split: option.splits prod.splits)

lemma control_inv_grant_if_idle: "control_inv s \<Longrightarrow> control_inv (snd (grant_if_idle imax u who ttl wall now s))"
  using control_inv_grant [of s imax u who ttl wall now]
  by (auto simp: grant_if_idle_def split: prod.splits)

lemma control_inv_drop: "control_inv s \<Longrightarrow> control_inv (snd (drop_lease P s))"
  by (auto simp: drop_lease_def control_inv_idle split: option.splits)

lemma control_inv_generation: "control_inv s \<Longrightarrow> control_inv (snd (change_generation g s))"
  by (auto simp: change_generation_def drop_lease_def control_inv_def split: option.splits)

lemma control_inv_release: "control_inv s \<Longrightarrow> control_inv (snd (release_lease who cid fence now s))"
  by (auto simp: release_lease_def control_inv_idle split: sum.splits)

lemma snd_control_exec:
  "snd (control_exec imax call s) = (case call of
     Call_acquire u who mode ttl wall now \<Rightarrow> snd (acquire imax u who mode ttl wall now s)
   | Call_grant_if_idle u who ttl wall now \<Rightarrow> snd (grant_if_idle imax u who ttl wall now s)
   | Call_transfer u owner cid fence who ttl wall now \<Rightarrow>
       snd (transfer_exact imax u owner cid fence who ttl wall now s)
   | Call_renew who cid fence ttl wall now \<Rightarrow> snd (renew imax who cid fence ttl wall now s)
   | Call_release who cid fence now \<Rightarrow> snd (release_lease who cid fence now s)
   | Call_expire now \<Rightarrow> snd (expire now s)
   | Call_disconnect who \<Rightarrow> snd (disconnect who s)
   | Call_generation g \<Rightarrow> snd (change_generation g s))"
  by (cases call) (auto split: prod.splits sum.splits)

lemma control_inv_step: "control_inv s \<Longrightarrow> control_inv (control_step imax call s)"
  unfolding control_step_def snd_control_exec expire_def disconnect_def
  by (auto intro: control_inv_acquire control_inv_grant_if_idle control_inv_transfer control_inv_renew
      control_inv_release control_inv_drop control_inv_generation split: control_call.splits)

section \<open>Fencing\<close>

text \<open>A call either grants, with the next fence, or leaves the fence counter alone.\<close>

lemma grant_spec:
  "grant imax u who ttl wall now s = (l, s') \<Longrightarrow>
   ls_fence l = cs_next_fence s \<and> actor_id (ls_owner l) = actor_id who \<and> ls_id l = u \<and>
   cs_next_fence s' = saturating_add_u64 (cs_next_fence s) 1 \<and>
   (\<exists>d. cs_current s' = Some \<lparr>al_lease = l, al_deadline = d\<rparr>)"
  by (auto simp: grant_def Let_def)

lemma exec_fence:
  "control_exec imax call s = (r, s') \<Longrightarrow>
   (case r of
      Some l \<Rightarrow> ls_fence l = cs_next_fence s \<and> cs_next_fence s' = saturating_add_u64 (cs_next_fence s) 1 \<and>
        (\<exists>d. cs_current s' = Some \<lparr>al_lease = l, al_deadline = d\<rparr>)
    | None \<Rightarrow> cs_next_fence s' = cs_next_fence s)"
proof (induction imax call s rule: control_exec.induct)
  case (1 imax u who mode ttl wall now s)
  then show ?case
    by (auto simp: acquire_def split: option.splits prod.splits if_splits dest!: grant_spec)
next
  case (2 imax u who ttl wall now s)
  then show ?case by (auto simp: grant_if_idle_def split: prod.splits if_splits dest!: grant_spec)
next
  case (3 imax u owner cid fence who ttl wall now s)
  then show ?case
    by (auto simp: transfer_exact_def split: prod.splits sum.splits dest!: grant_spec)
qed (auto simp: renew_def release_lease_def expire_def disconnect_def change_generation_def drop_lease_def
    Let_def split: sum.splits option.splits if_splits)

lemma next_fence_step: "control_inv s \<Longrightarrow> cs_next_fence s \<le> cs_next_fence (control_step imax call s)"
proof -
  assume "control_inv s"
  moreover obtain r s' where r: "control_exec imax call s = (r, s')" by fastforce
  ultimately show ?thesis
    using exec_fence [OF r]
    by (auto simp: control_step_def control_inv_def saturating_add_u64_def split: option.splits)
qed

interpretation control: machine "control_step imax" control_inv cs_next_fence for imax
  by unfold_locales (auto intro: control_inv_step next_fence_step)

lemma grants_fences:
  "control_inv s \<Longrightarrow> cs_next_fence s + length calls \<le> U64_MAX \<Longrightarrow>
   sorted_wrt (<) (map ls_fence (grants imax calls s)) \<and>
   (\<forall>l \<in> set (grants imax calls s). cs_next_fence s \<le> ls_fence l) \<and>
   cs_next_fence (fold (control_step imax) calls s) = cs_next_fence s + length (grants imax calls s)"
proof (induction calls arbitrary: s)
  case (Cons call calls)
  obtain r s' where r: "control_exec imax call s = (r, s')" by fastforce
  have s': "control_step imax call s = s'" by (simp add: control_step_def r)
  have inv: "control_inv s'" using control_inv_step [OF Cons.prems(1)] s' by metis
  note f = exec_fence [OF r]
  show ?case
  proof (cases r)
    case None
    with f have "cs_next_fence s' = cs_next_fence s" by simp
    with Cons.IH [OF inv] Cons.prems(2) show ?thesis by (simp add: r None s')
  next
    case (Some l)
    with f Cons.prems(2) have "cs_next_fence s' = Suc (cs_next_fence s)" "ls_fence l = cs_next_fence s"
      by (auto simp: saturating_add_u64_def)
    with Cons.IH [OF inv] Cons.prems(2) show ?thesis by (fastforce simp: r Some s')
  qed
qed simp

text \<open>The holder of the lease, when there is one, is the actor of the latest grant.\<close>

lemma validated_is_latest:
  assumes i: "control_inv s" and n: "cs_next_fence s + length calls < U64_MAX"
    and v: "validate who cid fence now (fold (control_step imax) calls s) = Inr l"
    and g: "l' \<in> set (grants imax calls s)"
  shows "ls_fence l' \<le> fence"
proof -
  let ?s = "fold (control_step imax) calls s"
  have inv: "control_inv ?s" by (rule control.run_inv [OF i])
  have next_fence: "cs_next_fence ?s = cs_next_fence s + length (grants imax calls s)"
    and sorted: "sorted_wrt (<) (map ls_fence (grants imax calls s))"
    using grants_fences [OF i, of calls imax] n by simp_all
  have len: "length (grants imax cs s) \<le> length cs" for cs s
    by (induction cs arbitrary: s) (auto split: prod.splits option.splits intro: le_SucI)
  have "cs_next_fence ?s < U64_MAX" using next_fence n len [of calls s] by simp
  then have "Suc fence = cs_next_fence ?s"
    using v inv by (auto simp: validate_Inr_iff control_inv_def)
  moreover have "ls_fence l' < cs_next_fence ?s"
  proof -
    have "ls_fence x < cs_next_fence (fold (control_step imax) cs t)"
      if "control_inv t" "cs_next_fence t + length cs \<le> U64_MAX" "x \<in> set (grants imax cs t)" for x cs t
      using that
    proof (induction cs arbitrary: t)
      case (Cons call cs)
      obtain r t' where r: "control_exec imax call t = (r, t')" by fastforce
      have t': "control_step imax call t = t'" by (simp add: control_step_def r)
      have inv: "control_inv t'" using control_inv_step [OF Cons.prems(1)] t' by metis
      note f = exec_fence [OF r] and m = control.run_stamp [OF inv, of imax cs]
      show ?case
        using Cons.IH [OF inv] Cons.prems f m
        by (cases r) (auto simp: r t' saturating_add_u64_def)
    qed simp
    from this [OF i _ g] n show ?thesis by simp
  qed
  ultimately show ?thesis by simp
qed

section \<open>Expiry\<close>

lemma clamp_ttl_bounds:
  "control_inv s \<Longrightarrow> MIN_TTL_MS \<le> clamp_ttl ttl s \<and> clamp_ttl ttl s \<le> max_ttl_ms (cs_limits s)"
  by (auto simp: clamp_ttl_def control_inv_def)

lemma clamp_ttl_idem [simp]: "clamp_ttl (clamp_ttl ttl s) s = clamp_ttl ttl s"
  by (auto simp: clamp_ttl_def)

text \<open>The time left right after a grant, on a platform whose clock is not exhausted.\<close>

lemma grant_remaining:
  assumes i: "control_inv s" and g: "grant imax u who ttl wall now s = (l, s')"
    and t: "now + MAX_CONTROL_TTL_MS * 1000000 \<le> imax" and later: "now \<le> now'"
  shows "remaining_ttl (actor_id who) u (cs_next_fence s) now' s' =
    (if now' < now + clamp_ttl ttl s * 1000000 then Inr (now + clamp_ttl ttl s * 1000000 - now') else Inl Expired)"
proof -
  have "clamp_ttl ttl s * 1000000 \<le> MAX_CONTROL_TTL_MS * 1000000"
    using clamp_ttl_bounds [OF i, of ttl] i by (intro mult_right_mono) (auto simp: control_inv_def)
  then have "now + clamp_ttl ttl s * 1000000 \<le> imax" using t by simp
  then show ?thesis
    using g by (auto simp: grant_def Let_def remaining_ttl_def validate_def monotonic_expiry_def
        monotonic_deadline_def)
qed

text \<open>\<open>expire\<close> ends exactly the leases that validation rejects as expired.\<close>

lemma expire_iff:
  "fst (expire now s) \<noteq> None \<longleftrightarrow> (\<exists>cur. cs_current s = Some cur \<and> al_deadline cur \<le> now)"
  by (auto simp: expire_def drop_lease_def split: option.splits)

lemma expire_validate:
  assumes "validate who cid fence now s = Inr l"
  shows "expire now s = (None, s)"
  using assms by (auto simp: validate_Inr_iff expire_def drop_lease_def)

lemma expired_not_validated:
  assumes "fst (expire now s) = Some r" "now \<le> now'"
  shows "validate who cid fence now' s \<noteq> Inr l"
  using assms by (auto simp: validate_Inr_iff expire_def drop_lease_def split: option.splits if_splits)

text \<open>
  The wall clock and the monotonic instant at which a call reads the time, for the calls that set
  an expiry, and the ceiling \<open>m\<close> milliseconds past them.
\<close>

fun call_clock :: "control_call \<Rightarrow> (int \<times> nat) option" where
  "call_clock (Call_acquire _ _ _ _ wall now) = Some (wall, now)"
| "call_clock (Call_grant_if_idle _ _ _ wall now) = Some (wall, now)"
| "call_clock (Call_transfer _ _ _ _ _ _ wall now) = Some (wall, now)"
| "call_clock (Call_renew _ _ _ _ wall now) = Some (wall, now)"
| "call_clock _ = None"

definition within_ttl :: "nat \<Rightarrow> active_lease \<Rightarrow> int \<times> nat \<Rightarrow> bool" where
  "within_ttl m cur = (\<lambda>(wall, now).
     al_deadline cur \<le> now + m * 1000000 \<and>
     (I64_MIN \<le> wall \<longrightarrow> ls_expires_wall_time_ns (al_lease cur) \<le> wall + int m * 1000000))"

lemma monotonic_expiry_le:
  "control_inv s \<Longrightarrow> monotonic_expiry imax now ttl s \<le> now + max_ttl_ms (cs_limits s) * 1000000"
  using clamp_ttl_bounds [of s ttl] by (auto simp: monotonic_expiry_def monotonic_deadline_def)

lemma wall_expiry_le:
  assumes i: "control_inv s" and w: "I64_MIN \<le> wall"
  shows "wall_expiry wall ttl s \<le> wall + int (max_ttl_ms (cs_limits s)) * 1000000"
proof -
  have "int (min (saturating_mul_u64 (clamp_ttl ttl s) 1000000) (nat I64_MAX)) \<le> int (clamp_ttl ttl s) * 1000000"
    by (simp add: saturating_mul_u64_def)
  also have "\<dots> \<le> int (max_ttl_ms (cs_limits s)) * 1000000" using clamp_ttl_bounds [OF i, of ttl] by simp
  finally show ?thesis using w by (simp add: wall_expiry_def saturating_add_i64_def I64_MAX_def)
qed

lemma grant_life:
  "control_inv s \<Longrightarrow> cs_current (snd (grant imax u who ttl wall now s)) = Some cur \<Longrightarrow>
   within_ttl (max_ttl_ms (cs_limits s)) cur (wall, now)"
  by (auto simp: grant_def Let_def within_ttl_def monotonic_expiry_le wall_expiry_le)

lemma lease_life_step:
  assumes i: "control_inv s" and c: "cs_current (control_step imax call s) = Some cur"
  shows "cs_current s = Some cur \<or>
    (\<exists>clock. call_clock call = Some clock \<and> within_ttl (max_ttl_ms (cs_limits s)) cur clock)"
proof -
  note g = grant_life [OF i] grant_life [OF control_inv_idle [OF i], simplified]
  show ?thesis
  proof (cases call)
    case (Call_acquire u who mode ttl wall now)
    with c g [of imax u who ttl wall now cur] show ?thesis
      by (auto simp: control_step_def snd_control_exec acquire_def split: option.splits prod.splits if_splits)
  next
    case (Call_grant_if_idle u who ttl wall now)
    with c g [of imax u who ttl wall now cur] show ?thesis
      by (auto simp: control_step_def snd_control_exec grant_if_idle_def split: prod.splits if_splits)
  next
    case (Call_transfer u owner cid fence who ttl wall now)
    with c g [of imax u who ttl wall now cur] show ?thesis
      by (auto simp: control_step_def snd_control_exec transfer_exact_def split: prod.splits sum.splits)
  next
    case (Call_renew who cid fence ttl wall now)
    with c i show ?thesis
      by (auto simp: control_step_def snd_control_exec renew_def Let_def within_ttl_def monotonic_expiry_le
          wall_expiry_le split: sum.splits)
  qed (use c in \<open>auto simp: control_step_def snd_control_exec release_lease_def expire_def disconnect_def
      change_generation_def drop_lease_def split: sum.splits option.splits if_splits\<close>)
qed

lemma limits_step [simp]: "cs_limits (control_step imax call s) = cs_limits s"
  by (cases call) (auto simp: control_step_def snd_control_exec acquire_def grant_if_idle_def transfer_exact_def
      grant_def renew_def release_lease_def expire_def disconnect_def change_generation_def drop_lease_def Let_def
      split: sum.splits option.splits prod.splits)

text \<open>The lease held after a run of calls has the expiry that one of them gave it.\<close>

lemma lease_life:
  assumes "control_inv s" "cs_current (fold (control_step imax) calls s) = Some cur"
  shows "cs_current s = Some cur \<or>
    (\<exists>call \<in> set calls. \<exists>clock. call_clock call = Some clock \<and>
       within_ttl (max_ttl_ms (cs_limits s)) cur clock)"
  using assms
proof (induction calls arbitrary: s)
  case (Cons call calls)
  then show ?case
    using Cons.IH [OF control_inv_step [OF Cons.prems(1)]] lease_life_step [OF Cons.prems(1), of imax call cur] by auto
qed simp

section \<open>Acquisition\<close>

lemma acquire_queue_keeps_holder:
  assumes "cs_current s = Some cur"
  shows "acquire imax u who Queue ttl wall now s =
    ((if actor_id (ls_owner (al_lease cur)) = actor_id who then AlreadyHeld else CBusy) (al_lease cur), s)"
  using assms by (simp add: acquire_def)

lemma acquire_takeover_holds:
  assumes "acquire imax u who Takeover ttl wall now s = (r, s')"
  shows "\<exists>l. current s' = Some l \<and> actor_id (ls_owner l) = actor_id who \<and>
    (case cs_current s of
       None \<Rightarrow> r = Granted l
     | Some cur \<Rightarrow> if actor_id (ls_owner (al_lease cur)) = actor_id who then r = AlreadyHeld l \<and> s' = s
                  else r = TakenOver (al_lease cur) l \<and> ls_fence l = cs_next_fence s)"
  using assms
  by (auto simp: acquire_def current_def split: option.splits prod.splits if_splits dest!: grant_spec)

lemma transfer_exact_atomic:
  assumes "transfer_exact imax u owner cid fence who ttl wall now s = (r, s')"
  shows "(case r of
      Inl e \<Rightarrow> validate owner cid fence now s = Inl e \<and> s' = s
    | Inr (revoked, granted) \<Rightarrow> current s = Some revoked \<and> ls_id revoked = cid \<and> ls_fence revoked = fence \<and>
        actor_id (ls_owner revoked) = owner \<and> current s' = Some granted \<and>
        actor_id (ls_owner granted) = actor_id who \<and> ls_fence granted = cs_next_fence s)"
  using assms
  by (auto simp: transfer_exact_def current_def validate_Inr_iff split: sum.splits prod.splits dest!: grant_spec)

section \<open>Refinement of a lock\<close>

text \<open>
  The abstract lock: who holds it, with which ticket, and the next ticket. A step gives the lock
  to an actor with the next ticket, frees it, or changes nothing.
\<close>

type_synonym lock = "(rstring \<times> nat) option \<times> nat"

inductive lock_step :: "lock \<Rightarrow> lock \<Rightarrow> bool" where
  lock_stutter: "lock_step (h, n) (h, n)"
| lock_free: "lock_step (h, n) (None, n)"
| lock_take: "lock_step (h, n) (Some (who, n), Suc n)"

inductive_simps lock_step_simps: "lock_step (h, n) (h', n')"

definition lock_of :: "control_state \<Rightarrow> lock" where
  "lock_of s = (map_option (\<lambda>cur. (actor_id (ls_owner (al_lease cur)), ls_fence (al_lease cur))) (cs_current s),
     cs_next_fence s)"

lemma lock_refinement:
  assumes "cs_next_fence s < U64_MAX"
  shows "lock_step (lock_of s) (lock_of (control_step imax call s))"
proof -
  obtain r s' where r: "control_exec imax call s = (r, s')" by fastforce
  have s': "control_step imax call s = s'" by (simp add: control_step_def r)
  show ?thesis
  proof (cases r)
    case (Some l)
    then show ?thesis using exec_fence [OF r] assms
      by (auto simp: s' lock_of_def saturating_add_u64_def lock_step_simps)
  next
    case None
    have n: "cs_next_fence s' = cs_next_fence s" using exec_fence [OF r] None by simp
    have "cs_current s' = None \<or>
      map_option (\<lambda>cur. (actor_id (ls_owner (al_lease cur)), ls_fence (al_lease cur))) (cs_current s') =
      map_option (\<lambda>cur. (actor_id (ls_owner (al_lease cur)), ls_fence (al_lease cur))) (cs_current s)"
      using r None
      by (induction imax call s rule: control_exec.induct)
         (auto simp: acquire_def grant_if_idle_def transfer_exact_def renew_def release_lease_def expire_def
            disconnect_def change_generation_def drop_lease_def Let_def validate_Inr_iff
            split: sum.splits option.splits if_splits prod.splits)
    then show ?thesis using n by (auto simp: s' lock_of_def lock_step_simps)
  qed
qed

end
