(* ===== verification/EventRing.thy ===== *)
theory EventRing
  imports Protocol "HOL-Library.Sublist"
begin

text \<open>
  \<open>crates/seriald/src/ring.rs\<close>: the bounded window of recent events. The head of the list is the
  front of the \<open>VecDeque\<close>. What the size estimate asks of other code is the parameter \<open>api\<close>: the
  capacity of a vector and of a string, and the length of the JSON text of the metadata
  (\<open>None\<close>: it cannot be encoded).
\<close>

section \<open>Bounded logs\<close>

text \<open>The contract of a window that forgets its oldest items.\<close>

locale bounded_log =
  fixes push :: "'a \<Rightarrow> 'r \<Rightarrow> 'r"
    and items :: "'r \<Rightarrow> 'a list"
  assumes push_suffix: "suffix (items (push x r)) (items r @ [x])"
begin

lemma log_suffix: "suffix (items (fold push xs r)) (items r @ xs)"
proof (induction xs arbitrary: r)
  case (Cons x xs)
  have "suffix (items (push x r) @ xs) (items r @ x # xs)"
    using push_suffix [of x r] by (auto simp: suffix_def)
  with Cons show ?case by (auto intro: suffix_order.trans)
qed simp

lemma log_items: "set (items (fold push xs r)) \<subseteq> set (items r) \<union> set xs"
  using set_mono_suffix [OF log_suffix [of xs r]] by simp

lemma log_sorted:
  "sorted_wrt P (items r @ xs) \<Longrightarrow> sorted_wrt P (items (fold push xs r))"
  using log_suffix [of xs r] by (metis sorted_wrt_append suffix_def)

lemma log_distinct: "distinct (items r @ xs) \<Longrightarrow> distinct (items (fold push xs r))"
  using log_suffix [of xs r] by (metis distinct_append suffix_def)

end

section \<open>Size of an event\<close>

definition EVENT_OVERHEAD_ESTIMATE :: nat where "EVENT_OVERHEAD_ESTIMATE = 256"
definition BTREE_ENTRY_OVERHEAD_ESTIMATE :: nat where "BTREE_ENTRY_OVERHEAD_ESTIMATE = 3 * 8"
definition UUID_BYTES :: nat where "UUID_BYTES = 16"

record 'j size_api =
  vec_capacity :: "bytes \<Rightarrow> nat"
  str_capacity :: "rstring \<Rightarrow> nat"
  json_len :: "(rstring, 'j) btree \<Rightarrow> nat option"

definition event_size :: "'j size_api \<Rightarrow> 'j timeline_event \<Rightarrow> nat" where
  "event_size api event =
     (let encoded_metadata_bytes =
            (if ev_metadata event = [] then 2
             else (case json_len api (ev_metadata event) of
                     None \<Rightarrow> EVENT_OVERHEAD_ESTIMATE | Some n \<Rightarrow> n));
          metadata_bytes = saturating_add_u64 encoded_metadata_bytes
            (saturating_mul_u64 (length (ev_metadata event)) BTREE_ENTRY_OVERHEAD_ESTIMATE)
      in saturating_add_u64 (vec_capacity api (ev_data event)) (str_capacity api (ev_port event))
         + (case ev_actor event of
              None \<Rightarrow> 0
            | Some actor \<Rightarrow> str_capacity api (actor_id actor) + str_capacity api (actor_label actor))
         + (case ev_run_id event of None \<Rightarrow> 0 | Some _ \<Rightarrow> UUID_BYTES)
         + (case ev_operation_id event of None \<Rightarrow> 0 | Some _ \<Rightarrow> UUID_BYTES)
         + metadata_bytes
         + EVENT_OVERHEAD_ESTIMATE)"

section \<open>The ring\<close>

record 'j ring =
  rg_events :: "'j timeline_event list"
  rg_bytes :: nat
  rg_max_events :: nat
  rg_max_bytes :: nat

record replay_gap =
  rp_reason :: gap_reason
  rp_requested_after_seq :: "nat option"
  rp_first_available_seq :: "nat option"

record 'j replay_window =
  rw_events :: "'j timeline_event list"
  rw_gap :: "replay_gap option"

datatype replay_error = CursorAhead nat nat

definition ring_new :: "nat \<Rightarrow> nat \<Rightarrow> 'j ring" where
  "ring_new max_events max_bytes =
     \<lparr>rg_events = [], rg_bytes = 0, rg_max_events = max max_events 1, rg_max_bytes = max max_bytes 1\<rparr>"

text \<open>The eviction loop of \<open>push\<close>.\<close>

fun evict :: "'j size_api \<Rightarrow> nat \<Rightarrow> nat \<Rightarrow> 'j timeline_event list \<Rightarrow> nat \<Rightarrow> 'j timeline_event list \<times> nat" where
  "evict api max_events max_bytes [] b = ([], b)"
| "evict api max_events max_bytes (e # es) b =
     (if length (e # es) > max_events \<or> b > max_bytes
      then evict api max_events max_bytes es (b - event_size api e)
      else (e # es, b))"

definition ring_push :: "'j size_api \<Rightarrow> 'j timeline_event \<Rightarrow> 'j ring \<Rightarrow> 'j ring" where
  "ring_push api event r =
     (let (es, b) = evict api (rg_max_events r) (rg_max_bytes r) (rg_events r @ [event])
                      (saturating_add_u64 (rg_bytes r) (event_size api event))
      in r\<lparr>rg_events := es, rg_bytes := b\<rparr>)"

definition oldest_seq :: "'j ring \<Rightarrow> nat option" where
  "oldest_seq r = (case rg_events r of [] \<Rightarrow> None | e # _ \<Rightarrow> Some (ev_seq e))"

definition head_seq :: "'j ring \<Rightarrow> nat option" where
  "head_seq r = (if rg_events r = [] then None else Some (ev_seq (last (rg_events r))))"

text \<open>The first match from the back.\<close>

fun mark_last :: "nat \<Rightarrow> 'j timeline_event list \<Rightarrow> 'j timeline_event list option" where
  "mark_last n [] = None"
| "mark_last n (e # es) =
     (case mark_last n es of
        Some es' \<Rightarrow> Some (e # es')
      | None \<Rightarrow> if ev_seq e = n then Some (e\<lparr>ev_durable := True\<rparr> # es) else None)"

definition mark_durable :: "nat \<Rightarrow> 'j ring \<Rightarrow> bool \<times> 'j ring" where
  "mark_durable n r =
     (case mark_last n (rg_events r) of
        None \<Rightarrow> (False, r)
      | Some es \<Rightarrow> (True, r\<lparr>rg_events := es\<rparr>))"

definition ring_tail :: "'j ring \<Rightarrow> nat \<Rightarrow> nat \<Rightarrow> 'j timeline_event list" where
  "ring_tail r head tail_events =
     (let bounded_tail = max 1 (min tail_events (rg_max_events r));
          eligible = filter (\<lambda>e. ev_seq e \<le> head) (rg_events r)
      in drop (length eligible - bounded_tail) eligible)"

definition replay ::
  "uuid \<Rightarrow> cursor option \<Rightarrow> nat \<Rightarrow> nat \<Rightarrow> 'j ring \<Rightarrow> replay_error + 'j replay_window" where
  "replay epoch cursor head tail_events r =
     (case cursor of
        None \<Rightarrow> Inr \<lparr>rw_events = ring_tail r head tail_events, rw_gap = None\<rparr>
      | Some c \<Rightarrow>
          if cu_epoch c \<noteq> epoch then
            Inr \<lparr>rw_events = ring_tail r head tail_events,
                 rw_gap = Some \<lparr>rp_reason = EpochChanged, rp_requested_after_seq = Some (cu_after_seq c),
                                rp_first_available_seq = oldest_seq r\<rparr>\<rparr>
          else if cu_after_seq c > head then Inl (CursorAhead (cu_after_seq c) head)
          else if cu_after_seq c = head then Inr \<lparr>rw_events = [], rw_gap = None\<rparr>
          else if (case oldest_seq r of
                     None \<Rightarrow> True
                   | Some first \<Rightarrow> saturating_add_u64 (cu_after_seq c) 1 < first)
          then Inr \<lparr>rw_events = ring_tail r head tail_events,
                    rw_gap = Some \<lparr>rp_reason = RingEvicted, rp_requested_after_seq = Some (cu_after_seq c),
                                   rp_first_available_seq = oldest_seq r\<rparr>\<rparr>
          else Inr \<lparr>rw_events = filter (\<lambda>e. cu_after_seq c < ev_seq e \<and> ev_seq e \<le> head) (rg_events r),
                    rw_gap = None\<rparr>)"

section \<open>Bounds\<close>

definition ring_inv :: "'j size_api \<Rightarrow> 'j ring \<Rightarrow> bool" where
  "ring_inv api r \<longleftrightarrow>
     1 \<le> rg_max_events r \<and> 1 \<le> rg_max_bytes r \<and> length (rg_events r) \<le> rg_max_events r \<and>
     rg_bytes r = sum_list (map (event_size api) (rg_events r)) \<and> rg_bytes r \<le> rg_max_bytes r"

lemma ring_inv_new: "ring_inv api (ring_new m b)"
  by (simp add: ring_inv_def ring_new_def)

lemma evict_spec:
  "b = sum_list (map (event_size api) es) \<Longrightarrow> evict api m mb es b = (es', b') \<Longrightarrow>
   suffix es' es \<and> length es' \<le> m \<and> b' = sum_list (map (event_size api) es') \<and> b' \<le> mb"
proof (induction api m mb es b rule: evict.induct)
  case (2 api m mb e es b)
  then show ?case by (auto split: if_splits intro: suffix_ConsI)
qed simp

lemma evict_maximal:
  "b = sum_list (map (event_size api) es) \<Longrightarrow> evict api m mb es b = (es', b') \<Longrightarrow>
   suffix zs es \<Longrightarrow> length zs \<le> m \<Longrightarrow> sum_list (map (event_size api) zs) \<le> mb \<Longrightarrow> suffix zs es'"
proof (induction api m mb es b rule: evict.induct)
  case (2 api m mb e es b)
  then show ?case by (auto simp: suffix_Cons split: if_splits)
qed simp

lemma ring_push_inv:
  assumes i: "ring_inv api r" and s: "rg_bytes r + event_size api e \<le> U64_MAX"
  shows "ring_inv api (ring_push api e r)"
proof -
  obtain es b where ev: "evict api (rg_max_events r) (rg_max_bytes r) (rg_events r @ [e])
      (saturating_add_u64 (rg_bytes r) (event_size api e)) = (es, b)"
    by fastforce
  have "saturating_add_u64 (rg_bytes r) (event_size api e) = sum_list (map (event_size api) (rg_events r @ [e]))"
    using i s by (simp add: ring_inv_def saturating_add_u64_def)
  note spec = evict_spec [OF this ev]
  have "ring_push api e r = r\<lparr>rg_events := es, rg_bytes := b\<rparr>" by (simp add: ring_push_def ev)
  with spec i show ?thesis by (simp add: ring_inv_def)
qed

lemma evict_suffix: "suffix (fst (evict api m mb es b)) es"
  by (induction api m mb es b rule: evict.induct) (auto intro: suffix_ConsI)

lemma rg_events_push:
  "rg_events (ring_push api e r) =
     fst (evict api (rg_max_events r) (rg_max_bytes r) (rg_events r @ [e])
       (saturating_add_u64 (rg_bytes r) (event_size api e)))"
  by (simp add: ring_push_def split: prod.splits)

interpretation ring: bounded_log "ring_push api" rg_events for api
  by unfold_locales (simp only: rg_events_push evict_suffix)

text \<open>Nothing is evicted that fits: the ring is the longest recent window within its limits.\<close>

lemma ring_push_maximal:
  assumes i: "ring_inv api r" and s: "rg_bytes r + event_size api e \<le> U64_MAX"
    and zs: "suffix zs (rg_events r @ [e])" "length zs \<le> rg_max_events r"
      "sum_list (map (event_size api) zs) \<le> rg_max_bytes r"
  shows "suffix zs (rg_events (ring_push api e r))"
proof -
  have b: "saturating_add_u64 (rg_bytes r) (event_size api e) = sum_list (map (event_size api) (rg_events r @ [e]))"
    using i s by (simp add: ring_inv_def saturating_add_u64_def)
  show ?thesis unfolding rg_events_push
    by (rule evict_maximal [OF b prod.collapse [symmetric] zs])
qed

section \<open>Durability marks\<close>

lemma event_size_durable [simp]: "event_size api (e\<lparr>ev_durable := d\<rparr>) = event_size api e"
  by (simp add: event_size_def)

lemma mark_last_Some:
  "mark_last n es = Some es' \<Longrightarrow>
   \<exists>xs e ys. es = xs @ e # ys \<and> ev_seq e = n \<and> (\<forall>y \<in> set ys. ev_seq y \<noteq> n) \<and>
     es' = xs @ e\<lparr>ev_durable := True\<rparr> # ys"
proof (induction n es arbitrary: es' rule: mark_last.induct)
  case (2 n e es)
  show ?case
  proof (cases "mark_last n es")
    case None
    have "mark_last n es = None \<Longrightarrow> \<forall>y \<in> set es. ev_seq y \<noteq> n" for es
      by (induction es) (auto split: option.splits if_splits)
    with None 2 show ?thesis by (intro exI [of _ "[]"]) (auto split: if_splits)
  next
    case (Some zs)
    then obtain xs e' ys where "es = xs @ e' # ys" "ev_seq e' = n" "\<forall>y \<in> set ys. ev_seq y \<noteq> n"
      "zs = xs @ e'\<lparr>ev_durable := True\<rparr> # ys"
      using 2 by blast
    with Some 2 show ?thesis by (intro exI [of _ "e # xs"]) auto
  qed
qed simp

lemma mark_last_None: "mark_last n es = None \<longleftrightarrow> (\<forall>e \<in> set es. ev_seq e \<noteq> n)"
  by (induction es) (auto split: option.splits)

lemma mark_durable_inv: "ring_inv api r \<Longrightarrow> ring_inv api (snd (mark_durable n r))"
  by (auto simp: mark_durable_def ring_inv_def split: option.splits dest!: mark_last_Some)

lemma mark_durable_seqs: "map ev_seq (rg_events (snd (mark_durable n r))) = map ev_seq (rg_events r)"
  by (auto simp: mark_durable_def split: option.splits dest!: mark_last_Some)

section \<open>Replay\<close>

text \<open>A timeline numbered without holes.\<close>

definition contiguous :: "'j timeline_event list \<Rightarrow> bool" where
  "contiguous es \<longleftrightarrow> (\<exists>n. map ev_seq es = [n ..< n + length es])"

lemma contiguous_suffix:
  assumes "contiguous es" "suffix zs es"
  shows "contiguous zs"
proof -
  obtain n xs where "map ev_seq es = [n ..< n + length es]" and es: "es = xs @ zs"
    using assms by (auto simp: contiguous_def suffix_def)
  then have "drop (length xs) (map ev_seq (xs @ zs)) = drop (length xs) [n ..< n + length (xs @ zs)]"
    by (simp only: es)
  then have "map ev_seq zs = [n + length xs ..< (n + length xs) + length zs]"
    by (simp add: ac_simps)
  then show ?thesis unfolding contiguous_def by (rule exI)
qed

lemma filter_upt: "filter (\<lambda>x. a < x \<and> x \<le> b) [m ..< n] = [max m (Suc a) ..< min n (Suc b)]"
  by (rule sorted_distinct_set_unique) (auto simp: sorted_wrt_filter distinct_filter)

text \<open>A replay without a gap misses nothing between the cursor and the head.\<close>

lemma replay_complete:
  assumes c: "contiguous (rg_events r)" and h: "\<And>last. head_seq r = Some last \<Longrightarrow> head \<le> last"
    and m: "cu_after_seq cu < U64_MAX"
    and r: "replay epoch (Some cu) head t r = Inr w" and g: "rw_gap w = None"
  shows "map ev_seq (rw_events w) = [Suc (cu_after_seq cu) ..< Suc head]"
proof (cases "cu_after_seq cu = head")
  case True
  with r g show ?thesis by (auto simp: replay_def split: if_splits)
next
  case False
  obtain n where n: "map ev_seq (rg_events r) = [n ..< n + length (rg_events r)]"
    using c by (auto simp: contiguous_def)
  have ne: "rg_events r \<noteq> []" and first: "\<And>f. oldest_seq r = Some f \<Longrightarrow> f \<le> Suc (cu_after_seq cu)"
    and lt: "cu_after_seq cu < head"
    and w: "rw_events w = filter (\<lambda>e. cu_after_seq cu < ev_seq e \<and> ev_seq e \<le> head) (rg_events r)"
    using r g False m
    by (auto simp: replay_def oldest_seq_def saturating_add_u64_def split: if_splits option.splits list.splits)
  then obtain e es where es: "rg_events r = e # es" by (cases "rg_events r") auto
  have e: "ev_seq e = n" using n es by (auto simp: upt_rec split: if_splits)
  have l: "ev_seq (last (rg_events r)) = n + length es"
  proof -
    have "last (map ev_seq (rg_events r)) = n + length es" unfolding n by (simp add: es)
    then show ?thesis using ne by (simp add: last_map)
  qed
  have "n \<le> Suc (cu_after_seq cu)" using first e es by (simp add: oldest_seq_def)
  moreover have "head \<le> n + length es" using h l ne by (simp add: head_seq_def)
  moreover have "map ev_seq (rw_events w) = filter (\<lambda>x. cu_after_seq cu < x \<and> x \<le> head) (map ev_seq (rg_events r))"
    unfolding w by (simp add: filter_map comp_def)
  ultimately show ?thesis using lt unfolding n filter_upt by (simp add: es min_def max_def)
qed

lemma ring_tail_bound: "length (ring_tail r head t) \<le> max 1 (min t (rg_max_events r))"
  by (simp add: ring_tail_def Let_def)

lemma ring_tail_sublist: "set (ring_tail r head t) \<subseteq> {e \<in> set (rg_events r). ev_seq e \<le> head}"
  by (auto simp: ring_tail_def Let_def dest: in_set_dropD)

text \<open>A gap is reported exactly when the cursor is of another epoch or behind the window.\<close>

lemma replay_gap_iff:
  assumes "replay epoch (Some cu) head t r = Inr w" "cu_after_seq cu < U64_MAX"
  shows "rw_gap w \<noteq> None \<longleftrightarrow> cu_epoch cu \<noteq> epoch \<or>
    (cu_after_seq cu < head \<and> (\<forall>f. oldest_seq r = Some f \<longrightarrow> Suc (cu_after_seq cu) < f))"
  using assms by (auto simp: replay_def saturating_add_u64_def split: if_splits option.splits)

lemma replay_ahead:
  "(\<exists>e. replay epoch (Some cu) head t r = Inl e) \<longleftrightarrow> cu_epoch cu = epoch \<and> head < cu_after_seq cu"
  by (auto simp: replay_def split: option.splits)

end
