(* ===== verification/Wire.thy ===== *)
theory Wire
  imports Protocol Storage
begin

text \<open>
  The WebSocket framing of \<open>crates/serial-protocol/src/lib.rs\<close>: one tag byte, the length of the
  JSON header as a big-endian \<open>u32\<close>, the header, and the raw bytes of the serial line. The JSON
  codecs are \<open>serde_json\<close>'s, third-party: \<open>wire_codecs\<close> holds the ones the frames use. The bodies
  of \<open>Snapshot\<close>, \<open>Result\<close> and \<open>ClientMessage\<close> are not looked at by the framing and are type
  variables.
\<close>

definition PROTOCOL_VERSION :: nat where "PROTOCOL_VERSION = 9"
definition CONTROL_FRAME_TAG :: byte where "CONTROL_FRAME_TAG = 1"
definition RX_FRAME_TAG :: byte where "RX_FRAME_TAG = 2"
definition TX_FRAME_TAG :: byte where "TX_FRAME_TAG = 3"
definition MAX_HEADER_BYTES :: nat where "MAX_HEADER_BYTES = 256 * 1024"
definition MAX_PAYLOAD_BYTES :: nat where "MAX_PAYLOAD_BYTES = 1024 * 1024"

section \<open>Messages and headers\<close>

record 'j data_frame_header =
  fh_protocol_version :: nat
  fh_port :: rstring
  fh_epoch :: uuid
  fh_seq :: nat
  fh_generation :: nat
  fh_wall_time_ns :: int
  fh_monotonic_time_ns :: nat
  fh_kind :: event_kind
  fh_direction :: direction
  fh_actor :: "actor option"
  fh_run_id :: "uuid option"
  fh_operation_id :: "uuid option"
  fh_offset_start :: "nat option"
  fh_offset_end :: "nat option"
  fh_metadata :: "(rstring, 'j) btree"
  fh_durable :: bool
  fh_replay :: bool

definition header_of_event :: "'j timeline_event \<Rightarrow> 'j data_frame_header" where
  "header_of_event e =
     \<lparr>fh_protocol_version = PROTOCOL_VERSION, fh_port = ev_port e, fh_epoch = ev_epoch e,
      fh_seq = ev_seq e, fh_generation = ev_generation e, fh_wall_time_ns = ev_wall_time_ns e,
      fh_monotonic_time_ns = ev_monotonic_time_ns e, fh_kind = ev_kind e,
      fh_direction = ev_direction e, fh_actor = ev_actor e, fh_run_id = ev_run_id e,
      fh_operation_id = ev_operation_id e, fh_offset_start = ev_offset_start e,
      fh_offset_end = ev_offset_end e, fh_metadata = ev_metadata e, fh_durable = ev_durable e,
      fh_replay = False\<rparr>"

definition into_event :: "'j data_frame_header \<Rightarrow> bytes \<Rightarrow> 'j timeline_event" where
  "into_event h data =
     \<lparr>ev_port = fh_port h, ev_epoch = fh_epoch h, ev_seq = fh_seq h, ev_generation = fh_generation h,
      ev_wall_time_ns = fh_wall_time_ns h, ev_monotonic_time_ns = fh_monotonic_time_ns h,
      ev_kind = fh_kind h, ev_direction = fh_direction h, ev_actor = fh_actor h,
      ev_run_id = fh_run_id h, ev_operation_id = fh_operation_id h,
      ev_offset_start = fh_offset_start h, ev_offset_end = fh_offset_end h, ev_data = data,
      ev_metadata = fh_metadata h, ev_durable = fh_durable h\<rparr>"

lemma into_event_of_event [simp]: "into_event (header_of_event e) (ev_data e) = e"
  by (simp add: into_event_def header_of_event_def)

lemma into_event_replay [simp]: "into_event (h\<lparr>fh_replay := r\<rparr>) = into_event h"
  by (rule ext) (simp add: into_event_def)

lemma into_event_fields [simp]:
  "ev_port (into_event h b) = fh_port h" "ev_epoch (into_event h b) = fh_epoch h"
  "ev_seq (into_event h b) = fh_seq h" "ev_data (into_event h b) = b"
  "ev_direction (into_event h b) = fh_direction h" "ev_durable (into_event h b) = fh_durable h"
  by (simp_all add: into_event_def)

lemma header_of_event_fields [simp]:
  "fh_direction (header_of_event e) = ev_direction e" "fh_replay (header_of_event e) = False"
  "fh_seq (header_of_event e) = ev_seq e" "fh_port (header_of_event e) = ev_port e"
  "fh_epoch (header_of_event e) = ev_epoch e"
  by (simp_all add: header_of_event_def)

datatype error_code =
    BadRequest | NotFound | Conflict | ControlRequired | ErrStaleFence | PortOffline | ErrCursorAhead
  | SequenceBoundaryChanged | UserReadRequired | WriteOutcomeUncertain | ResourceExhausted
  | IdempotencyExpired | ConfigRevisionMismatch | ProfileChangeBusy | PortNotFound | PortBusy
  | PortAccessDenied | PortIo | BreakUnsupported | RegexInvalid | ErrQueryBudgetExceeded
  | Unavailable | Internal

datatype ('j, 's, 'r) server_message =
    Welcome uuid uuid nat actor
  | Snapshot 's
  | ReplayBegin rstring nat nat
  | Ready rstring nat
  | Timeline "'j timeline_event" bool
  | ResultMessage uuid 'r
  | ErrorMessage "uuid option" error_code rstring bool
  | GapMessage rstring "nat option" "nat option" nat gap_reason
  | Lagged rstring nat nat

datatype ('j, 's, 'r) wire_frame =
    Control "('j, 's, 'r) server_message"
  | RxFrame "'j data_frame_header" bytes
  | TxFrame "'j data_frame_header" bytes

datatype protocol_error =
    TooShort
  | UnknownTag byte
  | HeaderTooLarge nat
  | PayloadTooLarge nat
  | InvalidHeaderLength
  | JsonError io_error
  | DirectionMismatch

record ('j, 's, 'r, 'c) wire_codecs =
  wc_header :: "'j data_frame_header codec"
  wc_server :: "('j, 's, 'r) server_message codec"
  wc_client :: "'c codec"

section \<open>The envelope\<close>

definition encode_json_envelope :: "byte \<Rightarrow> 'a codec \<Rightarrow> 'a \<Rightarrow> bytes \<Rightarrow> protocol_error + bytes" where
  "encode_json_envelope tag json value payload =
     sbind (map_error JsonError (encode_json json value)) (\<lambda>header.
       if length header > MAX_HEADER_BYTES then Inl (HeaderTooLarge (length header))
       else if length payload > MAX_PAYLOAD_BYTES then Inl (PayloadTooLarge (length payload))
       else Inr (tag # to_be_bytes (word_of_nat (length header)) @ header @ payload))"

definition split_envelope :: "bytes \<Rightarrow> protocol_error + byte \<times> bytes \<times> bytes" where
  "split_envelope bs =
     (if length bs < 5 then Inl TooShort
      else
        (let tag = bs ! 0;
             header_len = unat (from_be_bytes (slice 1 5 bs))
         in if header_len > MAX_HEADER_BYTES then Inl (HeaderTooLarge header_len)
            else sbind (ok_or (checked_add_u64 5 header_len) InvalidHeaderLength) (\<lambda>header_end.
              if header_end > length bs then Inl InvalidHeaderLength
              else
                (let payload = drop header_end bs
                 in if length payload > MAX_PAYLOAD_BYTES then Inl (PayloadTooLarge (length payload))
                    else Inr (tag, slice 5 header_end bs, payload)))))"

section \<open>Control frames\<close>

definition encode_control ::
  "('j, 's, 'r, 'c) wire_codecs \<Rightarrow> ('j, 's, 'r) server_message \<Rightarrow> protocol_error + bytes" where
  "encode_control w message = encode_json_envelope CONTROL_FRAME_TAG (wc_server w) message []"

definition encode_client_control :: "('j, 's, 'r, 'c) wire_codecs \<Rightarrow> 'c \<Rightarrow> protocol_error + bytes" where
  "encode_client_control w message = encode_json_envelope CONTROL_FRAME_TAG (wc_client w) message []"

definition decode_control ::
  "('j, 's, 'r, 'c) wire_codecs \<Rightarrow> bytes \<Rightarrow> protocol_error + ('j, 's, 'r) server_message" where
  "decode_control w bs =
     sbind (split_envelope bs) (\<lambda>(tag, header, payload).
       if tag \<noteq> CONTROL_FRAME_TAG \<or> payload \<noteq> [] then Inl (UnknownTag tag)
       else map_error JsonError (decode_json (wc_server w) header))"

definition decode_client_control :: "('j, 's, 'r, 'c) wire_codecs \<Rightarrow> bytes \<Rightarrow> protocol_error + 'c" where
  "decode_client_control w bs =
     sbind (split_envelope bs) (\<lambda>(tag, header, payload).
       if tag \<noteq> CONTROL_FRAME_TAG \<or> payload \<noteq> [] then Inl (UnknownTag tag)
       else map_error JsonError (decode_json (wc_client w) header))"

section \<open>Timeline frames\<close>

definition encode_data_frame ::
  "('j, 's, 'r, 'c) wire_codecs \<Rightarrow> byte \<Rightarrow> 'j timeline_event \<Rightarrow> bool \<Rightarrow> protocol_error + bytes" where
  "encode_data_frame w tag e replay =
     encode_json_envelope tag (wc_header w) ((header_of_event e)\<lparr>fh_replay := replay\<rparr>) (ev_data e)"

definition encode_event ::
  "('j, 's, 'r, 'c) wire_codecs \<Rightarrow> 'j timeline_event \<Rightarrow> bool \<Rightarrow> protocol_error + bytes" where
  "encode_event w e replay =
     (case ev_direction e of
        DRx \<Rightarrow> encode_data_frame w RX_FRAME_TAG e replay
      | DTx \<Rightarrow> encode_data_frame w TX_FRAME_TAG e replay
      | DNone \<Rightarrow> encode_control w (Timeline e replay))"

definition decode_wire_frame ::
  "('j, 's, 'r, 'c) wire_codecs \<Rightarrow> bytes \<Rightarrow> protocol_error + ('j, 's, 'r) wire_frame" where
  "decode_wire_frame w bs =
     sbind (split_envelope bs) (\<lambda>(tag, header, payload).
       if tag = CONTROL_FRAME_TAG then
         sbind (map_error JsonError (decode_json (wc_server w) header)) (\<lambda>m. Inr (Control m))
       else if tag = RX_FRAME_TAG \<or> tag = TX_FRAME_TAG then
         sbind (map_error JsonError (decode_json (wc_header w) header)) (\<lambda>decoded.
           (let expected = (if tag = RX_FRAME_TAG then DRx else DTx)
            in if fh_direction decoded \<noteq> expected then Inl DirectionMismatch
               else if tag = RX_FRAME_TAG then Inr (RxFrame decoded payload)
               else Inr (TxFrame decoded payload)))
       else Inl (UnknownTag tag))"

section \<open>The capture client\<close>

text \<open>
  \<open>crates/serial-mcp/src/capture.rs\<close>: what \<open>next\<close> makes of one binary message of the socket.
  \<open>Inr None\<close>: the message is passed over and the loop waits for the next one. The texts are those
  of \<open>{:?}\<close> for the reason and the numbers.
\<close>

datatype 'j capture_frame = CapEvent "'j timeline_event" | CapGap rstring | CapReady | CapOther

datatype capture_error = CapProtocol protocol_error | CapFailed rstring

fun gap_reason_debug :: "gap_reason \<Rightarrow> rstring" where
  "gap_reason_debug EpochChanged = lit ''EpochChanged''"
| "gap_reason_debug RingEvicted = lit ''RingEvicted''"
| "gap_reason_debug Retention = lit ''Retention''"
| "gap_reason_debug Corruption = lit ''Corruption''"
| "gap_reason_debug LoggingFault = lit ''LoggingFault''"
| "gap_reason_debug SequenceDiscontinuity = lit ''SequenceDiscontinuity''"

fun option_debug :: "nat option \<Rightarrow> rstring" where
  "option_debug None = lit ''None''"
| "option_debug (Some n) = lit ''Some('' @ digits_of n @ lit '')''"

definition capture_message ::
  "rstring \<Rightarrow> ('j, 's, 'r) wire_frame \<Rightarrow> capture_error + 'j capture_frame option" where
  "capture_message port frame =
     (case frame of
        RxFrame h data \<Rightarrow> if fh_port h = port then Inr (Some (CapEvent (into_event h data))) else Inr None
      | TxFrame h data \<Rightarrow> if fh_port h = port then Inr (Some (CapEvent (into_event h data))) else Inr None
      | Control m \<Rightarrow>
          (case m of
             Timeline e _ \<Rightarrow> if ev_port e = port then Inr (Some (CapEvent e)) else Inr None
           | Ready p _ \<Rightarrow> Inr (Some (if p = port then CapReady else CapOther))
           | GapMessage p requested first_available head reason \<Rightarrow>
               if p = port then
                 Inr (Some (CapGap (gap_reason_debug reason @ lit '': requested_after='' @ option_debug requested @
                   lit '', first_available='' @ option_debug first_available @ lit '', head='' @ digits_of head)))
               else Inr (Some CapOther)
           | Lagged p from_seq to_seq \<Rightarrow>
               if p = port then Inr (Some (CapGap (lit ''lagged:'' @ digits_of from_seq @ lit ''-'' @ digits_of to_seq)))
               else Inr (Some CapOther)
           | ErrorMessage _ _ text _ \<Rightarrow> Inl (CapFailed (lit ''seriald capture error: '' @ text))
           | _ \<Rightarrow> Inr (Some CapOther)))"

definition capture_next ::
  "('j, 's, 'r, 'c) wire_codecs \<Rightarrow> rstring \<Rightarrow> bytes \<Rightarrow> capture_error + 'j capture_frame option" where
  "capture_next w port bs = sbind (map_error CapProtocol (decode_wire_frame w bs)) (capture_message port)"

section \<open>The envelope is exact\<close>

lemma frame_limits: "MAX_HEADER_BYTES < 2 ^ 32" "5 + MAX_HEADER_BYTES \<le> U64_MAX"
  by (simp_all add: MAX_HEADER_BYTES_def U64_MAX_def)

definition envelope :: "byte \<Rightarrow> bytes \<Rightarrow> bytes \<Rightarrow> bytes" where
  "envelope tag header payload = tag # to_be_bytes (word_of_nat (length header)) @ header @ payload"

lemma split_envelope_envelope:
  assumes "length header \<le> MAX_HEADER_BYTES" "length payload \<le> MAX_PAYLOAD_BYTES"
  shows "split_envelope (envelope tag header payload) = Inr (tag, header, payload)"
proof -
  have "unat (from_be_bytes (slice 1 5 (envelope tag header payload))) = length header"
    using assms(1) frame_limits(1) by (simp add: envelope_def slice_def)
  moreover define start where "start = tag # to_be_bytes (word_of_nat (length header))"
  have start: "envelope tag header payload = start @ header @ payload" "length start = 5" "start ! 0 = tag"
    by (simp_all add: envelope_def start_def)
  from start have "drop (5 + length header) (envelope tag header payload) = payload"
    "slice 5 (5 + length header) (envelope tag header payload) = header"
    "envelope tag header payload ! 0 = tag" "5 + length header \<le> length (envelope tag header payload)"
    by (simp_all add: slice_def nth_append)
  ultimately show ?thesis
    using assms frame_limits(2) by (simp add: split_envelope_def Let_def checked_add_u64_def)
qed

lemma split_envelope_Inr:
  assumes "split_envelope bs = Inr (tag, header, payload)"
  shows "bs = envelope tag header payload" "length header \<le> MAX_HEADER_BYTES"
    "length payload \<le> MAX_PAYLOAD_BYTES"
proof -
  let ?n = "unat (from_be_bytes (slice 1 5 bs))"
  have r: "5 \<le> length bs" "?n \<le> MAX_HEADER_BYTES" "5 + ?n \<le> length bs" "tag = bs ! 0"
    "header = slice 5 (5 + ?n) bs" "payload = drop (5 + ?n) bs" "length payload \<le> MAX_PAYLOAD_BYTES"
    using assms by (auto simp: split_envelope_def Let_def res_simps not_less split: if_splits)
  have len: "length header = ?n" using r by simp
  have "slice 1 5 bs = to_be_bytes (word_of_nat (length header))"
    using r(1) by (simp add: len to_from_be_bytes)
  moreover have "bs = bs ! 0 # slice 1 5 bs @ slice 5 (5 + ?n) bs @ drop (5 + ?n) bs"
    using r(3) Cons_nth_drop_Suc [of 0 bs] by (cases "bs = []") simp_all
  ultimately show "bs = envelope tag header payload"
    using r by (simp add: envelope_def)
  show "length header \<le> MAX_HEADER_BYTES" "length payload \<le> MAX_PAYLOAD_BYTES"
    using r len by simp_all
qed

theorem envelope_exact:
  "split_envelope bs = Inr (tag, header, payload) \<longleftrightarrow>
     bs = envelope tag header payload \<and> length header \<le> MAX_HEADER_BYTES \<and>
     length payload \<le> MAX_PAYLOAD_BYTES"
  using split_envelope_Inr split_envelope_envelope by blast

lemma encode_json_envelope_Inr [res_simps]:
  "encode_json_envelope tag json value payload = Inr bs \<longleftrightarrow>
     (\<exists>header. encode_json json value = Inr header \<and> length header \<le> MAX_HEADER_BYTES \<and>
        length payload \<le> MAX_PAYLOAD_BYTES \<and> bs = envelope tag header payload)"
  by (cases "encode_json json value") (auto simp: encode_json_envelope_def envelope_def)

lemma split_encoded:
  assumes "encode_json_envelope tag json value payload = Inr bs"
  obtains header where "encode_json json value = Inr header"
    "split_envelope bs = Inr (tag, header, payload)"
  using assms split_envelope_envelope by (auto simp: res_simps)

section \<open>Round trips\<close>

lemmas frame_tags = CONTROL_FRAME_TAG_def RX_FRAME_TAG_def TX_FRAME_TAG_def

lemma decode_encoded_control:
  assumes "codec_ok (wc_server w)" "encode_control w m = Inr bs"
  shows "decode_control w bs = Inr m" "decode_wire_frame w bs = Inr (Control m)"
  using assms
  by (auto elim!: split_encoded
      simp: encode_control_def decode_control_def decode_wire_frame_def codec_ok_def map_error_def)

lemma decode_encoded_client_control:
  assumes "codec_ok (wc_client w)" "encode_client_control w m = Inr bs"
  shows "decode_client_control w bs = Inr m"
  using assms
  by (auto elim!: split_encoded
      simp: encode_client_control_def decode_client_control_def codec_ok_def map_error_def)

text \<open>The frame an event travels in, by its direction.\<close>

definition event_frame :: "'j timeline_event \<Rightarrow> bool \<Rightarrow> ('j, 's, 'r) wire_frame" where
  "event_frame e replay =
     (case ev_direction e of
        DNone \<Rightarrow> Control (Timeline e replay)
      | DRx \<Rightarrow> RxFrame ((header_of_event e)\<lparr>fh_replay := replay\<rparr>) (ev_data e)
      | DTx \<Rightarrow> TxFrame ((header_of_event e)\<lparr>fh_replay := replay\<rparr>) (ev_data e))"

lemma decode_encoded_event:
  assumes "codec_ok (wc_server w)" "codec_ok (wc_header w)" "encode_event w e replay = Inr bs"
  shows "decode_wire_frame w bs = Inr (event_frame e replay)"
proof (cases "ev_direction e")
  case DNone
  then show ?thesis
    using assms decode_encoded_control by (fastforce simp: encode_event_def event_frame_def)
next
  case DRx
  then show ?thesis using assms
    by (auto elim!: split_encoded simp: encode_event_def encode_data_frame_def decode_wire_frame_def
        codec_ok_def map_error_def frame_tags event_frame_def)
next
  case DTx
  then show ?thesis using assms
    by (auto elim!: split_encoded simp: encode_event_def encode_data_frame_def decode_wire_frame_def
        codec_ok_def map_error_def frame_tags event_frame_def)
qed

text \<open>The client that listens to the event's port gets the event; every other passes over it.\<close>

lemma capture_event_frame:
  "capture_message port (event_frame e replay) = Inr (if ev_port e = port then Some (CapEvent e) else None)"
  by (cases "ev_direction e") (simp_all add: event_frame_def capture_message_def)

lemma capture_encoded_event:
  assumes "codec_ok (wc_server w)" "codec_ok (wc_header w)" "encode_event w e replay = Inr bs"
  shows "capture_next w port bs = Inr (if ev_port e = port then Some (CapEvent e) else None)"
  by (simp add: capture_next_def decode_encoded_event [OF assms] map_error_def capture_event_frame)

text \<open>A frame that decodes carries the direction its tag announces.\<close>

lemma decoded_direction:
  "decode_wire_frame w bs = Inr (RxFrame h data) \<Longrightarrow> fh_direction h = DRx"
  "decode_wire_frame w bs = Inr (TxFrame h data) \<Longrightarrow> fh_direction h = DTx"
  by (auto simp: decode_wire_frame_def Let_def res_simps frame_tags split: if_splits)

text \<open>
  The two decoders of control frames differ on bytes after the header: \<open>decode_control\<close> refuses
  them, \<open>decode_wire_frame\<close> ignores them.
\<close>

lemma control_trailing_bytes:
  assumes "codec_ok (wc_server w)" "encode_control w m = Inr bs" "extra \<noteq> []"
    "length extra \<le> MAX_PAYLOAD_BYTES"
  shows "decode_control w (bs @ extra) = Inl (UnknownTag CONTROL_FRAME_TAG)"
    "decode_wire_frame w (bs @ extra) = Inr (Control m)"
proof -
  obtain header where h: "encode_json (wc_server w) m = Inr header" "length header \<le> MAX_HEADER_BYTES"
    "bs @ extra = envelope CONTROL_FRAME_TAG header extra"
    using assms(2) by (auto simp: encode_control_def res_simps envelope_def)
  then have "split_envelope (bs @ extra) = Inr (CONTROL_FRAME_TAG, header, extra)"
    using assms(4) split_envelope_envelope by simp
  then show "decode_control w (bs @ extra) = Inl (UnknownTag CONTROL_FRAME_TAG)"
    "decode_wire_frame w (bs @ extra) = Inr (Control m)"
    using assms(1,3) h(1)
    by (simp_all add: decode_control_def decode_wire_frame_def codec_ok_def map_error_def)
qed

end
