(* ===== verification/FileHandle.thy ===== *)
theory FileHandle
  imports Storage
begin

text \<open>
  Actions on a state that may fail, and the open files \<open>crates/seriald/src/journal.rs\<close> reads its
  segments through: \<open>File::read\<close> may return fewer bytes than asked for, or be interrupted, and
  \<open>read_up_to\<close> of that file turns it into a read that ends only at the end of the file. Whenever
  such a read succeeds it yields exactly the next bytes of the file, whatever the answers were.
\<close>

section \<open>Actions\<close>

type_synonym ('s, 'e, 'a) action = "'s \<Rightarrow> ('e + 'a) \<times> 's"

definition st_return :: "'a \<Rightarrow> ('s, 'e, 'a) action" where
  "st_return x s = (Inr x, s)"

definition st_lift :: "'e + 'a \<Rightarrow> ('s, 'e, 'a) action" where
  "st_lift r s = (r, s)"

definition st_bind :: "('s, 'e, 'a) action \<Rightarrow> ('a \<Rightarrow> ('s, 'e, 'b) action) \<Rightarrow> ('s, 'e, 'b) action" where
  "st_bind m f s = (case m s of (Inl e, s) \<Rightarrow> (Inl e, s) | (Inr x, s) \<Rightarrow> f x s)"

definition st_map_error :: "('e \<Rightarrow> 'f) \<Rightarrow> ('s, 'e, 'a) action \<Rightarrow> ('s, 'f, 'a) action" where
  "st_map_error g m s = (case m s of (r, s) \<Rightarrow> (map_error g r, s))"

lemma st_return_apply [simp]: "st_return x s = (Inr x, s)"
  by (simp add: st_return_def)

lemma st_lift_apply [simp]: "st_lift r s = (r, s)"
  by (simp add: st_lift_def)

lemma st_bind_Inr [res_simps]:
  "st_bind m f s = (Inr y, s2) \<longleftrightarrow> (\<exists>x s1. m s = (Inr x, s1) \<and> f x s1 = (Inr y, s2))"
  by (auto simp: st_bind_def split: prod.splits sum.splits)

lemma st_bind_done: "m s = (Inr x, s1) \<Longrightarrow> st_bind m f s = f x s1"
  by (simp add: st_bind_def)

lemma st_bind_failed: "m s = (Inl e, s1) \<Longrightarrow> st_bind m f s = (Inl e, s1)"
  by (simp add: st_bind_def)

lemma st_map_error_Inr [res_simps]:
  "st_map_error g m s = (Inr y, s1) \<longleftrightarrow> m s = (Inr y, s1)"
  by (auto simp: st_map_error_def res_simps split: prod.splits)

section \<open>Open files\<close>

record file_handle =
  fl_data :: bytes
  fl_pos :: nat
  fl_answers :: "read_answer list"

definition fl_rest :: "file_handle \<Rightarrow> bytes" where
  "fl_rest f = drop (fl_pos f) (fl_data f)"

definition file_open :: "os \<Rightarrow> path \<Rightarrow> files \<Rightarrow> io_error + file_handle" where
  "file_open d p fs =
     (case os_fault d (FsOpen p) of
        Some e \<Rightarrow> Inl e
      | None \<Rightarrow>
          (case bt_get fs p of
             Some (Regular bs) \<Rightarrow> Inr \<lparr>fl_data = bs, fl_pos = 0, fl_answers = os_reads d p\<rparr>
           | _ \<Rightarrow> Inl (io_fail IoNotFound (lit ''not found''))))"

text \<open>
  One \<open>read\<close> of at most \<open>n\<close> bytes; zero bytes mean the end of the file. The answer \<open>Short k\<close>
  allows it one byte and at most \<open>k\<close> more.
\<close>

definition file_read :: "nat \<Rightarrow> (file_handle, io_error, bytes) action" where
  "file_read n f =
     (case fl_answers f of
        ReadFails e # as \<Rightarrow> (Inl e, f\<lparr>fl_answers := as\<rparr>)
      | Short k # as \<Rightarrow>
          (let got = take (min n (Suc k)) (fl_rest f)
           in (Inr got, f\<lparr>fl_pos := fl_pos f + length got, fl_answers := as\<rparr>))
      | [] \<Rightarrow>
          (let got = take n (fl_rest f)
           in (Inr got, f\<lparr>fl_pos := fl_pos f + length got\<rparr>)))"

lemma file_read_Inr:
  assumes "file_read n f = (Inr got, f')"
  shows "got = take (length got) (fl_rest f)" "length got \<le> n" "fl_data f' = fl_data f"
    "fl_pos f' = fl_pos f + length got" "got = [] \<longleftrightarrow> n = 0 \<or> fl_rest f = []"
    "length (fl_answers f') \<le> length (fl_answers f)"
    "set (fl_answers f') \<subseteq> set (fl_answers f)"
  using assms
  by (auto simp: file_read_def Let_def min_def split: list.splits read_answer.splits if_splits)

lemma file_read_Inl:
  assumes "file_read n f = (Inl e, f')"
  shows "fl_answers f = ReadFails e # fl_answers f'" "fl_data f' = fl_data f" "fl_pos f' = fl_pos f"
  using assms by (auto simp: file_read_def Let_def split: list.splits read_answer.splits)

text \<open>The loop of \<open>read_up_to\<close>: \<open>n\<close> is the part of the buffer still to be filled.\<close>

function read_up_to :: "nat \<Rightarrow> (file_handle, io_error, bytes) action" where
  "read_up_to n f =
     (if n = 0 then (Inr [], f)
      else
        (case file_read n f of
           (Inr got, f1) \<Rightarrow>
             if got = [] then (Inr [], f1)
             else
               (case read_up_to (n - length got) f1 of
                  (Inr later, f2) \<Rightarrow> (Inr (got @ later), f2)
                | (Inl e, f2) \<Rightarrow> (Inl e, f2))
         | (Inl e, f1) \<Rightarrow> if io_kind e = IoInterrupted then read_up_to n f1 else (Inl e, f1)))"
  by auto
termination
  by (relation "measure (\<lambda>(n, f). n + length (fl_answers f))")
    (auto simp: neq_Nil_conv dest!: sym [of _ "file_read _ _"] dest: file_read_Inl(1) file_read_Inr(2) file_read_Inr(6))

declare read_up_to.simps [simp del]

lemma read_up_to_data:
  "fl_data (snd (read_up_to n f)) = fl_data f"
proof (induction n f rule: read_up_to.induct)
  case (1 n f)
  show ?case
  proof (cases "n = 0")
    case False
    obtain r f1 where fr: "file_read n f = (r, f1)" by (cases "file_read n f")
    show ?thesis
    proof (cases r)
      case (Inl e)
      with 1(1) False fr file_read_Inl [of n f e f1] show ?thesis
        by (simp add: read_up_to.simps [of n f])
    next
      case (Inr got)
      with 1(2) False fr file_read_Inr [of n f got f1] show ?thesis
        by (cases "got = []") (auto simp: read_up_to.simps [of n f] split: prod.splits sum.splits)
    qed
  qed (simp add: read_up_to.simps)
qed

lemma read_up_to_Inr:
  "read_up_to n f = (Inr bs, f') \<Longrightarrow>
     bs = take n (fl_rest f) \<and> fl_data f' = fl_data f \<and> fl_pos f' = fl_pos f + length bs"
proof (induction n f arbitrary: bs rule: read_up_to.induct)
  case (1 n f)
  show ?case
  proof (cases "n = 0")
    case True
    with 1(3) show ?thesis by (simp add: read_up_to.simps)
  next
    case False
    obtain r f1 where fr: "file_read n f = (r, f1)" by (cases "file_read n f")
    show ?thesis
    proof (cases r)
      case (Inl e)
      with 1(3) False fr have "io_kind e = IoInterrupted" "read_up_to n f1 = (Inr bs, f')"
        by (auto simp: read_up_to.simps [of n f] split: if_splits)
      with 1(1) False fr Inl file_read_Inl [of n f e f1] show ?thesis
        by (auto simp: fl_rest_def)
    next
      case (Inr got)
      note got = file_read_Inr [OF fr [unfolded Inr]]
      show ?thesis
      proof (cases "got = []")
        case True
        with 1(3) False fr Inr got show ?thesis by (auto simp: read_up_to.simps [of n f])
      next
        case nonempty: False
        with 1(3) False fr Inr obtain later where
          later: "read_up_to (n - length got) f1 = (Inr later, f')" "bs = got @ later"
          by (auto simp: read_up_to.simps [of n f] split: prod.splits sum.splits)
        have "fl_rest f1 = drop (length got) (fl_rest f)"
          using got(3,4) by (simp add: fl_rest_def add.commute)
        with 1(2) False fr Inr nonempty later got show ?thesis
          using take_add [of "length got" "n - length got" "fl_rest f"] by auto
      qed
    qed
  qed
qed

text \<open>A file whose reads fail at most by interruption is read to the end.\<close>

definition steady :: "file_handle \<Rightarrow> bool" where
  "steady f \<longleftrightarrow> (\<forall>e. ReadFails e \<in> set (fl_answers f) \<longrightarrow> io_kind e = IoInterrupted)"

lemma read_up_to_steady:
  "steady f \<Longrightarrow> \<exists>f'. read_up_to n f = (Inr (take n (fl_rest f)), f') \<and> steady f'"
proof -
  have "steady f \<Longrightarrow> \<exists>bs f'. read_up_to n f = (Inr bs, f') \<and> steady f'"
  proof (induction n f rule: read_up_to.induct)
    case (1 n f)
    show ?case
    proof (cases "n = 0")
      case False
      obtain r f1 where fr: "file_read n f = (r, f1)" by (cases "file_read n f")
      show ?thesis
      proof (cases r)
        case (Inl e)
        note step = file_read_Inl [OF fr [unfolded Inl]]
        with 1(3) have "io_kind e = IoInterrupted" "steady f1" by (auto simp: steady_def)
        with 1(1) False fr Inl show ?thesis by (simp add: read_up_to.simps [of n f])
      next
        case (Inr got)
        note step = file_read_Inr [OF fr [unfolded Inr]]
        with 1(3) have "steady f1" by (auto simp: steady_def)
        with 1(2) False fr Inr show ?thesis
          by (cases "got = []") (force simp: read_up_to.simps [of n f])+
      qed
    qed (use 1(3) in \<open>simp add: read_up_to.simps\<close>)
  qed
  then show "steady f \<Longrightarrow> ?thesis" using read_up_to_Inr by blast
qed

text \<open>\<open>read_exact\<close> of the standard library, which also retries after an interruption.\<close>

definition read_exact :: "nat \<Rightarrow> (file_handle, io_error, bytes) action" where
  "read_exact n =
     st_bind (read_up_to n) (\<lambda>bs.
       if length bs < n then st_lift (Inl (io_fail IoUnexpectedEof (lit ''failed to fill whole buffer'')))
       else st_return bs)"

definition file_seek :: "os \<Rightarrow> path \<Rightarrow> nat \<Rightarrow> (file_handle, io_error, unit) action" where
  "file_seek d p n f =
     (case os_fault d (FsSeek p) of Some e \<Rightarrow> (Inl e, f) | None \<Rightarrow> (Inr (), f\<lparr>fl_pos := n\<rparr>))"

lemma read_exact_Inr:
  "read_exact n f = (Inr bs, f') \<Longrightarrow>
     length bs = n \<and> bs = take n (fl_rest f) \<and> fl_data f' = fl_data f \<and> fl_pos f' = fl_pos f + n"
  by (auto simp: read_exact_def res_simps dest: read_up_to_Inr split: if_splits)

lemma fl_rest_after:
  "fl_data f' = fl_data f \<Longrightarrow> fl_pos f' = fl_pos f + n \<Longrightarrow> fl_rest f' = drop n (fl_rest f)"
  by (simp add: fl_rest_def add.commute)

section \<open>Reads that return\<close>

definition returns :: "(file_handle, 'e, 'a) action \<Rightarrow> file_handle \<Rightarrow> bool" where
  "returns m f \<longleftrightarrow> (\<exists>x f'. m f = (Inr x, f') \<and> steady f')"

lemma returns_return [intro]: "steady f \<Longrightarrow> returns (st_return x) f"
  by (simp add: returns_def)

lemma returns_lift [intro]: "steady f \<Longrightarrow> returns (st_lift (Inr x)) f"
  by (simp add: returns_def)

lemma returns_bind:
  assumes "returns m f" "\<And>x f'. m f = (Inr x, f') \<Longrightarrow> steady f' \<Longrightarrow> returns (k x) f'"
  shows "returns (st_bind m k) f"
  using assms by (force simp: returns_def st_bind_def)

lemma returns_map_error [simp]: "returns (st_map_error g m) f = returns m f"
  by (simp add: returns_def res_simps)

lemma returns_read_up_to [intro]: "steady f \<Longrightarrow> returns (read_up_to n) f"
  using read_up_to_steady unfolding returns_def by blast

lemma returns_read_exact: "steady f \<Longrightarrow> n \<le> length (fl_rest f) \<Longrightarrow> returns (read_exact n) f"
  unfolding read_exact_def by (rule returns_bind) (auto dest: read_up_to_Inr)

lemma returns_seek: "steady f \<Longrightarrow> os_fault d (FsSeek p) = None \<Longrightarrow> returns (file_seek d p n) f"
  by (simp add: returns_def file_seek_def steady_def)

text \<open>A read whose bytes are all there.\<close>

lemma read_up_to_front:
  assumes "read_up_to n f = (Inr bs, f')" "fl_rest f = xs @ ys" "length xs = n"
  shows "bs = xs" "fl_rest f' = ys"
  using read_up_to_Inr [OF assms(1)] assms(2,3) fl_rest_after [of f' f n] by auto

lemma reads_exact:
  assumes "steady f" "fl_rest f = xs @ ys" "length xs = n"
  shows "\<exists>f'. read_exact n f = (Inr xs, f') \<and> steady f' \<and> fl_rest f' = ys \<and> fl_data f' = fl_data f"
proof -
  obtain bs f' where r: "read_exact n f = (Inr bs, f')" "steady f'"
    using returns_read_exact [OF assms(1), of n] assms(2,3) by (auto simp: returns_def)
  with read_exact_Inr [OF r(1)] assms(2,3) fl_rest_after [of f' f n] show ?thesis by auto
qed

end
