(* ===== verification/JournalRecords.thy ===== *)
theory JournalRecords
  imports Wire FileHandle
begin

text \<open>
  The records and segment headers of \<open>crates/seriald/src/journal.rs\<close>, how they are read back, and
  the recovery of a segment that was open when the daemon stopped. The CRC (\<open>crc32fast\<close>, fed in
  pieces or at once), the JSON codecs (\<open>serde_json\<close>) and the text of an identifier (\<open>uuid\<close>) are
  third-party and are the fields of \<open>journal_env\<close>.
\<close>

section \<open>Errors and parameters\<close>

datatype journal_error =
    InvalidConfig rstring
  | InvalidPortId
  | JPayloadTooLarge nat nat
  | JHeaderTooLarge nat nat
  | NonMonotonicSequence rstring uuid nat nat
  | QueueFull
  | WriterClosed
  | WriterPanicked
  | Corrupt path rstring
  | SegmentPoisoned path rstring rstring
  | RetentionFailed nat nat rstring
  | RetentionBackoff nat nat nat
  | QueryBudgetExceeded rstring nat nat
  | TooManyQueryGaps nat
  | TooManyQuerySegments nat
  | InvalidRegex rstring
  | JIo io_error
  | JJson io_error

record segment_header =
  sh_port :: rstring
  sh_epoch :: uuid
  sh_segment_id :: uuid
  sh_created_wall_time_ns :: int
  sh_first_seq :: nat

record stored_gap =
  sg_port :: rstring
  sg_epoch :: uuid
  sg_first_seq :: nat
  sg_last_seq :: nat
  sg_reason :: gap_reason
  sg_recorded_wall_time_ns :: int

record 'j journal_env =
  je_crc :: "bytes \<Rightarrow> 32 word"
  je_header :: "'j data_frame_header codec"
  je_segment :: "segment_header codec"
  je_gap :: "stored_gap codec"
  je_uuid_text :: "uuid \<Rightarrow> rstring"

definition SEGMENT_MAGIC :: bytes where "SEGMENT_MAGIC = utf8 (lit ''SRLSEG01'')"
definition RECORD_MAGIC :: bytes where "RECORD_MAGIC = utf8 (lit ''SRLEVT01'')"
definition FORMAT_VERSION :: "32 word" where "FORMAT_VERSION = 1"
definition SEGMENT_PREFIX_LEN :: nat where "SEGMENT_PREFIX_LEN = 20"
definition RECORD_PREFIX_LEN :: nat where "RECORD_PREFIX_LEN = 20"
definition MAX_SEGMENT_HEADER_BYTES :: nat where "MAX_SEGMENT_HEADER_BYTES = 64 * 1024"
definition MAX_PORT_BYTES :: nat where "MAX_PORT_BYTES = 80"

definition validate_port :: "rstring \<Rightarrow> journal_error + unit" where
  "validate_port port = (if port = [] \<or> str_len port > MAX_PORT_BYTES then Inl InvalidPortId else Inr ())"

definition corrupt_or_io :: "path \<Rightarrow> rstring \<Rightarrow> io_error \<Rightarrow> journal_error" where
  "corrupt_or_io p message e = (if io_kind e = IoUnexpectedEof then Corrupt p message else JIo e)"

section \<open>Records\<close>

definition record_checksum ::
  "'j journal_env \<Rightarrow> 32 word \<Rightarrow> 32 word \<Rightarrow> bytes \<Rightarrow> bytes \<Rightarrow> 32 word" where
  "record_checksum env header_len payload_len header payload =
     je_crc env (to_le_bytes header_len @ to_le_bytes payload_len @ header @ payload)"

definition encode_record :: "'j journal_env \<Rightarrow> 'j timeline_event \<Rightarrow> journal_error + bytes" where
  "encode_record env event =
     (if length (ev_data event) > MAX_PAYLOAD_BYTES
      then Inl (JPayloadTooLarge (length (ev_data event)) MAX_PAYLOAD_BYTES)
      else sbind (map_error JJson (encode_json (je_header env) (header_of_event event))) (\<lambda>header.
        if length header > MAX_HEADER_BYTES
        then Inl (JHeaderTooLarge (length header) MAX_HEADER_BYTES)
        else
          (let header_len = word_of_nat (length header);
               payload_len = word_of_nat (length (ev_data event));
               checksum = record_checksum env header_len payload_len header (ev_data event)
           in Inr (RECORD_MAGIC @ to_le_bytes header_len @ to_le_bytes payload_len @
                   to_le_bytes checksum @ header @ ev_data event))))"

datatype 'j record_read = ReadEvent "'j timeline_event" | ReadEof | ReadInvalid rstring

definition read_record :: "'j journal_env \<Rightarrow> (file_handle, journal_error, 'j record_read) action" where
  "read_record env =
     st_bind (st_map_error JIo (read_up_to RECORD_PREFIX_LEN)) (\<lambda>prefix.
     if prefix = [] then st_return ReadEof
     else if length prefix \<noteq> RECORD_PREFIX_LEN
     then st_return (ReadInvalid (lit ''incomplete record prefix''))
     else if slice 0 8 prefix \<noteq> RECORD_MAGIC
     then st_return (ReadInvalid (lit ''invalid record magic''))
     else
       (let header_len = unat (from_le_bytes (slice 8 12 prefix));
            payload_len = unat (from_le_bytes (slice 12 16 prefix));
            expected_checksum = from_le_bytes (slice 16 20 prefix)
        in if header_len > MAX_HEADER_BYTES
           then st_return (ReadInvalid (lit ''record header length exceeds limit''))
           else if payload_len > MAX_PAYLOAD_BYTES
           then st_return (ReadInvalid (lit ''record payload length exceeds limit''))
           else st_bind (st_map_error JIo (read_up_to header_len)) (\<lambda>header.
             if length header \<noteq> header_len
             then st_return (ReadInvalid (lit ''incomplete record header''))
             else st_bind (st_map_error JIo (read_up_to payload_len)) (\<lambda>payload.
               if length payload \<noteq> payload_len
               then st_return (ReadInvalid (lit ''incomplete record payload''))
               else if record_checksum env (word_of_nat header_len) (word_of_nat payload_len) header
                         payload \<noteq> expected_checksum
               then st_return (ReadInvalid (lit ''record checksum mismatch''))
               else
                 (case decode_json (je_header env) header of
                    Inl e \<Rightarrow> st_return (ReadInvalid (lit ''invalid record metadata: '' @ io_text e))
                  | Inr decoded \<Rightarrow>
                      st_return (ReadEvent ((into_event decoded payload)\<lparr>ev_durable := True\<rparr>)))))))"

section \<open>Segment headers\<close>

definition segment_checksum :: "'j journal_env \<Rightarrow> 32 word \<Rightarrow> 32 word \<Rightarrow> bytes \<Rightarrow> 32 word" where
  "segment_checksum env version encoded_len encoded =
     je_crc env (to_le_bytes version @ to_le_bytes encoded_len @ encoded)"

text \<open>The bytes \<open>write_segment_header\<close> writes; their number is \<open>segment_header_encoded_len\<close>.\<close>

definition encode_segment_header :: "'j journal_env \<Rightarrow> segment_header \<Rightarrow> journal_error + bytes" where
  "encode_segment_header env header =
     sbind (map_error JJson (encode_json (je_segment env) header)) (\<lambda>encoded.
       if length encoded > MAX_SEGMENT_HEADER_BYTES
       then Inl (JHeaderTooLarge (length encoded) MAX_SEGMENT_HEADER_BYTES)
       else
         (let encoded_len = word_of_nat (length encoded);
              checksum = segment_checksum env FORMAT_VERSION encoded_len encoded
          in Inr (SEGMENT_MAGIC @ to_le_bytes FORMAT_VERSION @ to_le_bytes encoded_len @
                  to_le_bytes checksum @ encoded)))"

definition segment_header_encoded_len :: "'j journal_env \<Rightarrow> segment_header \<Rightarrow> journal_error + nat" where
  "segment_header_encoded_len env header =
     sbind (map_error JJson (encode_json (je_segment env) header)) (\<lambda>encoded.
       if length encoded > MAX_SEGMENT_HEADER_BYTES
       then Inl (JHeaderTooLarge (length encoded) MAX_SEGMENT_HEADER_BYTES)
       else Inr (SEGMENT_PREFIX_LEN + length encoded))"

definition read_segment_header ::
  "'j journal_env \<Rightarrow> os \<Rightarrow> path \<Rightarrow> (file_handle, journal_error, segment_header \<times> nat) action" where
  "read_segment_header env d p =
     st_bind (st_map_error JIo (file_seek d p 0)) (\<lambda>_.
     st_bind (st_map_error (corrupt_or_io p (lit ''incomplete segment header''))
       (read_exact SEGMENT_PREFIX_LEN)) (\<lambda>prefix.
     if slice 0 8 prefix \<noteq> SEGMENT_MAGIC then st_lift (Inl (Corrupt p (lit ''invalid segment magic'')))
     else
       (let version = from_le_bytes (slice 8 12 prefix);
            header_len = unat (from_le_bytes (slice 12 16 prefix));
            expected_checksum = from_le_bytes (slice 16 20 prefix)
        in if version \<noteq> FORMAT_VERSION
           then st_lift (Inl (Corrupt p (lit ''unsupported version '' @ digits_of (unat version))))
           else if header_len > MAX_SEGMENT_HEADER_BYTES
           then st_lift (Inl (Corrupt p (lit ''segment header length exceeds limit'')))
           else st_bind (st_map_error (corrupt_or_io p (lit ''incomplete segment metadata''))
             (read_exact header_len)) (\<lambda>encoded.
               if segment_checksum env version (word_of_nat header_len) encoded \<noteq> expected_checksum
               then st_lift (Inl (Corrupt p (lit ''segment header checksum mismatch'')))
               else
                 (case decode_json (je_segment env) encoded of
                    Inl e \<Rightarrow> st_lift (Inl (Corrupt p (lit ''invalid segment metadata: '' @ io_text e)))
                  | Inr header \<Rightarrow>
                      st_bind (st_lift (validate_port (sh_port header))) (\<lambda>_.
                      st_return (header, SEGMENT_PREFIX_LEN + header_len)))))))"

section \<open>What a record reader sees\<close>

definition record_frame :: "'j journal_env \<Rightarrow> bytes \<Rightarrow> bytes \<Rightarrow> bytes" where
  "record_frame env header payload =
     (RECORD_MAGIC @ to_le_bytes (word_of_nat (length header)) @
      to_le_bytes (word_of_nat (length payload)) @
      to_le_bytes (record_checksum env (word_of_nat (length header)) (word_of_nat (length payload))
        header payload)) @ header @ payload"

lemma record_magic_length [simp]: "length RECORD_MAGIC = 8" "length SEGMENT_MAGIC = 8"
  by (simp_all add: RECORD_MAGIC_def SEGMENT_MAGIC_def lit_def len_utf8_def)

lemma record_limits: "MAX_HEADER_BYTES < 2 ^ 32" "MAX_PAYLOAD_BYTES < 2 ^ 32" "MAX_SEGMENT_HEADER_BYTES < 2 ^ 32"
  by (simp_all add: MAX_HEADER_BYTES_def MAX_PAYLOAD_BYTES_def MAX_SEGMENT_HEADER_BYTES_def)

lemma length_record_frame [simp]:
  "length (record_frame env header payload) = 20 + length header + length payload"
  by (simp add: record_frame_def)

lemma encode_record_Inr [res_simps]:
  "encode_record env e = Inr bs \<longleftrightarrow>
     (\<exists>header. encode_json (je_header env) (header_of_event e) = Inr header \<and>
        length header \<le> MAX_HEADER_BYTES \<and> length (ev_data e) \<le> MAX_PAYLOAD_BYTES \<and>
        bs = record_frame env header (ev_data e))"
  by (cases "encode_json (je_header env) (header_of_event e)")
    (auto simp: encode_record_def record_frame_def Let_def)

text \<open>A twenty-byte prefix is its magic number and three little-endian words.\<close>

lemma prefix_split:
  assumes "length prefix = 20"
  shows "prefix = slice 0 8 prefix @ slice 8 12 prefix @ slice 12 16 prefix @ slice 16 20 prefix"
  using assms slice_drop [of 12 16 prefix] slice_drop [of 8 12 prefix] slice_drop [of 0 8 prefix]
  by (simp add: slice_def)

lemma read_event_frame:
  assumes "read_record env f = (Inr (ReadEvent e), f')"
  obtains header payload decoded where
    "fl_rest f = record_frame env header payload @ fl_rest f'"
    "length header \<le> MAX_HEADER_BYTES" "length payload \<le> MAX_PAYLOAD_BYTES"
    "decode_json (je_header env) header = Inr decoded"
    "e = (into_event decoded payload)\<lparr>ev_durable := True\<rparr>"
    "fl_data f' = fl_data f" "fl_pos f' = fl_pos f + length (record_frame env header payload)"
proof -
  obtain prefix f1 header f2 payload decoded where
    p: "read_up_to 20 f = (Inr prefix, f1)" "length prefix = 20" "slice 0 8 prefix = RECORD_MAGIC" and
    h: "read_up_to (unat (from_le_bytes (slice 8 12 prefix))) f1 = (Inr header, f2)"
      "length header = unat (from_le_bytes (slice 8 12 prefix))" "length header \<le> MAX_HEADER_BYTES" and
    d: "read_up_to (unat (from_le_bytes (slice 12 16 prefix))) f2 = (Inr payload, f')"
      "length payload = unat (from_le_bytes (slice 12 16 prefix))" "length payload \<le> MAX_PAYLOAD_BYTES" and
    c: "record_checksum env (word_of_nat (length header)) (word_of_nat (length payload)) header payload =
        from_le_bytes (slice 16 20 prefix)" and
    j: "decode_json (je_header env) header = Inr decoded"
      "e = (into_event decoded payload)\<lparr>ev_durable := True\<rparr>"
    using assms
    by (auto simp: read_record_def res_simps RECORD_PREFIX_LEN_def Let_def not_less
        split: if_splits sum.splits)
  note r1 = read_up_to_Inr [OF p(1)] and r2 = read_up_to_Inr [OF h(1)] and r3 = read_up_to_Inr [OF d(1)]
  have rest: "fl_rest f1 = drop 20 (fl_rest f)" "fl_rest f2 = drop (length header) (fl_rest f1)"
    "fl_rest f' = drop (length payload) (fl_rest f2)"
    using r1 r2 r3 p(2) fl_rest_after by metis+
  have "prefix = RECORD_MAGIC @ to_le_bytes (word_of_nat (length header)) @
      to_le_bytes (word_of_nat (length payload)) @
      to_le_bytes (record_checksum env (word_of_nat (length header)) (word_of_nat (length payload))
        header payload)"
    using prefix_split [OF p(2)] p(2,3) h(2) d(2) c by (simp add: to_from_le_bytes)
  then have frame: "record_frame env header payload = prefix @ header @ payload"
    by (simp add: record_frame_def)
  have "fl_rest f = prefix @ fl_rest f1" "fl_rest f1 = header @ fl_rest f2" "fl_rest f2 = payload @ fl_rest f'"
    using r1 r2 r3 rest p(2) h(2) d(2) by (metis append_take_drop_id)+
  then have "fl_rest f = record_frame env header payload @ fl_rest f'" by (simp add: frame)
  moreover have "fl_data f' = fl_data f" "fl_pos f' = fl_pos f + length (record_frame env header payload)"
  proof -
    have "fl_pos f1 = fl_pos f + 20" "fl_pos f2 = fl_pos f1 + length header"
      "fl_pos f' = fl_pos f2 + length payload"
      using r1 r2 r3 p(2) by metis+
    then show "fl_data f' = fl_data f" "fl_pos f' = fl_pos f + length (record_frame env header payload)"
      using r1 r2 r3 by simp_all
  qed
  ultimately show thesis
    by (rule that [OF _ h(3) d(3) j])
qed

text \<open>Conversely, a complete frame at the front of the rest is read as its event.\<close>

lemma prefix_slices:
  assumes "prefix = m @ a @ b @ c" "length m = 8" "length a = 4" "length b = 4" "length c = 4"
  shows "slice 0 8 prefix = m" "slice 8 12 prefix = a" "slice 12 16 prefix = b" "slice 16 20 prefix = c"
    "length prefix = 20" "prefix \<noteq> []"
  using assms by (auto simp: slice_def)

lemma read_frame:
  assumes "read_record env f = (Inr r, f')" "fl_rest f = record_frame env header payload @ ys"
    "length header \<le> MAX_HEADER_BYTES" "length payload \<le> MAX_PAYLOAD_BYTES"
    "decode_json (je_header env) header = Inr decoded"
  shows "r = ReadEvent ((into_event decoded payload)\<lparr>ev_durable := True\<rparr>)" "fl_rest f' = ys"
proof -
  define prefix where "prefix = RECORD_MAGIC @ to_le_bytes (word_of_nat (length header)) @
      to_le_bytes (word_of_nat (length payload)) @
      to_le_bytes (record_checksum env (word_of_nat (length header)) (word_of_nat (length payload))
        header payload)"
  note slices = prefix_slices [OF prefix_def]
  have len: "unat (word_of_nat (length header) :: 32 word) = length header"
    "unat (word_of_nat (length payload) :: 32 word) = length payload"
    using assms(3,4) record_limits by simp_all
  have rest: "fl_rest f = prefix @ header @ payload @ ys"
    using assms(2) by (simp add: record_frame_def prefix_def)
  obtain prefix' f1 where p: "read_up_to 20 f = (Inr prefix', f1)"
    using assms(1) by (auto simp: read_record_def RECORD_PREFIX_LEN_def res_simps)
  note p' = read_up_to_front [OF p rest slices(5)]
  obtain header' f2 where h: "read_up_to (length header) f1 = (Inr header', f2)"
    using assms p p' slices len
    by (auto simp: read_record_def RECORD_PREFIX_LEN_def res_simps Let_def split: if_splits)
  note h' = read_up_to_front [OF h p'(2) refl]
  obtain payload' f3 where d: "read_up_to (length payload) f2 = (Inr payload', f3)"
    using assms p p' h h' slices len
    by (auto simp: read_record_def RECORD_PREFIX_LEN_def res_simps Let_def split: if_splits)
  note d' = read_up_to_front [OF d h'(2) refl]
  show "r = ReadEvent ((into_event decoded payload)\<lparr>ev_durable := True\<rparr>)" "fl_rest f' = ys"
    using assms p p' h h' d d' slices len
    by (auto simp: read_record_def RECORD_PREFIX_LEN_def res_simps Let_def split: if_splits)
qed

lemma read_encoded:
  assumes "codec_ok (je_header env)" "encode_record env e = Inr bs" "ev_durable e"
    "read_record env f = (Inr r, f')" "fl_rest f = bs @ ys"
  shows "r = ReadEvent e" "fl_rest f' = ys"
proof -
  obtain header where h: "encode_json (je_header env) (header_of_event e) = Inr header"
    "length header \<le> MAX_HEADER_BYTES" "length (ev_data e) \<le> MAX_PAYLOAD_BYTES"
    "bs = record_frame env header (ev_data e)"
    using assms(2) by (auto simp: res_simps)
  have "decode_json (je_header env) header = Inr (header_of_event e)"
    using assms(1) h(1) by (simp add: codec_ok_def)
  note read = read_frame [OF assms(4) assms(5) [unfolded h(4)] h(2,3) this]
  show "r = ReadEvent e" using read(1) assms(3) by simp
  show "fl_rest f' = ys" by (rule read(2))
qed

text \<open>A torn record, any strict prefix of an encoded one, is not read as a record.\<close>

lemma read_torn:
  assumes "encode_record env e = Inr bs" "bs = fl_rest f @ missing" "missing \<noteq> []"
    "read_record env f = (Inr r, f')"
  shows "r = ReadEof \<or> (\<exists>m. r = ReadInvalid m)"
proof (rule ccontr)
  assume "\<not> ?thesis"
  then obtain e' where "r = ReadEvent e'" by (cases r) auto
  then obtain header payload where
    frame: "fl_rest f = record_frame env header payload @ fl_rest f'"
      "length header \<le> MAX_HEADER_BYTES" "length payload \<le> MAX_PAYLOAD_BYTES"
    using assms(4) read_event_frame by metis
  obtain header' where h: "length header' \<le> MAX_HEADER_BYTES" "length (ev_data e) \<le> MAX_PAYLOAD_BYTES"
    "bs = record_frame env header' (ev_data e)"
    using assms(1) by (auto simp: res_simps)
  have "take 20 (record_frame env header payload) = take 20 (record_frame env header' (ev_data e))"
    using arg_cong [OF assms(2), of "take 20"] frame(1) h(3) by simp
  then have "to_le_bytes (word_of_nat (length header)) = to_le_bytes (word_of_nat (length header'))"
    "to_le_bytes (word_of_nat (length payload)) = to_le_bytes (word_of_nat (length (ev_data e)))"
    by (auto simp: record_frame_def)
  then have "(word_of_nat (length header) :: 32 word) = word_of_nat (length header')"
    "(word_of_nat (length payload) :: 32 word) = word_of_nat (length (ev_data e))"
    by (metis from_to_le_bytes)+
  then have "length header = length header'" "length payload = length (ev_data e)"
    using frame(2,3) h(1,2) record_limits by (metis unat_of_bounded le_less_trans)+
  then have "length bs = length (record_frame env header payload)" by (simp add: h(3))
  with assms(2,3) frame(1) show False by simp
qed

lemma read_record_returns: "steady f \<Longrightarrow> returns (read_record env) f"
  unfolding read_record_def Let_def
  by (intro returns_bind) (auto intro!: returns_bind returns_return returns_read_up_to split: sum.split)

end
