(* ===== verification/JournalGaps.thy ===== *)
theory JournalGaps
  imports JournalRecords "HOL-Library.Product_Lexorder"
begin

text \<open>
  The ranges of missing sequence numbers a query of \<open>crates/seriald/src/journal.rs\<close> reports:
  \<open>merge_gap_ranges\<close>, \<open>push_gap_bounded\<close> and \<open>push_uncovered_gap\<close>. What a list of ranges says is
  the set of sequence numbers it covers, for each epoch and reason (\<open>gap_at\<close>); merging keeps that
  set, and adding a candidate range adds exactly the numbers nothing covered before.
\<close>

record gap_range =
  gr_epoch :: uuid
  gr_first_seq :: nat
  gr_last_seq :: nat
  gr_reason :: gap_reason

definition MAX_QUERY_GAPS :: nat where "MAX_QUERY_GAPS = 1024"

fun gap_reason_rank :: "gap_reason \<Rightarrow> nat" where
  "gap_reason_rank EpochChanged = 0"
| "gap_reason_rank RingEvicted = 1"
| "gap_reason_rank Retention = 2"
| "gap_reason_rank Corruption = 3"
| "gap_reason_rank LoggingFault = 4"
| "gap_reason_rank SequenceDiscontinuity = 5"

definition gap_key :: "gap_range \<Rightarrow> uuid \<times> nat \<times> nat \<times> nat" where
  "gap_key g = (gr_epoch g, gap_reason_rank (gr_reason g), gr_first_seq g, gr_last_seq g)"

definition gap_joins :: "gap_range \<Rightarrow> gap_range \<Rightarrow> bool" where
  "gap_joins previous g \<longleftrightarrow>
     gr_epoch previous = gr_epoch g \<and> gr_reason previous = gr_reason g \<and>
     gr_first_seq g \<le> saturating_add_u64 (gr_last_seq previous) 1"

text \<open>The merging loop; \<open>merged\<close> is held newest first.\<close>

fun merge_into :: "gap_range list \<Rightarrow> gap_range list \<Rightarrow> gap_range list" where
  "merge_into merged [] = rev merged"
| "merge_into [] (g # gs) = merge_into [g] gs"
| "merge_into (previous # merged) (g # gs) =
     (if gap_joins previous g
      then merge_into (previous\<lparr>gr_last_seq := max (gr_last_seq previous) (gr_last_seq g)\<rparr> # merged) gs
      else merge_into (g # previous # merged) gs)"

definition merge_gap_ranges :: "gap_range list \<Rightarrow> gap_range list" where
  "merge_gap_ranges gaps = merge_into [] (sort_key gap_key gaps)"

definition push_gap_bounded :: "gap_range \<Rightarrow> gap_range list \<Rightarrow> journal_error + gap_range list" where
  "push_gap_bounded g gaps =
     (let gaps = gaps @ [g]
      in if length gaps \<ge> MAX_QUERY_GAPS * 2
         then (let merged = merge_gap_ranges gaps
               in if length merged > MAX_QUERY_GAPS then Inl (TooManyQueryGaps MAX_QUERY_GAPS)
                  else Inr merged)
         else Inr gaps)"

text \<open>The loop of \<open>push_uncovered_gap\<close> over the ranges that overlap the candidate.\<close>

fun fill_uncovered ::
  "gap_range \<Rightarrow> nat \<Rightarrow> (nat \<times> nat) list \<Rightarrow> gap_range list \<Rightarrow> journal_error + gap_range list" where
  "fill_uncovered c next_seq [] gaps = push_gap_bounded (c\<lparr>gr_first_seq := next_seq\<rparr>) gaps"
| "fill_uncovered c next_seq ((first, until) # covered) gaps =
     sbind (if first > next_seq
            then push_gap_bounded (c\<lparr>gr_first_seq := next_seq, gr_last_seq := min (gr_last_seq c) (first - 1)\<rparr>) gaps
            else Inr gaps) (\<lambda>gaps.
       if until \<ge> gr_last_seq c then Inr gaps
       else
         (let next_seq = max next_seq (saturating_add_u64 until 1)
          in if next_seq > gr_last_seq c then Inr gaps else fill_uncovered c next_seq covered gaps))"

definition overlapping :: "gap_range \<Rightarrow> gap_range list \<Rightarrow> gap_range list" where
  "overlapping c gaps =
     filter (\<lambda>g. gr_epoch g = gr_epoch c \<and> gr_last_seq g \<ge> gr_first_seq c \<and> gr_first_seq g \<le> gr_last_seq c)
       gaps"

definition push_uncovered_gap :: "gap_range \<Rightarrow> gap_range list \<Rightarrow> journal_error + gap_range list" where
  "push_uncovered_gap c gaps =
     (if gr_first_seq c > gr_last_seq c then Inr gaps
      else fill_uncovered c (gr_first_seq c)
             (sort (map (\<lambda>g. (gr_first_seq g, gr_last_seq g)) (overlapping c gaps))) gaps)"

section \<open>What a list of ranges says\<close>

definition in_gap :: "uuid \<Rightarrow> gap_reason \<Rightarrow> nat \<Rightarrow> gap_range \<Rightarrow> bool" where
  "in_gap e r n g \<longleftrightarrow> gr_epoch g = e \<and> gr_reason g = r \<and> gr_first_seq g \<le> n \<and> n \<le> gr_last_seq g"

definition gap_at :: "uuid \<Rightarrow> gap_reason \<Rightarrow> nat \<Rightarrow> gap_range list \<Rightarrow> bool" where
  "gap_at e r n gs \<longleftrightarrow> (\<exists>g \<in> set gs. in_gap e r n g)"

definition missing_at :: "uuid \<Rightarrow> nat \<Rightarrow> gap_range list \<Rightarrow> bool" where
  "missing_at e n gs \<longleftrightarrow>
     (\<exists>g \<in> set gs. gr_epoch g = e \<and> gr_first_seq g \<le> n \<and> n \<le> gr_last_seq g)"

lemma gap_at_simps [simp]:
  "\<not> gap_at e r n []"
  "gap_at e r n (g # gs) \<longleftrightarrow> in_gap e r n g \<or> gap_at e r n gs"
  "gap_at e r n (gs @ hs) \<longleftrightarrow> gap_at e r n gs \<or> gap_at e r n hs"
  "gap_at e r n (rev gs) \<longleftrightarrow> gap_at e r n gs"
  by (auto simp: gap_at_def)

lemma missing_at_gap_at: "missing_at e n gs \<longleftrightarrow> (\<exists>r. gap_at e r n gs)"
  by (auto simp: missing_at_def gap_at_def in_gap_def)

lemma gap_reason_rank_inj: "gap_reason_rank r = gap_reason_rank s \<longleftrightarrow> r = s"
  by (cases r; cases s) simp_all

section \<open>Merging\<close>

definition bounded_gaps :: "gap_range list \<Rightarrow> bool" where
  "bounded_gaps gs \<longleftrightarrow> (\<forall>g \<in> set gs. gr_first_seq g \<le> U64_MAX \<and> gr_last_seq g \<le> U64_MAX)"

lemma joined_in_gap:
  assumes "gap_joins p g" "gr_first_seq p \<le> gr_first_seq g" "gr_last_seq g \<le> U64_MAX"
  shows "in_gap e r n (p\<lparr>gr_last_seq := max (gr_last_seq p) (gr_last_seq g)\<rparr>) \<longleftrightarrow>
    in_gap e r n p \<or> in_gap e r n g"
  using assms by (auto simp: gap_joins_def in_gap_def saturating_add_u64_def)

text \<open>Keys are compared up to the first bound, which merging leaves alone.\<close>

definition starts_before :: "gap_range \<Rightarrow> gap_range \<Rightarrow> bool" where
  "starts_before p g \<longleftrightarrow>
     (gr_epoch p, gap_reason_rank (gr_reason p), gr_first_seq p) \<le>
     (gr_epoch g, gap_reason_rank (gr_reason g), gr_first_seq g)"

lemma starts_before_key: "gap_key p \<le> gap_key g \<Longrightarrow> starts_before p g"
  by (auto simp: gap_key_def starts_before_def)

lemma starts_before_joins: "starts_before p g \<Longrightarrow> gap_joins p g \<Longrightarrow> gr_first_seq p \<le> gr_first_seq g"
  by (auto simp: starts_before_def gap_joins_def)

lemma starts_before_trans: "starts_before p q \<Longrightarrow> starts_before q g \<Longrightarrow> starts_before p g"
  unfolding starts_before_def by (rule order_trans)

lemma starts_before_update [simp]: "starts_before (p\<lparr>gr_last_seq := n\<rparr>) g = starts_before p g"
  by (simp add: starts_before_def)

lemma merge_into_gap_at:
  "sorted_wrt starts_before gs \<Longrightarrow> bounded_gaps gs \<Longrightarrow>
   (case merged of [] \<Rightarrow> True | p # _ \<Rightarrow> \<forall>g \<in> set gs. starts_before p g) \<Longrightarrow>
   gap_at e r n (merge_into merged gs) \<longleftrightarrow> gap_at e r n merged \<or> gap_at e r n gs"
proof (induction merged gs rule: merge_into.induct)
  case (3 previous merged g gs)
  have le: "gap_joins previous g \<Longrightarrow> gr_first_seq previous \<le> gr_first_seq g"
    using 3(5) starts_before_joins by simp
  have "gr_last_seq g \<le> U64_MAX" using 3(4) by (simp add: bounded_gaps_def)
  with 3 le show ?case by (auto simp: joined_in_gap bounded_gaps_def)
qed (simp_all add: bounded_gaps_def)

lemma sorted_starts_before: "sorted_wrt starts_before (sort_key gap_key gaps)"
proof -
  have "sorted_wrt (\<lambda>p g. gap_key p \<le> gap_key g) (sort_key gap_key gaps)"
    using sorted_sort_key [of gap_key gaps] by (simp add: sorted_map)
  then show ?thesis by (rule sorted_wrt_mono_rel [rotated]) (simp add: starts_before_key)
qed

lemma gap_at_sort [simp]: "gap_at e r n (sort_key f gs) \<longleftrightarrow> gap_at e r n gs"
  by (simp add: gap_at_def)

theorem merge_keeps_gaps:
  assumes "bounded_gaps gaps"
  shows "gap_at e r n (merge_gap_ranges gaps) \<longleftrightarrow> gap_at e r n gaps"
  using assms merge_into_gap_at [OF sorted_starts_before [of gaps], of "[]" e r n]
  by (simp add: merge_gap_ranges_def bounded_gaps_def)

text \<open>The ranges that are left apart do not touch: no number is reported twice for one reason.\<close>

definition apart :: "gap_range \<Rightarrow> gap_range \<Rightarrow> bool" where
  "apart p g \<longleftrightarrow> starts_before p g \<and> \<not> gap_joins p g"

lemma gap_joins_before:
  assumes "starts_before p q" "starts_before q g" "gap_joins p g" "gr_first_seq g \<le> U64_MAX"
  shows "gap_joins p q"
proof -
  have "gr_epoch q = gr_epoch g" "gap_reason_rank (gr_reason q) = gap_reason_rank (gr_reason g)"
    "gr_first_seq q \<le> gr_first_seq g"
    using assms(1-3) by (auto simp: starts_before_def gap_joins_def)
  then show ?thesis using assms(3) by (auto simp: gap_joins_def gap_reason_rank_inj)
qed

lemma sorted_wrt_snoc_newest:
  "sorted_wrt apart (rev (p # ps)) \<Longrightarrow> starts_before p g \<Longrightarrow> \<not> gap_joins p g \<Longrightarrow> gr_first_seq g \<le> U64_MAX \<Longrightarrow>
     sorted_wrt apart (rev (g # p # ps))"
  by (auto simp: sorted_wrt_append apart_def
      intro: starts_before_trans dest: gap_joins_before)

lemma apart_update [simp]: "apart p (g\<lparr>gr_last_seq := n\<rparr>) = apart p g"
  by (simp add: apart_def starts_before_def gap_joins_def)

lemma merge_into_apart:
  "sorted_wrt starts_before gs \<Longrightarrow> bounded_gaps gs \<Longrightarrow> sorted_wrt apart (rev merged) \<Longrightarrow>
   (case merged of [] \<Rightarrow> True | p # _ \<Rightarrow> \<forall>g \<in> set gs. starts_before p g) \<Longrightarrow>
   sorted_wrt apart (merge_into merged gs)"
proof (induction merged gs rule: merge_into.induct)
  case (3 previous merged g gs)
  show ?case
  proof (cases "gap_joins previous g")
    case True
    have "sorted_wrt apart (rev (previous\<lparr>gr_last_seq := n\<rparr> # merged))" for n
      using 3(5) by (simp add: sorted_wrt_append)
    with 3 True show ?thesis by (simp add: bounded_gaps_def)
  next
    case False
    then have "sorted_wrt apart (rev (g # previous # merged))"
      using 3(4-6) by (intro sorted_wrt_snoc_newest) (simp_all add: bounded_gaps_def)
    with 3 False show ?thesis by (simp add: bounded_gaps_def)
  qed
qed (simp_all add: bounded_gaps_def)

lemma bounded_gaps_simps [simp]:
  "bounded_gaps []"
  "bounded_gaps (g # gs) \<longleftrightarrow> gr_first_seq g \<le> U64_MAX \<and> gr_last_seq g \<le> U64_MAX \<and> bounded_gaps gs"
  "bounded_gaps (gs @ hs) \<longleftrightarrow> bounded_gaps gs \<and> bounded_gaps hs"
  "bounded_gaps (rev gs) \<longleftrightarrow> bounded_gaps gs"
  "bounded_gaps (sort_key f gs) \<longleftrightarrow> bounded_gaps gs"
  by (auto simp: bounded_gaps_def)

theorem merge_leaves_apart: "bounded_gaps gaps \<Longrightarrow> sorted_wrt apart (merge_gap_ranges gaps)"
  unfolding merge_gap_ranges_def by (rule merge_into_apart [OF sorted_starts_before]) simp_all

lemma merge_into_bounded:
  "bounded_gaps merged \<Longrightarrow> bounded_gaps gs \<Longrightarrow> bounded_gaps (merge_into merged gs)"
  by (induction merged gs rule: merge_into.induct) auto

lemma merge_bounded [simp]: "bounded_gaps gaps \<Longrightarrow> bounded_gaps (merge_gap_ranges gaps)"
  by (simp add: merge_gap_ranges_def merge_into_bounded)

section \<open>Adding a candidate range\<close>

lemma push_gap_bounded_Inr:
  assumes "push_gap_bounded g gaps = Inr gaps'" "bounded_gaps (g # gaps)"
  shows "bounded_gaps gaps'" "gap_at e r n gaps' \<longleftrightarrow> in_gap e r n g \<or> gap_at e r n gaps"
    "length gaps < 2 * MAX_QUERY_GAPS \<Longrightarrow> length gaps' < 2 * MAX_QUERY_GAPS"
  using assms
  by (auto simp: push_gap_bounded_def Let_def merge_keeps_gaps MAX_QUERY_GAPS_def split: if_splits)

definition candidate_at :: "uuid \<Rightarrow> gap_reason \<Rightarrow> nat \<Rightarrow> gap_range \<Rightarrow> nat \<Rightarrow> (nat \<times> nat) list \<Rightarrow> bool" where
  "candidate_at e r n c next_seq covered \<longleftrightarrow>
     e = gr_epoch c \<and> r = gr_reason c \<and> next_seq \<le> n \<and> n \<le> gr_last_seq c \<and>
     (\<forall>(first, until) \<in> set covered. \<not> (first \<le> n \<and> n \<le> until))"

lemma fill_uncovered_exact:
  "fill_uncovered c next_seq covered gaps = Inr gaps' \<Longrightarrow> bounded_gaps gaps \<Longrightarrow>
   gr_last_seq c \<le> U64_MAX \<Longrightarrow> next_seq \<le> gr_last_seq c \<Longrightarrow> sorted covered \<Longrightarrow>
   (gap_at e r n gaps' \<longleftrightarrow> gap_at e r n gaps \<or> candidate_at e r n c next_seq covered) \<and> bounded_gaps gaps'"
proof (induction c next_seq covered gaps arbitrary: gaps' rule: fill_uncovered.induct)
  case (1 c next_seq gaps)
  then show ?case
    using push_gap_bounded_Inr(1,2) [of "c\<lparr>gr_first_seq := next_seq\<rparr>" gaps gaps']
    by (auto simp: candidate_at_def in_gap_def)
next
  case (2 c next_seq first until covered gaps)
  let ?before = "c\<lparr>gr_first_seq := next_seq, gr_last_seq := min (gr_last_seq c) (first - 1)\<rparr>"
  obtain gaps1 where g1: "(if first > next_seq then push_gap_bounded ?before gaps else Inr gaps) = Inr gaps1"
    using 2(2) by (auto simp: res_simps)
  have later: "\<And>f u. (f, u) \<in> set covered \<Longrightarrow> first \<le> f" using 2(6) by (fastforce simp: less_eq_prod_def)
  have pushed: "gap_at e r n gaps1 \<longleftrightarrow>
      gap_at e r n gaps \<or> (next_seq < first \<and> in_gap e r n ?before)" "bounded_gaps gaps1"
    using g1 2(3-5) push_gap_bounded_Inr(1,2) [of ?before gaps gaps1] by (auto split: if_splits)
  show ?case
  proof (cases "until \<ge> gr_last_seq c")
    case True
    then have "gaps' = gaps1" using 2(2) g1 by simp
    with True pushed later show ?thesis
      by (fastforce simp: candidate_at_def in_gap_def)
  next
    case False
    then have step: "saturating_add_u64 until 1 = until + 1" "\<not> gr_last_seq c < max next_seq (until + 1)"
      using 2(4,5) by (simp_all add: saturating_add_u64_def)
    have "fill_uncovered c (max next_seq (until + 1)) covered gaps1 = Inr gaps'"
      using 2(2) g1 False step by (simp add: Let_def del: less_max_iff_disj max_less_iff_conj)
    with 2(1) [OF g1 False refl] step pushed(2) 2(4,6) have
      "(gap_at e r n gaps' \<longleftrightarrow> gap_at e r n gaps1 \<or>
          candidate_at e r n c (max next_seq (until + 1)) covered) \<and> bounded_gaps gaps'"
      by (simp add: not_less)
    with pushed later show ?thesis
      by (fastforce simp: candidate_at_def in_gap_def)
  qed
qed

theorem push_uncovered_exact:
  assumes "push_uncovered_gap c gaps = Inr gaps'" "bounded_gaps (c # gaps)"
  shows "gap_at e r n gaps' \<longleftrightarrow> gap_at e r n gaps \<or> (in_gap e r n c \<and> \<not> missing_at e n gaps)"
    "bounded_gaps gaps'"
proof -
  let ?covered = "sort (map (\<lambda>g. (gr_first_seq g, gr_last_seq g)) (overlapping c gaps))"
  have "candidate_at e r n c (gr_first_seq c) ?covered \<longleftrightarrow> in_gap e r n c \<and> \<not> missing_at e n gaps"
    if "gr_first_seq c \<le> gr_last_seq c"
    by (fastforce simp: candidate_at_def in_gap_def missing_at_def overlapping_def)
  moreover have "gr_first_seq c \<le> gr_last_seq c \<Longrightarrow>
      (gap_at e r n gaps' \<longleftrightarrow> gap_at e r n gaps \<or> candidate_at e r n c (gr_first_seq c) ?covered) \<and>
      bounded_gaps gaps'"
    using assms by (intro fill_uncovered_exact) (simp_all add: push_uncovered_gap_def)
  ultimately show "gap_at e r n gaps' \<longleftrightarrow> gap_at e r n gaps \<or> (in_gap e r n c \<and> \<not> missing_at e n gaps)"
    "bounded_gaps gaps'"
    using assms by (auto simp: push_uncovered_gap_def in_gap_def split: if_splits)
qed

end
