(* ===== verification/JournalRecovery.thy ===== *)
theory JournalRecovery
  imports JournalRecords
begin

text \<open>
  \<open>recover_open_segment\<close> of \<open>crates/seriald/src/journal.rs\<close>: the scan of a segment left open by a
  stopped daemon, the truncation of its torn tail, and its sealing under its final name. Also
  \<open>scan_last_seq\<close>, which reads a segment the same way.
\<close>

section \<open>Names\<close>

definition pad20 :: "nat \<Rightarrow> rstring" where
  "pad20 n = replicate (20 - length (digits_of n)) 48 @ digits_of n"

definition open_name :: "'j journal_env \<Rightarrow> segment_header \<Rightarrow> rstring" where
  "open_name env h = pad20 (sh_first_seq h) @ lit ''-'' @ je_uuid_text env (sh_segment_id h) @ lit ''.open''"

definition sealed_path :: "'j journal_env \<Rightarrow> path \<Rightarrow> segment_header \<Rightarrow> nat \<Rightarrow> path" where
  "sealed_path env open_path h last_seq =
     (fst open_path,
      pad20 (sh_first_seq h) @ lit ''-'' @ pad20 last_seq @ lit ''-'' @
      je_uuid_text env (sh_segment_id h) @ lit ''.slog'')"

section \<open>File operations with a result\<close>

definition fs_set_len :: "os \<Rightarrow> path \<Rightarrow> nat \<Rightarrow> (files, io_error, unit) action" where
  "fs_set_len d p n fs =
     (case os_fault d (FsSetLen p) of
        Some e \<Rightarrow> (Inl e, fs)
      | None \<Rightarrow>
          (case bt_get fs p of
             Some (Regular bs) \<Rightarrow>
               (Inr (), bt_insert p (Regular (take n bs @ replicate (n - length bs) 0)) fs)
           | _ \<Rightarrow> (Inr (), fs)))"

definition fs_sync :: "os \<Rightarrow> path \<Rightarrow> (files, io_error, unit) action" where
  "fs_sync d p fs = (case os_fault d (FsSync p) of Some e \<Rightarrow> (Inl e, fs) | None \<Rightarrow> (Inr (), fs))"

definition fs_remove :: "os \<Rightarrow> path \<Rightarrow> (files, io_error, unit) action" where
  "fs_remove d p fs =
     (case os_fault d (FsRemove p) of
        Some e \<Rightarrow> (Inl e, fs)
      | None \<Rightarrow>
          if bt_contains fs p then (Inr (), bt_remove p fs)
          else (Inl (io_fail IoNotFound (lit ''not found'')), fs))"

definition fs_len :: "os \<Rightarrow> path \<Rightarrow> (files, io_error, nat) action" where
  "fs_len d p fs = (map_sum id snd (fs_metadata d p fs), fs)"

section \<open>Recovery\<close>

lemma read_event_shrinks:
  "read_record env f = (Inr (ReadEvent e), f') \<Longrightarrow> length (fl_rest f') < length (fl_rest f)"
  by (erule read_event_frame) simp

text \<open>The scanning loop: the offset after the last good record and the sequence number in it.\<close>

function recover_scan ::
  "'j journal_env \<Rightarrow> segment_header \<Rightarrow> nat \<Rightarrow> nat \<Rightarrow> nat option \<Rightarrow>
   (file_handle, journal_error, nat \<times> nat option) action" where
  "recover_scan env h previous last_good_offset last_seq f =
     (case read_record env f of
        (Inl e, f) \<Rightarrow> (Inl e, f)
      | (Inr (ReadEvent event), f) \<Rightarrow>
          if ev_port event = sh_port h \<and> ev_epoch event = sh_epoch h \<and> ev_seq event > previous
          then recover_scan env h (ev_seq event) (fl_pos f) (Some (ev_seq event)) f
          else (Inr (last_good_offset, last_seq), f)
      | (Inr ReadEof, f) \<Rightarrow> (Inr (last_good_offset, last_seq), f)
      | (Inr (ReadInvalid reason), f) \<Rightarrow> (Inr (last_good_offset, last_seq), f))"
  by auto

termination
  by (relation "measure (\<lambda>(env, h, previous, good, seen, f). length (fl_rest f))")
    (auto dest: sym [of _ "read_record _ _"] intro: read_event_shrinks)

declare recover_scan.simps [simp del]

definition recover_finish ::
  "'j journal_env \<Rightarrow> os \<Rightarrow> path \<Rightarrow> segment_header \<Rightarrow> nat \<Rightarrow> nat option \<Rightarrow> (files, journal_error, unit) action" where
  "recover_finish env d p h last_good_offset last_seq =
     st_bind (st_map_error JIo (fs_len d p)) (\<lambda>len.
     st_bind (if len \<noteq> last_good_offset then st_map_error JIo (fs_set_len d p last_good_offset)
              else st_return ()) (\<lambda>_.
     st_bind (st_map_error JIo (fs_sync d p)) (\<lambda>_.
     case last_seq of
       None \<Rightarrow> st_map_error JIo (fs_remove d p)
     | Some n \<Rightarrow> st_map_error JIo (replace_file d p (sealed_path env p h n)))))"

definition recover_open_segment ::
  "'j journal_env \<Rightarrow> os \<Rightarrow> path \<Rightarrow> (files, journal_error, unit) action" where
  "recover_open_segment env d p fs =
     (case file_open d p fs of
        Inl e \<Rightarrow> (Inl (JIo e), fs)
      | Inr f \<Rightarrow>
          (case st_bind (read_segment_header env d p) (\<lambda>(h, data_offset).
                 st_bind (st_map_error JIo (file_seek d p data_offset)) (\<lambda>_.
                 st_bind (recover_scan env h 0 data_offset None) (\<lambda>(good, last_seq).
                 st_return (h, good, last_seq)))) f of
             (Inl e, _) \<Rightarrow> (Inl e, fs)
           | (Inr (h, good, last_seq), _) \<Rightarrow> recover_finish env d p h good last_seq fs))"

text \<open>\<open>recover_open_segments\<close>, over the paths \<open>collect_files\<close> found.\<close>

fun recover_open_segments ::
  "'j journal_env \<Rightarrow> os \<Rightarrow> path list \<Rightarrow> (files, journal_error, unit) action" where
  "recover_open_segments env d [] = st_return ()"
| "recover_open_segments env d (p # ps) =
     st_bind (recover_open_segment env d p) (\<lambda>_. recover_open_segments env d ps)"

text \<open>The loop of \<open>scan_last_seq\<close>.\<close>

function scan_last ::
  "'j journal_env \<Rightarrow> segment_header \<Rightarrow> nat option \<Rightarrow> (file_handle, journal_error, nat option) action" where
  "scan_last env h last_seq f =
     (case read_record env f of
        (Inl e, f) \<Rightarrow> (Inl e, f)
      | (Inr (ReadEvent event), f) \<Rightarrow>
          if ev_port event = sh_port h \<and> ev_epoch event = sh_epoch h
          then scan_last env h (Some (ev_seq event)) f
          else (Inr last_seq, f)
      | (Inr ReadEof, f) \<Rightarrow> (Inr last_seq, f)
      | (Inr (ReadInvalid reason), f) \<Rightarrow> (Inr last_seq, f))"
  by auto
termination
  by (relation "measure (\<lambda>(env, h, seen, f). length (fl_rest f))")
    (auto dest: sym [of _ "read_record _ _"] intro: read_event_shrinks)

declare scan_last.simps [simp del]

definition scan_last_seq :: "'j journal_env \<Rightarrow> os \<Rightarrow> path \<Rightarrow> files \<Rightarrow> journal_error + nat option" where
  "scan_last_seq env d p fs =
     sbind (map_error JIo (file_open d p fs)) (\<lambda>f.
       fst (st_bind (read_segment_header env d p) (\<lambda>(h, data_offset).
              st_bind (st_map_error JIo (file_seek d p data_offset)) (\<lambda>_.
              scan_last env h None)) f))"

section \<open>The header is read back\<close>

definition segment_bytes :: "'j journal_env \<Rightarrow> segment_header \<Rightarrow> bytes \<Rightarrow> bool" where
  "segment_bytes env h bs \<longleftrightarrow> encode_segment_header env h = Inr bs \<and> validate_port (sh_port h) = Inr ()"

definition segment_frame :: "'j journal_env \<Rightarrow> bytes \<Rightarrow> bytes" where
  "segment_frame env encoded =
     (SEGMENT_MAGIC @ to_le_bytes FORMAT_VERSION @ to_le_bytes (word_of_nat (length encoded)) @
      to_le_bytes (segment_checksum env FORMAT_VERSION (word_of_nat (length encoded)) encoded)) @ encoded"

lemma encode_segment_header_Inr [res_simps]:
  "encode_segment_header env h = Inr bs \<longleftrightarrow>
     (\<exists>encoded. encode_json (je_segment env) h = Inr encoded \<and>
        length encoded \<le> MAX_SEGMENT_HEADER_BYTES \<and> bs = segment_frame env encoded)"
  by (cases "encode_json (je_segment env) h")
    (auto simp: encode_segment_header_def segment_frame_def Let_def)

lemma length_segment_frame [simp]: "length (segment_frame env encoded) = 20 + length encoded"
  by (simp add: segment_frame_def)

lemma header_length_announced:
  "encode_segment_header env h = Inr bs \<Longrightarrow> segment_header_encoded_len env h = Inr (length bs)"
  unfolding encode_segment_header_Inr
  by (auto simp: segment_header_encoded_len_def SEGMENT_PREFIX_LEN_def)

lemma returns_read_header:
  assumes "codec_ok (je_segment env)" "segment_bytes env h bs" "fl_data f = bs @ ys" "steady f"
    "os_fault d (FsSeek p) = None"
  shows "\<exists>f'. read_segment_header env d p f = (Inr (h, length bs), f') \<and> steady f' \<and> fl_data f' = fl_data f"
proof -
  obtain encoded where e: "encode_json (je_segment env) h = Inr encoded"
    "length encoded \<le> MAX_SEGMENT_HEADER_BYTES" "bs = segment_frame env encoded"
    using assms(2) by (auto simp: segment_bytes_def res_simps)
  define prefix where "prefix = SEGMENT_MAGIC @ to_le_bytes FORMAT_VERSION @
      to_le_bytes (word_of_nat (length encoded)) @
      to_le_bytes (segment_checksum env FORMAT_VERSION (word_of_nat (length encoded)) encoded)"
  note slices = prefix_slices [OF prefix_def]
  define f0 where "f0 = f\<lparr>fl_pos := 0\<rparr>"
  have f0: "file_seek d p 0 f = (Inr (), f0)" "steady f0" "fl_data f0 = fl_data f"
    "fl_rest f0 = prefix @ encoded @ ys"
    using assms(3,4,5) e(3)
    by (simp_all add: file_seek_def f0_def steady_def fl_rest_def segment_frame_def prefix_def)
  obtain f1 where f1: "read_exact 20 f0 = (Inr prefix, f1)" "steady f1" "fl_rest f1 = encoded @ ys"
    "fl_data f1 = fl_data f"
    using reads_exact [OF f0(2,4) slices(5)] f0(3) by auto
  obtain f2 where f2: "read_exact (length encoded) f1 = (Inr encoded, f2)" "steady f2"
    "fl_data f2 = fl_data f"
    using reads_exact [OF f1(2,3) refl] f1(4) by auto
  have "decode_json (je_segment env) encoded = Inr h"
    using assms(1) e(1) by (simp add: codec_ok_def)
  moreover have "unat (word_of_nat (length encoded) :: 32 word) = length encoded"
    using e(2) record_limits(3) by simp
  ultimately have "read_segment_header env d p f = (Inr (h, length bs), f2)"
    using f0(1) f1(1) f2(1) slices e(2,3) assms(2)
    by (simp add: read_segment_header_def st_bind_def st_map_error_def SEGMENT_PREFIX_LEN_def
        segment_bytes_def Let_def)
  then show ?thesis using f2 by blast
qed

section \<open>The scan keeps the complete records\<close>

text \<open>The events of one segment, in the order they were appended after \<open>previous\<close>.\<close>

fun in_stream :: "segment_header \<Rightarrow> nat \<Rightarrow> 'j timeline_event list \<Rightarrow> bool" where
  "in_stream h previous [] = True"
| "in_stream h previous (e # es) =
     (ev_port e = sh_port h \<and> ev_epoch e = sh_epoch h \<and> previous < ev_seq e \<and> ev_durable e \<and>
      in_stream h (ev_seq e) es)"

definition records_of :: "'j journal_env \<Rightarrow> 'j timeline_event list \<Rightarrow> bytes list \<Rightarrow> bool" where
  "records_of env es recs \<longleftrightarrow> list_all2 (\<lambda>e bs. encode_record env e = Inr bs) es recs"

text \<open>What a write that did not finish leaves behind: nothing, or the beginning of a record.\<close>

definition torn :: "'j journal_env \<Rightarrow> bytes \<Rightarrow> bool" where
  "torn env tail \<longleftrightarrow>
     tail = [] \<or> (\<exists>e bs missing. encode_record env e = Inr bs \<and> bs = tail @ missing \<and> missing \<noteq> [])"

lemma torn_take: "encode_record env e = Inr bs \<Longrightarrow> n < length bs \<Longrightarrow> torn env (take n bs)"
  unfolding torn_def by (rule disjI2, rule exI [of _ e], rule exI [of _ bs], rule exI [of _ "drop n bs"]) simp

lemma read_end:
  assumes "torn env (fl_rest f)" "steady f"
  shows "\<exists>r f'. read_record env f = (Inr r, f') \<and> (r = ReadEof \<or> (\<exists>m. r = ReadInvalid m)) \<and> steady f'"
proof -
  obtain r f' where rd: "read_record env f = (Inr r, f')" "steady f'"
    using read_record_returns [OF assms(2)] unfolding returns_def by blast
  moreover have "r = ReadEof \<or> (\<exists>m. r = ReadInvalid m)"
  proof (cases "fl_rest f = []")
    case True
    have "\<not> (\<exists>e. r = ReadEvent e)"
      using read_event_shrinks [of env f _ f'] rd(1) True by auto
    then show ?thesis by (cases r) auto
  next
    case False
    with assms(1) obtain e bs missing where
      "encode_record env e = Inr bs" "bs = fl_rest f @ missing" "missing \<noteq> []"
      by (auto simp: torn_def)
    then show ?thesis using read_torn rd(1) by metis
  qed
  ultimately show ?thesis by blast
qed

lemma read_next:
  assumes "codec_ok (je_header env)" "encode_record env e = Inr bs" "ev_durable e" "steady f"
    "fl_rest f = bs @ ys"
  shows "\<exists>f'. read_record env f = (Inr (ReadEvent e), f') \<and> steady f' \<and> fl_rest f' = ys \<and>
           fl_pos f' = fl_pos f + length bs"
proof -
  obtain r f' where rd: "read_record env f = (Inr r, f')" "steady f'"
    using read_record_returns [OF assms(4)] unfolding returns_def by blast
  note here = read_encoded [OF assms(1-3) rd(1) assms(5)]
  obtain header payload where "fl_rest f = record_frame env header payload @ fl_rest f'"
    "fl_pos f' = fl_pos f + length (record_frame env header payload)"
    using rd(1) here(1) read_event_frame by metis
  with rd here assms(5) show ?thesis by (auto dest: arg_cong [of _ _ length])
qed

definition last_seq_of :: "'j timeline_event list \<Rightarrow> nat option \<Rightarrow> nat option" where
  "last_seq_of es seen = (if es = [] then seen else Some (ev_seq (last es)))"

lemma recover_scan_stream:
  assumes "codec_ok (je_header env)" "torn env tail"
  shows "records_of env es recs \<Longrightarrow> in_stream h previous es \<Longrightarrow> steady f \<Longrightarrow>
     fl_rest f = concat recs @ tail \<Longrightarrow> fl_pos f = offset \<Longrightarrow>
     \<exists>f'. recover_scan env h previous offset seen f =
       (Inr (offset + length (concat recs), last_seq_of es seen), f')"
proof (induction es arbitrary: recs previous offset seen f)
  case Nil
  then obtain r f' where "read_record env f = (Inr r, f')" "r = ReadEof \<or> (\<exists>m. r = ReadInvalid m)"
    using read_end [of env f] assms(2) by (auto simp: records_of_def)
  then show ?case
    using Nil by (auto simp: records_of_def recover_scan.simps [of env h previous] last_seq_of_def)
next
  case (Cons e es)
  then obtain bs recs' where recs: "recs = bs # recs'" "encode_record env e = Inr bs"
    "records_of env es recs'"
    by (auto simp: records_of_def list_all2_Cons1)
  have fresh: "ev_port e = sh_port h" "ev_epoch e = sh_epoch h" "previous < ev_seq e" "ev_durable e"
    "in_stream h (ev_seq e) es"
    using Cons.prems(2) by auto
  obtain f1 where f1: "read_record env f = (Inr (ReadEvent e), f1)" "steady f1"
    "fl_rest f1 = concat recs' @ tail" "fl_pos f1 = offset + length bs"
    using read_next [OF assms(1) recs(2) fresh(4) Cons.prems(3)] Cons.prems(4,5) recs(1) by auto
  then have "recover_scan env h previous offset seen f =
      recover_scan env h (ev_seq e) (offset + length bs) (Some (ev_seq e)) f1"
    using fresh by (simp add: recover_scan.simps [of env h previous])
  with Cons.IH [OF recs(3) fresh(5) f1(2,3,4), of "Some (ev_seq e)"] show ?case
    by (auto simp: recs(1) last_seq_of_def)
qed

section \<open>A crash loses no complete record\<close>

definition quiet :: "os \<Rightarrow> path \<Rightarrow> bool" where
  "quiet d p \<longleftrightarrow> (\<forall>c. os_fault d c = None) \<and>
     (\<forall>e. ReadFails e \<in> set (os_reads d p) \<longrightarrow> io_kind e = IoInterrupted)"

definition segment_file :: "bytes \<Rightarrow> bytes list \<Rightarrow> bytes" where
  "segment_file head recs = head @ concat recs"

lemma sealed_path_neq: "snd p = open_name env h \<Longrightarrow> sealed_path env p h n \<noteq> p"
proof
  assume "snd p = open_name env h" "sealed_path env p h n = p"
  then have "snd (sealed_path env p h n) = open_name env h" by simp
  then have "rev (snd (sealed_path env p h n)) = rev (open_name env h)" by (rule arg_cong)
  then show False by (simp add: sealed_path_def open_name_def lit_def)
qed

lemma recover_finish_quiet:
  assumes "\<forall>c. os_fault d c = None" "bt_get fs p = Some (Regular (kept @ tail))"
  shows "recover_finish env d p h (length kept) (Some n) fs =
    (Inr (), bt_insert (sealed_path env p h n) (Regular kept)
       (bt_remove p (if tail = [] then fs else bt_insert p (Regular kept) fs)))"
    "recover_finish env d p h (length kept) None fs =
    (Inr (), bt_remove p (if tail = [] then fs else bt_insert p (Regular kept) fs))"
  using assms
  by (simp_all add: recover_finish_def st_bind_def st_map_error_def fs_len_def fs_metadata_def fs_set_len_def
      fs_sync_def fs_remove_def replace_file_def bt_contains_def bt_get_insert)

lemma recovery_finds:
  assumes "codec_ok (je_header env)" "codec_ok (je_segment env)" "segment_bytes env h head"
    "records_of env es recs" "in_stream h 0 es" "torn env tail" "quiet d p"
    "bt_get fs p = Some (Regular (segment_file head recs @ tail))"
  shows "recover_open_segment env d p fs =
    recover_finish env d p h (length (segment_file head recs)) (last_seq_of es None) fs"
proof -
  define f where "f = \<lparr>fl_data = segment_file head recs @ tail, fl_pos = 0, fl_answers = os_reads d p\<rparr>"
  have f: "file_open d p fs = Inr f" "steady f" "fl_data f = head @ concat recs @ tail"
    using assms(7,8) by (simp_all add: file_open_def f_def quiet_def steady_def segment_file_def)
  have faults: "\<And>c. os_fault d c = None" using assms(7) by (simp add: quiet_def)
  obtain f1 where f1: "read_segment_header env d p f = (Inr (h, length head), f1)" "steady f1"
    "fl_data f1 = fl_data f"
    using returns_read_header [OF assms(2,3) f(3,2) faults] by blast
  define f2 where "f2 = f1\<lparr>fl_pos := length head\<rparr>"
  have f2: "file_seek d p (length head) f1 = (Inr (), f2)" "steady f2" "fl_rest f2 = concat recs @ tail"
    "fl_pos f2 = length head"
    using faults f1(2,3) f(3) by (simp_all add: file_seek_def f2_def steady_def fl_rest_def)
  obtain f3 where "recover_scan env h 0 (length head) None f2 =
      (Inr (length head + length (concat recs), last_seq_of es None), f3)"
    using recover_scan_stream [OF assms(1,6,4,5) f2(2-4), of None] by blast
  then show ?thesis
    using f(1) f1(1) f2(1)
    by (simp add: recover_open_segment_def st_bind_def st_map_error_def segment_file_def)
qed

text \<open>
  The file of a segment after the daemon stopped in the middle of a write: recovery seals exactly
  the complete records, under the name that announces the last of them.
\<close>

theorem recovery_keeps_records:
  assumes "codec_ok (je_header env)" "codec_ok (je_segment env)" "segment_bytes env h head"
    "records_of env es recs" "in_stream h 0 es" "es \<noteq> []" "torn env tail" "quiet d p"
    "bt_get fs p = Some (Regular (segment_file head recs @ tail))" "snd p = open_name env h"
    "recover_open_segment env d p fs = (r, fs')"
  shows "r = Inr ()"
    "bt_get fs' (sealed_path env p h (ev_seq (last es))) = Some (Regular (segment_file head recs))"
    "bt_get fs' p = None"
    "q \<noteq> p \<Longrightarrow> q \<noteq> sealed_path env p h (ev_seq (last es)) \<Longrightarrow> bt_get fs' q = bt_get fs q"
proof -
  have "recover_open_segment env d p fs =
      recover_finish env d p h (length (segment_file head recs)) (Some (ev_seq (last es))) fs"
    using recovery_finds [OF assms(1-5,7-9)] assms(6) by (simp add: last_seq_of_def)
  with recover_finish_quiet(1) [OF _ assms(9), of d env h "ev_seq (last es)"] assms(8,11)
  have eq: "r = Inr ()" "fs' = bt_insert (sealed_path env p h (ev_seq (last es)))
      (Regular (segment_file head recs))
      (bt_remove p (if tail = [] then fs else bt_insert p (Regular (segment_file head recs)) fs))"
    by (simp_all add: quiet_def)
  note names = sealed_path_neq [OF assms(10), of "ev_seq (last es)"]
  show "r = Inr ()" by (rule eq(1))
  show "bt_get fs' (sealed_path env p h (ev_seq (last es))) = Some (Regular (segment_file head recs))"
    "bt_get fs' p = None"
    using names names [symmetric] by (simp_all add: eq(2) bt_get_insert bt_get_remove)
  show "q \<noteq> p \<Longrightarrow> q \<noteq> sealed_path env p h (ev_seq (last es)) \<Longrightarrow> bt_get fs' q = bt_get fs q"
    by (simp add: eq(2) bt_get_insert bt_get_remove)
qed

text \<open>A segment in which no record was completed leaves no file behind.\<close>

lemma recovery_of_empty_segment:
  assumes "codec_ok (je_header env)" "codec_ok (je_segment env)" "segment_bytes env h head"
    "torn env tail" "quiet d p" "bt_get fs p = Some (Regular (head @ tail))"
    "recover_open_segment env d p fs = (r, fs')"
  shows "r = Inr () \<and> bt_get fs' p = None"
  using recovery_finds [of env h head "[]" "[]" tail d p fs] assms
    recover_finish_quiet(2) [of d fs p head tail env h]
  by (auto simp: records_of_def segment_file_def last_seq_of_def quiet_def bt_get_remove)

text \<open>
  A crash in the middle of the header itself is different: the segment is refused, and with it
  the journal, since \<open>JournalManager::open\<close> stops at the first segment that is.
\<close>

lemma torn_header_refused:
  assumes "quiet d p" "bt_get fs p = Some (Regular bs)" "length bs < SEGMENT_PREFIX_LEN"
  shows "recover_open_segment env d p fs = (Inl (Corrupt p (lit ''incomplete segment header'')), fs)"
proof -
  define f where "f = \<lparr>fl_data = bs, fl_pos = 0, fl_answers = os_reads d p\<rparr>"
  have f: "file_open d p fs = Inr f" "file_seek d p 0 f = (Inr (), f)" "steady f" "fl_rest f = bs"
    using assms(1,2) by (simp_all add: file_open_def file_seek_def f_def quiet_def steady_def fl_rest_def)
  obtain f' where "read_up_to SEGMENT_PREFIX_LEN f = (Inr bs, f')"
    using read_up_to_steady [OF f(3), of SEGMENT_PREFIX_LEN] f(4) assms(3) by auto
  then have "read_exact SEGMENT_PREFIX_LEN f =
      (Inl (io_fail IoUnexpectedEof (lit ''failed to fill whole buffer'')), f')"
    using assms(3) by (simp add: read_exact_def st_bind_def)
  then show ?thesis
    using f(1,2)
    by (simp add: recover_open_segment_def read_segment_header_def st_bind_def st_map_error_def
        corrupt_or_io_def io_fail_def)
qed

lemma torn_header_blocks_open:
  assumes "quiet d p" "bt_get fs p = Some (Regular bs)" "length bs < SEGMENT_PREFIX_LEN"
  shows "fst (recover_open_segments env d (p # ps) fs) = Inl (Corrupt p (lit ''incomplete segment header''))"
  using torn_header_refused [OF assms, of env] by (simp add: st_bind_def)

end
