(* ===== verification/GapLedger.thy ===== *)
theory GapLedger
  imports JournalGaps JournalRecovery
begin

text \<open>
  The gap ledger of \<open>crates/seriald/src/journal.rs\<close>, one JSON line per recorded gap: its recovery
  after a torn write, the append of a gap, and the ranges a query loads from it under the query's
  budget. The clock is a parameter: the time elapsed at each of its readings.
\<close>

definition MAX_GAP_LEDGER_LINE_BYTES :: nat where "MAX_GAP_LEDGER_LINE_BYTES = 64 * 1024"

definition ledger_path :: "rstring \<Rightarrow> path" where
  "ledger_path root = (root, lit ''retention-gaps.jsonl'')"

section \<open>Lines\<close>

fun upto_newline :: "bytes \<Rightarrow> bytes" where
  "upto_newline [] = []"
| "upto_newline (b # bs) = (if b = 10 then [b] else b # upto_newline bs)"

text \<open>\<open>take(MAX + 1).read_until(b'\n')\<close>.\<close>

definition ledger_line :: "bytes \<Rightarrow> bytes" where
  "ledger_line bs = upto_newline (take (MAX_GAP_LEDGER_LINE_BYTES + 1) bs)"

lemma upto_newline_Nil [simp]: "upto_newline bs = [] \<longleftrightarrow> bs = []"
  by (cases bs) simp_all

lemma ledger_line_Nil [simp]: "ledger_line bs = [] \<longleftrightarrow> bs = []"
  by (simp add: ledger_line_def)

lemma ledger_line_shrinks [termination_simp]: "bs \<noteq> [] \<Longrightarrow> length bs - length (ledger_line bs) < length bs"
  by (cases "ledger_line bs") (auto simp: diff_less dest: arg_cong [of _ _ length])

lemma upto_newline_line: "10 \<notin> set l \<Longrightarrow> upto_newline (l @ 10 # bs) = l @ [10]"
  by (induction l) auto

lemma upto_newline_torn: "10 \<notin> set bs \<Longrightarrow> upto_newline bs = bs"
  by (induction bs) auto

lemma ledger_line_line:
  assumes "10 \<notin> set l" "length l < MAX_GAP_LEDGER_LINE_BYTES"
  shows "ledger_line (l @ 10 # bs) = l @ [10]"
proof -
  have "MAX_GAP_LEDGER_LINE_BYTES + 1 - length l = Suc (MAX_GAP_LEDGER_LINE_BYTES - length l)"
    using assms(2) by simp
  then have "take (MAX_GAP_LEDGER_LINE_BYTES + 1) (l @ 10 # bs) =
      l @ 10 # take (MAX_GAP_LEDGER_LINE_BYTES - length l) bs"
    using assms(2) by (simp only: take_append take_Suc_Cons) simp
  then show ?thesis by (simp only: ledger_line_def upto_newline_line [OF assms(1)])
qed

lemma ledger_line_torn: "10 \<notin> set bs \<Longrightarrow> ledger_line bs = take (MAX_GAP_LEDGER_LINE_BYTES + 1) bs"
  unfolding ledger_line_def by (rule upto_newline_torn) (auto dest: in_set_takeD)

section \<open>Recovery of the ledger\<close>

definition valid_gap_line :: "'j journal_env \<Rightarrow> bytes \<Rightarrow> bool" where
  "valid_gap_line env line =
     (case decode_json (je_gap env) line of
        Inl _ \<Rightarrow> False
      | Inr g \<Rightarrow> validate_port (sg_port g) = Inr () \<and> sg_first_seq g \<le> sg_last_seq g)"

function ledger_scan :: "'j journal_env \<Rightarrow> bytes \<Rightarrow> nat \<Rightarrow> nat \<Rightarrow> bool \<Rightarrow> nat" where
  "ledger_scan env bs offset last_valid_end discarding =
     (let line = ledger_line bs;
          offset = saturating_add_u64 offset (length line);
          complete = (line \<noteq> [] \<and> last line = 10)
      in if line = [] then last_valid_end
         else if discarding \<or> length line > MAX_GAP_LEDGER_LINE_BYTES
         then ledger_scan env (drop (length line) bs) offset last_valid_end (\<not> complete)
         else if \<not> complete then last_valid_end
         else ledger_scan env (drop (length line) bs) offset
                (if valid_gap_line env (butlast line) then offset else last_valid_end) False)"
  by auto
termination
  by (relation "measure (\<lambda>(env, bs, _). length bs)") (auto intro: ledger_line_shrinks)

declare ledger_scan.simps [simp del]

definition recover_gap_ledger_file ::
  "'j journal_env \<Rightarrow> os \<Rightarrow> path \<Rightarrow> (files, journal_error, nat) action" where
  "recover_gap_ledger_file env d p =
     st_bind (st_map_error JIo (fs_len d p)) (\<lambda>original_len.
     st_bind (st_lift (map_error JIo (fs_call_ok d (FsSeek p)))) (\<lambda>_.
     st_bind (\<lambda>fs. (map_error JIo (fs_read d p fs), fs)) (\<lambda>bs.
       (let last_valid_end = ledger_scan env bs 0 0 False;
            truncated_bytes = original_len - last_valid_end
        in st_bind (if truncated_bytes > 0
                    then st_bind (st_map_error JIo (fs_set_len d p last_valid_end)) (\<lambda>_.
                         st_map_error JIo (fs_sync d p))
                    else st_return ()) (\<lambda>_.
           st_return truncated_bytes)))))"

definition recover_gap_ledger :: "'j journal_env \<Rightarrow> os \<Rightarrow> rstring \<Rightarrow> (files, journal_error, nat) action" where
  "recover_gap_ledger env d root fs =
     (case os_fault d (FsOpen (ledger_path root)) of
        Some e \<Rightarrow> if io_kind e = IoNotFound then (Inr 0, fs) else (Inl (JIo e), fs)
      | None \<Rightarrow>
          if bt_contains fs (ledger_path root) then recover_gap_ledger_file env d (ledger_path root) fs
          else (Inr 0, fs))"

section \<open>Appending\<close>

text \<open>\<open>create(true).open\<close>, and \<open>write_all\<close> at the end of an open file.\<close>

definition fs_open_create :: "os \<Rightarrow> path \<Rightarrow> (files, io_error, unit) action" where
  "fs_open_create d p fs =
     (case os_fault d (FsOpen p) of
        Some e \<Rightarrow> (Inl e, fs)
      | None \<Rightarrow> (Inr (), if bt_contains fs p then fs else bt_insert p (Regular []) fs))"

definition fs_append :: "os \<Rightarrow> path \<Rightarrow> bytes \<Rightarrow> (files, io_error, unit) action" where
  "fs_append d p bs fs =
     (case bt_get fs p of
        Some (Regular old) \<Rightarrow>
          (case os_fault d (FsWrite p) of
             Some e \<Rightarrow> (Inl e, bt_insert p (Regular (old @ take (os_written d) bs)) fs)
           | None \<Rightarrow> (Inr (), bt_insert p (Regular (old @ bs)) fs))
      | _ \<Rightarrow> (Inl (io_fail IoNotFound (lit ''not found'')), fs))"

record gap_ledger_append =
  gl_appended_bytes :: nat
  gl_truncated_bytes :: nat

definition append_gap_ledger ::
  "'j journal_env \<Rightarrow> os \<Rightarrow> rstring \<Rightarrow> stored_gap \<Rightarrow> (files, journal_error, gap_ledger_append) action" where
  "append_gap_ledger env d root gap =
     (let p = ledger_path root
      in st_bind (st_lift (map_error JIo (fs_call_ok d (FsCreateDir root)))) (\<lambda>_.
         st_bind (st_map_error JIo (fs_open_create d p)) (\<lambda>_.
         st_bind (recover_gap_ledger_file env d p) (\<lambda>truncated_bytes.
         st_bind (st_lift (map_error JJson (encode_json (je_gap env) gap))) (\<lambda>encoded.
         st_bind (st_map_error JIo (fs_append d p (encoded @ [10]))) (\<lambda>_.
         st_bind (st_map_error JIo (fs_sync d p)) (\<lambda>_.
         st_return \<lparr>gl_appended_bytes = length encoded + 1, gl_truncated_bytes = truncated_bytes\<rparr>)))))))"

section \<open>The ledger survives a torn append\<close>

text \<open>
  What the code relies on of the JSON encoder: a gap decodes to itself, and its compact encoding
  holds no line feed.
\<close>

definition gap_codec_ok :: "'j journal_env \<Rightarrow> bool" where
  "gap_codec_ok env \<longleftrightarrow>
     codec_ok (je_gap env) \<and> (\<forall>g bs. encode_json (je_gap env) g = Inr bs \<longrightarrow> 10 \<notin> set bs)"

definition gap_line :: "'j journal_env \<Rightarrow> stored_gap \<Rightarrow> bytes \<Rightarrow> bool" where
  "gap_line env g bs \<longleftrightarrow>
     encode_json (je_gap env) g = Inr bs \<and> length bs < MAX_GAP_LEDGER_LINE_BYTES \<and>
     validate_port (sg_port g) = Inr () \<and> sg_first_seq g \<le> sg_last_seq g"

definition ledger_bytes :: "bytes list \<Rightarrow> bytes" where
  "ledger_bytes lines = concat (map (\<lambda>l. l @ [10]) lines)"

lemma ledger_bytes_simps [simp]:
  "ledger_bytes [] = []" "ledger_bytes (l # ls) = l @ 10 # ledger_bytes ls"
  "ledger_bytes (ls @ ms) = ledger_bytes ls @ ledger_bytes ms"
  by (simp_all add: ledger_bytes_def)

lemma valid_gap_line_encoded: "gap_codec_ok env \<Longrightarrow> gap_line env g l \<Longrightarrow> valid_gap_line env l"
  by (auto simp: valid_gap_line_def gap_line_def gap_codec_ok_def codec_ok_def)

lemma ledger_scan_torn: "10 \<notin> set tail \<Longrightarrow> ledger_scan env tail offset n discarding = n"
proof (induction env tail offset n discarding rule: ledger_scan.induct)
  case (1 env bs offset n discarding)
  show ?case
  proof (cases "bs = []")
    case False
    then have "last (ledger_line bs) \<in> set bs"
      using 1(3) ledger_line_Nil [of bs] last_in_set [of "ledger_line bs"] ledger_line_torn [of bs]
      by (metis in_set_takeD)
    then have "last (ledger_line bs) \<noteq> 10" using 1(3) by auto
    moreover have "10 \<notin> set (drop k bs)" for k using 1(3) by (auto dest: in_set_dropD)
    ultimately show ?thesis
      using 1(1) [OF refl refl refl] False by (simp add: ledger_scan.simps [of env bs] Let_def)
  qed (simp add: ledger_scan.simps)
qed

lemma ledger_scan_lines:
  assumes "gap_codec_ok env" "10 \<notin> set tail"
  shows "list_all2 (gap_line env) gs ls \<Longrightarrow> offset + length (ledger_bytes ls) \<le> U64_MAX \<Longrightarrow>
     ledger_scan env (ledger_bytes ls @ tail) offset offset False = offset + length (ledger_bytes ls)"
proof (induction gs ls arbitrary: offset rule: list_all2_induct)
  case Nil
  then show ?case using assms(2) by (simp add: ledger_scan_torn)
next
  case (Cons g gs l ls)
  have l: "10 \<notin> set l" "length l < MAX_GAP_LEDGER_LINE_BYTES"
    using Cons(1) assms(1) by (auto simp: gap_line_def gap_codec_ok_def)
  have line: "ledger_line (l @ 10 # ledger_bytes ls @ tail) = l @ [10]"
    by (rule ledger_line_line [OF l])
  have "saturating_add_u64 offset (length l + 1) = offset + length l + 1"
    using Cons.prems by (simp add: saturating_add_u64_def)
  then have "ledger_scan env (ledger_bytes (l # ls) @ tail) offset offset False =
      ledger_scan env (ledger_bytes ls @ tail) (offset + length l + 1) (offset + length l + 1) False"
    using line l(2) valid_gap_line_encoded [OF assms(1) Cons(1)]
    by (simp add: ledger_scan.simps [of env "l @ 10 # ledger_bytes ls @ tail"] Let_def)
  with Cons.IH [of "offset + length l + 1"] Cons.prems show ?case by simp
qed

lemma ledger_recovered:
  assumes "gap_codec_ok env" "list_all2 (gap_line env) gs ls" "10 \<notin> set tail"
    "bt_get fs p = Some (Regular (ledger_bytes ls @ tail))" "length (ledger_bytes ls) \<le> U64_MAX"
    "\<forall>c. os_fault d c = None"
  shows "\<exists>fs'. recover_gap_ledger_file env d p fs = (Inr (length tail), fs') \<and>
     bt_get fs' p = Some (Regular (ledger_bytes ls)) \<and> (\<forall>q. q \<noteq> p \<longrightarrow> bt_get fs' q = bt_get fs q)"
proof -
  have "ledger_scan env (ledger_bytes ls @ tail) 0 0 False = length (ledger_bytes ls)"
    using ledger_scan_lines [OF assms(1,3,2), of 0] assms(5) by simp
  then show ?thesis
    using assms(4,6)
    by (cases "tail = []")
      (simp_all add: recover_gap_ledger_file_def st_bind_def st_map_error_def fs_len_def fs_metadata_def
        fs_read_def fs_call_ok_def fs_set_len_def fs_sync_def bt_get_insert)
qed

theorem ledger_append_recovers:
  assumes "gap_codec_ok env" "list_all2 (gap_line env) gs ls" "10 \<notin> set tail"
    "bt_get fs (ledger_path root) = Some (Regular (ledger_bytes ls @ tail))"
    "length (ledger_bytes ls) \<le> U64_MAX" "\<forall>c. os_fault d c = None" "gap_line env g l"
  shows "\<exists>fs'. append_gap_ledger env d root g fs =
       (Inr \<lparr>gl_appended_bytes = length l + 1, gl_truncated_bytes = length tail\<rparr>, fs') \<and>
     bt_get fs' (ledger_path root) = Some (Regular (ledger_bytes (ls @ [l]))) \<and>
     (\<forall>q. q \<noteq> ledger_path root \<longrightarrow> bt_get fs' q = bt_get fs q)"
proof -
  obtain fs1 where "recover_gap_ledger_file env d (ledger_path root) fs = (Inr (length tail), fs1)"
    "bt_get fs1 (ledger_path root) = Some (Regular (ledger_bytes ls))"
    "\<forall>q. q \<noteq> ledger_path root \<longrightarrow> bt_get fs1 q = bt_get fs q"
    using ledger_recovered [OF assms(1-6)] by blast
  moreover have "fs_open_create d (ledger_path root) fs = (Inr (), fs)"
    using assms(4,6) by (simp add: fs_open_create_def bt_contains_def)
  ultimately show ?thesis
    using assms(6,7)
    by (simp add: append_gap_ledger_def Let_def st_bind_def st_map_error_def fs_call_ok_def fs_append_def
        fs_sync_def gap_line_def bt_get_insert)
qed

section \<open>The budget of a query\<close>

text \<open>\<open>qb_clock\<close> is the time elapsed at each reading of the clock, \<open>qb_readings\<close> the readings made.\<close>

record query_budget =
  qb_max_scan_bytes :: nat
  qb_max_scan_time :: nat
  qb_clock :: "nat \<Rightarrow> nat"
  qb_readings :: nat
  qb_scanned_bytes :: nat

definition add_bytes :: "nat \<Rightarrow> query_budget \<Rightarrow> query_budget" where
  "add_bytes n b = b\<lparr>qb_scanned_bytes := saturating_add_u64 (qb_scanned_bytes b) n\<rparr>"

definition exhausted :: "query_budget \<Rightarrow> bool \<times> query_budget" where
  "exhausted b =
     (if qb_scanned_bytes b \<ge> qb_max_scan_bytes b then (True, b)
      else (qb_clock b (qb_readings b) \<ge> qb_max_scan_time b, b\<lparr>qb_readings := qb_readings b + 1\<rparr>))"

definition budget_error :: "rstring \<Rightarrow> query_budget \<Rightarrow> journal_error" where
  "budget_error phase b =
     QueryBudgetExceeded phase (qb_scanned_bytes b) (min (qb_clock b (qb_readings b) div 1000000) U64_MAX)"

definition ensure_available :: "rstring \<Rightarrow> query_budget \<Rightarrow> journal_error + query_budget" where
  "ensure_available phase b =
     (case exhausted b of (e, b) \<Rightarrow> if e then Inl (budget_error phase b) else Inr b)"

definition charge :: "nat \<Rightarrow> rstring \<Rightarrow> query_budget \<Rightarrow> journal_error + query_budget" where
  "charge n phase b = ensure_available phase (add_bytes n b)"

lemma ensure_available_Inr [res_simps]:
  "ensure_available phase b = Inr b' \<longleftrightarrow>
     qb_scanned_bytes b < qb_max_scan_bytes b \<and> qb_clock b (qb_readings b) < qb_max_scan_time b \<and>
     b' = b\<lparr>qb_readings := qb_readings b + 1\<rparr>"
  by (auto simp: ensure_available_def exhausted_def)

section \<open>Reading the ledger\<close>

definition chomp :: "bytes \<Rightarrow> bytes" where
  "chomp line = (if line \<noteq> [] \<and> last line = 10 then butlast line else line)"

function visit_lines ::
  "'j journal_env \<Rightarrow> path \<Rightarrow> (stored_gap \<Rightarrow> 's \<Rightarrow> journal_error + 's) \<Rightarrow> bytes \<Rightarrow> query_budget \<Rightarrow> 's \<Rightarrow>
   journal_error + query_budget \<times> 's" where
  "visit_lines env p visit bs b s =
     sbind (ensure_available (lit ''gap ledger'') b) (\<lambda>b.
       (let line = ledger_line bs; later = drop (length line) bs
        in if line = [] then Inr (b, s)
           else sbind (charge (length line) (lit ''gap ledger'') b) (\<lambda>b.
             if length line > MAX_GAP_LEDGER_LINE_BYTES
             then Inl (Corrupt p (lit ''gap ledger line exceeds size limit''))
             else if chomp line = [] then visit_lines env p visit later b s
             else
               (case decode_json (je_gap env) (chomp line) of
                  Inr g \<Rightarrow> sbind (visit g s) (\<lambda>s. visit_lines env p visit later b s)
                | Inl _ \<Rightarrow> visit_lines env p visit later b s))))"
  by auto
termination
  by (relation "measure (\<lambda>(env, p, visit, bs, _). length bs)") (auto intro: ledger_line_shrinks)

declare visit_lines.simps [simp del]

definition visit_gap_ledger ::
  "'j journal_env \<Rightarrow> os \<Rightarrow> rstring \<Rightarrow> files \<Rightarrow> (stored_gap \<Rightarrow> 's \<Rightarrow> journal_error + 's) \<Rightarrow> query_budget \<Rightarrow> 's \<Rightarrow>
   journal_error + query_budget \<times> 's" where
  "visit_gap_ledger env d root fs visit b s =
     (case os_fault d (FsOpen (ledger_path root)) of
        Some e \<Rightarrow> if io_kind e = IoNotFound then Inr (b, s) else Inl (JIo e)
      | None \<Rightarrow>
          if bt_contains fs (ledger_path root)
          then sbind (map_error JIo (fs_read d (ledger_path root) fs)) (\<lambda>bs.
                 visit_lines env (ledger_path root) visit bs b s)
          else Inr (b, s))"

text \<open>The epoch of the newest gap recorded for a port; ties go to the larger epoch.\<close>

definition find_latest_gap_epoch ::
  "'j journal_env \<Rightarrow> os \<Rightarrow> rstring \<Rightarrow> files \<Rightarrow> rstring \<Rightarrow> query_budget \<Rightarrow>
   journal_error + query_budget \<times> uuid option" where
  "find_latest_gap_epoch env d root fs port b =
     sbind (visit_gap_ledger env d root fs
       (\<lambda>g latest.
          if sg_port g = port then
            (let candidate = (sg_recorded_wall_time_ns g, sg_epoch g)
             in Inr (case latest of
                       None \<Rightarrow> Some candidate
                     | Some current \<Rightarrow> if candidate > current then Some candidate else latest))
          else Inr latest) b None) (\<lambda>(b, latest). Inr (b, map_option snd latest))"

definition clip_gap :: "nat option \<Rightarrow> nat option \<Rightarrow> stored_gap \<Rightarrow> gap_range" where
  "clip_gap after_seq through_seq g =
     \<lparr>gr_epoch = sg_epoch g,
      gr_first_seq = (case after_seq of
                        None \<Rightarrow> sg_first_seq g
                      | Some after \<Rightarrow> max (sg_first_seq g) (saturating_add_u64 after 1)),
      gr_last_seq = (case through_seq of
                       None \<Rightarrow> sg_last_seq g
                     | Some through \<Rightarrow> min (sg_last_seq g) through),
      gr_reason = sg_reason g\<rparr>"

definition selects_gap :: "rstring \<Rightarrow> uuid \<Rightarrow> nat option \<Rightarrow> nat option \<Rightarrow> stored_gap \<Rightarrow> bool" where
  "selects_gap port epoch after_seq through_seq g \<longleftrightarrow>
     sg_port g = port \<and> sg_epoch g = epoch \<and>
     (case after_seq of None \<Rightarrow> True | Some after \<Rightarrow> sg_last_seq g > after) \<and>
     (case through_seq of None \<Rightarrow> True | Some through \<Rightarrow> sg_first_seq g \<le> through)"

definition load_query_gap_ranges ::
  "'j journal_env \<Rightarrow> os \<Rightarrow> rstring \<Rightarrow> files \<Rightarrow> rstring \<Rightarrow> uuid \<Rightarrow> nat option \<Rightarrow> nat option \<Rightarrow> query_budget \<Rightarrow>
   journal_error + query_budget \<times> gap_range list" where
  "load_query_gap_ranges env d root fs port epoch after_seq through_seq b =
     sbind (visit_gap_ledger env d root fs
       (\<lambda>g gaps.
          if selects_gap port epoch after_seq through_seq g
          then push_gap_bounded (clip_gap after_seq through_seq g) gaps
          else Inr gaps) b []) (\<lambda>(b, gaps).
       (let gaps = merge_gap_ranges gaps
        in if length gaps > MAX_QUERY_GAPS then Inl (TooManyQueryGaps MAX_QUERY_GAPS) else Inr (b, gaps)))"

section \<open>What a query loads\<close>

text \<open>The visitor sees the recorded gaps one after the other.\<close>

fun visit_all :: "(stored_gap \<Rightarrow> 's \<Rightarrow> 'e + 's) \<Rightarrow> stored_gap list \<Rightarrow> 's \<Rightarrow> 'e + 's" where
  "visit_all visit [] s = Inr s"
| "visit_all visit (g # gs) s = sbind (visit g s) (visit_all visit gs)"

lemma gap_line_read:
  assumes "gap_codec_ok env" "gap_line env g l"
  shows "decode_json (je_gap env) l = Inr g" "10 \<notin> set l" "length l < MAX_GAP_LEDGER_LINE_BYTES"
  using assms by (auto simp: gap_line_def gap_codec_ok_def codec_ok_def)

lemma visit_lines_visits:
  assumes "gap_codec_ok env" "decode_json (je_gap env) [] = Inl e0"
  shows "list_all2 (gap_line env) gs ls \<Longrightarrow> visit_lines env p visit (ledger_bytes ls) b s = Inr (b', s') \<Longrightarrow>
     visit_all visit gs s = Inr s'"
proof (induction gs ls arbitrary: b s rule: list_all2_induct)
  case Nil
  then show ?case by (auto simp: visit_lines.simps [of env p visit "[]"] res_simps)
next
  case (Cons g gs l ls)
  note l = gap_line_read [OF assms(1) Cons(1)]
  have line: "ledger_line (l @ 10 # ledger_bytes ls) = l @ [10]" by (rule ledger_line_line [OF l(2,3)])
  have "l \<noteq> []" using l(1) assms(2) by auto
  then obtain s1 b1 where "visit g s = Inr s1"
    "visit_lines env p visit (ledger_bytes ls) b1 s1 = Inr (b', s')"
    using Cons.prems l line
    by (auto simp: visit_lines.simps [of env p visit "l @ 10 # ledger_bytes ls"] Let_def res_simps chomp_def)
  then show ?case using Cons.IH by simp
qed

definition stored_at :: "rstring \<Rightarrow> uuid \<Rightarrow> gap_reason \<Rightarrow> nat \<Rightarrow> stored_gap \<Rightarrow> bool" where
  "stored_at port e r n g \<longleftrightarrow>
     sg_port g = port \<and> sg_epoch g = e \<and> sg_reason g = r \<and> sg_first_seq g \<le> n \<and> n \<le> sg_last_seq g"

definition in_window :: "nat option \<Rightarrow> nat option \<Rightarrow> nat \<Rightarrow> bool" where
  "in_window after_seq through_seq n \<longleftrightarrow>
     (case after_seq of None \<Rightarrow> True | Some after \<Rightarrow> n > after) \<and>
     (case through_seq of None \<Rightarrow> True | Some through \<Rightarrow> n \<le> through)"

lemma clip_gap_exact:
  assumes "sg_last_seq g \<le> U64_MAX"
  shows "selects_gap port epoch after_seq through_seq g \<and> in_gap e r n (clip_gap after_seq through_seq g) \<longleftrightarrow>
    e = epoch \<and> stored_at port e r n g \<and> in_window after_seq through_seq n"
  using assms
  by (auto simp: selects_gap_def in_gap_def clip_gap_def stored_at_def in_window_def
      saturating_add_u64_def split: option.splits)

lemma visit_all_loads:
  assumes "visit = (\<lambda>g gaps. if selects_gap port epoch after_seq through_seq g
      then push_gap_bounded (clip_gap after_seq through_seq g) gaps else Inr gaps)"
  shows "visit_all visit gs gaps = Inr gaps' \<Longrightarrow> bounded_gaps gaps \<Longrightarrow>
     (\<And>g. g \<in> set gs \<Longrightarrow> sg_first_seq g \<le> U64_MAX \<and> sg_last_seq g \<le> U64_MAX) \<Longrightarrow>
     bounded_gaps gaps' \<and>
     (gap_at e r n gaps' \<longleftrightarrow> gap_at e r n gaps \<or>
        (\<exists>g \<in> set gs. e = epoch \<and> stored_at port e r n g \<and> in_window after_seq through_seq n))"
proof (induction gs arbitrary: gaps)
  case (Cons g gs)
  let ?c = "clip_gap after_seq through_seq g"
  obtain gaps1 where v: "visit g gaps = Inr gaps1" "visit_all visit gs gaps1 = Inr gaps'"
    using Cons.prems(1) by (auto simp: res_simps)
  have g: "sg_first_seq g \<le> U64_MAX" "sg_last_seq g \<le> U64_MAX" using Cons.prems(3) by auto
  then have "bounded_gaps (?c # gaps)"
    using Cons.prems(2)
    by (auto simp: clip_gap_def saturating_add_u64_def split: option.splits)
  then have "bounded_gaps gaps1"
    "gap_at e r n gaps1 \<longleftrightarrow> gap_at e r n gaps \<or>
       (selects_gap port epoch after_seq through_seq g \<and> in_gap e r n ?c)"
    using v(1) push_gap_bounded_Inr(1,2) [of ?c gaps gaps1] by (auto simp: assms split: if_splits)
  with Cons.IH [OF v(2)] Cons.prems(3) clip_gap_exact [OF g(2), of port epoch after_seq through_seq e r n]
  show ?case by auto
qed simp

theorem query_gaps_exact:
  assumes "gap_codec_ok env" "decode_json (je_gap env) [] = Inl e0" "list_all2 (gap_line env) gs ls"
    "bt_get fs (ledger_path root) = Some (Regular (ledger_bytes ls))"
    "\<And>g. g \<in> set gs \<Longrightarrow> sg_last_seq g \<le> U64_MAX" "\<forall>c. os_fault d c = None"
    "load_query_gap_ranges env d root fs port epoch after_seq through_seq b = Inr (b', gaps)"
  shows "gap_at e r n gaps \<longleftrightarrow>
      (\<exists>g \<in> set gs. e = epoch \<and> stored_at port e r n g \<and> in_window after_seq through_seq n)"
    "sorted_wrt apart gaps" "length gaps \<le> MAX_QUERY_GAPS" "bounded_gaps gaps"
proof -
  let ?visit = "\<lambda>g gaps. if selects_gap port epoch after_seq through_seq g
      then push_gap_bounded (clip_gap after_seq through_seq g) gaps else Inr gaps"
  obtain b1 gaps1 where l: "visit_lines env (ledger_path root) ?visit (ledger_bytes ls) b [] = Inr (b1, gaps1)"
    "gaps = merge_gap_ranges gaps1" "length gaps \<le> MAX_QUERY_GAPS"
    using assms(4,6,7)
    by (auto simp: load_query_gap_ranges_def visit_gap_ledger_def fs_read_def bt_contains_def res_simps
        Let_def split: if_splits)
  have bounds: "sg_first_seq g \<le> U64_MAX \<and> sg_last_seq g \<le> U64_MAX" if "g \<in> set gs" for g
    using that assms(3,5) by (fastforce simp: gap_line_def list_all2_conv_all_nth in_set_conv_nth)
  note loaded = visit_all_loads [OF refl visit_lines_visits [OF assms(1,2,3) l(1)] bounded_gaps_simps(1) bounds]
  then show "gap_at e r n gaps \<longleftrightarrow>
      (\<exists>g \<in> set gs. e = epoch \<and> stored_at port e r n g \<and> in_window after_seq through_seq n)"
    by (simp add: l(2) merge_keeps_gaps)
  show "sorted_wrt apart gaps" "bounded_gaps gaps" using loaded by (simp_all add: l(2) merge_leaves_apart)
  show "length gaps \<le> MAX_QUERY_GAPS" by (rule l(3))
qed

text \<open>A ledger that was never written holds no gap.\<close>

definition ledger_holds :: "'j journal_env \<Rightarrow> rstring \<Rightarrow> files \<Rightarrow> stored_gap list \<Rightarrow> bool" where
  "ledger_holds env root fs gs \<longleftrightarrow>
     (bt_get fs (ledger_path root) = None \<and> gs = []) \<or>
     (\<exists>ls. bt_get fs (ledger_path root) = Some (Regular (ledger_bytes ls)) \<and> list_all2 (gap_line env) gs ls)"

lemma ledger_loaded:
  assumes "gap_codec_ok env" "decode_json (je_gap env) [] = Inl e0" "ledger_holds env root fs gs"
    "\<And>g. g \<in> set gs \<Longrightarrow> sg_last_seq g \<le> U64_MAX" "\<forall>c. os_fault d c = None"
    "load_query_gap_ranges env d root fs port epoch after_seq through_seq b = Inr (b', gaps)"
  shows "bounded_gaps gaps"
    "gap_at e r n gaps \<Longrightarrow> \<exists>g \<in> set gs. e = epoch \<and> stored_at port e r n g \<and> in_window after_seq through_seq n"
proof -
  have "bounded_gaps gaps \<and>
    (gap_at e r n gaps \<longrightarrow> (\<exists>g \<in> set gs. e = epoch \<and> stored_at port e r n g \<and> in_window after_seq through_seq n))"
  proof (cases "bt_get fs (ledger_path root)")
    case None
    then have "gaps = []"
      using assms(5,6)
      by (auto simp: load_query_gap_ranges_def visit_gap_ledger_def bt_contains_def merge_gap_ranges_def
          split: if_splits)
    then show ?thesis by simp
  next
    case (Some node)
    then obtain ls where "bt_get fs (ledger_path root) = Some (Regular (ledger_bytes ls))"
      "list_all2 (gap_line env) gs ls" using assms(3) by (auto simp: ledger_holds_def)
    from query_gaps_exact [OF assms(1,2) this(2,1) assms(4-6)] show ?thesis by blast
  qed
  then show "bounded_gaps gaps"
    "gap_at e r n gaps \<Longrightarrow> \<exists>g \<in> set gs. e = epoch \<and> stored_at port e r n g \<and> in_window after_seq through_seq n"
    by blast+
qed

end
