(* ===== verification/StreamSearch.thy ===== *)
theory StreamSearch
  imports Wire
begin

text \<open>
  Text search over a byte stream that arrives in events, of \<open>crates/seriald/src/journal.rs\<close>:
  \<open>contains_stream_chunk\<close> keeps the last bytes of the stream so that a literal split over events is
  found, once, by the event that completes it; \<open>StreamSearchCarry\<close> forgets them when the stream is
  not continuous. The \<open>regex\<close> crate is third-party: an expression is its \<open>find_at\<close>.
\<close>

section \<open>Literals\<close>

definition windows :: "nat \<Rightarrow> 'a list \<Rightarrow> 'a list list" where
  "windows k xs = map (\<lambda>i. slice i (i + k) xs) [0..<Suc (length xs) - k]"

definition contains_bytes :: "bytes \<Rightarrow> bytes \<Rightarrow> bool" where
  "contains_bytes haystack needle \<longleftrightarrow> needle = [] \<or> needle \<in> set (windows (length needle) haystack)"

definition contains_stream_chunk :: "bytes \<Rightarrow> bytes \<Rightarrow> bytes \<Rightarrow> bool \<times> bytes" where
  "contains_stream_chunk data needle carry =
     (if needle = [] then (True, [])
      else
        (let combined = carry @ data;
             keep = min (length needle - 1) (length combined)
         in (contains_bytes combined needle, drop (length combined - keep) combined)))"

lemma contains_bytes_iff: "contains_bytes h n \<longleftrightarrow> (\<exists>u v. h = u @ n @ v)"
proof (cases "n = []")
  case False
  have "n \<in> set (windows (length n) h) \<longleftrightarrow> (\<exists>u v. h = u @ n @ v)"
  proof
    assume "n \<in> set (windows (length n) h)"
    then obtain i where "i < Suc (length h) - length n" "n = slice i (i + length n) h"
      by (auto simp: windows_def)
    then have "h = take i h @ n @ drop (i + length n) h"
      using slice_drop [of i "i + length n" h] by simp
    then show "\<exists>u v. h = u @ n @ v" by blast
  next
    assume "\<exists>u v. h = u @ n @ v"
    then obtain u v where "h = u @ n @ v" by blast
    then have "length u < Suc (length h) - length n" "slice (length u) (length u + length n) h = n"
      by (simp_all add: slice_def)
    then show "n \<in> set (windows (length n) h)"
      by (force simp: windows_def)
  qed
  then show ?thesis using False by (simp add: contains_bytes_def)
qed (auto simp: contains_bytes_def)

text \<open>An occurrence that ends within the new data of a stream.\<close>

definition completes_match :: "bytes \<Rightarrow> bytes \<Rightarrow> bytes \<Rightarrow> bool" where
  "completes_match needle seen data \<longleftrightarrow>
     (\<exists>u v. seen @ data = u @ needle @ v \<and> length seen < length u + length needle)"

definition carry_of :: "bytes \<Rightarrow> bytes \<Rightarrow> bytes" where
  "carry_of needle seen = drop (length seen - min (length needle - 1) (length seen)) seen"

lemma carry_of_append:
  "carry_of needle (carry_of needle seen @ data) = carry_of needle (seen @ data)"
  by (simp add: carry_of_def min_def drop_drop add.commute [of "length data" "length seen"])

lemma chunk_exact:
  assumes "needle \<noteq> []"
  shows "contains_stream_chunk data needle (carry_of needle seen) =
    (completes_match needle seen data, carry_of needle (seen @ data))"
proof -
  let ?k = "length seen - min (length needle - 1) (length seen)"
  have carry: "seen = take ?k seen @ carry_of needle seen" "length (carry_of needle seen) < length needle"
    using assms by (cases needle; simp add: carry_of_def min_def)+
  have "contains_bytes (carry_of needle seen @ data) needle \<longleftrightarrow> completes_match needle seen data"
  proof
    assume "contains_bytes (carry_of needle seen @ data) needle"
    then obtain u v where uv: "carry_of needle seen @ data = u @ needle @ v"
      by (auto simp: contains_bytes_iff)
    then have "seen @ data = (take ?k seen @ u) @ needle @ v"
      using carry(1) by (metis append_assoc)
    moreover have "length seen < length (take ?k seen @ u) + length needle"
      using carry(2) arg_cong [OF carry(1), of length] by simp
    ultimately show "completes_match needle seen data"
      unfolding completes_match_def by blast
  next
    assume "completes_match needle seen data"
    then obtain u v where uv: "seen @ data = u @ needle @ v" "length seen < length u + length needle"
      by (auto simp: completes_match_def)
    have k: "?k \<le> length u" using uv(2) by simp
    have "carry_of needle seen @ data = drop ?k (seen @ data)" by (simp add: carry_of_def)
    also have "\<dots> = drop ?k u @ needle @ v" using k by (simp add: uv(1))
    finally show "contains_bytes (carry_of needle seen @ data) needle" by (auto simp: contains_bytes_iff)
  qed
  then show ?thesis
    using assms carry_of_append [of needle seen data]
    by (simp add: contains_stream_chunk_def Let_def carry_of_def [of needle "carry_of needle seen @ data"])
qed

section \<open>The carry of one direction\<close>

record search_carry =
  sc_bytes :: bytes
  sc_generation :: "nat option"
  sc_next_offset :: "nat option"
  sc_regex_search_from :: "nat option"

definition carry_clear :: search_carry where
  "carry_clear = \<lparr>sc_bytes = [], sc_generation = None, sc_next_offset = None, sc_regex_search_from = None\<rparr>"

definition continuous :: "'j timeline_event \<Rightarrow> search_carry \<Rightarrow> bool" where
  "continuous e c \<longleftrightarrow>
     sc_generation c = Some (ev_generation e) \<and> sc_next_offset c \<noteq> None \<and> ev_offset_start e = sc_next_offset c"

definition carry_matches :: "bytes \<Rightarrow> 'j timeline_event \<Rightarrow> search_carry \<Rightarrow> bool \<times> search_carry" where
  "carry_matches needle e c =
     (let carry = (if continuous e c then sc_bytes c else []);
          (matched, carry) = contains_stream_chunk (ev_data e) needle carry
      in (matched, c\<lparr>sc_bytes := carry, sc_generation := Some (ev_generation e),
                     sc_next_offset := ev_offset_end e\<rparr>))"

text \<open>The bytes that are one stream with the next event, given the events before it.\<close>

definition follows :: "'j timeline_event \<Rightarrow> 'j timeline_event \<Rightarrow> bool" where
  "follows e p \<longleftrightarrow> ev_generation e = ev_generation p \<and> ev_offset_end p \<noteq> None \<and> ev_offset_start e = ev_offset_end p"

fun stream_before :: "'j timeline_event list \<Rightarrow> 'j timeline_event \<Rightarrow> bytes" where
  "stream_before [] e = []"
| "stream_before (p # older) e = (if follows e p then stream_before older p @ ev_data p else [])"

text \<open>Running the matcher over events, oldest first.\<close>

fun matches_run :: "bytes \<Rightarrow> search_carry \<Rightarrow> 'j timeline_event list \<Rightarrow> bool list \<times> search_carry" where
  "matches_run needle c [] = ([], c)"
| "matches_run needle c (e # es) =
     (let (b, c) = carry_matches needle e c; (bs, c) = matches_run needle c es in (b # bs, c))"

definition carry_inv :: "bytes \<Rightarrow> 'j timeline_event list \<Rightarrow> search_carry \<Rightarrow> bool" where
  "carry_inv needle older c \<longleftrightarrow>
     (case older of
        [] \<Rightarrow> sc_generation c = None
      | p # ps \<Rightarrow> sc_generation c = Some (ev_generation p) \<and> sc_next_offset c = ev_offset_end p \<and>
          sc_bytes c = carry_of needle (stream_before ps p @ ev_data p))"

lemma carry_matches_exact:
  assumes "needle \<noteq> []" "carry_inv needle older c" "carry_matches needle e c = (b, c')"
  shows "b \<longleftrightarrow> completes_match needle (stream_before older e) (ev_data e)" "carry_inv needle (e # older) c'"
proof -
  have carry: "(if continuous e c then sc_bytes c else []) = carry_of needle (stream_before older e)"
    using assms(2)
    by (cases older) (auto simp: carry_inv_def continuous_def follows_def carry_of_def)
  show "b \<longleftrightarrow> completes_match needle (stream_before older e) (ev_data e)" "carry_inv needle (e # older) c'"
    using assms(3) chunk_exact [OF assms(1), of "ev_data e" "stream_before older e"]
    by (auto simp: carry_matches_def carry carry_inv_def)
qed

text \<open>Every event is told exactly whether it completes an occurrence of the needle in its stream.\<close>

fun stream_matches :: "bytes \<Rightarrow> 'j timeline_event list \<Rightarrow> 'j timeline_event list \<Rightarrow> bool list" where
  "stream_matches needle older [] = []"
| "stream_matches needle older (e # es) =
     completes_match needle (stream_before older e) (ev_data e) # stream_matches needle (e # older) es"

theorem stream_search_exact:
  assumes "needle \<noteq> []"
  shows "carry_inv needle older c \<Longrightarrow> fst (matches_run needle c es) = stream_matches needle older es"
proof (induction es arbitrary: older c)
  case (Cons e es)
  obtain b c' where m: "carry_matches needle e c = (b, c')" by (cases "carry_matches needle e c")
  with carry_matches_exact [OF assms Cons.prems m] Cons.IH [of "e # older" c']
  show ?case by (simp add: case_prod_beta)
qed simp

lemma carry_inv_clear [simp]: "carry_inv needle [] carry_clear"
  by (simp add: carry_inv_def carry_clear_def)

section \<open>Expressions\<close>

text \<open>\<open>Regex::find_at\<close>: the leftmost match that starts at or after an offset, as its two ends.\<close>

type_synonym expression = "bytes \<Rightarrow> nat \<Rightarrow> (nat \<times> nat) option"

definition MAX_REGEX_STREAM_CARRY_BYTES :: nat where "MAX_REGEX_STREAM_CARRY_BYTES = 64 * 1024"

partial_function (option) regex_scan ::
  "expression \<Rightarrow> bytes \<Rightarrow> nat \<Rightarrow> nat \<Rightarrow> nat \<Rightarrow> bool \<Rightarrow> nat option \<Rightarrow> (bool \<times> nat option) option" where
  "regex_scan finder combined retained_len window_offset search_at matched search_from =
     (if search_at \<le> length combined then
        (case finder combined search_at of
           None \<Rightarrow> Some (matched, search_from)
         | Some (s, t) \<Rightarrow>
             if s = t then
               if t = length combined then Some (matched, search_from)
               else regex_scan finder combined retained_len window_offset (saturating_add_u64 t 1) matched search_from
             else regex_scan finder combined retained_len window_offset t (matched \<or> t > retained_len)
                    (Some (saturating_add_u64 window_offset t)))
      else Some (matched, search_from))"

definition carry_regex_matches ::
  "expression \<Rightarrow> 'j timeline_event \<Rightarrow> search_carry \<Rightarrow> (bool \<times> search_carry) option" where
  "carry_regex_matches finder e c =
     (let c = (if continuous e c then c
               else c\<lparr>sc_bytes := [], sc_regex_search_from := ev_offset_start e\<rparr>);
          retained_len = length (sc_bytes c);
          window_offset =
            (case ev_offset_start e of
               None \<Rightarrow> 0
             | Some start \<Rightarrow> if retained_len \<le> start then start - retained_len else 0);
          combined = sc_bytes c @ ev_data e;
          search_offset =
            max (case sc_regex_search_from c of None \<Rightarrow> window_offset | Some n \<Rightarrow> n) window_offset;
          search_at = min (search_offset - window_offset) (length combined)
      in map_option
           (\<lambda>(matched, search_from).
              (matched,
               c\<lparr>sc_regex_search_from := search_from,
                 sc_bytes := drop (length combined - MAX_REGEX_STREAM_CARRY_BYTES) combined,
                 sc_generation := Some (ev_generation e), sc_next_offset := ev_offset_end e\<rparr>))
           (regex_scan finder combined retained_len window_offset search_at False (sc_regex_search_from c)))"

text \<open>What the code relies on of \<open>find_at\<close>: a match lies between the offset and the end.\<close>

definition finds_within :: "expression \<Rightarrow> bool" where
  "finds_within finder \<longleftrightarrow>
     (\<forall>h n s t. finder h n = Some (s, t) \<longrightarrow> n \<le> s \<and> s \<le> t \<and> t \<le> length h)"

lemma regex_scan_returns:
  assumes "finds_within finder" "length combined < U64_MAX"
  shows "\<exists>r. regex_scan finder combined k w search_at matched from = Some r"
proof (induction "Suc (length combined) - search_at" arbitrary: search_at matched "from" rule: less_induct)
  case less
  show ?case
  proof (cases "search_at \<le> length combined")
    case True
    show ?thesis
    proof (cases "finder combined search_at")
      case None
      then show ?thesis by (simp add: regex_scan.simps)
    next
      case (Some st)
      obtain s t where st: "st = (s, t)" by (cases st)
      then have w: "search_at \<le> s" "s \<le> t" "t \<le> length combined"
        using assms(1) Some by (auto simp: finds_within_def)
      then have "saturating_add_u64 t 1 = t + 1" using assms(2) by (simp add: saturating_add_u64_def)
      with less [of "t + 1"] less [of t] True Some st w show ?thesis
        by (simp add: regex_scan.simps [of finder combined k w search_at])
    qed
  qed (simp add: regex_scan.simps)
qed

lemma regex_matches_returns:
  assumes "finds_within finder" "length (sc_bytes c) + length (ev_data e) < U64_MAX"
  shows "\<exists>b c'. carry_regex_matches finder e c = Some (b, c') \<and>
           length (sc_bytes c') \<le> MAX_REGEX_STREAM_CARRY_BYTES"
proof -
  have "length ((if continuous e c then sc_bytes c else []) @ ev_data e) < U64_MAX"
    using assms(2) by auto
  then have scan: "regex_scan finder ((if continuous e c then sc_bytes c else []) @ ev_data e) k w n m f \<noteq> None"
    for k w n m f
    using regex_scan_returns [OF assms(1)] by (metis option.distinct(1))
  have some: "t \<noteq> None \<Longrightarrow> (\<And>m s. P (F s)) \<Longrightarrow>
      \<exists>b c'. map_option (\<lambda>(m, s). (m, F s)) t = Some (b, c') \<and> P c'"
    for t :: "(bool \<times> nat option) option" and P and F :: "nat option \<Rightarrow> search_carry"
    by auto
  show ?thesis
    unfolding carry_regex_matches_def Let_def
    by (rule some) (use scan in \<open>auto split: if_splits\<close>)
qed

section \<open>Scope\<close>

definition event_breaks_stream :: "event_kind \<Rightarrow> bool" where
  "event_breaks_stream k \<longleftrightarrow>
     k \<in> {KSerialOpening, KSerialOpened, KSerialOpenFailed, KSerialClosed, KPortReconfigured, KPortRemoved,
          KLoggingDegraded, KGap}"

definition is_match :: "expression \<Rightarrow> bytes \<Rightarrow> bool" where
  "is_match finder h \<longleftrightarrow> finder h 0 \<noteq> None"

text \<open>
  The step of one direction as the query uses it; \<open>regex_matches_returns\<close> shows that the second
  case does not arise for a finder that keeps its contract.
\<close>

definition regex_matches :: "expression \<Rightarrow> 'j timeline_event \<Rightarrow> search_carry \<Rightarrow> bool \<times> search_carry" where
  "regex_matches finder e c =
     (case carry_regex_matches finder e c of Some r \<Rightarrow> r | None \<Rightarrow> (False, c))"

end
