(* ===== verification/JournalQuery.thy ===== *)
theory JournalQuery
  imports GapLedger StreamSearch
begin

text \<open>
  The historical query of \<open>crates/seriald/src/journal.rs\<close>: the checks of
  \<open>query_files_with_limits\<close> and its scan over the segments of one epoch, record by record, under
  the limits of the response and the budget of the query. \<open>regex\<close> compiles a pattern; it is the
  \<open>regex\<close> crate's.
\<close>

section \<open>Queries\<close>

record event_query =
  eq_epoch :: "uuid option"
  eq_after_seq :: "nat option"
  eq_through_seq :: "nat option"
  eq_before_wall_time_ns :: "int option"
  eq_after_wall_time_ns :: "int option"
  eq_direction :: "direction option"
  eq_kind :: "event_kind option"
  eq_actor_id :: "rstring option"
  eq_run_id :: "uuid option"
  eq_operation_id :: "uuid option"
  eq_contains :: "rstring option"
  eq_regex :: "rstring option"
  eq_limit_events :: "nat option"
  eq_limit_bytes :: "nat option"

record 'j event_query_response =
  er_events :: "'j timeline_event list"
  er_next_cursor :: "cursor option"
  er_truncated :: bool
  er_first_available_seq :: "nat option"
  er_gaps :: "gap_range list"

record segment_descriptor =
  sd_header :: segment_header
  sd_path :: path
  sd_last_seq :: "nat option"
  sd_sealed :: bool

definition DEFAULT_QUERY_EVENTS :: nat where "DEFAULT_QUERY_EVENTS = 1000"
definition MAX_QUERY_EVENTS :: nat where "MAX_QUERY_EVENTS = 10000"
definition DEFAULT_QUERY_BYTES :: nat where "DEFAULT_QUERY_BYTES = 1024 * 1024"
definition MAX_QUERY_BYTES :: nat where "MAX_QUERY_BYTES = 16 * 1024 * 1024"
definition MAX_REGEX_BYTES :: nat where "MAX_REGEX_BYTES = 4096"

definition both :: "('a \<Rightarrow> 'b \<Rightarrow> bool) \<Rightarrow> 'a option \<Rightarrow> 'b option \<Rightarrow> bool" where
  "both P x y = (case (x, y) of (Some a, Some b) \<Rightarrow> P a b | _ \<Rightarrow> False)"

definition opt_all :: "('a \<Rightarrow> bool) \<Rightarrow> 'a option \<Rightarrow> bool" where
  "opt_all P x = (case x of None \<Rightarrow> True | Some a \<Rightarrow> P a)"

definition opt_any :: "('a \<Rightarrow> bool) \<Rightarrow> 'a option \<Rightarrow> bool" where
  "opt_any P x = (case x of None \<Rightarrow> False | Some a \<Rightarrow> P a)"

lemma opt_simps [simp]:
  "opt_all P None" "opt_all P (Some a) = P a" "\<not> opt_any P None" "opt_any P (Some a) = P a"
  by (simp_all add: opt_all_def opt_any_def)

definition validate_query :: "event_query \<Rightarrow> journal_error + unit" where
  "validate_query q =
     (if both (\<lambda>a b. a \<ge> b) (eq_after_wall_time_ns q) (eq_before_wall_time_ns q)
      then Inl (InvalidConfig (lit ''after_wall_time_ns must be less than before_wall_time_ns''))
      else if both (\<lambda>a t. a > t) (eq_after_seq q) (eq_through_seq q)
      then Inl (InvalidConfig (lit ''after_seq must not exceed through_seq''))
      else if opt_any (\<lambda>s. str_len s > 4096) (eq_contains q)
      then Inl (InvalidConfig (lit ''contains must not exceed 4096 UTF-8 bytes''))
      else if eq_contains q \<noteq> None \<and> eq_regex q \<noteq> None
      then Inl (InvalidConfig (lit ''contains and regex are mutually exclusive''))
      else if opt_any (\<lambda>s. str_len s > MAX_REGEX_BYTES) (eq_regex q)
      then Inl (InvalidRegex (lit ''pattern must not exceed 4096 UTF-8 bytes''))
      else if opt_any (\<lambda>s. s = [] \<or> str_len s > 256 \<or> list_ex is_control s) (eq_actor_id q)
      then Inl (InvalidConfig (lit ''actor_id must contain 1..=256 non-control UTF-8 bytes''))
      else if eq_epoch q = None \<and> opt_any (\<lambda>a. a > 0) (eq_after_seq q)
      then Inl (InvalidConfig (lit ''epoch is required when after_seq is greater than zero''))
      else Inr ())"

definition limit_events :: "event_query \<Rightarrow> nat" where
  "limit_events q =
     max 1 (min (case eq_limit_events q of None \<Rightarrow> DEFAULT_QUERY_EVENTS | Some n \<Rightarrow> n) MAX_QUERY_EVENTS)"

definition limit_bytes :: "event_query \<Rightarrow> nat" where
  "limit_bytes q =
     max 1 (min (case eq_limit_bytes q of None \<Rightarrow> DEFAULT_QUERY_BYTES | Some n \<Rightarrow> n) MAX_QUERY_BYTES)"

definition query_expression ::
  "(rstring \<Rightarrow> rstring + expression) \<Rightarrow> event_query \<Rightarrow> journal_error + expression option" where
  "query_expression regex q =
     (case eq_regex q of
        None \<Rightarrow> Inr None
      | Some pattern \<Rightarrow>
          sbind (map_error InvalidRegex (regex pattern)) (\<lambda>finder.
            if is_match finder [] then Inl (InvalidRegex (lit ''pattern must not match an empty byte string''))
            else Inr (Some finder)))"

definition event_matches_query_scope :: "'j timeline_event \<Rightarrow> event_query \<Rightarrow> bool" where
  "event_matches_query_scope e q \<longleftrightarrow>
     opt_all (\<lambda>after. ev_wall_time_ns e > after) (eq_after_wall_time_ns q) \<and>
     opt_all (\<lambda>before. ev_wall_time_ns e < before) (eq_before_wall_time_ns q) \<and>
     opt_all (\<lambda>d. ev_direction e = d) (eq_direction q) \<and>
     opt_all (\<lambda>k. ev_kind e = k) (eq_kind q) \<and>
     opt_all (\<lambda>a. map_option actor_id (ev_actor e) = Some a) (eq_actor_id q) \<and>
     opt_all (\<lambda>r. ev_run_id e = Some r) (eq_run_id q) \<and>
     opt_all (\<lambda>i. ev_operation_id e = Some i) (eq_operation_id q)"

definition cursor_progressed :: "nat option \<Rightarrow> nat option \<Rightarrow> bool" where
  "cursor_progressed last_scanned after_seq =
     (case (last_scanned, after_seq) of
        (Some l, Some a) \<Rightarrow> l > a
      | (Some _, None) \<Rightarrow> True
      | (None, _) \<Rightarrow> False)"

section \<open>The state of a scan\<close>

record 'j query_scan =
  qs_events :: "'j timeline_event list"
  qs_bytes :: nat
  qs_truncated :: bool
  qs_last_scanned :: "nat option"
  qs_previous_scanned :: "nat option"
  qs_previous_contiguous :: nat
  qs_rx :: search_carry
  qs_tx :: search_carry
  qs_gaps :: "gap_range list"
  qs_budget :: query_budget

record query_scope =
  qc_query :: event_query
  qc_port :: rstring
  qc_epoch :: uuid
  qc_expression :: "expression option"

datatype 's flow = Go 's | Stop 's

definition sequence_floor :: "query_scope \<Rightarrow> nat" where
  "sequence_floor c = (case eq_after_seq (qc_query c) of None \<Rightarrow> 0 | Some n \<Rightarrow> n)"

definition sequence_ceiling :: "query_scope \<Rightarrow> nat" where
  "sequence_ceiling c = (case eq_through_seq (qc_query c) of None \<Rightarrow> U64_MAX | Some n \<Rightarrow> n)"

definition clear_carries :: "'j query_scan \<Rightarrow> 'j query_scan" where
  "clear_carries st = st\<lparr>qs_rx := carry_clear, qs_tx := carry_clear\<rparr>"

text \<open>The exit taken when the budget is used up.\<close>

definition stop_or_fail :: "query_scope \<Rightarrow> 'j query_scan \<Rightarrow> journal_error + 'j query_scan flow" where
  "stop_or_fail c st =
     (if cursor_progressed (qs_last_scanned st) (eq_after_seq (qc_query c))
      then Inr (Stop (st\<lparr>qs_truncated := True\<rparr>))
      else Inl (budget_error (lit ''event scan'') (qs_budget st)))"

definition scan_exhausted :: "'j query_scan \<Rightarrow> bool \<times> 'j query_scan" where
  "scan_exhausted st = (case exhausted (qs_budget st) of (x, b) \<Rightarrow> (x, st\<lparr>qs_budget := b\<rparr>))"

section \<open>One record\<close>

definition note_sequence :: "query_scope \<Rightarrow> 'j timeline_event \<Rightarrow> 'j query_scan \<Rightarrow> journal_error + 'j query_scan" where
  "note_sequence c e st =
     sbind (if ev_seq e > sequence_floor c then
              (let expected = saturating_add_u64 (qs_previous_contiguous st) 1
               in sbind (if ev_seq e > expected then
                           sbind (push_uncovered_gap
                             \<lparr>gr_epoch = ev_epoch e, gr_first_seq = expected, gr_last_seq = ev_seq e - 1,
                              gr_reason = SequenceDiscontinuity\<rparr> (qs_gaps st)) (\<lambda>gaps.
                             Inr (clear_carries (st\<lparr>qs_gaps := gaps\<rparr>)))
                         else Inr st) (\<lambda>st.
                    Inr (st\<lparr>qs_previous_contiguous := max (qs_previous_contiguous st) (ev_seq e)\<rparr>)))
            else Inr st) (\<lambda>st.
       (let st = (if opt_any (\<lambda>p. ev_seq e \<noteq> saturating_add_u64 p 1) (qs_previous_scanned st)
                  then clear_carries st else st);
            st = st\<lparr>qs_previous_scanned := Some (ev_seq e)\<rparr>
        in Inr (if event_breaks_stream (ev_kind e) then clear_carries st else st)))"

definition search_step :: "query_scope \<Rightarrow> 'j timeline_event \<Rightarrow> 'j query_scan \<Rightarrow> bool \<times> 'j query_scan" where
  "search_step c e st =
     (if \<not> event_matches_query_scope e (qc_query c) then
        (False, (case ev_direction e of
                   DRx \<Rightarrow> st\<lparr>qs_rx := carry_clear\<rparr>
                 | DTx \<Rightarrow> st\<lparr>qs_tx := carry_clear\<rparr>
                 | DNone \<Rightarrow> st))
      else
        (case (eq_contains (qc_query c), qc_expression c) of
           (Some text, _) \<Rightarrow>
             (case ev_direction e of
                DRx \<Rightarrow> (case carry_matches (utf8 text) e (qs_rx st) of (m, k) \<Rightarrow> (m, st\<lparr>qs_rx := k\<rparr>))
              | DTx \<Rightarrow> (case carry_matches (utf8 text) e (qs_tx st) of (m, k) \<Rightarrow> (m, st\<lparr>qs_tx := k\<rparr>))
              | DNone \<Rightarrow> (contains_bytes (ev_data e) (utf8 text), st))
         | (None, Some finder) \<Rightarrow>
             (case ev_direction e of
                DRx \<Rightarrow> (case regex_matches finder e (qs_rx st) of (m, k) \<Rightarrow> (m, st\<lparr>qs_rx := k\<rparr>))
              | DTx \<Rightarrow> (case regex_matches finder e (qs_tx st) of (m, k) \<Rightarrow> (m, st\<lparr>qs_tx := k\<rparr>))
              | DNone \<Rightarrow> (is_match finder (ev_data e), st))
         | (None, None) \<Rightarrow> (True, st)))"

definition mark_scanned :: "nat \<Rightarrow> 'j query_scan \<Rightarrow> 'j query_scan" where
  "mark_scanned n st =
     st\<lparr>qs_last_scanned := Some (case qs_last_scanned st of None \<Rightarrow> n | Some l \<Rightarrow> max l n)\<rparr>"

text \<open>The size an event counts for in the response.\<close>

definition response_bytes :: "'j journal_env \<Rightarrow> 'j timeline_event \<Rightarrow> journal_error + nat" where
  "response_bytes env e =
     sbind (map_error JJson (encode_json (je_header env) (header_of_event e))) (\<lambda>header.
       Inr (saturating_add_u64 (length (ev_data e)) (length header)))"

definition deliver ::
  "'j journal_env \<Rightarrow> query_scope \<Rightarrow> 'j timeline_event \<Rightarrow> bool \<Rightarrow> 'j query_scan \<Rightarrow> journal_error + 'j query_scan flow" where
  "deliver env c e limit_hit st =
     sbind (response_bytes env e) (\<lambda>n.
       if (length (qs_events st) \<ge> limit_events (qc_query c) \<or>
           saturating_add_u64 (qs_bytes st) n > limit_bytes (qc_query c)) \<and> qs_events st \<noteq> []
       then Inr (Stop (st\<lparr>qs_truncated := True\<rparr>))
       else
         (let st = mark_scanned (ev_seq e)
                (st\<lparr>qs_bytes := saturating_add_u64 (qs_bytes st) n, qs_events := qs_events st @ [e]\<rparr>)
          in if limit_hit then Inr (Stop (st\<lparr>qs_truncated := True\<rparr>)) else Inr (Go st)))"

definition process_event ::
  "'j journal_env \<Rightarrow> query_scope \<Rightarrow> segment_descriptor \<Rightarrow> 'j timeline_event \<Rightarrow> bool \<Rightarrow> 'j query_scan \<Rightarrow>
   journal_error + 'j query_scan flow" where
  "process_event env c seg e limit_hit st =
     (if ev_port e \<noteq> qc_port c \<or> ev_epoch e \<noteq> sh_epoch (sd_header seg)
      then Inl (Corrupt (sd_path seg) (lit ''record identity does not match segment''))
      else if ev_seq e > sequence_ceiling c then Inr (Stop st)
      else sbind (note_sequence c e st) (\<lambda>st.
        (case search_step c e st of
           (search_match, st) \<Rightarrow>
             if opt_all (\<lambda>after. ev_seq e > after) (eq_after_seq (qc_query c)) \<and>
                event_matches_query_scope e (qc_query c) \<and> search_match
             then deliver env c e limit_hit st
             else
               (let st = mark_scanned (ev_seq e) st
                in if limit_hit then stop_or_fail c st else Inr (Go st)))))"

section \<open>One segment\<close>

definition corruption_gap ::
  "segment_descriptor \<Rightarrow> nat option \<Rightarrow> 'j query_scan \<Rightarrow> journal_error + 'j query_scan" where
  "corruption_gap seg last_good_seq st =
     (case sd_last_seq seg of
        None \<Rightarrow> Inr st
      | Some last_seq \<Rightarrow>
          (let first_seq = (case last_good_seq of
                              None \<Rightarrow> sh_first_seq (sd_header seg)
                            | Some n \<Rightarrow> saturating_add_u64 n 1)
           in if first_seq \<le> last_seq then
                sbind (push_gap_bounded
                  \<lparr>gr_epoch = sh_epoch (sd_header seg), gr_first_seq = first_seq, gr_last_seq = last_seq,
                   gr_reason = Corruption\<rparr> (qs_gaps st)) (\<lambda>gaps. Inr (st\<lparr>qs_gaps := gaps\<rparr>))
              else Inr st))"

function scan_records ::
  "'j journal_env \<Rightarrow> query_scope \<Rightarrow> segment_descriptor \<Rightarrow> nat option \<Rightarrow> file_handle \<Rightarrow> 'j query_scan \<Rightarrow>
   journal_error + 'j query_scan flow" where
  "scan_records env c seg last_good_seq f st =
     (case scan_exhausted st of
        (True, st) \<Rightarrow> stop_or_fail c st
      | (False, st) \<Rightarrow>
          (case read_record env f of
             (Inl e, _) \<Rightarrow> Inl e
           | (Inr r, f1) \<Rightarrow>
               (case scan_exhausted (st\<lparr>qs_budget := add_bytes (fl_pos f1 - fl_pos f) (qs_budget st)\<rparr>) of
                  (limit_hit, st) \<Rightarrow>
                    (case r of
                       ReadEof \<Rightarrow> if limit_hit then stop_or_fail c st else Inr (Go st)
                     | ReadInvalid reason \<Rightarrow>
                         sbind (corruption_gap seg last_good_seq (clear_carries st)) (\<lambda>st.
                           (let st = (if sd_sealed seg then st else st\<lparr>qs_truncated := True\<rparr>)
                            in if limit_hit then stop_or_fail c st else Inr (Go st)))
                     | ReadEvent e \<Rightarrow>
                         sbind (process_event env c seg e limit_hit st) (\<lambda>next_flow.
                           (case next_flow of
                              Stop st \<Rightarrow> Inr (Stop st)
                            | Go st \<Rightarrow> scan_records env c seg (Some (ev_seq e)) f1 st))))))"
  by auto
termination
  by (relation "measure (\<lambda>(env, c, seg, good, f, st). length (fl_rest f))")
    (auto dest: sym [of _ "read_record _ _"] intro: read_event_shrinks)

declare scan_records.simps [simp del]

definition fully_consumed :: "query_scope \<Rightarrow> segment_descriptor \<Rightarrow> bool" where
  "fully_consumed c seg \<longleftrightarrow>
     opt_any (\<lambda>after. opt_any (\<lambda>l. l \<le> after) (sd_last_seq seg)) (eq_after_seq (qc_query c))"

definition scan_segment ::
  "'j journal_env \<Rightarrow> os \<Rightarrow> files \<Rightarrow> query_scope \<Rightarrow> uuid option \<Rightarrow> segment_descriptor \<Rightarrow> 'j query_scan \<Rightarrow>
   journal_error + 'j query_scan flow" where
  "scan_segment env d fs c seed seg st =
     (if sh_first_seq (sd_header seg) > sequence_ceiling c then Inr (Stop st)
      else if fully_consumed c seg \<and> seed \<noteq> Some (sh_segment_id (sd_header seg)) then Inr (Go st)
      else
        (case scan_exhausted st of
           (True, st) \<Rightarrow> stop_or_fail c st
         | (False, st) \<Rightarrow>
             (case file_open d (sd_path seg) fs of
                Inl e \<Rightarrow> if io_kind e = IoNotFound then Inr (Go st) else Inl (JIo e)
              | Inr f \<Rightarrow>
                  (case read_segment_header env d (sd_path seg) f of
                     (Inl e, _) \<Rightarrow> Inl e
                   | (Inr (disk_header, data_offset), f) \<Rightarrow>
                       (case scan_exhausted (st\<lparr>qs_budget := add_bytes data_offset (qs_budget st)\<rparr>) of
                          (True, st) \<Rightarrow> stop_or_fail c st
                        | (False, st) \<Rightarrow>
                            if sh_port disk_header \<noteq> qc_port c \<or>
                               sh_epoch disk_header \<noteq> sh_epoch (sd_header seg)
                            then Inl (Corrupt (sd_path seg) (lit ''segment identity changed while querying''))
                            else
                              (case file_seek d (sd_path seg) data_offset f of
                                 (Inl e, _) \<Rightarrow> Inl (JIo e)
                               | (Inr _, f) \<Rightarrow> scan_records env c seg None f st))))))"

fun scan_segments ::
  "'j journal_env \<Rightarrow> os \<Rightarrow> files \<Rightarrow> query_scope \<Rightarrow> uuid option \<Rightarrow> segment_descriptor list \<Rightarrow> 'j query_scan \<Rightarrow>
   journal_error + 'j query_scan" where
  "scan_segments env d fs c seed [] st = Inr st"
| "scan_segments env d fs c seed (seg # segs) st =
     sbind (scan_segment env d fs c seed seg st) (\<lambda>next_flow.
       (case next_flow of Stop st \<Rightarrow> Inr st | Go st \<Rightarrow> scan_segments env d fs c seed segs st))"

section \<open>The page\<close>

text \<open>\<open>Iterator::max_by_key\<close>: the last of the largest.\<close>

fun max_by_key :: "('a \<Rightarrow> 'k::linorder) \<Rightarrow> 'a list \<Rightarrow> 'a option" where
  "max_by_key f [] = None"
| "max_by_key f (x # xs) =
     (case max_by_key f xs of None \<Rightarrow> Some x | Some y \<Rightarrow> if f x > f y then Some x else Some y)"

definition initial_scan :: "query_scope \<Rightarrow> gap_range list \<Rightarrow> query_budget \<Rightarrow> 'j query_scan" where
  "initial_scan c gaps b =
     \<lparr>qs_events = [], qs_bytes = 0, qs_truncated = False, qs_last_scanned = eq_after_seq (qc_query c),
      qs_previous_scanned = None, qs_previous_contiguous = sequence_floor c, qs_rx = carry_clear,
      qs_tx = carry_clear, qs_gaps = gaps, qs_budget = b\<rparr>"

definition seed_segment :: "query_scope \<Rightarrow> segment_descriptor list \<Rightarrow> uuid option" where
  "seed_segment c segs =
     (if eq_contains (qc_query c) \<noteq> None \<or> qc_expression c \<noteq> None then
        (case eq_after_seq (qc_query c) of
           None \<Rightarrow> None
         | Some after \<Rightarrow>
             map_option (\<lambda>s. sh_segment_id (sd_header s))
               (max_by_key
                 (\<lambda>s. (case sd_last_seq s of None \<Rightarrow> 0 | Some l \<Rightarrow> l, sh_first_seq (sd_header s),
                        sh_segment_id (sd_header s)))
                 (filter (\<lambda>s. opt_any (\<lambda>l. l \<le> after) (sd_last_seq s)) segs)))
      else None)"

text \<open>The gap a client learns of when what follows its cursor is no longer retained.\<close>

definition leading_gap ::
  "query_scope \<Rightarrow> nat option \<Rightarrow> gap_range list \<Rightarrow> journal_error + gap_range list" where
  "leading_gap c first_available_seq gaps =
     (case (eq_after_seq (qc_query c), first_available_seq) of
        (Some after, Some first_available) \<Rightarrow>
          (let missing_first = saturating_add_u64 after 1;
               missing_last = min (first_available - 1) (sequence_ceiling c)
           in if missing_first < first_available \<and> missing_first \<le> missing_last then
                push_uncovered_gap
                  \<lparr>gr_epoch = qc_epoch c, gr_first_seq = missing_first, gr_last_seq = missing_last,
                   gr_reason = Retention\<rparr> gaps
              else Inr gaps)
      | _ \<Rightarrow> Inr gaps)"

definition finish_page ::
  "query_scope \<Rightarrow> nat option \<Rightarrow> 'j query_scan \<Rightarrow> journal_error + 'j event_query_response" where
  "finish_page c first_available_seq st =
     sbind (leading_gap c first_available_seq (qs_gaps st)) (\<lambda>gaps.
       (let gaps = merge_gap_ranges gaps
        in if length gaps > MAX_QUERY_GAPS then Inl (TooManyQueryGaps MAX_QUERY_GAPS)
           else Inr \<lparr>er_events = qs_events st,
                     er_next_cursor =
                       map_option (\<lambda>n. \<lparr>cu_epoch = qc_epoch c, cu_after_seq = n\<rparr>) (qs_last_scanned st),
                     er_truncated = qs_truncated st, er_first_available_seq = first_available_seq,
                     er_gaps = gaps\<rparr>))"

definition first_available :: "segment_descriptor list \<Rightarrow> nat option \<Rightarrow> nat option" where
  "first_available descriptors discovered_first =
     (let starts = map (\<lambda>s. sh_first_seq (sd_header s)) (filter (\<lambda>s. sd_last_seq s \<noteq> None) descriptors)
      in case discovered_first of
           Some n \<Rightarrow> Some n
         | None \<Rightarrow> if starts = [] then None else Some (Min (set starts)))"

text \<open>
  The query once its epoch is known and \<open>descriptors\<close> are that epoch's segments: from the loading
  of the recorded gaps to the response.
\<close>

definition query_epoch ::
  "'j journal_env \<Rightarrow> os \<Rightarrow> rstring \<Rightarrow> files \<Rightarrow> query_scope \<Rightarrow> segment_descriptor list \<Rightarrow> nat option \<Rightarrow>
   query_budget \<Rightarrow> journal_error + 'j event_query_response" where
  "query_epoch env d root fs c descriptors discovered_first b =
     (let q = qc_query c;
          descriptors = sort_key (\<lambda>s. (sh_first_seq (sd_header s), sh_segment_id (sd_header s))) descriptors
      in sbind (load_query_gap_ranges env d root fs (qc_port c) (qc_epoch c) (eq_after_seq q)
                  (eq_through_seq q) b) (\<lambda>(b, gaps).
         sbind (scan_segments env d fs c (seed_segment c descriptors) descriptors (initial_scan c gaps b))
           (finish_page c (first_available descriptors discovered_first))))"

end
