(* ===== verification/JournalFiles.thy ===== *)
theory JournalFiles
  imports JournalQuery "HOL-Library.Sublist"
begin

text \<open>
  Where \<open>crates/seriald/src/journal.rs\<close> keeps its segments and how it finds them: the directory of
  a slot and of an epoch, the names of segments with the sequence numbers in them, and the walk
  through a directory tree. A directory exists when a file lies in it or below it; the order in
  which a directory lists its entries is that of their names (the code relies on none).
\<close>

section \<open>Directories\<close>

definition path_join :: "rstring \<Rightarrow> rstring \<Rightarrow> rstring" where
  "path_join dir name = dir @ lit ''/'' @ name"

definition slots_root :: "rstring \<Rightarrow> rstring" where
  "slots_root root = path_join root (lit ''slots'')"

definition hex_encode :: "bytes \<Rightarrow> rstring" where
  "hex_encode bs =
     (let HEX = lit ''0123456789abcdef''
      in concat (map (\<lambda>b. [HEX ! (unat b div 16), HEX ! (unat b mod 16)]) bs))"

definition slot_dir :: "rstring \<Rightarrow> rstring \<Rightarrow> rstring" where
  "slot_dir root port = path_join (slots_root root) (lit ''slot-'' @ hex_encode (utf8 port))"

definition epoch_dir :: "'j journal_env \<Rightarrow> rstring \<Rightarrow> rstring \<Rightarrow> uuid \<Rightarrow> rstring" where
  "epoch_dir env root port epoch = path_join (slot_dir root port) (je_uuid_text env epoch)"

definition validate_root :: "rstring \<Rightarrow> journal_error + unit" where
  "validate_root root =
     (if root = [] then Inl (InvalidConfig (lit ''journal root directory cannot be empty'')) else Inr ())"

definition below :: "rstring \<Rightarrow> rstring \<Rightarrow> bool" where
  "below dir d \<longleftrightarrow> d = dir \<or> prefix (dir @ lit ''/'') d"

definition dir_exists :: "rstring \<Rightarrow> files \<Rightarrow> bool" where
  "dir_exists dir fs \<longleftrightarrow> list_ex (\<lambda>p. below dir (fst p)) (bt_keys fs)"

text \<open>The directories from \<open>dir\<close> down to \<open>d\<close>, which lies below it.\<close>

definition dirs_between :: "rstring \<Rightarrow> rstring \<Rightarrow> rstring list" where
  "dirs_between dir d =
     (let inner = drop (length dir) d
      in map (\<lambda>i. dir @ take i inner)
           (filter (\<lambda>i. i = length inner \<or> inner ! i = 47) [0..<Suc (length inner)]))"

definition tree_dirs :: "rstring \<Rightarrow> files \<Rightarrow> rstring list" where
  "tree_dirs dir fs =
     remdups (concat (map (\<lambda>p. dirs_between dir (fst p)) (filter (\<lambda>p. below dir (fst p)) (bt_keys fs))))"

text \<open>What \<open>read_dir\<close> lists: the directories (\<open>Inl\<close>) and the files (\<open>Inr\<close>) in a directory.\<close>

definition dir_entries :: "rstring \<Rightarrow> files \<Rightarrow> (rstring + path) list" where
  "dir_entries dir fs =
     map Inl (filter (\<lambda>d. d \<noteq> dir \<and> 47 \<notin> set (drop (Suc (length dir)) d)) (tree_dirs dir fs)) @
     map Inr (filter (\<lambda>p. fst p = dir) (bt_keys fs))"

section \<open>File names\<close>

text \<open>\<open>file_stem\<close> and \<open>extension\<close> of a path.\<close>

definition split_extension :: "rstring \<Rightarrow> rstring \<times> rstring option" where
  "split_extension name =
     (let after = rev (takeWhile (\<lambda>c. c \<noteq> 46) (rev name));
          before = take (length name - Suc (length after)) name
      in if name = lit ''..'' \<or> 46 \<notin> set name \<or> before = [] then (name, None) else (before, Some after))"

definition file_stem :: "path \<Rightarrow> rstring" where
  "file_stem p = fst (split_extension (snd p))"

definition extension :: "path \<Rightarrow> rstring option" where
  "extension p = snd (split_extension (snd p))"

text \<open>\<open>str::parse::<u64>\<close>.\<close>

definition parse_u64 :: "rstring \<Rightarrow> nat option" where
  "parse_u64 s =
     (let ds = (case s of [] \<Rightarrow> [] | c # cs \<Rightarrow> if c = 43 then cs else s)
      in if ds \<noteq> [] \<and> list_all is_ascii_digit ds \<and> digits_value ds \<le> U64_MAX
         then Some (digits_value ds) else None)"

definition parse_sealed_seq_range :: "path \<Rightarrow> (nat \<times> nat) option" where
  "parse_sealed_seq_range p =
     (let stem = file_stem p; part = takeWhile (\<lambda>c. c \<noteq> 45); later = dropWhile (\<lambda>c. c \<noteq> 45)
      in case parse_u64 (part stem) of
           None \<Rightarrow> None
         | Some first \<Rightarrow>
             if later stem = [] then None
             else map_option (\<lambda>l. (first, l)) (parse_u64 (part (tl (later stem)))))"

definition parse_sealed_last_seq :: "path \<Rightarrow> nat option" where
  "parse_sealed_last_seq p = map_option snd (parse_sealed_seq_range p)"

definition parse_segment_first_seq :: "path \<Rightarrow> nat option" where
  "parse_segment_first_seq p = parse_u64 (takeWhile (\<lambda>c. c \<noteq> 45) (file_stem p))"

definition is_sealed_name :: "path \<Rightarrow> bool" where
  "is_sealed_name p \<longleftrightarrow> extension p = Some (lit ''slog'')"

definition is_segment_name :: "path \<Rightarrow> bool" where
  "is_segment_name p \<longleftrightarrow> is_sealed_name p \<or> extension p = Some (lit ''open'')"

section \<open>Walking a tree\<close>

definition is_history_metadata :: "rstring \<Rightarrow> rstring \<Rightarrow> rstring \<Rightarrow> bool" where
  "is_history_metadata root parent name \<longleftrightarrow>
     parent = root \<and> name \<in> {lit ''agent-history'', lit ''agent-history-checkpoint.json''}"

fun collect_entries ::
  "os \<Rightarrow> rstring \<Rightarrow> rstring option \<Rightarrow> files \<Rightarrow> (rstring + path) list \<Rightarrow> io_error + path list" where
  "collect_entries d root expected fs [] = Inr []"
| "collect_entries d root expected fs (Inl dir # entries) = collect_entries d root expected fs entries"
| "collect_entries d root expected fs (Inr p # entries) =
     sbind (fs_call_ok d (FsDirEntry p)) (\<lambda>_.
       if is_history_metadata root (fst p) (snd p) then collect_entries d root expected fs entries
       else sbind (fs_file_type d p fs) (\<lambda>is_file.
         sbind (collect_entries d root expected fs entries) (\<lambda>found.
           Inr (if is_file \<and> (expected = None \<or> extension p = expected) then p # found else found))))"

fun collect_dirs ::
  "os \<Rightarrow> rstring \<Rightarrow> rstring option \<Rightarrow> files \<Rightarrow> rstring list \<Rightarrow> io_error + path list" where
  "collect_dirs d root expected fs [] = Inr []"
| "collect_dirs d root expected fs (dir # dirs) =
     sbind (fs_call_ok d (FsReadDir dir)) (\<lambda>_.
     sbind (collect_entries d root expected fs (dir_entries dir fs)) (\<lambda>found.
     sbind (collect_dirs d root expected fs dirs) (\<lambda>later. Inr (found @ later))))"

definition collect_files :: "os \<Rightarrow> rstring \<Rightarrow> rstring option \<Rightarrow> files \<Rightarrow> io_error + path list" where
  "collect_files d root expected fs =
     collect_dirs d root expected fs
       (filter (\<lambda>dir. \<not> below (path_join root (lit ''agent-history'')) dir) (tree_dirs root fs))"

fun sum_sizes :: "os \<Rightarrow> files \<Rightarrow> path list \<Rightarrow> nat \<Rightarrow> io_error + nat" where
  "sum_sizes d fs [] acc = Inr acc"
| "sum_sizes d fs (p # ps) acc =
     (case fs_metadata d p fs of
        Inr (_, n) \<Rightarrow> sum_sizes d fs ps (saturating_add_u64 acc n)
      | Inl e \<Rightarrow> if io_kind e = IoNotFound then sum_sizes d fs ps acc else Inl e)"

definition directory_size :: "os \<Rightarrow> rstring \<Rightarrow> files \<Rightarrow> journal_error + nat" where
  "directory_size d root fs =
     map_error JIo (sbind (collect_files d root None fs) (\<lambda>ps. sum_sizes d fs ps 0))"

section \<open>Names that announce their numbers\<close>

lemma pad20_digit: "c \<in> set (pad20 n) \<Longrightarrow> is_ascii_digit c"
  by (auto simp: pad20_def dest: digits_of_digit) (simp add: is_ascii_digit_def)

lemma pad20_nonempty [simp]: "pad20 n \<noteq> []"
  by (simp add: pad20_def)

lemma digits_value_zeros: "digits_value (replicate k 48 @ ds) = digits_value ds"
  by (induction k) (auto simp: digits_value_def)

lemma digits_value_pad20 [simp]: "digits_value (pad20 n) = n"
  by (simp add: pad20_def digits_value_zeros)

lemma parse_pad20: "n \<le> U64_MAX \<Longrightarrow> parse_u64 (pad20 n) = Some n"
proof -
  have "hd (pad20 n) \<noteq> 43"
    using pad20_digit [of "hd (pad20 n)" n] by (auto simp: is_ascii_digit_def)
  then have "(case pad20 n of [] \<Rightarrow> [] | c # cs \<Rightarrow> if c = 43 then cs else pad20 n) = pad20 n"
    by (cases "pad20 n") auto
  then show "n \<le> U64_MAX \<Longrightarrow> ?thesis"
    by (auto simp: parse_u64_def Let_def list_all_iff dest: pad20_digit)
qed

lemma split_extension_append:
  assumes "stem \<noteq> []" "46 \<notin> set ext" "ext \<noteq> []"
  shows "split_extension (stem @ 46 # ext) = (stem, Some ext)"
proof -
  have "takeWhile (\<lambda>c. c \<noteq> 46) (rev (stem @ 46 # ext)) = rev ext"
    using assms(2) by (simp add: takeWhile_append)
  moreover have "stem @ 46 # ext \<noteq> lit ''..''"
    using assms by (cases stem) (auto simp: lit_def Cons_eq_append_conv append_eq_Cons_conv)
  ultimately show ?thesis using assms(1) by (simp add: split_extension_def Let_def)
qed

lemma segment_names:
  "split_extension (open_name env h) =
     (pad20 (sh_first_seq h) @ 45 # je_uuid_text env (sh_segment_id h), Some (lit ''open''))"
  "split_extension (snd (sealed_path env p h n)) =
     (pad20 (sh_first_seq h) @ 45 # pad20 n @ 45 # je_uuid_text env (sh_segment_id h), Some (lit ''slog''))"
  using split_extension_append
    [of "pad20 (sh_first_seq h) @ 45 # je_uuid_text env (sh_segment_id h)" "lit ''open''"]
    split_extension_append
    [of "pad20 (sh_first_seq h) @ 45 # pad20 n @ 45 # je_uuid_text env (sh_segment_id h)" "lit ''slog''"]
  by (simp_all add: open_name_def sealed_path_def lit_def)

lemma until_dash [simp]:
  "takeWhile (\<lambda>c. c \<noteq> 45) (pad20 n @ 45 # s) = pad20 n"
  "dropWhile (\<lambda>c. c \<noteq> 45) (pad20 n @ 45 # s) = 45 # s"
proof -
  have "\<forall>c \<in> set (pad20 n). c \<noteq> 45"
    by (auto simp: is_ascii_digit_def dest: pad20_digit)
  then show "takeWhile (\<lambda>c. c \<noteq> 45) (pad20 n @ 45 # s) = pad20 n"
    "dropWhile (\<lambda>c. c \<noteq> 45) (pad20 n @ 45 # s) = 45 # s"
    by (simp_all add: takeWhile_append2 dropWhile_append2)
qed

text \<open>The name of a sealed segment announces its range, that of an open one its first number.\<close>

lemma sealed_name_announces:
  assumes "sh_first_seq h \<le> U64_MAX" "n \<le> U64_MAX"
  shows "parse_sealed_seq_range (dir, snd (sealed_path env p h n)) = Some (sh_first_seq h, n)"
    "is_sealed_name (dir, snd (sealed_path env p h n))"
  using assms
  by (simp_all add: parse_sealed_seq_range_def file_stem_def segment_names parse_pad20 Let_def
      is_sealed_name_def extension_def)

lemma open_name_announces:
  assumes "sh_first_seq h \<le> U64_MAX"
  shows "parse_segment_first_seq (dir, open_name env h) = Some (sh_first_seq h)"
    "\<not> is_sealed_name (dir, open_name env h)" "is_segment_name (dir, open_name env h)"
  using assms
  by (simp_all add: parse_segment_first_seq_def file_stem_def segment_names parse_pad20
      is_sealed_name_def is_segment_name_def extension_def)

section \<open>What a walk finds\<close>

lemma collect_entries_sound:
  "collect_entries d root expected fs entries = Inr found \<Longrightarrow>
   p \<in> set found \<longleftrightarrow> Inr p \<in> set entries \<and> \<not> is_history_metadata root (fst p) (snd p) \<and>
     (\<exists>bs. bt_get fs p = Some (Regular bs)) \<and> (expected = None \<or> extension p = expected)"
proof (induction entries arbitrary: found)
  case (Cons entry entries)
  show ?case
  proof (cases entry)
    case (Inl dir)
    with Cons show ?thesis by auto
  next
    case (Inr q)
    with Cons.prems Cons.IH show ?thesis
      by (auto simp: res_simps fs_file_type_def split: if_splits option.splits node.splits)
  qed
qed simp

lemma sum_sizes_le: "sum_sizes d fs ps acc = Inr n \<Longrightarrow> acc \<le> U64_MAX \<Longrightarrow> acc \<le> n \<and> n \<le> U64_MAX"
  by (induction ps arbitrary: acc)
    (force simp: saturating_add_u64_def split: sum.splits prod.splits if_splits)+

end
