(* ===== verification/JournalQueryProps.thy ===== *)
theory JournalQueryProps
  imports JournalQuery
begin

text \<open>
  What a page of a query says about the retained events: with no text filter, it holds exactly the
  events in scope up to its cursor, it is all of them when it is not truncated, and every sequence
  number up to the cursor is that of a retained event or lies in a reported gap.
\<close>

section \<open>The retained events\<close>

definition segment_holds ::
  "'j journal_env \<Rightarrow> files \<Rightarrow> segment_descriptor \<Rightarrow> 'j timeline_event list \<Rightarrow> bool" where
  "segment_holds env fs seg es \<longleftrightarrow>
     (\<exists>head recs. bt_get fs (sd_path seg) = Some (Regular (segment_file head recs)) \<and>
        segment_bytes env (sd_header seg) head \<and> records_of env es recs) \<and>
     in_stream (sd_header seg) 0 es \<and> (\<forall>e \<in> set es. sh_first_seq (sd_header seg) \<le> ev_seq e) \<and>
     opt_all (\<lambda>l. \<forall>e \<in> set es. ev_seq e \<le> l) (sd_last_seq seg)"

definition retained :: "query_scope \<Rightarrow> 'j timeline_event list \<Rightarrow> bool" where
  "retained c events \<longleftrightarrow>
     sorted_wrt (\<lambda>e e'. ev_seq e < ev_seq e') events \<and>
     (\<forall>e \<in> set events. 0 < ev_seq e \<and> ev_seq e \<le> U64_MAX \<and> ev_port e = qc_port c \<and> ev_epoch e = qc_epoch c)"

definition unfiltered :: "query_scope \<Rightarrow> bool" where
  "unfiltered c \<longleftrightarrow> eq_contains (qc_query c) = None \<and> qc_expression c = None \<and>
     sequence_floor c \<le> sequence_ceiling c \<and> sequence_ceiling c \<le> U64_MAX"

definition in_scope :: "query_scope \<Rightarrow> 'j timeline_event \<Rightarrow> bool" where
  "in_scope c e \<longleftrightarrow> sequence_floor c < ev_seq e \<and> ev_seq e \<le> sequence_ceiling c \<and>
     event_matches_query_scope e (qc_query c)"

section \<open>The invariant of the scan\<close>

definition reached :: "'j query_scan \<Rightarrow> nat" where
  "reached st = (case qs_last_scanned st of None \<Rightarrow> 0 | Some n \<Rightarrow> n)"

text \<open>No number up to \<open>qs_previous_contiguous\<close> is missing silently, and none is reported wrongly.\<close>

definition gaps_right ::
  "query_scope \<Rightarrow> 'j timeline_event list \<Rightarrow> gap_range list \<Rightarrow> 'j query_scan \<Rightarrow> bool" where
  "gaps_right c events known st \<longleftrightarrow>
     bounded_gaps (qs_gaps st) \<and>
     (\<forall>n. sequence_floor c < n \<and> n \<le> qs_previous_contiguous st \<longrightarrow>
        missing_at (qc_epoch c) n (qs_gaps st) \<or> n \<in> ev_seq ` set events) \<and>
     (\<forall>e r n. gap_at e r n (qs_gaps st) \<longrightarrow>
        gap_at e r n known \<or> (r = SequenceDiscontinuity \<and> n \<notin> ev_seq ` set events))"

definition scan_inv ::
  "query_scope \<Rightarrow> 'j timeline_event list \<Rightarrow> gap_range list \<Rightarrow> 'j timeline_event list \<Rightarrow> 'j query_scan \<Rightarrow> bool" where
  "scan_inv c events known seen st \<longleftrightarrow>
     qs_events st = filter (in_scope c) seen \<and> \<not> qs_truncated st \<and>
     (eq_after_seq (qc_query c) \<noteq> None \<longrightarrow> qs_last_scanned st \<noteq> None) \<and>
     sequence_floor c \<le> reached st \<and> (\<forall>e \<in> set seen. ev_seq e \<le> reached st) \<and>
     (reached st = sequence_floor c \<or> reached st \<in> ev_seq ` set seen) \<and>
     reached st = qs_previous_contiguous st \<and> gaps_right c events known st"

definition scan_final ::
  "query_scope \<Rightarrow> 'j timeline_event list \<Rightarrow> gap_range list \<Rightarrow> 'j query_scan \<Rightarrow> bool" where
  "scan_final c events known st \<longleftrightarrow>
     (\<exists>seen rest. events = seen @ rest \<and> qs_events st = filter (in_scope c) seen \<and>
        (\<forall>e \<in> set seen. ev_seq e \<le> reached st) \<and> (\<forall>e \<in> set rest. reached st < ev_seq e) \<and>
        (\<not> qs_truncated st \<longrightarrow> (\<forall>e \<in> set rest. sequence_ceiling c < ev_seq e)) \<and>
        sequence_floor c \<le> reached st \<and> reached st \<le> qs_previous_contiguous st \<and>
        gaps_right c events known st)"

lemma reached_updates [simp]:
  "reached (st\<lparr>qs_bytes := n\<rparr>) = reached st" "reached (st\<lparr>qs_events := es\<rparr>) = reached st"
  "reached (st\<lparr>qs_truncated := b\<rparr>) = reached st"
  by (simp_all add: reached_def)

lemma clear_carries_simps [simp]:
  "qs_events (clear_carries st) = qs_events st" "qs_truncated (clear_carries st) = qs_truncated st"
  "qs_last_scanned (clear_carries st) = qs_last_scanned st" "qs_gaps (clear_carries st) = qs_gaps st"
  "qs_previous_contiguous (clear_carries st) = qs_previous_contiguous st"
  "qs_previous_scanned (clear_carries st) = qs_previous_scanned st"
  by (simp_all add: clear_carries_def)

text \<open>Updates that no part of the invariant looks at.\<close>

definition same_page :: "'j query_scan \<Rightarrow> 'j query_scan \<Rightarrow> bool" where
  "same_page st st' \<longleftrightarrow>
     qs_events st' = qs_events st \<and> qs_truncated st' = qs_truncated st \<and>
     qs_last_scanned st' = qs_last_scanned st \<and> qs_gaps st' = qs_gaps st \<and>
     qs_previous_contiguous st' = qs_previous_contiguous st"

lemma same_page_inv: "same_page st st' \<Longrightarrow> scan_inv c events known seen st' = scan_inv c events known seen st"
  by (simp add: same_page_def scan_inv_def reached_def gaps_right_def)

lemma same_page_refl [simp]: "same_page st st"
  by (simp add: same_page_def)

lemma same_page_updates [simp]:
  "same_page st (st\<lparr>qs_budget := b\<rparr>)" "same_page st (clear_carries st)"
  "same_page st (st\<lparr>qs_rx := k\<rparr>)" "same_page st (st\<lparr>qs_tx := k\<rparr>)" "same_page st (st\<lparr>qs_previous_scanned := p\<rparr>)"
  by (simp_all add: same_page_def)

lemma same_page_trans: "same_page st st1 \<Longrightarrow> same_page st1 st2 \<Longrightarrow> same_page st st2"
  by (simp add: same_page_def)

lemma scan_exhausted_same: "scan_exhausted st = (x, st') \<Longrightarrow> same_page st st'"
  by (auto simp: scan_exhausted_def split: prod.splits)

section \<open>One event\<close>

lemma retained_split:
  assumes "retained c (seen @ e # later)"
  shows "\<And>e'. e' \<in> set seen \<Longrightarrow> ev_seq e' < ev_seq e" "\<And>e'. e' \<in> set later \<Longrightarrow> ev_seq e < ev_seq e'"
    "0 < ev_seq e" "ev_seq e \<le> U64_MAX" "ev_port e = qc_port c" "ev_epoch e = qc_epoch c"
  using assms by (auto simp: retained_def sorted_wrt_append)

lemma note_sequence_keeps:
  assumes "note_sequence c e st = Inr st'" "retained c (seen @ e # later)"
    "scan_inv c (seen @ e # later) known seen st"
  shows "qs_events st' = qs_events st" "qs_truncated st' = qs_truncated st"
    "qs_last_scanned st' = qs_last_scanned st"
    "qs_previous_contiguous st' = max (reached st) (ev_seq e)"
    "gaps_right c (seen @ e # later) known st'"
proof -
  note split = retained_split [OF assms(2)]
  have inv: "reached st = qs_previous_contiguous st" "sequence_floor c \<le> reached st"
    "reached st = sequence_floor c \<or> reached st \<in> ev_seq ` set seen"
    "gaps_right c (seen @ e # later) known st"
    using assms(3) unfolding scan_inv_def by blast+
  have later: "sequence_floor c < ev_seq e \<Longrightarrow> reached st < ev_seq e"
    using inv(3) split(1) by auto
  show "qs_events st' = qs_events st" "qs_truncated st' = qs_truncated st"
    "qs_last_scanned st' = qs_last_scanned st"
    using assms(1) by (auto simp: note_sequence_def Let_def res_simps split: if_splits)
  show contiguous: "qs_previous_contiguous st' = max (reached st) (ev_seq e)"
    using assms(1) inv(1,2) by (auto simp: note_sequence_def Let_def res_simps split: if_splits)
  show "gaps_right c (seen @ e # later) known st'"
  proof (cases "sequence_floor c < ev_seq e \<and> saturating_add_u64 (reached st) 1 < ev_seq e")
    case True
    let ?g = "\<lparr>gr_epoch = ev_epoch e, gr_first_seq = saturating_add_u64 (reached st) 1,
        gr_last_seq = ev_seq e - 1, gr_reason = SequenceDiscontinuity\<rparr>"
    have push: "push_uncovered_gap ?g (qs_gaps st) = Inr (qs_gaps st')"
      using assms(1) True inv(1) by (auto simp: note_sequence_def Let_def res_simps split: if_splits)
    have bounds: "bounded_gaps (?g # qs_gaps st)" "saturating_add_u64 (reached st) 1 = reached st + 1"
      using inv(4) split(4) later True by (auto simp: gaps_right_def saturating_add_u64_def)
    note exact = push_uncovered_exact [OF push bounds(1)]
    have absent: "n \<notin> ev_seq ` set (seen @ e # later)" if "reached st < n" "n < ev_seq e" for n
      using that split(1,2) assms(3) by (fastforce simp: scan_inv_def)
    have "missing_at (qc_epoch c) n (qs_gaps st') \<or> n \<in> ev_seq ` set (seen @ e # later)"
      if "sequence_floor c < n" "n \<le> qs_previous_contiguous st'" for n
    proof -
      have "n \<le> reached st \<or> n \<le> ev_seq e" using that(2) contiguous by auto
      then consider "n \<le> reached st" | "n = ev_seq e" | "reached st < n" "n < ev_seq e" by linarith
      then show ?thesis
      proof cases
        case 3
        then have "in_gap (qc_epoch c) SequenceDiscontinuity n ?g"
          using bounds(2) by (auto simp: in_gap_def split(6))
        then show ?thesis using exact(1) missing_at_gap_at by blast
      next
        case 1
        then show ?thesis
          using inv(1,4) that(1) exact(1) by (auto simp: gaps_right_def missing_at_gap_at)
      qed simp
    qed
    moreover have "gap_at x r n known \<or> r = SequenceDiscontinuity \<and> n \<notin> ev_seq ` set (seen @ e # later)"
      if "gap_at x r n (qs_gaps st')" for x r n
    proof (cases "in_gap x r n ?g")
      case True
      with split(3) bounds(2) have "r = SequenceDiscontinuity" "reached st < n" "n < ev_seq e"
        by (auto simp: in_gap_def)
      then show ?thesis using absent by blast
    next
      case False
      then show ?thesis using that exact(1) inv(4) by (auto simp: gaps_right_def)
    qed
    ultimately show ?thesis using exact(2) by (auto simp: gaps_right_def)
  next
    case False
    have "qs_gaps st' = qs_gaps st"
      using assms(1) False inv(1) by (auto simp: note_sequence_def Let_def res_simps split: if_splits)
    moreover have "ev_seq e \<le> Suc (reached st) \<or> ev_seq e \<le> sequence_floor c"
      using False split(4) by (auto simp: saturating_add_u64_def)
    ultimately show ?thesis
      using inv(1,2,4) contiguous by (auto simp: gaps_right_def max_def le_Suc_eq split: if_splits)
  qed
qed

lemma search_step_unfiltered:
  assumes "unfiltered c" "search_step c e st = (m, st')"
  shows "m = event_matches_query_scope e (qc_query c)" "same_page st st'"
  using assms by (auto simp: search_step_def unfiltered_def split: if_splits direction.splits)

lemma mark_scanned_simps [simp]:
  "qs_events (mark_scanned n st) = qs_events st" "qs_truncated (mark_scanned n st) = qs_truncated st"
  "qs_gaps (mark_scanned n st) = qs_gaps st"
  "qs_previous_contiguous (mark_scanned n st) = qs_previous_contiguous st"
  "reached (mark_scanned n st) = max (reached st) n" "qs_last_scanned (mark_scanned n st) \<noteq> None"
  by (auto simp: mark_scanned_def reached_def split: option.splits)

lemma deliver_cases:
  assumes "deliver env c e limit_hit st = Inr fl"
  obtains "fl = Stop (st\<lparr>qs_truncated := True\<rparr>)"
  | n st' where "st' = mark_scanned (ev_seq e) (st\<lparr>qs_bytes := n, qs_events := qs_events st @ [e]\<rparr>)"
      "fl = Go st' \<or> fl = Stop (st'\<lparr>qs_truncated := True\<rparr>)"
proof -
  obtain n where "response_bytes env e = Inr n" using assms by (auto simp: deliver_def res_simps)
  with assms that show thesis by (auto simp: deliver_def Let_def split: if_splits)
qed

text \<open>Leaving the scan early, with the events so far.\<close>

lemma scan_stops:
  assumes "events = seen @ rest" "qs_events st = filter (in_scope c) seen"
    "\<And>e. e \<in> set seen \<Longrightarrow> ev_seq e \<le> reached st" "\<And>e. e \<in> set rest \<Longrightarrow> reached st < ev_seq e"
    "qs_truncated st \<or> (\<forall>e \<in> set rest. sequence_ceiling c < ev_seq e)"
    "sequence_floor c \<le> reached st" "reached st \<le> qs_previous_contiguous st" "gaps_right c events known st"
  shows "scan_final c events known st"
  using assms unfolding scan_final_def by blast

lemma inv_stops:
  assumes "scan_inv c (seen @ rest) known seen st" "\<And>e. e \<in> set rest \<Longrightarrow> reached st < ev_seq e"
  shows "scan_final c (seen @ rest) known (st\<lparr>qs_truncated := True\<rparr>)"
proof (rule scan_stops [where seen = seen and rest = rest])
  have "gaps_right c (seen @ rest) known st" using assms(1) unfolding scan_inv_def by blast
  then show "gaps_right c (seen @ rest) known (st\<lparr>qs_truncated := True\<rparr>)"
    unfolding gaps_right_def by simp
  show "e \<in> set seen \<Longrightarrow> ev_seq e \<le> reached (st\<lparr>qs_truncated := True\<rparr>)" for e
    using assms(1) unfolding scan_inv_def reached_updates by blast
qed (use assms in \<open>simp_all add: scan_inv_def\<close>)

lemma gaps_right_same: "same_page st st' \<Longrightarrow> gaps_right c events known st' = gaps_right c events known st"
  by (simp add: same_page_def gaps_right_def)

lemma reached_in_seen:
  assumes "scan_inv c (seen @ rest) known seen st" "retained c (seen @ rest)"
    "cursor_progressed (qs_last_scanned st) (eq_after_seq (qc_query c))" "e \<in> set rest"
  shows "reached st < ev_seq e"
proof -
  have "reached st \<noteq> sequence_floor c \<or> reached st = 0 \<or> reached st \<in> ev_seq ` set seen"
    using assms(1,3)
    by (auto simp: cursor_progressed_def reached_def sequence_floor_def split: option.splits)
  then have "reached st \<in> ev_seq ` set seen \<or> reached st = 0"
    using assms(1) unfolding scan_inv_def by (elim conjE disjE) simp_all
  then show ?thesis
    using assms(2,4) by (auto simp: retained_def sorted_wrt_append)
qed

lemma stop_or_fail_final:
  assumes "stop_or_fail c st = Inr fl" "scan_inv c (seen @ rest) known seen st" "retained c (seen @ rest)"
  shows "\<exists>st'. fl = Stop st' \<and> scan_final c (seen @ rest) known st'"
proof -
  have progressed: "cursor_progressed (qs_last_scanned st) (eq_after_seq (qc_query c))"
    and fl: "fl = Stop (st\<lparr>qs_truncated := True\<rparr>)"
    using assms(1) by (auto simp: stop_or_fail_def split: if_splits)
  have "scan_final c (seen @ rest) known (st\<lparr>qs_truncated := True\<rparr>)"
    by (rule inv_stops [OF assms(2)]) (rule reached_in_seen [OF assms(2,3) progressed])
  then show ?thesis using fl by blast
qed

lemma process_event_step:
  assumes "process_event env c seg e limit_hit st = Inr fl" "unfiltered c"
    "retained c (seen @ e # later)" "scan_inv c (seen @ e # later) known seen st"
  shows "case fl of Go st' \<Rightarrow> scan_inv c (seen @ e # later) known (seen @ [e]) st'
       | Stop st' \<Rightarrow> scan_final c (seen @ e # later) known st'"
proof -
  let ?all = "seen @ e # later"
  note split = retained_split [OF assms(3)]
  have inv: "qs_events st = filter (in_scope c) seen" "\<not> qs_truncated st"
    "sequence_floor c \<le> reached st" "\<And>e. e \<in> set seen \<Longrightarrow> ev_seq e \<le> reached st"
    "reached st = sequence_floor c \<or> reached st \<in> ev_seq ` set seen"
    "reached st = qs_previous_contiguous st" "gaps_right c ?all known st"
    using assms(4) unfolding scan_inv_def by blast+
  have after: "reached st < ev_seq e" if "sequence_floor c < ev_seq e"
    using inv(5) split(1) that by auto
  show ?thesis
  proof (cases "ev_seq e > sequence_ceiling c")
    case True
    then have "fl = Stop st" using assms(1) split(5,6) by (auto simp: process_event_def split: if_splits)
    moreover have "sequence_floor c < ev_seq e" using True assms(2) by (simp add: unfiltered_def)
    then have "scan_final c ?all known st"
      using True inv after split(2)
      by (intro scan_stops [where seen = seen and rest = "e # later"]) (auto dest: split(2))
    ultimately show ?thesis by simp
  next
    case False
    obtain st1 where st1: "note_sequence c e st = Inr st1"
      using assms(1) False by (auto simp: process_event_def res_simps split: if_splits)
    note kept = note_sequence_keeps [OF st1 assms(3,4)]
    obtain m st2 where st2: "search_step c e st1 = (m, st2)" by (cases "search_step c e st1")
    note same = search_step_unfiltered [OF assms(2) st2]
    have eligible: "opt_all (\<lambda>after. ev_seq e > after) (eq_after_seq (qc_query c)) \<and>
        event_matches_query_scope e (qc_query c) \<and> m \<longleftrightarrow> in_scope c e"
      using split(3) False same(1)
      by (auto simp: in_scope_def sequence_floor_def opt_all_def split: option.splits)
    have flow: "(if in_scope c e then deliver env c e limit_hit st2
        else (let st = mark_scanned (ev_seq e) st2
              in if limit_hit then stop_or_fail c st else Inr (Go st))) = Inr fl"
      using assms(1) False st1 st2 eligible by (simp add: process_event_def split: if_splits)
    have st2': "qs_events st2 = filter (in_scope c) seen" "\<not> qs_truncated st2" "reached st2 = reached st"
      "qs_previous_contiguous st2 = max (reached st) (ev_seq e)" "gaps_right c ?all known st2"
      using same(2) kept inv(1,2)
      by (auto simp: same_page_def reached_def gaps_right_same [OF same(2)])
    have marked: "scan_inv c ?all known (seen @ [e]) st'"
      if "qs_events st' = filter (in_scope c) (seen @ [e])" "\<not> qs_truncated st'"
        "qs_last_scanned st' \<noteq> None" "reached st' = max (reached st) (ev_seq e)"
        "qs_previous_contiguous st' = max (reached st) (ev_seq e)" "qs_gaps st' = qs_gaps st2" for st'
      using that inv(3-5) st2'(4,5) after
      unfolding scan_inv_def by (auto simp: gaps_right_def max_def dest: inv(4))
    show ?thesis
    proof (cases "in_scope c e")
      case True
      then have floor: "sequence_floor c < ev_seq e" by (simp add: in_scope_def)
      from flow True have "deliver env c e limit_hit st2 = Inr fl" by simp
      then show ?thesis
      proof (cases rule: deliver_cases)
        case 1
        have "scan_final c ?all known (st2\<lparr>qs_truncated := True\<rparr>)"
          using inv(3,4) st2' after [OF floor] split(2)
          by (intro scan_stops [where seen = seen and rest = "e # later"])
            (auto simp: reached_def gaps_right_def dest: split(2))
        then show ?thesis by (simp add: 1)
      next
        case (2 n st3)
        have m: "scan_inv c ?all known (seen @ [e]) st3"
          by (rule marked) (use 2 True st2' in simp_all)
        have "reached st3 = ev_seq e" using after [OF floor] st2'(3) by (simp add: 2(1))
        then have "scan_final c ?all known (st3\<lparr>qs_truncated := True\<rparr>)"
          using inv_stops [of c "seen @ [e]" later known st3] m split(2) by simp
        then show ?thesis using m 2(2) by auto
      qed
    next
      case False
      let ?st3 = "mark_scanned (ev_seq e) st2"
      have m: "scan_inv c ?all known (seen @ [e]) ?st3"
        by (rule marked) (use False st2' in simp_all)
      show ?thesis
      proof (cases limit_hit)
        case True
        then have "stop_or_fail c ?st3 = Inr fl" using flow False by simp
        then show ?thesis
          using stop_or_fail_final [of c ?st3 fl "seen @ [e]" later known] m assms(3) by auto
      next
        case False
        then show ?thesis using flow \<open>\<not> in_scope c e\<close> m by auto
      qed
    qed
  qed
qed

section \<open>One segment\<close>

lemma read_at_end: "read_record env f = (Inr r, f') \<Longrightarrow> fl_rest f = [] \<Longrightarrow> r = ReadEof"
  by (auto simp: read_record_def res_simps dest!: read_up_to_Inr)

lemma same_page_inv_forward:
  "scan_inv c events known seen st \<Longrightarrow> same_page st st' \<Longrightarrow> scan_inv c events known seen st'"
  by (simp add: same_page_inv)

lemma scan_records_step:
  assumes "codec_ok (je_header env)" "unfiltered c"
  shows "scan_records env c seg good f st = Inr fl \<Longrightarrow> records_of env es recs \<Longrightarrow>
     fl_rest f = concat recs \<Longrightarrow> in_stream h p es \<Longrightarrow> retained c (seen @ es @ later) \<Longrightarrow>
     scan_inv c (seen @ es @ later) known seen st \<Longrightarrow>
     (case fl of Go st' \<Rightarrow> scan_inv c (seen @ es @ later) known (seen @ es) st'
      | Stop st' \<Rightarrow> scan_final c (seen @ es @ later) known st')"
proof (induction es arbitrary: seen good f st recs p)
  case Nil
  obtain x st1 where st1: "scan_exhausted st = (x, st1)" by (cases "scan_exhausted st")
  have inv1: "scan_inv c (seen @ later) known seen st1"
    using same_page_inv_forward [OF _ scan_exhausted_same [OF st1]] Nil.prems(6) by simp
  have stop: "\<exists>st'. fl = Stop st' \<and> scan_final c (seen @ later) known st'"
    if "stop_or_fail c st' = Inr fl" "scan_inv c (seen @ later) known seen st'" for st'
    using stop_or_fail_final [OF that] Nil.prems(5) by simp
  show ?case
  proof (cases x)
    case True
    with Nil.prems(1) st1 have "stop_or_fail c st1 = Inr fl"
      by (simp add: scan_records.simps [of env c seg good f st])
    from stop [OF this inv1] show ?thesis by auto
  next
    case False
    obtain r f1 where r: "read_record env f = (Inr r, f1)"
      using Nil.prems(1) st1 False
      by (auto simp: scan_records.simps [of env c seg good f st] split: prod.splits sum.splits)
    have "r = ReadEof" using read_at_end [OF r] Nil.prems(2,3) by (simp add: records_of_def)
    obtain y st2 where st2:
      "scan_exhausted (st1\<lparr>qs_budget := add_bytes (fl_pos f1 - fl_pos f) (qs_budget st1)\<rparr>) = (y, st2)"
      by (cases "scan_exhausted (st1\<lparr>qs_budget := add_bytes (fl_pos f1 - fl_pos f) (qs_budget st1)\<rparr>)")
    have "same_page st1 st2"
      using scan_exhausted_same [OF st2] same_page_trans same_page_updates(1) by blast
    then have inv2: "scan_inv c (seen @ later) known seen st2" using inv1 by (simp add: same_page_inv)
    have "(if y then stop_or_fail c st2 else Inr (Go st2)) = Inr fl"
      using Nil.prems(1) st1 False r \<open>r = ReadEof\<close> st2
      by (simp add: scan_records.simps [of env c seg good f st])
    then show ?thesis using stop [OF _ inv2] inv2 by (auto split: if_splits)
  qed
next
  case (Cons e es)
  obtain bs recs' where recs: "recs = bs # recs'" "encode_record env e = Inr bs" "records_of env es recs'"
    using Cons.prems(2) by (auto simp: records_of_def list_all2_Cons1)
  have fresh: "ev_durable e" "in_stream h (ev_seq e) es" using Cons.prems(4) by auto
  let ?all = "seen @ e # es @ later"
  obtain x st1 where st1: "scan_exhausted st = (x, st1)" by (cases "scan_exhausted st")
  have inv1: "scan_inv c ?all known seen st1"
    using same_page_inv_forward [OF _ scan_exhausted_same [OF st1]] Cons.prems(6) by simp
  show ?case
  proof (cases x)
    case True
    with Cons.prems(1) st1 have "stop_or_fail c st1 = Inr fl"
      by (simp add: scan_records.simps [of env c seg good f st])
    from stop_or_fail_final [OF this inv1] Cons.prems(5) show ?thesis by auto
  next
    case False
    obtain r f1 where r: "read_record env f = (Inr r, f1)"
      using Cons.prems(1) st1 False
      by (auto simp: scan_records.simps [of env c seg good f st] split: prod.splits sum.splits)
    have read: "r = ReadEvent e" "fl_rest f1 = concat recs'"
      using read_encoded [OF assms(1) recs(2) fresh(1) r, of "concat recs'"] Cons.prems(3) recs(1) by simp_all
    obtain y st2 where st2:
      "scan_exhausted (st1\<lparr>qs_budget := add_bytes (fl_pos f1 - fl_pos f) (qs_budget st1)\<rparr>) = (y, st2)"
      by (cases "scan_exhausted (st1\<lparr>qs_budget := add_bytes (fl_pos f1 - fl_pos f) (qs_budget st1)\<rparr>)")
    have "same_page st1 st2"
      using scan_exhausted_same [OF st2] same_page_trans same_page_updates(1) by blast
    then have inv2: "scan_inv c ?all known seen st2" using inv1 by (simp add: same_page_inv)
    obtain fl1 where fl1: "process_event env c seg e y st2 = Inr fl1"
      "(case fl1 of Stop st \<Rightarrow> Inr (Stop st)
        | Go st \<Rightarrow> scan_records env c seg (Some (ev_seq e)) f1 st) = Inr fl"
      using Cons.prems(1) st1 False r read(1) st2
      by (auto simp: scan_records.simps [of env c seg good f st] res_simps)
    have ret: "retained c ?all" using Cons.prems(5) by simp
    note step = process_event_step [OF fl1(1) assms(2) ret inv2]
    show ?thesis
    proof (cases fl1)
      case (Stop st3)
      then show ?thesis using step fl1(2) by auto
    next
      case (Go st3)
      then show ?thesis
        using Cons.IH [of "Some (ev_seq e)" f1 st3 recs' "ev_seq e" "seen @ [e]"] step fl1(2) recs(3) read(2)
          fresh(2) ret by (cases fl) simp_all
    qed
  qed
qed

lemma read_header_front:
  assumes "codec_ok (je_segment env)" "segment_bytes env h bs" "fl_data f = bs @ ys"
    "read_segment_header env d p f = (Inr (h', off), f')"
  shows "h' = h" "off = length bs" "fl_data f' = fl_data f"
proof -
  obtain encoded where e: "encode_json (je_segment env) h = Inr encoded"
    "length encoded \<le> MAX_SEGMENT_HEADER_BYTES" "bs = segment_frame env encoded"
    using assms(2) by (auto simp: segment_bytes_def res_simps)
  define prefix where "prefix = SEGMENT_MAGIC @ to_le_bytes FORMAT_VERSION @
      to_le_bytes (word_of_nat (length encoded)) @
      to_le_bytes (segment_checksum env FORMAT_VERSION (word_of_nat (length encoded)) encoded)"
  note slices = prefix_slices [OF prefix_def]
  obtain f0 where f0: "file_seek d p 0 f = (Inr (), f0)"
    using assms(4) by (auto simp: read_segment_header_def res_simps)
  then have "f0 = f\<lparr>fl_pos := 0\<rparr>" by (auto simp: file_seek_def split: option.splits)
  then have rest0: "fl_rest f0 = prefix @ encoded @ ys" "fl_data f0 = fl_data f"
    using assms(3) e(3) by (simp_all add: fl_rest_def segment_frame_def prefix_def)
  obtain prefix' f1 where f1: "read_exact 20 f0 = (Inr prefix', f1)"
    using assms(4) f0 by (auto simp: read_segment_header_def res_simps SEGMENT_PREFIX_LEN_def)
  have p1: "prefix' = prefix" "fl_rest f1 = encoded @ ys" "fl_data f1 = fl_data f"
    using read_exact_Inr [OF f1] rest0 slices(5) fl_rest_after [of f1 f0 20] by simp_all
  have len: "unat (word_of_nat (length encoded) :: 32 word) = length encoded"
    using e(2) record_limits(3) by simp
  obtain encoded' f2 where f2: "read_exact (length encoded) f1 = (Inr encoded', f2)"
    using assms(4) f0 f1 p1(1) slices e(2) len
    by (auto simp: read_segment_header_def res_simps SEGMENT_PREFIX_LEN_def Let_def split: if_splits)
  have p2: "encoded' = encoded" "fl_data f2 = fl_data f"
    using read_exact_Inr [OF f2] p1(2,3) by simp_all
  have "decode_json (je_segment env) encoded = Inr h" using assms(1) e(1) by (simp add: codec_ok_def)
  then have "read_segment_header env d p f = (Inr (h, length bs), f2)"
    using f0 f1 f2 p1(1) p2(1) slices e(2,3) len assms(2)
    by (simp add: read_segment_header_def st_bind_def st_map_error_def SEGMENT_PREFIX_LEN_def
        segment_bytes_def Let_def)
  then show "h' = h" "off = length bs" "fl_data f' = fl_data f" using assms(4) p2(2) by auto
qed

text \<open>No segment disappears while the query runs.\<close>

definition stays :: "os \<Rightarrow> segment_descriptor \<Rightarrow> bool" where
  "stays d seg \<longleftrightarrow> (case os_fault d (FsOpen (sd_path seg)) of None \<Rightarrow> True | Some e \<Rightarrow> io_kind e \<noteq> IoNotFound)"

lemma scan_inv_reached:
  assumes "scan_inv c (seen @ rest) known seen st" "retained c (seen @ rest)" "e \<in> set rest"
    "sequence_floor c < ev_seq e"
  shows "reached st < ev_seq e"
proof -
  have "reached st = sequence_floor c \<or> reached st \<in> ev_seq ` set seen"
    using assms(1) unfolding scan_inv_def by blast
  then show ?thesis using assms(2-4) by (auto simp: retained_def sorted_wrt_append)
qed

lemma scan_inv_skip:
  assumes "scan_inv c (seen @ es @ later) known seen st" "\<And>e. e \<in> set es \<Longrightarrow> ev_seq e \<le> sequence_floor c"
  shows "scan_inv c (seen @ es @ later) known (seen @ es) st"
proof -
  have "filter (in_scope c) es = []" using assms(2) by (fastforce simp: in_scope_def filter_empty_conv)
  then have "filter (in_scope c) (seen @ es) = filter (in_scope c) seen" by simp
  moreover have "sequence_floor c \<le> reached st" "\<forall>e \<in> set seen. ev_seq e \<le> reached st"
    "reached st = sequence_floor c \<or> reached st \<in> ev_seq ` set seen"
    using assms(1) unfolding scan_inv_def by blast+
  then have "\<forall>e \<in> set (seen @ es). ev_seq e \<le> reached st"
    "reached st = sequence_floor c \<or> reached st \<in> ev_seq ` set (seen @ es)"
    using assms(2) by (fastforce, auto)
  ultimately show ?thesis
    using assms(1) unfolding scan_inv_def by metis
qed

lemma inv_ends:
  assumes "scan_inv c (seen @ rest) known seen st" "retained c (seen @ rest)" "unfiltered c"
    "\<And>e. e \<in> set rest \<Longrightarrow> sequence_ceiling c < ev_seq e"
  shows "scan_final c (seen @ rest) known st"
proof (rule scan_stops [where seen = seen and rest = rest])
  show "gaps_right c (seen @ rest) known st" "e \<in> set seen \<Longrightarrow> ev_seq e \<le> reached st" for e
    using assms(1) unfolding scan_inv_def by blast+
  show "e \<in> set rest \<Longrightarrow> reached st < ev_seq e" for e
    using scan_inv_reached [OF assms(1,2), of e] assms(3,4) by (fastforce simp: unfiltered_def)
  show "qs_truncated st \<or> (\<forall>e \<in> set rest. sequence_ceiling c < ev_seq e)" using assms(4) by blast
  show "reached st \<le> qs_previous_contiguous st" "sequence_floor c \<le> reached st"
    "qs_events st = filter (in_scope c) seen"
    using assms(1) unfolding scan_inv_def by simp_all
qed simp

lemma scan_segment_step:
  assumes "codec_ok (je_header env)" "codec_ok (je_segment env)" "unfiltered c"
    "scan_segment env d fs c seed seg st = Inr fl" "segment_holds env fs seg es" "stays d seg"
    "sh_port (sd_header seg) = qc_port c" "retained c (seen @ es @ later)"
    "scan_inv c (seen @ es @ later) known seen st"
    "\<And>e. e \<in> set later \<Longrightarrow> sh_first_seq (sd_header seg) \<le> ev_seq e"
  shows "case fl of Go st' \<Rightarrow> scan_inv c (seen @ es @ later) known (seen @ es) st'
      | Stop st' \<Rightarrow> scan_final c (seen @ es @ later) known st'"
proof -
  let ?all = "seen @ es @ later"
  have stop: "case fl of Go st' \<Rightarrow> scan_inv c ?all known (seen @ es) st'
      | Stop st' \<Rightarrow> scan_final c ?all known st'"
    if "stop_or_fail c st' = Inr fl" "scan_inv c ?all known seen st'" for st'
    using stop_or_fail_final [OF that assms(8)] by auto
  obtain head recs where body: "bt_get fs (sd_path seg) = Some (Regular (segment_file head recs))"
    "segment_bytes env (sd_header seg) head" "records_of env es recs"
    using assms(5) by (auto simp: segment_holds_def)
  have stream: "in_stream (sd_header seg) 0 es"
    "\<And>e. e \<in> set es \<Longrightarrow> sh_first_seq (sd_header seg) \<le> ev_seq e"
    "opt_all (\<lambda>l. \<forall>e \<in> set es. ev_seq e \<le> l) (sd_last_seq seg)"
    using assms(5) by (auto simp: segment_holds_def)
  show ?thesis
  proof (cases "sh_first_seq (sd_header seg) > sequence_ceiling c")
    case True
    then have "fl = Stop st" using assms(4) by (simp add: scan_segment_def)
    moreover have "scan_final c ?all known st"
      by (rule inv_ends [OF assms(9,8,3)]) (use True stream(2) assms(10) in fastforce)
    ultimately show ?thesis by simp
  next
    case below: False
    show ?thesis
    proof (cases "fully_consumed c seg \<and> seed \<noteq> Some (sh_segment_id (sd_header seg))")
      case True
      then have "fl = Go st" using assms(4) below by (simp add: scan_segment_def)
      moreover have "ev_seq e \<le> sequence_floor c" if "e \<in> set es" for e
        using True stream(3) that
        by (auto simp: fully_consumed_def sequence_floor_def opt_any_def split: option.splits)
      ultimately show ?thesis using scan_inv_skip [OF assms(9)] by simp
    next
      case scanned: False
      obtain x st1 where st1: "scan_exhausted st = (x, st1)" by (cases "scan_exhausted st")
      have inv1: "scan_inv c ?all known seen st1"
        using same_page_inv_forward [OF assms(9) scan_exhausted_same [OF st1]] .
      show ?thesis
      proof (cases x)
        case True
        then have "stop_or_fail c st1 = Inr fl"
          using assms(4) below scanned st1 by (auto simp: scan_segment_def)
        then show ?thesis using stop inv1 by blast
      next
        case x: False
        obtain f where f: "file_open d (sd_path seg) fs = Inr f"
          using assms(4,6) below scanned st1 x body(1)
          by (auto simp: scan_segment_def file_open_def stays_def split: option.splits if_splits)
        have data: "fl_data f = head @ concat recs"
          using f body(1) by (auto simp: file_open_def segment_file_def split: option.splits)
        obtain h off f1 where h: "read_segment_header env d (sd_path seg) f = (Inr (h, off), f1)"
          using assms(4) below scanned st1 x f
          by (auto simp: scan_segment_def split: sum.splits prod.splits if_splits)
        note head = read_header_front [OF assms(2) body(2) data h]
        obtain y st2 where
          st2: "scan_exhausted (st1\<lparr>qs_budget := add_bytes off (qs_budget st1)\<rparr>) = (y, st2)"
          by (cases "scan_exhausted (st1\<lparr>qs_budget := add_bytes off (qs_budget st1)\<rparr>)")
        have "same_page st1 st2"
          using scan_exhausted_same [OF st2] same_page_trans same_page_updates(1) by blast
        then have inv2: "scan_inv c ?all known seen st2" using inv1 by (simp add: same_page_inv)
        show ?thesis
        proof (cases y)
          case True
          then have "stop_or_fail c st2 = Inr fl"
            using assms(4) below scanned st1 x f h st2 by (auto simp: scan_segment_def)
          then show ?thesis using stop inv2 by blast
        next
          case False
          obtain f2 where f2: "file_seek d (sd_path seg) off f1 = (Inr (), f2)"
            "scan_records env c seg None f2 st2 = Inr fl"
            using assms(4,7) below scanned st1 x f h st2 False head(1)
            by (auto simp: scan_segment_def split: sum.splits prod.splits if_splits)
          have "fl_rest f2 = concat recs"
            using f2(1) head(2,3) data
            by (auto simp: file_seek_def fl_rest_def split: option.splits)
          from scan_records_step [OF assms(1,3) f2(2) body(3) this stream(1) assms(8) inv2]
          show ?thesis .
        qed
      qed
    qed
  qed
qed

section \<open>All segments\<close>

lemma list_all2_right: "list_all2 P xs ys \<Longrightarrow> y \<in> set ys \<Longrightarrow> \<exists>x \<in> set xs. P x y"
  by (induction rule: list_all2_induct) auto

lemma scan_segments_final:
  assumes "codec_ok (je_header env)" "codec_ok (je_segment env)" "unfiltered c"
  shows "scan_segments env d fs c seed segs st = Inr st' \<Longrightarrow> list_all2 (segment_holds env fs) segs ess \<Longrightarrow>
     (\<And>seg. seg \<in> set segs \<Longrightarrow> stays d seg \<and> sh_port (sd_header seg) = qc_port c) \<Longrightarrow>
     sorted_wrt (\<lambda>s s'. sh_first_seq (sd_header s) \<le> sh_first_seq (sd_header s')) segs \<Longrightarrow>
     retained c (seen @ concat ess) \<Longrightarrow> scan_inv c (seen @ concat ess) known seen st \<Longrightarrow>
     scan_final c (seen @ concat ess) known st'"
proof (induction segs arbitrary: ess seen st)
  case Nil
  then show ?case using inv_ends [of c seen "[]" known st] assms(3) by simp
next
  case (Cons seg segs)
  obtain es ess' where ess: "ess = es # ess'" "segment_holds env fs seg es"
    "list_all2 (segment_holds env fs) segs ess'"
    using Cons.prems(2) by (auto simp: list_all2_Cons1)
  obtain fl where fl: "scan_segment env d fs c seed seg st = Inr fl"
    "(case fl of Stop st \<Rightarrow> Inr st | Go st \<Rightarrow> scan_segments env d fs c seed segs st) = Inr st'"
    using Cons.prems(1) by (auto simp: res_simps)
  have later: "sh_first_seq (sd_header seg) \<le> ev_seq e" if e: "e \<in> set (concat ess')" for e
  proof -
    obtain es' where es': "es' \<in> set ess'" "e \<in> set es'" using e by auto
    then obtain seg' where "seg' \<in> set segs" "segment_holds env fs seg' es'"
      using list_all2_right [OF ess(3)] by blast
    then show ?thesis using es'(2) Cons.prems(4) by (fastforce simp: segment_holds_def)
  qed
  have step: "case fl of Go st' \<Rightarrow> scan_inv c (seen @ es @ concat ess') known (seen @ es) st'
      | Stop st' \<Rightarrow> scan_final c (seen @ es @ concat ess') known st'"
    by (rule scan_segment_step [OF assms fl(1) ess(2)]) (use Cons.prems ess(1) later in simp_all)
  show ?case
  proof (cases fl)
    case (Go st1)
    then show ?thesis
      using Cons.IH [of st1 ess' "seen @ es"] step fl(2) Cons.prems ess by simp
  next
    case (Stop st1)
    then show ?thesis using step fl(2) ess(1) by simp
  qed
qed

lemma scan_inv_initial:
  assumes "bounded_gaps known"
  shows "scan_inv c events known [] (initial_scan c known b)"
  using assms
  by (auto simp: scan_inv_def initial_scan_def reached_def gaps_right_def sequence_floor_def split: option.splits)

section \<open>The page\<close>

definition page_end :: "'j event_query_response \<Rightarrow> nat" where
  "page_end r = (case er_next_cursor r of None \<Rightarrow> 0 | Some cu \<Rightarrow> cu_after_seq cu)"

definition in_query_order :: "segment_descriptor list \<Rightarrow> segment_descriptor list" where
  "in_query_order segs = sort_key (\<lambda>s. (sh_first_seq (sd_header s), sh_segment_id (sd_header s))) segs"

lemma in_query_order_sorted:
  "sorted_wrt (\<lambda>s s'. sh_first_seq (sd_header s) \<le> sh_first_seq (sd_header s')) (in_query_order segs)"
proof -
  have "sorted_wrt (\<lambda>s s'. (sh_first_seq (sd_header s), sh_segment_id (sd_header s)) \<le>
      (sh_first_seq (sd_header s'), sh_segment_id (sd_header s'))) (in_query_order segs)"
    using sorted_sort_key [of "\<lambda>s. (sh_first_seq (sd_header s), sh_segment_id (sd_header s))" segs]
    by (simp add: in_query_order_def sorted_map)
  then show ?thesis by (rule sorted_wrt_mono_rel [rotated]) auto
qed

lemma leading_gap_gaps:
  assumes "leading_gap c first gaps = Inr gaps'" "bounded_gaps gaps" "sequence_ceiling c \<le> U64_MAX"
  shows "bounded_gaps gaps'" "gap_at e r n gaps \<Longrightarrow> gap_at e r n gaps'"
    "gap_at e r n gaps' \<Longrightarrow> gap_at e r n gaps \<or> (r = Retention \<and> opt_any (\<lambda>f. n < f) first)"
proof -
  let ?g = "\<lambda>after f. \<lparr>gr_epoch = qc_epoch c, gr_first_seq = saturating_add_u64 after 1,
      gr_last_seq = min (f - 1) (sequence_ceiling c), gr_reason = Retention\<rparr>"
  have "gaps' = gaps \<or> (\<exists>after f. first = Some f \<and> push_uncovered_gap (?g after f) gaps = Inr gaps' \<and>
      saturating_add_u64 after 1 < f)"
  proof (cases "eq_after_seq (qc_query c)")
    case None
    then show ?thesis using assms(1) by (simp add: leading_gap_def)
  next
    case (Some after)
    show ?thesis
    proof (cases first)
      case None
      then show ?thesis using assms(1) Some by (simp add: leading_gap_def)
    next
      case (Some f)
      with assms(1) \<open>eq_after_seq (qc_query c) = Some after\<close> show ?thesis
        unfolding leading_gap_def Let_def by (simp split: if_splits) blast
    qed
  qed
  then consider "gaps' = gaps"
    | after f where "first = Some f" "push_uncovered_gap (?g after f) gaps = Inr gaps'"
      "saturating_add_u64 after 1 < f"
    by blast
  then have "bounded_gaps gaps' \<and> (gap_at e r n gaps \<longrightarrow> gap_at e r n gaps') \<and>
      (gap_at e r n gaps' \<longrightarrow> gap_at e r n gaps \<or> (r = Retention \<and> opt_any (\<lambda>f. n < f) first))"
  proof cases
    case (2 after f)
    have "bounded_gaps (?g after f # gaps)"
      using assms(2,3) by (simp add: saturating_add_u64_def min.coboundedI2)
    from push_uncovered_exact [OF 2(2) this] 2(1,3) show ?thesis by (auto simp: in_gap_def)
  qed (use assms(2) in simp)
  then show "bounded_gaps gaps'" "gap_at e r n gaps \<Longrightarrow> gap_at e r n gaps'"
    "gap_at e r n gaps' \<Longrightarrow> gap_at e r n gaps \<or> (r = Retention \<and> opt_any (\<lambda>f. n < f) first)"
    by auto
qed

text \<open>What a response says when the scan of the segments ended right.\<close>

lemma finish_page_right:
  assumes "finish_page c first st = Inr resp" "scan_final c events known st" "unfiltered c"
    "opt_all (\<lambda>f. \<forall>e \<in> set events. f \<le> ev_seq e) first"
  shows "er_events resp = filter (\<lambda>e. in_scope c e \<and> ev_seq e \<le> page_end resp) events"
    "\<not> er_truncated resp \<Longrightarrow> er_events resp = filter (in_scope c) events"
    "\<And>n. sequence_floor c < n \<Longrightarrow> n \<le> page_end resp \<Longrightarrow>
       missing_at (qc_epoch c) n (er_gaps resp) \<or> n \<in> ev_seq ` set events"
    "\<And>e r n. gap_at e r n (er_gaps resp) \<Longrightarrow> gap_at e r n known \<or> n \<notin> ev_seq ` set events"
    "length (er_gaps resp) \<le> MAX_QUERY_GAPS"
proof -
  obtain gaps where gaps: "leading_gap c first (qs_gaps st) = Inr gaps" "er_gaps resp = merge_gap_ranges gaps"
    "length (er_gaps resp) \<le> MAX_QUERY_GAPS" "er_events resp = qs_events st"
    "er_truncated resp = qs_truncated st" "page_end resp = reached st"
    using assms(1)
    by (auto simp: finish_page_def Let_def res_simps page_end_def reached_def split: if_splits option.splits)
  obtain seen rest where final: "events = seen @ rest" "qs_events st = filter (in_scope c) seen"
    "\<forall>e \<in> set seen. ev_seq e \<le> reached st" "\<forall>e \<in> set rest. reached st < ev_seq e"
    "\<not> qs_truncated st \<longrightarrow> (\<forall>e \<in> set rest. sequence_ceiling c < ev_seq e)"
    "reached st \<le> qs_previous_contiguous st" "gaps_right c events known st"
    using assms(2) unfolding scan_final_def by blast
  have "filter (\<lambda>e. in_scope c e \<and> ev_seq e \<le> reached st) rest = []"
    using final(4) by (fastforce simp: filter_empty_conv)
  moreover have "filter (\<lambda>e. in_scope c e \<and> ev_seq e \<le> reached st) seen = filter (in_scope c) seen"
    using final(3) by (intro filter_cong) auto
  ultimately show "er_events resp = filter (\<lambda>e. in_scope c e \<and> ev_seq e \<le> page_end resp) events"
    by (simp add: gaps(4,6) final(1,2))
  show "er_events resp = filter (in_scope c) events" if "\<not> er_truncated resp"
  proof -
    have "filter (in_scope c) rest = []"
      using final(5) that gaps(5) by (fastforce simp: filter_empty_conv in_scope_def)
    then show ?thesis by (simp add: gaps(4) final(1,2))
  qed
  have ceiling: "sequence_ceiling c \<le> U64_MAX" using assms(3) by (simp add: unfiltered_def)
  have bounded: "bounded_gaps (qs_gaps st)" using final(7) by (simp add: gaps_right_def)
  note lead = leading_gap_gaps [OF gaps(1) bounded ceiling]
  show "missing_at (qc_epoch c) n (er_gaps resp) \<or> n \<in> ev_seq ` set events"
    if "sequence_floor c < n" "n \<le> page_end resp" for n
  proof -
    have "n \<le> qs_previous_contiguous st" using that(2) gaps(6) final(6) by simp
    then have "missing_at (qc_epoch c) n (qs_gaps st) \<or> n \<in> ev_seq ` set events"
      using final(7) that(1) unfolding gaps_right_def by blast
    then show ?thesis
      using lead(1,2) by (auto simp: missing_at_gap_at gaps(2) merge_keeps_gaps)
  qed
  show "gap_at e r n known \<or> n \<notin> ev_seq ` set events" if "gap_at e r n (er_gaps resp)" for e r n
  proof -
    have "gap_at e r n gaps" using that lead(1) by (simp add: gaps(2) merge_keeps_gaps)
    then consider "gap_at e r n (qs_gaps st)" | "opt_any (\<lambda>f. n < f) first" using lead(3) by blast
    then show ?thesis
    proof cases
      case 1
      then show ?thesis using final(7) unfolding gaps_right_def by blast
    next
      case 2
      then show ?thesis using assms(4) by (cases first) auto
    qed
  qed
  show "length (er_gaps resp) \<le> MAX_QUERY_GAPS" by (rule gaps(3))
qed

end
