(* ===== verification/JournalDiscovery.thy ===== *)
theory JournalDiscovery
  imports JournalFiles JournalQueryProps
begin

text \<open>
  How \<open>crates/seriald/src/journal.rs\<close> discovers the segments of a store: \<open>discover_segments\<close> for the
  writer, \<open>discover_segments_for_query\<close> under the budget of a query, and its fast path
  \<open>discover_epoch_segments_for_query\<close>, which skips what the names of sealed segments rule out. With
  it the whole query, \<open>query_files\<close>.
\<close>

section \<open>All segments\<close>

definition MAX_QUERY_SEGMENTS :: nat where "MAX_QUERY_SEGMENTS = 16384"

fun discover_each ::
  "'j journal_env \<Rightarrow> os \<Rightarrow> rstring option \<Rightarrow> files \<Rightarrow> path list \<Rightarrow> journal_error + segment_descriptor list" where
  "discover_each env d port fs [] = Inr []"
| "discover_each env d port fs (p # ps) =
     (if \<not> is_segment_name p then discover_each env d port fs ps
      else
        (case file_open d p fs of
           Inl e \<Rightarrow> if io_kind e = IoNotFound then discover_each env d port fs ps else Inl (JIo e)
         | Inr f \<Rightarrow>
             sbind (fst (read_segment_header env d p f)) (\<lambda>(header, _).
             if opt_any (\<lambda>expected. sh_port header \<noteq> expected) port
             then Inl (Corrupt p (lit ''segment is stored under the wrong slot directory''))
             else
               sbind (if is_sealed_name p then
                        Inr (case parse_sealed_last_seq p of
                               Some n \<Rightarrow> Some n
                             | None \<Rightarrow> (case scan_last_seq env d p fs of Inr r \<Rightarrow> r | Inl _ \<Rightarrow> None))
                      else scan_last_seq env d p fs) (\<lambda>last_seq.
               sbind (discover_each env d port fs ps) (\<lambda>later.
                 Inr (\<lparr>sd_header = header, sd_path = p, sd_last_seq = last_seq,
                        sd_sealed = is_sealed_name p\<rparr> # later))))))"

definition discover_segments ::
  "'j journal_env \<Rightarrow> os \<Rightarrow> rstring \<Rightarrow> rstring option \<Rightarrow> files \<Rightarrow> journal_error + segment_descriptor list" where
  "discover_segments env d root port fs =
     (let search_root = (case port of Some p \<Rightarrow> slot_dir root p | None \<Rightarrow> slots_root root)
      in if \<not> dir_exists search_root fs then Inr []
         else sbind (map_error JIo (collect_files d search_root None fs)) (discover_each env d port fs))"

section \<open>Under a budget\<close>

definition discovery_phase :: rstring where "discovery_phase = lit ''segment discovery''"

text \<open>The loop of \<open>scan_last_seq_for_query\<close>.\<close>

function scan_last_budget ::
  "'j journal_env \<Rightarrow> path \<Rightarrow> segment_header \<Rightarrow> nat option \<Rightarrow> file_handle \<Rightarrow> query_budget \<Rightarrow>
   journal_error + query_budget \<times> nat option" where
  "scan_last_budget env p h last_seq f b =
     sbind (ensure_available discovery_phase b) (\<lambda>b.
       (case read_record env f of
          (Inl e, _) \<Rightarrow> Inl e
        | (Inr r, f1) \<Rightarrow>
            sbind (charge (fl_pos f1 - fl_pos f) discovery_phase b) (\<lambda>b.
              (case r of
                 ReadEvent e \<Rightarrow>
                   if ev_port e = sh_port h \<and> ev_epoch e = sh_epoch h
                   then scan_last_budget env p h (Some (ev_seq e)) f1 b
                   else Inl (Corrupt p (lit ''record identity does not match segment''))
               | ReadEof \<Rightarrow> Inr (b, last_seq)
               | ReadInvalid _ \<Rightarrow> Inr (b, last_seq)))))"
  by auto
termination
  by (relation "measure (\<lambda>(env, p, h, seen, f, b). length (fl_rest f))")
    (auto dest: sym [of _ "read_record _ _"] intro: read_event_shrinks)

declare scan_last_budget.simps [simp del]

definition scan_last_seq_for_query ::
  "'j journal_env \<Rightarrow> os \<Rightarrow> path \<Rightarrow> segment_header \<Rightarrow> nat \<Rightarrow> file_handle \<Rightarrow> query_budget \<Rightarrow>
   journal_error + query_budget \<times> nat option" where
  "scan_last_seq_for_query env d p h data_offset f b =
     (case file_seek d p data_offset f of
        (Inl e, _) \<Rightarrow> Inl (JIo e)
      | (Inr _, f) \<Rightarrow> scan_last_budget env p h None f b)"

text \<open>
  One file of the walk over all epochs: \<open>None\<close> when it is no segment. \<open>found\<close> is the number of
  segments found before it.
\<close>

definition discover_file ::
  "'j journal_env \<Rightarrow> os \<Rightarrow> rstring \<Rightarrow> files \<Rightarrow> path \<Rightarrow> nat \<Rightarrow> query_budget \<Rightarrow>
   journal_error + query_budget \<times> segment_descriptor option" where
  "discover_file env d port fs p found b =
     sbind (map_error JIo (fs_call_ok d (FsDirEntry p))) (\<lambda>_.
     sbind (map_error JIo (fs_file_type d p fs)) (\<lambda>is_file.
       if \<not> is_file \<or> \<not> is_segment_name p then Inr (b, None)
       else if found \<ge> MAX_QUERY_SEGMENTS then Inl (TooManyQuerySegments MAX_QUERY_SEGMENTS)
       else
         (case file_open d p fs of
            Inl e \<Rightarrow> if io_kind e = IoNotFound then Inr (b, None) else Inl (JIo e)
          | Inr f \<Rightarrow>
              (case read_segment_header env d p f of
                 (Inl e, _) \<Rightarrow> Inl e
               | (Inr (header, data_offset), f) \<Rightarrow>
                   sbind (charge data_offset discovery_phase b) (\<lambda>b.
                   if sh_port header \<noteq> port
                   then Inl (Corrupt p (lit ''segment is stored under the wrong slot directory''))
                   else
                     sbind (case (if is_sealed_name p then parse_sealed_last_seq p else None) of
                              Some n \<Rightarrow> Inr (b, Some n)
                            | None \<Rightarrow> scan_last_seq_for_query env d p header data_offset f b)
                       (\<lambda>(b, last_seq).
                         Inr (b, Some \<lparr>sd_header = header, sd_path = p, sd_last_seq = last_seq,
                                       sd_sealed = is_sealed_name p\<rparr>)))))))"

fun discover_dir_entries ::
  "'j journal_env \<Rightarrow> os \<Rightarrow> rstring \<Rightarrow> files \<Rightarrow> (rstring + path) list \<Rightarrow>
   segment_descriptor list \<Rightarrow> query_budget \<Rightarrow> journal_error + query_budget \<times> segment_descriptor list" where
  "discover_dir_entries env d port fs [] found b = Inr (b, found)"
| "discover_dir_entries env d port fs (Inl dir # entries) found b =
     sbind (ensure_available discovery_phase b) (discover_dir_entries env d port fs entries found)"
| "discover_dir_entries env d port fs (Inr p # entries) found b =
     sbind (ensure_available discovery_phase b) (\<lambda>b.
     sbind (discover_file env d port fs p (length found) b) (\<lambda>(b, r).
       discover_dir_entries env d port fs entries (case r of None \<Rightarrow> found | Some s \<Rightarrow> found @ [s]) b))"

fun discover_dirs ::
  "'j journal_env \<Rightarrow> os \<Rightarrow> rstring \<Rightarrow> files \<Rightarrow> rstring list \<Rightarrow> nat \<Rightarrow> segment_descriptor list \<Rightarrow>
   query_budget \<Rightarrow> journal_error + query_budget \<times> segment_descriptor list" where
  "discover_dirs env d port fs [] visited found b = Inr (b, found)"
| "discover_dirs env d port fs (dir # dirs) visited found b =
     sbind (ensure_available discovery_phase b) (\<lambda>b.
       if visited + 1 > 2 * MAX_QUERY_SEGMENTS then Inl (TooManyQuerySegments MAX_QUERY_SEGMENTS)
       else sbind (map_error JIo (fs_call_ok d (FsReadDir dir))) (\<lambda>_.
            sbind (discover_dir_entries env d port fs (dir_entries dir fs) found b) (\<lambda>(b, found).
              discover_dirs env d port fs dirs (visited + 1) found b)))"

section \<open>One epoch\<close>

definition lower_first :: "nat option \<Rightarrow> nat \<Rightarrow> nat option" where
  "lower_first first n = Some (case first of None \<Rightarrow> n | Some current \<Rightarrow> min current n)"

text \<open>What the names tell: the candidates, the segment that seeds a search, the first sequence number.\<close>

record candidates =
  ca_paths :: "path list"
  ca_seed :: "(nat \<times> nat \<times> path) option"
  ca_first :: "nat option"

definition consider_name :: "query_scope \<Rightarrow> path \<Rightarrow> candidates \<Rightarrow> candidates" where
  "consider_name c p k =
     (case (if is_sealed_name p then parse_sealed_seq_range p else None) of
        Some (first_seq, last_seq) \<Rightarrow>
          (let k = k\<lparr>ca_first := lower_first (ca_first k) first_seq\<rparr>
           in if first_seq > sequence_ceiling c then k
              else if last_seq \<le> sequence_floor c then
                (if (eq_contains (qc_query c) \<noteq> None \<or> eq_regex (qc_query c) \<noteq> None) \<and>
                    (case ca_seed k of
                       None \<Rightarrow> True
                     | Some (seed_last, seed_first, _) \<Rightarrow> (last_seq, first_seq) > (seed_last, seed_first))
                 then k\<lparr>ca_seed := Some (last_seq, first_seq, p)\<rparr> else k)
              else k\<lparr>ca_paths := ca_paths k @ [p]\<rparr>)
      | None \<Rightarrow>
          (case parse_segment_first_seq p of
             Some first_seq \<Rightarrow>
               (let k = k\<lparr>ca_first := lower_first (ca_first k) first_seq\<rparr>
                in if first_seq > sequence_ceiling c then k else k\<lparr>ca_paths := ca_paths k @ [p]\<rparr>)
           | None \<Rightarrow> k\<lparr>ca_paths := ca_paths k @ [p]\<rparr>))"

fun gather_candidates ::
  "os \<Rightarrow> query_scope \<Rightarrow> files \<Rightarrow> (rstring + path) list \<Rightarrow> candidates \<Rightarrow> query_budget \<Rightarrow>
   journal_error + query_budget \<times> candidates" where
  "gather_candidates d c fs [] k b = Inr (b, k)"
| "gather_candidates d c fs (Inl dir # entries) k b =
     sbind (ensure_available discovery_phase b) (gather_candidates d c fs entries k)"
| "gather_candidates d c fs (Inr p # entries) k b =
     sbind (ensure_available discovery_phase b) (\<lambda>b.
     sbind (map_error JIo (fs_call_ok d (FsDirEntry p))) (\<lambda>_.
     sbind (map_error JIo (fs_file_type d p fs)) (\<lambda>is_file.
       gather_candidates d c fs entries
         (if is_file \<and> is_segment_name p then consider_name c p k else k) b)))"

definition candidate_paths :: "candidates \<Rightarrow> path list" where
  "candidate_paths k = ca_paths k @ (case ca_seed k of None \<Rightarrow> [] | Some (_, _, p) \<Rightarrow> [p])"

fun open_candidates ::
  "'j journal_env \<Rightarrow> os \<Rightarrow> query_scope \<Rightarrow> files \<Rightarrow> path list \<Rightarrow> nat option \<Rightarrow> query_budget \<Rightarrow>
   journal_error + query_budget \<times> nat option \<times> segment_descriptor list" where
  "open_candidates env d c fs [] first b = Inr (b, first, [])"
| "open_candidates env d c fs (p # ps) first b =
     sbind (ensure_available discovery_phase b) (\<lambda>b.
       (case file_open d p fs of
          Inl e \<Rightarrow> if io_kind e = IoNotFound then open_candidates env d c fs ps first b else Inl (JIo e)
        | Inr f \<Rightarrow>
            (case read_segment_header env d p f of
               (Inl e, _) \<Rightarrow> Inl e
             | (Inr (header, data_offset), f) \<Rightarrow>
                 sbind (charge data_offset discovery_phase b) (\<lambda>b.
                 if sh_port header \<noteq> qc_port c \<or> sh_epoch header \<noteq> qc_epoch c
                 then Inl (Corrupt p (lit ''segment is stored under the wrong slot or epoch directory''))
                 else
                   sbind (case (if is_sealed_name p then parse_sealed_seq_range p else None) of
                            Some (first_seq, l) \<Rightarrow>
                              if first_seq = sh_first_seq header \<and> l \<ge> first_seq then Inr (b, Some l)
                              else scan_last_seq_for_query env d p header data_offset f b
                          | None \<Rightarrow> scan_last_seq_for_query env d p header data_offset f b)
                     (\<lambda>(b, last_seq).
                   sbind (open_candidates env d c fs ps (lower_first first (sh_first_seq header)) b)
                     (\<lambda>(b, first, later).
                       Inr (b, first, \<lparr>sd_header = header, sd_path = p, sd_last_seq = last_seq,
                                       sd_sealed = is_sealed_name p\<rparr> # later)))))))"

definition discover_epoch_segments_for_query ::
  "'j journal_env \<Rightarrow> os \<Rightarrow> rstring \<Rightarrow> files \<Rightarrow> query_scope \<Rightarrow> query_budget \<Rightarrow>
   journal_error + query_budget \<times> nat option \<times> segment_descriptor list" where
  "discover_epoch_segments_for_query env d root fs c b =
     (let directory = epoch_dir env root (qc_port c) (qc_epoch c)
      in if \<not> dir_exists directory fs then Inr (b, None, [])
         else
           sbind (map_error JIo (fs_call_ok d (FsReadDir directory))) (\<lambda>_.
           sbind (gather_candidates d c fs (dir_entries directory fs)
                    \<lparr>ca_paths = [], ca_seed = None, ca_first = None\<rparr> b) (\<lambda>(b, k).
             if length (candidate_paths k) > MAX_QUERY_SEGMENTS
             then Inl (TooManyQuerySegments MAX_QUERY_SEGMENTS)
             else open_candidates env d c fs (candidate_paths k) (ca_first k) b)))"

text \<open>The scope carries the epoch of the query when it names one.\<close>

definition discover_segments_for_query ::
  "'j journal_env \<Rightarrow> os \<Rightarrow> rstring \<Rightarrow> files \<Rightarrow> rstring \<Rightarrow> event_query \<Rightarrow> query_budget \<Rightarrow>
   journal_error + query_budget \<times> nat option \<times> segment_descriptor list" where
  "discover_segments_for_query env d root fs port q b =
     (case eq_epoch q of
        Some epoch \<Rightarrow>
          discover_epoch_segments_for_query env d root fs
            \<lparr>qc_query = q, qc_port = port, qc_epoch = epoch, qc_expression = None\<rparr> b
      | None \<Rightarrow>
          (let search_root = slot_dir root port
           in if \<not> dir_exists search_root fs then Inr (b, None, [])
              else sbind (discover_dirs env d port fs (tree_dirs search_root fs) 0 [] b) (\<lambda>(b, found).
                     Inr (b, None, found))))"

section \<open>The whole query\<close>

definition select_epoch ::
  "'j journal_env \<Rightarrow> os \<Rightarrow> rstring \<Rightarrow> files \<Rightarrow> rstring \<Rightarrow> event_query \<Rightarrow> segment_descriptor list \<Rightarrow>
   query_budget \<Rightarrow> journal_error + query_budget \<times> uuid option" where
  "select_epoch env d root fs port q descriptors b =
     (case (case eq_epoch q of
              Some e \<Rightarrow> Some e
            | None \<Rightarrow>
                map_option (\<lambda>s. sh_epoch (sd_header s))
                  (max_by_key (\<lambda>s. (sh_created_wall_time_ns (sd_header s), sh_first_seq (sd_header s),
                                     sh_segment_id (sd_header s))) descriptors)) of
        Some e \<Rightarrow> Inr (b, Some e)
      | None \<Rightarrow> find_latest_gap_epoch env d root fs port b)"

definition query_files ::
  "'j journal_env \<Rightarrow> (rstring \<Rightarrow> rstring + expression) \<Rightarrow> os \<Rightarrow> rstring \<Rightarrow> files \<Rightarrow> rstring \<Rightarrow> event_query \<Rightarrow>
   query_budget \<Rightarrow> journal_error + 'j event_query_response" where
  "query_files env regex d root fs port q b =
     sbind (validate_query q) (\<lambda>_.
     sbind (query_expression regex q) (\<lambda>expression.
     sbind (discover_segments_for_query env d root fs port q b) (\<lambda>(b, discovered_first, descriptors).
     sbind (select_epoch env d root fs port q descriptors b) (\<lambda>(b, selected).
       (case selected of
          Some epoch \<Rightarrow>
            query_epoch env d root fs
              \<lparr>qc_query = q, qc_port = port, qc_epoch = epoch, qc_expression = expression\<rparr>
              (filter (\<lambda>s. sh_epoch (sd_header s) = epoch) descriptors) discovered_first b
        | None \<Rightarrow>
            Inr \<lparr>er_events = [], er_next_cursor = None, er_truncated = False,
                 er_first_available_seq = discovered_first, er_gaps = []\<rparr>)))))"

end
