(* ===== verification/JournalStore.thy ===== *)
theory JournalStore
  imports JournalDiscovery
begin

text \<open>
  The abstract content of a journal, the log of one stream (a port and a daemon epoch): the segments
  in its directory and the events they hold. Discovery finds every segment that a page may need, so
  that a page of \<open>query_files\<close> is complete with respect to the whole log.
\<close>

section \<open>The log of a stream\<close>

definition named_in :: "'j journal_env \<Rightarrow> rstring \<Rightarrow> rstring \<Rightarrow> uuid \<Rightarrow> segment_descriptor \<Rightarrow> bool" where
  "named_in env root port epoch seg \<longleftrightarrow>
     (let h = sd_header seg
      in sh_port h = port \<and> sh_epoch h = epoch \<and> sh_first_seq h \<le> U64_MAX \<and>
         fst (sd_path seg) = epoch_dir env root port epoch \<and>
         snd (sd_path seg) =
           (if sd_sealed seg then snd (sealed_path env (sd_path seg) h (the (sd_last_seq seg))) else open_name env h) \<and>
         (sd_sealed seg \<longrightarrow> opt_any (\<lambda>l. sh_first_seq h \<le> l \<and> l \<le> U64_MAX) (sd_last_seq seg)))"

definition stored_segment ::
  "'j journal_env \<Rightarrow> rstring \<Rightarrow> files \<Rightarrow> rstring \<Rightarrow> uuid \<Rightarrow> segment_descriptor \<Rightarrow> 'j timeline_event list \<Rightarrow> bool" where
  "stored_segment env root fs port epoch seg es \<longleftrightarrow>
     segment_holds env fs seg es \<and> named_in env root port epoch seg \<and>
     (\<not> sd_sealed seg \<longrightarrow> sd_last_seq seg = last_seq_of es None)"

definition is_regular :: "files \<Rightarrow> path \<Rightarrow> bool" where
  "is_regular fs p \<longleftrightarrow> (\<exists>bs. bt_get fs p = Some (Regular bs))"

definition stream_store ::
  "'j journal_env \<Rightarrow> rstring \<Rightarrow> files \<Rightarrow> rstring \<Rightarrow> uuid \<Rightarrow> segment_descriptor list \<Rightarrow>
   'j timeline_event list list \<Rightarrow> bool" where
  "stream_store env root fs port epoch segs ess \<longleftrightarrow>
     list_all2 (stored_segment env root fs port epoch) segs ess \<and>
     sorted_wrt (\<lambda>s s'. sh_first_seq (sd_header s) < sh_first_seq (sd_header s')) segs \<and>
     (\<forall>p. fst p = epoch_dir env root port epoch \<and> is_segment_name p \<and> is_regular fs p \<longrightarrow>
        p \<in> sd_path ` set segs)"

lemma named_in_names:
  assumes "named_in env root port epoch seg"
  shows "is_sealed_name (sd_path seg) = sd_sealed seg" "is_segment_name (sd_path seg)"
    "sd_sealed seg \<Longrightarrow> parse_sealed_seq_range (sd_path seg) =
       Some (sh_first_seq (sd_header seg), the (sd_last_seq seg))"
    "\<not> sd_sealed seg \<Longrightarrow> parse_segment_first_seq (sd_path seg) = Some (sh_first_seq (sd_header seg))"
proof -
  let ?h = "sd_header seg" and ?dir = "epoch_dir env root port epoch"
  have first: "sh_first_seq ?h \<le> U64_MAX" using assms by (simp add: named_in_def Let_def)
  have "is_sealed_name (sd_path seg) = sd_sealed seg \<and> is_segment_name (sd_path seg) \<and>
    (sd_sealed seg \<longrightarrow> parse_sealed_seq_range (sd_path seg) = Some (sh_first_seq ?h, the (sd_last_seq seg))) \<and>
    (\<not> sd_sealed seg \<longrightarrow> parse_segment_first_seq (sd_path seg) = Some (sh_first_seq ?h))"
  proof (cases "sd_sealed seg")
    case True
    then obtain l where l: "sd_last_seq seg = Some l" "l \<le> U64_MAX"
      using assms by (cases "sd_last_seq seg") (auto simp: named_in_def Let_def)
    then have "sd_path seg = (?dir, snd (sealed_path env (sd_path seg) ?h l))"
      using assms True by (simp add: named_in_def Let_def prod_eq_iff)
    then have "\<exists>p. sd_path seg = (?dir, snd (sealed_path env p ?h l))" by blast
    then obtain p where p: "sd_path seg = (?dir, snd (sealed_path env p ?h l))" by blast
    with sealed_name_announces [OF first l(2), where env = env and dir = ?dir] show ?thesis
      using True l(1) by (simp add: is_segment_name_def)
  next
    case False
    then have "sd_path seg = (?dir, open_name env ?h)"
      using assms by (simp add: named_in_def Let_def prod_eq_iff)
    with False open_name_announces [OF first, where env = env and dir = ?dir] show ?thesis by simp
  qed
  then show "is_sealed_name (sd_path seg) = sd_sealed seg" "is_segment_name (sd_path seg)"
    "sd_sealed seg \<Longrightarrow> parse_sealed_seq_range (sd_path seg) = Some (sh_first_seq ?h, the (sd_last_seq seg))"
    "\<not> sd_sealed seg \<Longrightarrow> parse_segment_first_seq (sd_path seg) = Some (sh_first_seq ?h)"
    by blast+
qed

section \<open>Candidates\<close>

definition at_most :: "nat option \<Rightarrow> nat \<Rightarrow> bool" where
  "at_most f n \<longleftrightarrow> opt_any (\<lambda>m. m \<le> n) f"

lemma at_most_simps [simp]:
  "\<not> at_most None n" "at_most (Some m) n \<longleftrightarrow> m \<le> n"
  "at_most (lower_first f m) n \<longleftrightarrow> at_most f n \<or> m \<le> n"
  by (auto simp: at_most_def lower_first_def split: option.splits)

text \<open>What the name of a segment rules out.\<close>

definition skipped :: "query_scope \<Rightarrow> segment_descriptor \<Rightarrow> bool" where
  "skipped c seg \<longleftrightarrow> sh_first_seq (sd_header seg) > sequence_ceiling c \<or>
     (sd_sealed seg \<and> the (sd_last_seq seg) \<le> sequence_floor c)"

lemma consider_cases:
  assumes "named_in env root port epoch seg" "consider_name c (sd_path seg) k = k'"
  shows "ca_first k' = lower_first (ca_first k) (sh_first_seq (sd_header seg))"
    "ca_paths k' = (if skipped c seg then ca_paths k else ca_paths k @ [sd_path seg])"
    "ca_seed k' = ca_seed k \<or> (skipped c seg \<and> (\<exists>l n. ca_seed k' = Some (l, n, sd_path seg)))"
  using assms(2) named_in_names [OF assms(1)]
  by (cases "sd_sealed seg"; auto simp: consider_name_def Let_def skipped_def split: if_splits option.splits)+

definition entry_files :: "(rstring + path) list \<Rightarrow> path list" where
  "entry_files entries = concat (map (case_sum (\<lambda>_. []) (\<lambda>p. [p])) entries)"

lemma entry_files_simps [simp]:
  "entry_files [] = []" "entry_files (Inl x # entries) = entry_files entries"
  "entry_files (Inr p # entries) = p # entry_files entries"
  by (simp_all add: entry_files_def)

lemma entry_files_dir: "entry_files (dir_entries dir fs) = filter (\<lambda>p. fst p = dir) (bt_keys fs)"
proof -
  have "entry_files (map Inl ds @ entries) = entry_files entries" for ds entries
    by (induction ds) auto
  moreover have "entry_files (map Inr ps) = ps" for ps by (induction ps) auto
  ultimately show ?thesis by (simp add: dir_entries_def)
qed

lemma gather_folds:
  "gather_candidates d c fs entries k b = Inr (b', k') \<Longrightarrow>
   k' = fold (consider_name c) (filter (\<lambda>p. is_regular fs p \<and> is_segment_name p) (entry_files entries)) k"
proof (induction entries arbitrary: k b)
  case (Cons entry entries)
  show ?case
  proof (cases entry)
    case (Inl dir)
    with Cons show ?thesis by (auto simp: res_simps)
  next
    case (Inr p)
    with Cons.prems have "fs_file_type d p fs \<noteq> Inl e" for e by (auto simp: res_simps)
    then have "fs_file_type d p fs = Inr (is_regular fs p)"
      by (cases "os_fault d (FsFileType p)")
        (auto simp: fs_file_type_def is_regular_def split: option.splits node.splits)
    with Inr Cons.prems obtain b1 where "gather_candidates d c fs entries
        (if is_regular fs p \<and> is_segment_name p then consider_name c p k else k) b1 = Inr (b', k')"
      by (auto simp: res_simps)
    from Cons.IH [OF this] Inr show ?thesis by simp
  qed
qed simp

lemma fold_candidates:
  assumes "\<And>p. p \<in> set ps \<Longrightarrow> \<exists>seg \<in> set segs. sd_path seg = p \<and> named_in env root port epoch seg"
    "distinct (map sd_path segs)"
  shows "ca_paths (fold (consider_name c) ps k) =
      ca_paths k @ filter (\<lambda>p. \<exists>seg \<in> set segs. sd_path seg = p \<and> \<not> skipped c seg) ps"
    "\<And>l n p. ca_seed (fold (consider_name c) ps k) = Some (l, n, p) \<Longrightarrow>
       ca_seed k = Some (l, n, p) \<or> (\<exists>seg \<in> set segs. sd_path seg = p \<and> p \<in> set ps \<and> skipped c seg)"
    "at_most (ca_first (fold (consider_name c) ps k)) n \<longleftrightarrow> at_most (ca_first k) n \<or>
       (\<exists>seg \<in> set segs. sd_path seg \<in> set ps \<and> sh_first_seq (sd_header seg) \<le> n)"
proof -
  have "ca_paths (fold (consider_name c) ps k) =
      ca_paths k @ filter (\<lambda>p. \<exists>seg \<in> set segs. sd_path seg = p \<and> \<not> skipped c seg) ps \<and>
    (\<forall>l n p. ca_seed (fold (consider_name c) ps k) = Some (l, n, p) \<longrightarrow>
       ca_seed k = Some (l, n, p) \<or> (\<exists>seg \<in> set segs. sd_path seg = p \<and> p \<in> set ps \<and> skipped c seg)) \<and>
    (\<forall>n. at_most (ca_first (fold (consider_name c) ps k)) n \<longleftrightarrow> at_most (ca_first k) n \<or>
       (\<exists>seg \<in> set segs. sd_path seg \<in> set ps \<and> sh_first_seq (sd_header seg) \<le> n))"
    using assms(1)
  proof (induction ps arbitrary: k)
    case Nil
    show ?case by (cases "ca_first k") auto
  next
    case (Cons p ps)
    obtain seg where seg: "seg \<in> set segs" "sd_path seg = p" "named_in env root port epoch seg"
      using Cons.prems [OF list.set_intros(1)] by blast
    have unique: "s = seg" if "s \<in> set segs" "sd_path s = p" for s
      using that seg(1,2) assms(2) by (auto simp: distinct_map dest: inj_onD)
    define k1 where "k1 = consider_name c p k"
    note step = consider_cases [OF seg(3), of c k k1, unfolded seg(2), OF k1_def [symmetric]]
    note IH = Cons.IH [of k1, OF Cons.prems [OF list.set_intros(2)]]
    have paths: "ca_paths (fold (consider_name c) ps k1) =
        ca_paths k @ filter (\<lambda>p. \<exists>seg \<in> set segs. sd_path seg = p \<and> \<not> skipped c seg) (p # ps)"
    proof -
      have "(\<exists>seg' \<in> set segs. sd_path seg' = p \<and> \<not> skipped c seg') \<longleftrightarrow> \<not> skipped c seg"
        using seg(1,2) unique by blast
      then show ?thesis using IH [THEN conjunct1] step(2) by simp
    qed
    have seeds: "ca_seed k = Some (l, n, q) \<or>
        (\<exists>seg \<in> set segs. sd_path seg = q \<and> q \<in> set (p # ps) \<and> skipped c seg)"
      if "ca_seed (fold (consider_name c) ps k1) = Some (l, n, q)" for l n q
    proof -
      from that IH have "ca_seed k1 = Some (l, n, q) \<or>
          (\<exists>seg \<in> set segs. sd_path seg = q \<and> q \<in> set ps \<and> skipped c seg)" by blast
      then show ?thesis
      proof
        assume "ca_seed k1 = Some (l, n, q)"
        with step(3) have "ca_seed k = Some (l, n, q) \<or> (skipped c seg \<and> q = p)" by auto
        then show ?thesis using seg(1,2) by auto
      qed (auto simp del: split_paired_Ex)
    qed
    have firsts: "at_most (ca_first (fold (consider_name c) ps k1)) n \<longleftrightarrow> at_most (ca_first k) n \<or>
        (\<exists>seg \<in> set segs. sd_path seg \<in> set (p # ps) \<and> sh_first_seq (sd_header seg) \<le> n)" for n
    proof -
      have "at_most (ca_first (fold (consider_name c) ps k1)) n \<longleftrightarrow> at_most (ca_first k1) n \<or>
          (\<exists>seg \<in> set segs. sd_path seg \<in> set ps \<and> sh_first_seq (sd_header seg) \<le> n)"
        using IH [THEN conjunct2, THEN conjunct2] by blast
      moreover have "(\<exists>s \<in> set segs. sd_path s \<in> set (p # ps) \<and> sh_first_seq (sd_header s) \<le> n) \<longleftrightarrow>
          sh_first_seq (sd_header seg) \<le> n \<or>
          (\<exists>s \<in> set segs. sd_path s \<in> set ps \<and> sh_first_seq (sd_header s) \<le> n)"
        using seg(1,2) unique by (metis list.set_intros(1,2) set_ConsD)
      ultimately show ?thesis using step(1) by auto
    qed
    show ?case using paths seeds firsts by (simp add: k1_def)
  qed
  then show "ca_paths (fold (consider_name c) ps k) =
      ca_paths k @ filter (\<lambda>p. \<exists>seg \<in> set segs. sd_path seg = p \<and> \<not> skipped c seg) ps"
    "\<And>l n p. ca_seed (fold (consider_name c) ps k) = Some (l, n, p) \<Longrightarrow>
       ca_seed k = Some (l, n, p) \<or> (\<exists>seg \<in> set segs. sd_path seg = p \<and> p \<in> set ps \<and> skipped c seg)"
    "at_most (ca_first (fold (consider_name c) ps k)) n \<longleftrightarrow> at_most (ca_first k) n \<or>
       (\<exists>seg \<in> set segs. sd_path seg \<in> set ps \<and> sh_first_seq (sd_header seg) \<le> n)"
    by blast+
qed

section \<open>Opening them\<close>

lemma scan_last_budget_finds:
  assumes "codec_ok (je_header env)"
  shows "scan_last_budget env p h seen f b = Inr (b', r) \<Longrightarrow> records_of env es recs \<Longrightarrow>
     fl_rest f = concat recs \<Longrightarrow> in_stream h previous es \<Longrightarrow> r = last_seq_of es seen"
proof (induction es arbitrary: seen f b recs previous)
  case Nil
  then have rest: "fl_rest f = []" by (auto simp: records_of_def)
  obtain x f' where rd: "read_record env f = (Inr x, f')"
    using Nil.prems(1) by (auto simp: scan_last_budget.simps [of env p h seen f b] res_simps split: prod.splits sum.splits)
  then have "x = ReadEof" using read_at_end rest by blast
  with rd Nil.prems(1) show ?case
    by (auto simp: scan_last_budget.simps [of env p h seen f b] res_simps last_seq_of_def)
next
  case (Cons e es)
  obtain bs recs' where recs: "recs = bs # recs'" "encode_record env e = Inr bs" "records_of env es recs'"
    using Cons.prems(2) by (auto simp: records_of_def list_all2_Cons1)
  have fresh: "ev_port e = sh_port h" "ev_epoch e = sh_epoch h" "ev_durable e" "in_stream h (ev_seq e) es"
    using Cons.prems(4) by auto
  obtain x f' where rd: "read_record env f = (Inr x, f')"
    using Cons.prems(1) by (auto simp: scan_last_budget.simps [of env p h seen f b] res_simps split: prod.splits sum.splits)
  have rest: "fl_rest f = bs @ concat recs'" using Cons.prems(3) recs(1) by simp
  note here = read_encoded [OF assms recs(2) fresh(3) rd rest]
  obtain b1 where "scan_last_budget env p h (Some (ev_seq e)) f' b1 = Inr (b', r)"
    using Cons.prems(1) rd here(1) fresh
    by (auto simp: scan_last_budget.simps [of env p h seen f b] res_simps split: prod.splits)
  from Cons.IH [OF this recs(3) _ fresh(4)] here(2) show ?case
    by (simp add: last_seq_of_def)
qed

lemma stored_last:
  assumes "stored_segment env root fs port epoch seg es" "sd_sealed seg"
  shows "sd_last_seq seg = Some (the (sd_last_seq seg))"
    "sh_first_seq (sd_header seg) \<le> the (sd_last_seq seg)"
  using assms by (cases "sd_last_seq seg"; simp add: stored_segment_def named_in_def Let_def)+

lemma open_candidates_find:
  assumes "codec_ok (je_header env)" "codec_ok (je_segment env)"
    "\<And>seg. seg \<in> set segs \<Longrightarrow> (\<exists>es. stored_segment env root fs (qc_port c) (qc_epoch c) seg es) \<and> stays d seg"
  shows "open_candidates env d c fs ps first b = Inr (b', first', found) \<Longrightarrow>
     set ps \<subseteq> sd_path ` set segs \<Longrightarrow>
     list_all2 (\<lambda>p s. s \<in> set segs \<and> sd_path s = p) ps found \<and>
     (\<forall>n. at_most first' n \<longleftrightarrow> at_most first n \<or> (\<exists>s \<in> set found. sh_first_seq (sd_header s) \<le> n))"
proof (induction ps arbitrary: first b found)
  case Nil
  then show ?case by auto
next
  case (Cons p ps)
  obtain seg where seg: "seg \<in> set segs" "sd_path seg = p" using Cons.prems(2) by auto
  obtain es where es: "stored_segment env root fs (qc_port c) (qc_epoch c) seg es" "stays d seg"
    using assms(3) [OF seg(1)] by blast
  then have named: "named_in env root (qc_port c) (qc_epoch c) seg" by (simp add: stored_segment_def)
  obtain head recs where body: "bt_get fs p = Some (Regular (head @ concat recs))"
    "segment_bytes env (sd_header seg) head" "records_of env es recs" "in_stream (sd_header seg) 0 es"
    using es(1) seg(2) by (auto simp: stored_segment_def segment_holds_def segment_file_def)
  obtain f where f: "file_open d p fs = Inr f" "fl_data f = head @ concat recs"
    using Cons.prems(1) es(2) seg(2) body(1)
    by (auto simp: file_open_def stays_def res_simps split: option.splits if_splits)
  obtain h off f1 where h: "read_segment_header env d p f = (Inr (h, off), f1)"
    using Cons.prems(1) f(1) by (auto simp: res_simps split: sum.splits prod.splits)
  note header = read_header_front [OF assms(2) body(2) f(2) h]
  obtain b1 b2 r where scanned:
    "(case (if is_sealed_name p then parse_sealed_seq_range p else None) of
        Some (first_seq, l) \<Rightarrow>
          if first_seq = sh_first_seq h \<and> l \<ge> first_seq then Inr (b1, Some l)
          else scan_last_seq_for_query env d p h off f1 b1
      | None \<Rightarrow> scan_last_seq_for_query env d p h off f1 b1) = Inr (b2, r)"
    and later: "\<exists>found'. open_candidates env d c fs ps (lower_first first (sh_first_seq h)) b2 = Inr (b', first', found')
      \<and> found = \<lparr>sd_header = h, sd_path = p, sd_last_seq = r, sd_sealed = is_sealed_name p\<rparr> # found'"
    using Cons.prems(1) f(1) h by (auto simp: res_simps split: if_splits)
  have r: "r = sd_last_seq seg"
  proof (cases "sd_sealed seg")
    case True
    with scanned named_in_names [OF named] seg(2) header(1) stored_last [OF es(1)] show ?thesis by auto
  next
    case False
    then have "scan_last_seq_for_query env d p h off f1 b1 = Inr (b2, r)"
      using scanned named_in_names(1) [OF named] seg(2) by simp
    then obtain f2 where f2: "file_seek d p off f1 = (Inr (), f2)" "scan_last_budget env p h None f2 b1 = Inr (b2, r)"
      by (auto simp: scan_last_seq_for_query_def split: prod.splits sum.splits)
    then have "fl_rest f2 = concat recs"
      using header(2,3) f(2) by (auto simp: file_seek_def fl_rest_def split: option.splits)
    from scan_last_budget_finds [OF assms(1) f2(2) body(3) this] header(1) body(4) False es(1)
    show ?thesis by (simp add: stored_segment_def)
  qed
  obtain found' where rest: "open_candidates env d c fs ps (lower_first first (sh_first_seq h)) b2 =
      Inr (b', first', found')"
    "found = \<lparr>sd_header = h, sd_path = p, sd_last_seq = r, sd_sealed = is_sealed_name p\<rparr> # found'"
    using later by blast
  then have "found = seg # found'"
    using header(1) r named_in_names(1) [OF named] seg(2) by simp
  then show ?case
    using Cons.IH [OF rest(1)] Cons.prems(2) seg header(1) by auto
qed

section \<open>Discovery\<close>

lemma list_all2_left: "list_all2 P xs ys \<Longrightarrow> x \<in> set xs \<Longrightarrow> \<exists>y \<in> set ys. P x y"
  by (induction rule: list_all2_induct) auto

lemma distinct_sorted_wrt: "sorted_wrt (\<noteq>) xs \<Longrightarrow> distinct xs"
  by (induction xs) auto

lemma store_members:
  assumes "stream_store env root fs port epoch segs ess" "seg \<in> set segs"
  obtains es where "stored_segment env root fs port epoch seg es" "es \<in> set ess"
  using assms list_all2_left unfolding stream_store_def by metis

lemma store_distinct:
  assumes "stream_store env root fs port epoch segs ess"
  shows "distinct (map sd_path segs)"
proof -
  have "sorted_wrt (\<lambda>s s'. sd_path s \<noteq> sd_path s') segs"
  proof (rule sorted_wrt_mono_rel)
    show "sorted_wrt (\<lambda>s s'. sh_first_seq (sd_header s) < sh_first_seq (sd_header s')) segs"
      using assms by (simp add: stream_store_def)
    fix s s' assume s: "s \<in> set segs" "s' \<in> set segs"
      "sh_first_seq (sd_header s) < sh_first_seq (sd_header s')"
    then have "named_in env root port epoch s" "named_in env root port epoch s'"
      using assms by (metis stored_segment_def store_members)+
    then show "sd_path s \<noteq> sd_path s'"
      using named_in_names [of env root port epoch s] named_in_names [of env root port epoch s'] s(3)
      by (cases "sd_sealed s") auto
  qed
  then show ?thesis by (intro distinct_sorted_wrt) (simp add: sorted_wrt_map)
qed

lemma regular_key: "is_regular fs p \<Longrightarrow> p \<in> set (bt_keys fs)"
  by (auto simp: is_regular_def bt_keys_def dest!: bt_get_Some_in intro: rev_image_eqI)

theorem discovery_finds:
  assumes "codec_ok (je_header env)" "codec_ok (je_segment env)"
    "stream_store env root fs (qc_port c) (qc_epoch c) segs ess" "\<And>seg. seg \<in> set segs \<Longrightarrow> stays d seg"
    "bt_wf fs" "discover_epoch_segments_for_query env d root fs c b = Inr (b', first, found)"
  shows "distinct found" "set found \<subseteq> set segs"
    "\<And>seg. seg \<in> set segs \<Longrightarrow> seg \<notin> set found \<Longrightarrow> skipped c seg"
    "\<And>seg. seg \<in> set segs \<Longrightarrow> at_most first (sh_first_seq (sd_header seg))"
proof -
  let ?dir = "epoch_dir env root (qc_port c) (qc_epoch c)"
  define ps where "ps = filter (\<lambda>p. is_regular fs p \<and> is_segment_name p) (filter (\<lambda>p. fst p = ?dir) (bt_keys fs))"
  have members: "(\<exists>es. stored_segment env root fs (qc_port c) (qc_epoch c) seg es) \<and> stays d seg \<and>
      named_in env root (qc_port c) (qc_epoch c) seg \<and> sd_path seg \<in> set ps" if seg: "seg \<in> set segs" for seg
  proof -
    obtain es where es: "stored_segment env root fs (qc_port c) (qc_epoch c) seg es"
      using store_members [OF assms(3) seg] by blast
    then have "is_regular fs (sd_path seg)"
      by (auto simp: stored_segment_def segment_holds_def is_regular_def)
    moreover have named: "named_in env root (qc_port c) (qc_epoch c) seg" using es by (simp add: stored_segment_def)
    ultimately show ?thesis
      using es assms(4) [OF seg] regular_key named_in_names(2) [OF named]
      by (auto simp: ps_def named_in_def Let_def)
  qed
  have ps: "set ps \<subseteq> sd_path ` set segs" "distinct ps"
    using assms(3) bt_wf_distinct [OF assms(5)] by (auto simp: ps_def stream_store_def)
  have "distinct found \<and> set found \<subseteq> set segs \<and>
      (\<forall>seg \<in> set segs. seg \<notin> set found \<longrightarrow> skipped c seg) \<and>
      (\<forall>seg \<in> set segs. at_most first (sh_first_seq (sd_header seg)))"
  proof (cases "dir_exists ?dir fs")
    case False
    then have "segs = []"
      using members by (cases segs) (auto simp: ps_def dir_exists_def list_ex_iff below_def)
    with False assms(6) show ?thesis by (simp add: discover_epoch_segments_for_query_def)
  next
    case True
    obtain b1 k where k: "gather_candidates d c fs (dir_entries ?dir fs)
        \<lparr>ca_paths = [], ca_seed = None, ca_first = None\<rparr> b = Inr (b1, k)"
      "open_candidates env d c fs (candidate_paths k) (ca_first k) b1 = Inr (b', first, found)"
      using True assms(6) by (auto simp: discover_epoch_segments_for_query_def Let_def res_simps split: if_splits)
    have fold: "k = fold (consider_name c) ps \<lparr>ca_paths = [], ca_seed = None, ca_first = None\<rparr>"
      using gather_folds [OF k(1)] by (simp add: ps_def entry_files_dir)
    have named: "\<exists>seg \<in> set segs. sd_path seg = p \<and> named_in env root (qc_port c) (qc_epoch c) seg"
      if "p \<in> set ps" for p using that ps(1) members by blast
    note folded = fold_candidates [where ps = ps, OF named store_distinct [OF assms(3)], where c = c and
        k = "\<lparr>ca_paths = [], ca_seed = None, ca_first = None\<rparr>", folded fold, simplified]
    have seed: "\<exists>seg \<in> set segs. sd_path seg = p \<and> p \<in> set ps \<and> skipped c seg"
      if "ca_seed k = Some (l, n, p)" for l n p using folded(2) that by blast
    have paths: "p \<in> set (ca_paths k) \<longleftrightarrow> p \<in> set ps \<and> (\<exists>seg \<in> set segs. sd_path seg = p \<and> \<not> skipped c seg)" for p
      by (simp add: folded(1))
    have inj: "inj_on sd_path (set segs)" using store_distinct [OF assms(3)] by (simp add: distinct_map)
    have chosen: "set (candidate_paths k) \<subseteq> sd_path ` set segs" "distinct (candidate_paths k)"
    proof -
      have "set (candidate_paths k) \<subseteq> set ps"
        using paths seed
        by (cases "ca_seed k") (auto simp: candidate_paths_def simp del: split_paired_All split_paired_Ex)
      then show "set (candidate_paths k) \<subseteq> sd_path ` set segs" using ps(1) by (rule subset_trans)
      have "p \<notin> set (ca_paths k)" if "ca_seed k = Some (l, n, p)" for l n p
        using seed [OF that] paths inj by (auto dest: inj_onD)
      moreover have "distinct (ca_paths k)" using ps(2) by (simp add: folded(1))
      ultimately show "distinct (candidate_paths k)"
        by (auto simp: candidate_paths_def split: option.splits)
    qed
    have opened: "list_all2 (\<lambda>p s. s \<in> set segs \<and> sd_path s = p) (candidate_paths k) found"
      "\<forall>n. at_most first n \<longleftrightarrow> at_most (ca_first k) n \<or> (\<exists>s \<in> set found. sh_first_seq (sd_header s) \<le> n)"
      using open_candidates_find [OF assms(1,2) _ k(2) chosen(1)] members by blast+
    have found: "map sd_path found = candidate_paths k" "set found \<subseteq> set segs"
      using opened(1) by (induction rule: list_all2_induct) auto
    have "seg \<in> set found" if "seg \<in> set segs" "\<not> skipped c seg" for seg
    proof -
      have "sd_path seg \<in> set (candidate_paths k)" using that members paths by (auto simp: candidate_paths_def)
      then obtain s where "s \<in> set found" "sd_path s = sd_path seg" using found(1) by (metis imageE set_map)
      then show ?thesis using found(2) inj that(1) by (metis inj_onD subsetD)
    qed
    moreover have "at_most first (sh_first_seq (sd_header seg))" if "seg \<in> set segs" for seg
      using opened(2) folded(3) members that by blast
    moreover have "distinct found" using found(1) chosen(2) by (metis distinct_map)
    ultimately show ?thesis using found(2) by blast
  qed
  then show "distinct found" "set found \<subseteq> set segs"
    "\<And>seg. seg \<in> set segs \<Longrightarrow> seg \<notin> set found \<Longrightarrow> skipped c seg"
    "\<And>seg. seg \<in> set segs \<Longrightarrow> at_most first (sh_first_seq (sd_header seg))"
    by blast+
qed

section \<open>A page of the log\<close>

text \<open>The events of the segments that were found are the log but for events out of the window.\<close>

lemma key_sorted_unique:
  assumes "sorted_wrt (\<lambda>s s'. sh_first_seq (sd_header s) < sh_first_seq (sd_header s')) segs"
    "distinct found" "set found \<subseteq> set segs"
  shows "in_query_order found = filter (\<lambda>s. s \<in> set found) segs"
proof -
  let ?k = "\<lambda>s. (sh_first_seq (sd_header s), sh_segment_id (sd_header s))"
  let ?kept = "filter (\<lambda>s. s \<in> set found) segs"
  have strict: "sorted_wrt (\<lambda>x y. x < y) (map ?k segs)"
    by (simp add: sorted_wrt_map, rule sorted_wrt_mono_rel [OF _ assms(1)]) auto
  then have segs: "sorted (map ?k segs)" "distinct (map ?k segs)"
    using strict_sorted_iff by blast+
  have same: "set (in_query_order found) = set ?kept" using assms(3) by (auto simp: in_query_order_def)
  have inj: "inj_on ?k (set segs)" using segs(2) by (simp add: distinct_map)
  have "map ?k (in_query_order found) = map ?k ?kept"
  proof (rule sorted_distinct_set_unique)
    show "sorted (map ?k (in_query_order found))" by (simp add: in_query_order_def)
    show "distinct (map ?k (in_query_order found))"
      using assms(2,3) inj by (auto simp: in_query_order_def distinct_map intro: inj_on_subset)
    show "sorted (map ?k ?kept)" using segs(1) by (rule sorted_filter)
    show "distinct (map ?k ?kept)" using segs(2) by (rule distinct_map_filter)
    show "set (map ?k (in_query_order found)) = set (map ?k ?kept)" using same by simp
  qed
  moreover have "inj_on ?k (set (in_query_order found) \<union> set ?kept)"
    using inj by (rule inj_on_subset) (use assms(3) in \<open>auto simp: in_query_order_def\<close>)
  ultimately show ?thesis by (rule map_inj_on)
qed

lemma kept_segments:
  assumes "list_all2 P segs ess" "\<And>s es. s \<in> set segs \<Longrightarrow> P s es \<Longrightarrow> \<not> keep s \<Longrightarrow> \<forall>e \<in> set es. \<not> Q e"
    "\<And>s es. P s es \<Longrightarrow> R s es"
  shows "\<exists>ess'. list_all2 R (filter keep segs) ess' \<and> filter Q (concat ess') = filter Q (concat ess) \<and>
    subseq (concat ess') (concat ess)"
  using assms(1,2)
proof (induction rule: list_all2_induct)
  case (Cons s segs es ess)
  then obtain ess' where IH: "list_all2 R (filter keep segs) ess'" "filter Q (concat ess') = filter Q (concat ess)"
    "subseq (concat ess') (concat ess)" by auto
  show ?case
  proof (cases "keep s")
    case True
    then have "list_all2 R (filter keep (s # segs)) (es # ess')" using IH(1) assms(3) [OF Cons(1)] by simp
    moreover have "filter Q (concat (es # ess')) = filter Q (concat (es # ess))" using IH(2) by simp
    moreover have "subseq (concat (es # ess')) (concat (es # ess))"
      using IH(3) list_emb_append_mono [of "(=)" es es] by simp
    ultimately show ?thesis by blast
  next
    case False
    then have "filter Q es = []" using Cons.prems [of s es] Cons(1) by (auto simp: filter_empty_conv)
    moreover have "subseq (concat ess') (es @ concat ess)" using IH(3) by (rule list_emb_append2)
    ultimately show ?thesis using IH False by auto
  qed
qed simp

lemma subseq_subset: "subseq xs ys \<Longrightarrow> set xs \<subseteq> set ys"
  by (induction rule: list_emb.induct) auto

lemma retained_subseq: "retained c events \<Longrightarrow> subseq events' events \<Longrightarrow> retained c events'"
proof -
  assume r: "retained c events" "subseq events' events"
  have "subseq xs ys \<Longrightarrow> sorted_wrt R ys \<Longrightarrow> sorted_wrt R xs" for R and xs ys :: "'a timeline_event list"
    by (induction rule: list_emb.induct) (use subseq_subset in auto)
  then show "retained c events'"
    using r subseq_subset [OF r(2)] by (auto simp: retained_def)
qed

definition in_query_window :: "query_scope \<Rightarrow> nat \<Rightarrow> bool" where
  "in_query_window c n \<longleftrightarrow> sequence_floor c < n \<and> n \<le> sequence_ceiling c"

lemma skipped_out_of_window:
  assumes "stored_segment env root fs port epoch seg es" "skipped c seg" "e \<in> set es"
  shows "\<not> in_query_window c (ev_seq e)"
proof -
  have "sh_first_seq (sd_header seg) \<le> ev_seq e" "opt_all (\<lambda>l. ev_seq e \<le> l) (sd_last_seq seg)"
    using assms(1,3) by (cases "sd_last_seq seg"; auto simp: stored_segment_def segment_holds_def)+
  then show ?thesis
    using assms(2) stored_last(1) [OF assms(1)]
    by (auto simp: skipped_def in_query_window_def) (metis leD le_trans linorder_not_le opt_simps(2))
qed

theorem query_files_complete:
  assumes "codec_ok (je_header env)" "codec_ok (je_segment env)" "gap_codec_ok env"
    "decode_json (je_gap env) [] = Inl e0" "bt_wf fs" "\<forall>c. os_fault d c = None"
    "stream_store env root fs port epoch segs ess"
    "ledger_holds env root fs gs" "\<And>g. g \<in> set gs \<Longrightarrow> sg_last_seq g \<le> U64_MAX"
    "eq_epoch q = Some epoch" "eq_contains q = None" "eq_regex q = None"
    "c = \<lparr>qc_query = q, qc_port = port, qc_epoch = epoch, qc_expression = None\<rparr>"
    "sequence_floor c \<le> U64_MAX" "sequence_ceiling c \<le> U64_MAX" "retained c (concat ess)"
    "query_files env regex d root fs port q b = Inr resp"
  shows "er_events resp = filter (\<lambda>e. in_scope c e \<and> ev_seq e \<le> page_end resp) (concat ess)"
    "\<not> er_truncated resp \<Longrightarrow> er_events resp = filter (in_scope c) (concat ess)"
    "\<And>n. sequence_floor c < n \<Longrightarrow> n \<le> page_end resp \<Longrightarrow>
       missing_at epoch n (er_gaps resp) \<or> n \<in> ev_seq ` set (concat ess)"
    "\<And>e r n. gap_at e r n (er_gaps resp) \<Longrightarrow> in_query_window c n \<Longrightarrow> n \<in> ev_seq ` set (concat ess) \<Longrightarrow>
       \<exists>g \<in> set gs. e = epoch \<and> stored_at port e r n g"
proof -
  have scope: "qc_query c = q" "qc_port c = port" "qc_epoch c = epoch" by (simp_all add: assms(13))
  obtain b1 b2 first found where f:
    "discover_epoch_segments_for_query env d root fs c b = Inr (b1, first, found)"
    "query_epoch env d root fs c (filter (\<lambda>s. sh_epoch (sd_header s) = epoch) found) first b2 = Inr resp"
    "validate_query q = Inr ()"
    using assms(17,10,12)
    by (auto simp: query_files_def query_expression_def discover_segments_for_query_def select_epoch_def
        assms(13) res_simps)
  have floor: "sequence_floor c \<le> sequence_ceiling c"
  proof (cases "eq_after_seq q")
    case (Some after)
    have "opt_all (\<lambda>n. after \<le> n) (eq_through_seq q)"
      using f(3) Some by (cases "eq_through_seq q") (auto simp: validate_query_def both_def split: if_splits)
    then show ?thesis
      using Some assms(14) by (cases "eq_through_seq q") (simp_all add: sequence_floor_def sequence_ceiling_def scope)
  qed (simp add: sequence_floor_def scope)
  have unfiltered: "unfiltered c"
    using floor assms(11,15) by (simp add: unfiltered_def scope) (simp add: assms(13))
  have store: "stream_store env root fs (qc_port c) (qc_epoch c) segs ess" using assms(7) by (simp add: scope)
  have stays: "stays d seg" for seg using assms(6) by (simp add: stays_def)
  note found = discovery_finds [OF assms(1,2) store stays assms(5) f(1)]
  have epochs: "filter (\<lambda>s. sh_epoch (sd_header s) = epoch) found = found"
    using found(2) store_members [OF store]
    by (intro filter_True) (metis named_in_def scope(3) stored_segment_def subsetD)
  define chosen where "chosen = in_query_order found"
  have sorted: "sorted_wrt (\<lambda>s s'. sh_first_seq (sd_header s) < sh_first_seq (sd_header s')) segs"
    and stored: "list_all2 (stored_segment env root fs port epoch) segs ess"
    using assms(7) by (simp_all add: stream_store_def)
  have chosen: "chosen = filter (\<lambda>s. s \<in> set found) segs"
    unfolding chosen_def by (rule key_sorted_unique [OF sorted found(1,2)])
  obtain ess' where ess': "list_all2 (segment_holds env fs) chosen ess'"
    "filter (\<lambda>e. in_query_window c (ev_seq e)) (concat ess') = filter (\<lambda>e. in_query_window c (ev_seq e)) (concat ess)"
    "subseq (concat ess') (concat ess)"
  proof -
    have "\<exists>ess'. list_all2 (segment_holds env fs) (filter (\<lambda>s. s \<in> set found) segs) ess' \<and>
        filter (\<lambda>e. in_query_window c (ev_seq e)) (concat ess') =
        filter (\<lambda>e. in_query_window c (ev_seq e)) (concat ess) \<and> subseq (concat ess') (concat ess)"
    proof (rule kept_segments [OF stored])
      fix s es assume s: "s \<in> set segs" "stored_segment env root fs port epoch s es" "s \<notin> set found"
      show "\<forall>e \<in> set es. \<not> in_query_window c (ev_seq e)"
        using skipped_out_of_window [OF s(2)] found(3) [OF s(1,3)] by blast
    qed (simp add: stored_segment_def)
    then show thesis using that by (auto simp: chosen)
  qed
  obtain st known b3 where st: "load_query_gap_ranges env d root fs port epoch (eq_after_seq q) (eq_through_seq q) b2 =
      Inr (b3, known)"
    "scan_segments env d fs c (seed_segment c chosen) chosen (initial_scan c known b3) = Inr st"
    "finish_page c (first_available chosen first) st = Inr resp"
    using f(2) by (auto simp: query_epoch_def epochs chosen_def in_query_order_def Let_def scope res_simps)
  note known = ledger_loaded [OF assms(3,4,8,9,6) st(1)]
  have retained: "retained c (concat ess')" by (rule retained_subseq [OF assms(16) ess'(3)])
  have "scan_final c ([] @ concat ess') known st"
  proof (rule scan_segments_final [OF assms(1,2) unfiltered st(2) ess'(1)])
    show "stays d seg \<and> sh_port (sd_header seg) = qc_port c" if "seg \<in> set chosen" for seg
      using that found(2) store_members [OF store] stays
      by (auto simp: chosen stored_segment_def named_in_def Let_def)
    show "sorted_wrt (\<lambda>s s'. sh_first_seq (sd_header s) \<le> sh_first_seq (sd_header s')) chosen"
      unfolding chosen_def by (rule in_query_order_sorted)
    show "scan_inv c ([] @ concat ess') known [] (initial_scan c known b3)"
      by (rule scan_inv_initial [OF known(1)])
  qed (use retained in simp)
  then have final: "scan_final c (concat ess') known st" by simp
  have first: "opt_all (\<lambda>f. \<forall>e \<in> set (concat ess'). f \<le> ev_seq e) (first_available chosen first)"
  proof -
    have "at_most first (ev_seq e)" if e: "e \<in> set (concat ess')" for e
    proof -
      obtain es where es: "es \<in> set ess'" "e \<in> set es" using e by auto
      then obtain seg where "seg \<in> set chosen" "segment_holds env fs seg es"
        using list_all2_right [OF ess'(1)] by blast
      then have "at_most first (sh_first_seq (sd_header seg))" "sh_first_seq (sd_header seg) \<le> ev_seq e"
        using found(4) es(2) by (auto simp: chosen segment_holds_def)
      then show ?thesis by (cases first) auto
    qed
    moreover have "opt_all (\<lambda>f. \<forall>e \<in> set (concat ess'). f \<le> ev_seq e) (first_available chosen first)"
      if "set (concat ess') = {}"
      unfolding that by (simp add: opt_all_def split: option.splits)
    ultimately show ?thesis by (cases first) (auto simp: first_available_def)
  qed
  note page = finish_page_right [OF st(3) final unfiltered first]
  have same: "filter P (concat ess') = filter P (concat ess)" if P: "\<And>e. P e \<Longrightarrow> in_query_window c (ev_seq e)" for P
  proof -
    have "filter P xs = filter P (filter (\<lambda>e. in_query_window c (ev_seq e)) xs)" for xs
      by (simp, rule filter_cong) (use P in auto)
    then show ?thesis using ess'(2) by metis
  qed
  have in_window: "in_query_window c (ev_seq e)" if "in_scope c e" for e :: "'a timeline_event"
    using that by (simp add: in_scope_def in_query_window_def)
  show "er_events resp = filter (\<lambda>e. in_scope c e \<and> ev_seq e \<le> page_end resp) (concat ess)"
    unfolding page(1) by (rule same) (use in_window in blast)
  show "er_events resp = filter (in_scope c) (concat ess)" if "\<not> er_truncated resp"
    unfolding page(2) [OF that] by (rule same [OF in_window])
  show "missing_at epoch n (er_gaps resp) \<or> n \<in> ev_seq ` set (concat ess)"
    if "sequence_floor c < n" "n \<le> page_end resp" for n
    using page(3) [OF that] subseq_subset [OF ess'(3)] by (auto simp: scope)
  show "\<exists>g \<in> set gs. e = epoch \<and> stored_at port e r n g"
    if gap: "gap_at e r n (er_gaps resp)" "in_query_window c n" "n \<in> ev_seq ` set (concat ess)" for e r n
  proof -
    obtain ev where "ev \<in> set (filter (\<lambda>e. in_query_window c (ev_seq e)) (concat ess))" "n = ev_seq ev"
      using gap(2,3) by auto
    then have "n \<in> ev_seq ` set (concat ess')" unfolding ess'(2) [symmetric] by auto
    then have "gap_at e r n known" using page(4) [OF gap(1)] by blast
    then show ?thesis using known(2) by blast
  qed
qed

end
