(* ===== verification/HumanHistory.thy ===== *)
theory HumanHistory
  imports EventRing Storage Steps
begin

text \<open>
  \<open>crates/seriald/src/human_history.rs\<close>: the persistent suggestions, recorded from confirmed
  Human LINE submissions and served in pages, newest first. The mutex of the code makes each
  operation one step; the state is what the mutex protects together with the files.
\<close>

definition HISTORY_MAX_ENTRIES :: nat where "HISTORY_MAX_ENTRIES = 10000"
definition HISTORY_MAX_SEEN :: nat where "HISTORY_MAX_SEEN = 32768"

section \<open>Data\<close>

record history_entry =
  he_id :: uuid
  he_command :: rstring
  he_port :: rstring
  he_wall_time_ns :: int
  he_revision :: nat
  he_uses :: nat

record history_query =
  hq_prefix :: "rstring option"
  hq_contains :: "rstring option"
  hq_before_revision :: "nat option"
  hq_limit :: "nat option"

record history_response =
  hr_server_id :: uuid
  hr_revision :: nat
  hr_entries :: "history_entry list"
  hr_next_before_revision :: "nat option"
  hr_warning :: "rstring option"

record persisted =
  pe_revision :: nat
  pe_entries :: "history_entry list"
  pe_seen :: "uuid list"
  pe_truncated :: bool

record history_state =
  hs_data :: persisted
  hs_warning :: "rstring option"

definition persisted_default :: persisted where
  "persisted_default = \<lparr>pe_revision = 0, pe_entries = [], pe_seen = [], pe_truncated = False\<rparr>"

section \<open>Opening\<close>

definition valid_command :: "rstring \<Rightarrow> bool" where
  "valid_command c \<longleftrightarrow> \<not> (c = [] \<or> 4096 < str_len c \<or> list_ex is_control c)"

definition history_open ::
  "os \<Rightarrow> persisted codec \<Rightarrow> path \<Rightarrow> files \<Rightarrow> io_error + history_state" where
  "history_open d json path fs =
     sbind (case fs_metadata d path fs of
              Inr (is_file, len) \<Rightarrow>
                if \<not> is_file \<or> 48 * 1024 * 1024 < len
                then Inl (io_fail IoInvalidData (lit ''invalid history file''))
                else sbind (fs_read d path fs) (\<lambda>bs.
                     sbind (decode_json json bs) (\<lambda>v.
                     if length (pe_entries v) > HISTORY_MAX_ENTRIES
                        \<or> length (pe_seen v) > HISTORY_MAX_SEEN
                        \<or> list_ex (\<lambda>e. \<not> valid_command (he_command e) \<or> pe_revision v < he_revision e)
                            (pe_entries v)
                     then Inl (io_fail IoInvalidData (lit ''invalid history entries''))
                     else Inr v))
            | Inl e \<Rightarrow> if io_kind e = IoNotFound then Inr persisted_default else Inl e)
       (\<lambda>v. Inr \<lparr>hs_data = v, hs_warning = None\<rparr>)"

section \<open>Recording\<close>

text \<open>The command and the operation of an event that counts as a Human submission.\<close>

definition submission :: "'j json_api \<Rightarrow> 'j timeline_event \<Rightarrow> (rstring \<times> uuid) option" where
  "submission j event =
     (if ev_kind event \<noteq> KTx \<or> ev_direction event \<noteq> DTx
         \<or> (case ev_actor event of None \<Rightarrow> True | Some a \<Rightarrow> actor_kind a \<noteq> Human)
         \<or> (case bt_get (ev_metadata event) (lit ''partial'') of
              None \<Rightarrow> False | Some v \<Rightarrow> as_bool j v = Some True)
      then None
      else case bt_get (ev_metadata event) (lit ''human_line_input'') of
             None \<Rightarrow> None
           | Some v \<Rightarrow>
               (case as_str j v of
                  None \<Rightarrow> None
                | Some command \<Rightarrow>
                    if \<not> valid_command command then None
                    else (case ev_operation_id event of
                            None \<Rightarrow> None
                          | Some operation_id \<Rightarrow> Some (command, operation_id))))"

text \<open>\<open>position\<close> of the command, then \<open>remove\<close>: the entry and what is left.\<close>

fun take_entry :: "rstring \<Rightarrow> history_entry list \<Rightarrow> history_entry option \<times> history_entry list" where
  "take_entry c [] = (None, [])"
| "take_entry c (e # es) =
     (if he_command e = c then (Some e, es)
      else (case take_entry c es of (p, es') \<Rightarrow> (p, e # es')))"

definition remember :: "uuid \<Rightarrow> uuid list \<Rightarrow> uuid list" where
  "remember i seen = (let s = seen @ [i] in if length s > HISTORY_MAX_SEEN then drop 1 s else s)"

definition history_next :: "rstring \<Rightarrow> uuid \<Rightarrow> 'j timeline_event \<Rightarrow> nat \<Rightarrow> persisted \<Rightarrow> persisted" where
  "history_next command operation_id event revision v =
     (let (previous, others) = take_entry command (pe_entries v);
          entries = others @
            [\<lparr>he_id = (case previous of None \<Rightarrow> operation_id | Some e \<Rightarrow> he_id e),
              he_command = command,
              he_port = ev_port event,
              he_wall_time_ns = ev_wall_time_ns event,
              he_revision = revision,
              he_uses = (case previous of None \<Rightarrow> 1 | Some e \<Rightarrow> saturating_add_u64 (he_uses e) 1)\<rparr>];
          full = length entries > HISTORY_MAX_ENTRIES
      in \<lparr>pe_revision = revision,
          pe_entries = (if full then drop 1 entries else entries),
          pe_seen = remember operation_id (pe_seen v),
          pe_truncated = (full \<or> pe_truncated v)\<rparr>)"

text \<open>
  The result, the state and the files. \<open>show_io\<close> is the text of an error. \<open>None\<close>: the write has
  not found a free temporary name among the identifiers drawn.
\<close>

definition history_record ::
  "os \<Rightarrow> persisted codec \<Rightarrow> (io_error \<Rightarrow> rstring) \<Rightarrow> 'j json_api \<Rightarrow> path \<Rightarrow> 'j timeline_event \<Rightarrow>
   history_state \<Rightarrow> files \<Rightarrow> ((io_error + unit) \<times> history_state \<times> files) option" where
  "history_record d json show_io j path event s fs =
     (case submission j event of
        None \<Rightarrow> Some (Inr (), s, fs)
      | Some (command, operation_id) \<Rightarrow>
          if operation_id \<in> set (pe_seen (hs_data s)) then Some (Inr (), s, fs)
          else (case checked_add_u64 (pe_revision (hs_data s)) 1 of
                  None \<Rightarrow> Some (Inl (io_fail IoOther (lit ''history revision exhausted'')), s, fs)
                | Some revision \<Rightarrow>
                    (let next_data = history_next command operation_id event revision (hs_data s)
                     in case encode_json json next_data of
                          Inl e \<Rightarrow> Some (Inl e, s, fs)
                        | Inr bs \<Rightarrow>
                            (case atomic_write d path bs fs of
                               None \<Rightarrow> None
                             | Some (Inr _, fs') \<Rightarrow>
                                 Some (Inr (), \<lparr>hs_data = next_data, hs_warning = None\<rparr>, fs')
                             | Some (Inl e, fs') \<Rightarrow>
                                 Some (Inl e,
                                   s\<lparr>hs_warning := Some
                                     (lit ''Human history save failed; command may already have executed: ''
                                      @ show_io e)\<rparr>, fs')))))"

section \<open>Querying\<close>

definition matches :: "history_query \<Rightarrow> history_entry \<Rightarrow> bool" where
  "matches q e \<longleftrightarrow>
     (case hq_before_revision q of None \<Rightarrow> True | Some r \<Rightarrow> he_revision e < r) \<and>
     (case hq_prefix q of None \<Rightarrow> True | Some p \<Rightarrow> prefix p (he_command e)) \<and>
     (case hq_contains q of None \<Rightarrow> True | Some p \<Rightarrow> sublist p (he_command e))"

definition matching :: "history_query \<Rightarrow> persisted \<Rightarrow> history_entry list" where
  "matching q v = filter (matches q) (rev (pe_entries v))"

definition page_size :: "history_query \<Rightarrow> nat" where
  "page_size q = (let l = (case hq_limit q of None \<Rightarrow> 1000 | Some l \<Rightarrow> l) in max 1 (min l 2000))"

definition truncated_warning :: rstring where
  "truncated_warning = lit ''Suggestions retain the latest '' @ digits_of HISTORY_MAX_ENTRIES
     @ lit '' distinct Human commands; older TX audit remains in retained journals''"

definition query_history :: "uuid \<Rightarrow> history_query \<Rightarrow> history_state \<Rightarrow> history_response" where
  "query_history server_id q s =
     (let entries = take (page_size q) (matching q (hs_data s))
      in \<lparr>hr_server_id = server_id,
          hr_revision = pe_revision (hs_data s),
          hr_entries = entries,
          hr_next_before_revision =
            (if drop (page_size q) (matching q (hs_data s)) = [] then None
             else if entries = [] then None else Some (he_revision (last entries))),
          hr_warning =
            (case hs_warning s of
               Some w \<Rightarrow> Some w
             | None \<Rightarrow> if pe_truncated (hs_data s) then Some truncated_warning else None)\<rparr>)"

section \<open>The invariant\<close>

definition history_inv :: "persisted \<Rightarrow> bool" where
  "history_inv v \<longleftrightarrow>
     distinct (map he_command (pe_entries v)) \<and>
     sorted_wrt (<) (map he_revision (pe_entries v)) \<and>
     (\<forall>e \<in> set (pe_entries v). valid_command (he_command e) \<and> he_revision e \<le> pe_revision v) \<and>
     length (pe_entries v) \<le> HISTORY_MAX_ENTRIES \<and>
     length (pe_seen v) \<le> HISTORY_MAX_SEEN \<and> distinct (pe_seen v)"

lemma take_entry_split:
  "take_entry c es = (p, es') \<Longrightarrow>
   (case p of
      None \<Rightarrow> es' = es \<and> c \<notin> he_command ` set es
    | Some e \<Rightarrow> \<exists>xs ys. es = xs @ e # ys \<and> es' = xs @ ys \<and> he_command e = c \<and> c \<notin> he_command ` set xs)"
proof (induction c es arbitrary: p es' rule: take_entry.induct)
  case (2 c e es)
  show ?case
  proof (cases "he_command e = c")
    case True
    with "2.prems" have "p = Some e" "es' = es" by auto
    moreover have "e # es = [] @ e # es \<and> es = [] @ es" by simp
    ultimately show ?thesis using True by fastforce
  next
    case False
    obtain q zs where q: "take_entry c es = (q, zs)" by fastforce
    note IH = "2.IH" [OF False q]
    show ?thesis
    proof (cases q)
      case None
      with IH False q "2.prems" show ?thesis by auto
    next
      case (Some x)
      with IH obtain xs ys where "es = xs @ x # ys" "zs = xs @ ys" "he_command x = c"
        "c \<notin> he_command ` set xs" by auto
      moreover from this have "e # es = (e # xs) @ x # ys \<and> e # zs = (e # xs) @ ys \<and>
        c \<notin> he_command ` set (e # xs)" using False by simp
      ultimately have "\<exists>xs ys. e # es = xs @ x # ys \<and> e # zs = xs @ ys \<and> he_command x = c \<and>
        c \<notin> he_command ` set xs" by blast
      moreover have "p = Some x" "es' = e # zs" using False q Some "2.prems" by auto
      ultimately show ?thesis by (simp only: option.case)
    qed
  qed
qed simp

lemma remember_suffix: "suffix (remember i seen) (seen @ [i])"
  using suffix_drop [of 1 "seen @ [i]"] by (simp add: remember_def Let_def del: drop_append)

interpretation seen: bounded_log remember "\<lambda>s. s"
  by unfold_locales (rule remember_suffix)

lemma remember_bound: "length seen \<le> HISTORY_MAX_SEEN \<Longrightarrow> length (remember i seen) \<le> HISTORY_MAX_SEEN"
  by (auto simp: remember_def Let_def HISTORY_MAX_SEEN_def)

lemma remember_distinct: "distinct seen \<Longrightarrow> i \<notin> set seen \<Longrightarrow> distinct (remember i seen)"
  using seen.log_distinct [of seen "[i]"] by simp

lemma remember_in: "i \<in> set (remember i seen)"
  by (auto simp: remember_def Let_def HISTORY_MAX_SEEN_def)

lemma history_next_inv:
  assumes v: "history_inv v" and c: "valid_command c" and i: "i \<notin> set (pe_seen v)"
    and r: "pe_revision v < r"
  shows "history_inv (history_next c i ev r v)"
proof -
  obtain p others where t: "take_entry c (pe_entries v) = (p, others)" by fastforce
  have others: "distinct (map he_command others)" "sorted_wrt (<) (map he_revision others)"
    "c \<notin> he_command ` set others" "set others \<subseteq> set (pe_entries v)" "length others \<le> length (pe_entries v)"
    using take_entry_split [OF t] v
    by (auto simp: history_inv_def sorted_wrt_append split: option.splits)
  define e where "e = \<lparr>he_id = (case p of None \<Rightarrow> i | Some e \<Rightarrow> he_id e), he_command = c,
    he_port = ev_port ev, he_wall_time_ns = ev_wall_time_ns ev, he_revision = r,
    he_uses = (case p of None \<Rightarrow> 1 | Some e \<Rightarrow> saturating_add_u64 (he_uses e) 1)\<rparr>"
  define entries where "entries = others @ [e]"
  have lt: "he_revision x < r" if "x \<in> set others" for x
    using that others(4) v r by (fastforce simp: history_inv_def)
  have ok: "distinct (map he_command entries)" "sorted_wrt (<) (map he_revision entries)"
    "\<forall>x \<in> set entries. valid_command (he_command x) \<and> he_revision x \<le> r"
    using others lt c v r
    by (auto simp: entries_def e_def history_inv_def sorted_wrt_append intro: less_imp_le)
  have drop: "distinct (map he_command (drop 1 entries))" "sorted_wrt (<) (map he_revision (drop 1 entries))"
    "\<forall>x \<in> set (drop 1 entries). valid_command (he_command x) \<and> he_revision x \<le> r"
    using ok by (auto simp: drop_map [symmetric] sorted_wrt_drop dest: in_set_dropD)
  have n: "history_next c i ev r v = \<lparr>pe_revision = r,
      pe_entries = (if length entries > HISTORY_MAX_ENTRIES then drop 1 entries else entries),
      pe_seen = remember i (pe_seen v),
      pe_truncated = (length entries > HISTORY_MAX_ENTRIES \<or> pe_truncated v)\<rparr>"
    by (simp add: history_next_def t entries_def e_def Let_def)
  show ?thesis unfolding n history_inv_def
    using ok drop v others(5) i
    by (auto simp: history_inv_def remember_bound remember_distinct entries_def simp del: drop_append)
qed

lemma submission_valid: "submission j ev = Some (c, i) \<Longrightarrow> valid_command c"
  by (auto simp: submission_def split: if_splits option.splits)

text \<open>Each call either leaves the data alone or moves it to the next revision.\<close>

lemma history_record_cases:
  assumes "history_record d json show_io j path ev s fs = Some (r, s', fs')"
  obtains (same) "hs_data s' = hs_data s"
  | (recorded) c i where "submission j ev = Some (c, i)" "i \<notin> set (pe_seen (hs_data s))"
      "r = Inr ()" "pe_revision (hs_data s) + 1 \<le> U64_MAX" "hs_warning s' = None"
      "hs_data s' = history_next c i ev (pe_revision (hs_data s) + 1) (hs_data s)"
      "\<exists>bs. encode_json json (hs_data s') = Inr bs \<and> bt_get fs' path = Some (Regular bs)"
proof (cases "hs_data s' = hs_data s")
  case False
  with assms obtain c i bs where "submission j ev = Some (c, i)" "i \<notin> set (pe_seen (hs_data s))"
    "r = Inr ()" "pe_revision (hs_data s) + 1 \<le> U64_MAX" "hs_warning s' = None"
    "hs_data s' = history_next c i ev (pe_revision (hs_data s) + 1) (hs_data s)"
    "encode_json json (hs_data s') = Inr bs" "atomic_write d path bs fs = Some (Inr (), fs')"
    by (auto simp: history_record_def Let_def res_simps split: option.splits prod.splits if_splits sum.splits)
  then show ?thesis using atomic_write_ok [of d path bs fs "()" fs' path] by (intro recorded) auto
qed (rule same)

lemma history_record_err:
  assumes "history_record d json show_io j path ev s fs = Some (Inl e, s', fs')"
  shows "hs_data s' = hs_data s"
  using assms by (cases rule: history_record_cases) auto

lemma history_record_inv:
  assumes "history_record d json show_io j path ev s fs = Some (r, s', fs')" "history_inv (hs_data s)"
  shows "history_inv (hs_data s')"
  using assms by (cases rule: history_record_cases) (auto intro: history_next_inv submission_valid)

text \<open>Recording the same operation again changes nothing.\<close>

lemma history_record_idempotent:
  assumes "history_record d json show_io j path ev s fs = Some (Inr (), s', fs')"
  shows "history_record d' json show_io j path ev s' fs' = Some (Inr (), s', fs')"
proof (cases "\<exists>c i. submission j ev = Some (c, i) \<and> i \<notin> set (pe_seen (hs_data s))")
  case False
  with assms show ?thesis by (auto simp: history_record_def split: option.splits)
next
  case True
  with assms obtain c i where "submission j ev = Some (c, i)"
    "hs_data s' = history_next c i ev (pe_revision (hs_data s) + 1) (hs_data s)"
    by (auto simp: history_record_def Let_def res_simps split: option.splits prod.splits if_splits sum.splits)
  moreover have "i \<in> set (pe_seen (history_next c i ev n v))" for n v
    by (simp add: history_next_def Let_def remember_in split: prod.splits)
  ultimately show ?thesis by (simp add: history_record_def)
qed

lemma history_next_revision [simp]: "pe_revision (history_next c i ev r v) = r"
  by (simp add: history_next_def Let_def split: prod.splits)

text \<open>The calls of the journal worker, one after the other.\<close>

record 'j record_call =
  rc_os :: os
  rc_event :: "'j timeline_event"

definition history_commit ::
  "persisted codec \<Rightarrow> (io_error \<Rightarrow> rstring) \<Rightarrow> 'j json_api \<Rightarrow> path \<Rightarrow> 'j record_call \<Rightarrow>
   history_state \<times> files \<Rightarrow> history_state \<times> files" where
  "history_commit json show_io j path c sf =
     (case history_record (rc_os c) json show_io j path (rc_event c) (fst sf) (snd sf) of
        None \<Rightarrow> sf | Some (r, sf') \<Rightarrow> sf')"

interpretation history: versioned_store "history_commit json show_io j path"
  "\<lambda>sf. pe_revision (hs_data (fst sf))" "\<lambda>sf. hs_data (fst sf)" "\<lambda>sf. history_inv (hs_data (fst sf))"
  for json show_io j path
proof unfold_locales
  fix sf :: "history_state \<times> files" and c :: "'a record_call"
  assume i: "history_inv (hs_data (fst sf))"
  show "history_inv (hs_data (fst (history_commit json show_io j path c sf)))"
    using i history_record_inv by (fastforce simp: history_commit_def split: option.splits prod.splits)
  let ?r = "history_record (rc_os c) json show_io j path (rc_event c) (fst sf) (snd sf)"
  show "pe_revision (hs_data (fst (history_commit json show_io j path c sf))) = pe_revision (hs_data (fst sf)) \<and>
      hs_data (fst (history_commit json show_io j path c sf)) = hs_data (fst sf) \<or>
      pe_revision (hs_data (fst (history_commit json show_io j path c sf))) = Suc (pe_revision (hs_data (fst sf)))"
  proof (cases ?r)
    case None
    then show ?thesis by (simp add: history_commit_def)
  next
    case (Some y)
    obtain r s' fs' where "y = (r, s', fs')" by (cases y) auto
    with Some have *: "?r = Some (r, s', fs')" by simp
    then show ?thesis by (cases rule: history_record_cases) (simp_all add: history_commit_def *)
  qed
qed

section \<open>Restart\<close>

text \<open>What was saved opens again.\<close>

lemma history_open_saved:
  assumes inv: "history_inv v" and codec: "codec_ok json" and bs: "encode_json json v = Inr bs"
    and f: "bt_get fs path = Some (Regular bs)" and len: "length bs \<le> 48 * 1024 * 1024"
  shows "history_open (os_ok us) json path fs = Inr \<lparr>hs_data = v, hs_warning = None\<rparr>"
proof -
  have "decode_json json bs = Inr v" using codec bs by (simp add: codec_ok_def)
  moreover have "\<not> list_ex (\<lambda>e. \<not> valid_command (he_command e) \<or> pe_revision v < he_revision e) (pe_entries v)"
    using inv by (auto simp: history_inv_def list_ex_iff)
  ultimately show ?thesis
    using f len inv by (simp add: history_open_def fs_metadata_def fs_read_def os_ok_def history_inv_def)
qed

text \<open>A file above the bound of \<open>open\<close> is refused, whoever wrote it.\<close>

lemma history_open_too_long:
  assumes "bt_get fs path = Some (Regular bs)" and "48 * 1024 * 1024 < length bs"
  shows "history_open (os_ok us) json path fs = Inl (io_fail IoInvalidData (lit ''invalid history file''))"
  using assms by (simp add: history_open_def fs_metadata_def os_ok_def)

lemma history_reopen:
  assumes "history_record d json show_io j path ev s fs = Some (Inr (), s', fs')"
    "hs_data s' \<noteq> hs_data s" "history_inv (hs_data s)" "codec_ok json"
  shows "\<exists>bs. encode_json json (hs_data s') = Inr bs \<and> bt_get fs' path = Some (Regular bs) \<and>
    history_open (os_ok us) json path fs' =
      (if length bs \<le> 48 * 1024 * 1024 then Inr s'
       else Inl (io_fail IoInvalidData (lit ''invalid history file'')))"
  using assms(1)
proof (cases rule: history_record_cases)
  case same
  with assms(2) show ?thesis by simp
next
  case (recorded c i)
  then obtain bs where bs: "encode_json json (hs_data s') = Inr bs" "bt_get fs' path = Some (Regular bs)"
    by blast
  have s': "s' = \<lparr>hs_data = hs_data s', hs_warning = None\<rparr>" using recorded by simp
  show ?thesis
  proof (cases "length bs \<le> 48 * 1024 * 1024")
    case True
    from history_open_saved [OF history_record_inv [OF assms(1,3)] assms(4) bs True] s' bs True
    show ?thesis by metis
  next
    case False
    then have "48 * 1024 * 1024 < length bs" by linarith
    from history_open_too_long [OF bs(2) this] bs False show ?thesis by metis
  qed
qed

section \<open>Pages\<close>

lemma matching_before:
  assumes v: "history_inv v" and d: "drop n (matching q v) \<noteq> []" and n: "0 < n"
  shows "matching (q\<lparr>hq_before_revision := Some (he_revision (last (take n (matching q v))))\<rparr>) v
    = drop n (matching q v)"
proof -
  let ?m = "matching q v"
  have dec: "sorted_wrt (\<lambda>x y. he_revision y < he_revision x) ?m"
    using v unfolding matching_def history_inv_def
    by (intro sorted_wrt_filter) (simp add: sorted_wrt_map sorted_wrt_rev)
  have t: "take n ?m \<noteq> []" using d n by (cases "matching q v") auto
  define l where "l = last (take n ?m)"
  have l: "l \<in> set (take n ?m)" using t by (simp add: l_def)
  have split: "sorted_wrt (\<lambda>x y. he_revision y < he_revision x) (take n ?m @ drop n ?m)"
    using dec by (simp only: append_take_drop_id)
  have below: "he_revision x < he_revision l" if "x \<in> set (drop n ?m)" for x
    using split l that unfolding sorted_wrt_append by blast
  have above: "\<not> he_revision x < he_revision l" if "x \<in> set (take n ?m)" for x
  proof -
    define ys where "ys = butlast (take n ?m)"
    have ys: "take n ?m = ys @ [l]" using t by (simp add: l_def ys_def)
    have "sorted_wrt (\<lambda>x y. he_revision y < he_revision x) (ys @ [l])"
      using sorted_wrt_take [OF dec, of n] by (simp only: ys)
    then have "\<forall>y \<in> set ys. he_revision l < he_revision y" by (simp add: sorted_wrt_append)
    moreover have "x \<in> set ys \<or> x = l" using that unfolding ys by auto
    ultimately show ?thesis by auto
  qed
  have q: "matches (q\<lparr>hq_before_revision := Some (he_revision l)\<rparr>) e \<longleftrightarrow> matches q e \<and> he_revision e < he_revision l"
    if "l \<in> set ?m" for e
    using that by (auto simp: matches_def matching_def split: option.splits)
  have lm: "l \<in> set ?m" using l by (rule in_set_takeD)
  have "matching (q\<lparr>hq_before_revision := Some (he_revision l)\<rparr>) v = filter (\<lambda>e. he_revision e < he_revision l) ?m"
    using q [OF lm] unfolding matching_def by (simp add: conj_commute cong: filter_cong)
  also have "\<dots> = filter (\<lambda>e. he_revision e < he_revision l) (take n ?m)
      @ filter (\<lambda>e. he_revision e < he_revision l) (drop n ?m)"
    by (simp flip: filter_append)
  also have "filter (\<lambda>e. he_revision e < he_revision l) (take n ?m) = []"
    using above by (simp add: filter_empty_conv)
  also have "filter (\<lambda>e. he_revision e < he_revision l) (drop n ?m) = drop n ?m"
    using below by (simp add: filter_id_conv)
  finally show ?thesis by (simp add: l_def)
qed

lemma page_size_pos: "0 < page_size q"
  by (simp add: page_size_def Let_def)

text \<open>The client that follows \<open>next_before_revision\<close>.\<close>

fun read_pages :: "nat \<Rightarrow> uuid \<Rightarrow> history_query \<Rightarrow> history_state \<Rightarrow> history_entry list option" where
  "read_pages 0 server_id q s = None"
| "read_pages (Suc n) server_id q s =
     (let r = query_history server_id q s
      in case hr_next_before_revision r of
           None \<Rightarrow> Some (hr_entries r)
         | Some b \<Rightarrow>
             (case read_pages n server_id (q\<lparr>hq_before_revision := Some b\<rparr>) s of
                None \<Rightarrow> None | Some es \<Rightarrow> Some (hr_entries r @ es)))"

lemma read_pages_complete:
  assumes "history_inv (hs_data s)" "length (matching q (hs_data s)) < n"
  shows "read_pages n server_id q s = Some (matching q (hs_data s))"
  using assms(2)
proof (induction n arbitrary: q)
  case (Suc n)
  let ?m = "matching q (hs_data s)"
  show ?case
  proof (cases "drop (page_size q) ?m = []")
    case True
    then show ?thesis by (simp add: query_history_def Let_def)
  next
    case False
    then have ne: "take (page_size q) ?m \<noteq> []" using page_size_pos [of q] by (cases "matching q (hs_data s)") auto
    let ?q = "q\<lparr>hq_before_revision := Some (he_revision (last (take (page_size q) ?m)))\<rparr>"
    have m: "matching ?q (hs_data s) = drop (page_size q) ?m"
      by (rule matching_before [OF assms(1) False page_size_pos])
    have "?m \<noteq> []" using ne by auto
    then have "0 < length ?m" by simp
    then have "length (matching ?q (hs_data s)) < n" using Suc.prems page_size_pos [of q] unfolding m
      length_drop by linarith
    from Suc.IH [OF this] show ?thesis using False ne m
      by (simp add: query_history_def Let_def)
  qed
qed simp

end
