(* ===== verification/RunHistory.thy ===== *)
theory RunHistory
  imports Protocol Storage Steps
begin

text \<open>
  \<open>crates/seriald/src/run_history.rs\<close>: the index behind the Agent panel. Every Run has one file
  in the directory of its port, and one more file per port lists the Runs a user has hidden.
  The files of \<open>Storage\<close> are the state; the mutex of the code makes \<open>record\<close> and the last part of
  \<open>hide\<close> single steps.
\<close>

section \<open>Parameters and paths\<close>

text \<open>The formats of the third-party \<open>uuid\<close> and \<open>serde_json\<close> crates.\<close>

record 'j run_formats =
  rf_uuid_text :: "uuid \<Rightarrow> rstring"
  rf_uuid_parse :: "rstring \<Rightarrow> uuid option"
  rf_run_of :: "'j \<Rightarrow> 'j run_info option"
  rf_record :: "'j agent_run_record codec"
  rf_visibility :: "agent_history_visibility codec"

record run_history =
  rh_root :: rstring
  rh_indexing :: bool
  rh_warning :: "rstring option"

definition run_history_new :: "rstring \<Rightarrow> run_history" where
  "run_history_new root = \<lparr>rh_root = root, rh_indexing = False, rh_warning = None\<rparr>"

definition nibble_char :: "nat \<Rightarrow> rchar" where
  "nibble_char n = (if n < 10 then 48 + n else 87 + n)"

definition hex_byte :: "byte \<Rightarrow> rstring" where
  "hex_byte b = [nibble_char (unat b div 16), nibble_char (unat b mod 16)]"

definition port_dir :: "run_history \<Rightarrow> rstring \<Rightarrow> rstring" where
  "port_dir h port = rh_root h @ lit ''/'' @ concat (map hex_byte (utf8 port))"

definition record_path :: "'j run_formats \<Rightarrow> run_history \<Rightarrow> rstring \<Rightarrow> uuid \<Rightarrow> path" where
  "record_path f h port i = (port_dir h port, rf_uuid_text f i @ lit ''.json'')"

definition visibility_path :: "run_history \<Rightarrow> rstring \<Rightarrow> path" where
  "visibility_path h port = (port_dir h port, lit ''visibility.json'')"

text \<open>\<open>Path::file_stem\<close>: what precedes the last dot, unless nothing does.\<close>

definition file_stem :: "rstring \<Rightarrow> rstring" where
  "file_stem name =
     (let before = rev (drop 1 (dropWhile (\<lambda>c. c \<noteq> 46) (rev name)))
      in if before = [] then name else before)"

section \<open>Reading and writing one file\<close>

definition read_optional :: "os \<Rightarrow> 'a codec \<Rightarrow> path \<Rightarrow> files \<Rightarrow> io_error + 'a option" where
  "read_optional d json p fs =
     (case fs_metadata d p fs of
        Inl e \<Rightarrow> if io_kind e = IoNotFound then Inr None else Inl e
      | Inr (is_file, len) \<Rightarrow>
          if \<not> is_file \<or> 8 * 1024 * 1024 < len
          then Inl (io_fail IoOther (lit ''invalid Agent history index file''))
          else sbind (fs_read d p fs) (\<lambda>bs. sbind (decode_json json bs) (\<lambda>v. Inr (Some v))))"

definition write_json ::
  "os \<Rightarrow> 'a codec \<Rightarrow> path \<Rightarrow> 'a \<Rightarrow> files \<Rightarrow> ((io_error + unit) \<times> files) option" where
  "write_json d json p v fs =
     (case encode_json json v of
        Inl e \<Rightarrow> Some (Inl e, fs)
      | Inr bs \<Rightarrow> atomic_write d p bs fs)"

section \<open>Operations\<close>

text \<open>The Agent Run that a lifecycle event of the timeline carries.\<close>

definition lifecycle_run :: "'j run_formats \<Rightarrow> 'j timeline_event \<Rightarrow> 'j run_info option" where
  "lifecycle_run f event =
     (if ev_kind event \<notin> {KRunStarted, KRunEnded, KRunAborted} then None
      else case bt_get (ev_metadata event) (lit ''run'') of
             None \<Rightarrow> None
           | Some v \<Rightarrow>
               (case rf_run_of f v of
                  None \<Rightarrow> None
                | Some run \<Rightarrow> if actor_kind (run_owner run) \<noteq> Agent then None else Some run))"

definition updated_record ::
  "'j timeline_event \<Rightarrow> 'j run_info \<Rightarrow> 'j agent_run_record option \<Rightarrow> 'j agent_run_record" where
  "updated_record event run old =
     \<lparr>ar_port = ev_port event,
      ar_epoch = ev_epoch event,
      ar_run = run,
      ar_started_wall_time_ns = (case old of None \<Rightarrow> ev_wall_time_ns event | Some r \<Rightarrow> ar_started_wall_time_ns r),
      ar_through_seq = ev_seq event,
      ar_hidden = (case old of None \<Rightarrow> False | Some r \<Rightarrow> ar_hidden r)\<rparr>"

definition run_record ::
  "os \<Rightarrow> 'j run_formats \<Rightarrow> run_history \<Rightarrow> 'j timeline_event \<Rightarrow> files \<Rightarrow> ((io_error + unit) \<times> files) option" where
  "run_record d f h event fs =
     (case lifecycle_run f event of
        None \<Rightarrow> Some (Inr (), fs)
      | Some run \<Rightarrow>
          (let p = record_path f h (ev_port event) (run_uuid run)
           in case sbind (fs_call_ok d (FsCreateDir (fst p))) (\<lambda>_. read_optional d (rf_record f) p fs) of
                Inl e \<Rightarrow> Some (Inl e, fs)
              | Inr old \<Rightarrow>
                  if (case old of
                        None \<Rightarrow> False
                      | Some r \<Rightarrow> ar_epoch r = ev_epoch event \<and> ev_seq event \<le> ar_through_seq r)
                  then Some (Inr (), fs)
                  else write_json d (rf_record f) p (updated_record event run old) fs))"

text \<open>A Run of an earlier daemon cannot still be active.\<close>

definition settled :: "uuid \<Rightarrow> 'j agent_run_record \<Rightarrow> 'j agent_run_record" where
  "settled current_epoch r =
     (if ar_epoch r \<noteq> current_epoch \<and> run_status (ar_run r) = Active
      then r\<lparr>ar_run := (ar_run r)\<lparr>run_status := Aborted\<rparr>\<rparr> else r)"

text \<open>One entry of the directory: the record it adds to the listing, if any.\<close>

definition scan_entry ::
  "os \<Rightarrow> 'j run_formats \<Rightarrow> rstring \<Rightarrow> rstring \<Rightarrow> uuid \<Rightarrow> files \<Rightarrow> rstring \<Rightarrow> io_error + 'j agent_run_record option" where
  "scan_entry d f dir port current_epoch fs name =
     sbind (fs_call_ok d (FsDirEntry (dir, name))) (\<lambda>_.
       case rf_uuid_parse f (file_stem name) of
         None \<Rightarrow> Inr None
       | Some i \<Rightarrow>
           sbind (fs_file_type d (dir, name) fs) (\<lambda>is_file.
             if \<not> is_file then Inr None
             else sbind (read_optional d (rf_record f) (dir, name) fs) (\<lambda>o1.
               case o1 of
                 None \<Rightarrow> Inr None
               | Some r \<Rightarrow>
                   if ar_port r \<noteq> port \<or> run_uuid (ar_run r) \<noteq> i
                   then Inl (io_fail IoOther (lit ''Agent history identity mismatch''))
                   else Inr (Some (settled current_epoch r)))))"

fun scan_records ::
  "os \<Rightarrow> 'j run_formats \<Rightarrow> rstring \<Rightarrow> rstring \<Rightarrow> uuid \<Rightarrow> files \<Rightarrow> rstring list \<Rightarrow> 'j agent_run_record list \<Rightarrow>
   io_error + 'j agent_run_record list" where
  "scan_records d f dir port current_epoch fs [] records = Inr records"
| "scan_records d f dir port current_epoch fs (name # names) records =
     sbind (scan_entry d f dir port current_epoch fs name) (\<lambda>o1.
       case o1 of
         None \<Rightarrow> scan_records d f dir port current_epoch fs names records
       | Some r \<Rightarrow>
           if length (records @ [r]) > 100000
           then Inl (io_fail IoOther (lit ''Agent history catalog exceeds safe scan bound''))
           else scan_records d f dir port current_epoch fs names (records @ [r]))"

definition record_key :: "'j agent_run_record \<Rightarrow> int \<times> uuid" where
  "record_key r = (ar_started_wall_time_ns r, run_uuid (ar_run r))"

definition run_list ::
  "os \<Rightarrow> 'j run_formats \<Rightarrow> run_history \<Rightarrow> rstring \<Rightarrow> uuid \<Rightarrow> files \<Rightarrow> io_error + 'j agent_run_record list" where
  "run_list d f h port current_epoch fs =
     (case fs_read_dir d (port_dir h port) fs of
        Inl e \<Rightarrow> if io_kind e = IoNotFound then Inr [] else Inl e
      | Inr names \<Rightarrow>
          sbind (scan_records d f (port_dir h port) port current_epoch fs names [])
            (\<lambda>records. Inr (sort_key record_key records)))"

definition visibility_default :: agent_history_visibility where
  "visibility_default = \<lparr>av_revision = 0, av_hidden = []\<rparr>"

definition run_visibility ::
  "os \<Rightarrow> 'j run_formats \<Rightarrow> run_history \<Rightarrow> rstring \<Rightarrow> files \<Rightarrow> io_error + agent_history_visibility" where
  "run_visibility d f h port fs =
     sbind (read_optional d (rf_visibility f) (visibility_path h port) fs)
       (\<lambda>o1. Inr (case o1 of None \<Rightarrow> visibility_default | Some v \<Rightarrow> v))"

definition known_runs :: "'j agent_run_record list \<Rightarrow> (uuid, 'j agent_run_record) btree" where
  "known_runs records = fold (\<lambda>r m. bt_insert (run_uuid (ar_run r)) r m) records bt_empty"

definition msg_index_incomplete :: rstring where
  "msg_index_incomplete =
     [21382, 21490, 32034, 24341, 23578, 26410, 23436, 25972, 24674, 22797, 65292, 26242, 19981,
     33021, 28165, 31354, 20840, 37096, 21382, 21490, 65307, 21487, 36873, 25321, 25972, 36718,
     32, 82, 117, 110, 32, 28165, 29702]"

definition msg_run_active :: rstring where
  "msg_run_active = [27491, 22312, 25191, 34892, 30340, 32, 82, 117, 110, 32, 19981, 33021, 28165, 29702]"

definition msg_not_archived :: rstring where
  "msg_not_archived =
     [82, 117, 110, 32, 23578, 26410, 24402, 26723, 65292, 26410, 28165, 29702, 20219, 20309,
     35760, 24405]"

definition check_selected ::
  "(uuid, 'j agent_run_record) btree \<Rightarrow> uuid option \<Rightarrow> uuid \<Rightarrow> io_error + unit" where
  "check_selected known active i =
     (if Some i = active \<or> (case bt_get known i of None \<Rightarrow> False | Some r \<Rightarrow> run_status (ar_run r) = Active)
      then Inl (io_fail IoPermissionDenied msg_run_active)
      else if \<not> bt_contains known i then Inl (io_fail IoNotFound msg_not_archived)
      else Inr ())"

definition selected_runs :: "'j agent_run_record list \<Rightarrow> uuid list option \<Rightarrow> uuid option \<Rightarrow> uuid list" where
  "selected_runs records ids active =
     (case ids of
        Some is \<Rightarrow> is
      | None \<Rightarrow> map (\<lambda>r. run_uuid (ar_run r))
          (filter (\<lambda>r. run_status (ar_run r) \<noteq> Active \<and> Some (run_uuid (ar_run r)) \<noteq> active) records))"

definition hide_more :: "uuid list \<Rightarrow> agent_history_visibility \<Rightarrow> io_error + agent_history_visibility" where
  "hide_more selected v =
     (case checked_add_u64 (av_revision v) 1 of
        None \<Rightarrow> Inl (io_fail IoOther (lit ''history revision exhausted''))
      | Some revision \<Rightarrow>
          Inr \<lparr>av_revision = revision, av_hidden = remdups_adj (sort (av_hidden v @ selected))\<rparr>)"

text \<open>Everything \<open>hide\<close> decides before it takes the lock: the Runs to hide.\<close>

definition hide_selection ::
  "os \<Rightarrow> 'j run_formats \<Rightarrow> run_history \<Rightarrow> rstring \<Rightarrow> uuid list option \<Rightarrow> uuid \<Rightarrow> uuid option \<Rightarrow> files \<Rightarrow>
   io_error + uuid list" where
  "hide_selection d f h port ids current_epoch active fs =
     (if ids = None \<and> (rh_indexing h \<or> rh_warning h \<noteq> None)
      then Inl (io_fail IoWouldBlock msg_index_incomplete)
      else sbind (run_list d f h port current_epoch fs) (\<lambda>records.
           let selected = selected_runs records ids active
           in sbind (each_ok (check_selected (known_runs records) active) selected) (\<lambda>_. Inr selected)))"

definition run_hide ::
  "os \<Rightarrow> 'j run_formats \<Rightarrow> run_history \<Rightarrow> rstring \<Rightarrow> uuid list option \<Rightarrow> uuid \<Rightarrow> uuid option \<Rightarrow> files \<Rightarrow>
   ((io_error + agent_history_visibility) \<times> files) option" where
  "run_hide d f h port ids current_epoch active fs =
     (case sbind (hide_selection d f h port ids current_epoch active fs) (\<lambda>selected.
           sbind (fs_call_ok d (FsCreateDir (port_dir h port))) (\<lambda>_.
           sbind (run_visibility d f h port fs) (hide_more selected))) of
        Inl e \<Rightarrow> Some (Inl e, fs)
      | Inr v \<Rightarrow>
          (case write_json d (rf_visibility f) (visibility_path h port) v fs of
             None \<Rightarrow> None
           | Some (Inl e, fs') \<Rightarrow> Some (Inl e, fs')
           | Some (Inr _, fs') \<Rightarrow> Some (Inr v, fs')))"

end
