(* ===== verification/JournalWriter.thy ===== *)
theory JournalWriter
  imports JournalStore HumanHistory RunHistory Complex_Main
begin

text \<open>
  The writer of the journal, \<open>WriterState\<close> and \<open>OpenSegment\<close> of \<open>crates/seriald/src/journal.rs\<close>:
  appending with rotation, the retention of old segments, and opening and closing the store. An
  operation takes the answers of the operating system and of the clocks as its inputs; an instant
  is a number of nanoseconds, a stream is a port and a daemon epoch.
\<close>

section \<open>Configuration and state\<close>

text \<open>\<open>cleanup_low_watermark\<close> is the rational value of the \<open>f64\<close>, \<open>None\<close> when it is not finite.\<close>

record journal_config =
  jc_root :: rstring
  jc_queue_capacity :: nat
  jc_max_segment_bytes :: nat
  jc_max_segment_age :: nat
  jc_max_total_bytes :: nat
  jc_low_watermark :: "rat option"
  jc_ack_timeout :: nat

definition validate_config :: "journal_config \<Rightarrow> journal_error + unit" where
  "validate_config g =
     (if jc_queue_capacity g = 0 then Inl (InvalidConfig (lit ''queue_capacity must be greater than zero''))
      else if jc_ack_timeout g = 0 then Inl (InvalidConfig (lit ''ack_timeout must be greater than zero''))
      else if jc_max_segment_bytes g = 0
      then Inl (InvalidConfig (lit ''max_segment_bytes must be greater than zero''))
      else if jc_max_segment_age g = 0 then Inl (InvalidConfig (lit ''max_segment_age must be greater than zero''))
      else if jc_max_total_bytes g = 0 then Inl (InvalidConfig (lit ''max_total_bytes must be greater than zero''))
      else if (case jc_low_watermark g of None \<Rightarrow> True | Some w \<Rightarrow> w \<le> 0 \<or> w > 1)
      then Inl (InvalidConfig (lit ''cleanup_low_watermark must be in (0, 1]''))
      else Inr ())"

text \<open>
  The third-party parts: the formats of the journal, the JSON of the human history and of the Run
  index, the text of an error; \<open>we_round\<close> is the rounding of IEEE 754 to the nearest double.
\<close>

record 'j writer_env =
  we_journal :: "'j journal_env"
  we_history :: "persisted codec"
  we_json :: "'j json_api"
  we_formats :: "'j run_formats"
  we_show_io :: "io_error \<Rightarrow> rstring"
  we_round :: "rat \<Rightarrow> rat"

type_synonym stream_key = "rstring \<times> uuid"

record open_segment =
  og_header :: segment_header
  og_path :: path
  og_position :: nat
  og_bytes_written :: nat
  og_last_seq :: nat
  og_opened_at :: nat

record writer_state =
  ws_history :: history_state
  ws_runs :: run_history
  ws_open :: "(stream_key, open_segment) btree"
  ws_heads :: "(stream_key, nat) btree"
  ws_total_bytes :: nat
  ws_retry_at :: "nat option"
  ws_failures :: nat

text \<open>
  The inputs of one operation: the answers of the operating system while it prepares the segment,
  while it writes the record and while it keeps the indexes, the readings of the clocks, and the
  identifier of a new segment.
\<close>

record writer_inputs =
  wi_os :: os
  wi_append_os :: os
  wi_index_os :: os
  wi_gap_wall :: int
  wi_rotate_now :: nat
  wi_capacity_now :: nat
  wi_retention_wall :: "path \<Rightarrow> int"
  wi_segment_id :: uuid
  wi_created_wall :: int
  wi_opened_now :: nat

definition now_wall_time_ns :: "int \<Rightarrow> int" where
  "now_wall_time_ns since_epoch =
     (if since_epoch \<ge> 0 then min since_epoch I64_MAX else - (min (- since_epoch) I64_MAX))"

definition history_path :: "journal_config \<Rightarrow> path" where
  "history_path g = (jc_root g, lit ''human-history.json'')"

section \<open>Open segments\<close>

definition header_for_event :: "uuid \<Rightarrow> int \<Rightarrow> 'j timeline_event \<Rightarrow> segment_header" where
  "header_for_event segment_id wall e =
     \<lparr>sh_port = ev_port e, sh_epoch = ev_epoch e, sh_segment_id = segment_id,
      sh_created_wall_time_ns = wall, sh_first_seq = ev_seq e\<rparr>"

text \<open>
  \<open>write_all\<close> at the position of an open file: what fails may have written a part. \<open>flush\<close> does
  nothing on a file.
\<close>

definition fs_write_at :: "os \<Rightarrow> path \<Rightarrow> nat \<Rightarrow> bytes \<Rightarrow> (files, io_error, unit) action" where
  "fs_write_at d p pos bs fs =
     (case bt_get fs p of
        Some (Regular old) \<Rightarrow>
          (let written = (if os_fault d (FsWrite p) = None then bs else take (os_written d) bs)
           in (case os_fault d (FsWrite p) of Some e \<Rightarrow> Inl e | None \<Rightarrow> Inr (),
               bt_insert p (Regular (take pos old @ replicate (pos - length old) 0 @ written @
                                     drop (pos + length written) old)) fs))
      | _ \<Rightarrow> (Inl (io_fail IoNotFound (lit ''not found'')), fs))"

definition create_with_header ::
  "'j journal_env \<Rightarrow> os \<Rightarrow> rstring \<Rightarrow> nat \<Rightarrow> segment_header \<Rightarrow> (files, journal_error, open_segment) action" where
  "create_with_header env d root_dir now h fs =
     (let directory = epoch_dir env root_dir (sh_port h) (sh_epoch h);
          p = (directory, open_name env h)
      in case fs_call_ok d (FsCreateDir directory) of
           Inl e \<Rightarrow> (Inl (JIo e), fs)
         | Inr _ \<Rightarrow>
             (case open_private_temporary d p fs of
                Inl e \<Rightarrow> (Inl (JIo e), fs)
              | Inr fs \<Rightarrow>
                  (case encode_segment_header env h of
                     Inl e \<Rightarrow> (Inl e, fs)
                   | Inr bs \<Rightarrow>
                       (case fs_write_at d p 0 bs fs of
                          (Inl e, fs) \<Rightarrow> (Inl (JIo e), fs)
                        | (Inr _, fs) \<Rightarrow>
                            (Inr \<lparr>og_header = h, og_path = p, og_position = length bs,
                                  og_bytes_written = length bs, og_last_seq = 0, og_opened_at = now\<rparr>, fs)))))"

definition should_rotate :: "journal_config \<Rightarrow> nat \<Rightarrow> nat \<Rightarrow> open_segment \<Rightarrow> bool" where
  "should_rotate g now next_record_bytes s \<longleftrightarrow>
     og_last_seq s \<noteq> 0 \<and>
     (saturating_add_u64 (og_bytes_written s) next_record_bytes > jc_max_segment_bytes g \<or>
      now - og_opened_at s \<ge> jc_max_segment_age g)"

datatype append_outcome = Appended open_segment | Recovered journal_error open_segment | Poisoned journal_error

definition join_text :: "rstring \<Rightarrow> rstring list \<Rightarrow> rstring" where
  "join_text separator texts =
     (case texts of [] \<Rightarrow> [] | t # ts \<Rightarrow> t @ concat (map (\<lambda>t. separator @ t) ts))"

definition segment_append ::
  "os \<Rightarrow> open_segment \<Rightarrow> bytes \<Rightarrow> nat \<Rightarrow> files \<Rightarrow> append_outcome \<times> files" where
  "segment_append d s rec seq fs =
     (case fs_write_at d (og_path s) (og_position s) rec fs of
        (Inr _, fs) \<Rightarrow>
          (Appended (s\<lparr>og_position := og_position s + length rec,
                       og_bytes_written := saturating_add_u64 (og_bytes_written s) (length rec),
                       og_last_seq := seq\<rparr>), fs)
      | (Inl append_error, fs) \<Rightarrow>
          (let (truncated, fs) = fs_set_len d (og_path s) (og_bytes_written s) fs;
               rollback_errors =
                 (case truncated of Inl e \<Rightarrow> [lit ''truncate failed: '' @ io_text e] | Inr _ \<Rightarrow> []) @
                 (case os_fault d (FsSeek (og_path s)) of
                    Some e \<Rightarrow> [lit ''seek failed: '' @ io_text e]
                  | None \<Rightarrow> [])
           in if rollback_errors = []
              then (Recovered (JIo append_error)
                      (s\<lparr>og_position := (case bt_get fs (og_path s) of Some (Regular bs) \<Rightarrow> length bs | _ \<Rightarrow> 0)\<rparr>),
                    fs)
              else (Poisoned (SegmentPoisoned (og_path s) (io_text append_error)
                      (join_text (lit ''; '') rollback_errors)), fs)))"

definition segment_seal ::
  "'j journal_env \<Rightarrow> os \<Rightarrow> open_segment \<Rightarrow> (files, journal_error, segment_descriptor) action" where
  "segment_seal env d s =
     (if og_last_seq s = 0 then
        st_bind (st_map_error JIo (fs_remove d (og_path s))) (\<lambda>_.
        st_lift (Inl (Corrupt (og_path s) (lit ''cannot seal an empty segment''))))
      else
        st_bind (st_map_error JIo (fs_sync d (og_path s))) (\<lambda>_.
        (let target = sealed_path env (og_path s) (og_header s) (og_last_seq s)
         in st_bind (st_map_error JIo (replace_file d (og_path s) target)) (\<lambda>_.
            st_return \<lparr>sd_header = og_header s, sd_path = target, sd_last_seq = Some (og_last_seq s),
                       sd_sealed = True\<rparr>))))"

section \<open>Retention\<close>

type_synonym writer_store = "writer_state \<times> files"

definition on_state :: "(writer_state \<Rightarrow> writer_state) \<Rightarrow> (writer_store, 'e, unit) action" where
  "on_state f w = (Inr (), (f (fst w), snd w))"

definition on_files :: "(files, 'e, 'a) action \<Rightarrow> (writer_store, 'e, 'a) action" where
  "on_files m w = (case m (snd w) of (r, fs) \<Rightarrow> (r, (fst w, fs)))"

definition reading :: "(writer_store \<Rightarrow> 'e + 'a) \<Rightarrow> (writer_store, 'e, 'a) action" where
  "reading f w = (f w, w)"

definition set_total :: "nat \<Rightarrow> (writer_store, 'e, unit) action" where
  "set_total n = on_state (\<lambda>s. s\<lparr>ws_total_bytes := n\<rparr>)"

definition record_gap ::
  "'j journal_env \<Rightarrow> os \<Rightarrow> rstring \<Rightarrow> stored_gap \<Rightarrow> (writer_store, journal_error, unit) action" where
  "record_gap env d root_dir gap =
     st_bind (on_files (append_gap_ledger env d root_dir gap)) (\<lambda>update.
       on_state (\<lambda>s. s\<lparr>ws_total_bytes :=
         saturating_add_u64 (ws_total_bytes s - gl_truncated_bytes update) (gl_appended_bytes update)\<rparr>))"

definition fits_within :: "journal_config \<Rightarrow> nat \<Rightarrow> nat \<Rightarrow> bool" where
  "fits_within g total_bytes additional \<longleftrightarrow> saturating_add_u64 total_bytes additional \<le> jc_max_total_bytes g"

definition path_text :: "path \<Rightarrow> rstring" where
  "path_text p = path_join (fst p) (snd p)"

text \<open>The deletion loop; it returns the deletions that failed.\<close>

fun retention_loop ::
  "'j journal_env \<Rightarrow> os \<Rightarrow> journal_config \<Rightarrow> (path \<Rightarrow> int) \<Rightarrow> nat \<Rightarrow> nat \<Rightarrow> segment_descriptor list \<Rightarrow>
   rstring list \<Rightarrow> (writer_store, journal_error, rstring list) action" where
  "retention_loop env d g wall target additional [] failures w = (Inr failures, w)"
| "retention_loop env d g wall target additional (seg # segs) failures w =
     (let later = retention_loop env d g wall target additional segs;
          total_bytes = ws_total_bytes (fst w)
      in if total_bytes \<le> target \<and> fits_within g total_bytes additional then (Inr failures, w)
         else
           (case sd_last_seq seg of
              None \<Rightarrow> later failures w
            | Some last_seq \<Rightarrow>
                (case fs_metadata d (sd_path seg) (snd w) of
                   Inl e \<Rightarrow> if io_kind e = IoNotFound then later failures w else (Inl (JIo e), w)
                 | Inr (_, file_size) \<Rightarrow>
                     (case fs_remove d (sd_path seg) (snd w) of
                        (Inr _, fs) \<Rightarrow>
                          st_bind (set_total (total_bytes - file_size)) (\<lambda>_.
                          st_bind (record_gap env d (jc_root g)
                            \<lparr>sg_port = sh_port (sd_header seg), sg_epoch = sh_epoch (sd_header seg),
                             sg_first_seq = sh_first_seq (sd_header seg), sg_last_seq = last_seq,
                             sg_reason = Retention,
                             sg_recorded_wall_time_ns = now_wall_time_ns (wall (sd_path seg))\<rparr>) (\<lambda>_.
                          later failures)) (fst w, fs)
                      | (Inl e, fs) \<Rightarrow>
                          if io_kind e = IoNotFound then later failures (fst w, fs)
                          else later (failures @ [path_text (sd_path seg) @ lit '': '' @ io_text e]) (fst w, fs)))))"

definition low_watermark_bytes :: "(rat \<Rightarrow> rat) \<Rightarrow> journal_config \<Rightarrow> nat" where
  "low_watermark_bytes to_f64 g =
     (case jc_low_watermark g of
        None \<Rightarrow> 0
      | Some w \<Rightarrow> min (nat \<lfloor>to_f64 (to_f64 (of_nat (jc_max_total_bytes g)) * w)\<rfloor>) U64_MAX)"

definition retention_order :: "segment_descriptor list \<Rightarrow> segment_descriptor list" where
  "retention_order segs =
     sort_key (\<lambda>s. (sh_created_wall_time_ns (sd_header s), sh_first_seq (sd_header s))) (filter sd_sealed segs)"

definition enforce_retention ::
  "'j writer_env \<Rightarrow> os \<Rightarrow> journal_config \<Rightarrow> (path \<Rightarrow> int) \<Rightarrow> nat \<Rightarrow> (writer_store, journal_error, unit) action" where
  "enforce_retention we d g wall additional =
     st_bind (reading (\<lambda>w. directory_size d (jc_root g) (snd w))) (\<lambda>file_size.
     st_bind (set_total file_size) (\<lambda>_.
     if fits_within g file_size additional then st_return ()
     else
       (let target = low_watermark_bytes (we_round we) g
        in st_bind (reading (\<lambda>w. discover_segments (we_journal we) d (jc_root g) None (snd w))) (\<lambda>segs.
           st_bind (retention_loop (we_journal we) d g wall target additional (retention_order segs) []) (\<lambda>failures.
           st_bind (reading (\<lambda>w. directory_size d (jc_root g) (snd w))) (\<lambda>file_size.
           st_bind (set_total file_size) (\<lambda>_.
           if failures \<noteq> [] \<or> file_size > target \<or> \<not> fits_within g file_size additional
           then st_lift (Inl (RetentionFailed (saturating_add_u64 file_size additional) target
                  (if failures = [] then lit ''insufficient sealed segments are available for cleanup''
                   else join_text (lit ''; '') failures)))
           else st_return ())))))))"

definition clear_backoff :: "writer_state \<Rightarrow> writer_state" where
  "clear_backoff s = s\<lparr>ws_retry_at := None, ws_failures := 0\<rparr>"

text \<open>\<open>retention_failures\<close> is a \<open>u32\<close>.\<close>

definition note_retention_failure :: "nat \<Rightarrow> writer_state \<Rightarrow> writer_state" where
  "note_retention_failure now s =
     (let failures = min (ws_failures s + 1) (2 ^ 32 - 1);
          exponent = min (failures - 1) 6;
          delay_seconds = min (2 ^ exponent) 60
      in s\<lparr>ws_failures := failures, ws_retry_at := Some (now + delay_seconds * 1000000000)\<rparr>)"

definition ensure_capacity ::
  "'j writer_env \<Rightarrow> os \<Rightarrow> journal_config \<Rightarrow> (path \<Rightarrow> int) \<Rightarrow> nat \<Rightarrow> nat \<Rightarrow>
   (writer_store, journal_error, unit) action" where
  "ensure_capacity we d g wall now additional w =
     (let projected = saturating_add_u64 (ws_total_bytes (fst w)) additional
      in if projected \<le> jc_max_total_bytes g then (Inr (), (clear_backoff (fst w), snd w))
         else
           (case (case ws_retry_at (fst w) of Some retry_at \<Rightarrow> if retry_at > now then Some retry_at else None
                                            | None \<Rightarrow> None) of
              Some retry_at \<Rightarrow>
                (Inl (RetentionBackoff projected (jc_max_total_bytes g)
                   (max (min ((retry_at - now) div 1000000) U64_MAX) 1)), w)
            | None \<Rightarrow>
                (case enforce_retention we d g wall additional w of
                   (Inr _, w) \<Rightarrow> (Inr (), (clear_backoff (fst w), snd w))
                 | (Inl e, w) \<Rightarrow> (Inl e, (note_retention_failure now (fst w), snd w)))))"

section \<open>Appending\<close>

definition head_of :: "writer_state \<Rightarrow> stream_key \<Rightarrow> nat" where
  "head_of s k = (case bt_get (ws_heads s) k of None \<Rightarrow> 0 | Some n \<Rightarrow> n)"

definition event_key :: "'j timeline_event \<Rightarrow> stream_key" where
  "event_key e = (ev_port e, ev_epoch e)"

text \<open>The checks of \<open>append\<close>, and the gap it records before it writes anything.\<close>

definition admit ::
  "'j writer_env \<Rightarrow> writer_inputs \<Rightarrow> journal_config \<Rightarrow> 'j timeline_event \<Rightarrow> (writer_store, journal_error, unit) action" where
  "admit we i g e =
     st_bind (st_lift (validate_port (ev_port e))) (\<lambda>_.
     if ev_seq e = 0 then st_lift (Inl (NonMonotonicSequence (ev_port e) (ev_epoch e) 0 0))
     else
       st_bind (reading (\<lambda>w. Inr (head_of (fst w) (event_key e)))) (\<lambda>previous.
       if ev_seq e \<le> previous
       then st_lift (Inl (NonMonotonicSequence (ev_port e) (ev_epoch e) previous (ev_seq e)))
       else if ev_seq e > saturating_add_u64 previous 1
       then record_gap (we_journal we) (wi_os i) (jc_root g)
              \<lparr>sg_port = ev_port e, sg_epoch = ev_epoch e, sg_first_seq = saturating_add_u64 previous 1,
               sg_last_seq = ev_seq e - 1, sg_reason = LoggingFault,
               sg_recorded_wall_time_ns = now_wall_time_ns (wi_gap_wall i)\<rparr>
       else st_return ()))"

definition rotate ::
  "'j writer_env \<Rightarrow> os \<Rightarrow> stream_key \<Rightarrow> (writer_store, journal_error, unit) action" where
  "rotate we d k w =
     (case bt_get (ws_open (fst w)) k of
        None \<Rightarrow> (Inr (), w)
      | Some s \<Rightarrow>
          st_bind (on_state (\<lambda>st. st\<lparr>ws_open := bt_remove k (ws_open st)\<rparr>)) (\<lambda>_.
          st_bind (on_files (segment_seal (we_journal we) d s)) (\<lambda>_. st_return ())) w)"

text \<open>Up to the write: rotation, room for the record, and a segment to write it to.\<close>

definition prepare_segment ::
  "'j writer_env \<Rightarrow> writer_inputs \<Rightarrow> journal_config \<Rightarrow> 'j timeline_event \<Rightarrow> bytes \<Rightarrow>
   (writer_store, journal_error, unit) action" where
  "prepare_segment we i g e rec =
     (let k = event_key e
      in st_bind (\<lambda>w. if (case bt_get (ws_open (fst w)) k of
                          None \<Rightarrow> False
                        | Some s \<Rightarrow> should_rotate g (wi_rotate_now i) (length rec) s)
                      then rotate we (wi_os i) k w else (Inr (), w)) (\<lambda>_.
         st_bind (reading (\<lambda>w. Inr (if bt_contains (ws_open (fst w)) k then None
            else Some (header_for_event (wi_segment_id i) (now_wall_time_ns (wi_created_wall i)) e)))) (\<lambda>pending.
         st_bind (st_lift (case pending of None \<Rightarrow> Inr 0
                           | Some h \<Rightarrow> segment_header_encoded_len (we_journal we) h)) (\<lambda>header_bytes.
         st_bind (ensure_capacity we (wi_os i) g (wi_retention_wall i) (wi_capacity_now i)
                   (saturating_add_u64 (length rec) header_bytes)) (\<lambda>_.
         (case pending of
            None \<Rightarrow> st_return ()
          | Some h \<Rightarrow>
              st_bind (on_files (create_with_header (we_journal we) (wi_os i) (jc_root g) (wi_opened_now i) h))
                (\<lambda>s. on_state (\<lambda>st. st\<lparr>ws_total_bytes := saturating_add_u64 (ws_total_bytes st) (og_bytes_written s),
                                       ws_open := bt_insert k s (ws_open st)\<rparr>))))))))"

text \<open>After the write: the human history and the index of Agent Runs. \<open>None\<close> as in \<open>atomic_write\<close>.\<close>

definition index_event ::
  "'j writer_env \<Rightarrow> os \<Rightarrow> journal_config \<Rightarrow> 'j timeline_event \<Rightarrow> writer_store \<Rightarrow>
   ((journal_error + 'j timeline_event) \<times> writer_store) option" where
  "index_event we d g e w =
     (case history_record d (we_history we) (we_show_io we) (we_json we) (history_path g) e
             (ws_history (fst w)) (snd w) of
        None \<Rightarrow> None
      | Some (Inl err, history, fs) \<Rightarrow> Some (Inl (JIo err), ((fst w)\<lparr>ws_history := history\<rparr>, fs))
      | Some (Inr _, history, fs) \<Rightarrow>
          (case run_record d (we_formats we) (ws_runs (fst w)) e fs of
             None \<Rightarrow> None
           | Some (Inr _, fs) \<Rightarrow> Some (Inr e, ((fst w)\<lparr>ws_history := history\<rparr>, fs))
           | Some (Inl err, fs) \<Rightarrow>
               Some (Inr e, ((fst w)\<lparr>ws_history := history,
                 ws_runs := (ws_runs (fst w))\<lparr>rh_warning := Some (we_show_io we err)\<rparr>\<rparr>, fs))))"

definition write_record ::
  "'j writer_env \<Rightarrow> writer_inputs \<Rightarrow> journal_config \<Rightarrow> 'j timeline_event \<Rightarrow> bytes \<Rightarrow> writer_store \<Rightarrow>
   ((journal_error + 'j timeline_event) \<times> writer_store) option" where
  "write_record we i g e rec w =
     (let k = event_key e
      in case bt_get (ws_open (fst w)) k of
           None \<Rightarrow> None
         | Some s \<Rightarrow>
             (case segment_append (wi_append_os i) s rec (ev_seq e) (snd w) of
                (Appended s', fs) \<Rightarrow>
                  index_event we (wi_index_os i) g e
                    ((fst w)\<lparr>ws_total_bytes := saturating_add_u64 (ws_total_bytes (fst w)) (length rec),
                       ws_open := bt_insert k s' (ws_open (fst w)),
                       ws_heads := bt_insert k (ev_seq e) (ws_heads (fst w))\<rparr>, fs)
              | (Recovered err s', fs) \<Rightarrow>
                  Some (Inl err, ((fst w)\<lparr>ws_open := bt_insert k s' (ws_open (fst w))\<rparr>, fs))
              | (Poisoned err, fs) \<Rightarrow>
                  Some (Inl err,
                    ((fst w)\<lparr>ws_total_bytes :=
                       (case fs_metadata (wi_append_os i) (og_path s) fs of
                          Inr (_, n) \<Rightarrow> saturating_add_u64 (ws_total_bytes (fst w) - og_bytes_written s) n
                        | Inl _ \<Rightarrow> ws_total_bytes (fst w)),
                       ws_open := bt_remove k (ws_open (fst w))\<rparr>, fs))))"

definition journal_append ::
  "'j writer_env \<Rightarrow> writer_inputs \<Rightarrow> journal_config \<Rightarrow> 'j timeline_event \<Rightarrow> writer_store \<Rightarrow>
   ((journal_error + 'j timeline_event) \<times> writer_store) option" where
  "journal_append we i g event w =
     (case admit we i g event w of
        (Inl err, w) \<Rightarrow> Some (Inl err, w)
      | (Inr _, w) \<Rightarrow>
          (let event = event\<lparr>ev_durable := True\<rparr>
           in case encode_record (we_journal we) event of
                Inl err \<Rightarrow> Some (Inl err, w)
              | Inr rec \<Rightarrow>
                  (case prepare_segment we i g event rec w of
                     (Inl err, w) \<Rightarrow> Some (Inl err, w)
                   | (Inr _, w) \<Rightarrow> write_record we i g event rec w)))"

section \<open>Flushing and closing\<close>

fun flush_segments :: "os \<Rightarrow> open_segment list \<Rightarrow> (files, journal_error, unit) action" where
  "flush_segments d [] = st_return ()"
| "flush_segments d (s # ss) = st_bind (st_map_error JIo (fs_sync d (og_path s))) (\<lambda>_. flush_segments d ss)"

definition flush_all :: "os \<Rightarrow> (writer_store, journal_error, unit) action" where
  "flush_all d w = on_files (flush_segments d (bt_values (ws_open (fst w)))) w"

text \<open>The first error of sealing every open segment.\<close>

fun seal_segments ::
  "'j journal_env \<Rightarrow> os \<Rightarrow> open_segment list \<Rightarrow> journal_error option \<Rightarrow> files \<Rightarrow> journal_error option \<times> files" where
  "seal_segments env d [] first_error fs = (first_error, fs)"
| "seal_segments env d (s # ss) first_error fs =
     (case segment_seal env d s fs of
        (Inl e, fs) \<Rightarrow> seal_segments env d ss (if first_error = None then Some e else first_error) fs
      | (Inr _, fs) \<Rightarrow> seal_segments env d ss first_error fs)"

definition writer_finish ::
  "'j writer_env \<Rightarrow> os \<Rightarrow> journal_config \<Rightarrow> (path \<Rightarrow> int) \<Rightarrow> (writer_store, journal_error, unit) action" where
  "writer_finish we d g wall w =
     (case seal_segments (we_journal we) d (bt_values (ws_open (fst w))) None (snd w) of
        (first_error, fs) \<Rightarrow>
          (case enforce_retention we d g wall 0 ((fst w)\<lparr>ws_open := bt_empty\<rparr>, fs) of
             (r, w) \<Rightarrow>
               (case first_error of
                  Some e \<Rightarrow> (Inl e, w)
                | None \<Rightarrow> (r, w))))"

section \<open>Opening\<close>

definition raise_head :: "segment_descriptor \<Rightarrow> (stream_key, nat) btree \<Rightarrow> (stream_key, nat) btree" where
  "raise_head s heads =
     (case sd_last_seq s of
        None \<Rightarrow> heads
      | Some last_seq \<Rightarrow>
          (let k = (sh_port (sd_header s), sh_epoch (sd_header s))
           in bt_insert k (case bt_get heads k of None \<Rightarrow> last_seq | Some n \<Rightarrow> max n last_seq) heads))"

definition writer_initialize ::
  "'j writer_env \<Rightarrow> os \<Rightarrow> journal_config \<Rightarrow> (path \<Rightarrow> int) \<Rightarrow> nat \<Rightarrow> files \<Rightarrow>
   (journal_error + writer_state) \<times> files" where
  "writer_initialize we d g wall now fs =
     (case sbind (discover_segments (we_journal we) d (jc_root g) None fs) (\<lambda>segs.
           sbind (directory_size d (jc_root g) fs) (\<lambda>file_size.
           sbind (map_error JIo (history_open d (we_history we) (history_path g) fs)) (\<lambda>history.
             Inr \<lparr>ws_history = history,
                  ws_runs = run_history_new (path_join (jc_root g) (lit ''agent-history'')),
                  ws_open = bt_empty, ws_heads = fold raise_head segs bt_empty, ws_total_bytes = file_size,
                  ws_retry_at = None, ws_failures = 0\<rparr>))) of
        Inl e \<Rightarrow> (Inl e, fs)
      | Inr s \<Rightarrow>
          (case ensure_capacity we d g wall now 0 (s, fs) of
             (Inl e, (_, fs)) \<Rightarrow> (Inl e, fs)
           | (Inr _, (s, fs)) \<Rightarrow> (Inr s, fs)))"

text \<open>\<open>JournalManager::open\<close>, up to the spawning of its threads.\<close>

definition journal_open ::
  "'j writer_env \<Rightarrow> os \<Rightarrow> journal_config \<Rightarrow> (path \<Rightarrow> int) \<Rightarrow> nat \<Rightarrow> files \<Rightarrow>
   (journal_error + writer_state) \<times> files" where
  "journal_open we d g wall now =
     st_bind (st_lift (validate_config g)) (\<lambda>_.
     st_bind (st_lift (validate_root (jc_root g))) (\<lambda>_.
     st_bind (st_lift (map_error JIo (fs_call_ok d (FsCreateDir (slots_root (jc_root g)))))) (\<lambda>_.
     st_bind (recover_gap_ledger (we_journal we) d (jc_root g)) (\<lambda>_.
     st_bind (\<lambda>fs. (map_error JIo (collect_files d (jc_root g) (Some (lit ''open'')) fs), fs)) (\<lambda>ps.
     st_bind (recover_open_segments (we_journal we) d ps) (\<lambda>_.
     writer_initialize we d g wall now))))))"

end
