(* ===== verification/JournalFrames.thy ===== *)
theory JournalFrames
  imports JournalWriter
begin

text \<open>
  What the operations of the writer leave alone: the gap ledger, the human history and the index of
  Runs touch no segment; retention removes sealed segments and touches nothing else of a stream.
\<close>

section \<open>What an operation leaves alone\<close>

text \<open>No segment changes; or sealed segments at most disappear.\<close>

definition segments_same :: "files \<Rightarrow> files \<Rightarrow> bool" where
  "segments_same fs fs' \<longleftrightarrow>
     (bt_wf fs \<longrightarrow> bt_wf fs') \<and> (\<forall>p. is_segment_name p \<longrightarrow> bt_get fs' p = bt_get fs p)"

definition segments_shrink :: "files \<Rightarrow> files \<Rightarrow> bool" where
  "segments_shrink fs fs' \<longleftrightarrow>
     (bt_wf fs \<longrightarrow> bt_wf fs') \<and>
     (\<forall>p. is_segment_name p \<longrightarrow>
        bt_get fs' p = bt_get fs p \<or> (is_sealed_name p \<and> bt_get fs' p = None))"

lemma segments_same_refl [simp]: "segments_same fs fs"
  by (simp add: segments_same_def)

lemma segments_same_trans: "segments_same fs fs1 \<Longrightarrow> segments_same fs1 fs2 \<Longrightarrow> segments_same fs fs2"
  by (simp add: segments_same_def)

lemma segments_shrink_refl [simp]: "segments_shrink fs fs"
  by (simp add: segments_shrink_def)

lemma segments_same_shrink: "segments_same fs fs' \<Longrightarrow> segments_shrink fs fs'"
  by (simp add: segments_same_def segments_shrink_def)

lemma segments_shrink_trans:
  assumes "segments_shrink fs fs1" "segments_shrink fs1 fs2"
  shows "segments_shrink fs fs2"
proof -
  have "bt_get fs2 p = bt_get fs p \<or> (is_sealed_name p \<and> bt_get fs2 p = None)" if "is_segment_name p" for p
    using assms that unfolding segments_shrink_def by metis
  then show ?thesis using assms by (simp add: segments_shrink_def)
qed

lemma same_insert: "\<not> is_segment_name p \<Longrightarrow> segments_same fs (bt_insert p n fs)"
  by (auto simp: segments_same_def bt_get_insert bt_wf_insert)

lemma same_remove: "\<not> is_segment_name p \<Longrightarrow> segments_same fs (bt_remove p fs)"
  by (auto simp: segments_same_def bt_get_remove bt_wf_remove)

lemma shrink_remove: "is_sealed_name p \<Longrightarrow> segments_shrink fs (bt_remove p fs)"
  by (auto simp: segments_shrink_def bt_get_remove bt_wf_remove)

text \<open>The files that an index never touches: the segments and the gap ledger.\<close>

definition lasting :: "path \<Rightarrow> bool" where
  "lasting p \<longleftrightarrow> is_segment_name p \<or> extension p = Some (lit ''jsonl'')"

definition lasting_same :: "files \<Rightarrow> files \<Rightarrow> bool" where
  "lasting_same fs fs' \<longleftrightarrow> (bt_wf fs \<longrightarrow> bt_wf fs') \<and> (\<forall>p. lasting p \<longrightarrow> bt_get fs' p = bt_get fs p)"

lemma lasting_same_refl [simp]: "lasting_same fs fs"
  by (simp add: lasting_same_def)

lemma lasting_same_trans: "lasting_same fs fs1 \<Longrightarrow> lasting_same fs1 fs2 \<Longrightarrow> lasting_same fs fs2"
  by (simp add: lasting_same_def)

lemma lasting_same_segments: "lasting_same fs fs' \<Longrightarrow> segments_same fs fs'"
  by (simp add: lasting_same_def segments_same_def lasting_def)

lemma lasting_insert: "\<not> lasting p \<Longrightarrow> lasting_same fs (bt_insert p n fs)"
  by (auto simp: lasting_same_def bt_get_insert bt_wf_insert)

lemma lasting_remove: "\<not> lasting p \<Longrightarrow> lasting_same fs (bt_remove p fs)"
  by (auto simp: lasting_same_def bt_get_remove bt_wf_remove)

lemma lasting_replaced:
  "\<not> lasting p \<Longrightarrow> \<not> lasting q \<Longrightarrow> lasting_same fs (bt_insert p n (bt_remove q (bt_insert q m fs)))"
  by (rule lasting_same_trans [OF lasting_same_trans [OF lasting_insert lasting_remove] lasting_insert])

text \<open>Files by their extension.\<close>

lemma extension_is:
  assumes "snd p = stem @ 46 # ext" "stem \<noteq> []" "46 \<notin> set ext" "ext \<noteq> []"
  shows "extension p = Some ext"
  using split_extension_append [OF assms(2-4)] assms(1) by (simp add: extension_def)

lemma ledger_extension: "extension (ledger_path root_dir) = Some (lit ''jsonl'')"
  by (rule extension_is [of _ "lit ''retention-gaps''"]) (simp_all add: ledger_path_def lit_def)

lemma ledger_lasting [simp]: "lasting (ledger_path root_dir)"
  by (simp add: lasting_def ledger_extension)

lemma ledger_no_segment [simp]: "\<not> is_segment_name (ledger_path root_dir)"
  by (simp add: is_segment_name_def is_sealed_name_def ledger_extension lit_def)

lemma extension_other:
  assumes "snd p = stem @ 46 # ext" "stem \<noteq> []" "46 \<notin> set ext" "ext \<noteq> []"
    "ext \<noteq> lit ''slog''" "ext \<noteq> lit ''open''" "ext \<noteq> lit ''jsonl''"
  shows "\<not> lasting p"
  using extension_is [OF assms(1-4)] assms(5-7) by (simp add: lasting_def is_segment_name_def is_sealed_name_def)

lemma history_no_segment [simp]: "\<not> lasting (history_path g)"
  by (rule extension_other [of _ "lit ''human-history''" "lit ''json''"]) (simp_all add: history_path_def lit_def)

lemma temporary_no_segment: "\<not> lasting (dir, temporary_name name u)"
  by (rule extension_other [of _ "lit ''.'' @ name @ lit ''.'' @ u" "lit ''tmp''"])
    (simp_all add: temporary_name_def lit_def)

lemma record_no_segment:
  assumes "rf_uuid_text f i \<noteq> []"
  shows "\<not> lasting (record_path f h port i)"
  by (rule extension_other [of _ "rf_uuid_text f i" "lit ''json''"]) (use assms in \<open>simp_all add: record_path_def lit_def\<close>)

section \<open>The ledger and the indexes\<close>

lemma set_len_other: "fs_set_len d p n fs = (r, fs') \<Longrightarrow> \<not> is_segment_name p \<Longrightarrow> segments_same fs fs'"
  by (auto simp: fs_set_len_def same_insert split: option.splits node.splits)

lemma recover_ledger_same:
  assumes "recover_gap_ledger_file env d p fs = (r, fs')" "\<not> is_segment_name p"
  shows "segments_same fs fs'"
  using assms
  by (auto simp: recover_gap_ledger_file_def st_bind_def st_map_error_def fs_len_def fs_sync_def Let_def
      split: option.splits sum.splits if_splits prod.splits dest: set_len_other)

lemma append_ledger_same:
  assumes "append_gap_ledger env d root_dir gap fs = (r, fs')"
  shows "segments_same fs fs'"
proof -
  have created: "segments_same fs f" if "fs_open_create d (ledger_path root_dir) fs = (x, f)" for x f
    using that by (auto simp: fs_open_create_def same_insert split: option.splits if_splits)
  have appended: "segments_same f f'" if "fs_append d (ledger_path root_dir) bs f = (x, f')" for x f f' bs
    using that by (auto simp: fs_append_def same_insert split: option.splits node.splits)
  have synced: "f' = f" if "fs_sync d (ledger_path root_dir) f = (x, f')" for x f f'
    using that by (auto simp: fs_sync_def split: option.splits)
  show ?thesis
    using assms
    by (auto simp: append_gap_ledger_def Let_def st_bind_def st_map_error_def
        split: prod.splits sum.splits
        dest!: created appended synced recover_ledger_same
        intro: segments_same_trans)
qed

lemma record_gap_same:
  assumes "record_gap env d root_dir gap w = (r, w')"
  shows "segments_same (snd w) (snd w')" "ws_open (fst w') = ws_open (fst w)" "ws_heads (fst w') = ws_heads (fst w)"
  using assms append_ledger_same
  by (auto simp: record_gap_def st_bind_def on_files_def on_state_def split: prod.splits sum.splits)

lemma atomic_write_names:
  assumes "atomic_write d target bs fs = Some (r, fs')" "\<not> lasting target"
  shows "lasting_same fs fs'"
proof -
  have opened: "\<exists>u. tmp = (fst target, temporary_name (snd target) u) \<and> f = bt_insert tmp (Regular []) fs"
    if "open_temporary d target us ps fs = Some (Inr (tmp, f))" for us ps tmp f
    using that
    by (induction d target us ps fs rule: open_temporary.induct)
      (auto simp: Let_def open_private_temporary_def split: if_splits option.splits)
  have written: "lasting_same f f'"
    if "write_temporary d tmp target bs f = (x, f')" "\<not> lasting tmp" for tmp x f f'
    using that assms(2)
    by (auto simp: write_temporary_def Let_def replace_file_def split: option.splits prod.splits sum.splits
        intro: lasting_insert lasting_replaced)
  have removed: "lasting_same f (remove_file d tmp f)" if "\<not> lasting tmp" for tmp f
    using that by (simp add: remove_file_def lasting_remove)
  show ?thesis
  proof (cases "open_temporary d target (os_uuids d) [] fs")
    case None
    with assms(1) show ?thesis by (simp add: atomic_write_def)
  next
    case (Some res)
    show ?thesis
    proof (cases res)
      case (Inl e)
      with Some assms(1) show ?thesis by (simp add: atomic_write_def)
    next
      case (Inr opened_file)
      obtain tmp f where made: "opened_file = (tmp, f)" by fastforce
      obtain y f1 where wrote: "write_temporary d tmp target bs f = (y, f1)"
        by (cases "write_temporary d tmp target bs f")
      have tmp: "\<not> lasting tmp" "lasting_same fs f"
        using opened [OF Some [unfolded Inr made]] temporary_no_segment lasting_insert by metis+
      have "fs' = f1 \<or> fs' = remove_file d tmp f1"
        using assms(1) Some Inr made wrote by (auto simp: atomic_write_def split: sum.splits)
      then show ?thesis
        using lasting_same_trans [OF tmp(2) written [OF wrote tmp(1)]] removed [OF tmp(1)] lasting_same_trans
        by blast
    qed
  qed
qed

lemma index_event_same:
  assumes "index_event we d g e w = Some (r, w')" "\<And>i. rf_uuid_text (we_formats we) i \<noteq> []"
  shows "lasting_same (snd w) (snd w')" "ws_open (fst w') = ws_open (fst w)" "ws_heads (fst w') = ws_heads (fst w)"
    "r = Inr e \<or> (\<exists>err. r = Inl err)"
proof -
  have history: "lasting_same fs fs'"
    if "history_record d json show_io j (history_path g) ev s fs = Some (x, s', fs')" for json show_io j ev s fs x s' fs'
    using that
    by (auto simp: history_record_def Let_def split: option.splits prod.splits if_splits sum.splits
        dest: atomic_write_names)
  have runs: "lasting_same fs fs'" if "run_record d (we_formats we) h ev fs = Some (x, fs')" for h ev fs x fs'
    using that atomic_write_names [OF _ record_no_segment [OF assms(2)]]
    by (auto simp: run_record_def Let_def write_json_def split: option.splits prod.splits if_splits sum.splits)
  have "lasting_same (snd w) (snd w') \<and> ws_open (fst w') = ws_open (fst w) \<and> ws_heads (fst w') = ws_heads (fst w) \<and>
      (r = Inr e \<or> (\<exists>err. r = Inl err))"
    using assms(1)
    by (auto simp: index_event_def split: option.splits prod.splits sum.splits
        dest!: history runs intro: lasting_same_trans)
  then show "lasting_same (snd w) (snd w')" "ws_open (fst w') = ws_open (fst w)" "ws_heads (fst w') = ws_heads (fst w)"
    "r = Inr e \<or> (\<exists>err. r = Inl err)" by blast+
qed

section \<open>Retention\<close>

lemma fs_remove_cases:
  assumes "fs_remove d p fs = (r, fs')"
  shows "(r = Inr () \<and> bt_contains fs p \<and> fs' = bt_remove p fs) \<or> (\<exists>e. r = Inl e \<and> fs' = fs)"
  using assms by (auto simp: fs_remove_def split: option.splits if_splits)

definition same_writer :: "writer_store \<Rightarrow> writer_store \<Rightarrow> bool" where
  "same_writer w w' \<longleftrightarrow> ws_open (fst w') = ws_open (fst w) \<and> ws_heads (fst w') = ws_heads (fst w) \<and>
     ws_runs (fst w') = ws_runs (fst w) \<and> ws_history (fst w') = ws_history (fst w) \<and>
     segments_shrink (snd w) (snd w')"

lemma same_writer_refl [simp]: "same_writer w w"
  by (simp add: same_writer_def)

lemma same_writer_trans: "same_writer w w1 \<Longrightarrow> same_writer w1 w2 \<Longrightarrow> same_writer w w2"
  by (auto simp: same_writer_def intro: segments_shrink_trans)

lemma record_gap_writer: "record_gap env d root_dir gap w = (r, w') \<Longrightarrow> same_writer w w'"
  using record_gap_same(1) segments_same_shrink
  by (fastforce simp: same_writer_def record_gap_def st_bind_def on_files_def on_state_def
      split: prod.splits sum.splits)

lemma set_total_writer [simp]: "set_total n w = (Inr (), (fst w)\<lparr>ws_total_bytes := n\<rparr>, snd w)"
  by (simp add: set_total_def on_state_def)

lemma retention_loop_step:
  assumes "\<not> (ws_total_bytes (fst w) \<le> target \<and> fits_within g (ws_total_bytes (fst w)) additional)"
  shows "retention_loop env d g wall target additional (seg # segs) failures w =
    (let later = retention_loop env d g wall target additional segs in
     case sd_last_seq seg of
       None \<Rightarrow> later failures w
     | Some last_seq \<Rightarrow>
         (case fs_metadata d (sd_path seg) (snd w) of
            Inl e \<Rightarrow> if io_kind e = IoNotFound then later failures w else (Inl (JIo e), w)
          | Inr (_, file_size) \<Rightarrow>
              (case fs_remove d (sd_path seg) (snd w) of
                 (Inr _, fs) \<Rightarrow>
                   (case record_gap env d (jc_root g)
                      \<lparr>sg_port = sh_port (sd_header seg), sg_epoch = sh_epoch (sd_header seg),
                       sg_first_seq = sh_first_seq (sd_header seg), sg_last_seq = last_seq,
                       sg_reason = Retention,
                       sg_recorded_wall_time_ns = now_wall_time_ns (wall (sd_path seg))\<rparr>
                      ((fst w)\<lparr>ws_total_bytes := ws_total_bytes (fst w) - file_size\<rparr>, fs) of
                      (Inl e, w) \<Rightarrow> (Inl e, w)
                    | (Inr _, w) \<Rightarrow> later failures w)
               | (Inl e, fs) \<Rightarrow>
                   later (if io_kind e = IoNotFound then failures
                          else failures @ [path_text (sd_path seg) @ lit '': '' @ io_text e]) (fst w, fs))))"
  unfolding retention_loop.simps Let_def if_not_P [OF assms]
  by (simp add: st_bind_def split: option.split sum.split prod.split)

lemma retention_loop_writer:
  "retention_loop env d g wall target additional segs failures w = (r, w') \<Longrightarrow>
   (\<And>s. s \<in> set segs \<Longrightarrow> is_sealed_name (sd_path s)) \<Longrightarrow> same_writer w w'"
proof (induction segs arbitrary: failures w r w')
  case (Cons seg segs)
  let ?loop = "retention_loop env d g wall target additional segs"
  have IH: "same_writer w1 w'" if "?loop fails w1 = (r, w')" for fails w1
    using Cons.IH [OF that] Cons.prems(2) by simp
  show ?case
  proof (cases "ws_total_bytes (fst w) \<le> target \<and> fits_within g (ws_total_bytes (fst w)) additional")
    case True
    with Cons.prems(1) show ?thesis by simp
  next
    case go: False
    note step = Cons.prems(1) [unfolded retention_loop_step [OF go] Let_def]
    have removed: "same_writer w (s\<lparr>ws_total_bytes := n\<rparr>, fs)"
      if "fs_remove d (sd_path seg) (snd w) = (x, fs)" "s = fst w" for x fs n s
      using fs_remove_cases [OF that(1)] that(2) Cons.prems(2) [of seg] shrink_remove [of "sd_path seg" "snd w"]
      by (auto simp: same_writer_def)
    have kept: "same_writer w (fst w, fs)" if "fs_remove d (sd_path seg) (snd w) = (Inl e, fs)" for e fs
      using fs_remove_cases [OF that] by auto
    show ?thesis
      using step
      by (auto split: option.splits sum.splits prod.splits if_splits simp del: split_paired_All split_paired_Ex
          dest!: IH record_gap_writer dest: kept
          intro: same_writer_trans [OF removed] same_writer_trans)
  qed
qed simp

lemma discovered_names:
  "discover_each env d port fs ps = Inr segs \<Longrightarrow> s \<in> set segs \<Longrightarrow> is_sealed_name (sd_path s) = sd_sealed s"
proof (induction ps arbitrary: segs)
  case (Cons p ps)
  from Cons.prems show ?case
    by (auto simp: res_simps split: if_splits sum.splits option.splits dest: Cons.IH)
qed simp

lemma retention_order_sealed:
  assumes "discover_segments env d root_dir None fs = Inr segs" "s \<in> set (retention_order segs)"
  shows "is_sealed_name (sd_path s)" "s \<in> set segs"
proof -
  from assms(2) have kept: "s \<in> set segs" "sd_sealed s" by (auto simp: retention_order_def)
  then show "s \<in> set segs" by simp
  show "is_sealed_name (sd_path s)"
  proof (cases "dir_exists (slots_root root_dir) fs")
    case True
    then obtain ps where "discover_each env d None fs ps = Inr segs"
      using assms(1) by (auto simp: discover_segments_def Let_def res_simps split: sum.splits)
    then show ?thesis using discovered_names kept by blast
  next
    case False
    with assms(1) kept show ?thesis by (simp add: discover_segments_def Let_def)
  qed
qed

text \<open>The frame of a sequence of operations is that of its parts.\<close>

lemma same_bind:
  assumes "same_writer w (snd (m w))" "\<And>x w1. m w = (Inr x, w1) \<Longrightarrow> same_writer w1 (snd (f x w1))"
  shows "same_writer w (snd (st_bind m f w))"
proof -
  obtain r w1 where Pair: "m w = (r, w1)" by (metis surj_pair)
  show ?thesis
  proof (cases r)
    case (Inl e)
    with Pair assms(1) show ?thesis by (simp add: st_bind_def)
  next
    case (Inr x)
    with Pair assms(1) assms(2) [of x w1] show ?thesis by (auto simp: st_bind_def intro: same_writer_trans)
  qed
qed

lemma reading_apply [simp]: "reading f w = (f w, w)"
  by (simp add: reading_def)

lemma same_total [simp]: "same_writer (st, fs) (st\<lparr>ws_total_bytes := n\<rparr>, fs)" "same_writer w ((fst w)\<lparr>ws_total_bytes := n\<rparr>, snd w)"
  by (simp_all add: same_writer_def)

lemma enforce_retention_writer: "same_writer w (snd (enforce_retention we d g wall additional w))"
proof -
  have loop: "same_writer w (snd (retention_loop (we_journal we) d g wall target additional (retention_order segs) [] w))"
    if "discover_segments (we_journal we) d (jc_root g) None fs = Inr segs" for target segs w fs
    using retention_loop_writer [OF surjective_pairing] retention_order_sealed [OF that] by blast
  show ?thesis
    unfolding enforce_retention_def Let_def
    by (intro same_bind) (auto intro!: same_bind loop)
qed

lemma ensure_capacity_writer: "same_writer w (snd (ensure_capacity we d g wall now additional w))"
proof -
  have backoff: "same_writer w (clear_backoff (fst w1), snd w1)" "same_writer w (note_retention_failure now (fst w1), snd w1)"
    if "same_writer w w1" for w1
    using that by (simp_all add: same_writer_def clear_backoff_def note_retention_failure_def Let_def)
  show ?thesis
    using backoff [OF enforce_retention_writer [of w we d g wall additional]] backoff [OF same_writer_refl]
    by (auto simp: ensure_capacity_def Let_def split: option.split sum.split prod.split)
qed

end
