(* ===== verification/JournalPaths.thy ===== *)
theory JournalPaths
  imports JournalFiles
begin

text \<open>
  Two streams never share a directory: the bytes of a port and their hexadecimal digits are
  recovered from the name of the directory of its slot, and the epoch from the name below it.
\<close>

definition is_text :: "rstring \<Rightarrow> bool" where
  "is_text s \<longleftrightarrow> list_all (\<lambda>c. c < 0x110000) s"

lemma utf8_char_inj:
  assumes "utf8_char c @ xs = utf8_char d @ ys" "c < 0x110000" "d < 0x110000"
  shows "c = d \<and> xs = ys"
proof -
  have byte: "a < 256 \<Longrightarrow> b < 256 \<Longrightarrow> (word_of_nat a = (word_of_nat b :: byte)) = (a = b)" for a b
    by (simp add: word_of_nat_eq_iff take_bit_eq_mod)
  define q r where "q = (\<lambda>n::nat. n div 64)" and "r = (\<lambda>n::nat. n mod 64)"
  have quotients: "n div 4096 = q (q n)" "n div 262144 = q (q (q n))" for n
    using div_mult2_eq [of n 64 64] div_mult2_eq [of "n div 64" 64 64] div_mult2_eq [of n 64 4096]
    by (simp_all add: q_def)
  have code: "utf8_char n = map word_of_nat
     (if n < 0x80 then [n]
      else if n < 0x800 then [0xC0 + q n, 0x80 + r n]
      else if n < 0x10000 then [0xE0 + q (q n), 0x80 + r (q n), 0x80 + r n]
      else [0xF0 + q (q (q n)), 0x80 + r (q (q n)), 0x80 + r (q n), 0x80 + r n])" for n
    unfolding utf8_char_def quotients by (simp add: q_def r_def)
  have parts: "64 * q n + r n = n" "r n < 64" for n by (simp_all add: q_def r_def)
  have bounds: "n < 0x800 \<Longrightarrow> q n < 32" "n < 0x10000 \<Longrightarrow> q (q n) < 16"
    "n < 0x110000 \<Longrightarrow> q (q (q n)) < 5" for n
    using parts [of n] parts [of "q n"] parts [of "q (q n)"] by linarith+
  have same: "c = d" if "q c = q d" "r c = r d" for c d
    using that parts(1) by metis
  show ?thesis
    using assms(1) bounds(1) [of c] bounds(1) [of d] bounds(2) [of c] bounds(2) [of d]
      bounds(3) [OF assms(2)] bounds(3) [OF assms(3)]
      parts(2) [of c] parts(2) [of d]
      parts(2) [of "q c"] parts(2) [of "q d"] parts(2) [of "q (q c)"] parts(2) [of "q (q d)"]
    by (auto simp: code byte simp del: of_nat_add of_nat_numeral split: if_splits intro!: same)
qed

lemma utf8_inj: "utf8 s = utf8 t \<Longrightarrow> is_text s \<Longrightarrow> is_text t \<Longrightarrow> s = t"
proof (induction s arbitrary: t)
  case Nil
  then show ?case by (cases t) (auto simp: utf8_def utf8_char_def split: if_splits)
next
  case (Cons c s)
  then obtain d t' where t: "t = d # t'"
    by (cases t) (auto simp: utf8_def utf8_char_def split: if_splits)
  with Cons.prems utf8_char_inj [of c "utf8 s" d "utf8 t'"] Cons.IH [of t'] show ?case
    by (simp add: utf8_def is_text_def)
qed

lemma hex_encode_simps [simp]:
  "hex_encode [] = []"
  "hex_encode (b # bs) = lit ''0123456789abcdef'' ! (unat b div 16) # lit ''0123456789abcdef'' ! (unat b mod 16) # hex_encode bs"
  by (simp_all add: hex_encode_def Let_def)

lemma hex_digits: "i < 16 \<Longrightarrow> j < 16 \<Longrightarrow> lit ''0123456789abcdef'' ! i = lit ''0123456789abcdef'' ! j \<longleftrightarrow> i = j"
  by (subst nth_eq_iff_index_eq) (simp_all add: lit_def)

lemma hex_no_slash: "i < 16 \<Longrightarrow> lit ''0123456789abcdef'' ! i \<noteq> 47"
proof -
  assume "i < 16"
  then have "lit ''0123456789abcdef'' ! i \<in> set (lit ''0123456789abcdef'')"
    by (intro nth_mem) (simp add: lit_def)
  then show ?thesis by (auto simp: lit_def)
qed

lemma byte_nibbles: "unat (b :: byte) div 16 < 16" "unat b mod 16 < 16"
  using unsigned_less [of b, where ?'a = nat] by simp_all

lemma hex_encode_inj: "hex_encode bs = hex_encode cs \<Longrightarrow> bs = cs"
proof (induction bs arbitrary: cs)
  case (Cons b bs)
  then obtain c cs' where "cs = c # cs'" by (cases cs) auto
  moreover have "b = c" if "unat b div 16 = unat c div 16" "unat b mod 16 = unat c mod 16" for c
    using that by (metis mult_div_mod_eq unsigned_word_eqI)
  ultimately show ?case using Cons by (auto simp: hex_digits byte_nibbles)
qed (case_tac cs; simp)

lemma hex_encode_no_slash: "47 \<notin> set (hex_encode bs)"
  by (induction bs) (auto simp: hex_no_slash byte_nibbles dest: sym)

lemma epoch_dir_inj:
  assumes "inj (je_uuid_text env)" "is_text port" "is_text port'"
    "epoch_dir env root_dir port epoch = epoch_dir env root_dir port' epoch'"
  shows "port = port'" "epoch = epoch'"
proof -
  have eq: "hex_encode (utf8 port) @ 47 # je_uuid_text env epoch = hex_encode (utf8 port') @ 47 # je_uuid_text env epoch'"
    using assms(4) by (simp add: epoch_dir_def slot_dir_def path_join_def lit_def)
  have split: "takeWhile (\<lambda>c. c \<noteq> 47) (h @ 47 # u) = h" "dropWhile (\<lambda>c. c \<noteq> 47) (h @ 47 # u) = 47 # u"
    if "47 \<notin> set h" for h u :: rstring
    using that by (induction h) auto
  have "hex_encode (utf8 port) = hex_encode (utf8 port')" "je_uuid_text env epoch = je_uuid_text env epoch'"
    using split [OF hex_encode_no_slash] arg_cong [OF eq, of "takeWhile (\<lambda>c. c \<noteq> 47)"]
      arg_cong [OF eq, of "dropWhile (\<lambda>c. c \<noteq> 47)"] by auto
  then show "port = port'" "epoch = epoch'"
    using utf8_inj hex_encode_inj assms(1-3) by (auto dest: injD)
qed

end
