(* ===== verification/JournalLog.thy ===== *)
theory JournalLog
  imports JournalFrames JournalPaths
begin

text \<open>
  The log of a stream as the writer keeps it: the events in its segments, with the open segment
  last. Every step of an append that succeeds keeps the log or extends it.
\<close>

section \<open>The log\<close>

type_synonym 'j stream_log = "(segment_descriptor \<times> 'j timeline_event list) list"

definition log_events :: "'j stream_log \<Rightarrow> 'j timeline_event list" where
  "log_events lg = concat (map snd lg)"

lemma log_events_simps [simp]:
  "log_events [] = []" "log_events (x # lg) = snd x @ log_events lg"
  "log_events (lg @ lg') = log_events lg @ log_events lg'"
  by (simp_all add: log_events_def)

text \<open>The open segment of the writer is the last one, at the end of its file.\<close>

definition continues :: "files \<Rightarrow> open_segment \<Rightarrow> segment_descriptor \<times> 'j timeline_event list \<Rightarrow> bool" where
  "continues fs s x \<longleftrightarrow>
     \<not> sd_sealed (fst x) \<and> og_header s = sd_header (fst x) \<and> og_path s = sd_path (fst x) \<and>
     og_last_seq s = (case last_seq_of (snd x) None of None \<Rightarrow> 0 | Some n \<Rightarrow> n) \<and>
     og_position s = og_bytes_written s \<and>
     (\<exists>bs. bt_get fs (sd_path (fst x)) = Some (Regular bs) \<and> length bs = og_bytes_written s)"

definition ends_open :: "files \<Rightarrow> open_segment option \<Rightarrow> 'j stream_log \<Rightarrow> bool" where
  "ends_open fs opened lg \<longleftrightarrow>
     (case opened of
        None \<Rightarrow> \<forall>x \<in> set lg. sd_sealed (fst x)
      | Some s \<Rightarrow> lg \<noteq> [] \<and> continues fs s (last lg) \<and> (\<forall>x \<in> set (butlast lg). sd_sealed (fst x)))"

definition in_order :: "nat \<Rightarrow> 'j stream_log \<Rightarrow> bool" where
  "in_order head lg \<longleftrightarrow>
     sorted_wrt (\<lambda>e e'. ev_seq e < ev_seq e') (log_events lg) \<and>
     (\<forall>e \<in> set (log_events lg). 0 < ev_seq e \<and> ev_seq e \<le> head) \<and>
     (\<forall>x \<in> set lg. sd_last_seq (fst x) = last_seq_of (snd x) None) \<and>
     sorted_wrt (\<lambda>x y. \<forall>e \<in> set (snd x). ev_seq e < sh_first_seq (sd_header (fst y))) lg"

definition stream_holds ::
  "'j journal_env \<Rightarrow> rstring \<Rightarrow> writer_store \<Rightarrow> stream_key \<Rightarrow> 'j stream_log \<Rightarrow> bool" where
  "stream_holds env root_dir w k lg \<longleftrightarrow>
     stream_store env root_dir (snd w) (fst k) (snd k) (map fst lg) (map snd lg) \<and>
     in_order (head_of (fst w) k) lg \<and> head_of (fst w) k \<le> U64_MAX \<and>
     ends_open (snd w) (bt_get (ws_open (fst w)) k) lg"

lemma stored_pairs:
  "stream_store env root_dir fs port epoch (map fst lg) (map snd lg) \<longleftrightarrow>
     (\<forall>x \<in> set lg. stored_segment env root_dir fs port epoch (fst x) (snd x)) \<and>
     sorted_wrt (\<lambda>x y. sh_first_seq (sd_header (fst x)) < sh_first_seq (sd_header (fst y))) lg \<and>
     (\<forall>p. fst p = epoch_dir env root_dir port epoch \<and> is_segment_name p \<and> is_regular fs p \<longrightarrow>
        (\<exists>x \<in> set lg. p = sd_path (fst x)))"
proof -
  have "list_all2 P (map fst lg) (map snd lg) = (\<forall>x \<in> set lg. P (fst x) (snd x))" for P
    by (induction lg) auto
  then show ?thesis by (auto simp: stream_store_def sorted_wrt_map image_iff)
qed

lemma stored_same_file:
  assumes "stored_segment env root_dir fs port epoch seg es" "bt_get fs' (sd_path seg) = bt_get fs (sd_path seg)"
  shows "stored_segment env root_dir fs' port epoch seg es"
  using assms by (simp add: stored_segment_def segment_holds_def)

lemma stored_facts:
  assumes "stored_segment env root_dir fs port epoch seg es"
  shows "fst (sd_path seg) = epoch_dir env root_dir port epoch" "is_segment_name (sd_path seg)"
    "is_sealed_name (sd_path seg) = sd_sealed seg" "is_regular fs (sd_path seg)"
    "\<And>e. e \<in> set es \<Longrightarrow> sh_first_seq (sd_header seg) \<le> ev_seq e"
  using assms named_in_names
  by (fastforce simp: stored_segment_def segment_holds_def named_in_def Let_def is_regular_def)+

lemma stored_path_first:
  assumes "stored_segment env root_dir fs port epoch seg es" "stored_segment env root_dir fs' port epoch seg' es'"
    "sd_path seg = sd_path seg'"
  shows "sh_first_seq (sd_header seg) = sh_first_seq (sd_header seg')"
proof -
  have named: "named_in env root_dir port epoch seg" "named_in env root_dir port epoch seg'"
    using assms by (simp_all add: stored_segment_def)
  from named_in_names [OF named(1)] named_in_names [OF named(2)] assms(3) show ?thesis
    by (cases "sd_sealed seg") auto
qed

section \<open>Frames\<close>

definition surviving :: "files \<Rightarrow> 'j stream_log \<Rightarrow> 'j stream_log" where
  "surviving fs = filter (\<lambda>x. is_regular fs (sd_path (fst x)))"

text \<open>In one directory, sealed segments at most disappear.\<close>

definition shrinks_in :: "rstring \<Rightarrow> files \<Rightarrow> files \<Rightarrow> bool" where
  "shrinks_in dir fs fs' \<longleftrightarrow>
     (\<forall>p. fst p = dir \<and> is_segment_name p \<longrightarrow>
        bt_get fs' p = bt_get fs p \<or> (is_sealed_name p \<and> bt_get fs' p = None))"

lemma shrink_shrinks: "segments_shrink fs fs' \<Longrightarrow> shrinks_in dir fs fs'"
  by (simp add: segments_shrink_def shrinks_in_def)

lemma subseq_sorted: "subseq xs ys \<Longrightarrow> sorted_wrt R ys \<Longrightarrow> sorted_wrt R xs"
  by (induction rule: list_emb.induct) (use subseq_subset in auto)

lemma surviving_events: "subseq (log_events (surviving fs lg)) (log_events lg)"
  by (induction lg) (auto simp: surviving_def list_emb_append_mono list_emb_append2)

lemma in_order_surviving:
  assumes "in_order head lg"
  shows "in_order head (surviving fs lg)"
proof -
  have "set (log_events (surviving fs lg)) \<subseteq> set (log_events lg)" "set (surviving fs lg) \<subseteq> set lg"
    using subseq_subset [OF surviving_events] by (auto simp: surviving_def)
  then show ?thesis
    using assms subseq_sorted [OF surviving_events] sorted_wrt_filter unfolding in_order_def surviving_def by blast
qed

lemma stream_frame:
  assumes "stream_holds env root_dir w k lg" "shrinks_in (epoch_dir env root_dir (fst k) (snd k)) (snd w) (snd w')"
    "bt_get (ws_open (fst w')) k = bt_get (ws_open (fst w)) k" "head_of (fst w') k = head_of (fst w) k"
  shows "stream_holds env root_dir w' k (surviving (snd w') lg)"
proof -
  let ?fs = "snd w" and ?fs' = "snd w'" and ?dir = "epoch_dir env root_dir (fst k) (snd k)"
  note store = assms(1) [unfolded stream_holds_def stored_pairs]
  have stored: "stored_segment env root_dir ?fs (fst k) (snd k) (fst x) (snd x)" if "x \<in> set lg" for x
    using store that by blast
  have kept: "bt_get ?fs' p = bt_get ?fs p"
    if "fst p = ?dir" "is_segment_name p" "is_regular ?fs' p \<or> \<not> is_sealed_name p" for p
    using assms(2) that unfolding shrinks_in_def is_regular_def by (metis option.distinct(1))
  have stored': "stored_segment env root_dir ?fs' (fst k) (snd k) (fst x) (snd x)" if "x \<in> set (surviving ?fs' lg)" for x
  proof -
    have x: "x \<in> set lg" "is_regular ?fs' (sd_path (fst x))" using that by (auto simp: surviving_def)
    note f = stored_facts [OF stored [OF x(1)]]
    show ?thesis by (rule stored_same_file [OF stored [OF x(1)] kept [OF f(1,2)]]) (use x in simp)
  qed
  have stays_open: "is_regular ?fs' (sd_path (fst x)) \<and> bt_get ?fs' (sd_path (fst x)) = bt_get ?fs (sd_path (fst x))"
    if "x \<in> set lg" "\<not> sd_sealed (fst x)" for x
  proof -
    note f = stored_facts [OF stored [OF that(1)]]
    have "bt_get ?fs' (sd_path (fst x)) = bt_get ?fs (sd_path (fst x))"
      using kept [OF f(1,2)] f(3) that(2) by simp
    with f(4) show ?thesis by (simp add: is_regular_def)
  qed
  have covered: "\<exists>x \<in> set (surviving ?fs' lg). p = sd_path (fst x)"
    if p: "fst p = ?dir" "is_segment_name p" "is_regular ?fs' p" for p
  proof -
    have "is_regular ?fs p" using kept p by (simp add: is_regular_def)
    then obtain x where "x \<in> set lg" "p = sd_path (fst x)" using store p by blast
    with p(3) show ?thesis by (intro bexI [of _ x]) (simp_all add: surviving_def)
  qed
  have ends: "ends_open ?fs' (bt_get (ws_open (fst w)) k) (surviving ?fs' lg)"
  proof (cases "bt_get (ws_open (fst w)) k")
    case None
    with store show ?thesis by (auto simp: ends_open_def surviving_def)
  next
    case (Some s)
    then have "lg \<noteq> []" "continues ?fs s (last lg)" "\<forall>x \<in> set (butlast lg). sd_sealed (fst x)"
      using store by (simp_all add: ends_open_def)
    then obtain ss x where lg: "lg = ss @ [x]" "continues ?fs s x" "\<forall>y \<in> set ss. sd_sealed (fst y)"
      by (metis append_butlast_last_id)
    then have "surviving ?fs' lg = surviving ?fs' ss @ [x]" "continues ?fs' s x"
      using stays_open [of x] by (auto simp: surviving_def continues_def)
    with Some lg(3) show ?thesis by (auto simp: ends_open_def surviving_def)
  qed
  show ?thesis
    unfolding stream_holds_def stored_pairs assms(3,4)
    using store stored' covered ends in_order_surviving [of "head_of (fst w) k" lg ?fs']
    by (auto simp: surviving_def sorted_wrt_filter)
qed

section \<open>The last segment changes\<close>

definition first_below :: "'j stream_log \<Rightarrow> 'j stream_log \<Rightarrow> bool" where
  "first_below ss rest \<longleftrightarrow> (\<forall>x \<in> set ss. \<forall>y \<in> set rest. sh_first_seq (sd_header (fst x)) < sh_first_seq (sd_header (fst y)))"

text \<open>
  The segments before the last keep their files; what was last is replaced, by a segment that holds
  its events and perhaps more.
\<close>

lemma stream_extended:
  assumes "stream_holds env root_dir w k (ss @ rest)"
    "\<And>x. x \<in> set ss \<Longrightarrow> sd_sealed (fst x) \<and> bt_get (snd w') (sd_path (fst x)) = bt_get (snd w) (sd_path (fst x))"
    "stored_segment env root_dir (snd w') (fst k) (snd k) (fst x) (snd x)" "first_below ss [x]"
    "\<And>p. fst p = epoch_dir env root_dir (fst k) (snd k) \<Longrightarrow> is_segment_name p \<Longrightarrow> is_regular (snd w') p \<Longrightarrow>
       p \<noteq> sd_path (fst x) \<Longrightarrow> is_regular (snd w) p \<and> p \<notin> sd_path ` fst ` set rest"
    "in_order (head_of (fst w') k) (ss @ [x])" "head_of (fst w') k \<le> U64_MAX"
    "ends_open (snd w') (bt_get (ws_open (fst w')) k) (ss @ [x])"
  shows "stream_holds env root_dir w' k (ss @ [x])"
proof -
  note store = assms(1) [unfolded stream_holds_def stored_pairs]
  have "stored_segment env root_dir (snd w') (fst k) (snd k) (fst y) (snd y)" if "y \<in> set ss" for y
    using that store assms(2) [OF that] by (auto intro: stored_same_file)
  moreover have "\<exists>y \<in> set (ss @ [x]). p = sd_path (fst y)"
    if p: "fst p = epoch_dir env root_dir (fst k) (snd k)" "is_segment_name p" "is_regular (snd w') p" for p
  proof (cases "p = sd_path (fst x)")
    case False
    then have "is_regular (snd w) p" "p \<notin> sd_path ` fst ` set rest" using assms(5) p by auto
    then obtain y where "y \<in> set (ss @ rest)" "p = sd_path (fst y)" using store p by blast
    with \<open>p \<notin> sd_path ` fst ` set rest\<close> show ?thesis by (intro bexI [of _ y]) auto
  qed simp
  ultimately show ?thesis
    unfolding stream_holds_def stored_pairs
    using store assms(3,4,6-8) by (auto simp: sorted_wrt_append first_below_def)
qed

text \<open>What an open segment of the writer says of the log.\<close>

lemma open_last:
  assumes "stream_holds env root_dir w k lg" "bt_get (ws_open (fst w)) k = Some s"
  obtains ss x where "lg = ss @ [x]" "continues (snd w) s x" "\<And>y. y \<in> set ss \<Longrightarrow> sd_sealed (fst y)"
    "stored_segment env root_dir (snd w) (fst k) (snd k) (fst x) (snd x)"
    "\<And>y. y \<in> set ss \<Longrightarrow> stored_segment env root_dir (snd w) (fst k) (snd k) (fst y) (snd y)" "first_below ss [x]"
    "\<And>y. y \<in> set ss \<Longrightarrow> sh_first_seq (sd_header (fst y)) \<noteq> sh_first_seq (sd_header (fst x))"
proof -
  note store = assms(1) [unfolded stream_holds_def stored_pairs]
  have "lg \<noteq> []" "continues (snd w) s (last lg)" "\<forall>x \<in> set (butlast lg). sd_sealed (fst x)"
    using store assms(2) by (simp_all add: ends_open_def)
  then obtain ss x where lg: "lg = ss @ [x]" "continues (snd w) s x" "\<forall>y \<in> set ss. sd_sealed (fst y)"
    by (metis append_butlast_last_id)
  moreover have "first_below ss [x]" using store lg(1) by (auto simp: first_below_def sorted_wrt_append)
  ultimately show ?thesis using that [OF lg(1,2)] store by (fastforce simp: first_below_def)
qed

lemma segment_bytes_nonempty: "segment_bytes env h bs \<Longrightarrow> 0 < length bs"
  unfolding segment_bytes_def encode_segment_header_Inr by (elim conjE exE) simp

section \<open>Sealing\<close>

lemma segment_seal_ok:
  assumes "segment_seal env d s fs = (Inr r, fs')"
  shows "og_last_seq s \<noteq> 0" "\<exists>node. bt_get fs (og_path s) = Some node \<and>
      fs' = bt_insert (sealed_path env (og_path s) (og_header s) (og_last_seq s)) node (bt_remove (og_path s) fs)"
  using assms
  by (auto simp: segment_seal_def st_bind_def st_map_error_def fs_sync_def replace_file_def Let_def
      split: if_splits prod.splits sum.splits option.splits)

lemma in_order_last:
  assumes "in_order head (ss @ [x])" "e \<in> set (snd x)"
  shows "ev_seq e \<le> ev_seq (last (snd x))" "0 < ev_seq (last (snd x))" "ev_seq (last (snd x)) \<le> head"
    "sd_last_seq (fst x) = Some (ev_seq (last (snd x)))"
proof -
  have s: "sorted_wrt (\<lambda>e e'. ev_seq e < ev_seq e') (snd x)" "\<forall>e \<in> set (snd x). 0 < ev_seq e \<and> ev_seq e \<le> head"
    "sd_last_seq (fst x) = last_seq_of (snd x) None"
    using assms(1) by (auto simp: in_order_def sorted_wrt_append)
  obtain es e' where es: "snd x = es @ [e']" using assms(2) by (metis append_butlast_last_id empty_iff empty_set)
  from s es assms(2) show "ev_seq e \<le> ev_seq (last (snd x))" "0 < ev_seq (last (snd x))"
    "ev_seq (last (snd x)) \<le> head" "sd_last_seq (fst x) = Some (ev_seq (last (snd x)))"
    by (auto simp: sorted_wrt_append last_seq_of_def)
qed

lemma seal_extends:
  assumes "stream_holds env root_dir (st, fs) k lg" "bt_get (ws_open st) k = Some s"
    "segment_seal env d s fs = (Inr r, fs')"
  shows "\<exists>lg'. stream_holds env root_dir (st\<lparr>ws_open := bt_remove k (ws_open st)\<rparr>, fs') k lg' \<and>
     log_events lg' = log_events lg"
proof -
  obtain ss x where lg: "lg = ss @ [x]" "continues fs s x" "\<And>y. y \<in> set ss \<Longrightarrow> sd_sealed (fst y)"
    "stored_segment env root_dir fs (fst k) (snd k) (fst x) (snd x)"
    "\<And>y. y \<in> set ss \<Longrightarrow> stored_segment env root_dir fs (fst k) (snd k) (fst y) (snd y)" "first_below ss [x]"
    "\<And>y. y \<in> set ss \<Longrightarrow> sh_first_seq (sd_header (fst y)) \<noteq> sh_first_seq (sd_header (fst x))"
    using open_last [OF assms(1), of s] assms(2) by auto
  have order: "in_order (head_of st k) (ss @ [x])" "head_of st k \<le> U64_MAX"
    using assms(1) lg(1) by (simp_all add: stream_holds_def)
  have "og_last_seq s \<noteq> 0" by (rule segment_seal_ok(1) [OF assms(3)])
  then have "snd x \<noteq> []" using lg(2) by (auto simp: continues_def last_seq_of_def)
  then obtain e where e: "e \<in> set (snd x)" by fastforce
  define l where "l = ev_seq (last (snd x))"
  have l: "og_last_seq s = l" "sd_last_seq (fst x) = Some l" "0 < l" "l \<le> U64_MAX" "last_seq_of (snd x) None = Some l"
    "\<And>e. e \<in> set (snd x) \<Longrightarrow> ev_seq e \<le> l"
    using lg(2) in_order_last [OF order(1) e] in_order_last(1) [OF order(1)] order(2) e
    by (auto simp: continues_def last_seq_of_def l_def)
  define target where "target = sealed_path env (sd_path (fst x)) (sd_header (fst x)) l"
  define seg' where "seg' = \<lparr>sd_header = sd_header (fst x), sd_path = target, sd_last_seq = Some l, sd_sealed = True\<rparr>"
  have tracked: "og_path s = sd_path (fst x)" "og_header s = sd_header (fst x)"
    using lg(2) by (simp_all add: continues_def)
  obtain node where node: "bt_get fs (sd_path (fst x)) = Some node"
    "fs' = bt_insert target node (bt_remove (sd_path (fst x)) fs)"
    using segment_seal_ok(2) [OF assms(3)] l(1) tracked by (auto simp: target_def)
  have x_dir: "fst target = epoch_dir env root_dir (fst k) (snd k)"
    using stored_facts(1) [OF lg(4)] by (simp add: target_def sealed_path_def)
  have first: "sh_first_seq (sd_header (fst x)) \<le> l"
    using stored_facts(5) [OF lg(4) e] l(6) [OF e] by simp
  have stored: "stored_segment env root_dir fs' (fst k) (snd k) seg' (snd x)"
    using lg(4) node first l x_dir
    by (auto simp: stored_segment_def segment_holds_def named_in_def Let_def seg'_def bt_get_insert
        target_def sealed_path_def)
  have others: "sd_path (fst y) \<noteq> target" "sd_path (fst y) \<noteq> sd_path (fst x)" if "y \<in> set ss" for y
    using stored_path_first [OF lg(5) [OF that] stored] stored_path_first [OF lg(5) [OF that] lg(4)] lg(7) [OF that]
    by (auto simp: seg'_def)
  have "stream_holds env root_dir (st\<lparr>ws_open := bt_remove k (ws_open st)\<rparr>, fs') k (ss @ [(seg', snd x)])"
  proof (rule stream_extended [OF assms(1) [unfolded lg(1)]])
    show "sd_sealed (fst y) \<and> bt_get (snd (st\<lparr>ws_open := bt_remove k (ws_open st)\<rparr>, fs')) (sd_path (fst y)) =
        bt_get (snd (st, fs)) (sd_path (fst y))" if "y \<in> set ss" for y
      using lg(3) [OF that] others [OF that] node(2) by (simp add: bt_get_insert bt_get_remove)
    show "first_below ss [(seg', snd x)]" using lg(6) by (simp add: first_below_def seg'_def)
  qed (use stored order l(5) lg(3) in \<open>auto simp: is_regular_def node(2) seg'_def bt_get_insert bt_get_remove
      head_of_def in_order_def ends_open_def sorted_wrt_append split: if_splits\<close>)
  then show ?thesis using lg(1) by fastforce
qed

section \<open>Creating\<close>

lemma create_ok:
  assumes "create_with_header env d root_dir now h fs = (Inr s, fs')"
  shows "\<exists>bs. encode_segment_header env h = Inr bs \<and>
      fs' = bt_insert (og_path s) (Regular bs) (bt_insert (og_path s) (Regular []) fs) \<and>
      \<not> bt_contains fs (og_path s) \<and>
      s = \<lparr>og_header = h, og_path = (epoch_dir env root_dir (sh_port h) (sh_epoch h), open_name env h),
            og_position = length bs, og_bytes_written = length bs, og_last_seq = 0, og_opened_at = now\<rparr>"
  using assms
  by (auto simp: create_with_header_def Let_def open_private_temporary_def fs_write_at_def bt_get_insert
      split: sum.splits option.splits if_splits prod.splits)

lemma create_extends:
  assumes "stream_holds env root_dir (st, fs) k lg" "bt_get (ws_open st) k = None"
    "create_with_header env d root_dir now h fs = (Inr s, fs')" "sh_port h = fst k" "sh_epoch h = snd k"
    "head_of st k < sh_first_seq h" "sh_first_seq h \<le> U64_MAX" "validate_port (fst k) = Inr ()"
  shows "\<exists>lg'. stream_holds env root_dir
      (st\<lparr>ws_total_bytes := n, ws_open := bt_insert k s (ws_open st)\<rparr>, fs') k lg' \<and> log_events lg' = log_events lg"
proof -
  obtain bs where bs: "encode_segment_header env h = Inr bs"
    "fs' = bt_insert (og_path s) (Regular bs) (bt_insert (og_path s) (Regular []) fs)"
    "\<not> bt_contains fs (og_path s)"
    "s = \<lparr>og_header = h, og_path = (epoch_dir env root_dir (fst k) (snd k), open_name env h),
          og_position = length bs, og_bytes_written = length bs, og_last_seq = 0, og_opened_at = now\<rparr>"
    using create_ok [OF assms(3)] assms(4,5) by auto
  define seg where "seg = \<lparr>sd_header = h, sd_path = og_path s, sd_last_seq = None, sd_sealed = False\<rparr>"
  note store = assms(1) [unfolded stream_holds_def stored_pairs]
  have sealed: "sd_sealed (fst y)" if "y \<in> set lg" for y using store that assms(2) by (simp add: ends_open_def)
  have early: "sh_first_seq (sd_header (fst y)) < sh_first_seq h" if y: "y \<in> set lg" for y
  proof -
    have s: "stored_segment env root_dir fs (fst k) (snd k) (fst y) (snd y)" using store y by simp
    have "sd_last_seq (fst y) = last_seq_of (snd y) None" using store y by (simp add: in_order_def)
    then have "snd y \<noteq> []" using stored_last(1) [OF s sealed [OF y]] by (auto simp: last_seq_of_def)
    then obtain e where e: "e \<in> set (snd y)" by fastforce
    then have "ev_seq e \<le> head_of st k" using store y by (auto simp: in_order_def log_events_def)
    with stored_facts(5) [OF s e] assms(6) show ?thesis by simp
  qed
  have below: "\<forall>y \<in> set lg. \<forall>e \<in> set (snd y). ev_seq e < sh_first_seq h"
  proof -
    have "\<forall>y \<in> set lg. \<forall>e \<in> set (snd y). ev_seq e \<le> head_of st k"
      using store by (simp add: in_order_def log_events_def)
    with assms(6) show ?thesis by (meson le_less_trans)
  qed
  have other: "sd_path (fst y) \<noteq> og_path s" if y: "y \<in> set lg" for y
  proof -
    have "stored_segment env root_dir fs (fst k) (snd k) (fst y) (snd y)" using store y by simp
    then have "is_regular fs (sd_path (fst y))" by (rule stored_facts)
    then show ?thesis using bs(3) by (auto simp: is_regular_def bt_contains_def)
  qed
  have stored: "stored_segment env root_dir fs' (fst k) (snd k) seg []"
    unfolding stored_segment_def segment_holds_def
    using bs assms(4,5,7,8)
    by (auto simp: seg_def named_in_def Let_def bt_get_insert segment_file_def segment_bytes_def records_of_def
        last_seq_of_def)
  have "stream_holds env root_dir
      (st\<lparr>ws_total_bytes := n, ws_open := bt_insert k s (ws_open st)\<rparr>, fs') k (lg @ [(seg, [])])"
    by (rule stream_extended [where rest = "[]" and w = "(st, fs)"])
      (use assms(1) stored store sealed other early below bs(2,4) in
        \<open>auto simp: seg_def bt_get_insert first_below_def is_regular_def in_order_def ends_open_def continues_def
          head_of_def last_seq_of_def sorted_wrt_append split: if_splits\<close>)
  then show ?thesis by fastforce
qed

section \<open>Writing\<close>

lemma segment_append_ok:
  assumes "segment_append d s rec seq fs = (Appended s', fs')"
    "bt_get fs (og_path s) = Some (Regular old)" "og_position s = length old"
  shows "fs' = bt_insert (og_path s) (Regular (old @ rec)) fs"
    "s' = s\<lparr>og_position := length old + length rec,
            og_bytes_written := saturating_add_u64 (og_bytes_written s) (length rec), og_last_seq := seq\<rparr>"
  using assms
  by (auto simp: segment_append_def fs_write_at_def Let_def split: sum.splits prod.splits option.splits if_splits)

lemma in_stream_snoc:
  "in_stream h previous es \<Longrightarrow> (\<And>e'. e' \<in> set es \<Longrightarrow> ev_seq e' < ev_seq e) \<Longrightarrow> previous < ev_seq e \<Longrightarrow>
   ev_port e = sh_port h \<Longrightarrow> ev_epoch e = sh_epoch h \<Longrightarrow> ev_durable e \<Longrightarrow> in_stream h previous (es @ [e])"
  by (induction es arbitrary: previous) auto

lemma write_extends:
  assumes "stream_holds env root_dir (st, fs) k lg" "bt_get (ws_open st) k = Some s"
    "segment_append d s rec (ev_seq e) fs = (Appended s', fs')" "encode_record env e = Inr rec" "ev_durable e"
    "k = event_key e" "head_of st k < ev_seq e" "ev_seq e \<le> U64_MAX" "sh_first_seq (og_header s) \<le> ev_seq e"
    "og_bytes_written s + length rec \<le> U64_MAX"
  shows "\<exists>lg'. stream_holds env root_dir (st\<lparr>ws_total_bytes := n, ws_open := bt_insert k s' (ws_open st),
         ws_heads := bt_insert k (ev_seq e) (ws_heads st)\<rparr>, fs') k lg' \<and> log_events lg' = log_events lg @ [e]"
proof -
  obtain ss x where lg: "lg = ss @ [x]" "continues fs s x" "\<And>y. y \<in> set ss \<Longrightarrow> sd_sealed (fst y)"
    "stored_segment env root_dir fs (fst k) (snd k) (fst x) (snd x)"
    "\<And>y. y \<in> set ss \<Longrightarrow> stored_segment env root_dir fs (fst k) (snd k) (fst y) (snd y)" "first_below ss [x]"
    "\<And>y. y \<in> set ss \<Longrightarrow> sh_first_seq (sd_header (fst y)) \<noteq> sh_first_seq (sd_header (fst x))"
    using open_last [OF assms(1), of s] assms(2) by auto
  note store = assms(1) [unfolded stream_holds_def stored_pairs lg(1)]
  obtain old where old: "bt_get fs (sd_path (fst x)) = Some (Regular old)" "length old = og_bytes_written s"
    "og_position s = length old" "og_path s = sd_path (fst x)" "og_header s = sd_header (fst x)" "\<not> sd_sealed (fst x)"
    using lg(2) by (auto simp: continues_def)
  have wrote: "fs' = bt_insert (sd_path (fst x)) (Regular (old @ rec)) fs"
    "s' = s\<lparr>og_position := length old + length rec, og_bytes_written := length old + length rec, og_last_seq := ev_seq e\<rparr>"
    using segment_append_ok [OF assms(3), of old] old assms(10) by (simp_all add: saturating_add_u64_def)
  define seg' where "seg' = (fst x)\<lparr>sd_last_seq := Some (ev_seq e)\<rparr>"
  have before: "ev_seq e' < ev_seq e" if "e' \<in> set (log_events (ss @ [x]))" for e'
  proof -
    have "in_order (head_of st k) (ss @ [x])" using store by simp
    then have "ev_seq e' \<le> head_of st k" using that unfolding in_order_def by blast
    with assms(7) show ?thesis by simp
  qed
  have named: "named_in env root_dir (fst k) (snd k) (fst x)" using lg(4) by (simp add: stored_segment_def)
  obtain head recs where body: "old = segment_file head recs" "segment_bytes env (sd_header (fst x)) head"
    "records_of env (snd x) recs" "in_stream (sd_header (fst x)) 0 (snd x)"
    using lg(4) old(1) by (auto simp: stored_segment_def segment_holds_def)
  have stream: "in_stream (sd_header (fst x)) 0 (snd x @ [e])"
    by (rule in_stream_snoc [OF body(4)])
      (use before named assms(5-7) in \<open>auto simp: named_in_def Let_def event_key_def\<close>)
  have file_bytes: "bt_get fs' (sd_path seg') = Some (Regular (segment_file head (recs @ [rec])))"
    using wrote(1) body(1) by (simp add: seg'_def bt_get_insert segment_file_def)
  have recs: "records_of env (snd x @ [e]) (recs @ [rec])"
    using body(3) assms(4) by (simp add: records_of_def list_all2_appendI)
  have stored: "stored_segment env root_dir fs' (fst k) (snd k) seg' (snd x @ [e])"
    unfolding stored_segment_def segment_holds_def
    using file_bytes recs stream body(2) named old(5,6) assms(9) before stored_facts(5) [OF lg(4)]
    by (auto simp: seg'_def named_in_def Let_def last_seq_of_def intro: less_imp_le)
  have others: "sd_path (fst y) \<noteq> sd_path (fst x)" if "y \<in> set ss" for y
    using stored_path_first [OF lg(5) [OF that] lg(4)] lg(7) [OF that] by auto
  have order: "in_order (ev_seq e) (ss @ [(seg', snd x @ [e])])"
    using store before assms(7)
    by (auto simp: in_order_def sorted_wrt_append seg'_def last_seq_of_def intro: less_imp_le)
  have "stream_holds env root_dir (st\<lparr>ws_total_bytes := n, ws_open := bt_insert k s' (ws_open st),
         ws_heads := bt_insert k (ev_seq e) (ws_heads st)\<rparr>, fs') k (ss @ [(seg', snd x @ [e])])"
    by (rule stream_extended [where rest = "[x]" and w = "(st, fs)"])
      (use assms(1,8) lg(1,3,6) stored others order wrote old in
        \<open>auto simp: seg'_def bt_get_insert first_below_def is_regular_def ends_open_def continues_def
          head_of_def last_seq_of_def split: if_splits\<close>)
  then show ?thesis using lg(1) by fastforce
qed

end
