(* ===== verification/JournalEviction.thy ===== *)
theory JournalEviction
  imports JournalLog
begin

text \<open>
  Retention and the gap ledger: every segment that retention removes leaves its gap in the ledger,
  and the ledger holds nothing else that is new.
\<close>

section \<open>A gap is appended\<close>

text \<open>
  The lines a ledger has room for before its length passes the range of \<open>u64\<close>. What the code relies
  on of the JSON encoder: the line of a gap with a valid port is shorter than the longest line that
  the code reads.
\<close>

definition ledger_room :: "rstring \<Rightarrow> nat \<Rightarrow> files \<Rightarrow> bool" where
  "ledger_room root_dir n fs \<longleftrightarrow>
     (case bt_get fs (ledger_path root_dir) of Some (Regular bs) \<Rightarrow> length bs | _ \<Rightarrow> 0)
       + n * MAX_GAP_LEDGER_LINE_BYTES \<le> U64_MAX"

definition short_gap_lines :: "'j journal_env \<Rightarrow> bool" where
  "short_gap_lines env \<longleftrightarrow>
     (\<forall>g bs. encode_json (je_gap env) g = Inr bs \<longrightarrow> validate_port (sg_port g) = Inr () \<longrightarrow>
        length bs < MAX_GAP_LEDGER_LINE_BYTES)"

definition valid_gap :: "stored_gap \<Rightarrow> bool" where
  "valid_gap g \<longleftrightarrow> validate_port (sg_port g) = Inr () \<and> sg_first_seq g \<le> sg_last_seq g"

definition segment_count :: "files \<Rightarrow> nat" where
  "segment_count fs = length (filter is_segment_name (bt_keys fs))"

lemma segment_count_insert:
  "\<not> is_segment_name p \<Longrightarrow> segment_count (bt_insert p n fs) = segment_count fs"
  "segment_count (bt_insert p n fs) \<le> Suc (segment_count fs)"
  unfolding segment_count_def by (induction p n fs rule: bt_insert.induct) auto

lemma segment_count_remove: "segment_count (bt_remove p fs) \<le> segment_count fs"
  unfolding segment_count_def by (induction fs) (auto simp: bt_remove_def split: if_splits)

lemma ledger_room_mono: "ledger_room root_dir n fs \<Longrightarrow> m \<le> n \<Longrightarrow> ledger_room root_dir m fs"
  unfolding ledger_room_def by (meson add_left_mono le_trans mult_le_mono1)

lemma ledger_same:
  assumes "bt_get fs' (ledger_path root_dir) = bt_get fs (ledger_path root_dir)"
  shows "ledger_holds env root_dir fs' gs = ledger_holds env root_dir fs gs"
    "ledger_room root_dir n fs' = ledger_room root_dir n fs"
  using assms by (simp_all add: ledger_holds_def ledger_room_def)

lemma ledger_recover_clean:
  assumes "gap_codec_ok env" "recover_gap_ledger_file env d p fs = (Inr n, fs')"
    "bt_get fs p = Some (Regular (ledger_bytes ls))" "list_all2 (gap_line env) gs ls" "length (ledger_bytes ls) \<le> U64_MAX"
  shows "fs' = fs"
proof -
  have "ledger_scan env (ledger_bytes ls @ []) 0 0 False = 0 + length (ledger_bytes ls)"
    using ledger_scan_lines [OF assms(1), of "[]" gs ls 0] assms(4,5) by simp
  then show ?thesis
    using assms(2,3)
    by (auto simp: recover_gap_ledger_file_def st_bind_def st_map_error_def fs_len_def fs_metadata_def fs_read_def
        res_simps Let_def split: sum.splits prod.splits option.splits if_splits)
qed

lemma append_ledger_holds:
  assumes "append_gap_ledger env d root_dir gap fs = (Inr u, fs')" "gap_codec_ok env" "short_gap_lines env"
    "valid_gap gap" "ledger_holds env root_dir fs gs" "ledger_room root_dir (Suc n) fs"
  shows "ledger_holds env root_dir fs' (gs @ [gap])" "ledger_room root_dir n fs'"
    "segment_count fs' = segment_count fs" "\<And>q. q \<noteq> ledger_path root_dir \<Longrightarrow> bt_get fs' q = bt_get fs q"
proof -
  let ?p = "ledger_path root_dir"
  obtain fs1 where opened: "fs_open_create d ?p fs = (Inr (), fs1)"
    using assms(1) by (auto simp: append_gap_ledger_def Let_def res_simps)
  obtain ls where ls: "bt_get fs1 ?p = Some (Regular (ledger_bytes ls))" "list_all2 (gap_line env) gs ls"
    "length (ledger_bytes ls) + Suc n * MAX_GAP_LEDGER_LINE_BYTES \<le> U64_MAX"
    "\<And>q. q \<noteq> ?p \<Longrightarrow> bt_get fs1 q = bt_get fs q" "segment_count fs1 = segment_count fs"
  proof (cases "bt_get fs ?p")
    case None
    then have "gs = []" "fs1 = bt_insert ?p (Regular []) fs"
      using assms(5) opened by (auto simp: ledger_holds_def fs_open_create_def bt_contains_def split: option.splits)
    moreover have "Suc n * MAX_GAP_LEDGER_LINE_BYTES \<le> U64_MAX"
      using assms(6) None by (simp add: ledger_room_def)
    ultimately show ?thesis using that [of "[]"] by (simp add: bt_get_insert segment_count_insert)
  next
    case (Some node)
    then have "fs1 = fs" using opened by (auto simp: fs_open_create_def bt_contains_def split: option.splits)
    moreover obtain ls where "bt_get fs ?p = Some (Regular (ledger_bytes ls))" "list_all2 (gap_line env) gs ls"
      using assms(5) Some by (auto simp: ledger_holds_def)
    ultimately show ?thesis using that [of ls] assms(6) by (auto simp: ledger_room_def)
  qed
  obtain n' fs2 where recovered: "recover_gap_ledger_file env d ?p fs1 = (Inr n', fs2)"
    using assms(1) opened by (auto simp: append_gap_ledger_def Let_def res_simps)
  have fs2: "fs2 = fs1"
    using ledger_recover_clean [OF assms(2) recovered ls(1,2)] ls(3) by simp
  obtain l where l: "encode_json (je_gap env) gap = Inr l" "fs' = bt_insert ?p (Regular (ledger_bytes ls @ l @ [10])) fs1"
    using assms(1) opened recovered ls(1) fs2
    by (auto simp: append_gap_ledger_def Let_def res_simps fs_append_def fs_sync_def split: option.splits)
  have line: "gap_line env gap l"
    using assms(3,4) l(1) by (simp add: gap_line_def short_gap_lines_def valid_gap_def)
  show "ledger_holds env root_dir fs' (gs @ [gap])"
    unfolding ledger_holds_def
    using l(2) ls(2) line by (intro disjI2 exI [of _ "ls @ [l]"]) (simp add: bt_get_insert list_all2_appendI)
  show "ledger_room root_dir n fs'"
    using l(2) ls(3) line by (simp add: ledger_room_def bt_get_insert gap_line_def)
  show "bt_get fs' q = bt_get fs q" if "q \<noteq> ?p" for q
    using l(2) ls(4) that by (simp add: bt_get_insert)
  show "segment_count fs' = segment_count fs"
    using l(2) ls(5) by (simp add: segment_count_insert)
qed

section \<open>Retention records what it removes\<close>

definition gap_of :: "segment_descriptor \<Rightarrow> stored_gap \<Rightarrow> bool" where
  "gap_of seg g \<longleftrightarrow>
     sg_port g = sh_port (sd_header seg) \<and> sg_epoch g = sh_epoch (sd_header seg) \<and>
     sg_first_seq g = sh_first_seq (sd_header seg) \<and> sd_last_seq seg = Some (sg_last_seq g) \<and>
     sg_reason g = Retention"

definition evictable :: "segment_descriptor \<Rightarrow> bool" where
  "evictable seg \<longleftrightarrow> is_sealed_name (sd_path seg) \<and> validate_port (sh_port (sd_header seg)) = Inr () \<and>
     (\<forall>l. sd_last_seq seg = Some l \<longrightarrow> sh_first_seq (sd_header seg) \<le> l)"

definition removes_recorded ::
  "path \<Rightarrow> segment_descriptor list \<Rightarrow> files \<Rightarrow> files \<Rightarrow> stored_gap list \<Rightarrow> bool" where
  "removes_recorded ledger segs fs fs' new \<longleftrightarrow>
     (\<forall>p. p \<noteq> ledger \<longrightarrow> bt_get fs' p = bt_get fs p \<or>
        (bt_get fs' p = None \<and> (\<exists>seg \<in> set segs. sd_path seg = p \<and> (\<exists>g \<in> set new. gap_of seg g)))) \<and>
     (\<forall>g \<in> set new. \<exists>seg \<in> set segs. gap_of seg g \<and> bt_contains fs (sd_path seg) \<and> bt_get fs' (sd_path seg) = None)"

lemma removes_recorded_refl: "removes_recorded ledger segs fs fs []"
  by (simp add: removes_recorded_def)

lemma removes_recorded_more:
  "removes_recorded ledger segs fs fs' new \<Longrightarrow> removes_recorded ledger (seg # segs) fs fs' new"
  unfolding removes_recorded_def by (meson list.set_intros(2))

lemma removes_recorded_step:
  assumes "removes_recorded ledger segs fs2 fs' new" "gap_of seg g" "bt_contains fs (sd_path seg)"
    "sd_path seg \<noteq> ledger" "\<forall>s \<in> set segs. sd_path s \<noteq> ledger"
    "\<And>q. q \<noteq> ledger \<Longrightarrow> bt_get fs2 q = bt_get (bt_remove (sd_path seg) fs) q"
  shows "removes_recorded ledger (seg # segs) fs fs' (g # new)"
proof -
  have kept: "bt_get fs' q = bt_get fs2 q \<or>
      (bt_get fs' q = None \<and> (\<exists>s \<in> set segs. sd_path s = q \<and> (\<exists>g \<in> set new. gap_of s g)))" if "q \<noteq> ledger" for q
    using assms(1) that unfolding removes_recorded_def by blast
  have at: "bt_get fs2 q = (if q = sd_path seg then None else bt_get fs q)" if "q \<noteq> ledger" for q
    using assms(6) [OF that] by (simp add: bt_get_remove)
  have gone: "bt_get fs' (sd_path seg) = None"
    using kept [OF assms(4)] at [OF assms(4)] by auto
  have first: "bt_get fs' q = bt_get fs q \<or> (bt_get fs' q = None \<and>
      (\<exists>s \<in> set (seg # segs). sd_path s = q \<and> (\<exists>x \<in> set (g # new). gap_of s x)))" if "q \<noteq> ledger" for q
    using kept [OF that] at [OF that] gone assms(2) by (cases "q = sd_path seg") auto
  have later: "\<exists>s \<in> set (seg # segs). gap_of s x \<and> bt_contains fs (sd_path s) \<and> bt_get fs' (sd_path s) = None"
    if x: "x \<in> set new" for x
  proof -
    obtain s where s: "s \<in> set segs" "gap_of s x" "bt_contains fs2 (sd_path s)" "bt_get fs' (sd_path s) = None"
      using assms(1) x unfolding removes_recorded_def by blast
    then have "bt_contains fs (sd_path s)"
      using assms(5) at [of "sd_path s"] by (auto simp: bt_contains_def split: if_splits)
    with s show ?thesis by auto
  qed
  show ?thesis
    unfolding removes_recorded_def using first later gone assms(2,3) by auto
qed

lemma retention_loop_records:
  assumes "gap_codec_ok env" "short_gap_lines env"
  shows "retention_loop env d g wall target additional segs failures w = (Inr r, w') \<Longrightarrow>
     \<forall>seg \<in> set segs. evictable seg \<Longrightarrow> ledger_holds env (jc_root g) (snd w) gs \<Longrightarrow>
     ledger_room (jc_root g) (length segs + n) (snd w) \<Longrightarrow>
     \<exists>new. ledger_holds env (jc_root g) (snd w') (gs @ new) \<and> ledger_room (jc_root g) n (snd w') \<and>
       removes_recorded (ledger_path (jc_root g)) segs (snd w) (snd w') new"
proof (induction segs arbitrary: failures w gs)
  case Nil
  then show ?case by (auto intro!: exI [of _ "[]"] removes_recorded_refl)
next
  case (Cons seg segs)
  let ?loop = "retention_loop env d g wall target additional segs"
  let ?done = "\<lambda>w gs segs. \<exists>new. ledger_holds env (jc_root g) (snd w') (gs @ new) \<and>
    ledger_room (jc_root g) n (snd w') \<and> removes_recorded (ledger_path (jc_root g)) segs (snd w) (snd w') new"
  have names: "\<forall>s \<in> set (seg # segs). sd_path s \<noteq> ledger_path (jc_root g)"
    using Cons.prems(2) ledger_no_segment by (auto simp: evictable_def is_segment_name_def)
  have skip: "?done w gs (seg # segs)" if "?loop fails (fst w, snd w) = (Inr r, w')" for fails
  proof -
    have "ledger_room (jc_root g) (length segs + n) (snd w)"
      by (rule ledger_room_mono [OF Cons.prems(4)]) simp
    with Cons.IH [OF that] Cons.prems(2,3) show ?thesis using removes_recorded_more by fastforce
  qed
  show ?case
  proof (cases "ws_total_bytes (fst w) \<le> target \<and> fits_within g (ws_total_bytes (fst w)) additional")
    case True
    with Cons.prems(1,3,4) ledger_room_mono [OF Cons.prems(4), of n] show ?thesis
      by (auto intro!: exI [of _ "[]"] removes_recorded_refl)
  next
    case go: False
    note step = Cons.prems(1) [unfolded retention_loop_step [OF go] Let_def]
    consider (skipped) fails where "?loop fails w = (Inr r, w')"
      | (removed) last_seq x1 fs n1 y w2 where "sd_last_seq seg = Some last_seq"
          "fs_remove d (sd_path seg) (snd w) = (Inr x1, fs)"
          "record_gap env d (jc_root g)
             \<lparr>sg_port = sh_port (sd_header seg), sg_epoch = sh_epoch (sd_header seg),
              sg_first_seq = sh_first_seq (sd_header seg), sg_last_seq = last_seq, sg_reason = Retention,
              sg_recorded_wall_time_ns = now_wall_time_ns (wall (sd_path seg))\<rparr>
             ((fst w)\<lparr>ws_total_bytes := n1\<rparr>, fs) = (Inr y, w2)" "?loop failures w2 = (Inr r, w')"
    proof -
      have untouched: "fs = snd w" if "fs_remove d (sd_path seg) (snd w) = (Inl e, fs)" for e fs
        using fs_remove_cases [OF that] by auto
      show ?thesis
        using step skipped removed
        by (auto split: option.splits sum.splits prod.splits if_splits dest: untouched)
    qed
    then show ?thesis
    proof cases
      case skipped
      then show ?thesis using skip by simp
    next
      case removed
      define gap where "gap = \<lparr>sg_port = sh_port (sd_header seg), sg_epoch = sh_epoch (sd_header seg),
        sg_first_seq = sh_first_seq (sd_header seg), sg_last_seq = last_seq, sg_reason = Retention,
        sg_recorded_wall_time_ns = now_wall_time_ns (wall (sd_path seg))\<rparr>"
      have rm: "bt_contains (snd w) (sd_path seg)" "fs = bt_remove (sd_path seg) (snd w)"
        using fs_remove_cases [OF removed(2)] by auto
      obtain u fs2 where appended: "append_gap_ledger env d (jc_root g) gap fs = (Inr u, fs2)" "snd w2 = fs2"
        using removed(3) by (auto simp: record_gap_def st_bind_def on_files_def on_state_def gap_def
            split: prod.splits sum.splits)
      have "bt_get fs (ledger_path (jc_root g)) = bt_get (snd w) (ledger_path (jc_root g))"
        using names rm(2) by (auto simp: bt_get_remove)
      note same = ledger_same [OF this]
      have "ledger_holds env (jc_root g) fs gs"
          "ledger_room (jc_root g) (Suc (length segs + n)) fs"
        using Cons.prems(3,4) by (simp_all add: same)
      moreover have "valid_gap gap" using Cons.prems(2) removed(1) by (simp add: valid_gap_def gap_def evictable_def)
      ultimately have w2: "ledger_holds env (jc_root g) (snd w2) (gs @ [gap])"
          "ledger_room (jc_root g) (length segs + n) (snd w2)"
          "\<And>q. q \<noteq> ledger_path (jc_root g) \<Longrightarrow> bt_get (snd w2) q = bt_get fs q"
        using append_ledger_holds [OF appended(1) assms] appended(2) by blast+
      obtain new where new: "ledger_holds env (jc_root g) (snd w') ((gs @ [gap]) @ new)" "ledger_room (jc_root g) n (snd w')"
          "removes_recorded (ledger_path (jc_root g)) segs (snd w2) (snd w') new"
        using Cons.IH [OF removed(4) _ w2(1,2)] Cons.prems(2) by auto
      have "gap_of seg gap" using removed(1) by (simp add: gap_of_def gap_def)
      from removes_recorded_step [OF new(3) this rm(1)] names w2(3) rm(2)
      have "removes_recorded (ledger_path (jc_root g)) (seg # segs) (snd w) (snd w') (gap # new)" by simp
      with new(1,2) show ?thesis by (intro exI [of _ "gap # new"]) simp
    qed
  qed
qed

section \<open>What retention finds\<close>

lemma discover_each_finds:
  "discover_each env d port fs ps = Inr segs \<Longrightarrow> seg \<in> set segs \<Longrightarrow>
   sd_path seg \<in> set ps \<and> is_segment_name (sd_path seg) \<and> sd_sealed seg = is_sealed_name (sd_path seg) \<and>
   (\<exists>f off f'. file_open d (sd_path seg) fs = Inr f \<and>
      read_segment_header env d (sd_path seg) f = (Inr (sd_header seg, off), f')) \<and>
   (sd_sealed seg \<longrightarrow> parse_sealed_last_seq (sd_path seg) \<noteq> None \<longrightarrow>
      sd_last_seq seg = parse_sealed_last_seq (sd_path seg))"
proof (induction ps arbitrary: segs)
  case (Cons p ps)
  show ?case
  proof (cases "\<exists>segs'. discover_each env d port fs ps = Inr segs' \<and> seg \<in> set segs'")
    case True
    with Cons.IH show ?thesis by auto
  next
    case False
    then show ?thesis
      using Cons.prems
      by (auto simp: res_simps fst_def split: if_splits sum.splits prod.splits option.splits)
  qed
qed simp

lemma discover_each_length:
  "discover_each env d port fs ps = Inr segs \<Longrightarrow> length segs \<le> length (filter is_segment_name ps)"
proof (induction ps arbitrary: segs)
  case (Cons p ps)
  from Cons.prems show ?case
    by (auto simp: res_simps split: if_splits sum.splits prod.splits dest!: Cons.IH)
qed simp

lemma dirs_between_below: "dir \<in> set (dirs_between root_dir d) \<Longrightarrow> below root_dir d \<Longrightarrow> below root_dir dir"
proof -
  assume "dir \<in> set (dirs_between root_dir d)" "below root_dir d"
  then have "\<exists>i. dir = root_dir @ take i (drop (length root_dir) d)"
    unfolding dirs_between_def Let_def set_map by blast
  then obtain i where i: "dir = root_dir @ take i (drop (length root_dir) d)" by blast
  show "below root_dir dir"
  proof (cases "d = root_dir")
    case True
    with i show ?thesis by (simp add: below_def)
  next
    case False
    then obtain rest where "d = root_dir @ 47 # rest"
      using \<open>below root_dir d\<close> by (auto simp: below_def prefix_def lit_def)
    with i show ?thesis by (cases i) (auto simp: below_def prefix_def lit_def)
  qed
qed

lemma collect_dirs_sound:
  "collect_dirs d root_dir expected fs dirs = Inr ps \<Longrightarrow> p \<in> set ps \<Longrightarrow> fst p \<in> set dirs \<and> is_regular fs p"
proof (induction dirs arbitrary: ps)
  case (Cons dir dirs)
  then show ?case
    by (auto simp: res_simps collect_entries_sound is_regular_def dir_entries_def)
qed simp

lemma collect_entries_length:
  "collect_entries d root_dir expected fs entries = Inr ps \<Longrightarrow>
   length (filter P ps) \<le> length (filter P (entry_files entries))"
proof (induction entries arbitrary: ps)
  case (Cons entry entries)
  show ?case
  proof (cases entry)
    case (Inl dir)
    with Cons show ?thesis by simp
  next
    case (Inr p)
    have later: "length (filter P ps') \<le> length (filter P (entry_files entries))"
      if "collect_entries d root_dir expected fs entries = Inr ps'" for ps'
      by (rule Cons.IH [OF that])
    show ?thesis
      using Cons.prems Inr by (auto simp: res_simps split: if_splits intro: later le_SucI)
  qed
qed simp

lemma collect_dirs_length:
  "collect_dirs d root_dir expected fs dirs = Inr ps \<Longrightarrow> distinct dirs \<Longrightarrow>
   length (filter P ps) \<le> length (filter (\<lambda>p. P p \<and> fst p \<in> set dirs) (bt_keys fs))"
proof (induction dirs arbitrary: ps)
  case (Cons dir dirs)
  obtain found later where found: "collect_entries d root_dir expected fs (dir_entries dir fs) = Inr found"
    "collect_dirs d root_dir expected fs dirs = Inr later" "ps = found @ later"
    using Cons.prems(1) by (auto simp: res_simps)
  have "length (filter P found) \<le> length (filter (\<lambda>p. P p \<and> fst p = dir) (bt_keys fs))"
    using collect_entries_length [OF found(1), of P] by (simp add: entry_files_dir conj_commute)
  moreover have "length (filter P later) \<le> length (filter (\<lambda>p. P p \<and> fst p \<in> set dirs) (bt_keys fs))"
    using Cons.IH [OF found(2)] Cons.prems(2) by simp
  moreover have "length (filter (\<lambda>p. P p \<and> fst p \<in> set (dir # dirs)) ks) =
      length (filter (\<lambda>p. P p \<and> fst p = dir) ks) + length (filter (\<lambda>p. P p \<and> fst p \<in> set dirs) ks)" for ks
    using Cons.prems(2) by (induction ks) auto
  ultimately show ?case using found(3) by simp
qed simp

lemma discovered:
  assumes "discover_segments env d root_dir None fs = Inr segs"
  shows "length segs \<le> segment_count fs"
    "\<And>seg. seg \<in> set segs \<Longrightarrow> below (slots_root root_dir) (fst (sd_path seg)) \<and> is_regular fs (sd_path seg) \<and>
       is_segment_name (sd_path seg)"
proof -
  have "length segs \<le> segment_count fs \<and> (\<forall>seg \<in> set segs.
    below (slots_root root_dir) (fst (sd_path seg)) \<and> is_regular fs (sd_path seg) \<and> is_segment_name (sd_path seg))"
  proof (cases "dir_exists (slots_root root_dir) fs")
    case False
    with assms show ?thesis by (simp add: discover_segments_def)
  next
    case True
    let ?dirs = "filter (\<lambda>dir. \<not> below (path_join (slots_root root_dir) (lit ''agent-history'')) dir)
      (tree_dirs (slots_root root_dir) fs)"
    obtain ps where ps: "collect_dirs d (slots_root root_dir) None fs ?dirs = Inr ps" "discover_each env d None fs ps = Inr segs"
      using assms True by (auto simp: discover_segments_def Let_def res_simps collect_files_def split: sum.splits)
    have "below (slots_root root_dir) dir" if "dir \<in> set ?dirs" for dir
      using that dirs_between_below by (auto simp: tree_dirs_def)
    then have "\<forall>p \<in> set ps. below (slots_root root_dir) (fst p) \<and> is_regular fs p"
      using collect_dirs_sound [OF ps(1)] by blast
    moreover have "length (filter is_segment_name ps) \<le> segment_count fs"
    proof -
      have "length (filter is_segment_name ps) \<le>
          length (filter (\<lambda>p. is_segment_name p \<and> fst p \<in> set ?dirs) (bt_keys fs))"
        by (rule collect_dirs_length [OF ps(1)]) (simp add: tree_dirs_def)
      also have "\<dots> \<le> segment_count fs"
      proof -
        have "length (filter (\<lambda>p. P p \<and> Q p) ks) \<le> length (filter P ks)" for P Q and ks :: "path list"
          by (induction ks) auto
        then show ?thesis unfolding segment_count_def .
      qed
      finally show ?thesis .
    qed
    ultimately show ?thesis
      using discover_each_finds [OF ps(2)] discover_each_length [OF ps(2)] by (meson le_trans)
  qed
  then show "length segs \<le> segment_count fs"
    "\<And>seg. seg \<in> set segs \<Longrightarrow> below (slots_root root_dir) (fst (sd_path seg)) \<and> is_regular fs (sd_path seg) \<and>
       is_segment_name (sd_path seg)" by blast+
qed

section \<open>The log that is left\<close>

text \<open>A segment found by retention is the one that the store holds under its name.\<close>

definition agrees :: "'j journal_env \<Rightarrow> rstring \<Rightarrow> files \<Rightarrow> segment_descriptor \<Rightarrow> bool" where
  "agrees env root_dir fs seg \<longleftrightarrow>
     (\<forall>port epoch s (es :: 'j timeline_event list). stored_segment env root_dir fs port epoch s es \<longrightarrow>
        sd_path s = sd_path seg \<longrightarrow> sd_sealed s \<longrightarrow>
        sd_header seg = sd_header s \<and> sd_last_seq seg = sd_last_seq s)"

lemma discovered_agrees:
  assumes "codec_ok (je_segment env)" "discover_segments env d root_dir None fs = Inr segs" "seg \<in> set segs"
  shows "agrees env root_dir fs seg"
  unfolding agrees_def
proof (intro allI impI)
  fix port epoch s and es :: "'a timeline_event list"
  assume s: "stored_segment env root_dir fs port epoch s es" "sd_path s = sd_path seg" "sd_sealed s"
  have "dir_exists (slots_root root_dir) fs"
    using assms(2,3) by (auto simp: discover_segments_def Let_def split: if_splits)
  then obtain ps where "discover_each env d None fs ps = Inr segs"
    using assms(2) by (auto simp: discover_segments_def Let_def res_simps split: sum.splits)
  note found = discover_each_finds [OF this assms(3)]
  then obtain f off f' where f: "file_open d (sd_path seg) fs = Inr f"
    "read_segment_header env d (sd_path seg) f = (Inr (sd_header seg, off), f')" by blast
  obtain head recs where body: "bt_get fs (sd_path seg) = Some (Regular (head @ concat recs))"
    "segment_bytes env (sd_header s) head"
    using s(1,2) by (auto simp: stored_segment_def segment_holds_def segment_file_def)
  have "fl_data f = head @ concat recs"
    using f(1) body(1) by (auto simp: file_open_def split: option.splits)
  then have header: "sd_header seg = sd_header s"
    using read_header_front(1) [OF assms(1) body(2) _ f(2)] by blast
  have named: "named_in env root_dir port epoch s" using s(1) by (simp add: stored_segment_def)
  note names = named_in_names [OF named]
  have "sd_last_seq s = Some (the (sd_last_seq s))" by (rule stored_last(1) [OF s(1,3)])
  then have "sd_last_seq seg = sd_last_seq s"
    using found names s(2,3) by (simp add: parse_sealed_last_seq_def)
  with header show "sd_header seg = sd_header s \<and> sd_last_seq seg = sd_last_seq s" by blast
qed

lemma enforce_retention_records:
  assumes "enforce_retention we d g wall additional w = (Inr r, w')"
    "codec_ok (je_segment (we_journal we))" "gap_codec_ok (we_journal we)" "short_gap_lines (we_journal we)"
    "\<And>p. below (slots_root (jc_root g)) (fst p) \<Longrightarrow> is_segment_name p \<Longrightarrow> is_regular (snd w) p \<Longrightarrow>
       \<exists>port epoch s es. stored_segment (we_journal we) (jc_root g) (snd w) port epoch s es \<and> sd_path s = p"
    "ledger_holds (we_journal we) (jc_root g) (snd w) gs"
    "ledger_room (jc_root g) (segment_count (snd w) + n) (snd w)"
  shows "\<exists>new segs. ledger_holds (we_journal we) (jc_root g) (snd w') (gs @ new) \<and> ledger_room (jc_root g) n (snd w') \<and>
    removes_recorded (ledger_path (jc_root g)) segs (snd w) (snd w') new \<and>
    (\<forall>seg \<in> set segs. agrees (we_journal we) (jc_root g) (snd w) seg \<and> is_sealed_name (sd_path seg) \<and>
       below (slots_root (jc_root g)) (fst (sd_path seg)) \<and> is_regular (snd w) (sd_path seg))"
proof -
  let ?env = "we_journal we" and ?fs = "snd w"
  obtain n0 where n0: "directory_size d (jc_root g) ?fs = Inr n0"
    using assms(1) by (auto simp: enforce_retention_def res_simps)
  show ?thesis
  proof (cases "fits_within g n0 additional")
    case True
    then have "snd w' = ?fs"
      using assms(1) n0 by (auto simp: enforce_retention_def res_simps)
    with assms(6) ledger_room_mono [OF assms(7), of n] show ?thesis
      by (intro exI [of _ "[]"]) (simp add: removes_recorded_refl)
  next
    case False
    let ?w = "((fst w)\<lparr>ws_total_bytes := n0\<rparr>, ?fs)"
    obtain segs failures w1 where loop: "discover_segments ?env d (jc_root g) None ?fs = Inr segs"
      "retention_loop ?env d g wall (low_watermark_bytes (we_round we) g) additional (retention_order segs) [] ?w =
         (Inr failures, w1)" "snd w' = snd w1"
      using assms(1) n0 False by (auto simp: enforce_retention_def res_simps Let_def split: if_splits)
    have sub: "set (retention_order segs) \<subseteq> set segs" by (auto simp: retention_order_def)
    have "evictable seg" if seg: "seg \<in> set (retention_order segs)" for seg
    proof -
      have named: "is_sealed_name (sd_path seg)" by (rule retention_order_sealed(1) [OF loop(1) seg])
      obtain port epoch s es where s: "stored_segment ?env (jc_root g) ?fs port epoch s es" "sd_path s = sd_path seg"
        using assms(5) discovered(2) [OF loop(1)] seg sub by blast
      have "sd_sealed s" using stored_facts(3) [OF s(1)] s(2) named by simp
      then have "sd_header seg = sd_header s" "sd_last_seq seg = sd_last_seq s"
        using discovered_agrees [OF assms(2) loop(1)] seg sub s \<open>sd_sealed s\<close> unfolding agrees_def by blast+
      moreover have "validate_port (sh_port (sd_header s)) = Inr ()"
        using s(1) by (auto simp: stored_segment_def segment_holds_def segment_bytes_def)
      moreover have "sh_first_seq (sd_header s) \<le> l" if "sd_last_seq s = Some l" for l
        using stored_last(2) [OF s(1) \<open>sd_sealed s\<close>] that by simp
      ultimately show ?thesis using named by (simp add: evictable_def)
    qed
    moreover have "ledger_room (jc_root g) (length (retention_order segs) + n) (snd ?w)"
    proof -
      have "length (retention_order segs) \<le> length segs" by (simp add: retention_order_def)
      then show ?thesis using ledger_room_mono [OF assms(7)] discovered(1) [OF loop(1)] by simp
    qed
    moreover have "ledger_holds ?env (jc_root g) (snd ?w) gs" using assms(6) by simp
    ultimately obtain new where new: "ledger_holds ?env (jc_root g) (snd w1) (gs @ new)"
      "ledger_room (jc_root g) n (snd w1)"
      "removes_recorded (ledger_path (jc_root g)) (retention_order segs) ?fs (snd w1) new"
      using retention_loop_records [OF assms(3,4) loop(2)] by fastforce
    have "agrees ?env (jc_root g) ?fs seg \<and> is_sealed_name (sd_path seg) \<and>
       below (slots_root (jc_root g)) (fst (sd_path seg)) \<and> is_regular ?fs (sd_path seg)"
      if "seg \<in> set (retention_order segs)" for seg
      using that sub discovered_agrees [OF assms(2) loop(1)] retention_order_sealed(1) [OF loop(1)]
        discovered(2) [OF loop(1)] by blast
    with new loop(3) show ?thesis by (intro exI [of _ new] exI [of _ "retention_order segs"]) simp
  qed
qed

lemma ensure_capacity_records:
  assumes "ensure_capacity we d g wall now additional w = (Inr r, w')"
    "codec_ok (je_segment (we_journal we))" "gap_codec_ok (we_journal we)" "short_gap_lines (we_journal we)"
    "\<And>p. below (slots_root (jc_root g)) (fst p) \<Longrightarrow> is_segment_name p \<Longrightarrow> is_regular (snd w) p \<Longrightarrow>
       \<exists>port epoch s es. stored_segment (we_journal we) (jc_root g) (snd w) port epoch s es \<and> sd_path s = p"
    "ledger_holds (we_journal we) (jc_root g) (snd w) gs"
    "ledger_room (jc_root g) (segment_count (snd w) + n) (snd w)"
  shows "\<exists>new segs. ledger_holds (we_journal we) (jc_root g) (snd w') (gs @ new) \<and> ledger_room (jc_root g) n (snd w') \<and>
    removes_recorded (ledger_path (jc_root g)) segs (snd w) (snd w') new \<and>
    (\<forall>seg \<in> set segs. agrees (we_journal we) (jc_root g) (snd w) seg \<and> is_sealed_name (sd_path seg) \<and>
       below (slots_root (jc_root g)) (fst (sd_path seg)) \<and> is_regular (snd w) (sd_path seg))"
proof -
  consider "snd w' = snd w" | w1 r1 where "enforce_retention we d g wall additional w = (Inr r1, w1)" "snd w' = snd w1"
    using assms(1) by (auto simp: ensure_capacity_def Let_def split: if_splits option.splits sum.splits prod.splits)
  then show ?thesis
  proof cases
    case 1
    with assms(6) ledger_room_mono [OF assms(7), of n] show ?thesis
      by (intro exI [of _ "[]"]) (simp add: removes_recorded_refl)
  next
    case 2
    from enforce_retention_records [OF 2(1) assms(2-7)] 2(2) show ?thesis by simp
  qed
qed

text \<open>The sequence numbers of a stream that the Retention gaps cover.\<close>

definition evicted :: "stored_gap list \<Rightarrow> stream_key \<Rightarrow> nat \<Rightarrow> bool" where
  "evicted gaps k n \<longleftrightarrow>
     (\<exists>g \<in> set gaps. sg_reason g = Retention \<and> sg_port g = fst k \<and> sg_epoch g = snd k \<and>
        sg_first_seq g \<le> n \<and> n \<le> sg_last_seq g)"

lemma two_members: "x \<in> set xs \<Longrightarrow> y \<in> set xs \<Longrightarrow> sorted_wrt R xs \<Longrightarrow> x = y \<or> R x y \<or> R y x"
  by (induction xs) auto

lemma surviving_filter:
  assumes "\<And>x e. x \<in> set lg \<Longrightarrow> e \<in> set (snd x) \<Longrightarrow> is_regular fs (sd_path (fst x)) = Q e"
  shows "log_events (surviving fs lg) = filter Q (log_events lg)"
proof -
  have "filter Q (snd x) = (if is_regular fs (sd_path (fst x)) then snd x else [])" if "x \<in> set lg" for x
    using assms [OF that] by (auto simp: filter_id_conv filter_empty_conv)
  then show ?thesis by (induction lg) (simp_all add: surviving_def)
qed

lemma surviving_exact:
  fixes lg :: "'j stream_log"
  assumes "stream_holds env root_dir w k lg"
    "removes_recorded (ledger_path root_dir) segs (snd w) fs' new"
    "\<forall>seg \<in> set segs. agrees env root_dir (snd w) seg \<and> is_sealed_name (sd_path seg)"
    "\<And>seg. seg \<in> set segs \<Longrightarrow> bt_contains (snd w) (sd_path seg) \<Longrightarrow>
       \<exists>port epoch s (es :: 'j timeline_event list). stored_segment env root_dir (snd w) port epoch s es \<and> sd_path s = sd_path seg"
  shows "log_events (surviving fs' lg) = filter (\<lambda>e. \<not> evicted new k (ev_seq e)) (log_events lg)"
proof (rule surviving_filter)
  fix x e assume x: "x \<in> set lg" "e \<in> set (snd x)"
  note store = assms(1) [unfolded stream_holds_def stored_pairs]
  have stored: "stored_segment env root_dir (snd w) (fst k) (snd k) (fst y) (snd y)" if "y \<in> set lg" for y
    using store that by blast
  have range: "sh_first_seq (sd_header (fst x)) \<le> ev_seq e" "sd_last_seq (fst x) = Some l \<Longrightarrow> ev_seq e \<le> l" for l
    using stored_facts(5) [OF stored [OF x(1)] x(2)] stored [OF x(1)] x(2)
    by (auto simp: stored_segment_def segment_holds_def)
  have named: "sh_port (sd_header (fst y)) = fst k" "sh_epoch (sd_header (fst y)) = snd k" if "y \<in> set lg" for y
    using stored [OF that] by (auto simp: stored_segment_def named_in_def Let_def)
  have matches: "sd_header seg = sd_header (fst y) \<and> sd_last_seq seg = sd_last_seq (fst y)"
    if "seg \<in> set segs" "y \<in> set lg" "sd_path (fst y) = sd_path seg" for seg y
    using assms(3) that stored [OF that(2)] stored_facts(3) [OF stored [OF that(2)]]
    unfolding agrees_def by metis
  have gone: "\<not> is_regular fs' (sd_path (fst x))" if ev: "evicted new k (ev_seq e)"
  proof -
    obtain g where g: "g \<in> set new" "sg_port g = fst k" "sg_epoch g = snd k" "sg_first_seq g \<le> ev_seq e"
      "ev_seq e \<le> sg_last_seq g" using ev by (auto simp: evicted_def)
    obtain seg where seg: "seg \<in> set segs" "gap_of seg g" "bt_contains (snd w) (sd_path seg)"
      "bt_get fs' (sd_path seg) = None"
      using assms(2) g(1) unfolding removes_recorded_def by blast
    obtain port epoch s and es :: "'j timeline_event list" where
      s: "stored_segment env root_dir (snd w) port epoch s es" "sd_path s = sd_path seg"
      using assms(4) [OF seg(1,3)] by blast
    have "sd_sealed s" using stored_facts(3) [OF s(1)] s(2) assms(3) seg(1) by simp
    then have "sd_header seg = sd_header s" using assms(3) seg(1) s unfolding agrees_def by blast
    then have "port = fst k" "epoch = snd k"
      using s(1) seg(2) g(2,3) by (auto simp: stored_segment_def named_in_def Let_def gap_of_def)
    then have "fst (sd_path seg) = epoch_dir env root_dir (fst k) (snd k) \<and> is_segment_name (sd_path seg) \<and>
        is_regular (snd w) (sd_path seg)"
      using stored_facts(1,2,4) [OF s(1)] s(2) by simp
    then obtain y where y: "y \<in> set lg" "sd_path seg = sd_path (fst y)"
      using store by blast
    note same = matches [OF seg(1) y(1) y(2) [symmetric]]
    have first: "sh_first_seq (sd_header (fst y)) \<le> ev_seq e" and final: "sd_last_seq (fst y) = Some (sg_last_seq g)"
      using same seg(2) g(4) by (auto simp: gap_of_def)
    have order: "sorted_wrt (\<lambda>x y. \<forall>e \<in> set (snd x). ev_seq e < sh_first_seq (sd_header (fst y))) lg"
      "sd_last_seq (fst y) = last_seq_of (snd y) None"
      using store y(1) by (auto simp: in_order_def)
    have "x = y"
    proof (rule ccontr)
      assume "x \<noteq> y"
      then consider "\<forall>e \<in> set (snd x). ev_seq e < sh_first_seq (sd_header (fst y))"
        | "\<forall>e \<in> set (snd y). ev_seq e < sh_first_seq (sd_header (fst x))"
        using two_members [OF x(1) y(1) order(1)] by blast
      then show False
      proof cases
        case 1
        with x(2) first show ?thesis by (meson leD)
      next
        case 2
        have "snd y \<noteq> []" "ev_seq (last (snd y)) = sg_last_seq g"
          using final order(2) by (auto simp: last_seq_of_def split: if_splits)
        with 2 have "sg_last_seq g < sh_first_seq (sd_header (fst x))" using last_in_set by metis
        with range(1) g(5) show ?thesis by simp
      qed
    qed
    with seg(4) y(2) show ?thesis by (simp add: is_regular_def)
  qed
  have covered: "evicted new k (ev_seq e)" if lost: "\<not> is_regular fs' (sd_path (fst x))"
  proof -
    have "is_regular (snd w) (sd_path (fst x))" "is_segment_name (sd_path (fst x))"
      using stored_facts [OF stored [OF x(1)]] by blast+
    then have "bt_get fs' (sd_path (fst x)) \<noteq> bt_get (snd w) (sd_path (fst x))" "sd_path (fst x) \<noteq> ledger_path root_dir"
      using lost ledger_no_segment by (auto simp: is_regular_def)
    then obtain seg g where seg: "seg \<in> set segs" "sd_path seg = sd_path (fst x)" "g \<in> set new" "gap_of seg g"
      using assms(2) unfolding removes_recorded_def by blast
    note same = matches [OF seg(1) x(1) seg(2) [symmetric]]
    have "sd_last_seq (fst x) = Some (sg_last_seq g)" using same seg(4) by (simp add: gap_of_def)
    from range(2) [OF this] range(1) same seg(3,4) named [OF x(1)] show ?thesis
      by (auto simp: evicted_def gap_of_def)
  qed
  show "is_regular fs' (sd_path (fst x)) = (\<not> evicted new k (ev_seq e))" using gone covered by blast
qed

end
