(* ===== verification/JournalAppend.thy ===== *)
theory JournalAppend
  imports JournalEviction
begin

text \<open>
  The journal as a whole: one log per stream, and the ledger of gaps. An append that succeeds
  extends the log of its stream by its event; whatever retention removed to make room is in the
  ledger, and so is the range of sequence numbers that the event skipped.
\<close>

section \<open>The journal and its logs\<close>

definition ledger_records :: "'j journal_env \<Rightarrow> rstring \<Rightarrow> files \<Rightarrow> stored_gap list \<Rightarrow> bool" where
  "ledger_records env root_dir fs gs \<longleftrightarrow>
     ledger_holds env root_dir fs gs \<and> (\<forall>g \<in> set gs. sg_last_seq g \<le> U64_MAX)"

definition journal_holds ::
  "'j journal_env \<Rightarrow> rstring \<Rightarrow> writer_store \<Rightarrow> (stream_key \<Rightarrow> 'j stream_log) \<Rightarrow> stored_gap list \<Rightarrow> bool" where
  "journal_holds env root_dir w logs gs \<longleftrightarrow>
     bt_wf (snd w) \<and>
     (\<forall>k. if is_text (fst k) then stream_holds env root_dir w k (logs k) else logs k = []) \<and>
     (\<forall>p. below (slots_root root_dir) (fst p) \<and> is_segment_name p \<and> is_regular (snd w) p \<longrightarrow>
        (\<exists>k. \<exists>x \<in> set (logs k). p = sd_path (fst x))) \<and>
     ledger_records env root_dir (snd w) gs"

lemma journal_holdsD:
  assumes "journal_holds env root_dir w logs gs"
  shows "bt_wf (snd w)" "is_text (fst k) \<Longrightarrow> stream_holds env root_dir w k (logs k)" "\<not> is_text (fst k) \<Longrightarrow> logs k = []"
    "below (slots_root root_dir) (fst p) \<Longrightarrow> is_segment_name p \<Longrightarrow> is_regular (snd w) p \<Longrightarrow>
       \<exists>k. \<exists>x \<in> set (logs k). p = sd_path (fst x)"
    "ledger_records env root_dir (snd w) gs" "ledger_holds env root_dir (snd w) gs"
  using assms unfolding journal_holds_def ledger_records_def by meson+

lemma surviving_all:
  assumes "stream_holds env root_dir w k lg" "segments_same (snd w) fs'"
  shows "surviving fs' lg = lg"
proof -
  have "is_regular fs' (sd_path (fst x))" if "x \<in> set lg" for x
  proof -
    have s: "stored_segment env root_dir (snd w) (fst k) (snd k) (fst x) (snd x)"
      using assms(1) that by (simp add: stream_holds_def stored_pairs)
    show ?thesis
      using stored_facts(2,4) [OF s] assms(2) by (simp add: segments_same_def is_regular_def del: split_paired_All)
  qed
  then show ?thesis by (simp add: surviving_def filter_id_conv)
qed

lemma journal_shrinks:
  assumes "journal_holds env root_dir w logs gs" "segments_shrink (snd w) (snd w')"
    "ws_open (fst w') = ws_open (fst w)" "ws_heads (fst w') = ws_heads (fst w)" "ledger_records env root_dir (snd w') gs'"
  shows "journal_holds env root_dir w' (\<lambda>k. surviving (snd w') (logs k)) gs'"
proof -
  have "stream_holds env root_dir w' k (surviving (snd w') (logs k))" if "is_text (fst k)" for k
    by (rule stream_frame [OF journal_holdsD(2) [OF assms(1) that] shrink_shrinks [OF assms(2)]])
      (use assms(3,4) in \<open>simp_all add: head_of_def\<close>)
  moreover have "surviving (snd w') (logs k) = []" if "\<not> is_text (fst k)" for k
    using journal_holdsD(3) [OF assms(1) that] by (simp add: surviving_def)
  moreover have "\<exists>k. \<exists>x \<in> set (surviving (snd w') (logs k)). p = sd_path (fst x)"
    if p: "below (slots_root root_dir) (fst p)" "is_segment_name p" "is_regular (snd w') p" for p
  proof -
    have "is_regular (snd w) p"
      using p(2,3) assms(2) unfolding segments_shrink_def is_regular_def by (metis option.distinct(1))
    then obtain k x where "x \<in> set (logs k)" "p = sd_path (fst x)"
      using journal_holdsD(4) [OF assms(1)] p(1,2) by blast
    with p(3) show ?thesis by (intro exI [of _ k] bexI [of _ x]) (simp_all add: surviving_def)
  qed
  moreover have "bt_wf (snd w')"
    using journal_holdsD(1) [OF assms(1)] assms(2) by (simp add: segments_shrink_def)
  ultimately show ?thesis unfolding journal_holds_def using assms(5) by presburger
qed

lemma journal_same:
  assumes "journal_holds env root_dir w logs gs" "segments_same (snd w) (snd w')"
    "ws_open (fst w') = ws_open (fst w)" "ws_heads (fst w') = ws_heads (fst w)"
    "ledger_records env root_dir (snd w') gs'"
  shows "journal_holds env root_dir w' logs gs'"
proof -
  have "surviving (snd w') (logs k) = logs k" for k
    using surviving_all [OF journal_holdsD(2) [OF assms(1)] assms(2)] journal_holdsD(3) [OF assms(1)]
    by (cases "is_text (fst k)") (simp_all add: surviving_def)
  with journal_shrinks [OF assms(1) segments_same_shrink [OF assms(2)] assms(3-5)] show ?thesis by simp
qed

lemma ledger_elsewhere: "fst (ledger_path root_dir) \<noteq> epoch_dir env root_dir port epoch"
proof
  assume "fst (ledger_path root_dir) = epoch_dir env root_dir port epoch"
  then have "length root_dir = length (epoch_dir env root_dir port epoch)" by (simp add: ledger_path_def)
  then show False by (simp add: epoch_dir_def slot_dir_def slots_root_def path_join_def lit_def)
qed

lemma journal_stream:
  assumes "journal_holds env root_dir w logs gs" "is_text (fst k)" "inj (je_uuid_text env)"
    "stream_holds env root_dir w' k lg'" "bt_wf (snd w')"
    "\<And>q. fst q \<noteq> epoch_dir env root_dir (fst k) (snd k) \<Longrightarrow> bt_get (snd w') q = bt_get (snd w) q"
    "\<And>k'. k' \<noteq> k \<Longrightarrow> bt_get (ws_open (fst w')) k' = bt_get (ws_open (fst w)) k'"
    "\<And>k'. k' \<noteq> k \<Longrightarrow> bt_get (ws_heads (fst w')) k' = bt_get (ws_heads (fst w)) k'"
  shows "journal_holds env root_dir w' (logs(k := lg')) gs"
proof -
  let ?dir = "\<lambda>k. epoch_dir env root_dir (fst k) (snd k)"
  have apart: "?dir k' \<noteq> ?dir k" if "k' \<noteq> k" "is_text (fst k')" for k'
    using that epoch_dir_inj [OF assms(3) that(2) assms(2)] by (metis prod_eqI)
  have "stream_holds env root_dir w' k' (logs k')" if k': "k' \<noteq> k" "is_text (fst k')" for k'
  proof -
    have held: "stream_holds env root_dir w k' (logs k')" by (rule journal_holdsD(2) [OF assms(1) k'(2)])
    have "shrinks_in (?dir k') (snd w) (snd w')"
      using assms(6) apart [OF k'] by (simp add: shrinks_in_def)
    then have "stream_holds env root_dir w' k' (surviving (snd w') (logs k'))"
      by (rule stream_frame [OF held]) (use assms(7,8) k'(1) in \<open>simp_all add: head_of_def\<close>)
    moreover have "surviving (snd w') (logs k') = logs k'"
    proof -
      have "is_regular (snd w') (sd_path (fst x))" if "x \<in> set (logs k')" for x
      proof -
        have s: "stored_segment env root_dir (snd w) (fst k') (snd k') (fst x) (snd x)"
          using held that by (simp add: stream_holds_def stored_pairs)
        show ?thesis using stored_facts(1,4) [OF s] assms(6) apart [OF k'] by (simp add: is_regular_def)
      qed
      then show ?thesis by (simp add: surviving_def filter_id_conv)
    qed
    ultimately show ?thesis by simp
  qed
  moreover have "\<exists>k'. \<exists>x \<in> set ((logs(k := lg')) k'). p = sd_path (fst x)"
    if p: "below (slots_root root_dir) (fst p)" "is_segment_name p" "is_regular (snd w') p" for p
  proof (cases "fst p = ?dir k")
    case True
    then obtain x where "x \<in> set lg'" "p = sd_path (fst x)"
      using assms(4) p(2,3) unfolding stream_holds_def stored_pairs by blast
    then show ?thesis by (intro exI [of _ k]) auto
  next
    case False
    then have "is_regular (snd w) p" using assms(6) p(3) by (simp add: is_regular_def)
    then obtain k' x where x: "x \<in> set (logs k')" "p = sd_path (fst x)"
      using journal_holdsD(4) [OF assms(1)] p(1,2) by blast
    have "k' \<noteq> k"
    proof
      assume "k' = k"
      then have "stored_segment env root_dir (snd w) (fst k) (snd k) (fst x) (snd x)"
        using journal_holdsD(2) [OF assms(1,2)] x(1) by (simp add: stream_holds_def stored_pairs)
      with stored_facts(1) x(2) False show False by metis
    qed
    with x show ?thesis by (intro exI [of _ k']) auto
  qed
  moreover have "ledger_records env root_dir (snd w') gs"
    using journal_holdsD(5) [OF assms(1)] ledger_same(1) assms(6) [OF ledger_elsewhere]
    unfolding ledger_records_def by metis
  moreover have "logs k' = []" if "\<not> is_text (fst k')" for k'
    using journal_holdsD(3) [OF assms(1) that] .
  ultimately show ?thesis
    unfolding journal_holds_def using assms(2,4,5) by (metis fun_upd_apply)
qed

section \<open>The stages of an append\<close>

lemma open_member:
  assumes "stream_holds env root_dir w k lg" "bt_get (ws_open (fst w)) k = Some s"
  shows "\<exists>x. x \<in> set lg \<and> continues (snd w) s x \<and> stored_segment env root_dir (snd w) (fst k) (snd k) (fst x) (snd x)"
  by (rule open_last [OF assms]) (metis in_set_conv_decomp)

text \<open>What the writer relies on of the third-party parts.\<close>

definition writer_env_ok :: "'j writer_env \<Rightarrow> bool" where
  "writer_env_ok we \<longleftrightarrow>
     codec_ok (je_segment (we_journal we)) \<and> gap_codec_ok (we_journal we) \<and> short_gap_lines (we_journal we) \<and>
     inj (je_uuid_text (we_journal we)) \<and> (\<forall>i. rf_uuid_text (we_formats we) i \<noteq> [])"

definition skipped_gaps :: "int \<Rightarrow> nat \<Rightarrow> 'j timeline_event \<Rightarrow> stored_gap list" where
  "skipped_gaps wall previous e =
     (if ev_seq e = Suc previous then []
      else [\<lparr>sg_port = ev_port e, sg_epoch = ev_epoch e, sg_first_seq = Suc previous, sg_last_seq = ev_seq e - 1,
             sg_reason = LoggingFault, sg_recorded_wall_time_ns = now_wall_time_ns wall\<rparr>])"

lemma admit_ok:
  assumes "admit we i g e w = (Inr u, w')" "journal_holds (we_journal we) (jc_root g) w logs gs" "writer_env_ok we"
    "ledger_room (jc_root g) (Suc n) (snd w)" "ev_seq e \<le> U64_MAX"
  shows "validate_port (ev_port e) = Inr ()" "head_of (fst w) (event_key e) < ev_seq e"
    "ws_open (fst w') = ws_open (fst w)" "ws_heads (fst w') = ws_heads (fst w)"
    "segment_count (snd w') = segment_count (snd w)" "ledger_room (jc_root g) n (snd w')"
    "journal_holds (we_journal we) (jc_root g) w' logs
       (gs @ skipped_gaps (wi_gap_wall i) (head_of (fst w) (event_key e)) e)"
proof -
  let ?head = "head_of (fst w) (event_key e)"
  note codecs = assms(3) [unfolded writer_env_ok_def]
  show port: "validate_port (ev_port e) = Inr ()" and above: "?head < ev_seq e"
    using assms(1) by (auto simp: admit_def res_simps split: if_splits)
  define gap where "gap = \<lparr>sg_port = ev_port e, sg_epoch = ev_epoch e, sg_first_seq = Suc ?head,
    sg_last_seq = ev_seq e - 1, sg_reason = LoggingFault, sg_recorded_wall_time_ns = now_wall_time_ns (wi_gap_wall i)\<rparr>"
  have next_seq: "saturating_add_u64 ?head 1 = Suc ?head"
    using above assms(5) by (simp add: saturating_add_u64_def)
  have "ws_open (fst w') = ws_open (fst w) \<and> ws_heads (fst w') = ws_heads (fst w) \<and>
    segment_count (snd w') = segment_count (snd w) \<and> ledger_room (jc_root g) n (snd w') \<and>
    journal_holds (we_journal we) (jc_root g) w' logs (gs @ skipped_gaps (wi_gap_wall i) ?head e)"
  proof (cases "ev_seq e = Suc ?head")
    case True
    then have "w' = w"
      using assms(1) port above next_seq by (auto simp: admit_def res_simps)
    with True assms(2) ledger_room_mono [OF assms(4), of n] show ?thesis by (simp add: skipped_gaps_def)
  next
    case False
    then have rec: "record_gap (we_journal we) (wi_os i) (jc_root g) gap w = (Inr (), w')"
      using assms(1) port above next_seq by (auto simp: admit_def res_simps gap_def)
    then obtain u2 where "append_gap_ledger (we_journal we) (wi_os i) (jc_root g) gap (snd w) = (Inr u2, snd w')"
      by (auto simp: record_gap_def st_bind_def on_files_def on_state_def split: prod.splits sum.splits)
    moreover have "valid_gap gap" using port above False by (simp add: valid_gap_def gap_def)
    ultimately have ledger: "ledger_holds (we_journal we) (jc_root g) (snd w') (gs @ [gap])"
        "ledger_room (jc_root g) n (snd w')" "segment_count (snd w') = segment_count (snd w)"
      using append_ledger_holds [OF _ _ _ _ journal_holdsD(6) [OF assms(2)] assms(4)] codecs by blast+
    note same = record_gap_same [OF rec]
    have "skipped_gaps (wi_gap_wall i) ?head e = [gap]" using False by (simp add: skipped_gaps_def gap_def)
    moreover have "ledger_records (we_journal we) (jc_root g) (snd w') (gs @ [gap])"
      using ledger(1) journal_holdsD(5) [OF assms(2)] assms(5) by (auto simp: ledger_records_def gap_def)
    ultimately show ?thesis using journal_same [OF assms(2) same] ledger same by simp
  qed
  then show "ws_open (fst w') = ws_open (fst w)" "ws_heads (fst w') = ws_heads (fst w)"
    "segment_count (snd w') = segment_count (snd w)" "ledger_room (jc_root g) n (snd w')"
    "journal_holds (we_journal we) (jc_root g) w' logs (gs @ skipped_gaps (wi_gap_wall i) ?head e)"
    by blast+
qed

text \<open>Logs with the same events.\<close>

definition same_events :: "(stream_key \<Rightarrow> 'j stream_log) \<Rightarrow> (stream_key \<Rightarrow> 'j stream_log) \<Rightarrow> bool" where
  "same_events logs logs' \<longleftrightarrow> (\<forall>k. log_events (logs' k) = log_events (logs k))"

lemma rotate_ok:
  assumes "rotate we d k w = (Inr u, w')" "journal_holds (we_journal we) (jc_root g) w logs gs" "writer_env_ok we"
    "is_text (fst k)"
  shows "\<exists>logs'. journal_holds (we_journal we) (jc_root g) w' logs' gs \<and> same_events logs logs'"
    "bt_get (ws_open (fst w')) k = None" "ws_heads (fst w') = ws_heads (fst w)"
    "segment_count (snd w') \<le> Suc (segment_count (snd w))"
    "bt_get (snd w') (ledger_path (jc_root g)) = bt_get (snd w) (ledger_path (jc_root g))"
proof -
  have "(\<exists>logs'. journal_holds (we_journal we) (jc_root g) w' logs' gs \<and> same_events logs logs') \<and>
    bt_get (ws_open (fst w')) k = None \<and> ws_heads (fst w') = ws_heads (fst w) \<and>
    segment_count (snd w') \<le> Suc (segment_count (snd w)) \<and>
    bt_get (snd w') (ledger_path (jc_root g)) = bt_get (snd w) (ledger_path (jc_root g))"
  proof (cases "bt_get (ws_open (fst w)) k")
    case None
    with assms(1,2) show ?thesis by (auto simp: rotate_def same_events_def)
  next
    case (Some s)
    let ?st = "(fst w)\<lparr>ws_open := bt_remove k (ws_open (fst w))\<rparr>"
    obtain r fs where sealed: "segment_seal (we_journal we) d s (snd w) = (Inr r, fs)" "w' = (?st, fs)"
      using assms(1) Some by (auto simp: rotate_def st_bind_def on_state_def on_files_def split: prod.splits sum.splits)
    have held: "stream_holds (we_journal we) (jc_root g) (fst w, snd w) k (logs k)"
      using journal_holdsD(2) [OF assms(2,4)] by simp
    obtain lg' where lg': "stream_holds (we_journal we) (jc_root g) w' k lg'" "log_events lg' = log_events (logs k)"
      using seal_extends [OF held Some sealed(1)] sealed(2) by auto
    obtain node where node: "fs = bt_insert (sealed_path (we_journal we) (og_path s) (og_header s) (og_last_seq s)) node
        (bt_remove (og_path s) (snd w))"
      using segment_seal_ok(2) [OF sealed(1)] by blast
    obtain x where x: "x \<in> set (logs k)" "continues (snd w) s x"
      "stored_segment (we_journal we) (jc_root g) (snd w) (fst k) (snd k) (fst x) (snd x)"
      using open_member [OF held] Some by auto
    have dir: "fst (og_path s) = epoch_dir (we_journal we) (jc_root g) (fst k) (snd k)"
      using stored_facts(1) [OF x(3)] x(2) by (simp add: continues_def)
    have elsewhere: "bt_get fs q = bt_get (snd w) q"
      if "fst q \<noteq> epoch_dir (we_journal we) (jc_root g) (fst k) (snd k)" for q
      using that dir node by (auto simp: bt_get_insert bt_get_remove sealed_path_def)
    have "journal_holds (we_journal we) (jc_root g) w' (logs(k := lg')) gs"
      by (rule journal_stream [OF assms(2,4) _ lg'(1)])
        (use assms(3) journal_holdsD(1) [OF assms(2)] node elsewhere sealed(2) in
          \<open>auto simp: writer_env_ok_def bt_wf_insert bt_wf_remove bt_get_remove simp del: split_paired_All\<close>)
    moreover have "segment_count fs \<le> Suc (segment_count (snd w))"
      using segment_count_insert(2) segment_count_remove node by (metis Suc_le_mono le_trans)
    ultimately show ?thesis
      using lg'(2) sealed(2) elsewhere [OF ledger_elsewhere]
      by (auto simp: same_events_def bt_get_remove intro!: exI [of _ "logs(k := lg')"])
  qed
  then show "\<exists>logs'. journal_holds (we_journal we) (jc_root g) w' logs' gs \<and> same_events logs logs'"
    "bt_get (ws_open (fst w')) k = None" "ws_heads (fst w') = ws_heads (fst w)"
    "segment_count (snd w') \<le> Suc (segment_count (snd w))"
    "bt_get (snd w') (ledger_path (jc_root g)) = bt_get (snd w) (ledger_path (jc_root g))" by blast+
qed

lemma ensure_capacity_ok:
  assumes "ensure_capacity we d g wall now additional w = (Inr u, w')"
    "journal_holds (we_journal we) (jc_root g) w logs gs" "writer_env_ok we"
    "ledger_room (jc_root g) (segment_count (snd w) + n) (snd w)"
  shows "\<exists>logs' new. journal_holds (we_journal we) (jc_root g) w' logs' (gs @ new) \<and>
    ledger_room (jc_root g) n (snd w') \<and> (\<forall>g \<in> set new. sg_reason g = Retention) \<and>
    (\<forall>k. log_events (logs' k) = filter (\<lambda>e. \<not> evicted new k (ev_seq e)) (log_events (logs k)))"
    "ws_open (fst w') = ws_open (fst w)" "ws_heads (fst w') = ws_heads (fst w)"
proof -
  have frame: "same_writer w w'" using ensure_capacity_writer [of w we d g wall now additional] assms(1) by simp
  show same: "ws_open (fst w') = ws_open (fst w)" "ws_heads (fst w') = ws_heads (fst w)"
    using frame by (simp_all add: same_writer_def)
  have found: "\<exists>port epoch s es. stored_segment (we_journal we) (jc_root g) (snd w) port epoch s es \<and> sd_path s = p"
    if p: "below (slots_root (jc_root g)) (fst p)" "is_segment_name p" "is_regular (snd w) p" for p
  proof -
    obtain k x where x: "x \<in> set (logs k)" "p = sd_path (fst x)"
      using journal_holdsD(4) [OF assms(2) p] by blast
    then have "is_text (fst k)" using journal_holdsD(3) [OF assms(2), of k] by fastforce
    from journal_holdsD(2) [OF assms(2) this] x show ?thesis
      unfolding stream_holds_def stored_pairs by blast
  qed
  obtain new segs where new: "ledger_holds (we_journal we) (jc_root g) (snd w') (gs @ new)"
    "ledger_room (jc_root g) n (snd w')" "removes_recorded (ledger_path (jc_root g)) segs (snd w) (snd w') new"
    "\<forall>seg \<in> set segs. agrees (we_journal we) (jc_root g) (snd w) seg \<and> is_sealed_name (sd_path seg)"
    "\<forall>seg \<in> set segs. below (slots_root (jc_root g)) (fst (sd_path seg)) \<and> is_regular (snd w) (sd_path seg) \<and>
       is_segment_name (sd_path seg)"
    using ensure_capacity_records [OF assms(1) _ _ _ found journal_holdsD(6) [OF assms(2)] assms(4)] assms(3)
    by (auto simp: writer_env_ok_def is_segment_name_def)
  have "log_events (surviving (snd w') (logs k)) =
      filter (\<lambda>e. \<not> evicted new k (ev_seq e)) (log_events (logs k))" for k
  proof (cases "is_text (fst k)")
    case True
    show ?thesis
      by (rule surviving_exact [OF journal_holdsD(2) [OF assms(2) True] new(3,4)]) (use found new(5) in blast)
  next
    case False
    then show ?thesis using journal_holdsD(3) [OF assms(2)] by (simp add: surviving_def)
  qed
  moreover have bounded: "\<forall>g \<in> set new. sg_last_seq g \<le> U64_MAX"
  proof
    fix gap assume "gap \<in> set new"
    then obtain seg where seg: "seg \<in> set segs" "gap_of seg gap" using new(3) unfolding removes_recorded_def by blast
    then obtain port epoch s es where s: "stored_segment (we_journal we) (jc_root g) (snd w) port epoch s es"
      "sd_path s = sd_path seg" using found new(5) by blast
    have "sd_sealed s" using stored_facts(3) [OF s(1)] s(2) new(4) seg(1) by simp
    then have "sd_last_seq seg = sd_last_seq s" using new(4) seg(1) s unfolding agrees_def by blast
    with s(1) \<open>sd_sealed s\<close> seg(2) show "sg_last_seq gap \<le> U64_MAX"
      by (auto simp: stored_segment_def named_in_def Let_def gap_of_def)
  qed
  moreover have "\<forall>g \<in> set new. sg_reason g = Retention"
    using new(3) unfolding removes_recorded_def gap_of_def by blast
  moreover have "journal_holds (we_journal we) (jc_root g) w' (\<lambda>k. surviving (snd w') (logs k)) (gs @ new)"
    by (rule journal_shrinks [OF assms(2) _ same])
      (use frame new(1) bounded journal_holdsD(5) [OF assms(2)] in \<open>auto simp: same_writer_def ledger_records_def\<close>)
  ultimately show "\<exists>logs' new. journal_holds (we_journal we) (jc_root g) w' logs' (gs @ new) \<and>
    ledger_room (jc_root g) n (snd w') \<and> (\<forall>g \<in> set new. sg_reason g = Retention) \<and>
    (\<forall>k. log_events (logs' k) = filter (\<lambda>e. \<not> evicted new k (ev_seq e)) (log_events (logs k)))"
    using new(2) by blast
qed

section \<open>Room in a segment\<close>

lemma record_length: "encode_record env e = Inr rec \<Longrightarrow> length rec \<le> 20 + MAX_HEADER_BYTES + MAX_PAYLOAD_BYTES"
  by (auto simp: res_simps)

lemma header_length: "encode_segment_header env h = Inr bs \<Longrightarrow> length bs \<le> 20 + MAX_SEGMENT_HEADER_BYTES"
  by (auto simp: res_simps)

lemma small_segment:
  assumes "encode_record env e = Inr rec" "length bs \<le> 20 + MAX_SEGMENT_HEADER_BYTES"
  shows "length bs + length rec \<le> U64_MAX"
  using record_length [OF assms(1)] assms(2) record_limits by (simp add: U64_MAX_def)

definition takes :: "open_segment \<Rightarrow> bytes \<Rightarrow> nat \<Rightarrow> bool" where
  "takes s rec n \<longleftrightarrow> og_bytes_written s + length rec \<le> U64_MAX \<and> sh_first_seq (og_header s) \<le> n"

lemma unrotated_takes:
  assumes "stream_holds env root_dir w k lg" "bt_get (ws_open (fst w)) k = Some s"
    "\<not> should_rotate g now (length rec) s" "encode_record env e = Inr rec" "jc_max_segment_bytes g < U64_MAX"
    "head_of (fst w) k < n" "og_last_seq s = 0 \<Longrightarrow> sh_first_seq (og_header s) \<le> n"
  shows "takes s rec n"
proof -
  obtain x where x: "x \<in> set lg" "continues (snd w) s x"
    "stored_segment env root_dir (snd w) (fst k) (snd k) (fst x) (snd x)"
    using open_member [OF assms(1,2)] by blast
  obtain bs where bs: "bt_get (snd w) (sd_path (fst x)) = Some (Regular bs)" "length bs = og_bytes_written s"
    using x(2) by (auto simp: continues_def)
  show ?thesis
  proof (cases "og_last_seq s = 0")
    case True
    have "\<forall>e \<in> set (snd x). 0 < ev_seq e"
      using assms(1) x(1) by (auto simp: stream_holds_def in_order_def log_events_def)
    then have "snd x \<noteq> [] \<Longrightarrow> 0 < ev_seq (last (snd x))" by (metis last_in_set)
    then have "snd x = []"
      using x(2) True by (auto simp: continues_def last_seq_of_def split: if_splits)
    then obtain head where "bs = head" "encode_segment_header env (sd_header (fst x)) = Inr head"
      using x(3) bs(1)
      by (auto simp: stored_segment_def segment_holds_def segment_file_def segment_bytes_def records_of_def)
    with small_segment [OF assms(4) header_length [OF this(2)]] bs(2) assms(7) [OF True] show ?thesis
      by (simp add: takes_def)
  next
    case False
    then have "snd x \<noteq> []" using x(2) by (auto simp: continues_def last_seq_of_def)
    then obtain e' where e': "e' \<in> set (snd x)" by fastforce
    then have "ev_seq e' \<le> head_of (fst w) k"
      using assms(1) x(1) by (auto simp: stream_holds_def in_order_def log_events_def)
    moreover have "sh_first_seq (og_header s) \<le> ev_seq e'"
      using stored_facts(5) [OF x(3) e'] x(2) by (simp add: continues_def)
    moreover have "saturating_add_u64 (og_bytes_written s) (length rec) < U64_MAX"
      using assms(3,5) False by (simp add: should_rotate_def)
    ultimately show ?thesis
      using assms(6) by (auto simp: takes_def saturating_add_u64_def)
  qed
qed

lemma prepare_ok:
  assumes "prepare_segment we i g e rec w = (Inr u, w')" "journal_holds (we_journal we) (jc_root g) w logs gs"
    "writer_env_ok we" "is_text (ev_port e)" "validate_port (ev_port e) = Inr ()"
    "encode_record (we_journal we) e = Inr rec" "head_of (fst w) (event_key e) < ev_seq e" "ev_seq e \<le> U64_MAX"
    "jc_max_segment_bytes g < U64_MAX" "ledger_room (jc_root g) (Suc (segment_count (snd w)) + n) (snd w)"
    "\<And>s. bt_get (ws_open (fst w)) (event_key e) = Some s \<Longrightarrow> og_last_seq s = 0 \<Longrightarrow>
       sh_first_seq (og_header s) \<le> ev_seq e"
  shows "\<exists>logs' new. journal_holds (we_journal we) (jc_root g) w' logs' (gs @ new) \<and>
    (\<forall>g \<in> set new. sg_reason g = Retention) \<and>
    (\<forall>k. log_events (logs' k) = filter (\<lambda>e. \<not> evicted new k (ev_seq e)) (log_events (logs k))) \<and>
    ws_heads (fst w') = ws_heads (fst w) \<and>
    (\<exists>s. bt_get (ws_open (fst w')) (event_key e) = Some s \<and> takes s rec (ev_seq e))"
proof -
  let ?env = "we_journal we" and ?root = "jc_root g" and ?k = "event_key e"
  have key: "is_text (fst ?k)" using assms(4) by (simp add: event_key_def)
  let ?rotates = "case bt_get (ws_open (fst w)) ?k of None \<Rightarrow> False
    | Some s \<Rightarrow> should_rotate g (wi_rotate_now i) (length rec) s"
  obtain w1 where w1: "(if ?rotates then rotate we (wi_os i) ?k w else (Inr (), w)) = (Inr (), w1)"
    using assms(1) by (auto simp: prepare_segment_def res_simps Let_def)
  have "\<exists>logs1. journal_holds ?env ?root w1 logs1 gs \<and> same_events logs logs1 \<and> ws_heads (fst w1) = ws_heads (fst w) \<and>
      ledger_room ?root (segment_count (snd w1) + n) (snd w1) \<and>
      (\<forall>s. bt_get (ws_open (fst w1)) ?k = Some s \<longrightarrow> takes s rec (ev_seq e))"
  proof (cases ?rotates)
    case True
    then have r: "rotate we (wi_os i) ?k w = (Inr (), w1)" using w1 by simp
    note ok = rotate_ok [OF r assms(2,3) key]
    have "ledger_room ?root (segment_count (snd w1) + n) (snd w1)"
      using ledger_room_mono [OF assms(10), of "segment_count (snd w1) + n"] ok(4) ledger_same(2) [OF ok(5)] by simp
    with ok show ?thesis by auto
  next
    case False
    then have [simp]: "w1 = w" using w1 by simp
    have "takes s rec (ev_seq e)" if "bt_get (ws_open (fst w)) ?k = Some s" for s
      by (rule unrotated_takes [OF journal_holdsD(2) [OF assms(2) key] that _ assms(6,9,7) assms(11) [OF that]])
        (use False that in simp)
    with assms(2) ledger_room_mono [OF assms(10), of "segment_count (snd w) + n"] show ?thesis
      by (auto simp: same_events_def)
  qed
  then obtain logs1 where held1: "journal_holds ?env ?root w1 logs1 gs" "same_events logs logs1"
    "ws_heads (fst w1) = ws_heads (fst w)" "ledger_room ?root (segment_count (snd w1) + n) (snd w1)"
    "\<And>s. bt_get (ws_open (fst w1)) ?k = Some s \<Longrightarrow> takes s rec (ev_seq e)" by blast
  let ?h = "header_for_event (wi_segment_id i) (now_wall_time_ns (wi_created_wall i)) e"
  obtain n1 w2 where w2: "ensure_capacity we (wi_os i) g (wi_retention_wall i) (wi_capacity_now i) n1 w1 = (Inr (), w2)"
    and last_step: "(case (if bt_contains (ws_open (fst w1)) ?k then None else Some ?h) of
        None \<Rightarrow> st_return ()
      | Some h \<Rightarrow>
          st_bind (on_files (create_with_header ?env (wi_os i) ?root (wi_opened_now i) h))
            (\<lambda>s. on_state (\<lambda>st. st\<lparr>ws_total_bytes := saturating_add_u64 (ws_total_bytes st) (og_bytes_written s),
                                   ws_open := bt_insert ?k s (ws_open st)\<rparr>))) w2 = (Inr u, w')"
    using assms(1) w1 by (auto simp: prepare_segment_def res_simps Let_def)
  note kept = ensure_capacity_ok [OF w2 held1(1) assms(3) held1(4)]
  obtain logs2 new where held2: "journal_holds ?env ?root w2 logs2 (gs @ new)" "\<forall>g \<in> set new. sg_reason g = Retention"
    "\<And>k. log_events (logs2 k) = filter (\<lambda>e. \<not> evicted new k (ev_seq e)) (log_events (logs k))"
    using kept(1) held1(2) by (auto simp: same_events_def)
  show ?thesis
  proof (cases "bt_get (ws_open (fst w1)) ?k")
    case (Some s)
    then have "w' = w2" using last_step by (simp add: bt_contains_def)
    with held2 kept(2,3) held1(3,5) Some show ?thesis by auto
  next
    case None
    then obtain s fs where made: "create_with_header ?env (wi_os i) ?root (wi_opened_now i) ?h (snd w2) = (Inr s, fs)"
      "w' = ((fst w2)\<lparr>ws_total_bytes := saturating_add_u64 (ws_total_bytes (fst w2)) (og_bytes_written s),
                      ws_open := bt_insert ?k s (ws_open (fst w2))\<rparr>, fs)"
      using last_step
      by (auto simp: bt_contains_def st_bind_def on_files_def on_state_def split: prod.splits sum.splits)
    obtain bs where bs: "encode_segment_header ?env ?h = Inr bs"
      "fs = bt_insert (og_path s) (Regular bs) (bt_insert (og_path s) (Regular []) (snd w2))"
      "s = \<lparr>og_header = ?h, og_path = (epoch_dir ?env ?root (fst ?k) (snd ?k), open_name ?env ?h),
            og_position = length bs, og_bytes_written = length bs, og_last_seq = 0, og_opened_at = wi_opened_now i\<rparr>"
      using create_ok [OF made(1)] by (auto simp: header_for_event_def event_key_def)
    have "stream_holds ?env ?root (fst w2, snd w2) ?k (logs2 ?k)" using journal_holdsD(2) [OF held2(1) key] by simp
    from create_extends [OF this _ made(1)] None kept(2,3) held1(3) assms(5,7,8)
    obtain lg' where lg': "stream_holds ?env ?root w' ?k lg'" "log_events lg' = log_events (logs2 ?k)"
      unfolding made(2) by (auto simp: header_for_event_def event_key_def head_of_def)
    have "journal_holds ?env ?root w' (logs2(?k := lg')) (gs @ new)"
      by (rule journal_stream [OF held2(1) key _ lg'(1)])
        (use assms(3) journal_holdsD(1) [OF held2(1)] made(2) bs in
          \<open>auto simp: writer_env_ok_def bt_wf_insert bt_get_insert simp del: split_paired_All\<close>)
    moreover have "takes s rec (ev_seq e)"
      using small_segment [OF assms(6) header_length [OF bs(1)]] bs(3) by (simp add: takes_def header_for_event_def)
    moreover have "log_events ((logs2(?k := lg')) k) = filter (\<lambda>e. \<not> evicted new k (ev_seq e)) (log_events (logs k))" for k
      using lg'(2) held2(3) by simp
    moreover have "bt_get (ws_open (fst w')) ?k = Some s" "ws_heads (fst w') = ws_heads (fst w)"
      using made(2) kept(3) held1(3) by (simp_all add: bt_get_insert)
    ultimately show ?thesis using held2(2) by blast
  qed
qed

section \<open>An append extends the log\<close>

theorem append_keeps_journal:
  assumes "journal_append we i g e w = Some (Inr e', w')" "journal_holds (we_journal we) (jc_root g) w logs gs"
    "writer_env_ok we" "is_text (ev_port e)" "ev_seq e \<le> U64_MAX" "jc_max_segment_bytes g < U64_MAX"
    "ledger_room (jc_root g) (segment_count (snd w) + 2) (snd w)"
    "\<And>s. bt_get (ws_open (fst w)) (event_key e) = Some s \<Longrightarrow> og_last_seq s = 0 \<Longrightarrow>
       sh_first_seq (og_header s) \<le> ev_seq e"
  shows "e' = e\<lparr>ev_durable := True\<rparr>" "head_of (fst w') (event_key e) = ev_seq e"
    "\<exists>logs' new. journal_holds (we_journal we) (jc_root g) w' logs'
        (gs @ skipped_gaps (wi_gap_wall i) (head_of (fst w) (event_key e)) e @ new) \<and>
      (\<forall>g \<in> set new. sg_reason g = Retention) \<and>
      (\<forall>k. log_events (logs' k) = filter (\<lambda>e. \<not> evicted new k (ev_seq e)) (log_events (logs k)) @
         (if k = event_key e then [e'] else []))"
proof -
  let ?env = "we_journal we" and ?root = "jc_root g" and ?k = "event_key e" and ?e = "e\<lparr>ev_durable := True\<rparr>"
  have key: "event_key ?e = ?k" "is_text (fst ?k)" using assms(4) by (simp_all add: event_key_def)
  obtain w1 where w1: "admit we i g e w = (Inr (), w1)"
    using assms(1) by (auto simp: journal_append_def split: prod.splits sum.splits)
  have "ledger_room ?root (Suc (Suc (segment_count (snd w)) + 0)) (snd w)" using assms(7) by simp
  note ok1 = admit_ok [OF w1 assms(2,3) this assms(5)]
  obtain rec u w2 where rec: "encode_record ?env ?e = Inr rec" and w2: "prepare_segment we i g ?e rec w1 = (Inr u, w2)"
    and wrote: "write_record we i g ?e rec w2 = Some (Inr e', w')"
    using assms(1) w1 by (auto simp: journal_append_def Let_def split: prod.splits sum.splits)
  have heads1: "head_of (fst w1) ?k = head_of (fst w) ?k" using ok1(4) by (simp add: head_of_def)
  have "head_of (fst w1) (event_key ?e) < ev_seq ?e" using ok1(2) heads1 key by simp
  moreover have "ledger_room ?root (Suc (segment_count (snd w1)) + 0) (snd w1)" using ok1(5,6) by simp
  moreover have "sh_first_seq (og_header s) \<le> ev_seq ?e"
    if "bt_get (ws_open (fst w1)) (event_key ?e) = Some s" "og_last_seq s = 0" for s
    using assms(8) that ok1(3) key(1) by simp
  moreover have "is_text (ev_port ?e)" "validate_port (ev_port ?e) = Inr ()" "ev_seq ?e \<le> U64_MAX"
    using assms(4,5) ok1(1) by simp_all
  ultimately have "\<exists>logs2 new. journal_holds ?env ?root w2 logs2
      ((gs @ skipped_gaps (wi_gap_wall i) (head_of (fst w) ?k) e) @ new) \<and> (\<forall>g \<in> set new. sg_reason g = Retention) \<and>
      (\<forall>k. log_events (logs2 k) = filter (\<lambda>e. \<not> evicted new k (ev_seq e)) (log_events (logs k))) \<and>
      ws_heads (fst w2) = ws_heads (fst w1) \<and>
      (\<exists>s. bt_get (ws_open (fst w2)) (event_key ?e) = Some s \<and> takes s rec (ev_seq ?e))"
    using prepare_ok [OF w2 ok1(7) assms(3) _ _ rec _ _ assms(6)] by blast
  then obtain logs2 new s where held2: "journal_holds ?env ?root w2 logs2
      ((gs @ skipped_gaps (wi_gap_wall i) (head_of (fst w) ?k) e) @ new)" "\<forall>g \<in> set new. sg_reason g = Retention"
    "\<And>k. log_events (logs2 k) = filter (\<lambda>e. \<not> evicted new k (ev_seq e)) (log_events (logs k))"
    "ws_heads (fst w2) = ws_heads (fst w1)" "bt_get (ws_open (fst w2)) ?k = Some s" "takes s rec (ev_seq e)"
    unfolding key(1) by auto
  obtain s' fs where appended: "segment_append (wi_append_os i) s rec (ev_seq e) (snd w2) = (Appended s', fs)"
    using wrote held2(5) key(1)
    by (auto simp: write_record_def Let_def split: prod.splits append_outcome.splits)
  define w3 where "w3 = ((fst w2)\<lparr>ws_total_bytes := saturating_add_u64 (ws_total_bytes (fst w2)) (length rec),
    ws_open := bt_insert ?k s' (ws_open (fst w2)), ws_heads := bt_insert ?k (ev_seq e) (ws_heads (fst w2))\<rparr>, fs)"
  have indexed: "index_event we (wi_index_os i) g ?e w3 = Some (Inr e', w')"
    using wrote held2(5) appended key(1) by (simp add: write_record_def Let_def w3_def)
  note index = index_event_same [OF indexed]
  have names: "\<And>i. rf_uuid_text (we_formats we) i \<noteq> []" using assms(3) by (simp add: writer_env_ok_def)
  show e': "e' = ?e" using index(4) [OF names] by auto
  show "head_of (fst w') ?k = ev_seq e"
    using index(3) [OF names] by (simp add: head_of_def w3_def bt_get_insert)
  have held: "stream_holds ?env ?root (fst w2, snd w2) ?k (logs2 ?k)"
    using journal_holdsD(2) [OF held2(1) key(2)] by simp
  obtain x where x: "continues (snd w2) s x" "stored_segment ?env ?root (snd w2) (fst ?k) (snd ?k) (fst x) (snd x)"
    using open_member [OF held] held2(5) by auto
  have "head_of (fst w2) ?k < ev_seq e" using ok1(2) heads1 held2(4) by (simp add: head_of_def)
  then have above: "head_of (fst w2) ?k < ev_seq ?e" "ev_seq ?e \<le> U64_MAX" using assms(5) by simp_all
  have takes: "sh_first_seq (og_header s) \<le> ev_seq ?e" "og_bytes_written s + length rec \<le> U64_MAX"
    using held2(6) by (simp_all add: takes_def)
  have appended': "segment_append (wi_append_os i) s rec (ev_seq ?e) (snd w2) = (Appended s', fs)"
    using appended by simp
  have "ev_durable ?e" by simp
  from write_extends [OF held held2(5) appended' rec this key(1) [symmetric] above takes]
  have "\<exists>lg'. stream_holds ?env ?root w3 ?k lg' \<and> log_events lg' = log_events (logs2 ?k) @ [?e]"
    unfolding w3_def by simp
  then obtain lg' where lg': "stream_holds ?env ?root w3 ?k lg'" "log_events lg' = log_events (logs2 ?k) @ [?e]"
    by blast
  obtain bs where bs: "bt_get (snd w2) (og_path s) = Some (Regular bs)" "og_position s = length bs"
    using x(1) by (auto simp: continues_def)
  have fs: "fs = bt_insert (og_path s) (Regular (bs @ rec)) (snd w2)"
    "fst (og_path s) = epoch_dir ?env ?root (fst ?k) (snd ?k)"
    using segment_append_ok(1) [OF appended bs] stored_facts(1) [OF x(2)] x(1) by (simp_all add: continues_def)
  have held3: "journal_holds ?env ?root w3 (logs2(?k := lg'))
      ((gs @ skipped_gaps (wi_gap_wall i) (head_of (fst w) ?k) e) @ new)"
    by (rule journal_stream [OF held2(1) key(2) _ lg'(1)])
      (use assms(3) journal_holdsD(1) [OF held2(1)] fs in
        \<open>auto simp: w3_def writer_env_ok_def bt_wf_insert bt_get_insert simp del: split_paired_All\<close>)
  have lasting: "lasting_same (snd w3) (snd w')" using index(1) [OF names] .
  then have "ledger_records ?env ?root (snd w') ((gs @ skipped_gaps (wi_gap_wall i) (head_of (fst w) ?k) e) @ new)"
    using journal_holdsD(5) [OF held3] ledger_same(1) [of "snd w'" ?root "snd w3" ?env]
    by (simp add: lasting_same_def ledger_records_def del: split_paired_All)
  then have "journal_holds ?env ?root w' (logs2(?k := lg'))
      ((gs @ skipped_gaps (wi_gap_wall i) (head_of (fst w) ?k) e) @ new)"
    using journal_same [OF held3 lasting_same_segments [OF lasting]] index(2,3) [OF names] by blast
  moreover have "log_events ((logs2(?k := lg')) k) =
      filter (\<lambda>e. \<not> evicted new k (ev_seq e)) (log_events (logs k)) @ (if k = ?k then [e'] else [])" for k
    using lg'(2) held2(3) e' by simp
  ultimately show "\<exists>logs' new. journal_holds ?env ?root w' logs'
        (gs @ skipped_gaps (wi_gap_wall i) (head_of (fst w) ?k) e @ new) \<and>
      (\<forall>g \<in> set new. sg_reason g = Retention) \<and>
      (\<forall>k. log_events (logs' k) = filter (\<lambda>e. \<not> evicted new k (ev_seq e)) (log_events (logs k)) @
         (if k = ?k then [e'] else []))"
    using held2(2) by (intro exI [of _ "logs2(?k := lg')"] exI [of _ new]) simp
qed

end
