(* ===== verification/JournalEndToEnd.thy ===== *)
theory JournalEndToEnd
  imports JournalAppend
begin

text \<open>
  The journal from both ends: what a query returns of the logs that the writer keeps, and the
  limit on the space they take.
\<close>

section \<open>Queries over the logs\<close>

lemma in_stream_identity: "in_stream h previous es \<Longrightarrow> e \<in> set es \<Longrightarrow> ev_port e = sh_port h \<and> ev_epoch e = sh_epoch h"
  by (induction es arbitrary: previous) auto

lemma stream_retained:
  assumes "stream_holds env root_dir w k lg" "qc_port c = fst k" "qc_epoch c = snd k"
  shows "retained c (concat (map snd lg))"
proof -
  note store = assms(1) [unfolded stream_holds_def stored_pairs]
  have "ev_port e = fst k \<and> ev_epoch e = snd k" if "x \<in> set lg" "e \<in> set (snd x)" for x e
  proof -
    have s: "stored_segment env root_dir (snd w) (fst k) (snd k) (fst x) (snd x)" using store that(1) by blast
    then have "in_stream (sd_header (fst x)) 0 (snd x)" "named_in env root_dir (fst k) (snd k) (fst x)"
      by (simp_all add: stored_segment_def segment_holds_def)
    with in_stream_identity [OF _ that(2)] show ?thesis by (simp add: named_in_def Let_def)
  qed
  moreover have "ev_seq e \<le> U64_MAX" "0 < ev_seq e" if "e \<in> set (log_events lg)" for e
    using store that le_trans unfolding in_order_def by blast+
  ultimately show ?thesis
    using store assms(2,3) by (auto simp: retained_def in_order_def log_events_def)
qed

lemma journal_query:
  assumes "codec_ok (je_header env)" "codec_ok (je_segment env)" "gap_codec_ok env"
    "decode_json (je_gap env) [] = Inl e0" "\<forall>c. os_fault d c = None"
    "journal_holds env root_dir w logs gs" "is_text port"
    "eq_epoch q = Some epoch" "eq_contains q = None" "eq_regex q = None"
    "c = \<lparr>qc_query = q, qc_port = port, qc_epoch = epoch, qc_expression = None\<rparr>"
    "sequence_floor c \<le> U64_MAX" "sequence_ceiling c \<le> U64_MAX"
    "query_files env regex d root_dir (snd w) port q b = Inr resp"
  shows "er_events resp = filter (\<lambda>e. in_scope c e \<and> ev_seq e \<le> page_end resp) (log_events (logs (port, epoch)))"
    "\<not> er_truncated resp \<Longrightarrow> er_events resp = filter (in_scope c) (log_events (logs (port, epoch)))"
    "\<And>n. sequence_floor c < n \<Longrightarrow> n \<le> page_end resp \<Longrightarrow>
       missing_at epoch n (er_gaps resp) \<or> n \<in> ev_seq ` set (log_events (logs (port, epoch)))"
    "\<And>e r n. gap_at e r n (er_gaps resp) \<Longrightarrow> in_query_window c n \<Longrightarrow>
       n \<in> ev_seq ` set (log_events (logs (port, epoch))) \<Longrightarrow> \<exists>g \<in> set gs. e = epoch \<and> stored_at port e r n g"
proof -
  let ?lg = "logs (port, epoch)"
  have held: "stream_holds env root_dir w (port, epoch) ?lg"
    using journal_holdsD(2) [OF assms(6), of "(port, epoch)"] assms(7) by simp
  have store: "stream_store env root_dir (snd w) port epoch (map fst ?lg) (map snd ?lg)"
    using held by (simp add: stream_holds_def)
  have "retained c (concat (map snd ?lg))"
    by (rule stream_retained [OF held]) (simp_all add: assms(11))
  moreover have "bt_wf (snd w)" "ledger_holds env root_dir (snd w) gs" "\<And>g. g \<in> set gs \<Longrightarrow> sg_last_seq g \<le> U64_MAX"
    using journal_holdsD(1,5,6) [OF assms(6)] by (auto simp: ledger_records_def)
  ultimately show "er_events resp = filter (\<lambda>e. in_scope c e \<and> ev_seq e \<le> page_end resp) (log_events ?lg)"
    "\<not> er_truncated resp \<Longrightarrow> er_events resp = filter (in_scope c) (log_events ?lg)"
    "\<And>n. sequence_floor c < n \<Longrightarrow> n \<le> page_end resp \<Longrightarrow>
       missing_at epoch n (er_gaps resp) \<or> n \<in> ev_seq ` set (log_events ?lg)"
    "\<And>e r n. gap_at e r n (er_gaps resp) \<Longrightarrow> in_query_window c n \<Longrightarrow>
       n \<in> ev_seq ` set (log_events ?lg) \<Longrightarrow> \<exists>g \<in> set gs. e = epoch \<and> stored_at port e r n g"
    unfolding log_events_def
    using query_files_complete [OF assms(1-4) _ assms(5) store _ _ assms(8-13) _ assms(14)] by blast+
qed

section \<open>The space the journal takes\<close>

lemma enforce_retention_fits:
  assumes "enforce_retention we d g wall additional w = (Inr u, w')"
  shows "fits_within g (ws_total_bytes (fst w')) additional"
    "directory_size d (jc_root g) (snd w') = Inr (ws_total_bytes (fst w'))"
  using assms by (auto simp: enforce_retention_def res_simps Let_def split: if_splits)

lemma ensure_capacity_fits:
  assumes "ensure_capacity we d g wall now additional w = (Inr u, w')"
  shows "saturating_add_u64 (ws_total_bytes (fst w')) additional \<le> jc_max_total_bytes g"
  using assms enforce_retention_fits(1)
  by (fastforce simp: ensure_capacity_def Let_def clear_backoff_def fits_within_def
      split: if_splits option.splits prod.splits sum.splits)

text \<open>
  The three outcomes: there is room and no file is touched; retention failed a short time ago and
  nothing is done; or retention is tried, and either makes the room or sets the next attempt.
\<close>

lemma ensure_capacity_room:
  assumes "fits_within g (ws_total_bytes (fst w)) additional"
  shows "ensure_capacity we d g wall now additional w = (Inr (), (clear_backoff (fst w), snd w))"
  using assms by (simp add: ensure_capacity_def fits_within_def Let_def)

lemma ensure_capacity_backoff:
  assumes "\<not> fits_within g (ws_total_bytes (fst w)) additional" "ws_retry_at (fst w) = Some t" "now < t"
  shows "\<exists>e. ensure_capacity we d g wall now additional w = (Inl e, w)"
  using assms by (simp add: ensure_capacity_def fits_within_def Let_def)

lemma retention_delay: "now < now + min (2 ^ n) 60 * 1000000000" "min (2 ^ n) 60 * 1000000000 \<le> 60 * (1000000000 :: nat)"
  for now :: nat
  by (simp_all add: min_def)

lemma ensure_capacity_tried:
  assumes full: "\<not> fits_within g (ws_total_bytes (fst w)) additional"
    and due: "\<not> (\<exists>t. ws_retry_at (fst w) = Some t \<and> now < t)"
    and r: "ensure_capacity we d g wall now additional w = (r, w')"
  shows "case r of
      Inr _ \<Rightarrow> fits_within g (ws_total_bytes (fst w')) additional \<and>
        directory_size d (jc_root g) (snd w') = Inr (ws_total_bytes (fst w')) \<and> ws_retry_at (fst w') = None
    | Inl e \<Rightarrow> \<exists>t. ws_retry_at (fst w') = Some t \<and> now < t \<and> t \<le> now + 60 * 1000000000"
proof -
  have waiting: "(case ws_retry_at (fst w) of Some retry_at \<Rightarrow> if retry_at > now then Some retry_at else None
      | None \<Rightarrow> None) = None"
    using due by (auto split: option.splits)
  have over: "\<not> saturating_add_u64 (ws_total_bytes (fst w)) additional \<le> jc_max_total_bytes g"
    using full by (simp add: fits_within_def)
  obtain r1 w1 where e: "enforce_retention we d g wall additional w = (r1, w1)" by (rule prod.exhaust)
  have w': "(r, w') = (case r1 of
      Inr _ \<Rightarrow> (Inr (), (clear_backoff (fst w1), snd w1))
    | Inl x \<Rightarrow> (Inl x, (note_retention_failure now (fst w1), snd w1)))"
    using r unfolding ensure_capacity_def Let_def if_not_P [OF over] waiting option.case e
    by (auto split: sum.splits)
  show ?thesis
  proof (cases r1)
    case (Inr u)
    with w' enforce_retention_fits [of we d g wall additional w u w1] e
    show ?thesis by (simp add: clear_backoff_def)
  next
    case (Inl x)
    with w' retention_delay show ?thesis by (simp add: note_retention_failure_def Let_def)
  qed
qed

text \<open>
  Room that was made for a record is enough for what \<open>append\<close> then writes: the header of a new
  segment, and the record.
\<close>

lemma saturating_add_twice:
  "saturating_add_u64 (saturating_add_u64 n h) r = saturating_add_u64 n (saturating_add_u64 r h)"
  by (simp add: saturating_add_u64_def min_def)

lemma segment_header_len:
  "encode_segment_header env h = Inr bs \<Longrightarrow> segment_header_encoded_len env h = Inr (length bs)"
  by (auto simp: encode_segment_header_def segment_header_encoded_len_def res_simps Let_def
      SEGMENT_PREFIX_LEN_def split: if_splits)

lemma prepare_segment_room:
  assumes "prepare_segment we i g e rec w = (Inr u, w')"
  shows "saturating_add_u64 (ws_total_bytes (fst w')) (length rec) \<le> jc_max_total_bytes g"
proof -
  let ?env = "we_journal we" and ?root = "jc_root g" and ?k = "event_key e"
  let ?h = "header_for_event (wi_segment_id i) (now_wall_time_ns (wi_created_wall i)) e"
  obtain w1 w2 header_bytes where
    len: "(case (if bt_contains (ws_open (fst w1)) ?k then None else Some ?h) of None \<Rightarrow> Inr 0
       | Some h \<Rightarrow> segment_header_encoded_len ?env h) = Inr header_bytes"
    and w2: "ensure_capacity we (wi_os i) g (wi_retention_wall i) (wi_capacity_now i)
       (saturating_add_u64 (length rec) header_bytes) w1 = (Inr (), w2)"
    and last_step: "(case (if bt_contains (ws_open (fst w1)) ?k then None else Some ?h) of
        None \<Rightarrow> st_return ()
      | Some h \<Rightarrow>
          st_bind (on_files (create_with_header ?env (wi_os i) ?root (wi_opened_now i) h))
            (\<lambda>s. on_state (\<lambda>st. st\<lparr>ws_total_bytes := saturating_add_u64 (ws_total_bytes st) (og_bytes_written s),
                                   ws_open := bt_insert ?k s (ws_open st)\<rparr>))) w2 = (Inr u, w')"
    using assms by (auto simp: prepare_segment_def res_simps Let_def)
  note room = ensure_capacity_fits [OF w2]
  show ?thesis
  proof (cases "bt_contains (ws_open (fst w1)) ?k")
    case True
    then show ?thesis using len last_step room by (simp add: saturating_add_u64_def)
  next
    case False
    then obtain s fs where made: "create_with_header ?env (wi_os i) ?root (wi_opened_now i) ?h (snd w2) = (Inr s, fs)"
      "w' = ((fst w2)\<lparr>ws_total_bytes := saturating_add_u64 (ws_total_bytes (fst w2)) (og_bytes_written s),
                      ws_open := bt_insert ?k s (ws_open (fst w2))\<rparr>, fs)"
      using last_step
      by (auto simp: st_bind_def on_files_def on_state_def split: prod.splits sum.splits)
    obtain bs where bs: "encode_segment_header ?env ?h = Inr bs" "og_bytes_written s = length bs"
      using create_ok [OF made(1)] by auto
    have "header_bytes = og_bytes_written s" using len False segment_header_len [OF bs(1)] bs(2) by simp
    then show ?thesis using made(2) room saturating_add_twice by simp
  qed
qed

lemma index_event_total: "index_event we d g e w = Some (r, w') \<Longrightarrow> ws_total_bytes (fst w') = ws_total_bytes (fst w)"
  by (auto simp: index_event_def split: option.splits prod.splits sum.splits)

lemma append_within_capacity:
  assumes "journal_append we i g e w = Some (Inr e', w')"
  shows "ws_total_bytes (fst w') \<le> jc_max_total_bytes g"
proof -
  obtain rec w1 u w2 where p: "prepare_segment we i g (e\<lparr>ev_durable := True\<rparr>) rec w1 = (Inr u, w2)"
    and r: "write_record we i g (e\<lparr>ev_durable := True\<rparr>) rec w2 = Some (Inr e', w')"
    using assms by (auto simp: journal_append_def Let_def split: prod.splits sum.splits)
  obtain s s' fs where
    "index_event we (wi_index_os i) g (e\<lparr>ev_durable := True\<rparr>)
       ((fst w2)\<lparr>ws_total_bytes := saturating_add_u64 (ws_total_bytes (fst w2)) (length rec),
          ws_open := bt_insert (event_key (e\<lparr>ev_durable := True\<rparr>)) s' (ws_open (fst w2)),
          ws_heads := bt_insert (event_key (e\<lparr>ev_durable := True\<rparr>)) (ev_seq e) (ws_heads (fst w2))\<rparr>, fs)
     = Some (Inr e', w')"
    using r by (auto simp: write_record_def Let_def split: option.splits prod.splits append_outcome.splits)
  from index_event_total [OF this] prepare_segment_room [OF p] show ?thesis by simp
qed

end
