(* ===== verification/RunHistoryProps.thy ===== *)
theory RunHistoryProps
  imports RunHistory
begin

text \<open>
  Correctness of the Run index: what a listing contains, that hiding is all or nothing and never
  touches an active Run or a record, that the revision of the visibility certifies it, and that
  a late or repeated lifecycle event changes nothing.
\<close>

section \<open>Listing\<close>

text \<open>What every listed record satisfies.\<close>

definition listed_ok :: "rstring \<Rightarrow> uuid \<Rightarrow> 'j agent_run_record \<Rightarrow> bool" where
  "listed_ok port current_epoch r \<longleftrightarrow>
     ar_port r = port \<and> (run_status (ar_run r) = Active \<longrightarrow> ar_epoch r = current_epoch)"

lemma settled_simps [simp]:
  "ar_port (settled c r) = ar_port r" "run_uuid (ar_run (settled c r)) = run_uuid (ar_run r)"
  "ar_epoch (settled c r) = ar_epoch r" "ar_through_seq (settled c r) = ar_through_seq r"
  by (simp_all add: settled_def)

lemma listed_ok_settled: "ar_port r = port \<Longrightarrow> listed_ok port c (settled c r)"
  by (simp add: listed_ok_def settled_def)

lemma scan_entry_Some: "scan_entry d f dir port c fs name = Inr (Some r) \<Longrightarrow> listed_ok port c r"
  by (auto simp: scan_entry_def res_simps listed_ok_settled split: option.splits if_splits)

lemma scan_records_ok:
  "scan_records d f dir port c fs names acc = Inr rs \<Longrightarrow> \<forall>r \<in> set acc. listed_ok port c r \<Longrightarrow>
   length acc \<le> 100000 \<Longrightarrow> (\<forall>r \<in> set rs. listed_ok port c r) \<and> length rs \<le> 100000"
proof (induction names arbitrary: acc)
  case (Cons nm names)
  obtain o1 where o1: "scan_entry d f dir port c fs nm = Inr o1"
    using Cons.prems(1) by (auto simp: res_simps)
  show ?case
  proof (cases o1)
    case None
    with Cons o1 show ?thesis by simp
  next
    case (Some r)
    with Cons.prems(1) o1 have "scan_records d f dir port c fs names (acc @ [r]) = Inr rs"
      "length (acc @ [r]) \<le> 100000"
      by (simp_all split: if_splits)
    with Cons.IH [OF this(1) _ this(2)] Cons.prems(2) scan_entry_Some [OF o1 [unfolded Some]]
    show ?thesis by simp
  qed
qed simp

lemma scan_records_keeps: "scan_records d f dir port c fs names acc = Inr rs \<Longrightarrow> set acc \<subseteq> set rs"
  by (induction names arbitrary: acc) (fastforce simp: res_simps split: option.splits if_splits)+

lemma scan_records_finds:
  "scan_records d f dir port c fs names acc = Inr rs \<Longrightarrow> name \<in> set names \<Longrightarrow>
   \<exists>o1. scan_entry d f dir port c fs name = Inr o1 \<and> (\<forall>r. o1 = Some r \<longrightarrow> r \<in> set rs)"
proof (induction names arbitrary: acc)
  case (Cons nm names)
  obtain o1 where o1: "scan_entry d f dir port c fs nm = Inr o1"
    using Cons.prems(1) by (auto simp: res_simps)
  show ?case
  proof (cases o1)
    case None
    with Cons o1 show ?thesis by auto
  next
    case (Some r)
    with Cons.prems(1) o1 have "scan_records d f dir port c fs names (acc @ [r]) = Inr rs"
      by (simp split: if_splits)
    with scan_records_keeps [OF this] Cons.IH [OF this] Cons.prems(2) o1 Some show ?thesis by auto
  qed
qed simp

lemma run_list_ok:
  assumes "run_list d f h port c fs = Inr rs"
  shows "(\<forall>r \<in> set rs. listed_ok port c r) \<and> length rs \<le> 100000 \<and> sorted (map record_key rs)"
  using assms
  by (auto simp: run_list_def res_simps dest!: scan_records_ok split: sum.splits if_splits)

lemma known_runs_None: "bt_get (known_runs rs) i = None \<longleftrightarrow> i \<notin> (\<lambda>r. run_uuid (ar_run r)) ` set rs"
proof -
  have "bt_get (fold (\<lambda>r m. bt_insert (run_uuid (ar_run r)) r m) rs m) i = None \<longleftrightarrow>
      bt_get m i = None \<and> i \<notin> (\<lambda>r. run_uuid (ar_run r)) ` set rs" for m
    by (induction rs arbitrary: m) (auto simp: bt_get_insert)
  then show ?thesis by (simp add: known_runs_def bt_empty_def bt_get_def)
qed

lemma known_runs_Some:
  assumes "bt_get (known_runs rs) i = Some r"
  shows "r \<in> set rs \<and> run_uuid (ar_run r) = i"
proof -
  have "bt_get (fold (\<lambda>r m. bt_insert (run_uuid (ar_run r)) r m) rs m) i = Some r \<Longrightarrow>
      bt_get m i = Some r \<or> (r \<in> set rs \<and> run_uuid (ar_run r) = i)" for m
  proof (induction rs arbitrary: m)
    case (Cons a rs)
    have "bt_get (fold (\<lambda>r m. bt_insert (run_uuid (ar_run r)) r m) rs (bt_insert (run_uuid (ar_run a)) a m)) i = Some r"
      using Cons.prems by simp
    from Cons.IH [OF this] show ?case by (auto simp: bt_get_insert split: if_splits)
  qed simp
  from this [of bt_empty] show ?thesis using assms by (simp add: known_runs_def bt_empty_def bt_get_def)
qed

lemma distinct_remdups_adj_sorted: "sorted xs \<Longrightarrow> distinct (remdups_adj xs)"
  by (induction xs rule: remdups_adj.induct) auto

section \<open>Hiding\<close>

definition stored_visibility :: "agent_history_visibility codec \<Rightarrow> path \<Rightarrow> files \<Rightarrow> agent_history_visibility option" where
  "stored_visibility json p fs =
     (case bt_get fs p of
        None \<Rightarrow> Some visibility_default
      | Some (Regular bs) \<Rightarrow> (case decode_json json bs of Inl _ \<Rightarrow> None | Inr v \<Rightarrow> Some v)
      | Some Special \<Rightarrow> None)"

text \<open>A fault that poses as a missing file is not one.\<close>

definition honest :: "os \<Rightarrow> bool" where
  "honest d \<longleftrightarrow> (\<forall>c e. os_fault d c = Some e \<longrightarrow> io_kind e \<noteq> IoNotFound)"

lemma read_optional_Inr:
  assumes "read_optional d json p fs = Inr o1" "\<And>e. os_fault d (FsMetadata p) = Some e \<Longrightarrow> io_kind e \<noteq> IoNotFound"
  shows "(o1 = None \<and> bt_get fs p = None) \<or>
    (\<exists>bs v. bt_get fs p = Some (Regular bs) \<and> decode_json json bs = Inr v \<and> o1 = Some v)"
  using assms
  by (auto simp: read_optional_def fs_metadata_def fs_read_def res_simps io_fail_def
      split: option.splits node.splits sum.splits if_splits prod.splits)

lemma run_visibility_stored:
  "run_visibility d f h port fs = Inr v \<Longrightarrow> honest d \<Longrightarrow>
   stored_visibility (rf_visibility f) (visibility_path h port) fs = Some v"
  by (auto simp: run_visibility_def res_simps stored_visibility_def honest_def dest!: read_optional_Inr
      split: sum.splits)

lemma run_hide_cases:
  assumes "run_hide d f h port ids c active fs = Some (r, fs')"
  obtains (unchanged) e where "r = Inl e" "bt_get fs' (visibility_path h port) = bt_get fs (visibility_path h port)"
  | (committed) sel old v bs where "hide_selection d f h port ids c active fs = Inr sel"
      "run_visibility d f h port fs = Inr old" "hide_more sel old = Inr v"
      "encode_json (rf_visibility f) v = Inr bs"
      "bt_get fs' (visibility_path h port) = Some (Regular bs)"
      "r = Inr v \<or> (\<exists>e. r = Inl e \<and> os_fault d (FsSyncDir (port_dir h port)) = Some e)"
proof (cases "sbind (hide_selection d f h port ids c active fs) (\<lambda>selected.
           sbind (fs_call_ok d (FsCreateDir (port_dir h port))) (\<lambda>_.
           sbind (run_visibility d f h port fs) (hide_more selected)))")
  case (Inl e)
  with assms have "r = Inl e" "fs' = fs" by (simp_all add: run_hide_def)
  then show ?thesis by (intro unchanged) auto
next
  case (Inr v)
  then obtain sel old where pre: "hide_selection d f h port ids c active fs = Inr sel"
    "run_visibility d f h port fs = Inr old" "hide_more sel old = Inr v"
    by (auto simp: res_simps)
  show ?thesis
  proof (cases "encode_json (rf_visibility f) v")
    case (Inl e)
    with assms Inr have "r = Inl e" "fs' = fs" by (simp_all add: run_hide_def write_json_def)
    then show ?thesis by (intro unchanged) auto
  next
    case (Inr bs)
    with assms \<open>sbind _ _ = Inr v\<close> obtain r2 where
      w: "atomic_write d (visibility_path h port) bs fs = Some (r2, fs')"
      and r: "r = (case r2 of Inl e \<Rightarrow> Inl e | Inr _ \<Rightarrow> Inr v)"
      by (auto simp: run_hide_def write_json_def split: option.splits sum.splits prod.splits)
    from w show ?thesis
    proof (cases rule: atomic_write_cases)
      case (refused e)
      with r show ?thesis by (intro unchanged) auto
    next
      case (failed e tmp)
      with r show ?thesis by (intro unchanged) auto
    next
      case (unsynced e)
      with r pre Inr show ?thesis by (intro committed [of sel old v bs]) (auto simp: visibility_path_def)
    next
      case stored
      with r pre Inr show ?thesis by (intro committed [of sel old v bs]) auto
    qed
  qed
qed

lemma hide_more_Inr:
  assumes "hide_more sel old = Inr v"
  shows "av_revision v = Suc (av_revision old)" "set (av_hidden v) = set (av_hidden old) \<union> set sel"
    "sorted (av_hidden v)" "distinct (av_hidden v)" "av_revision v \<le> U64_MAX"
  using assms by (auto simp: hide_more_def res_simps sorted_remdups_adj distinct_remdups_adj_sorted split: option.splits)

text \<open>Only archived Runs that are over, and not the one the caller reports active, are selected.\<close>

lemma hide_selection_over:
  assumes "hide_selection d f h port ids c active fs = Inr sel" "i \<in> set sel"
  shows "Some i \<noteq> active \<and> (\<exists>rs r. run_list d f h port c fs = Inr rs \<and> r \<in> set rs \<and>
    run_uuid (ar_run r) = i \<and> run_status (ar_run r) \<noteq> Active)"
proof -
  obtain rs where rs: "run_list d f h port c fs = Inr rs"
    and ok: "each_ok (check_selected (known_runs rs) active) sel = Inr ()"
    using assms(1) by (auto simp: hide_selection_def res_simps Let_def split: if_splits)
  have "check_selected (known_runs rs) active i = Inr ()"
    using ok assms(2) by (simp add: each_ok_Inr_iff)
  then show ?thesis using rs known_runs_Some [of rs i]
    by (fastforce simp: check_selected_def bt_contains_def split: if_splits option.splits)
qed

text \<open>
  The selection is what was asked for: the identifiers named or, when none is, the listed Runs
  that are over and do not hold control.
\<close>

lemma hide_selection_requested:
  assumes "hide_selection d f h port ids c active fs = Inr sel"
  shows "\<exists>rs. run_list d f h port c fs = Inr rs \<and>
    (case ids of
       Some named \<Rightarrow> set sel = set named
     | None \<Rightarrow> \<not> rh_indexing h \<and> rh_warning h = None \<and>
         set sel = {run_uuid (ar_run r) | r. r \<in> set rs \<and> run_status (ar_run r) \<noteq> Active \<and>
           Some (run_uuid (ar_run r)) \<noteq> active})"
proof (cases ids)
  case None
  with assms show ?thesis
    by (auto simp: hide_selection_def selected_runs_def res_simps Let_def image_def split: if_splits)
next
  case (Some named)
  with assms show ?thesis
    by (auto simp: hide_selection_def selected_runs_def res_simps Let_def split: if_splits)
qed

text \<open>A selection that names the active Run or an unknown one is refused as a whole.\<close>

lemma hide_selection_refuses:
  assumes "i \<in> set is" "Some i = active \<or> (\<forall>rs. run_list d f h port c fs = Inr rs \<longrightarrow> i \<notin> (\<lambda>r. run_uuid (ar_run r)) ` set rs)"
  shows "\<exists>e. hide_selection d f h port (Some is) c active fs = Inl e"
proof (cases "hide_selection d f h port (Some is) c active fs")
  case (Inr sel)
  then have "sel = is" by (auto simp: hide_selection_def selected_runs_def res_simps Let_def)
  with hide_selection_over [OF Inr, of i] assms show ?thesis by auto
qed blast

lemma run_hide_ok:
  assumes "run_hide d f h port ids c active fs = Some (Inr v, fs')" "honest d" "codec_ok (rf_visibility f)"
  shows "\<exists>sel old. hide_selection d f h port ids c active fs = Inr sel \<and>
    stored_visibility (rf_visibility f) (visibility_path h port) fs = Some old \<and>
    stored_visibility (rf_visibility f) (visibility_path h port) fs' = Some v \<and>
    av_revision v = Suc (av_revision old) \<and> set (av_hidden v) = set (av_hidden old) \<union> set sel \<and>
    sorted (av_hidden v) \<and> distinct (av_hidden v)"
  using assms(1)
proof (cases rule: run_hide_cases)
  case (committed sel old v' bs)
  have "decode_json (rf_visibility f) bs = Inr v" using committed assms(3) by (auto simp: codec_ok_def)
  then show ?thesis
    using committed hide_more_Inr [OF committed(3)] run_visibility_stored [OF committed(2) assms(2)]
    by (auto simp: stored_visibility_def)
qed auto

lemma run_hide_err:
  assumes "run_hide d f h port ids c active fs = Some (Inl e, fs')"
    "os_fault d (FsSyncDir (port_dir h port)) = None"
  shows "bt_get fs' (visibility_path h port) = bt_get fs (visibility_path h port)"
  using assms by (cases rule: run_hide_cases) auto

text \<open>Hiding is a mark: no other file is touched.\<close>

lemma run_hide_frame:
  assumes "run_hide d f h port ids c active fs = Some (r, fs')" "p \<noteq> visibility_path h port"
    "bt_get fs p = Some n"
  shows "bt_get fs' p = Some n"
  using assms
  by (auto simp: run_hide_def write_json_def dest: atomic_write_frame split: sum.splits option.splits)

lemma run_hide_active:
  assumes "run_hide d f h port ids c (Some i) fs = Some (Inr v, fs')" "honest d" "codec_ok (rf_visibility f)"
    "stored_visibility (rf_visibility f) (visibility_path h port) fs = Some old" "i \<notin> set (av_hidden old)"
  shows "i \<notin> set (av_hidden v)"
  using run_hide_ok [OF assms(1-3)] assms(4,5) hide_selection_over by fastforce

record hide_call =
  hc_os :: os
  hc_history :: run_history
  hc_ids :: "uuid list option"
  hc_epoch :: uuid
  hc_active :: "uuid option"

definition hide_commit :: "'j run_formats \<Rightarrow> rstring \<Rightarrow> rstring \<Rightarrow> hide_call \<Rightarrow> files \<Rightarrow> files" where
  "hide_commit f root port c fs =
     (if \<not> honest (hc_os c) then fs
      else case run_hide (hc_os c) f ((hc_history c)\<lparr>rh_root := root\<rparr>) port (hc_ids c) (hc_epoch c) (hc_active c) fs of
        None \<Rightarrow> fs | Some (_, fs') \<Rightarrow> fs')"

definition visibility_inv :: "agent_history_visibility codec \<Rightarrow> path \<Rightarrow> files \<Rightarrow> bool" where
  "visibility_inv json p fs \<longleftrightarrow> codec_ok json \<and> stored_visibility json p fs \<noteq> None"

lemma visibility_path_root: "visibility_path h port = (rh_root h @ lit ''/'' @ concat (map hex_byte (utf8 port)), lit ''visibility.json'')"
  by (simp add: visibility_path_def port_dir_def)

lemma hide_commit_step:
  assumes i: "visibility_inv (rf_visibility f) p fs" and p: "p = visibility_path (run_history_new root) port"
  shows "stored_visibility (rf_visibility f) p (hide_commit f root port c fs) = stored_visibility (rf_visibility f) p fs \<or>
    (\<exists>old v. stored_visibility (rf_visibility f) p fs = Some old \<and>
      stored_visibility (rf_visibility f) p (hide_commit f root port c fs) = Some v \<and>
      av_revision v = Suc (av_revision old))"
proof -
  let ?h = "(hc_history c)\<lparr>rh_root := root\<rparr>"
  have ph: "p = visibility_path ?h port" using p by (simp add: visibility_path_root run_history_new_def)
  show ?thesis
  proof (cases "honest (hc_os c) \<and> (\<exists>r fs'. run_hide (hc_os c) f ?h port (hc_ids c) (hc_epoch c) (hc_active c) fs = Some (r, fs'))")
    case False
    then show ?thesis by (auto simp: hide_commit_def split: option.splits)
  next
    case True
    then obtain r fs' where hon: "honest (hc_os c)"
      and run: "run_hide (hc_os c) f ?h port (hc_ids c) (hc_epoch c) (hc_active c) fs = Some (r, fs')" by blast
    have c: "hide_commit f root port c fs = fs'" using hon run by (simp add: hide_commit_def)
    from run show ?thesis unfolding c
    proof (cases rule: run_hide_cases)
      case (unchanged e)
      then show "stored_visibility (rf_visibility f) p fs' = stored_visibility (rf_visibility f) p fs \<or>
        (\<exists>old v. stored_visibility (rf_visibility f) p fs = Some old \<and>
          stored_visibility (rf_visibility f) p fs' = Some v \<and> av_revision v = Suc (av_revision old))"
        by (simp add: stored_visibility_def ph)
    next
      case (committed sel old v bs)
      have "decode_json (rf_visibility f) bs = Inr v" using committed i by (auto simp: codec_ok_def visibility_inv_def)
      then show "stored_visibility (rf_visibility f) p fs' = stored_visibility (rf_visibility f) p fs \<or>
        (\<exists>old v. stored_visibility (rf_visibility f) p fs = Some old \<and>
          stored_visibility (rf_visibility f) p fs' = Some v \<and> av_revision v = Suc (av_revision old))"
        using committed hide_more_Inr(1) [OF committed(3)] run_visibility_stored [OF committed(2) hon]
        by (auto simp: ph stored_visibility_def)
    qed
  qed
qed

interpretation visibility: versioned_store "hide_commit f root port"
  "\<lambda>fs. case stored_visibility (rf_visibility f) (visibility_path (run_history_new root) port) fs of
     None \<Rightarrow> 0 | Some v \<Rightarrow> av_revision v"
  "stored_visibility (rf_visibility f) (visibility_path (run_history_new root) port)"
  "visibility_inv (rf_visibility f) (visibility_path (run_history_new root) port)"
  for f root port
proof unfold_locales
  fix fs c
  let ?p = "visibility_path (run_history_new root) port"
  assume i: "visibility_inv (rf_visibility f) ?p fs"
  note step = hide_commit_step [OF i refl, of c]
  show "visibility_inv (rf_visibility f) ?p (hide_commit f root port c fs)"
    using step i by (auto simp: visibility_inv_def)
  show "(case stored_visibility (rf_visibility f) ?p (hide_commit f root port c fs) of None \<Rightarrow> 0 | Some v \<Rightarrow> av_revision v)
      = (case stored_visibility (rf_visibility f) ?p fs of None \<Rightarrow> 0 | Some v \<Rightarrow> av_revision v) \<and>
      stored_visibility (rf_visibility f) ?p (hide_commit f root port c fs) = stored_visibility (rf_visibility f) ?p fs \<or>
      (case stored_visibility (rf_visibility f) ?p (hide_commit f root port c fs) of None \<Rightarrow> 0 | Some v \<Rightarrow> av_revision v)
      = Suc (case stored_visibility (rf_visibility f) ?p fs of None \<Rightarrow> 0 | Some v \<Rightarrow> av_revision v)"
    using step by auto
qed

section \<open>Recording\<close>

definition stored_record :: "'j run_formats \<Rightarrow> path \<Rightarrow> files \<Rightarrow> 'j agent_run_record option" where
  "stored_record f p fs =
     (case bt_get fs p of
        Some (Regular bs) \<Rightarrow> (case decode_json (rf_record f) bs of Inl _ \<Rightarrow> None | Inr r \<Rightarrow> Some r)
      | _ \<Rightarrow> None)"

lemma read_record_stored:
  "read_optional d (rf_record f) p fs = Inr o1 \<Longrightarrow> honest d \<Longrightarrow> stored_record f p fs = o1"
  by (auto simp: stored_record_def honest_def dest!: read_optional_Inr)

text \<open>
  A lifecycle event that is accepted leaves a record that is at least as recent; the first
  start time and the hidden flag of the Run survive.
\<close>

lemma run_record_ok:
  assumes r: "run_record d f h ev fs = Some (Inr (), fs')" and run: "lifecycle_run f ev = Some run"
    and d: "honest d" and c: "codec_ok (rf_record f)"
  shows "\<exists>new. stored_record f (record_path f h (ev_port ev) (run_uuid run)) fs' = Some new \<and>
    ar_epoch new = ev_epoch ev \<and> ev_seq ev \<le> ar_through_seq new \<and>
    (\<forall>old. stored_record f (record_path f h (ev_port ev) (run_uuid run)) fs = Some old \<longrightarrow>
      ar_started_wall_time_ns new = ar_started_wall_time_ns old \<and> ar_hidden new = ar_hidden old \<and>
      (ar_epoch old = ar_epoch new \<longrightarrow> ar_through_seq old \<le> ar_through_seq new))"
proof -
  let ?p = "record_path f h (ev_port ev) (run_uuid run)"
  have "sbind (fs_call_ok d (FsCreateDir (fst ?p))) (\<lambda>_. read_optional d (rf_record f) ?p fs) \<noteq> Inl e" for e
    using r run by (auto simp: run_record_def Let_def)
  then obtain old where o: "read_optional d (rf_record f) ?p fs = Inr old"
    and cd: "fs_call_ok d (FsCreateDir (fst ?p)) = Inr ()"
    by (cases "fs_call_ok d (FsCreateDir (fst ?p))"; cases "read_optional d (rf_record f) ?p fs") auto
  note st = read_record_stored [OF o d]
  show ?thesis
  proof (cases "\<exists>r. old = Some r \<and> ar_epoch r = ev_epoch ev \<and> ev_seq ev \<le> ar_through_seq r")
    case True
    with r run o cd st show ?thesis by (auto simp: run_record_def Let_def)
  next
    case False
    then have "\<not> (case old of None \<Rightarrow> False | Some r \<Rightarrow> ar_epoch r = ev_epoch ev \<and> ev_seq ev \<le> ar_through_seq r)"
      by (auto split: option.splits)
    with r run o cd have "write_json d (rf_record f) ?p (updated_record ev run old) fs = Some (Inr (), fs')"
      by (simp add: run_record_def Let_def)
    then obtain bs where bs: "encode_json (rf_record f) (updated_record ev run old) = Inr bs"
      and w: "atomic_write d ?p bs fs = Some (Inr (), fs')"
      by (auto simp: write_json_def split: sum.splits)
    have "decode_json (rf_record f) bs = Inr (updated_record ev run old)"
      using bs c by (simp add: codec_ok_def)
    with atomic_write_ok [OF w, of ?p] have "stored_record f ?p fs' = Some (updated_record ev run old)"
      by (simp add: stored_record_def)
    with False st show ?thesis by (auto simp: updated_record_def)
  qed
qed

text \<open>A lifecycle event of the same daemon that is not newer than the record changes nothing.\<close>

lemma run_record_late:
  assumes "lifecycle_run f ev = Some run" "stored_record f (record_path f h (ev_port ev) (run_uuid run)) fs = Some old"
    "ar_epoch old = ev_epoch ev" "ev_seq ev \<le> ar_through_seq old" "honest d"
    "run_record d f h ev fs = Some (r, fs')"
  shows "fs' = fs"
proof (cases "sbind (fs_call_ok d (FsCreateDir (port_dir h (ev_port ev))))
    (\<lambda>_. read_optional d (rf_record f) (record_path f h (ev_port ev) (run_uuid run)) fs)")
  case (Inl e)
  with assms(1,6) show ?thesis by (simp add: run_record_def Let_def record_path_def)
next
  case (Inr o1)
  then have "read_optional d (rf_record f) (record_path f h (ev_port ev) (run_uuid run)) fs = Inr o1"
    by (auto simp: res_simps)
  from read_record_stored [OF this assms(5)] have "o1 = Some old" using assms(2) by simp
  with Inr assms show ?thesis by (simp add: run_record_def Let_def record_path_def)
qed

text \<open>What was recorded is listed, if the listing succeeds.\<close>

lemma file_stem_json: "x \<noteq> [] \<Longrightarrow> file_stem (x @ lit ''.json'') = x"
  by (simp add: file_stem_def lit_def Let_def)

lemma run_list_finds:
  assumes l: "run_list d f h port c fs = Inr rs" and d: "honest d" "os_fault d (FsReadDir (port_dir h port)) = None"
    and s: "stored_record f (record_path f h port i) fs = Some r"
    and u: "rf_uuid_parse f (rf_uuid_text f i) = Some i" "rf_uuid_text f i \<noteq> []"
  shows "settled c r \<in> set rs"
proof -
  let ?name = "rf_uuid_text f i @ lit ''.json''"
  obtain bs where bs: "bt_get fs (port_dir h port, ?name) = Some (Regular bs)" "decode_json (rf_record f) bs = Inr r"
    using s by (auto simp: stored_record_def record_path_def split: option.splits node.splits sum.splits)
  let ?names = "map snd (filter (\<lambda>p. fst p = port_dir h port) (bt_keys fs))"
  have "?name \<in> set ?names"
    using bs(1) by (force simp: bt_keys_def dest!: bt_get_Some_in)
  moreover obtain rs' where rs': "scan_records d f (port_dir h port) port c fs ?names [] = Inr rs'"
    and rs: "rs = sort_key record_key rs'"
    using l d(2) by (auto simp: run_list_def fs_read_dir_def res_simps)
  ultimately obtain o1 where o1: "scan_entry d f (port_dir h port) port c fs ?name = Inr o1"
    and in_rs: "\<forall>r. o1 = Some r \<longrightarrow> r \<in> set rs'"
    using scan_records_finds by blast
  have o2: "read_optional d (rf_record f) (port_dir h port, ?name) fs = Inr o2 \<Longrightarrow> o2 = Some r" for o2
    by (drule read_record_stored [OF _ d(1)]) (use s in \<open>simp add: record_path_def\<close>)
  have "o1 = Some (settled c r)"
    using o1 u bs(1) by (auto simp: scan_entry_def file_stem_json fs_file_type_def res_simps dest!: o2
        split: option.splits if_splits)
  with in_rs have "settled c r \<in> set rs'" by simp
  then show ?thesis by (simp add: rs)
qed

end
