(* ===== verification/MonitorLiterals.thy ===== *)
theory MonitorLiterals
  imports StreamSearch "HOL-Library.Sublist"
begin

text \<open>
  What \<open>crates/seriald/src/monitor.rs\<close> learns from a regular expression before it runs it: the bytes
  every match starts with and a literal every match contains. The syntax tree is the one of the
  third-party crate \<open>regex_syntax\<close>; \<open>hir\<close> has the cases of its \<open>HirKind\<close> with the fields the code
  reads, and a character class is a type variable, of which only \<open>Class::literal\<close> is used.
  \<open>spells\<close> is the documented meaning of the cases, with the zero-width assertions left out: what a
  match consumes is always spelled.
\<close>

section \<open>Expressions\<close>

datatype 'c hir =
    HEmpty
  | HLook
  | HLiteral bytes
  | HClass 'c
  | HRepetition nat "nat option" "'c hir"
  | HCapture "'c hir"
  | HConcat "'c hir list"
  | HAlternation "'c hir list"

inductive spells :: "('c \<Rightarrow> bytes \<Rightarrow> bool) \<Rightarrow> 'c hir \<Rightarrow> bytes \<Rightarrow> bool" for cw where
  spells_empty: "spells cw HEmpty []"
| spells_look: "spells cw HLook []"
| spells_literal: "spells cw (HLiteral l) l"
| spells_class: "cw c w \<Longrightarrow> spells cw (HClass c) w"
| spells_repetition:
    "\<forall>w \<in> set ws. spells cw h w \<Longrightarrow> least \<le> length ws \<Longrightarrow> (\<And>m. most = Some m \<Longrightarrow> length ws \<le> m) \<Longrightarrow>
     spells cw (HRepetition least most h) (concat ws)"
| spells_capture: "spells cw h w \<Longrightarrow> spells cw (HCapture h) w"
| spells_concat: "list_all2 (spells cw) hs ws \<Longrightarrow> spells cw (HConcat hs) (concat ws)"
| spells_alternation: "h \<in> set hs \<Longrightarrow> spells cw h w \<Longrightarrow> spells cw (HAlternation hs) w"

inductive_cases spells_cases:
  "spells cw HEmpty w" "spells cw HLook w" "spells cw (HLiteral l) w" "spells cw (HClass c) w"
  "spells cw (HRepetition least most h) w" "spells cw (HCapture h) w" "spells cw (HConcat hs) w"
  "spells cw (HAlternation hs) w"

text \<open>\<open>Class::literal\<close>: the literal of a class that matches nothing else.\<close>

definition literal_classes :: "('c \<Rightarrow> bytes option) \<Rightarrow> ('c \<Rightarrow> bytes \<Rightarrow> bool) \<Rightarrow> bool" where
  "literal_classes class_literal cw \<longleftrightarrow> (\<forall>c l w. class_literal c = Some l \<longrightarrow> cw c w \<longrightarrow> w = l)"

section \<open>The analysis\<close>

definition MAX_MONITOR_PATTERN_BYTES :: nat where "MAX_MONITOR_PATTERN_BYTES = 4096"

record literal_analysis =
  la_prefix :: bytes
  la_required :: "bytes option"
  la_exact :: bool

definition analysis_default :: literal_analysis where
  "analysis_default = \<lparr>la_prefix = [], la_required = None, la_exact = False\<rparr>"

fun repeat_loop :: "bytes \<Rightarrow> nat \<Rightarrow> bytes \<Rightarrow> bytes \<times> bool" where
  "repeat_loop literal 0 repeated = (repeated, True)"
| "repeat_loop literal (Suc count) repeated =
     (if length repeated + length literal > MAX_MONITOR_PATTERN_BYTES then (repeated, False)
      else repeat_loop literal count (repeated @ literal))"

definition repeat_literal :: "bytes \<Rightarrow> nat \<Rightarrow> bytes \<times> bool" where
  "repeat_literal literal count = repeat_loop literal count []"

definition longer_literal :: "bytes option \<Rightarrow> bytes option \<Rightarrow> bytes option" where
  "longer_literal left right =
     (case right of
        None \<Rightarrow> left
      | Some r \<Rightarrow> (case left of Some l \<Rightarrow> if length r \<le> length l then Some l else Some r | None \<Rightarrow> Some r))"

definition common_prefix_len :: "bytes \<Rightarrow> bytes \<Rightarrow> nat" where
  "common_prefix_len left right = length (takeWhile (\<lambda>(l, r). l = r) (zip left right))"

fun concat_loop :: "literal_analysis list \<Rightarrow> bytes \<Rightarrow> bool \<Rightarrow> bytes option \<Rightarrow> literal_analysis" where
  "concat_loop [] pre complete required = \<lparr>la_prefix = pre, la_required = required, la_exact = complete\<rparr>"
| "concat_loop (part # parts) pre complete required =
     concat_loop parts (if complete then pre @ la_prefix part else pre) (complete \<and> la_exact part)
       (longer_literal required (la_required part))"

fun alternation_loop ::
  "literal_analysis list \<Rightarrow> bytes \<Rightarrow> bool \<Rightarrow> bytes option \<Rightarrow> bytes option \<Rightarrow> literal_analysis" where
  "alternation_loop [] pre exact exact_value required =
     \<lparr>la_prefix = pre, la_required = required, la_exact = exact\<rparr>"
| "alternation_loop (branch # branches) pre exact exact_value required =
     (let pre = take (common_prefix_len pre (la_prefix branch)) pre;
          exact = (exact \<and> la_exact branch \<and> exact_value = Some (la_prefix branch))
      in alternation_loop branches pre exact (if exact then exact_value else None)
           (if required \<noteq> la_required branch then None else required))"

text \<open>The end of \<open>analyze_regex_literals\<close>: a longer prefix is the better required literal.\<close>

definition prefer_prefix :: "literal_analysis \<Rightarrow> literal_analysis" where
  "prefer_prefix a =
     (if la_prefix a \<noteq> [] \<and>
         (case la_required a of None \<Rightarrow> True | Some required \<Rightarrow> length required < length (la_prefix a))
      then a\<lparr>la_required := Some (la_prefix a)\<rparr> else a)"

fun analyze_regex_literals :: "('c \<Rightarrow> bytes option) \<Rightarrow> 'c hir \<Rightarrow> literal_analysis" where
  "analyze_regex_literals cl HEmpty = prefer_prefix (analysis_default\<lparr>la_exact := True\<rparr>)"
| "analyze_regex_literals cl HLook = prefer_prefix (analysis_default\<lparr>la_exact := True\<rparr>)"
| "analyze_regex_literals cl (HLiteral l) =
     prefer_prefix \<lparr>la_prefix = l, la_required = (if l \<noteq> [] then Some l else None), la_exact = True\<rparr>"
| "analyze_regex_literals cl (HClass c) =
     prefer_prefix
       (case cl c of
          None \<Rightarrow> analysis_default
        | Some l \<Rightarrow> \<lparr>la_prefix = l, la_required = Some l, la_exact = True\<rparr>)"
| "analyze_regex_literals cl (HCapture h) = prefer_prefix (analyze_regex_literals cl h)"
| "analyze_regex_literals cl (HRepetition least most h) =
     prefer_prefix
       (if least = 0 then analysis_default\<lparr>la_exact := (most = Some 0)\<rparr>
        else
          (let child = analyze_regex_literals cl h;
               (pre, repeated_exactly) =
                 (if la_exact child then repeat_literal (la_prefix child) least else (la_prefix child, False))
           in \<lparr>la_prefix = pre, la_required = la_required child,
               la_exact = (repeated_exactly \<and> most = Some least)\<rparr>))"
| "analyze_regex_literals cl (HConcat parts) =
     prefer_prefix (concat_loop (map (analyze_regex_literals cl) parts) [] True None)"
| "analyze_regex_literals cl (HAlternation branches) =
     prefer_prefix
       (case map (analyze_regex_literals cl) branches of
          [] \<Rightarrow> analysis_default
        | a # as \<Rightarrow>
            alternation_loop as (la_prefix a) (la_exact a) (if la_exact a then Some (la_prefix a) else None)
              (la_required a))"

section \<open>The analysis is true of every match\<close>

definition describes :: "literal_analysis \<Rightarrow> bytes \<Rightarrow> bool" where
  "describes a w \<longleftrightarrow>
     prefix (la_prefix a) w \<and> (la_exact a \<longrightarrow> w = la_prefix a) \<and> (\<forall>r. la_required a = Some r \<longrightarrow> sublist r w)"

lemma describes_prefer [simp]: "describes a w \<Longrightarrow> describes (prefer_prefix a) w"
  by (auto simp: describes_def prefer_prefix_def)

lemma describes_default [simp]: "describes analysis_default w"
  by (simp add: describes_def analysis_default_def)

lemma literal_describes:
  "r = None \<or> r = Some l \<Longrightarrow> describes (prefer_prefix \<lparr>la_prefix = l, la_required = r, la_exact = b\<rparr>) l"
  by (rule describes_prefer) (auto simp: describes_def)

lemma repeat_loop_spec:
  "repeat_loop l n r = (p, b) \<Longrightarrow>
   \<exists>k \<le> n. p = r @ concat (replicate k l) \<and> (b \<longrightarrow> k = n)"
proof (induction l n r rule: repeat_loop.induct)
  case (2 l n r)
  show ?case
  proof (cases "length r + length l > MAX_MONITOR_PATTERN_BYTES")
    case True
    with "2.prems" show ?thesis by (intro exI [of _ 0]) simp
  next
    case False
    with 2 obtain k where "k \<le> n" "p = (r @ l) @ concat (replicate k l)" "b \<longrightarrow> k = n" by auto
    then show ?thesis by (intro exI [of _ "Suc k"]) simp
  qed
qed simp

lemma concat_replicated:
  assumes "\<And>w. w \<in> set ws \<Longrightarrow> w = l"
  shows "concat ws = concat (replicate (length ws) l)"
  using assms by (induction ws) auto

lemma common_prefix: "take (common_prefix_len xs ys) xs = take (common_prefix_len xs ys) ys"
  unfolding common_prefix_len_def
proof (induction xs arbitrary: ys)
  case (Cons x xs)
  then show ?case by (cases ys) auto
qed simp

text \<open>Concatenation: the words of the parts that have been looked at, and the ones to come.\<close>

lemma concat_loop_describes:
  assumes "list_all2 describes as ws"
    and "prefix pre u" "complete \<longrightarrow> u = pre" "\<And>r. req = Some r \<Longrightarrow> sublist r u"
  shows "describes (concat_loop as pre complete req) (u @ concat ws)"
  using assms
proof (induction as arbitrary: ws pre complete req u)
  case Nil
  then show ?case by (auto simp: describes_def)
next
  case (Cons a as)
  then obtain w vs where ws: "ws = w # vs" "describes a w" "list_all2 describes as vs"
    by (auto simp: list_all2_Cons1)
  have 1: "prefix (if complete then pre @ la_prefix a else pre) (u @ w)"
    using Cons.prems(2,3) ws(2) by (auto simp: describes_def)
  have 2: "complete \<and> la_exact a \<longrightarrow> u @ w = (if complete then pre @ la_prefix a else pre)"
    using Cons.prems(3) ws(2) by (auto simp: describes_def)
  have 3: "sublist r (u @ w)" if "longer_literal req (la_required a) = Some r" for r
    using that Cons.prems(4) [of r] ws(2)
    by (auto simp: longer_literal_def describes_def sublist_appendI split: option.splits if_splits
        intro: sublist_append_rightI sublist_append_leftI sublist_order.order.trans)
  show ?case using Cons.IH [OF ws(3) 1 2 3] by (simp add: ws(1))
qed

lemma alternation_loop_describes:
  assumes "(prefix pre w \<and> (exact \<longrightarrow> w = pre) \<and> (\<forall>r. req = Some r \<longrightarrow> sublist r w)) \<or> (\<exists>a \<in> set as. describes a w)"
    and "exact \<longrightarrow> v = Some pre"
  shows "describes (alternation_loop as pre exact v req) w"
  using assms
proof (induction as arbitrary: pre exact v req)
  case Nil
  then show ?case by (auto simp: describes_def)
next
  case (Cons a as)
  let ?p = "take (common_prefix_len pre (la_prefix a)) pre"
  let ?x = "exact \<and> la_exact a \<and> v = Some (la_prefix a)"
  let ?r = "if req \<noteq> la_required a then None else req"
  have p: "prefix ?p pre" "prefix ?p (la_prefix a)"
    by (simp add: take_is_prefix, subst common_prefix, simp add: take_is_prefix)
  have x: "?x \<Longrightarrow> ?p = pre \<and> pre = la_prefix a"
  proof -
    assume "?x"
    then have "pre = la_prefix a" using Cons.prems(2) by auto
    moreover have "common_prefix_len pre pre = length pre"
    proof -
      have "takeWhile (\<lambda>(l, r). l = r) (zip pre pre) = zip pre pre"
        by (subst takeWhile_eq_all_conv) (auto simp: zip_same)
      then have "length (takeWhile (\<lambda>(l, r). l = r) (zip pre pre)) = length pre"
        by (simp only: length_zip min.idem)
      then show ?thesis by (simp only: common_prefix_len_def)
    qed
    ultimately show ?thesis by simp
  qed
  have "(prefix ?p w \<and> (?x \<longrightarrow> w = ?p) \<and> (\<forall>r. ?r = Some r \<longrightarrow> sublist r w)) \<or> (\<exists>a \<in> set as. describes a w)"
    using Cons.prems(1)
  proof (elim disjE)
    assume "prefix pre w \<and> (exact \<longrightarrow> w = pre) \<and> (\<forall>r. req = Some r \<longrightarrow> sublist r w)"
    then show ?thesis using p x by (auto intro: prefix_order.trans)
  next
    assume "\<exists>a \<in> set (a # as). describes a w"
    then show ?thesis
      using p x by (auto simp: describes_def intro: prefix_order.trans)
  qed
  moreover have "?x \<longrightarrow> (if ?x then v else None) = Some ?p"
    using x by auto
  ultimately show ?case using Cons.IH by (simp add: Let_def)
qed

lemma repetition_describes:
  assumes child: "\<And>w. w \<in> set ws \<Longrightarrow> describes a w" and n: "0 < n" "n \<le> length ws" "\<And>m. most = Some m \<Longrightarrow> length ws \<le> m"
    and p: "(if la_exact a then repeat_literal (la_prefix a) n else (la_prefix a, False)) = (pre, e)"
  shows "describes \<lparr>la_prefix = pre, la_required = la_required a, la_exact = (e \<and> most = Some n)\<rparr> (concat ws)"
proof -
  obtain w vs where ws: "ws = w # vs" using n by (cases ws) auto
  have "describes a w" using child ws by simp
  then have r: "sublist r (concat ws)" if "la_required a = Some r" for r
    using that by (auto simp: ws describes_def intro: sublist_order.order.trans sublist_append_rightI)
  show ?thesis
  proof (cases "la_exact a")
    case True
    then have eq: "concat ws = concat (replicate (length ws) (la_prefix a))"
      using child by (intro concat_replicated) (auto simp: describes_def)
    obtain k where k: "k \<le> n" "pre = concat (replicate k (la_prefix a))" "e \<longrightarrow> k = n"
      using p True repeat_loop_spec [of "la_prefix a" n "[]" pre e] by (auto simp: repeat_literal_def)
    then have "length ws = k + (length ws - k)" using n by simp
    then have "concat ws = pre @ concat (replicate (length ws - k) (la_prefix a))"
      unfolding eq k(2) by (metis concat_append replicate_add)
    moreover have "e \<and> most = Some n \<Longrightarrow> length ws = k" using k n(2) n(3) [of n] by simp
    ultimately show ?thesis using r by (auto simp: describes_def)
  next
    case False
    with p \<open>describes a w\<close> r show ?thesis by (auto simp: describes_def ws intro: prefix_order.trans)
  qed
qed

lemma analysis_describes:
  assumes "literal_classes cl cw" "spells cw h w"
  shows "describes (analyze_regex_literals cl h) w"
  using assms(2)
proof (induction h w rule: spells.induct)
  case (spells_class c w)
  have "describes (case cl c of None \<Rightarrow> analysis_default
      | Some l \<Rightarrow> \<lparr>la_prefix = l, la_required = Some l, la_exact = True\<rparr>) w"
    using assms(1) spells_class by (auto simp: literal_classes_def describes_def analysis_default_def split: option.splits)
  then show ?case by simp
next
  case (spells_repetition ws h least most)
  show ?case
  proof (cases "least = 0")
    case True
    have "describes (analysis_default\<lparr>la_exact := (most = Some 0)\<rparr>) (concat ws)"
      using spells_repetition.hyps by (auto simp: describes_def analysis_default_def)
    with True show ?thesis by simp
  next
    case False
    obtain pre e where p: "(if la_exact (analyze_regex_literals cl h)
        then repeat_literal (la_prefix (analyze_regex_literals cl h)) least
        else (la_prefix (analyze_regex_literals cl h), False)) = (pre, e)" by fastforce
    have "describes \<lparr>la_prefix = pre, la_required = la_required (analyze_regex_literals cl h),
        la_exact = (e \<and> most = Some least)\<rparr> (concat ws)"
      using spells_repetition False p by (intro repetition_describes) auto
    with False p show ?thesis by (simp add: Let_def)
  qed
next
  case (spells_concat hs ws)
  have "list_all2 describes (map (analyze_regex_literals cl) hs) ws"
    using spells_concat.IH by (auto simp: list_all2_map1 elim: list_all2_mono)
  from concat_loop_describes [OF this, of "[]" "[]" True None] show ?case by simp
next
  case (spells_alternation h hs w)
  obtain b bs where hs: "hs = b # bs" using spells_alternation.hyps by (cases hs) auto
  let ?a = "analyze_regex_literals cl b"
  have "describes (alternation_loop (map (analyze_regex_literals cl) bs) (la_prefix ?a) (la_exact ?a)
      (if la_exact ?a then Some (la_prefix ?a) else None) (la_required ?a)) w"
    using spells_alternation hs by (intro alternation_loop_describes) (auto simp: describes_def)
  then show ?case by (simp add: hs)
qed (auto simp: literal_describes analysis_default_def)

end
