(* ===== verification/MonitorTypes.thy ===== *)
theory MonitorTypes
  imports MonitorLiterals
begin

text \<open>
  The data of the monitors: the types of \<open>crates/serial-protocol/src/lib.rs\<close> that describe a monitor
  job and its incidents, the catalog \<open>crates/seriald/src/monitor.rs\<close> stores, its errors, and the pure
  checks and text routines it uses. The crates \<open>regex\<close> and \<open>regex_syntax\<close> are third-party:
  \<open>regex_api\<close> holds what is asked of them.
\<close>

section \<open>Jobs and incidents\<close>

datatype monitor_matcher = Contains rstring | RegexSource rstring

record monitor_match =
  mm_index :: nat
  mm_matcher :: monitor_matcher

datatype monitor_severity = SevInfo | SevWarning | SevError | SevCritical

datatype monitor_status = MonRunning | MonCompleted | MonStopped | MonFailed

record monitor_spec =
  sp_port :: rstring
  sp_matchers :: "monitor_matcher list"
  sp_start_cursor :: "cursor option"
  sp_severity :: monitor_severity
  sp_description :: "rstring option"
  sp_debounce_ms :: nat
  sp_cooldown_ms :: nat
  sp_duration_ms :: "nat option"

record monitor_view =
  mv_id :: uuid
  mv_revision :: nat
  mv_spec :: monitor_spec
  mv_status :: monitor_status
  mv_created_wall_time_ns :: int
  mv_started_wall_time_ns :: int
  mv_expires_wall_time_ns :: "int option"
  mv_stopped_wall_time_ns :: "int option"
  mv_current_cursor :: "cursor option"
  mv_incident_count :: nat
  mv_unacked_incident_count :: nat
  mv_gap_count :: nat
  mv_last_error :: "rstring option"

record create_monitor_request =
  cm_request_id :: uuid
  cm_spec :: monitor_spec

record update_monitor_request =
  um_spec :: monitor_spec
  um_expected_revision :: nat

record monitor_incident =
  mi_id :: uuid
  mi_incident_seq :: nat
  mi_monitor_id :: uuid
  mi_port :: rstring
  mi_epoch :: uuid
  mi_seq_start :: nat
  mi_seq_end :: nat
  mi_wall_time_start_ns :: int
  mi_wall_time_end_ns :: int
  mi_severity :: monitor_severity
  mi_description :: "rstring option"
  mi_matches :: "monitor_match list"
  mi_preview :: rstring
  mi_evidence_cursor :: cursor
  mi_evidence_ref :: rstring
  mi_created_wall_time_ns :: int
  mi_acked_wall_time_ns :: "int option"

record monitor_incident_page =
  mg_incidents :: "monitor_incident list"
  mg_next_cursor :: "nat option"
  mg_truncated :: bool
  mg_first_available :: "nat option"
  mg_retention_gap :: bool

section \<open>The stored catalog\<close>

record pending_incident =
  pi_epoch :: uuid
  pi_seq_start :: nat
  pi_seq_end :: nat
  pi_wall_time_start_ns :: int
  pi_wall_time_end_ns :: int
  pi_matches :: "monitor_match list"
  pi_preview :: rstring

record monitor_checkpoint =
  mk_cursor :: cursor
  mk_cooldown_until :: "int option"
  mk_pending :: "pending_incident option"

record monitor_state =
  mp_schema_version :: nat
  mp_monitors :: "(uuid, monitor_view) btree"
  mp_incidents :: "(uuid, monitor_incident list) btree"
  mp_checkpoints :: "(uuid, monitor_checkpoint) btree"

definition STATE_SCHEMA_VERSION :: nat where "STATE_SCHEMA_VERSION = 2"
definition MAX_STATE_FILE_BYTES :: nat where "MAX_STATE_FILE_BYTES = 64 * 1024 * 1024"
definition MAX_MONITORS :: nat where "MAX_MONITORS = 128"
definition MAX_ACTIVE_MONITORS :: nat where "MAX_ACTIVE_MONITORS = 64"
definition MAX_INCIDENTS_PER_MONITOR :: nat where "MAX_INCIDENTS_PER_MONITOR = 512"
definition MAX_INCIDENTS_TOTAL :: nat where "MAX_INCIDENTS_TOTAL = 1024"
definition MAX_DESCRIPTION_BYTES :: nat where "MAX_DESCRIPTION_BYTES = 1024"
definition MAX_PREVIEW_BYTES :: nat where "MAX_PREVIEW_BYTES = 1024"
definition MAX_MATCH_WINDOW_BYTES :: nat where "MAX_MATCH_WINDOW_BYTES = 64 * 1024"
definition MAX_DEBOUNCE_MS :: nat where "MAX_DEBOUNCE_MS = 60000"
definition MAX_COOLDOWN_MS :: nat where "MAX_COOLDOWN_MS = 24 * 60 * 60 * 1000"
definition MAX_DURATION_MS :: nat where "MAX_DURATION_MS = 30 * 24 * 60 * 60 * 1000"
definition MONITOR_DEFAULT_PAGE :: nat where "MONITOR_DEFAULT_PAGE = 100"
definition MONITOR_MAX_PAGE :: nat where "MONITOR_MAX_PAGE = 200"
definition MAX_MONITOR_MATCHERS :: nat where "MAX_MONITOR_MATCHERS = 16"
definition MAX_MONITOR_TOTAL_PATTERN_BYTES :: nat where "MAX_MONITOR_TOTAL_PATTERN_BYTES = 16384"

definition monitor_state_default :: monitor_state where
  "monitor_state_default =
     \<lparr>mp_schema_version = STATE_SCHEMA_VERSION, mp_monitors = bt_empty, mp_incidents = bt_empty,
      mp_checkpoints = bt_empty\<rparr>"

datatype monitor_error =
    MonNotFound uuid
  | MonUnknownSlot rstring
  | MonRequestIdReused uuid
  | MonRevisionMismatch nat nat
  | MonCapacity
  | MonActiveCapacity
  | MonInvalidSpec rstring
  | MonCursorAhead
  | MonInvalidState rstring
  | MonIo io_error
  | MonSerialization
  | MonRuntime rstring

section \<open>Text\<close>

text \<open>The longest prefix of whole characters within so many bytes.\<close>

fun char_prefix :: "nat \<Rightarrow> rstring \<Rightarrow> rstring" where
  "char_prefix n [] = []"
| "char_prefix n (c # s) = (if len_utf8 c \<le> n then c # char_prefix (n - len_utf8 c) s else [])"

definition truncate_text :: "rstring \<Rightarrow> nat \<Rightarrow> rstring" where
  "truncate_text value limit =
     (if str_len value \<le> limit then value else char_prefix limit value @ [0x2026])"

text \<open>
  \<open>String::from_utf8_lossy\<close> of the standard library: every maximal piece of an encoding that is not
  complete becomes one replacement character. \<open>utf8_step\<close> decodes at the first byte; the number is
  what it consumes.
\<close>

definition is_continuation :: "nat \<Rightarrow> bool" where
  "is_continuation b \<longleftrightarrow> 0x80 \<le> b \<and> b \<le> 0xBF"

definition utf8_width :: "nat \<Rightarrow> nat" where
  "utf8_width b =
     (if b < 0x80 then 1 else if 0xC2 \<le> b \<and> b \<le> 0xDF then 2 else if 0xE0 \<le> b \<and> b \<le> 0xEF then 3
      else if 0xF0 \<le> b \<and> b \<le> 0xF4 then 4 else 0)"

definition second_ok :: "nat \<Rightarrow> nat \<Rightarrow> bool" where
  "second_ok a b \<longleftrightarrow>
     (if a = 0xE0 then 0xA0 \<le> b \<and> b \<le> 0xBF else if a = 0xED then 0x80 \<le> b \<and> b \<le> 0x9F
      else if a = 0xF0 then 0x90 \<le> b \<and> b \<le> 0xBF else if a = 0xF4 then 0x80 \<le> b \<and> b \<le> 0x8F
      else is_continuation b)"

definition replacement :: rchar where "replacement = 0xFFFD"

text \<open>\<open>safe_get\<close>: past the end there is a zero, which continues nothing.\<close>

definition byte_or_zero :: "bytes \<Rightarrow> nat \<Rightarrow> nat" where
  "byte_or_zero bs i = (if i < length bs then unat (bs ! i) else 0)"

definition utf8_step :: "bytes \<Rightarrow> rchar \<times> nat" where
  "utf8_step bs =
     (let a = byte_or_zero bs 0; b = byte_or_zero bs 1; c = byte_or_zero bs 2; d = byte_or_zero bs 3;
          w = utf8_width a
      in if w = 1 then (a, 1)
         else if w = 0 \<or> \<not> second_ok a b then (replacement, 1)
         else if w = 2 then ((a - 0xC0) * 64 + (b - 0x80), 2)
         else if \<not> is_continuation c then (replacement, 2)
         else if w = 3 then ((a - 0xE0) * 4096 + (b - 0x80) * 64 + (c - 0x80), 3)
         else if \<not> is_continuation d then (replacement, 3)
         else ((a - 0xF0) * 262144 + (b - 0x80) * 4096 + (c - 0x80) * 64 + (d - 0x80), 4))"

function utf8_lossy :: "bytes \<Rightarrow> rstring" where
  "utf8_lossy [] = []"
| "utf8_lossy (b # bs) = (let (c, n) = utf8_step (b # bs) in c # utf8_lossy (drop (n - 1) bs))"
  by pat_completeness auto
termination by (relation "measure length") auto

fun sanitize_loop :: "rstring \<Rightarrow> rstring \<Rightarrow> rstring" where
  "sanitize_loop [] sanitized = sanitized"
| "sanitize_loop (c # text) sanitized =
     (if MAX_PREVIEW_BYTES \<le> str_len sanitized then sanitized
      else sanitize_loop text
        (if c = 13 then sanitized
         else if c = 10 \<or> c = 9 then sanitized @ [c]
         else if is_control c then sanitized @ [replacement]
         else sanitized @ [c]))"

definition sanitize_preview :: "bytes \<Rightarrow> rstring" where
  "sanitize_preview bs = truncate_text (sanitize_loop (utf8_lossy bs) []) MAX_PREVIEW_BYTES"

lemma str_len_char_prefix: "str_len (char_prefix n s) \<le> n"
  by (induction n s rule: char_prefix.induct) auto

lemma str_len_truncate: "str_len (truncate_text s n) \<le> n + 3"
  using str_len_char_prefix [of n s] by (auto simp: truncate_text_def len_utf8_def)

lemma truncate_text_short: "str_len s \<le> n \<Longrightarrow> truncate_text s n = s"
  by (simp add: truncate_text_def)

lemma str_len_sanitize: "str_len (sanitize_preview bs) \<le> MAX_PREVIEW_BYTES + 3"
  by (simp add: sanitize_preview_def str_len_truncate)

section \<open>Checking a specification\<close>

record 'c regex_api =
  rx_parse :: "rstring \<Rightarrow> rstring + 'c hir"
  rx_minimum_len :: "'c hir \<Rightarrow> nat option"
  rx_maximum_len :: "'c hir \<Rightarrow> nat option"
  rx_class_literal :: "'c \<Rightarrow> bytes option"
  rx_build :: "rstring \<Rightarrow> rstring + expression"

definition parse_regex_hir :: "'c regex_api \<Rightarrow> rstring \<Rightarrow> monitor_error + 'c hir" where
  "parse_regex_hir rx s =
     (case rx_parse rx s of
        Inl e \<Rightarrow> Inl (MonInvalidSpec (lit ''invalid regex: '' @ e))
      | Inr h \<Rightarrow>
          (case rx_minimum_len rx h of
             Some n \<Rightarrow>
               if n = 0 then Inl (MonInvalidSpec (lit ''regex must consume at least one byte for every match''))
               else Inr h
           | None \<Rightarrow> Inl (MonInvalidSpec (lit ''regex cannot match any byte sequence''))))"

definition build_regex :: "'c regex_api \<Rightarrow> rstring \<Rightarrow> monitor_error + expression" where
  "build_regex rx s = map_error (\<lambda>e. MonInvalidSpec (lit ''invalid regex: '' @ e)) (rx_build rx s)"

definition matcher_value :: "monitor_matcher \<Rightarrow> rstring" where
  "matcher_value m = (case m of Contains v \<Rightarrow> v | RegexSource v \<Rightarrow> v)"

definition check_matcher :: "'c regex_api \<Rightarrow> monitor_matcher \<Rightarrow> monitor_error + unit" where
  "check_matcher rx m =
     (if matcher_value m = [] \<or> str_len (matcher_value m) > MAX_MONITOR_PATTERN_BYTES
      then Inl (MonInvalidSpec (lit ''each matcher value must be non-empty and at most 4096 UTF-8 bytes''))
      else
        (case m of
           Contains _ \<Rightarrow> Inr ()
         | RegexSource s \<Rightarrow>
             sbind (parse_regex_hir rx s) (\<lambda>_. sbind (build_regex rx s) (\<lambda>_. Inr ()))))"

definition total_pattern_bytes :: "monitor_matcher list \<Rightarrow> nat" where
  "total_pattern_bytes ms = fold (\<lambda>m n. saturating_add_u64 n (str_len (matcher_value m))) ms 0"

definition validate_spec :: "'c regex_api \<Rightarrow> monitor_spec \<Rightarrow> monitor_error + unit" where
  "validate_spec rx spec =
     (if sp_port spec = [] \<or> str_len (sp_port spec) > 64 then Inl (MonInvalidSpec (lit ''invalid port''))
      else if sp_matchers spec = [] \<or> length (sp_matchers spec) > MAX_MONITOR_MATCHERS
      then Inl (MonInvalidSpec (lit ''matchers must contain 1-16 conditions''))
      else sbind (each_ok (check_matcher rx) (sp_matchers spec)) (\<lambda>_.
        if total_pattern_bytes (sp_matchers spec) > MAX_MONITOR_TOTAL_PATTERN_BYTES
        then Inl (MonInvalidSpec (lit ''matcher values exceed 16384 total UTF-8 bytes''))
        else if (case sp_description spec of None \<Rightarrow> False | Some v \<Rightarrow> str_len v > MAX_DESCRIPTION_BYTES)
        then Inl (MonInvalidSpec (lit ''description is too large''))
        else if sp_debounce_ms spec > MAX_DEBOUNCE_MS then Inl (MonInvalidSpec (lit ''debounce_ms is too large''))
        else if sp_cooldown_ms spec > MAX_COOLDOWN_MS then Inl (MonInvalidSpec (lit ''cooldown_ms is too large''))
        else if (case sp_duration_ms spec of None \<Rightarrow> False | Some v \<Rightarrow> v = 0 \<or> v > MAX_DURATION_MS)
        then Inl (MonInvalidSpec (lit ''duration_ms is out of range''))
        else Inr ()))"

definition resolve_start_cursor :: "monitor_spec \<Rightarrow> uuid \<Rightarrow> nat \<Rightarrow> monitor_error + cursor" where
  "resolve_start_cursor spec epoch head =
     (case sp_start_cursor spec of
        None \<Rightarrow> Inr \<lparr>cu_epoch = epoch, cu_after_seq = head\<rparr>
      | Some c \<Rightarrow> if cu_epoch c = epoch \<and> cu_after_seq c > head then Inl MonCursorAhead else Inr c)"

definition ms_to_ns :: "nat \<Rightarrow> int" where
  "ms_to_ns v = min (int (saturating_mul_u64 v 1000000)) I64_MAX"

definition duration_deadline :: "int \<Rightarrow> nat option \<Rightarrow> int option" where
  "duration_deadline now d = map_option (\<lambda>v. saturating_add_i64 now (ms_to_ns v)) d"

definition same_create_spec :: "monitor_spec \<Rightarrow> monitor_spec \<Rightarrow> bool" where
  "same_create_spec existing requested \<longleftrightarrow>
     (if sp_start_cursor requested = None then existing\<lparr>sp_start_cursor := None\<rparr> else existing) = requested"

text \<open>A specification with its cursor resolved is the same job.\<close>

lemma same_create_resolved:
  "resolve_start_cursor spec e h = Inr c \<Longrightarrow> same_create_spec (spec\<lparr>sp_start_cursor := Some c\<rparr>) spec"
  by (cases spec) (auto simp: same_create_spec_def resolve_start_cursor_def split: option.splits if_splits)

lemma validate_spec_cursor: "validate_spec rx (spec\<lparr>sp_start_cursor := c\<rparr>) = validate_spec rx spec"
  by (simp add: validate_spec_def)

text \<open>What a valid specification promises the matcher: every condition has something to look for.\<close>

lemma validate_spec_matchers:
  assumes "validate_spec rx spec = Inr u" "m \<in> set (sp_matchers spec)"
  shows "matcher_value m \<noteq> []" "str_len (matcher_value m) \<le> MAX_MONITOR_PATTERN_BYTES"
    "\<And>s. m = RegexSource s \<Longrightarrow> \<exists>h f. parse_regex_hir rx s = Inr h \<and> build_regex rx s = Inr f"
proof -
  have "each_ok (check_matcher rx) (sp_matchers spec) = Inr ()"
    using assms(1) by (auto simp: validate_spec_def res_simps split: if_splits)
  then have "check_matcher rx m = Inr ()" using assms(2) by (simp add: each_ok_Inr_iff)
  then show "matcher_value m \<noteq> []" "str_len (matcher_value m) \<le> MAX_MONITOR_PATTERN_BYTES"
    "\<And>s. m = RegexSource s \<Longrightarrow> \<exists>h f. parse_regex_hir rx s = Inr h \<and> build_regex rx s = Inr f"
    by (auto simp: check_matcher_def res_simps split: if_splits)
qed

section \<open>Lossy decoding\<close>

text \<open>A character is read back, whatever follows it.\<close>

lemma byte_nat [simp]: "n < 256 \<Longrightarrow> unat (word_of_nat n :: byte) = n"
  by (simp add: unat_of_nat take_bit_nat_eq_self)

lemma byte_or_zero_simps [simp]:
  "byte_or_zero (b # bs) 0 = unat b" "byte_or_zero (b # bs) (Suc i) = byte_or_zero bs i"
  "byte_or_zero (a # b # bs) 1 = unat b" "byte_or_zero (a # b # c # bs) 2 = unat c"
  "byte_or_zero (a # b # c # d # bs) 3 = unat d"
  by (simp_all add: byte_or_zero_def numeral_eq_Suc)

lemma utf8_step_2:
  assumes "q < 32" "2 \<le> q" "r < 64"
  shows "utf8_step (word_of_nat (0xC0 + q) # word_of_nat (0x80 + r) # bs) = (q * 64 + r, 2)"
  using assms
  by (simp add: utf8_step_def Let_def utf8_width_def second_ok_def is_continuation_def del: One_nat_def of_nat_add)

lemma utf8_step_3:
  assumes "p < 16" "q < 64" "r < 64" "p = 0 \<longrightarrow> 32 \<le> q" "p = 13 \<longrightarrow> q < 32"
  shows "utf8_step (word_of_nat (0xE0 + p) # word_of_nat (0x80 + q) # word_of_nat (0x80 + r) # bs) =
    (p * 4096 + q * 64 + r, 3)"
  using assms
  by (auto simp: utf8_step_def Let_def utf8_width_def second_ok_def is_continuation_def simp del: One_nat_def of_nat_add)

lemma utf8_step_4:
  assumes "n < 5" "p < 64" "q < 64" "r < 64" "n = 0 \<longrightarrow> 16 \<le> p" "n = 4 \<longrightarrow> p < 16"
  shows "utf8_step (word_of_nat (0xF0 + n) # word_of_nat (0x80 + p) # word_of_nat (0x80 + q) #
    word_of_nat (0x80 + r) # bs) = (n * 262144 + p * 4096 + q * 64 + r, 4)"
  using assms
  by (auto simp: utf8_step_def Let_def utf8_width_def second_ok_def is_continuation_def simp del: One_nat_def of_nat_add)

lemma utf8_step_char:
  assumes "is_scalar c"
  shows "utf8_step (utf8_char c @ bs) = (c, len_utf8 c)"
proof -
  have c: "c < 0x110000" "c < 0xD800 \<or> 0xDFFF < c" using assms by (auto simp: is_scalar_def)
  consider "c < 0x80" | "0x80 \<le> c" "c < 0x800" | "0x800 \<le> c" "c < 0x10000" | "0x10000 \<le> c"
    by linarith
  then show ?thesis
  proof cases
    case 1
    then show ?thesis by (simp add: utf8_step_def utf8_char_def utf8_width_def len_utf8_def)
  next
    case 2
    have "c div 64 * 64 + c mod 64 = c" by simp
    with 2 utf8_step_2 [of "c div 64" "c mod 64" bs] show ?thesis
      by (simp add: utf8_char_def len_utf8_def div_less_iff_less_mult less_eq_div_iff_mult_less_eq del: div_mult_mod_eq of_nat_add)
  next
    case 3
    have d: "c = 64 * (c div 64) + c mod 64" "c div 64 = 64 * (c div 4096) + c div 64 mod 64"
      using div_mult2_eq [of c 64 64] by simp_all
    then have "c div 4096 * 4096 + c div 64 mod 64 * 64 + c mod 64 = c" by linarith
    moreover have m: "c mod 64 < 64" "c div 64 mod 64 < 64" by simp_all
    moreover have "c div 4096 = 0 \<longrightarrow> 32 \<le> c div 64 mod 64" using 3 d m by linarith
    moreover have "c div 4096 = 13 \<longrightarrow> c div 64 mod 64 < 32" using c(2) d m by linarith
    moreover have "c div 4096 < 16" using 3 d m by linarith
    ultimately show ?thesis using 3 utf8_step_3 [of "c div 4096" "c div 64 mod 64" "c mod 64" bs]
      by (simp add: utf8_char_def len_utf8_def del: of_nat_add)
  next
    case 4
    have d: "c = 64 * (c div 64) + c mod 64" "c div 64 = 64 * (c div 4096) + c div 64 mod 64"
      "c div 4096 = 64 * (c div 262144) + c div 4096 mod 64"
      using div_mult2_eq [of c 64 64] div_mult2_eq [of c 4096 64] by simp_all
    then have "c div 262144 * 262144 + c div 4096 mod 64 * 4096 + c div 64 mod 64 * 64 + c mod 64 = c"
      by linarith
    moreover have m: "c mod 64 < 64" "c div 64 mod 64 < 64" "c div 4096 mod 64 < 64" by simp_all
    moreover have "c div 262144 = 0 \<longrightarrow> 16 \<le> c div 4096 mod 64" using 4 d m by linarith
    moreover have "c div 262144 = 4 \<longrightarrow> c div 4096 mod 64 < 16" using c(1) d m by linarith
    moreover have "c div 262144 < 5" using c(1) d m by linarith
    ultimately show ?thesis
      using 4 utf8_step_4 [of "c div 262144" "c div 4096 mod 64" "c div 64 mod 64" "c mod 64" bs]
      by (simp add: utf8_char_def len_utf8_def del: of_nat_add)
  qed
qed

lemma utf8_lossy_step: "bs \<noteq> [] \<Longrightarrow> utf8_lossy bs = fst (utf8_step bs) # utf8_lossy (drop (snd (utf8_step bs)) bs)"
  if "0 < snd (utf8_step bs)"
  using that by (cases bs) (auto simp: case_prod_beta drop_Cons')

text \<open>Text that is valid is not altered.\<close>

lemma utf8_lossy_append:
  "list_all is_scalar s \<Longrightarrow> utf8_lossy (utf8 s @ bs) = s @ utf8_lossy bs"
proof (induction s)
  case (Cons c s)
  have "utf8 (c # s) = utf8_char c @ utf8 s" by (simp add: utf8_def)
  moreover have "utf8_char c @ xs \<noteq> []" for xs using len_utf8_pos [of c] by (metis append_is_Nil_conv length_utf8_char less_numeral_extra(3) list.size(3))
  ultimately show ?case
    using Cons utf8_step_char [of c "utf8 s @ bs"] utf8_lossy_step [of "utf8_char c @ utf8 s @ bs"]
    by simp
qed (simp add: utf8_def)

lemma utf8_lossy_utf8: "list_all is_scalar s \<Longrightarrow> utf8_lossy (utf8 s) = s"
  using utf8_lossy_append [of s "[]"] by simp

end
