(* ===== verification/MonitorMatcher.thy ===== *)
theory MonitorMatcher
  imports MonitorTypes
begin

text \<open>
  The matcher of a monitor, \<open>StreamMatcher\<close> of \<open>crates/seriald/src/monitor.rs\<close>: a window of the
  receive stream, the chunks it came in, and per condition the offset from which the next match may
  begin. An empty literal, on which \<open>windows\<close> would panic, is never asked for: a valid
  specification has none (\<open>validate_spec_matchers\<close>) and the code tests the required literal first;
  here it is found nowhere.
\<close>

section \<open>Literals\<close>

definition find_literal :: "bytes \<Rightarrow> bytes \<Rightarrow> nat option" where
  "find_literal h n =
     (if n = [] then None
      else map_option fst (List.find (\<lambda>(i, window). window = n) (enumerate 0 (windows (length n) h))))"

definition find_next_literal :: "bytes \<Rightarrow> bytes \<Rightarrow> nat \<Rightarrow> nat option \<times> nat" where
  "find_next_literal h n search_at =
     (map_option (\<lambda>offset. search_at + offset) (find_literal (drop search_at h) n), length h - (length n - 1))"

definition occurs_at :: "bytes \<Rightarrow> bytes \<Rightarrow> nat \<Rightarrow> bool" where
  "occurs_at n h i \<longleftrightarrow> i + length n \<le> length h \<and> slice i (i + length n) h = n"

lemma enumerate_windows:
  "enumerate 0 (windows k h) = map (\<lambda>i. (i, slice i (i + k) h)) [0..<Suc (length h) - k]"
  by (simp add: windows_def enumerate_eq_zip zip_map2 zip_same_conv_map)

lemma find_literal_None: "n \<noteq> [] \<Longrightarrow> find_literal h n = None \<longleftrightarrow> (\<forall>i. \<not> occurs_at n h i)"
  by (auto simp: find_literal_def enumerate_windows find_None_iff occurs_at_def)

lemma find_literal_Some:
  "find_literal h n = Some i \<longleftrightarrow> n \<noteq> [] \<and> occurs_at n h i \<and> (\<forall>j < i. \<not> occurs_at n h j)"
proof (cases "n = []")
  case False
  have "find_literal h n = Some i \<longleftrightarrow>
      i < Suc (length h) - length n \<and> slice i (i + length n) h = n \<and> (\<forall>j < i. slice j (j + length n) h \<noteq> n)"
    (is "_ \<longleftrightarrow> ?first")
  proof
    assume "find_literal h n = Some i"
    then show ?first using False by (auto simp: find_literal_def enumerate_windows find_Some_iff)
  next
    assume f: ?first
    then have "List.find (\<lambda>(i, window). window = n)
        (map (\<lambda>i. (i, slice i (i + length n) h)) [0..<Suc (length h) - length n]) = Some (i, n)"
      unfolding find_Some_iff by (intro exI [of _ i]) (auto simp del: upt_Suc)
    then show "find_literal h n = Some i"
      using False by (simp add: find_literal_def enumerate_windows)
  qed
  with False show ?thesis by (auto simp: occurs_at_def)
qed (simp add: find_literal_def)

text \<open>The matches from an offset on: the ends of the run of them, and where the search stopped.\<close>

function find_literal_matches ::
  "bytes \<Rightarrow> bytes \<Rightarrow> nat \<Rightarrow> (nat \<times> nat) option \<Rightarrow> (nat \<times> nat) option \<times> nat" where
  "find_literal_matches h n search_at hit =
     (case find_literal (drop search_at h) n of
        None \<Rightarrow> (hit, search_at)
      | Some relative \<Rightarrow>
          find_literal_matches h n (search_at + relative + length n)
            (Some (case hit of
                     None \<Rightarrow> (search_at + relative, search_at + relative + length n)
                   | Some (first, _) \<Rightarrow> (first, search_at + relative + length n))))"
  by pat_completeness auto
termination
  by (relation "measure (\<lambda>(h, n, search_at, _). length h - search_at)")
    (auto simp: find_literal_Some occurs_at_def diff_less_mono2 simp flip: length_greater_0_conv)

declare find_literal_matches.simps [simp del]

section \<open>Expressions\<close>

partial_function (option) find_regex_loop ::
  "expression \<Rightarrow> bytes \<Rightarrow> nat \<Rightarrow> (nat \<times> nat) option \<Rightarrow> ((nat \<times> nat) option \<times> nat) option" where
  "find_regex_loop finder h search_at hit =
     (if search_at \<le> length h then
        (case finder h search_at of
           None \<Rightarrow> Some (hit, search_at)
         | Some (s, t) \<Rightarrow>
             if s = t then
               if t = length h then Some (hit, search_at)
               else find_regex_loop finder h (saturating_add_u64 t 1) hit
             else find_regex_loop finder h t
                    (Some (case hit of None \<Rightarrow> (s, t) | Some (first, _) \<Rightarrow> (first, t))))
      else Some (hit, search_at))"

text \<open>
  The search as the matcher uses it; \<open>find_regex_returns\<close> shows that the second case does not arise
  for a finder that keeps its contract.
\<close>

definition find_regex_matches :: "expression \<Rightarrow> bytes \<Rightarrow> nat \<Rightarrow> (nat \<times> nat) option \<times> nat" where
  "find_regex_matches finder h search_at =
     (case find_regex_loop finder h search_at None of Some r \<Rightarrow> r | None \<Rightarrow> (None, search_at))"

lemma find_regex_returns:
  assumes "finds_within finder" "length h < U64_MAX"
  shows "\<exists>r. find_regex_loop finder h search_at hit = Some r"
proof (induction "Suc (length h) - search_at" arbitrary: search_at hit rule: less_induct)
  case less
  show ?case
  proof (cases "search_at \<le> length h")
    case True
    show ?thesis
    proof (cases "finder h search_at")
      case None
      then show ?thesis by (simp add: find_regex_loop.simps)
    next
      case (Some st)
      obtain s t where st: "st = (s, t)" by (cases st)
      then have w: "search_at \<le> s" "s \<le> t" "t \<le> length h"
        using assms(1) Some by (auto simp: finds_within_def)
      then have "saturating_add_u64 t 1 = t + 1" using assms(2) by (simp add: saturating_add_u64_def)
      with less [of "t + 1"] less [of t] True Some st w show ?thesis
        by (simp add: find_regex_loop.simps [of finder h search_at])
    qed
  qed (simp add: find_regex_loop.simps)
qed

section \<open>Conditions\<close>

datatype compiled_matcher =
    CLiteral bytes
  | CRegex expression "nat option" bytes bytes

record condition =
  cn_matcher :: monitor_matcher
  cn_compiled :: compiled_matcher
  cn_search_after :: nat
  cn_required_search_after :: nat
  cn_pending_required_at :: "nat option"

definition relative_offset :: "nat \<Rightarrow> nat \<Rightarrow> nat \<Rightarrow> nat" where
  "relative_offset absolute base len = min (absolute - base) len"

definition refresh_required_literal :: "bytes \<Rightarrow> nat \<Rightarrow> bytes \<Rightarrow> nat \<Rightarrow> condition \<Rightarrow> condition" where
  "refresh_required_literal h base required minimum c =
     (let search_at = relative_offset (max (cn_required_search_after c) minimum) base (length h);
          (found, safe_start) = find_next_literal h required search_at
      in c\<lparr>cn_pending_required_at := map_option (saturating_add_u64 base) found,
           cn_required_search_after :=
             (case found of
                None \<Rightarrow> max (max (cn_required_search_after c) minimum) (saturating_add_u64 base safe_start)
              | Some start \<Rightarrow> saturating_add_u64 base (start + length required))\<rparr>)"

definition required_literal_ready :: "nat \<Rightarrow> bytes \<Rightarrow> nat \<Rightarrow> bytes \<Rightarrow> condition \<Rightarrow> bool \<times> condition" where
  "required_literal_ready search_after h base required c =
     (case cn_pending_required_at c of
        Some offset \<Rightarrow>
          if search_after \<le> offset \<and> base \<le> offset then (True, c)
          else (let c = refresh_required_literal h base required search_after c
                in (cn_pending_required_at c \<noteq> None, c))
      | None \<Rightarrow>
          (let c = refresh_required_literal h base required search_after c
           in (cn_pending_required_at c \<noteq> None, c)))"

text \<open>The offset from which an expression is searched next.\<close>

definition regex_search_after ::
  "nat option \<Rightarrow> bytes \<Rightarrow> bytes \<Rightarrow> nat \<Rightarrow> nat \<Rightarrow> nat \<Rightarrow> nat \<Rightarrow> nat" where
  "regex_search_after maximum_len literal_prefix h base search_at searched_through search_after =
     (let through = saturating_add_u64 base searched_through
      in case maximum_len of
           Some m \<Rightarrow> max through (saturating_add_u64 base (length h - (m - 1)))
         | None \<Rightarrow>
             if literal_prefix \<noteq> [] then
               (case find_next_literal h literal_prefix (max searched_through search_at) of
                  (None, safe_start) \<Rightarrow> max search_after (saturating_add_u64 base safe_start)
                | (Some start, _) \<Rightarrow> saturating_add_u64 base start)
             else max through search_after)"

definition forget_required :: "condition \<Rightarrow> condition" where
  "forget_required c =
     (case cn_pending_required_at c of
        Some offset \<Rightarrow> if offset < cn_search_after c then c\<lparr>cn_pending_required_at := None\<rparr> else c
      | None \<Rightarrow> c)"

definition keep_required :: "bytes \<Rightarrow> nat \<Rightarrow> bytes \<Rightarrow> condition \<Rightarrow> condition" where
  "keep_required h base required c =
     (if required = [] then c
      else
        (let c = forget_required c
         in if cn_pending_required_at c = None
            then refresh_required_literal h base required (cn_search_after c) c else c))"

definition scan_regex ::
  "expression \<Rightarrow> nat option \<Rightarrow> bytes \<Rightarrow> bytes \<Rightarrow> bytes \<Rightarrow> nat \<Rightarrow> condition \<Rightarrow> (nat \<times> nat) option \<times> condition" where
  "scan_regex finder maximum_len literal_prefix required h base c =
     (let search_at = relative_offset (cn_search_after c) base (length h);
          (ready, c) =
            (if maximum_len = None \<and> literal_prefix = [] \<and> required \<noteq> []
             then required_literal_ready (cn_search_after c) h base required c else (True, c))
      in if \<not> ready then (None, c)
         else
           (let (hit, searched_through) = find_regex_matches finder h search_at;
                c = c\<lparr>cn_search_after := regex_search_after maximum_len literal_prefix h base search_at
                        searched_through (cn_search_after c)\<rparr>
            in (hit, keep_required h base required c)))"

definition scan_literal :: "bytes \<Rightarrow> bytes \<Rightarrow> nat \<Rightarrow> condition \<Rightarrow> (nat \<times> nat) option \<times> condition" where
  "scan_literal n h base c =
     (let search_at = relative_offset (cn_search_after c) base (length h);
          (hit, searched_through) = find_literal_matches h n search_at None;
          suffix_start = length h - (length n - 1)
      in (hit, c\<lparr>cn_search_after := saturating_add_u64 base (max searched_through suffix_start)\<rparr>))"

definition scan_condition :: "bytes \<Rightarrow> nat \<Rightarrow> condition \<Rightarrow> (nat \<times> nat) option \<times> condition" where
  "scan_condition h base c =
     (case cn_compiled c of
        CLiteral n \<Rightarrow> scan_literal n h base c
      | CRegex finder maximum_len literal_prefix required \<Rightarrow>
          scan_regex finder maximum_len literal_prefix required h base c)"

section \<open>The matcher\<close>

record match_chunk =
  ck_end :: nat
  ck_seq :: nat
  ck_wall_time_ns :: int

record stream_matcher =
  sm_conditions :: "condition list"
  sm_bytes :: bytes
  sm_chunks :: "match_chunk list"
  sm_base_offset :: nat
  sm_next_offset :: nat

definition compile_matcher :: "'c regex_api \<Rightarrow> monitor_matcher \<Rightarrow> monitor_error + compiled_matcher" where
  "compile_matcher rx m =
     (case m of
        Contains literal \<Rightarrow> Inr (CLiteral (utf8 literal))
      | RegexSource s \<Rightarrow>
          sbind (parse_regex_hir rx s) (\<lambda>h.
            let analysis = analyze_regex_literals (rx_class_literal rx) h
            in sbind (build_regex rx s) (\<lambda>finder.
                 Inr (CRegex finder (rx_maximum_len rx h) (la_prefix analysis)
                        (case la_required analysis of None \<Rightarrow> [] | Some l \<Rightarrow> l)))))"

definition condition_new :: "monitor_matcher \<Rightarrow> compiled_matcher \<Rightarrow> condition" where
  "condition_new m compiled =
     \<lparr>cn_matcher = m, cn_compiled = compiled, cn_search_after = 0, cn_required_search_after = 0,
      cn_pending_required_at = None\<rparr>"

definition matcher_compile :: "'c regex_api \<Rightarrow> monitor_spec \<Rightarrow> monitor_error + stream_matcher" where
  "matcher_compile rx spec =
     sbind (map_ok (\<lambda>m. sbind (compile_matcher rx m) (\<lambda>compiled. Inr (condition_new m compiled)))
              (sp_matchers spec)) (\<lambda>cs.
       Inr \<lparr>sm_conditions = cs, sm_bytes = [], sm_chunks = [], sm_base_offset = 0, sm_next_offset = 0\<rparr>)"

definition condition_restart :: "nat \<Rightarrow> condition \<Rightarrow> condition" where
  "condition_restart offset c =
     c\<lparr>cn_search_after := offset, cn_required_search_after := offset, cn_pending_required_at := None\<rparr>"

definition matcher_reset :: "stream_matcher \<Rightarrow> stream_matcher" where
  "matcher_reset m =
     m\<lparr>sm_bytes := [], sm_chunks := [], sm_base_offset := sm_next_offset m,
       sm_conditions := map (condition_restart (sm_next_offset m)) (sm_conditions m)\<rparr>"

definition condition_trim :: "nat \<Rightarrow> condition \<Rightarrow> condition" where
  "condition_trim base c =
     c\<lparr>cn_search_after := max (cn_search_after c) base,
       cn_required_search_after := max (cn_required_search_after c) base,
       cn_pending_required_at :=
         (case cn_pending_required_at c of
            Some offset \<Rightarrow> if offset < base then None else Some offset
          | None \<Rightarrow> None)\<rparr>"

definition matcher_trim :: "stream_matcher \<Rightarrow> stream_matcher" where
  "matcher_trim m =
     (if length (sm_bytes m) \<le> MAX_MATCH_WINDOW_BYTES then m
      else
        (let remove = length (sm_bytes m) - MAX_MATCH_WINDOW_BYTES;
             base = saturating_add_u64 (sm_base_offset m) remove
         in m\<lparr>sm_bytes := drop remove (sm_bytes m), sm_base_offset := base,
              sm_conditions := map (condition_trim base) (sm_conditions m),
              sm_chunks := dropWhile (\<lambda>chunk. ck_end chunk \<le> base) (sm_chunks m)\<rparr>))"

definition incident_for ::
  "stream_matcher \<Rightarrow> nat \<Rightarrow> nat \<Rightarrow> monitor_match list \<Rightarrow> 'j timeline_event \<Rightarrow> pending_incident option" where
  "incident_for m start stop matches event =
     (let absolute_start = saturating_add_u64 (sm_base_offset m) start;
          absolute_end = saturating_add_u64 (sm_base_offset m) stop
      in map_option
           (\<lambda>first.
              let final = (case List.find (\<lambda>chunk. absolute_end \<le> ck_end chunk) (sm_chunks m) of
                             None \<Rightarrow> first | Some chunk \<Rightarrow> chunk);
                  preview_start = start - 128;
                  preview_end = min (stop + 128) (length (sm_bytes m))
              in \<lparr>pi_epoch = ev_epoch event, pi_seq_start = ck_seq first, pi_seq_end = ck_seq final,
                  pi_wall_time_start_ns = ck_wall_time_ns first, pi_wall_time_end_ns = ck_wall_time_ns final,
                  pi_matches = matches, pi_preview = sanitize_preview (slice preview_start preview_end (sm_bytes m))\<rparr>)
           (List.find (\<lambda>chunk. absolute_start < ck_end chunk) (sm_chunks m)))"

definition event_start :: "stream_matcher \<Rightarrow> 'j timeline_event \<Rightarrow> nat" where
  "event_start m e = (case ev_offset_start e of None \<Rightarrow> sm_next_offset m | Some n \<Rightarrow> n)"

definition event_end :: "stream_matcher \<Rightarrow> 'j timeline_event \<Rightarrow> nat" where
  "event_end m e =
     (case ev_offset_end e of None \<Rightarrow> saturating_add_u64 (event_start m e) (length (ev_data e)) | Some n \<Rightarrow> n)"

text \<open>The first part of \<open>push\<close>: the event joins the window, which begins anew after a break.\<close>

definition matcher_extend :: "'j timeline_event \<Rightarrow> stream_matcher \<Rightarrow> stream_matcher" where
  "matcher_extend e m =
     (let start = event_start m e;
          stop = event_end m e;
          m = (if sm_bytes m \<noteq> [] \<and> start \<noteq> sm_next_offset m
               then m\<lparr>sm_bytes := [], sm_chunks := [], sm_base_offset := start,
                      sm_conditions := map (condition_restart start) (sm_conditions m)\<rparr>
               else m);
          m = (if sm_bytes m = [] then m\<lparr>sm_base_offset := start\<rparr> else m)
      in m\<lparr>sm_bytes := sm_bytes m @ ev_data e,
           sm_chunks := sm_chunks m @ [\<lparr>ck_end = stop, ck_seq = ev_seq e, ck_wall_time_ns = ev_wall_time_ns e\<rparr>],
           sm_next_offset := stop\<rparr>)"

definition match_ranges :: "(nat \<times> nat) option list \<Rightarrow> condition list \<Rightarrow> (nat \<times> nat \<times> monitor_match) list" where
  "match_ranges ranges conditions =
     concat (map (\<lambda>(index, hit, c).
               case hit of
                 None \<Rightarrow> []
               | Some (start, stop) \<Rightarrow> [(start, stop, \<lparr>mm_index = index, mm_matcher = cn_matcher c\<rparr>)])
             (enumerate 0 (zip ranges conditions)))"

definition matcher_push :: "'j timeline_event \<Rightarrow> stream_matcher \<Rightarrow> pending_incident option \<times> stream_matcher" where
  "matcher_push e m =
     (if ev_data e = [] then (None, m)
      else
        (let m = matcher_extend e m;
             scanned = map (scan_condition (sm_bytes m) (sm_base_offset m)) (sm_conditions m);
             ranges = match_ranges (map fst scanned) (sm_conditions m);
             m = m\<lparr>sm_conditions := map snd scanned\<rparr>;
             incident =
               (if ranges = [] then None
                else incident_for m (Min (fst ` set ranges)) (Max ((fst \<circ> snd) ` set ranges))
                       (map (snd \<circ> snd) ranges) e)
         in (incident, matcher_trim m)))"

end
