(* ===== verification/MonitorMatcherProps.thy ===== *)
theory MonitorMatcherProps
  imports MonitorMatcher
begin

text \<open>
  The matcher's window against the whole stream: with literal conditions, what \<open>push\<close> reports event by
  event is what a search of the whole stream, from its beginning to the event, finds to be new. The
  reference \<open>stream_incident\<close> keeps every byte and knows no window, no trimming and no search offset.
\<close>

section \<open>Occurrences\<close>

text \<open>The occurrences of a literal that do not overlap, from left to right, from an offset on.\<close>

function occurrences :: "bytes \<Rightarrow> bytes \<Rightarrow> nat \<Rightarrow> nat list" where
  "occurrences n h p =
     (case find_literal (drop p h) n of
        None \<Rightarrow> []
      | Some r \<Rightarrow> (p + r) # occurrences n h (p + r + length n))"
  by pat_completeness auto
termination
  by (relation "measure (\<lambda>(n, h, p). length h - p)")
    (auto simp: find_literal_Some occurs_at_def diff_less_mono2 simp flip: length_greater_0_conv)

declare occurrences.simps [simp del]

definition run_of :: "nat \<Rightarrow> nat list \<Rightarrow> (nat \<times> nat) option \<Rightarrow> (nat \<times> nat) option" where
  "run_of k is hit =
     (if is = [] then hit else Some (case hit of None \<Rightarrow> hd is | Some (first, _) \<Rightarrow> first, last is + k))"

definition end_of :: "nat \<Rightarrow> nat list \<Rightarrow> nat \<Rightarrow> nat" where
  "end_of k is p = (if is = [] then p else last is + k)"

lemma matches_occurrences:
  "find_literal_matches h n p hit =
     (run_of (length n) (occurrences n h p) hit, end_of (length n) (occurrences n h p) p)"
proof (induction h n p hit rule: find_literal_matches.induct)
  case (1 h n p hit)
  show ?case
  proof (cases "find_literal (drop p h) n")
    case None
    then show ?thesis
      by (simp add: find_literal_matches.simps [of h n p] occurrences.simps [of n h p] run_of_def end_of_def)
  next
    case (Some r)
    with 1 show ?thesis
      by (simp add: find_literal_matches.simps [of h n p] occurrences.simps [of n h p] run_of_def end_of_def
          split: option.splits prod.splits)
  qed
qed

lemma occurs_drop: "n \<noteq> [] \<Longrightarrow> occurs_at n (drop p h) r \<longleftrightarrow> occurs_at n h (p + r)"
  by (cases "p \<le> length h") (auto simp: occurs_at_def slice_def add.commute add.assoc le_diff_conv2)

lemma first_Some:
  "find_literal (drop p h) n = Some r \<longleftrightarrow>
     n \<noteq> [] \<and> occurs_at n h (p + r) \<and> (\<forall>j. p \<le> j \<and> j < p + r \<longrightarrow> \<not> occurs_at n h j)"
  by (cases "n = []") (auto simp: find_literal_Some occurs_drop dest: le_Suc_ex)

lemma first_None: "n \<noteq> [] \<Longrightarrow> find_literal (drop p h) n = None \<longleftrightarrow> (\<forall>j \<ge> p. \<not> occurs_at n h j)"
  by (auto simp: find_literal_None occurs_drop dest: le_Suc_ex)

lemma occurrences_None [simp]: "find_literal (drop p h) n = None \<Longrightarrow> occurrences n h p = []"
  by (simp add: occurrences.simps [of n h p])

lemma occurrences_Some:
  "find_literal (drop p h) n = Some r \<Longrightarrow> occurrences n h p = (p + r) # occurrences n h (p + r + length n)"
  by (simp add: occurrences.simps [of n h p])

lemma occurrences_at: "i \<in> set (occurrences n h p) \<Longrightarrow> p \<le> i \<and> occurs_at n h i"
proof (induction n h p rule: occurrences.induct)
  case (1 n h p)
  show ?case
  proof (cases "find_literal (drop p h) n")
    case (Some r)
    with "1.prems" consider "i = p + r" | "i \<in> set (occurrences n h (p + r + length n))"
      by (auto simp: occurrences_Some)
    then show ?thesis
      using "1.IH" [OF Some] Some by cases (auto simp: first_Some)
  qed (use "1.prems" in simp)
qed

lemma occurrences_skip:
  assumes "n \<noteq> []" "p \<le> q" "\<And>j. p \<le> j \<Longrightarrow> j < q \<Longrightarrow> \<not> occurs_at n h j"
  shows "occurrences n h p = occurrences n h q"
proof (cases "find_literal (drop q h) n")
  case None
  then have "find_literal (drop p h) n = None"
    using assms by (auto simp: first_None) (meson not_le)
  with None show ?thesis by (simp add: occurrences.simps [of n h p] occurrences.simps [of n h q])
next
  case (Some r)
  then have "find_literal (drop p h) n = Some (q - p + r)"
    using assms by (auto simp: first_Some) (meson not_le)
  with Some assms(2) show ?thesis by (simp add: occurrences.simps [of n h p] occurrences.simps [of n h q])
qed

lemma occurs_append: "i + length n \<le> length s \<Longrightarrow> occurs_at n (s @ d) i \<longleftrightarrow> occurs_at n s i"
  by (auto simp: occurs_at_def)

lemma occurrences_append:
  assumes "n \<noteq> []"
  shows "occurrences n (s @ d) p =
    occurrences n s p @ occurrences n (s @ d) (max (end_of (length n) (occurrences n s p) p) (length s - (length n - 1)))"
  using assms
proof (induction n s p rule: occurrences.induct)
  case (1 n s p)
  show ?case
  proof (cases "find_literal (drop p s) n")
    case None
    have "\<not> occurs_at n (s @ d) j" if "p \<le> j" "j < max p (length s - (length n - 1))" for j
    proof -
      have "0 < length n" using "1.prems" by simp
      then have "j + length n \<le> length s" using that by linarith
      then show ?thesis using None that "1.prems" by (simp add: occurs_append first_None)
    qed
    then have "occurrences n (s @ d) p = occurrences n (s @ d) (max p (length s - (length n - 1)))"
      using "1.prems" by (intro occurrences_skip) auto
    with None show ?thesis by (simp add: end_of_def)
  next
    case (Some r)
    then have r: "p + r + length n \<le> length s" by (auto simp: first_Some occurs_at_def)
    then have "occurs_at n (s @ d) j \<longleftrightarrow> occurs_at n s j" if "j \<le> p + r" for j
      using that by (intro occurs_append) simp
    then have d: "find_literal (drop p (s @ d)) n = Some r"
      using Some unfolding first_Some by auto
    have "end_of (length n) (occurrences n s p) p =
        end_of (length n) (occurrences n s (p + r + length n)) (p + r + length n)"
      by (simp add: end_of_def occurrences_Some [OF Some])
    then show ?thesis
      using "1.IH" [OF Some "1.prems"] by (simp add: occurrences_Some [OF Some] occurrences_Some [OF d])
  qed
qed

lemma occurrences_drop:
  "n \<noteq> [] \<Longrightarrow> occurrences n (drop k h) p = map (\<lambda>i. i - k) (occurrences n h (p + k))"
proof (induction n "drop k h" p rule: occurrences.induct)
  case (1 n p)
  have eq: "find_literal (drop p (drop k h)) n = find_literal (drop (p + k) h) n" by simp
  show ?case
  proof (cases "find_literal (drop (p + k) h) n")
    case None
    with eq show ?thesis by simp
  next
    case (Some r)
    with eq have "find_literal (drop p (drop k h)) n = Some r" by simp
    from 1(1) [OF this "1.prems"] occurrences_Some [OF this] occurrences_Some [OF Some]
    show ?thesis by (simp add: ac_simps)
  qed
qed

section \<open>Where a search may resume\<close>

text \<open>A position from which the search of the stream misses and repeats nothing, whatever follows.\<close>

definition resumes :: "bytes \<Rightarrow> bytes \<Rightarrow> nat \<Rightarrow> bool" where
  "resumes n seen p \<longleftrightarrow>
     p \<le> length seen \<and> length seen < p + length n \<and>
     (\<forall>d. occurrences n (seen @ d) 0 = occurrences n seen 0 @ occurrences n (seen @ d) p)"

definition new_matches :: "bytes \<Rightarrow> bytes \<Rightarrow> bytes \<Rightarrow> nat list" where
  "new_matches n seen d = filter (\<lambda>i. length seen < i + length n) (occurrences n (seen @ d) 0)"

lemma resumes_Nil: "n \<noteq> [] \<Longrightarrow> resumes n [] 0"
proof -
  assume n: "n \<noteq> []"
  then have "occurrences n [] 0 = []" by (intro occurrences_None) (simp add: find_literal_None occurs_at_def)
  with n show ?thesis by (simp add: resumes_def)
qed

lemma resumes_new: "resumes n seen p \<Longrightarrow> new_matches n seen d = occurrences n (seen @ d) p"
proof -
  assume r: "resumes n seen p"
  have "filter (\<lambda>i. length seen < i + length n) (occurrences n seen 0) = []"
    by (auto simp: filter_empty_conv occurs_at_def dest!: occurrences_at)
  moreover have "filter (\<lambda>i. length seen < i + length n) (occurrences n (seen @ d) p) = occurrences n (seen @ d) p"
    using r by (auto simp: filter_id_conv resumes_def dest!: occurrences_at)
  ultimately show ?thesis using r by (simp add: resumes_def new_matches_def)
qed

lemma end_of_bounds:
  assumes "n \<noteq> []" "p \<le> length s"
  shows "p \<le> end_of (length n) (occurrences n s p) p" "end_of (length n) (occurrences n s p) p \<le> length s"
proof -
  have "occurrences n s p \<noteq> [] \<Longrightarrow> p \<le> last (occurrences n s p) \<and> last (occurrences n s p) + length n \<le> length s"
    using occurrences_at [OF last_in_set, of n s p] by (auto simp: occurs_at_def)
  then show "p \<le> end_of (length n) (occurrences n s p) p" "end_of (length n) (occurrences n s p) p \<le> length s"
    using assms by (auto simp: end_of_def)
qed

lemma resumes_step:
  assumes n: "n \<noteq> []" and r: "resumes n seen p"
  shows "resumes n (seen @ d)
    (max (end_of (length n) (occurrences n (seen @ d) p) p) (length (seen @ d) - (length n - 1)))"
proof -
  have p: "p \<le> length (seen @ d)" using r by (simp add: resumes_def)
  have len: "0 < length n" using n by simp
  have e: "occurrences n (seen @ d @ d') 0 = occurrences n seen 0 @ occurrences n (seen @ d @ d') p" for d'
    using r by (simp add: resumes_def)
  have "length (seen @ d) < length (seen @ d) - (length n - 1) + length n" using len by linarith
  then have "length (seen @ d) <
      max (end_of (length n) (occurrences n (seen @ d) p) p) (length (seen @ d) - (length n - 1)) + length n"
    by linarith
  then show ?thesis
    using end_of_bounds [OF n p] e e [of "[]"] occurrences_append [OF n, of "seen @ d" _ p]
    unfolding resumes_def by (auto simp del: length_append)
qed

section \<open>One condition\<close>

text \<open>The condition of a literal after a stream that began at an offset.\<close>

definition literal_at :: "nat \<Rightarrow> bytes \<Rightarrow> monitor_matcher \<Rightarrow> condition \<Rightarrow> bool" where
  "literal_at o1 seen m c \<longleftrightarrow>
     cn_matcher c = m \<and> cn_compiled c = CLiteral (utf8 (matcher_value m)) \<and>
     (if seen = [] then cn_search_after c \<le> o1
      else \<exists>p. cn_search_after c = o1 + p \<and> resumes (utf8 (matcher_value m)) seen p)"

definition shifted :: "nat \<Rightarrow> nat \<Rightarrow> nat list \<Rightarrow> (nat \<times> nat) option" where
  "shifted k len is = (case is of [] \<Rightarrow> None | i # _ \<Rightarrow> Some (i - k, last is + len - k))"

definition window_start :: "bytes \<Rightarrow> nat" where
  "window_start seen = length seen - MAX_MATCH_WINDOW_BYTES"

lemma scan_literal_window:
  assumes m: "literal_at o1 seen m c" and n: "n = utf8 (matcher_value m)" "n \<noteq> []" "length n + 128 \<le> MAX_MATCH_WINDOW_BYTES"
    and d: "d \<noteq> []" and k: "k = window_start seen" and b: "o1 + length (seen @ d) \<le> U64_MAX"
    and s: "scan_condition (drop k (seen @ d)) (o1 + k) c = (hit, c')"
  shows "hit = shifted k (length n) (new_matches n seen d)" "literal_at o1 (seen @ d) m c'"
    "\<And>i. i \<in> set (new_matches n seen d) \<Longrightarrow> k \<le> i \<and> (k = 0 \<or> k + 128 \<le> i)"
proof -
  obtain p where p: "resumes n seen p" "relative_offset (cn_search_after c) (o1 + k) (length (drop k (seen @ d))) = p - k"
    "k \<le> p"
  proof (cases "seen = []")
    case True
    with m resumes_Nil [OF n(2)] that [of 0] show ?thesis
      by (simp add: literal_at_def k window_start_def relative_offset_def)
  next
    case False
    with m n obtain p where q: "cn_search_after c = o1 + p" "resumes n seen p" by (auto simp: literal_at_def)
    moreover have "k \<le> p" "p \<le> length seen" using q n(3) by (auto simp: k window_start_def resumes_def)
    ultimately show ?thesis using that [of p] by (simp add: relative_offset_def)
  qed
  let ?is = "occurrences n (seen @ d) p"
  have new: "new_matches n seen d = ?is" by (rule resumes_new [OF p(1)])
  have dropped: "occurrences n (drop k (seen @ d)) (p - k) = map (\<lambda>i. i - k) ?is"
    using occurrences_drop [OF n(2), of k "seen @ d" "p - k"] p(3) by simp
  have ge: "p \<le> i" if "i \<in> set ?is" for i using occurrences_at [OF that] by simp
  have last: "?is \<noteq> [] \<Longrightarrow> p \<le> last ?is" by (rule ge) simp
  have eq: "cn_compiled c = CLiteral n" using m n(1) by (simp add: literal_at_def)
  have len: "0 < length n" using n(2) by simp
  have P: "p \<le> length seen" "length seen < p + length n" using p(1) by (auto simp: resumes_def)
  let ?e = "end_of (length n) ?is p"
  have e: "end_of (length n) (map (\<lambda>i. i - k) ?is) (p - k) = ?e - k"
    using last p(3) by (auto simp: end_of_def last_map)
  have h: "hit = run_of (length n) (map (\<lambda>i. i - k) ?is) None" and
    c': "c' = c\<lparr>cn_search_after := saturating_add_u64 (o1 + k) (max (?e - k) (length (drop k (seen @ d)) - (length n - 1)))\<rparr>"
    using s unfolding scan_condition_def eq scan_literal_def p(2) Let_def compiled_matcher.case
      matches_occurrences dropped e prod.case
    by (simp_all only: prod.inject)
  show "hit = shifted k (length n) (new_matches n seen d)"
    using last p(3) unfolding h new by (cases ?is) (auto simp: run_of_def shifted_def last_map)
  have bounds: "p \<le> ?e" "?e \<le> length (seen @ d)" using end_of_bounds [OF n(2), of p "seen @ d"] P by auto
  let ?q = "max ?e (length (seen @ d) - (length n - 1))"
  have "k + max (?e - k) (length (drop k (seen @ d)) - (length n - 1)) = ?q"
  proof -
    have "k \<le> ?e" "k \<le> length (seen @ d) - (length n - 1)"
      using bounds(1) p(3) n(3) by (auto simp: k window_start_def)
    then have "k + (?e - k) = ?e"
      "k + (length (drop k (seen @ d)) - (length n - 1)) = length (seen @ d) - (length n - 1)"
      unfolding length_drop by linarith+
    then show ?thesis by (simp only: nat_add_max_right)
  qed
  moreover have "o1 + ?q \<le> U64_MAX" using bounds(2) b by simp
  moreover have "saturating_add_u64 (o1 + k) x = o1 + (k + x)" if "o1 + (k + x) \<le> U64_MAX" for x
    using that by (simp add: saturating_add_u64_def)
  moreover have "cn_search_after (c\<lparr>cn_search_after := x\<rparr>) = x" for x by simp
  ultimately have after: "cn_search_after c' = o1 + ?q" by (simp only: c')
  have "cn_matcher c' = m \<and> cn_compiled c' = CLiteral (utf8 (matcher_value m))"
    using m by (simp add: literal_at_def c')
  then show "literal_at o1 (seen @ d) m c'"
    using d resumes_step [OF n(2) p(1), of d] after by (simp add: literal_at_def flip: n(1) del: length_append)
  show "k \<le> i \<and> (k = 0 \<or> k + 128 \<le> i)"
    if "i \<in> set (new_matches n seen d)" for i
    using ge [of i] that P p(3) n(3) by (auto simp: new k window_start_def)
qed

lemma literal_trim:
  assumes "literal_at o1 seen m c" "seen \<noteq> []" "base \<le> o1 + window_start seen"
    "str_len (matcher_value m) \<le> MAX_MATCH_WINDOW_BYTES"
  shows "literal_at o1 seen m (condition_trim base c)"
proof -
  obtain p where p: "cn_search_after c = o1 + p" "resumes (utf8 (matcher_value m)) seen p"
    using assms by (auto simp: literal_at_def)
  then have "window_start seen \<le> p" using assms(4) by (auto simp: resumes_def window_start_def)
  then have "max (o1 + p) base = o1 + p" using assms(3) by simp
  with assms p show ?thesis by (auto simp: literal_at_def condition_trim_def)
qed

section \<open>The reference\<close>

definition stream_bytes :: "'j timeline_event list \<Rightarrow> bytes" where
  "stream_bytes es = concat (map ev_data es)"

definition event_with_byte :: "'j timeline_event list \<Rightarrow> nat \<Rightarrow> 'j timeline_event option" where
  "event_with_byte es n = List.find (\<lambda>e. case ev_offset_end e of None \<Rightarrow> False | Some stop \<Rightarrow> n < stop) es"

text \<open>What a literal gains: the first byte of its first new occurrence, the end of its last.\<close>

definition literal_hits :: "bytes \<Rightarrow> bytes \<Rightarrow> nat \<times> monitor_matcher \<Rightarrow> (nat \<times> nat \<times> monitor_match) list" where
  "literal_hits seen d x =
     (case new_matches (utf8 (matcher_value (snd x))) seen d of
        [] \<Rightarrow> []
      | i # is \<Rightarrow>
          [(i, last (i # is) + str_len (matcher_value (snd x)), \<lparr>mm_index = fst x, mm_matcher = snd x\<rparr>)])"

definition stream_hits :: "monitor_matcher list \<Rightarrow> bytes \<Rightarrow> bytes \<Rightarrow> (nat \<times> nat \<times> monitor_match) list" where
  "stream_hits ms seen d = concat (map (literal_hits seen d) (enumerate 0 ms))"

text \<open>
  The incident of an event: over every literal that gained an occurrence, from the first byte of the
  first to the last byte of the last, in the whole stream the event continues.
\<close>

definition stream_incident ::
  "monitor_matcher list \<Rightarrow> 'j timeline_event list \<Rightarrow> 'j timeline_event \<Rightarrow> pending_incident option" where
  "stream_incident ms older e =
     (let hits = stream_hits ms (stream_bytes older) (ev_data e);
          es = older @ [e];
          stream = stream_bytes es;
          origin = (case ev_offset_start (hd es) of None \<Rightarrow> 0 | Some n \<Rightarrow> n);
          start = Min (fst ` set hits);
          stop = Max ((fst \<circ> snd) ` set hits)
      in if hits = [] then None
         else
           (case (event_with_byte es (origin + start), event_with_byte es (origin + stop - 1)) of
              (Some first, Some final) \<Rightarrow>
                Some \<lparr>pi_epoch = ev_epoch e, pi_seq_start = ev_seq first, pi_seq_end = ev_seq final,
                      pi_wall_time_start_ns = ev_wall_time_ns first, pi_wall_time_end_ns = ev_wall_time_ns final,
                      pi_matches = map (snd \<circ> snd) hits,
                      pi_preview = sanitize_preview (slice (start - 128) (min (stop + 128) (length stream)) stream)\<rparr>
            | _ \<Rightarrow> None))"

datatype 'j matcher_input = Feed "'j timeline_event" | Restart

fun matcher_run :: "'j matcher_input list \<Rightarrow> stream_matcher \<Rightarrow> pending_incident option list \<times> stream_matcher" where
  "matcher_run [] m = ([], m)"
| "matcher_run (Feed e # xs) m =
     (let (i, m) = matcher_push e m; (is, m) = matcher_run xs m in (i # is, m))"
| "matcher_run (Restart # xs) m = matcher_run xs (matcher_reset m)"

definition breaks_from :: "'j timeline_event list \<Rightarrow> 'j timeline_event \<Rightarrow> bool" where
  "breaks_from older e \<longleftrightarrow> older \<noteq> [] \<and> ev_offset_start e \<noteq> ev_offset_end (last older)"

fun stream_run :: "monitor_matcher list \<Rightarrow> 'j timeline_event list \<Rightarrow> 'j matcher_input list \<Rightarrow> pending_incident option list" where
  "stream_run ms older [] = []"
| "stream_run ms older (Feed e # xs) =
     (if ev_data e = [] then None # stream_run ms older xs
      else
        (let older = (if breaks_from older e then [] else older)
         in stream_incident ms older e # stream_run ms (older @ [e]) xs))"
| "stream_run ms older (Restart # xs) = stream_run ms [] xs"

text \<open>The offsets of a port's stream count its bytes and never go back.\<close>

fun offsets_advance :: "nat \<Rightarrow> 'j matcher_input list \<Rightarrow> bool" where
  "offsets_advance n [] = True"
| "offsets_advance n (Restart # xs) = offsets_advance n xs"
| "offsets_advance n (Feed e # xs) =
     (if ev_data e = [] then offsets_advance n xs
      else (\<exists>a. ev_offset_start e = Some a \<and> n \<le> a \<and> a + length (ev_data e) \<le> U64_MAX \<and>
              ev_offset_end e = Some (a + length (ev_data e)) \<and> offsets_advance (a + length (ev_data e)) xs))"

section \<open>The window is enough\<close>

definition chunk_of :: "'j timeline_event \<Rightarrow> match_chunk" where
  "chunk_of e =
     \<lparr>ck_end = (case ev_offset_end e of None \<Rightarrow> 0 | Some n \<Rightarrow> n), ck_seq = ev_seq e, ck_wall_time_ns = ev_wall_time_ns e\<rparr>"

fun contiguous_from :: "nat \<Rightarrow> 'j timeline_event list \<Rightarrow> bool" where
  "contiguous_from n [] = True"
| "contiguous_from n (e # es) =
     (ev_data e \<noteq> [] \<and> ev_offset_start e = Some n \<and> ev_offset_end e = Some (n + length (ev_data e)) \<and>
      contiguous_from (n + length (ev_data e)) es)"

lemma stream_bytes_simps [simp]:
  "stream_bytes [] = []" "stream_bytes (e # es) = ev_data e @ stream_bytes es"
  "stream_bytes (es @ fs) = stream_bytes es @ stream_bytes fs"
  by (simp_all add: stream_bytes_def)

lemma contiguous_append:
  "contiguous_from n (es @ fs) \<longleftrightarrow> contiguous_from n es \<and> contiguous_from (n + length (stream_bytes es)) fs"
  by (induction es arbitrary: n) (auto simp: add.assoc)

lemma contiguous_last:
  "contiguous_from n es \<Longrightarrow> es \<noteq> [] \<Longrightarrow> ev_offset_end (last es) = Some (n + length (stream_bytes es))"
  by (induction es arbitrary: n) (auto simp: add.assoc)

lemma contiguous_nonempty: "contiguous_from n es \<Longrightarrow> stream_bytes es = [] \<longleftrightarrow> es = []"
  by (cases es) auto

lemma find_map_chunk: "List.find P (map f xs) = map_option f (List.find (\<lambda>x. P (f x)) xs)"
  by (induction xs) auto

lemma find_dropWhile: "(\<And>x. Q x \<Longrightarrow> \<not> P x) \<Longrightarrow> List.find P (dropWhile Q xs) = List.find P xs"
  by (induction xs) auto

lemma dropWhile_twice: "(\<And>x. Q x \<Longrightarrow> P x) \<Longrightarrow> dropWhile P (dropWhile Q xs) = dropWhile P xs"
  by (induction xs) auto

lemma event_with_byte_found:
  assumes "contiguous_from o1 es" "o1 \<le> n" "n < o1 + length (stream_bytes es)"
  shows "\<exists>e. event_with_byte es n = Some e"
  using assms
proof (induction es arbitrary: o1)
  case (Cons e es)
  then show ?case by (auto simp: event_with_byte_def add.assoc)
qed (simp add: event_with_byte_def)

lemma find_chunk:
  assumes "contiguous_from o1 es" "base \<le> n"
  shows "List.find (\<lambda>chunk. n < ck_end chunk) (dropWhile (\<lambda>chunk. ck_end chunk \<le> base) (map chunk_of es)) =
    map_option chunk_of (event_with_byte es n)"
proof -
  have "List.find (\<lambda>chunk. n < ck_end chunk) (dropWhile (\<lambda>chunk. ck_end chunk \<le> base) (map chunk_of es)) =
      map_option chunk_of (List.find (\<lambda>e. n < ck_end (chunk_of e)) es)"
    using assms(2) by (subst find_dropWhile) (auto simp: find_map_chunk)
  also have "List.find (\<lambda>e. n < ck_end (chunk_of e)) es = event_with_byte es n"
    unfolding event_with_byte_def by (rule find_cong) (auto simp: chunk_of_def split: option.splits)
  finally show ?thesis .
qed

text \<open>The window at work: an event has joined it and the conditions are about to be scanned.\<close>

definition window_at ::
  "nat \<Rightarrow> monitor_matcher list \<Rightarrow> 'j timeline_event list \<Rightarrow> 'j timeline_event \<Rightarrow> stream_matcher \<Rightarrow> bool" where
  "window_at o1 ms older e m \<longleftrightarrow>
     contiguous_from o1 (older @ [e]) \<and> o1 + length (stream_bytes (older @ [e])) \<le> U64_MAX \<and>
     list_all2 (literal_at o1 (stream_bytes older)) ms (sm_conditions m) \<and>
     sm_next_offset m = o1 + length (stream_bytes (older @ [e])) \<and>
     sm_base_offset m = o1 + window_start (stream_bytes older) \<and>
     sm_bytes m = drop (window_start (stream_bytes older)) (stream_bytes (older @ [e])) \<and>
     sm_chunks m = dropWhile (\<lambda>chunk. ck_end chunk \<le> sm_base_offset m) (map chunk_of (older @ [e]))"

definition matcher_at :: "monitor_matcher list \<Rightarrow> 'j timeline_event list \<Rightarrow> stream_matcher \<Rightarrow> bool" where
  "matcher_at ms older m \<longleftrightarrow>
     (\<exists>o1. contiguous_from o1 older \<and>
        list_all2 (literal_at o1 (stream_bytes older)) ms (sm_conditions m) \<and>
        sm_next_offset m = o1 + length (stream_bytes older) \<and>
        sm_base_offset m = o1 + window_start (stream_bytes older) \<and>
        sm_bytes m = drop (window_start (stream_bytes older)) (stream_bytes older) \<and>
        sm_chunks m = dropWhile (\<lambda>chunk. ck_end chunk \<le> sm_base_offset m) (map chunk_of older))"

definition literals_ok :: "monitor_matcher list \<Rightarrow> bool" where
  "literals_ok ms \<longleftrightarrow>
     (\<forall>m \<in> set ms. utf8 (matcher_value m) \<noteq> [] \<and> str_len (matcher_value m) \<le> MAX_MONITOR_PATTERN_BYTES)"

lemma literal_restart:
  "literal_at o1 seen m c \<Longrightarrow> literal_at a [] m (condition_restart a c)"
  by (auto simp: literal_at_def condition_restart_def)

lemma literals_restart:
  "list_all2 (literal_at o1 seen) ms cs \<Longrightarrow> list_all2 (literal_at a []) ms (map (condition_restart a) cs)"
  by (auto simp: list_all2_map2 literal_restart elim!: list_all2_mono)

lemma matcher_at_reset:
  "matcher_at ms older m \<Longrightarrow> matcher_at ms [] (matcher_reset m)"
  by (auto simp: matcher_at_def matcher_reset_def window_start_def intro: literals_restart)

lemma extend_window:
  assumes m: "matcher_at ms older m" and d: "ev_data e \<noteq> []"
    and e: "ev_offset_start e = Some a" "sm_next_offset m \<le> a" "a + length (ev_data e) \<le> U64_MAX"
      "ev_offset_end e = Some (a + length (ev_data e))"
  shows "\<exists>o1. window_at o1 ms (if breaks_from older e then [] else older) e (matcher_extend e m)"
proof -
  obtain o1 where o1: "contiguous_from o1 older" "list_all2 (literal_at o1 (stream_bytes older)) ms (sm_conditions m)"
      "sm_next_offset m = o1 + length (stream_bytes older)"
      "sm_base_offset m = o1 + window_start (stream_bytes older)"
      "sm_bytes m = drop (window_start (stream_bytes older)) (stream_bytes older)"
      "sm_chunks m = dropWhile (\<lambda>chunk. ck_end chunk \<le> sm_base_offset m) (map chunk_of older)"
    using m by (auto simp: matcher_at_def)
  have empty: "sm_bytes m = [] \<longleftrightarrow> older = []"
  proof -
    have "length (stream_bytes older) \<le> window_start (stream_bytes older) \<longleftrightarrow> length (stream_bytes older) = 0"
      unfolding window_start_def MAX_MATCH_WINDOW_BYTES_def by linarith
    then show ?thesis using contiguous_nonempty [OF o1(1)] by (simp add: o1(5))
  qed
  have start: "event_start m e = a" "event_end m e = a + length (ev_data e)"
    using e by (simp_all add: event_start_def event_end_def)
  have chunk: "\<lparr>ck_end = a + length (ev_data e), ck_seq = ev_seq e, ck_wall_time_ns = ev_wall_time_ns e\<rparr> = chunk_of e"
    by (simp add: chunk_of_def e)
  consider (first) "older = []" | (break) "older \<noteq> []" "a \<noteq> sm_next_offset m" | (go) "older \<noteq> []" "a = sm_next_offset m"
    by blast
  then show ?thesis
  proof cases
    case first
    have "list_all2 (literal_at a []) ms (sm_conditions m)"
      using o1(2) e(2) first by (auto simp: literal_at_def o1(3) elim!: list_all2_mono)
    with first empty o1 e d start chunk show ?thesis
      by (intro exI [of _ a])
        (simp add: window_at_def matcher_extend_def breaks_from_def window_start_def Let_def chunk_of_def)
  next
    case break
    then have "breaks_from older e" using contiguous_last [OF o1(1)] e(1) by (simp add: breaks_from_def o1(3))
    with break empty o1 e d start chunk literals_restart [OF o1(2), of a] show ?thesis
      by (intro exI [of _ a])
        (simp add: window_at_def matcher_extend_def window_start_def Let_def chunk_of_def)
  next
    case go
    then have "\<not> breaks_from older e" using contiguous_last [OF o1(1)] e(1) by (simp add: breaks_from_def o1(3))
    moreover have "window_start (stream_bytes older) \<le> length (stream_bytes older)" by (simp add: window_start_def)
    ultimately show ?thesis
      using go empty o1 e d start chunk
      by (intro exI [of _ o1])
        (simp add: window_at_def matcher_extend_def Let_def chunk_of_def contiguous_append add.assoc dropWhile_append3)
  qed
qed

definition shift_hit :: "nat \<Rightarrow> nat \<times> nat \<times> 'm \<Rightarrow> nat \<times> nat \<times> 'm" where
  "shift_hit k = (\<lambda>(s, t, m). (s - k, t - k, m))"

lemma match_ranges_hits:
  assumes "list_all2 (\<lambda>m c. cn_matcher c = m \<and>
      f c = shifted k (str_len (matcher_value m)) (new_matches (utf8 (matcher_value m)) seen d)) ms cs"
  shows "match_ranges (map f cs) cs = map (shift_hit k) (stream_hits ms seen d)"
proof -
  have "concat (map (\<lambda>(index, hit, c).
            case hit of None \<Rightarrow> [] | Some (start, stop) \<Rightarrow> [(start, stop, \<lparr>mm_index = index, mm_matcher = cn_matcher c\<rparr>)])
          (enumerate j (zip (map f cs) cs))) =
        map (shift_hit k) (concat (map (literal_hits seen d) (enumerate j ms)))" for j
    using assms
    by (induction ms cs arbitrary: j) (auto simp: literal_hits_def shifted_def shift_hit_def split: list.splits)
  from this [of 0] show ?thesis by (simp add: match_ranges_def stream_hits_def)
qed

lemma stream_hits_bounds:
  assumes "(s, t, m) \<in> set (stream_hits ms seen d)"
  shows "\<exists>m' \<in> set ms. s \<in> set (new_matches (utf8 (matcher_value m')) seen d) \<and>
    s + length (utf8 (matcher_value m')) \<le> length (seen @ d) \<and> t \<le> length (seen @ d) \<and>
    (\<exists>i \<in> set (new_matches (utf8 (matcher_value m')) seen d). t = i + length (utf8 (matcher_value m')))"
proof -
  obtain x where x: "x \<in> set (enumerate 0 ms)" "(s, t, m) \<in> set (literal_hits seen d x)"
    using assms unfolding stream_hits_def set_concat set_map by blast
  obtain index m' where m': "x = (index, m')" by (cases x)
  obtain i "is" where h: "new_matches (utf8 (matcher_value m')) seen d = i # is"
    "s = i" "t = last (i # is) + str_len (matcher_value m')"
    using x(2) by (cases "new_matches (utf8 (matcher_value m')) seen d") (simp_all add: m' literal_hits_def)
  have ms: "m' \<in> set ms" using x(1) by (auto simp: m' in_set_enumerate_eq)
  have bound: "j + length (utf8 (matcher_value m')) \<le> length (seen @ d)" if "j \<in> set (i # is)" for j
  proof -
    have "j \<in> set (occurrences (utf8 (matcher_value m')) (seen @ d) 0)"
      using that unfolding h(1) [symmetric] new_matches_def by simp
    from occurrences_at [OF this] show ?thesis by (auto simp: occurs_at_def)
  qed
  have "last (i # is) \<in> set (i # is)" by (rule last_in_set) simp
  with bound [of i] bound [OF this] show ?thesis
    by (intro bexI [OF _ ms]) (auto simp: h simp del: last.simps intro!: bexI [of _ "last (i # is)"])
qed

lemma scan_window:
  assumes w: "window_at o1 ms older e m" and l: "literals_ok ms"
  defines "k \<equiv> window_start (stream_bytes older)"
  shows "list_all2 (\<lambda>m' c. cn_matcher c = m' \<and>
      fst (scan_condition (sm_bytes m) (sm_base_offset m) c) =
        shifted k (str_len (matcher_value m')) (new_matches (utf8 (matcher_value m')) (stream_bytes older) (ev_data e)))
      ms (sm_conditions m)" (is ?hits)
    and "list_all2 (literal_at o1 (stream_bytes (older @ [e]))) ms
      (map (snd \<circ> scan_condition (sm_bytes m) (sm_base_offset m)) (sm_conditions m))" (is ?next)
    and "\<And>s t m'. (s, t, m') \<in> set (stream_hits ms (stream_bytes older) (ev_data e)) \<Longrightarrow>
      k \<le> s \<and> k < t \<and> (k = 0 \<or> k + 128 \<le> s)"
proof -
  have d: "ev_data e \<noteq> []" using w by (simp add: window_at_def contiguous_append)
  have step: "cn_matcher c = m' \<and>
      fst (scan_condition (sm_bytes m) (sm_base_offset m) c) =
        shifted k (str_len (matcher_value m')) (new_matches (utf8 (matcher_value m')) (stream_bytes older) (ev_data e)) \<and>
      literal_at o1 (stream_bytes (older @ [e])) m' (snd (scan_condition (sm_bytes m) (sm_base_offset m) c)) \<and>
      (\<forall>i \<in> set (new_matches (utf8 (matcher_value m')) (stream_bytes older) (ev_data e)). k \<le> i \<and> (k = 0 \<or> k + 128 \<le> i))"
    if c: "literal_at o1 (stream_bytes older) m' c" and m': "m' \<in> set ms" for m' c
  proof -
    have n: "utf8 (matcher_value m') \<noteq> []" "length (utf8 (matcher_value m')) + 128 \<le> MAX_MATCH_WINDOW_BYTES"
      using l m' by (auto simp: literals_ok_def MAX_MONITOR_PATTERN_BYTES_def MAX_MATCH_WINDOW_BYTES_def)
    have b: "o1 + length (stream_bytes older @ ev_data e) \<le> U64_MAX"
      "scan_condition (drop k (stream_bytes older @ ev_data e)) (o1 + k) c =
         (fst (scan_condition (sm_bytes m) (sm_base_offset m) c), snd (scan_condition (sm_bytes m) (sm_base_offset m) c))"
      using w by (simp_all add: window_at_def k_def)
    note scan_literal_window [OF c refl n d k_def [THEN meta_eq_to_obj_eq] b]
    then show ?thesis using c by (auto simp: literal_at_def)
  qed
  have all: "list_all2 (\<lambda>m' c. literal_at o1 (stream_bytes older) m' c \<and> m' \<in> set ms) ms (sm_conditions m)"
    using w by (auto simp: window_at_def list_all2_conv_all_nth)
  show ?hits using all by (rule list_all2_mono) (use step in blast)
  show ?next using all unfolding list_all2_map2 by (rule list_all2_mono) (use step in auto)
  show "k \<le> s \<and> k < t \<and> (k = 0 \<or> k + 128 \<le> s)"
    if hit: "(s, t, m') \<in> set (stream_hits ms (stream_bytes older) (ev_data e))" for s t m'
  proof -
    obtain m' i where m': "m' \<in> set ms" "s \<in> set (new_matches (utf8 (matcher_value m')) (stream_bytes older) (ev_data e))"
      "i \<in> set (new_matches (utf8 (matcher_value m')) (stream_bytes older) (ev_data e))"
      "t = i + length (utf8 (matcher_value m'))"
      using stream_hits_bounds [OF hit] by blast
    from m'(1) obtain j where "j < length ms" "ms ! j = m'" by (auto simp: in_set_conv_nth)
    then have "literal_at o1 (stream_bytes older) m' (sm_conditions m ! j)"
      using list_all2_nthD [OF all] by blast
    from step [OF this m'(1)] m'(2,3) have "k \<le> s" "k = 0 \<or> k + 128 \<le> s" "k \<le> i" by blast+
    moreover have "0 < length (utf8 (matcher_value m'))"
      using l m'(1) unfolding literals_ok_def by (simp del: length_utf8)
    ultimately show ?thesis using m'(4) by simp
  qed
qed

lemma slice_shift: "k \<le> i \<Longrightarrow> slice (i - k) (j - k) (drop k xs) = slice i j xs"
  by (cases "i \<le> j") (simp_all add: slice_def)

lemma incident_for_conditions [simp]: "incident_for (m\<lparr>sm_conditions := cs\<rparr>) = incident_for m"
  by (intro ext) (simp add: incident_for_def)

lemma min_shift: "k \<le> a \<Longrightarrow> min (a - k + c) (b - k) = min (a + c) b - k" for a b c k :: nat
  by (auto simp: min_def)

lemma incident_of_window:
  assumes w: "window_at o1 ms older e m" and l: "literals_ok ms" and k: "k = window_start (stream_bytes older)"
    and hits: "hits = stream_hits ms (stream_bytes older) (ev_data e)" "hits \<noteq> []"
  shows "incident_for (m\<lparr>sm_conditions := cs\<rparr>) (Min (fst ` set (map (shift_hit k) hits)))
      (Max ((fst \<circ> snd) ` set (map (shift_hit k) hits))) (map (snd \<circ> snd) (map (shift_hit k) hits)) e =
    stream_incident ms older e"
proof -
  let ?es = "older @ [e]" and ?s = "Min (fst ` set hits)" and ?t = "Max ((fst \<circ> snd) ` set hits)"
  note b = scan_window(3) [OF w l, folded k hits(1)]
  have s: "Min (fst ` set (map (shift_hit k) hits)) = ?s - k"
  proof -
    have "fst ` set (map (shift_hit k) hits) = (\<lambda>x. x - k) ` (fst ` set hits)"
      by (force simp: shift_hit_def image_image)
    moreover have "Min ((\<lambda>x. x - k) ` (fst ` set hits)) = Min (fst ` set hits) - k"
      by (rule mono_Min_commute [symmetric]) (use hits(2) in \<open>auto intro: monoI\<close>)
    ultimately show ?thesis by (simp only:)
  qed
  have t: "Max ((fst \<circ> snd) ` set (map (shift_hit k) hits)) = ?t - k"
  proof -
    have "(fst \<circ> snd) ` set (map (shift_hit k) hits) = (\<lambda>x. x - k) ` ((fst \<circ> snd) ` set hits)"
      by (force simp: shift_hit_def image_image)
    moreover have "Max ((\<lambda>x. x - k) ` ((fst \<circ> snd) ` set hits)) = Max ((fst \<circ> snd) ` set hits) - k"
      by (rule mono_Max_commute [symmetric]) (use hits(2) in \<open>auto intro: monoI\<close>)
    ultimately show ?thesis by (simp only:)
  qed
  have ms: "map (snd \<circ> snd) (map (shift_hit k) hits) = map (snd \<circ> snd) hits"
    by (auto simp: shift_hit_def)
  have "?s \<in> fst ` set hits" "?t \<in> (fst \<circ> snd) ` set hits" using hits(2) by (auto intro: Min_in Max_in)
  then obtain x y where x: "x \<in> set hits" "?s = fst x" and y: "y \<in> set hits" "?t = fst (snd y)" by auto
  have S: "k \<le> ?s" "k = 0 \<or> k + 128 \<le> ?s" using b [of "fst x" "fst (snd x)" "snd (snd x)"] x by auto
  have T: "k \<le> ?t" "k < ?t" "0 < ?t" using b [of "fst y" "fst (snd y)" "snd (snd y)"] y by auto
  have len: "length (stream_bytes ?es) = length (stream_bytes older @ ev_data e)" by simp
  have "?s < length (stream_bytes ?es)"
  proof -
    obtain m' where "m' \<in> set ms" "fst x + length (utf8 (matcher_value m')) \<le> length (stream_bytes older @ ev_data e)"
      using stream_hits_bounds [of "fst x" "fst (snd x)" "snd (snd x)" ms "stream_bytes older" "ev_data e"] x(1) hits(1) by auto
    moreover from this have "0 < length (utf8 (matcher_value m'))"
      using l unfolding literals_ok_def by (simp del: length_utf8)
    ultimately show ?thesis using x(2) len by linarith
  qed
  moreover have "?t \<le> length (stream_bytes ?es)"
    using stream_hits_bounds [of "fst y" "fst (snd y)" "snd (snd y)" ms "stream_bytes older" "ev_data e"] y hits(1) len by auto
  moreover have c: "contiguous_from o1 ?es" "o1 + length (stream_bytes ?es) \<le> U64_MAX"
    using w unfolding window_at_def by blast+
  ultimately obtain first final where f: "event_with_byte ?es (o1 + ?s) = Some first"
    "event_with_byte ?es (o1 + ?t - 1) = Some final"
    using event_with_byte_found [OF c(1), of "o1 + ?s"] event_with_byte_found [OF c(1), of "o1 + ?t - 1"] T
    by fastforce
  have origin: "(case ev_offset_start (hd ?es) of None \<Rightarrow> 0 | Some n \<Rightarrow> n) = o1"
    using c(1) by (cases older) auto
  have chunks: "sm_chunks m = dropWhile (\<lambda>chunk. ck_end chunk \<le> o1 + k) (map chunk_of ?es)"
    "sm_base_offset m = o1 + k" "sm_bytes m = drop k (stream_bytes ?es)"
    using w by (auto simp: window_at_def k)
  have abs: "saturating_add_u64 (o1 + k) (?s - k) = o1 + ?s" "saturating_add_u64 (o1 + k) (?t - k) = o1 + ?t"
    using S T c(2) \<open>?s < length (stream_bytes ?es)\<close> \<open>?t \<le> length (stream_bytes ?es)\<close>
    by (auto simp: saturating_add_u64_def)
  have le: "(\<lambda>chunk. o1 + ?t \<le> ck_end chunk) = (\<lambda>chunk. o1 + ?t - 1 < ck_end chunk)"
    using T(3) by auto
  have preview: "slice (?s - k - 128) (min (?t - k + 128) (length (drop k (stream_bytes ?es)))) (drop k (stream_bytes ?es)) =
      slice (?s - 128) (min (?t + 128) (length (stream_bytes ?es))) (stream_bytes ?es)"
  proof -
    have e: "min (?t - k + 128) (length (drop k (stream_bytes ?es))) = min (?t + 128) (length (stream_bytes ?es)) - k"
      unfolding length_drop by (rule min_shift [OF T(1)])
    have c: "?s - k - 128 = ?s - 128 - k" by (rule diff_commute)
    have "k \<le> ?s - 128" using S(2) by (auto simp: le_diff_conv2)
    from slice_shift [OF this] show ?thesis unfolding e c .
  qed
  have le_s: "o1 + k \<le> o1 + ?s" using S(1) by simp
  have le_t: "o1 + k \<le> o1 + ?t - 1"
    using T(2) by linarith
  have "incident_for m (?s - k) (?t - k) (map (snd \<circ> snd) hits) e =
      Some \<lparr>pi_epoch = ev_epoch e, pi_seq_start = ev_seq first, pi_seq_end = ev_seq final,
        pi_wall_time_start_ns = ev_wall_time_ns first, pi_wall_time_end_ns = ev_wall_time_ns final,
        pi_matches = map (snd \<circ> snd) hits,
        pi_preview = sanitize_preview (slice (?s - 128) (min (?t + 128) (length (stream_bytes ?es))) (stream_bytes ?es))\<rparr>"
    unfolding incident_for_def chunks abs le Let_def preview find_chunk [OF c(1) le_s] find_chunk [OF c(1) le_t] f
    by (simp add: chunk_of_def)
  moreover have "stream_incident ms older e = \<dots>"
    unfolding stream_incident_def Let_def origin hits(1) [symmetric] using hits(2) f by simp
  ultimately show ?thesis unfolding s t ms by simp
qed

lemma trim_window:
  assumes w: "window_at o1 ms older e m" and l: "literals_ok ms"
    and cs: "list_all2 (literal_at o1 (stream_bytes (older @ [e]))) ms cs"
  shows "matcher_at ms (older @ [e]) (matcher_trim (m\<lparr>sm_conditions := cs\<rparr>))"
    and "sm_next_offset (matcher_trim (m\<lparr>sm_conditions := cs\<rparr>)) = sm_next_offset m"
proof -
  let ?seen = "stream_bytes older" and ?s = "stream_bytes (older @ [e])"
  let ?m = "m\<lparr>sm_conditions := cs\<rparr>"
  have m: "contiguous_from o1 (older @ [e])" "o1 + length ?s \<le> U64_MAX" "sm_next_offset m = o1 + length ?s"
    "sm_base_offset m = o1 + window_start ?seen" "sm_bytes m = drop (window_start ?seen) ?s"
    "sm_chunks m = dropWhile (\<lambda>chunk. ck_end chunk \<le> sm_base_offset m) (map chunk_of (older @ [e]))"
    using w unfolding window_at_def by blast+
  have len: "length ?s = length ?seen + length (ev_data e)" "0 < length (ev_data e)"
    using m(1) by (auto simp: contiguous_append)
  show "sm_next_offset (matcher_trim ?m) = sm_next_offset m" by (simp add: matcher_trim_def Let_def)
  show "matcher_at ms (older @ [e]) (matcher_trim ?m)"
  proof (cases "length (sm_bytes m) \<le> MAX_MATCH_WINDOW_BYTES")
    case True
    then have "length ?s - (length ?seen - MAX_MATCH_WINDOW_BYTES) \<le> MAX_MATCH_WINDOW_BYTES"
      by (simp only: m(5) window_start_def length_drop)
    then have "window_start ?s = 0" "window_start ?seen = 0" using len unfolding window_start_def by linarith+
    with True m cs show ?thesis
      unfolding matcher_at_def matcher_trim_def by (intro exI [of _ o1]) simp
  next
    case False
    let ?k = "window_start ?seen" and ?r = "length (sm_bytes m) - MAX_MATCH_WINDOW_BYTES"
    have r: "?k + ?r = window_start ?s" using False len by (auto simp: m(5) window_start_def)
    have "window_start ?s \<le> length ?s" by (simp add: window_start_def)
    then have "o1 + window_start ?s \<le> U64_MAX" using m(2) by linarith
    then have base: "saturating_add_u64 (sm_base_offset m) ?r = o1 + window_start ?s"
      unfolding saturating_add_u64_def m(4) r [symmetric] by simp
    have "list_all2 (\<lambda>m' c. literal_at o1 ?s m' c \<and> m' \<in> set ms) ms cs"
      using cs by (auto simp: list_all2_conv_all_nth)
    then have "list_all2 (literal_at o1 ?s) ms (map (condition_trim (o1 + window_start ?s)) cs)"
      unfolding list_all2_map2
    proof (rule list_all2_mono)
      fix m' c
      assume c: "literal_at o1 ?s m' c \<and> m' \<in> set ms"
      have "?s \<noteq> []" using len by auto
      with c l show "literal_at o1 ?s m' (condition_trim (o1 + window_start ?s) c)"
        by (intro literal_trim) (auto simp: literals_ok_def MAX_MONITOR_PATTERN_BYTES_def MAX_MATCH_WINDOW_BYTES_def)
    qed
    moreover have "drop ?r (sm_bytes m) = drop (window_start ?s) ?s"
      unfolding m(5) drop_drop r [symmetric] by (simp add: add.commute)
    moreover have "dropWhile (\<lambda>chunk. ck_end chunk \<le> o1 + window_start ?s) (sm_chunks m) =
        dropWhile (\<lambda>chunk. ck_end chunk \<le> o1 + window_start ?s) (map chunk_of (older @ [e]))"
      unfolding m(6) using r by (intro dropWhile_twice) (simp add: m(4))
    ultimately show ?thesis
      using False m(1,3) base unfolding matcher_at_def matcher_trim_def Let_def
      by (intro exI [of _ o1]) simp
  qed
qed

lemma push_exact:
  assumes m: "matcher_at ms older m" and l: "literals_ok ms" and d: "ev_data e \<noteq> []"
    and e: "ev_offset_start e = Some a" "sm_next_offset m \<le> a" "a + length (ev_data e) \<le> U64_MAX"
      "ev_offset_end e = Some (a + length (ev_data e))"
    and older': "older' = (if breaks_from older e then [] else older)"
  shows "fst (matcher_push e m) = stream_incident ms older' e"
    and "matcher_at ms (older' @ [e]) (snd (matcher_push e m))"
    and "sm_next_offset (snd (matcher_push e m)) = a + length (ev_data e)"
proof -
  obtain o1 where w: "window_at o1 ms older' e (matcher_extend e m)"
    using extend_window [OF m d e] unfolding older' by blast
  let ?m = "matcher_extend e m" and ?k = "window_start (stream_bytes older')"
    and ?hits = "stream_hits ms (stream_bytes older') (ev_data e)"
  let ?cs = "map (snd \<circ> scan_condition (sm_bytes ?m) (sm_base_offset ?m)) (sm_conditions ?m)"
  have "match_ranges (map (\<lambda>c. fst (scan_condition (sm_bytes ?m) (sm_base_offset ?m) c)) (sm_conditions ?m)) (sm_conditions ?m) =
      map (shift_hit ?k) ?hits"
    by (rule match_ranges_hits [OF scan_window(1) [OF w l]])
  then have push: "matcher_push e m =
      (if ?hits = [] then None
       else incident_for (?m\<lparr>sm_conditions := ?cs\<rparr>) (Min (fst ` set (map (shift_hit ?k) ?hits)))
         (Max ((fst \<circ> snd) ` set (map (shift_hit ?k) ?hits))) (map (snd \<circ> snd) (map (shift_hit ?k) ?hits)) e,
       matcher_trim (?m\<lparr>sm_conditions := ?cs\<rparr>))"
    using d by (simp add: matcher_push_def Let_def comp_def)
  show "fst (matcher_push e m) = stream_incident ms older' e"
  proof (cases "?hits = []")
    case True
    then show ?thesis by (simp add: push stream_incident_def)
  next
    case False
    then show ?thesis
      unfolding push fst_conv if_not_P [OF False] by (intro incident_of_window [OF w l refl refl])
  qed
  show "matcher_at ms (older' @ [e]) (snd (matcher_push e m))"
    unfolding push snd_conv by (rule trim_window(1) [OF w l scan_window(2) [OF w l]])
  have "sm_next_offset ?m = a + length (ev_data e)"
    by (simp add: matcher_extend_def Let_def event_end_def e)
  then show "sm_next_offset (snd (matcher_push e m)) = a + length (ev_data e)"
    unfolding push snd_conv using trim_window(2) [OF w l scan_window(2) [OF w l]] by simp
qed

theorem matcher_run_exact:
  "matcher_at ms older m \<Longrightarrow> literals_ok ms \<Longrightarrow> offsets_advance (sm_next_offset m) xs \<Longrightarrow>
   fst (matcher_run xs m) = stream_run ms older xs"
proof (induction ms older xs arbitrary: m rule: stream_run.induct)
  case (2 ms older e xs)
  show ?case
  proof (cases "ev_data e = []")
    case True
    with 2 show ?thesis by (simp add: matcher_push_def case_prod_beta)
  next
    case False
    then obtain a where a: "ev_offset_start e = Some a" "sm_next_offset m \<le> a" "a + length (ev_data e) \<le> U64_MAX"
      "ev_offset_end e = Some (a + length (ev_data e))" "offsets_advance (a + length (ev_data e)) xs"
      using "2.prems"(3) by auto
    note p = push_exact [OF "2.prems"(1,2) False a(1-4) refl]
    show ?thesis
      using "2.IH"(2) [OF False refl p(2) "2.prems"(2)] p a(5) False by (simp add: Let_def case_prod_beta)
  qed
next
  case (3 ms older xs)
  have "sm_next_offset (matcher_reset m) = sm_next_offset m" by (simp add: matcher_reset_def)
  with "3.prems" show ?case using "3.IH" [OF matcher_at_reset [OF "3.prems"(1)]] by simp
qed simp

lemma compile_matcher_at:
  assumes "validate_spec rx spec = Inr u" "\<forall>m \<in> set (sp_matchers spec). \<exists>v. m = Contains v"
    and "matcher_compile rx spec = Inr m"
  shows "matcher_at (sp_matchers spec) [] m" "literals_ok (sp_matchers spec)" "sm_next_offset m = 0"
proof -
  obtain cs where cs: "map_ok (\<lambda>m. sbind (compile_matcher rx m) (\<lambda>compiled. Inr (condition_new m compiled))) (sp_matchers spec) = Inr cs"
    and m: "m = \<lparr>sm_conditions = cs, sm_bytes = [], sm_chunks = [], sm_base_offset = 0, sm_next_offset = 0\<rparr>"
    using assms(3) by (auto simp: matcher_compile_def res_simps)
  have "list_all2 (\<lambda>m c. \<exists>compiled. compile_matcher rx m = Inr compiled \<and> c = condition_new m compiled \<and> m \<in> set (sp_matchers spec))
      (sp_matchers spec) cs"
    using cs by (auto simp: map_ok_Inr_iff res_simps list_all2_conv_all_nth)
  then have "list_all2 (literal_at 0 []) (sp_matchers spec) cs"
    by (rule list_all2_mono)
      (use assms(2) in \<open>fastforce simp: compile_matcher_def literal_at_def condition_new_def matcher_value_def\<close>)
  then show "matcher_at (sp_matchers spec) [] m" "sm_next_offset m = 0"
    by (auto simp: matcher_at_def m window_start_def)
  have "utf8 v \<noteq> []" if "v \<noteq> []" for v
  proof -
    have "0 < length (utf8 v)" using that str_len_zero_iff [of v] by (simp del: str_len_zero_iff)
    then show ?thesis by (metis length_greater_0_conv)
  qed
  then show "literals_ok (sp_matchers spec)"
    using validate_spec_matchers(1,2) [OF assms(1)] by (auto simp: literals_ok_def)
qed

end
