(* ===== verification/MonitorStore.thy ===== *)
theory MonitorStore
  imports MonitorTypes "HOL-Library.Option_ord"
begin

text \<open>
  \<open>MonitorManager\<close> of \<open>crates/seriald/src/monitor.rs\<close>: the catalog of monitor jobs, their incidents and
  checkpoints, and the operations on it. Every operation that changes the catalog runs under the
  mutation lock and is one step; \<open>update\<close> also reads before it takes the lock, so its two halves are
  definitions of their own. The handles of the worker tasks are part of the state; that a cancelled
  task is awaited is not modelled, what it still does are steps of its own.
\<close>

section \<open>Parameters and state\<close>

record 'c monitor_env =
  me_rx :: "'c regex_api"
  me_state :: "monitor_state codec"
  me_header :: "nat codec"
  me_uuid_text :: "uuid \<Rightarrow> rstring"
  me_server_id :: uuid
  me_path :: path

text \<open>What one operation gets from outside: the answers of the system, the time, a fresh identifier.\<close>

record mon_call =
  mc_os :: os
  mc_now :: int
  mc_uuid :: uuid

record worker_handle =
  wh_token :: uuid
  wh_revision :: nat
  wh_started :: bool

record monitor_daemon =
  md_state :: monitor_state
  md_files :: files
  md_workers :: "(uuid, worker_handle) btree"
  md_shutdown :: bool

definition monitor_error_text :: "('c, 'z) monitor_env_scheme \<Rightarrow> monitor_error \<Rightarrow> rstring" where
  "monitor_error_text env e =
     (case e of
        MonNotFound i \<Rightarrow> lit ''Monitor Job '' @ me_uuid_text env i @ lit '' was not found''
      | MonUnknownSlot p \<Rightarrow> lit ''unknown port '' @ p
      | MonRequestIdReused i \<Rightarrow>
          lit ''Monitor request_id '' @ me_uuid_text env i @ lit '' was reused with a different specification''
      | MonRevisionMismatch expected actual \<Rightarrow>
          lit ''Monitor revision mismatch (expected '' @ digits_of expected @ lit '', current '' @
          digits_of actual @ lit '')''
      | MonCapacity \<Rightarrow> lit ''Monitor capacity is exhausted (maximum 128 retained Jobs)''
      | MonActiveCapacity \<Rightarrow> lit ''active Monitor capacity is exhausted (maximum 64)''
      | MonInvalidSpec t \<Rightarrow> lit ''invalid Monitor specification: '' @ t
      | MonCursorAhead \<Rightarrow> lit ''Monitor cursor is ahead of the current port timeline''
      | MonInvalidState t \<Rightarrow> lit ''Monitor state is corrupt or incompatible: '' @ t
      | MonIo io \<Rightarrow> lit ''Monitor state I/O failed: '' @ io_text io
      | MonSerialization \<Rightarrow> lit ''Monitor state serialization failed''
      | MonRuntime t \<Rightarrow> lit ''Monitor task failed: '' @ t)"

section \<open>Persistence\<close>

definition persist ::
  "('c, 'z) monitor_env_scheme \<Rightarrow> os \<Rightarrow> monitor_state \<Rightarrow> files \<Rightarrow> ((monitor_error + unit) \<times> files) option" where
  "persist env os s fs =
     (case encode_json (me_state env) s of
        Inl _ \<Rightarrow> Some (Inl MonSerialization, fs)
      | Inr encoded \<Rightarrow>
          if length encoded > MAX_STATE_FILE_BYTES
          then Some (Inl (MonInvalidState (lit ''encoded state exceeds 67108864 bytes'')), fs)
          else
            (case atomic_write os (me_path env) encoded fs of
               None \<Rightarrow> None
             | Some (Inl e, fs) \<Rightarrow> Some (Inl (MonIo e), fs)
             | Some (Inr _, fs) \<Rightarrow> Some (Inr (), fs)))"

text \<open>
  \<open>mutate_and_persist\<close>: an error of the change itself is returned at once, with whatever the change
  had done; a failed write restores the state before.
\<close>

definition mutate_and_persist ::
  "('c, 'z) monitor_env_scheme \<Rightarrow> os \<Rightarrow> (monitor_state \<Rightarrow> (monitor_error + 'a) \<times> monitor_state) \<Rightarrow>
   monitor_daemon \<Rightarrow> ((monitor_error + 'a) \<times> monitor_daemon) option" where
  "mutate_and_persist env os mutate d =
     (case mutate (md_state d) of
        (Inl e, s) \<Rightarrow> Some (Inl e, d\<lparr>md_state := s\<rparr>)
      | (Inr v, s) \<Rightarrow>
          (case persist env os s (md_files d) of
             None \<Rightarrow> None
           | Some (Inl e, fs) \<Rightarrow> Some (Inl e, d\<lparr>md_files := fs\<rparr>)
           | Some (Inr _, fs) \<Rightarrow> Some (Inr v, d\<lparr>md_state := s, md_files := fs\<rparr>)))"

definition load_state :: "('c, 'z) monitor_env_scheme \<Rightarrow> os \<Rightarrow> files \<Rightarrow> monitor_error + monitor_state" where
  "load_state env os fs =
     (case fs_metadata os (me_path env) fs of
        Inl _ \<Rightarrow> Inr monitor_state_default
      | Inr (_, len) \<Rightarrow>
          if len > MAX_STATE_FILE_BYTES
          then Inl (MonInvalidState (lit ''state file exceeds 67108864 bytes''))
          else sbind (map_error MonIo (fs_read os (me_path env) fs)) (\<lambda>bs.
            case decode_json (me_header env) bs of
              Inl _ \<Rightarrow> Inl (MonInvalidState (lit ''invalid JSON''))
            | Inr version \<Rightarrow>
                if version \<noteq> STATE_SCHEMA_VERSION then Inr monitor_state_default
                else map_error (\<lambda>_. MonInvalidState (lit ''invalid JSON'')) (decode_json (me_state env) bs)))"

definition running_count :: "monitor_state \<Rightarrow> nat" where
  "running_count s = length (filter (\<lambda>m. mv_status m = MonRunning) (bt_values (mp_monitors s)))"

definition incident_total :: "monitor_state \<Rightarrow> nat" where
  "incident_total s = sum_list (map length (bt_values (mp_incidents s)))"

definition validate_loaded_state :: "'c regex_api \<Rightarrow> monitor_state \<Rightarrow> monitor_error + unit" where
  "validate_loaded_state rx s =
     (if mp_schema_version s \<noteq> STATE_SCHEMA_VERSION
      then Inl (MonInvalidState (lit ''unsupported schema version '' @ digits_of (mp_schema_version s)))
      else if length (mp_monitors s) > MAX_MONITORS \<or> running_count s > MAX_ACTIVE_MONITORS \<or>
        incident_total s > MAX_INCIDENTS_TOTAL \<or>
        (\<exists>is \<in> set (bt_values (mp_incidents s)). length is > MAX_INCIDENTS_PER_MONITOR)
      then Inl (MonInvalidState (lit ''retention bound exceeded''))
      else each_ok (\<lambda>m. validate_spec rx (mv_spec m)) (bt_values (mp_monitors s)))"

section \<open>Workers\<close>

definition authoritative :: "uuid \<Rightarrow> nat \<Rightarrow> monitor_daemon \<Rightarrow> bool" where
  "authoritative i revision d \<longleftrightarrow>
     (case bt_get (mp_monitors (md_state d)) i of
        None \<Rightarrow> False
      | Some m \<Rightarrow> mv_status m = MonRunning \<and> mv_revision m = revision)"

text \<open>\<open>spawn_worker\<close> up to the reservation; \<open>None\<close> when it returns before one is made.\<close>

definition spawn_reserve :: "uuid \<Rightarrow> uuid \<Rightarrow> nat \<Rightarrow> monitor_daemon \<Rightarrow> monitor_daemon option" where
  "spawn_reserve token i revision d =
     (if md_shutdown d then None
      else if \<not> authoritative i revision d then None
      else if (case bt_get (md_workers d) i of None \<Rightarrow> False | Some w \<Rightarrow> revision \<le> wh_revision w) then None
      else Some (d\<lparr>md_workers :=
             bt_insert i \<lparr>wh_token = token, wh_revision = revision, wh_started = False\<rparr> (md_workers d)\<rparr>))"

definition clear_worker_if_token :: "uuid \<Rightarrow> uuid \<Rightarrow> monitor_daemon \<Rightarrow> monitor_daemon" where
  "clear_worker_if_token i token d =
     (case bt_get (md_workers d) i of
        Some w \<Rightarrow> if wh_token w = token then d\<lparr>md_workers := bt_remove i (md_workers d)\<rparr> else d
      | None \<Rightarrow> d)"

text \<open>The rest of it, once the task it replaces has ended.\<close>

definition spawn_start :: "uuid \<Rightarrow> uuid \<Rightarrow> nat \<Rightarrow> monitor_daemon \<Rightarrow> monitor_daemon" where
  "spawn_start token i revision d =
     (if md_shutdown d \<or> \<not> authoritative i revision d then clear_worker_if_token i token d
      else
        (case bt_get (md_workers d) i of
           Some w \<Rightarrow>
             if wh_token w = token
             then d\<lparr>md_workers := bt_insert i (w\<lparr>wh_started := True\<rparr>) (md_workers d)\<rparr> else d
         | None \<Rightarrow> d))"

definition spawn_worker :: "uuid \<Rightarrow> uuid \<Rightarrow> nat \<Rightarrow> monitor_daemon \<Rightarrow> monitor_daemon" where
  "spawn_worker token i revision d =
     (case spawn_reserve token i revision d of None \<Rightarrow> d | Some d \<Rightarrow> spawn_start token i revision d)"

definition stop_worker :: "uuid \<Rightarrow> nat \<Rightarrow> monitor_daemon \<Rightarrow> monitor_daemon" where
  "stop_worker i revision d =
     (case bt_get (md_workers d) i of
        Some w \<Rightarrow> if wh_revision w = revision then d\<lparr>md_workers := bt_remove i (md_workers d)\<rparr> else d
      | None \<Rightarrow> d)"

definition ensure_current_worker :: "uuid \<Rightarrow> uuid \<Rightarrow> monitor_daemon \<Rightarrow> monitor_daemon" where
  "ensure_current_worker token i d =
     (case bt_get (mp_monitors (md_state d)) i of
        Some m \<Rightarrow> if mv_status m = MonRunning then spawn_worker token i (mv_revision m) d else d
      | None \<Rightarrow> d)"

definition resume_ids :: "monitor_state \<Rightarrow> (uuid \<times> nat) list" where
  "resume_ids s =
     take MAX_ACTIVE_MONITORS
       (map (\<lambda>m. (mv_id m, mv_revision m)) (filter (\<lambda>m. mv_status m = MonRunning) (bt_values (mp_monitors s))))"

definition resume_workers :: "uuid list \<Rightarrow> monitor_daemon \<Rightarrow> monitor_daemon" where
  "resume_workers tokens d =
     fold (\<lambda>(token, i, revision). spawn_worker token i revision) (zip tokens (resume_ids (md_state d))) d"

section \<open>Opening\<close>

definition monitor_open :: "('c, 'z) monitor_env_scheme \<Rightarrow> os \<Rightarrow> files \<Rightarrow> monitor_error + monitor_daemon" where
  "monitor_open env os fs =
     sbind (load_state env os fs) (\<lambda>s.
       sbind (validate_loaded_state (me_rx env) s) (\<lambda>_.
         Inr \<lparr>md_state = s, md_files = fs, md_workers = bt_empty, md_shutdown = False\<rparr>))"

definition monitor_shutdown ::
  "('c, 'z) monitor_env_scheme \<Rightarrow> os \<Rightarrow> monitor_daemon \<Rightarrow> monitor_daemon option" where
  "monitor_shutdown env os d =
     map_option (\<lambda>(_, fs). d\<lparr>md_shutdown := True, md_workers := bt_empty, md_files := fs\<rparr>)
       (persist env os (md_state d) (md_files d))"

section \<open>Retention\<close>

text \<open>\<open>min_by_key\<close>: the first of the least.\<close>

fun min_by :: "('a \<Rightarrow> 'k::linorder) \<Rightarrow> 'a list \<Rightarrow> 'a option" where
  "min_by f [] = None"
| "min_by f (x # xs) =
     (case min_by f xs of None \<Rightarrow> Some x | Some y \<Rightarrow> if f x \<le> f y then Some x else Some y)"

definition unacked :: "monitor_incident list \<Rightarrow> nat" where
  "unacked is = length (filter (\<lambda>i. mi_acked_wall_time_ns i = None) is)"

definition incidents_of :: "monitor_state \<Rightarrow> uuid \<Rightarrow> monitor_incident list" where
  "incidents_of s i = (case bt_get (mp_incidents s) i of None \<Rightarrow> [] | Some is \<Rightarrow> is)"

definition prune_key :: "monitor_state \<Rightarrow> monitor_view \<Rightarrow> bool \<times> int option \<times> int" where
  "prune_key s m =
     (\<exists>i \<in> set (incidents_of s (mv_id m)). mi_acked_wall_time_ns i = None,
      mv_stopped_wall_time_ns m, mv_created_wall_time_ns m)"

definition remove_monitor :: "uuid \<Rightarrow> monitor_state \<Rightarrow> monitor_state" where
  "remove_monitor i s =
     s\<lparr>mp_monitors := bt_remove i (mp_monitors s), mp_incidents := bt_remove i (mp_incidents s),
       mp_checkpoints := bt_remove i (mp_checkpoints s)\<rparr>"

partial_function (option) prune_monitor_capacity :: "monitor_state \<Rightarrow> monitor_state option" where
  "prune_monitor_capacity s =
     (if MAX_MONITORS \<le> length (mp_monitors s) then
        (case min_by (prune_key s) (filter (\<lambda>m. mv_status m \<noteq> MonRunning) (bt_values (mp_monitors s))) of
           None \<Rightarrow> Some s
         | Some m \<Rightarrow> prune_monitor_capacity (remove_monitor (mv_id m) s))
      else Some s)"

definition mark_incident_retention_gap :: "uuid \<Rightarrow> rstring \<Rightarrow> monitor_state \<Rightarrow> monitor_state" where
  "mark_incident_retention_gap i message s =
     (case bt_get (mp_monitors s) i of
        None \<Rightarrow> s
      | Some m \<Rightarrow>
          s\<lparr>mp_monitors :=
              bt_insert i (m\<lparr>mv_gap_count := saturating_add_u64 (mv_gap_count m) 1,
                             mv_last_error := Some message\<rparr>) (mp_monitors s)\<rparr>)"

definition prune_one_monitor_incident :: "uuid \<Rightarrow> monitor_state \<Rightarrow> monitor_state" where
  "prune_one_monitor_incident i s =
     (case bt_get (mp_incidents s) i of
        Some (_ # is) \<Rightarrow>
          mark_incident_retention_gap i (lit ''oldest retained Incident was pruned at the per-Monitor capacity'')
            (s\<lparr>mp_incidents := bt_insert i is (mp_incidents s)\<rparr>)
      | _ \<Rightarrow> s)"

definition incident_ages :: "monitor_state \<Rightarrow> (uuid \<times> nat \<times> int) list" where
  "incident_ages s =
     concat (map (\<lambda>(i, is). map (\<lambda>(index, x). (i, index, mi_created_wall_time_ns x)) (enumerate 0 is))
       (mp_incidents s))"

definition prune_one_global_incident :: "monitor_state \<Rightarrow> monitor_state" where
  "prune_one_global_incident s =
     (case min_by (snd \<circ> snd) (incident_ages s) of
        None \<Rightarrow> s
      | Some (i, index, _) \<Rightarrow>
          (case bt_get (mp_incidents s) i of
             None \<Rightarrow> s
           | Some is \<Rightarrow>
               mark_incident_retention_gap i (lit ''oldest retained Incident was pruned at the global capacity'')
                 (s\<lparr>mp_incidents := bt_insert i (take index is @ drop (Suc index) is) (mp_incidents s)\<rparr>)))"

definition recompute_unacked_counts :: "monitor_state \<Rightarrow> monitor_state" where
  "recompute_unacked_counts s =
     s\<lparr>mp_monitors :=
         map (\<lambda>(i, m). (i, m\<lparr>mv_unacked_incident_count := unacked (incidents_of s (mv_id m))\<rparr>)) (mp_monitors s)\<rparr>"

section \<open>Operations of the interface\<close>

definition get_view :: "uuid \<Rightarrow> monitor_daemon \<Rightarrow> monitor_error + monitor_view" where
  "get_view i d = ok_or (bt_get (mp_monitors (md_state d)) i) (MonNotFound i)"

definition fresh_checkpoint :: "cursor \<Rightarrow> monitor_checkpoint" where
  "fresh_checkpoint c = \<lparr>mk_cursor = c, mk_cooldown_until = None, mk_pending = None\<rparr>"

definition new_monitor :: "create_monitor_request \<Rightarrow> cursor \<Rightarrow> int \<Rightarrow> monitor_view" where
  "new_monitor r cursor now =
     \<lparr>mv_id = cm_request_id r, mv_revision = 1, mv_spec = (cm_spec r)\<lparr>sp_start_cursor := Some cursor\<rparr>,
      mv_status = MonRunning, mv_created_wall_time_ns = now, mv_started_wall_time_ns = now,
      mv_expires_wall_time_ns = duration_deadline now (sp_duration_ms (cm_spec r)),
      mv_stopped_wall_time_ns = None, mv_current_cursor = Some cursor, mv_incident_count = 0,
      mv_unacked_incident_count = 0, mv_gap_count = 0, mv_last_error = None\<rparr>"

definition insert_monitor :: "monitor_view \<Rightarrow> cursor \<Rightarrow> monitor_state \<Rightarrow> monitor_state" where
  "insert_monitor m cursor s =
     s\<lparr>mp_monitors := bt_insert (mv_id m) m (mp_monitors s),
       mp_incidents :=
         (if bt_contains (mp_incidents s) (mv_id m) then mp_incidents s
          else bt_insert (mv_id m) [] (mp_incidents s)),
       mp_checkpoints := bt_insert (mv_id m) (fresh_checkpoint cursor) (mp_checkpoints s)\<rparr>"

text \<open>A port known to the registry shows the epoch and the head of its timeline.\<close>

type_synonym slots = "rstring \<Rightarrow> (uuid \<times> nat) option"

definition slot_cursor :: "slots \<Rightarrow> monitor_spec \<Rightarrow> monitor_error + cursor" where
  "slot_cursor slots spec =
     sbind (ok_or (slots (sp_port spec)) (MonUnknownSlot (sp_port spec)))
       (\<lambda>(epoch, head). resolve_start_cursor spec epoch head)"

definition monitor_create ::
  "('c, 'z) monitor_env_scheme \<Rightarrow> slots \<Rightarrow> mon_call \<Rightarrow> create_monitor_request \<Rightarrow> monitor_daemon \<Rightarrow>
   ((monitor_error + monitor_view) \<times> monitor_daemon) option" where
  "monitor_create env slots call r d =
     (let spec = cm_spec r; i = cm_request_id r in
      case validate_spec (me_rx env) spec of
        Inl e \<Rightarrow> Some (Inl e, d)
      | Inr _ \<Rightarrow>
          (case bt_get (mp_monitors (md_state d)) i of
             Some existing \<Rightarrow>
               Some (if same_create_spec (mv_spec existing) spec then Inr existing else Inl (MonRequestIdReused i), d)
           | None \<Rightarrow>
               (case slot_cursor slots spec of
                  Inl e \<Rightarrow> Some (Inl e, d)
                | Inr cursor \<Rightarrow>
                    if MAX_ACTIVE_MONITORS \<le> running_count (md_state d) then Some (Inl MonActiveCapacity, d)
                    else
                      (case prune_monitor_capacity (md_state d) of
                         None \<Rightarrow> None
                       | Some s \<Rightarrow>
                           if MAX_MONITORS \<le> length (mp_monitors s)
                           then Some (Inl MonCapacity, d\<lparr>md_state := s\<rparr>)
                           else
                             (let monitor = new_monitor r cursor (mc_now call);
                                  s = insert_monitor monitor cursor s
                              in case persist env (mc_os call) s (md_files d) of
                                   None \<Rightarrow> None
                                 | Some (Inl e, fs) \<Rightarrow> Some (Inl e, d\<lparr>md_files := fs\<rparr>)
                                 | Some (Inr _, fs) \<Rightarrow>
                                     Some (Inr monitor,
                                       spawn_worker (mc_uuid call) i 1 (d\<lparr>md_state := s, md_files := fs\<rparr>)))))))"

text \<open>What \<open>update\<close> reads and decides before it stops the worker: the view it will write.\<close>

definition update_prepare ::
  "('c, 'z) monitor_env_scheme \<Rightarrow> slots \<Rightarrow> int \<Rightarrow> uuid \<Rightarrow> update_monitor_request \<Rightarrow> monitor_daemon \<Rightarrow>
   monitor_error + monitor_view \<times> cursor" where
  "update_prepare env slots now i r d =
     sbind (validate_spec (me_rx env) (um_spec r)) (\<lambda>_.
     sbind (slot_cursor slots (um_spec r)) (\<lambda>cursor.
     sbind (get_view i d) (\<lambda>current.
       if mv_revision current \<noteq> um_expected_revision r
       then Inl (MonRevisionMismatch (um_expected_revision r) (mv_revision current))
       else Inr (current\<lparr>mv_revision := saturating_add_u64 (mv_revision current) 1,
                        mv_spec := (um_spec r)\<lparr>sp_start_cursor := Some cursor\<rparr>,
                        mv_status := MonRunning,
                        mv_started_wall_time_ns := now,
                        mv_expires_wall_time_ns := duration_deadline now (sp_duration_ms (um_spec r)),
                        mv_stopped_wall_time_ns := None,
                        mv_current_cursor := Some cursor,
                        mv_last_error := None\<rparr>, cursor))))"

definition update_change ::
  "uuid \<Rightarrow> nat \<Rightarrow> monitor_view \<Rightarrow> cursor \<Rightarrow> monitor_state \<Rightarrow> (monitor_error + unit) \<times> monitor_state" where
  "update_change i expected_revision updated cursor s =
     (case bt_get (mp_monitors s) i of
        None \<Rightarrow> (Inl (MonNotFound i), s)
      | Some m \<Rightarrow>
          if mv_revision m \<noteq> expected_revision then (Inl (MonRevisionMismatch expected_revision (mv_revision m)), s)
          else if mv_status m \<noteq> MonRunning \<and> MAX_ACTIVE_MONITORS \<le> running_count s
          then (Inl MonActiveCapacity, s)
          else (Inr (), s\<lparr>mp_monitors := bt_insert i updated (mp_monitors s),
                          mp_checkpoints := bt_insert i (fresh_checkpoint cursor) (mp_checkpoints s)\<rparr>))"

text \<open>The second half of \<open>update\<close>, with the view that was read before.\<close>

definition update_commit ::
  "('c, 'z) monitor_env_scheme \<Rightarrow> mon_call \<Rightarrow> uuid \<Rightarrow> nat \<Rightarrow> monitor_view \<Rightarrow> cursor \<Rightarrow> monitor_daemon \<Rightarrow>
   ((monitor_error + monitor_view) \<times> monitor_daemon) option" where
  "update_commit env call i expected_revision updated cursor d =
     (case mutate_and_persist env (mc_os call) (update_change i expected_revision updated cursor) d of
        None \<Rightarrow> None
      | Some (Inl e, d) \<Rightarrow> Some (Inl e, spawn_worker (mc_uuid call) i expected_revision d)
      | Some (Inr _, d) \<Rightarrow> Some (Inr updated, spawn_worker (mc_uuid call) i (mv_revision updated) d))"

definition monitor_update ::
  "('c, 'z) monitor_env_scheme \<Rightarrow> slots \<Rightarrow> mon_call \<Rightarrow> uuid \<Rightarrow> update_monitor_request \<Rightarrow> monitor_daemon \<Rightarrow>
   ((monitor_error + monitor_view) \<times> monitor_daemon) option" where
  "monitor_update env slots call i r d =
     (case update_prepare env slots (mc_now call) i r d of
        Inl e \<Rightarrow> Some (Inl e, d)
      | Inr (updated, cursor) \<Rightarrow>
          update_commit env call i (um_expected_revision r) updated cursor (stop_worker i (um_expected_revision r) d))"

definition stop_change :: "uuid \<Rightarrow> nat \<Rightarrow> int \<Rightarrow> monitor_state \<Rightarrow> (monitor_error + unit) \<times> monitor_state" where
  "stop_change i expected_revision now s =
     (case bt_get (mp_monitors s) i of
        None \<Rightarrow> (Inl (MonNotFound i), s)
      | Some m \<Rightarrow>
          if mv_revision m \<noteq> expected_revision then (Inl (MonRevisionMismatch expected_revision (mv_revision m)), s)
          else if mv_status m = MonRunning
          then (Inr (), s\<lparr>mp_monitors :=
                  bt_insert i (m\<lparr>mv_status := MonStopped, mv_stopped_wall_time_ns := Some now,
                                 mv_revision := saturating_add_u64 (mv_revision m) 1\<rparr>) (mp_monitors s)\<rparr>)
          else (Inr (), s))"

definition monitor_stop ::
  "('c, 'z) monitor_env_scheme \<Rightarrow> mon_call \<Rightarrow> uuid \<Rightarrow> nat \<Rightarrow> monitor_daemon \<Rightarrow>
   ((monitor_error + monitor_view) \<times> monitor_daemon) option" where
  "monitor_stop env call i expected_revision d =
     (case get_view i d of
        Inl e \<Rightarrow> Some (Inl e, d)
      | Inr current \<Rightarrow>
          if mv_revision current \<noteq> expected_revision
          then Some (Inl (MonRevisionMismatch expected_revision (mv_revision current)), d)
          else
            (case mutate_and_persist env (mc_os call) (stop_change i expected_revision (mc_now call))
                    (stop_worker i expected_revision d) of
               None \<Rightarrow> None
             | Some (Inl e, d) \<Rightarrow> Some (Inl e, spawn_worker (mc_uuid call) i expected_revision d)
             | Some (Inr _, d) \<Rightarrow> (let d = stop_worker i expected_revision d in Some (get_view i d, d))))"

definition delete_change :: "uuid \<Rightarrow> nat \<Rightarrow> monitor_state \<Rightarrow> (monitor_error + monitor_view) \<times> monitor_state" where
  "delete_change i expected_revision s =
     (case bt_get (mp_monitors s) i of
        None \<Rightarrow> (Inl (MonNotFound i), s)
      | Some m \<Rightarrow>
          if mv_revision m \<noteq> expected_revision then (Inl (MonRevisionMismatch expected_revision (mv_revision m)), s)
          else if mv_status m = MonRunning
          then (Inl (MonInvalidSpec (lit ''stop the Monitor before deleting its history'')), s)
          else (Inr m, remove_monitor i s))"

definition delete_stopped ::
  "('c, 'z) monitor_env_scheme \<Rightarrow> mon_call \<Rightarrow> uuid \<Rightarrow> nat \<Rightarrow> monitor_daemon \<Rightarrow>
   ((monitor_error + monitor_view) \<times> monitor_daemon) option" where
  "delete_stopped env call i expected_revision d =
     mutate_and_persist env (mc_os call) (delete_change i expected_revision) d"

definition monitor_key :: "monitor_view \<Rightarrow> int \<times> uuid" where
  "monitor_key m = (mv_created_wall_time_ns m, mv_id m)"

definition monitor_list :: "rstring option \<Rightarrow> monitor_status option \<Rightarrow> monitor_daemon \<Rightarrow> monitor_view list" where
  "monitor_list port status d =
     sort_key monitor_key
       (filter (\<lambda>m. (port = None \<or> port = Some (sp_port (mv_spec m))) \<and> (status = None \<or> status = Some (mv_status m)))
         (bt_values (mp_monitors (md_state d))))"

text \<open>One page of the incidents of a monitor, oldest first.\<close>

definition incident_page :: "nat \<Rightarrow> monitor_incident list \<Rightarrow> nat option \<Rightarrow> nat option \<Rightarrow> bool \<Rightarrow> monitor_incident_page" where
  "incident_page high_water stored after limit include_acked =
     (let limit = max 1 (min (case limit of None \<Rightarrow> MONITOR_DEFAULT_PAGE | Some n \<Rightarrow> n) MONITOR_MAX_PAGE);
          first_available = (case stored of [] \<Rightarrow> None | i # _ \<Rightarrow> Some (mi_incident_seq i));
          retention_gap =
            (case after of
               None \<Rightarrow> False
             | Some after \<Rightarrow>
                 (case first_available of None \<Rightarrow> after < high_water | Some first \<Rightarrow> after < first - 1));
          eligible = filter (\<lambda>i. include_acked \<or> mi_acked_wall_time_ns i = None) stored;
          selected =
            (case after of
               Some after \<Rightarrow> filter (\<lambda>i. after < mi_incident_seq i) eligible
             | None \<Rightarrow> drop (length eligible - limit) eligible);
          truncated = ((after \<noteq> None \<and> limit < length selected) \<or> (after = None \<and> limit < length eligible));
          incidents = take limit selected;
          next_cursor =
            (case after of
               None \<Rightarrow> if 0 < high_water then Some high_water else None
             | Some after \<Rightarrow>
                 if truncated then (if incidents = [] then None else Some (mi_incident_seq (last incidents)))
                 else Some (max after high_water))
      in \<lparr>mg_incidents = incidents, mg_next_cursor = next_cursor, mg_truncated = truncated,
          mg_first_available = first_available, mg_retention_gap = retention_gap\<rparr>)"

definition monitor_incidents ::
  "uuid \<Rightarrow> nat option \<Rightarrow> nat option \<Rightarrow> bool \<Rightarrow> monitor_daemon \<Rightarrow> monitor_error + monitor_incident_page" where
  "monitor_incidents i after limit include_acked d =
     sbind (ok_or (bt_get (mp_monitors (md_state d)) i) (MonNotFound i)) (\<lambda>m.
       Inr (incident_page (mv_incident_count m) (incidents_of (md_state d) i) after limit include_acked))"

text \<open>The first incident of that identifier, acknowledged; \<open>None\<close> when there is none.\<close>

fun acknowledge_first :: "uuid \<Rightarrow> int \<Rightarrow> monitor_incident list \<Rightarrow> (bool \<times> monitor_incident list) option" where
  "acknowledge_first i now [] = None"
| "acknowledge_first i now (x # xs) =
     (if mi_id x = i
      then Some (if mi_acked_wall_time_ns x = None then (True, x\<lparr>mi_acked_wall_time_ns := Some now\<rparr> # xs)
                 else (False, x # xs))
      else map_option (\<lambda>(fresh, xs). (fresh, x # xs)) (acknowledge_first i now xs))"

definition ack_change :: "uuid \<Rightarrow> uuid \<Rightarrow> int \<Rightarrow> monitor_state \<Rightarrow> (monitor_error + unit) \<times> monitor_state" where
  "ack_change i incident now s =
     (case bt_get (mp_incidents s) i of
        None \<Rightarrow> (Inl (MonNotFound i), s)
      | Some is \<Rightarrow>
          (case acknowledge_first incident now is of
             None \<Rightarrow> (Inl (MonNotFound incident), s)
           | Some (False, _) \<Rightarrow> (Inr (), s)
           | Some (True, is) \<Rightarrow>
               (Inr (), s\<lparr>mp_incidents := bt_insert i is (mp_incidents s),
                          mp_monitors :=
                            (case bt_get (mp_monitors s) i of
                               None \<Rightarrow> mp_monitors s
                             | Some m \<Rightarrow>
                                 bt_insert i (m\<lparr>mv_unacked_incident_count := mv_unacked_incident_count m - 1\<rparr>)
                                   (mp_monitors s))\<rparr>)))"

definition acknowledge_incident ::
  "('c, 'z) monitor_env_scheme \<Rightarrow> mon_call \<Rightarrow> uuid \<Rightarrow> uuid \<Rightarrow> monitor_daemon \<Rightarrow>
   ((monitor_error + monitor_incident) \<times> monitor_daemon) option" where
  "acknowledge_incident env call i incident d =
     (case mutate_and_persist env (mc_os call) (ack_change i incident (mc_now call)) d of
        None \<Rightarrow> None
      | Some (Inl e, d) \<Rightarrow> Some (Inl e, d)
      | Some (Inr _, d) \<Rightarrow>
          Some (ok_or (List.find (\<lambda>x. mi_id x = incident) (incidents_of (md_state d) i)) (MonNotFound incident), d))"

section \<open>Operations of the workers\<close>

definition change_running ::
  "uuid \<Rightarrow> nat \<Rightarrow> (monitor_view \<Rightarrow> monitor_view) \<Rightarrow> monitor_state \<Rightarrow> (monitor_error + unit) \<times> monitor_state" where
  "change_running i revision f s =
     (case bt_get (mp_monitors s) i of
        None \<Rightarrow> (Inl (MonNotFound i), s)
      | Some m \<Rightarrow>
          (Inr (), if mv_revision m = revision \<and> mv_status m = MonRunning
                   then s\<lparr>mp_monitors := bt_insert i (f m) (mp_monitors s)\<rparr> else s))"

definition fail_monitor ::
  "('c, 'z) monitor_env_scheme \<Rightarrow> mon_call \<Rightarrow> uuid \<Rightarrow> nat \<Rightarrow> rstring \<Rightarrow> monitor_daemon \<Rightarrow>
   ((monitor_error + unit) \<times> monitor_daemon) option" where
  "fail_monitor env call i revision error d =
     (case mutate_and_persist env (mc_os call)
             (change_running i revision (\<lambda>m.
                m\<lparr>mv_status := MonFailed, mv_stopped_wall_time_ns := Some (mc_now call),
                  mv_last_error := Some (truncate_text error MAX_DESCRIPTION_BYTES)\<rparr>)) d of
        None \<Rightarrow> None
      | Some (Inl e, d) \<Rightarrow> Some (Inl e, ensure_current_worker (mc_uuid call) i d)
      | Some (Inr u, d) \<Rightarrow> Some (Inr u, d))"

definition complete_monitor ::
  "('c, 'z) monitor_env_scheme \<Rightarrow> mon_call \<Rightarrow> uuid \<Rightarrow> nat \<Rightarrow> monitor_daemon \<Rightarrow>
   ((monitor_error + unit) \<times> monitor_daemon) option" where
  "complete_monitor env call i revision d =
     mutate_and_persist env (mc_os call)
       (change_running i revision (\<lambda>m.
          m\<lparr>mv_status := MonCompleted, mv_stopped_wall_time_ns := Some (mc_now call)\<rparr>)) d"

definition update_progress :: "uuid \<Rightarrow> nat \<Rightarrow> cursor \<Rightarrow> monitor_daemon \<Rightarrow> monitor_daemon" where
  "update_progress i revision cursor d =
     d\<lparr>md_state := snd (change_running i revision (\<lambda>m. m\<lparr>mv_current_cursor := Some cursor\<rparr>) (md_state d))\<rparr>"

definition checkpoint_progress ::
  "('c, 'z) monitor_env_scheme \<Rightarrow> os \<Rightarrow> uuid \<Rightarrow> nat \<Rightarrow> monitor_checkpoint \<Rightarrow> monitor_daemon \<Rightarrow>
   ((monitor_error + unit) \<times> monitor_daemon) option" where
  "checkpoint_progress env os i revision checkpoint d =
     (let s = md_state d in
      case bt_get (mp_monitors s) i of
        None \<Rightarrow> Some (Inl (MonNotFound i), d)
      | Some m \<Rightarrow>
          if mv_status m \<noteq> MonRunning \<or> mv_revision m \<noteq> revision then Some (Inr (), d)
          else if bt_get (mp_checkpoints s) i = Some checkpoint then Some (Inr (), d)
          else
            (let s = s\<lparr>mp_checkpoints := bt_insert i checkpoint (mp_checkpoints s)\<rparr> in
             case persist env os s (md_files d) of
               None \<Rightarrow> None
             | Some (Inl e, fs) \<Rightarrow> Some (Inl e, d\<lparr>md_files := fs\<rparr>)
             | Some (Inr _, fs) \<Rightarrow> Some (Inr (), d\<lparr>md_state := s, md_files := fs\<rparr>)))"

definition checkpoint_for :: "monitor_view \<Rightarrow> cursor \<Rightarrow> monitor_daemon \<Rightarrow> monitor_checkpoint" where
  "checkpoint_for m fallback d =
     (case bt_get (mp_checkpoints (md_state d)) (mv_id m) of
        Some c \<Rightarrow> c
      | None \<Rightarrow> fresh_checkpoint (case mv_current_cursor m of None \<Rightarrow> fallback | Some c \<Rightarrow> c))"

definition record_gap ::
  "('c, 'z) monitor_env_scheme \<Rightarrow> os \<Rightarrow> uuid \<Rightarrow> nat \<Rightarrow> rstring \<Rightarrow> monitor_daemon \<Rightarrow>
   ((monitor_error + unit) \<times> monitor_daemon) option" where
  "record_gap env os i revision message d =
     mutate_and_persist env os
       (change_running i revision (\<lambda>m.
          m\<lparr>mv_gap_count := saturating_add_u64 (mv_gap_count m) 1,
            mv_last_error := Some (truncate_text message MAX_DESCRIPTION_BYTES)\<rparr>)) d"

definition evidence_ref :: "('c, 'z) monitor_env_scheme \<Rightarrow> rstring \<Rightarrow> pending_incident \<Rightarrow> rstring" where
  "evidence_ref env port p =
     lit ''serial://'' @ me_uuid_text env (me_server_id env) @ lit ''/ports/'' @ port @ lit ''/events?epoch='' @
     me_uuid_text env (pi_epoch p) @ lit ''&after_seq='' @ digits_of (pi_seq_start p - 1) @
     lit ''&through_seq='' @ digits_of (pi_seq_end p)"

definition new_incident ::
  "('c, 'z) monitor_env_scheme \<Rightarrow> mon_call \<Rightarrow> uuid \<Rightarrow> monitor_view \<Rightarrow> nat \<Rightarrow> pending_incident \<Rightarrow> monitor_incident" where
  "new_incident env call i m n p =
     \<lparr>mi_id = mc_uuid call, mi_incident_seq = n, mi_monitor_id = i, mi_port = sp_port (mv_spec m),
      mi_epoch = pi_epoch p, mi_seq_start = pi_seq_start p, mi_seq_end = pi_seq_end p,
      mi_wall_time_start_ns = pi_wall_time_start_ns p, mi_wall_time_end_ns = pi_wall_time_end_ns p,
      mi_severity = sp_severity (mv_spec m), mi_description = sp_description (mv_spec m),
      mi_matches = pi_matches p, mi_preview = truncate_text (pi_preview p) MAX_PREVIEW_BYTES,
      mi_evidence_cursor = \<lparr>cu_epoch = pi_epoch p, cu_after_seq = pi_seq_start p - 1\<rparr>,
      mi_evidence_ref = evidence_ref env (sp_port (mv_spec m)) p,
      mi_created_wall_time_ns = mc_now call, mi_acked_wall_time_ns = None\<rparr>"

definition prune_incidents :: "uuid \<Rightarrow> monitor_state \<Rightarrow> monitor_state" where
  "prune_incidents i s =
     (let s = (if MAX_INCIDENTS_PER_MONITOR \<le> length (incidents_of s i) then prune_one_monitor_incident i s else s)
      in if MAX_INCIDENTS_TOTAL \<le> incident_total s then prune_one_global_incident s else s)"

definition incident_change ::
  "('c, 'z) monitor_env_scheme \<Rightarrow> mon_call \<Rightarrow> uuid \<Rightarrow> nat \<Rightarrow> pending_incident \<Rightarrow> monitor_checkpoint \<Rightarrow>
   monitor_state \<Rightarrow> (monitor_error + unit) \<times> monitor_state" where
  "incident_change env call i revision p checkpoint s =
     (case bt_get (mp_monitors s) i of
        None \<Rightarrow> (Inl (MonNotFound i), s)
      | Some m \<Rightarrow>
          if mv_status m \<noteq> MonRunning \<or> mv_revision m \<noteq> revision then (Inr (), s)
          else
            (let s = prune_incidents i s in
             case bt_get (mp_monitors s) i of
               None \<Rightarrow> (Inl (MonNotFound i), s)
             | Some m \<Rightarrow>
                 (let n = saturating_add_u64 (mv_incident_count m) 1 in
                  (Inr (), recompute_unacked_counts
                     (s\<lparr>mp_monitors :=
                          bt_insert i (m\<lparr>mv_incident_count := n,
                              mv_unacked_incident_count := saturating_add_u64 (mv_unacked_incident_count m) 1\<rparr>)
                            (mp_monitors s),
                        mp_incidents :=
                          bt_insert i (incidents_of s i @ [new_incident env call i m n p]) (mp_incidents s),
                        mp_checkpoints := bt_insert i checkpoint (mp_checkpoints s)\<rparr>)))))"

definition record_incident ::
  "('c, 'z) monitor_env_scheme \<Rightarrow> mon_call \<Rightarrow> uuid \<Rightarrow> nat \<Rightarrow> pending_incident \<Rightarrow> monitor_checkpoint \<Rightarrow>
   monitor_daemon \<Rightarrow> ((monitor_error + unit) \<times> monitor_daemon) option" where
  "record_incident env call i revision p checkpoint d =
     mutate_and_persist env (mc_os call) (incident_change env call i revision p checkpoint) d"

text \<open>The end of a worker's task.\<close>

definition worker_exit ::
  "('c, 'z) monitor_env_scheme \<Rightarrow> mon_call \<Rightarrow> uuid \<Rightarrow> nat \<Rightarrow> uuid \<Rightarrow> monitor_error + unit \<Rightarrow> monitor_daemon \<Rightarrow>
   monitor_daemon option" where
  "worker_exit env call i revision token result d =
     (let d = clear_worker_if_token i token d in
      case result of
        Inr _ \<Rightarrow> Some d
      | Inl e \<Rightarrow>
          if md_shutdown d then Some d
          else map_option snd (fail_monitor env call i revision (monitor_error_text env e) d))"

end
