(* ===== verification/MonitorWorker.thy ===== *)
theory MonitorWorker
  imports MonitorMatcher MonitorStore EventRing
begin

text \<open>
  The worker of a monitor job: \<open>WorkerRuntime\<close>, \<open>process_monitor_event\<close> and the arms of the loop of
  \<open>run_monitor_worker\<close> in \<open>crates/seriald/src/monitor.rs\<close>. An \<open>Instant\<close> and a \<open>Duration\<close> are nanoseconds. A
  step ends with the state of the worker or, on an error, without it; the \<open>None\<close> of a finished worker is
  its \<open>return Ok(())\<close>. The channels that choose the next arm, and what \<open>attach\<close> answers, are outside.
\<close>

section \<open>The runtime\<close>

record worker_runtime =
  wr_matcher :: stream_matcher
  wr_pending :: "(pending_incident \<times> nat) option"
  wr_cooldown_until :: "int option"
  wr_debounce :: nat
  wr_cooldown :: nat
  wr_generation :: "nat option"

definition runtime_new ::
  "'c regex_api \<Rightarrow> monitor_spec \<Rightarrow> int option \<Rightarrow> pending_incident option \<Rightarrow> nat \<Rightarrow> monitor_error + worker_runtime" where
  "runtime_new rx spec cooldown_until pending now =
     sbind (matcher_compile rx spec) (\<lambda>matcher.
       Inr \<lparr>wr_matcher = matcher, wr_pending = map_option (\<lambda>incident. (incident, now)) pending,
            wr_cooldown_until = cooldown_until, wr_debounce = sp_debounce_ms spec * 1000000,
            wr_cooldown = sp_cooldown_ms spec * 1000000, wr_generation = None\<rparr>)"

definition reset_for_gap :: "worker_runtime \<Rightarrow> pending_incident option \<times> worker_runtime" where
  "reset_for_gap rt =
     (map_option fst (wr_pending rt),
      rt\<lparr>wr_matcher := matcher_reset (wr_matcher rt), wr_generation := None, wr_pending := None\<rparr>)"

definition reset_for_boundary :: "nat \<Rightarrow> worker_runtime \<Rightarrow> pending_incident option \<times> worker_runtime" where
  "reset_for_boundary generation rt =
     (map_option fst (wr_pending rt),
      rt\<lparr>wr_matcher := matcher_reset (wr_matcher rt), wr_generation := Some generation, wr_pending := None\<rparr>)"

definition observes_boundary :: "'j timeline_event \<Rightarrow> worker_runtime \<Rightarrow> pending_incident option \<times> worker_runtime" where
  "observes_boundary e rt =
     (let lifecycle_boundary = ev_kind e \<in> {KSerialOpened, KSerialClosed, KPortReconfigured, KPortRemoved};
          generation_changed = (case wr_generation rt of None \<Rightarrow> False | Some g \<Rightarrow> g \<noteq> ev_generation e)
      in if lifecycle_boundary \<or> generation_changed then reset_for_boundary (ev_generation e) rt
         else (None, if wr_generation rt = None then rt\<lparr>wr_generation := Some (ev_generation e)\<rparr> else rt))"

definition cooldown_deadline :: "int \<Rightarrow> worker_runtime \<Rightarrow> int" where
  "cooldown_deadline now rt = saturating_add_i64 now (ms_to_ns (wr_cooldown rt div 1000000))"

definition merge_pending :: "pending_incident \<Rightarrow> pending_incident \<Rightarrow> pending_incident" where
  "merge_pending p candidate =
     p\<lparr>pi_seq_end := pi_seq_end candidate, pi_wall_time_end_ns := pi_wall_time_end_ns candidate,
       pi_matches := fold (\<lambda>m ms. if m \<in> set ms then ms else ms @ [m]) (pi_matches candidate) (pi_matches p),
       pi_preview :=
         (if str_len (pi_preview p) < MAX_PREVIEW_BYTES
          then truncate_text (pi_preview p @ [10] @ pi_preview candidate) MAX_PREVIEW_BYTES
          else pi_preview p)\<rparr>"

definition cooling :: "int \<Rightarrow> worker_runtime \<Rightarrow> bool" where
  "cooling now rt \<longleftrightarrow> (case wr_cooldown_until rt of None \<Rightarrow> False | Some deadline \<Rightarrow> now < deadline)"

definition accept_match ::
  "pending_incident \<Rightarrow> nat \<Rightarrow> int \<Rightarrow> worker_runtime \<Rightarrow> pending_incident option \<times> worker_runtime" where
  "accept_match candidate now now_wall rt =
     (if cooling now_wall rt then (None, rt)
      else if wr_debounce rt = 0
      then (Some candidate, rt\<lparr>wr_cooldown_until := Some (cooldown_deadline now_wall rt)\<rparr>)
      else
        (case wr_pending rt of
           Some (p, deadline) \<Rightarrow> (None, rt\<lparr>wr_pending := Some (merge_pending p candidate, deadline)\<rparr>)
         | None \<Rightarrow> (None, rt\<lparr>wr_pending := Some (candidate, now + wr_debounce rt)\<rparr>)))"

definition take_due :: "nat \<Rightarrow> int \<Rightarrow> worker_runtime \<Rightarrow> pending_incident option \<times> worker_runtime" where
  "take_due now now_wall rt =
     (case wr_pending rt of
        None \<Rightarrow> (None, rt)
      | Some (incident, deadline) \<Rightarrow>
          if now < deadline then (None, rt)
          else (Some incident, rt\<lparr>wr_pending := None, wr_cooldown_until := Some (cooldown_deadline now_wall rt)\<rparr>))"

definition take_recovered_pending ::
  "cursor \<Rightarrow> int \<Rightarrow> worker_runtime \<Rightarrow> pending_incident option \<times> cursor \<times> worker_runtime" where
  "take_recovered_pending cursor now_wall rt =
     (case wr_pending rt of
        None \<Rightarrow> (None, cursor, rt)
      | Some (incident, _) \<Rightarrow>
          (Some incident, \<lparr>cu_epoch = pi_epoch incident, cu_after_seq = pi_seq_end incident\<rparr>,
           rt\<lparr>wr_pending := None, wr_cooldown_until := Some (cooldown_deadline now_wall rt)\<rparr>))"

definition runtime_checkpoint :: "worker_runtime \<Rightarrow> cursor \<Rightarrow> monitor_checkpoint" where
  "runtime_checkpoint rt cursor =
     \<lparr>mk_cursor =
        (case wr_pending rt of
           None \<Rightarrow> cursor
         | Some (p, _) \<Rightarrow> \<lparr>cu_epoch = pi_epoch p, cu_after_seq = pi_seq_start p - 1\<rparr>),
      mk_cooldown_until = wr_cooldown_until rt,
      mk_pending = map_option fst (wr_pending rt)\<rparr>"

definition is_expired :: "int option \<Rightarrow> int \<Rightarrow> bool" where
  "is_expired deadline now \<longleftrightarrow> (case deadline of None \<Rightarrow> False | Some deadline \<Rightarrow> deadline \<le> now)"

definition CHECKPOINT_INTERVAL :: nat where "CHECKPOINT_INTERVAL = 1000000000"

section \<open>Steps of the worker\<close>

record worker =
  wk_runtime :: worker_runtime
  wk_cursor :: cursor
  wk_last_checkpoint :: nat

text \<open>
  What one step gets from outside: the two clocks when it begins and when it checks what else is due, and
  the system's answers to the incident a boundary
  flushes, the incident that is due, the save of a checkpoint or a gap, the periodic checkpoint (with the
  clock after it) and the end of the job.
\<close>

record worker_inputs =
  wn_now :: nat
  wn_wall :: int
  wn_check_now :: nat
  wn_check_wall :: int
  wn_flush :: mon_call
  wn_emit :: mon_call
  wn_save :: os
  wn_due :: os
  wn_saved_now :: nat
  wn_done :: mon_call

type_synonym 'a worker_result = "((monitor_error + 'a) \<times> monitor_daemon) option"

text \<open>The \<open>?\<close> after a call of the manager.\<close>

definition worker_bind :: "'a worker_result \<Rightarrow> ('a \<Rightarrow> monitor_daemon \<Rightarrow> 'b worker_result) \<Rightarrow> 'b worker_result" where
  "worker_bind r k =
     (case r of None \<Rightarrow> None | Some (Inl e, d) \<Rightarrow> Some (Inl e, d) | Some (Inr v, d) \<Rightarrow> k v d)"

definition emit_incident ::
  "('c, 'z) monitor_env_scheme \<Rightarrow> mon_call \<Rightarrow> uuid \<Rightarrow> nat \<Rightarrow> pending_incident option \<Rightarrow> worker \<Rightarrow> monitor_daemon \<Rightarrow>
   unit worker_result" where
  "emit_incident env call i revision incident w d =
     (case incident of
        None \<Rightarrow> Some (Inr (), d)
      | Some p \<Rightarrow> record_incident env call i revision p (runtime_checkpoint (wk_runtime w) (wk_cursor w)) d)"

definition checkpoint_worker ::
  "('c, 'z) monitor_env_scheme \<Rightarrow> os \<Rightarrow> uuid \<Rightarrow> nat \<Rightarrow> worker \<Rightarrow> monitor_daemon \<Rightarrow> unit worker_result" where
  "checkpoint_worker env os i revision w d =
     checkpoint_progress env os i revision (runtime_checkpoint (wk_runtime w) (wk_cursor w)) d"

definition checkpoint_if_due ::
  "('c, 'z) monitor_env_scheme \<Rightarrow> worker_inputs \<Rightarrow> uuid \<Rightarrow> nat \<Rightarrow> worker \<Rightarrow> monitor_daemon \<Rightarrow> worker worker_result" where
  "checkpoint_if_due env x i revision w d =
     (if wn_check_now x - wk_last_checkpoint w < CHECKPOINT_INTERVAL then Some (Inr w, d)
      else worker_bind (checkpoint_worker env (wn_due x) i revision w d)
             (\<lambda>_ d. Some (Inr (w\<lparr>wk_last_checkpoint := wn_saved_now x\<rparr>), d)))"

text \<open>The end of \<open>process_monitor_event\<close>, from the push on.\<close>

definition process_bytes ::
  "('c, 'z) monitor_env_scheme \<Rightarrow> worker_inputs \<Rightarrow> uuid \<Rightarrow> nat \<Rightarrow> 'j timeline_event \<Rightarrow> worker \<Rightarrow> monitor_daemon \<Rightarrow>
   worker worker_result" where
  "process_bytes env x i revision e w d =
     (let rt = wk_runtime w; (candidate, matcher) = matcher_push e (wr_matcher rt); rt = rt\<lparr>wr_matcher := matcher\<rparr>
      in case candidate of
           None \<Rightarrow> Some (Inr (w\<lparr>wk_runtime := rt\<rparr>), d)
         | Some c \<Rightarrow>
             (let had_pending = (wr_pending rt \<noteq> None); (incident, rt) = accept_match c (wn_now x) (wn_wall x) rt;
                  w = w\<lparr>wk_runtime := rt\<rparr>
              in worker_bind (emit_incident env (wn_emit x) i revision incident w d) (\<lambda>_ d.
                   if \<not> had_pending \<and> wr_pending rt \<noteq> None
                   then worker_bind (checkpoint_worker env (wn_save x) i revision w d) (\<lambda>_ d. Some (Inr w, d))
                   else Some (Inr w, d))))"

definition process_monitor_event ::
  "('c, 'z) monitor_env_scheme \<Rightarrow> worker_inputs \<Rightarrow> uuid \<Rightarrow> nat \<Rightarrow> 'j timeline_event \<Rightarrow> worker \<Rightarrow> monitor_daemon \<Rightarrow>
   worker worker_result" where
  "process_monitor_event env x i revision e w d =
     (let w = w\<lparr>wk_cursor := \<lparr>cu_epoch = ev_epoch e, cu_after_seq = ev_seq e\<rparr>\<rparr>;
          d = update_progress i revision (wk_cursor w) d
      in if ev_kind e = KGap then
           (let (incident, rt) = reset_for_gap (wk_runtime w); w = w\<lparr>wk_runtime := rt\<rparr>
            in worker_bind (emit_incident env (wn_flush x) i revision incident w d) (\<lambda>_ d.
               worker_bind (record_gap env (wn_save x) i revision
                 (lit ''timeline reported an RX/logging gap; matcher reset'') d) (\<lambda>_ d. Some (Inr w, d))))
         else
           (let (incident, rt) = observes_boundary e (wk_runtime w); w = w\<lparr>wk_runtime := rt\<rparr>
            in worker_bind (emit_incident env (wn_flush x) i revision incident w d) (\<lambda>_ d.
                 if ev_kind e \<noteq> KRx \<or> ev_direction e \<noteq> DRx then Some (Inr w, d)
                 else process_bytes env x i revision e w d)))"

section \<open>The loop\<close>

text \<open>The beginning of \<open>run_monitor_worker\<close>: what a checkpoint still had to report, and where to resume.\<close>

definition resume_epoch ::
  "('c, 'z) monitor_env_scheme \<Rightarrow> os \<Rightarrow> monitor_view \<Rightarrow> uuid \<Rightarrow> worker \<Rightarrow> monitor_daemon \<Rightarrow> worker worker_result" where
  "resume_epoch env os m epoch w d =
     (if cu_epoch (wk_cursor w) = epoch then Some (Inr w, d)
      else worker_bind (record_gap env os (mv_id m) (mv_revision m)
             (lit ''daemon epoch changed from '' @ me_uuid_text env (cu_epoch (wk_cursor w)) @ lit '' to '' @
              me_uuid_text env epoch @ lit ''; matching resumed from the retained current-epoch ring'') d)
           (\<lambda>_ d. Some (Inr (w\<lparr>wk_cursor := \<lparr>cu_epoch = epoch, cu_after_seq = 0\<rparr>,
                               wk_runtime := snd (reset_for_gap (wk_runtime w))\<rparr>), d)))"

definition resume_head ::
  "('c, 'z) monitor_env_scheme \<Rightarrow> os \<Rightarrow> monitor_view \<Rightarrow> nat \<Rightarrow> worker \<Rightarrow> monitor_daemon \<Rightarrow> worker worker_result" where
  "resume_head env os m head_now w d =
     (if cu_after_seq (wk_cursor w) \<le> head_now then Some (Inr w, d)
      else worker_bind (record_gap env os (mv_id m) (mv_revision m)
             (lit ''saved cursor was ahead of the current head; matching resumed at head'') d)
           (\<lambda>_ d. Some (Inr (w\<lparr>wk_cursor := (wk_cursor w)\<lparr>cu_after_seq := head_now\<rparr>\<rparr>), d)))"

definition worker_begin ::
  "('c, 'z) monitor_env_scheme \<Rightarrow> worker_inputs \<Rightarrow> slots \<Rightarrow> monitor_view \<Rightarrow> monitor_daemon \<Rightarrow>
   worker option worker_result" where
  "worker_begin env x slots m d =
     (if md_shutdown d then Some (Inr None, d)
      else
        (case slots (sp_port (mv_spec m)) of
           None \<Rightarrow> Some (Inl (MonUnknownSlot (sp_port (mv_spec m))), d)
         | Some (epoch, head_now) \<Rightarrow>
             (let fallback = (case mv_current_cursor m of
                    None \<Rightarrow> \<lparr>cu_epoch = epoch, cu_after_seq = head_now\<rparr> | Some c \<Rightarrow> c);
                  checkpoint = checkpoint_for m fallback d
              in case runtime_new (me_rx env) (mv_spec m) (mk_cooldown_until checkpoint) (mk_pending checkpoint) (wn_now x) of
                   Inl e \<Rightarrow> Some (Inl e, d)
                 | Inr rt \<Rightarrow>
                     (let (incident, cursor, rt) = take_recovered_pending (mk_cursor checkpoint) (wn_wall x) rt;
                          w = \<lparr>wk_runtime = rt, wk_cursor = cursor, wk_last_checkpoint = wn_saved_now x\<rparr>
                      in worker_bind (emit_incident env (wn_emit x) (mv_id m) (mv_revision m) incident w d) (\<lambda>_ d.
                         worker_bind (resume_epoch env (wn_save x) m epoch w d) (\<lambda>w d.
                         worker_bind (resume_head env (wn_due x) m head_now w d) (\<lambda>w d.
                         Some (Inr (Some w), update_progress (mv_id m) (mv_revision m) (wk_cursor w) d))))))))"

text \<open>A job whose time is over reports what it still holds and completes.\<close>

definition worker_expire ::
  "('c, 'z) monitor_env_scheme \<Rightarrow> worker_inputs \<Rightarrow> monitor_view \<Rightarrow> worker \<Rightarrow> monitor_daemon \<Rightarrow>
   worker option worker_result" where
  "worker_expire env x m w d =
     (if \<not> is_expired (mv_expires_wall_time_ns m) (wn_check_wall x) then Some (Inr (Some w), d)
      else
        (let incident = map_option fst (wr_pending (wk_runtime w));
             w = w\<lparr>wk_runtime := (wk_runtime w)\<lparr>wr_pending := None\<rparr>\<rparr>
         in worker_bind (emit_incident env (wn_flush x) (mv_id m) (mv_revision m) incident w d) (\<lambda>_ d.
            worker_bind (complete_monitor env (wn_done x) (mv_id m) (mv_revision m) d) (\<lambda>_ d. Some (Inr None, d)))))"

fun replay_events ::
  "('c, 'z) monitor_env_scheme \<Rightarrow> monitor_view \<Rightarrow> (worker_inputs \<times> 'j timeline_event) list \<Rightarrow> worker \<Rightarrow>
   monitor_daemon \<Rightarrow> worker worker_result" where
  "replay_events env m [] w d = Some (Inr w, d)"
| "replay_events env m ((x, e) # es) w d =
     worker_bind (process_monitor_event env x (mv_id m) (mv_revision m) e w d) (\<lambda>w d.
     worker_bind (checkpoint_if_due env x (mv_id m) (mv_revision m) w d) (\<lambda>w d. replay_events env m es w d))"

definition gap_reason_text :: "gap_reason \<Rightarrow> rstring" where
  "gap_reason_text r =
     (case r of
        EpochChanged \<Rightarrow> lit ''EpochChanged'' | RingEvicted \<Rightarrow> lit ''RingEvicted'' | Retention \<Rightarrow> lit ''Retention''
      | Corruption \<Rightarrow> lit ''Corruption'' | LoggingFault \<Rightarrow> lit ''LoggingFault''
      | SequenceDiscontinuity \<Rightarrow> lit ''SequenceDiscontinuity'')"

definition option_text :: "nat option \<Rightarrow> rstring" where
  "option_text n = (case n of None \<Rightarrow> lit ''None'' | Some n \<Rightarrow> lit ''Some('' @ digits_of n @ lit '')'')"

text \<open>One attachment: the window of the ring that \<open>attach\<close> gives, with the inputs of each of its events.\<close>

definition worker_attach ::
  "('c, 'z) monitor_env_scheme \<Rightarrow> worker_inputs \<Rightarrow> monitor_view \<Rightarrow>
   rstring + replay_gap option \<times> (worker_inputs \<times> 'j timeline_event) list \<Rightarrow> worker \<Rightarrow> monitor_daemon \<Rightarrow>
   worker worker_result" where
  "worker_attach env x m attached w d =
     (case attached of
        Inl t \<Rightarrow> Some (Inl (MonRuntime t), d)
      | Inr (gap, es) \<Rightarrow>
          worker_bind
            (case gap of
               None \<Rightarrow> Some (Inr w, d)
             | Some g \<Rightarrow>
                 worker_bind (record_gap env (wn_save x) (mv_id m) (mv_revision m)
                   (lit ''Monitor replay gap: '' @ gap_reason_text (rp_reason g) @ lit '', requested after '' @
                    option_text (rp_requested_after_seq g) @ lit '', first available '' @
                    option_text (rp_first_available_seq g)) d) (\<lambda>_ d.
                   let (incident, rt) = reset_for_gap (wk_runtime w); w = w\<lparr>wk_runtime := rt\<rparr>
                   in worker_bind (emit_incident env (wn_flush x) (mv_id m) (mv_revision m) incident w d)
                        (\<lambda>_ d. Some (Inr w, d))))
            (\<lambda>w d. replay_events env m es w d))"

definition worker_tick ::
  "('c, 'z) monitor_env_scheme \<Rightarrow> worker_inputs \<Rightarrow> monitor_view \<Rightarrow> worker \<Rightarrow> monitor_daemon \<Rightarrow>
   worker option worker_result" where
  "worker_tick env x m w d =
     (let (incident, rt) = take_due (wn_now x) (wn_wall x) (wk_runtime w); w = w\<lparr>wk_runtime := rt\<rparr>
      in worker_bind (emit_incident env (wn_emit x) (mv_id m) (mv_revision m) incident w d) (\<lambda>_ d.
         worker_bind (checkpoint_if_due env x (mv_id m) (mv_revision m) w d) (\<lambda>w d. worker_expire env x m w d)))"

definition worker_receive ::
  "('c, 'z) monitor_env_scheme \<Rightarrow> worker_inputs \<Rightarrow> monitor_view \<Rightarrow> nat \<Rightarrow> 'j timeline_event \<Rightarrow> worker \<Rightarrow>
   monitor_daemon \<Rightarrow> worker worker_result" where
  "worker_receive env x m ready_head e w d =
     (if ev_seq e \<le> ready_head \<or> ev_seq e \<le> cu_after_seq (wk_cursor w) then Some (Inr w, d)
      else worker_bind (process_monitor_event env x (mv_id m) (mv_revision m) e w d)
             (\<lambda>w d. checkpoint_if_due env x (mv_id m) (mv_revision m) w d))"

text \<open>The ends of the loop: a shutdown or a cancellation, and a stream that closes.\<close>

definition worker_cancelled ::
  "('c, 'z) monitor_env_scheme \<Rightarrow> worker_inputs \<Rightarrow> monitor_view \<Rightarrow> worker \<Rightarrow> monitor_daemon \<Rightarrow>
   worker option worker_result" where
  "worker_cancelled env x m w d =
     worker_bind (checkpoint_worker env (wn_save x) (mv_id m) (mv_revision m) w d) (\<lambda>_ d. Some (Inr None, d))"

definition worker_closed ::
  "('c, 'z) monitor_env_scheme \<Rightarrow> worker_inputs \<Rightarrow> monitor_view \<Rightarrow> worker \<Rightarrow> monitor_daemon \<Rightarrow>
   worker option worker_result" where
  "worker_closed env x m w d =
     worker_bind (checkpoint_worker env (wn_save x) (mv_id m) (mv_revision m) w d)
       (\<lambda>_ d. Some (Inl (MonRuntime (lit ''port event stream closed'')), d))"

end
