(* ===== verification/MonitorProps.thy ===== *)
theory MonitorProps
  imports MonitorStore
begin

text \<open>
  The invariant of the monitor catalog and that every operation keeps it: the bounds the code states,
  identifiers that agree with their keys, specifications that are valid, incidents numbered in order
  and counters that agree with the incidents.
\<close>

section \<open>Sums over a map\<close>

definition bt_sum :: "('v \<Rightarrow> nat) \<Rightarrow> ('k, 'v) btree \<Rightarrow> nat" where
  "bt_sum f m = sum_list (map f (bt_values m))"

lemma bt_sum_simps [simp]: "bt_sum f [] = 0" "bt_sum f ((k, v) # m) = f v + bt_sum f m"
  by (simp_all add: bt_sum_def bt_values_def)

definition at_key :: "('v \<Rightarrow> nat) \<Rightarrow> 'v option \<Rightarrow> nat" where
  "at_key f v = (case v of None \<Rightarrow> 0 | Some x \<Rightarrow> f x)"

lemma bt_get_Cons: "bt_get ((k', v) # m) k = (if k = k' then Some v else bt_get m k)"
  by (simp add: bt_get_def)

lemma bt_get_Nil [simp]: "bt_get [] k = None"
  by (simp add: bt_get_def)

lemma bt_get_absent: "\<forall>x \<in> set (bt_keys m). k < x \<Longrightarrow> bt_get m k = None"
  for k :: "'k::linorder"
proof -
  assume "\<forall>x \<in> set (bt_keys m). k < x"
  then have "k \<notin> set (bt_keys m)" by auto
  then show ?thesis using bt_contains_keys [of m k] by (simp add: bt_contains_def)
qed

lemma bt_sum_insert:
  "bt_wf m \<Longrightarrow> bt_sum f (bt_insert k v m) + at_key f (bt_get m k) = bt_sum f m + f v"
proof (induction k v m rule: bt_insert.induct)
  case (2 k v k' v' m)
  show ?case
  proof (cases "k < k'")
    case True
    with 2 have "bt_get m k = None" by (intro bt_get_absent) (auto dest: order.strict_trans)
    with True show ?thesis by (auto simp: bt_get_Cons at_key_def)
  next
    case False
    with 2 show ?thesis by (auto simp: bt_get_Cons at_key_def)
  qed
qed (simp add: at_key_def)

lemma bt_sum_remove:
  "bt_wf m \<Longrightarrow> bt_sum f (bt_remove k m) + at_key f (bt_get m k) = bt_sum f m"
proof (induction m)
  case (Cons x m)
  obtain k' v where x: "x = (k', v)" by (cases x)
  have "bt_remove k m = m" if "bt_get m k = None"
    using that unfolding bt_remove_def filter_id_conv by (force simp: bt_get_def map_of_eq_None_iff)
  with Cons show ?case
    by (auto simp: x bt_remove_def bt_get_Cons at_key_def bt_get_absent)
qed (simp add: bt_remove_def at_key_def)

lemma length_bt_sum: "length m = bt_sum (\<lambda>_. 1) m"
  by (induction m) auto

lemma incident_total_sum: "incident_total s = bt_sum length (mp_incidents s)"
  by (simp add: incident_total_def bt_sum_def)

lemma running_count_sum: "running_count s = bt_sum (\<lambda>m. of_bool (mv_status m = MonRunning)) (mp_monitors s)"
proof -
  have "length (filter P xs) = sum_list (map (\<lambda>x. of_bool (P x)) xs)" for P and xs :: "'a list"
    by (induction xs) auto
  then show ?thesis by (simp add: running_count_def bt_sum_def)
qed

lemma at_key_le: "bt_wf m \<Longrightarrow> at_key f (bt_get m k) \<le> bt_sum f m"
  using bt_sum_remove [of m f k] by linarith

section \<open>The invariant\<close>

text \<open>
  The flag \<open>ord\<close> asks for what holds only of orderly runs (see \<open>monitor_step\<close>): incidents in the order of
  their numbers, none above the job's count, and exact counts of those not acknowledged. Without it the
  invariant is what holds of every run.
\<close>

definition monitor_ok :: "bool \<Rightarrow> 'c regex_api \<Rightarrow> monitor_incident list \<Rightarrow> uuid \<Rightarrow> monitor_view \<Rightarrow> bool" where
  "monitor_ok ord rx is i m \<longleftrightarrow>
     mv_id m = i \<and> validate_spec rx (mv_spec m) = Inr () \<and> length is \<le> MAX_INCIDENTS_PER_MONITOR \<and>
     (\<forall>x \<in> set is. mi_monitor_id x = i) \<and>
     (ord \<longrightarrow> sorted_wrt (<) (map mi_incident_seq is) \<and>
        (\<forall>x \<in> set is. 0 < mi_incident_seq x \<and> mi_incident_seq x \<le> mv_incident_count m))"

text \<open>Without the counters of unacknowledged incidents, which an operation may leave to the end.\<close>

definition catalog_ok :: "bool \<Rightarrow> 'c regex_api \<Rightarrow> monitor_state \<Rightarrow> bool" where
  "catalog_ok ord rx s \<longleftrightarrow>
     mp_schema_version s = STATE_SCHEMA_VERSION \<and>
     bt_wf (mp_monitors s) \<and> bt_wf (mp_incidents s) \<and> bt_wf (mp_checkpoints s) \<and>
     length (mp_monitors s) \<le> MAX_MONITORS \<and> running_count s \<le> MAX_ACTIVE_MONITORS \<and>
     incident_total s \<le> MAX_INCIDENTS_TOTAL \<and>
     (\<forall>i m. bt_get (mp_monitors s) i = Some m \<longrightarrow> monitor_ok ord rx (incidents_of s i) i m) \<and>
     (\<forall>i. bt_get (mp_incidents s) i \<noteq> None \<longrightarrow> bt_get (mp_monitors s) i \<noteq> None)"

definition counts_exact :: "monitor_state \<Rightarrow> bool" where
  "counts_exact s \<longleftrightarrow>
     (\<forall>i m. bt_get (mp_monitors s) i = Some m \<longrightarrow> mv_unacked_incident_count m = unacked (incidents_of s i))"

definition monitors_inv :: "bool \<Rightarrow> 'c regex_api \<Rightarrow> monitor_state \<Rightarrow> bool" where
  "monitors_inv ord rx s \<longleftrightarrow> catalog_ok ord rx s \<and> (ord \<longrightarrow> counts_exact s)"

text \<open>The whole invariant.\<close>

abbreviation monitor_inv :: "'c regex_api \<Rightarrow> monitor_state \<Rightarrow> bool" where
  "monitor_inv \<equiv> monitors_inv True"

lemma monitors_inv_weaken: "monitors_inv ord rx s \<Longrightarrow> monitors_inv False rx s"
  by (auto simp: monitors_inv_def catalog_ok_def monitor_ok_def)

lemma monitor_inv_default: "monitors_inv ord rx monitor_state_default"
  by (simp add: monitors_inv_def catalog_ok_def counts_exact_def monitor_state_default_def bt_empty_def
      running_count_sum incident_total_sum)

lemma incidents_of_cong [simp]:
  "incidents_of (s\<lparr>mp_monitors := ms\<rparr>) = incidents_of s"
  "incidents_of (s\<lparr>mp_checkpoints := cs\<rparr>) = incidents_of s"
  by (auto simp: incidents_of_def)

lemma incidents_of_insert [simp]:
  "incidents_of (s\<lparr>mp_incidents := bt_insert i is (mp_incidents s)\<rparr>) j = (if j = i then is else incidents_of s j)"
  by (simp add: incidents_of_def bt_get_insert)

lemma incident_total_cong [simp]:
  "incident_total (s\<lparr>mp_monitors := ms\<rparr>) = incident_total s"
  "incident_total (s\<lparr>mp_checkpoints := cs\<rparr>) = incident_total s"
  by (simp_all add: incident_total_def)

lemma running_count_cong [simp]:
  "running_count (s\<lparr>mp_incidents := is\<rparr>) = running_count s"
  "running_count (s\<lparr>mp_checkpoints := cs\<rparr>) = running_count s"
  by (simp_all add: running_count_def)

lemma monitor_okD: "catalog_ok ord rx s \<Longrightarrow> bt_get (mp_monitors s) i = Some m \<Longrightarrow> monitor_ok ord rx (incidents_of s i) i m"
  by (simp add: catalog_ok_def)

text \<open>Changing one view.\<close>

lemma length_replace:
  "bt_wf m \<Longrightarrow> bt_get m k = Some w \<Longrightarrow> length (bt_insert k v m) = length m"
  by (simp add: length_bt_insert bt_contains_def)

lemma running_replace:
  assumes "bt_wf (mp_monitors s)" "bt_get (mp_monitors s) i = Some m"
  shows "running_count (s\<lparr>mp_monitors := bt_insert i m' (mp_monitors s)\<rparr>) + of_bool (mv_status m = MonRunning) =
    running_count s + of_bool (mv_status m' = MonRunning)"
  using bt_sum_insert [OF assms(1), of "\<lambda>m. of_bool (mv_status m = MonRunning)" i m'] assms(2)
  by (simp add: running_count_sum at_key_def)

lemma catalog_replace:
  assumes s: "catalog_ok ord rx s" "bt_get (mp_monitors s) i = Some m" and m': "monitor_ok ord rx (incidents_of s i) i m'"
    and r: "mv_status m' = MonRunning \<Longrightarrow> mv_status m = MonRunning \<or> running_count s < MAX_ACTIVE_MONITORS"
  shows "catalog_ok ord rx (s\<lparr>mp_monitors := bt_insert i m' (mp_monitors s)\<rparr>)"
proof -
  have w: "bt_wf (mp_monitors s)" and c: "running_count s \<le> MAX_ACTIVE_MONITORS" using s by (auto simp: catalog_ok_def)
  have "running_count (s\<lparr>mp_monitors := bt_insert i m' (mp_monitors s)\<rparr>) \<le> MAX_ACTIVE_MONITORS"
    using running_replace [OF w s(2), of m'] r c
    by (cases "mv_status m' = MonRunning"; cases "mv_status m = MonRunning") simp_all
  then show ?thesis
    using s m' length_replace [OF w s(2), of m']
    by (auto simp: catalog_ok_def bt_get_insert bt_wf_insert split: if_splits)
qed

lemma counts_replace:
  assumes "counts_exact s" "bt_get (mp_monitors s) i = Some m"
    "mv_unacked_incident_count m' = mv_unacked_incident_count m"
  shows "counts_exact (s\<lparr>mp_monitors := bt_insert i m' (mp_monitors s)\<rparr>)"
  using assms by (auto simp: counts_exact_def bt_get_insert)

lemma inv_replace:
  assumes "monitors_inv ord rx s" "bt_get (mp_monitors s) i = Some m"
    and "mv_id m' = mv_id m" "validate_spec rx (mv_spec m') = Inr ()"
    and "ord \<Longrightarrow> mv_incident_count m' = mv_incident_count m \<and>
      mv_unacked_incident_count m' = mv_unacked_incident_count m"
    and "mv_status m' = MonRunning \<Longrightarrow> mv_status m = MonRunning \<or> running_count s < MAX_ACTIVE_MONITORS"
  shows "monitors_inv ord rx (s\<lparr>mp_monitors := bt_insert i m' (mp_monitors s)\<rparr>)"
proof -
  have "monitor_ok ord rx (incidents_of s i) i m" using assms(1,2) by (auto simp: monitors_inv_def dest: monitor_okD)
  then have "monitor_ok ord rx (incidents_of s i) i m'" using assms by (simp add: monitor_ok_def)
  with assms show ?thesis
    by (auto simp: monitors_inv_def intro!: catalog_replace counts_replace)
qed

lemma inv_checkpoint:
  "monitors_inv ord rx s \<Longrightarrow> monitors_inv ord rx (s\<lparr>mp_checkpoints := bt_insert i c (mp_checkpoints s)\<rparr>)"
  by (simp add: monitors_inv_def catalog_ok_def counts_exact_def bt_wf_insert)

lemma catalog_checkpoint:
  "catalog_ok ord rx s \<Longrightarrow> catalog_ok ord rx (s\<lparr>mp_checkpoints := bt_insert i c (mp_checkpoints s)\<rparr>)"
  by (simp add: catalog_ok_def bt_wf_insert)

section \<open>Changes of one job\<close>

text \<open>The changes a worker makes to its own job.\<close>

definition keeps_counts :: "(monitor_view \<Rightarrow> monitor_view) \<Rightarrow> bool" where
  "keeps_counts f \<longleftrightarrow>
     (\<forall>m. mv_id (f m) = mv_id m \<and> mv_incident_count (f m) = mv_incident_count m \<and> mv_spec (f m) = mv_spec m \<and>
          mv_unacked_incident_count (f m) = mv_unacked_incident_count m)"

lemma change_running_inv:
  assumes "keeps_counts f" "monitors_inv ord rx s" "change_running i revision f s = (r, s')"
  shows "monitors_inv ord rx s'"
proof (cases "bt_get (mp_monitors s) i")
  case (Some m)
  have "validate_spec rx (mv_spec m) = Inr ()"
    using assms(2) Some by (auto simp: monitors_inv_def monitor_ok_def dest: monitor_okD)
  then have "mv_status m = MonRunning \<Longrightarrow> monitors_inv ord rx (s\<lparr>mp_monitors := bt_insert i (f m) (mp_monitors s)\<rparr>)"
    using assms by (intro inv_replace [OF assms(2) Some]) (auto simp: keeps_counts_def)
  with assms Some show ?thesis by (auto simp: change_running_def split: if_splits)
qed (use assms in \<open>auto simp: change_running_def\<close>)

text \<open>
  The view \<open>update\<close> writes is the one it read, with new terms. What it must be in itself to be
  written later (\<open>prepared\<close>), and how it relates to the job at that time in an orderly run.
\<close>

definition prepared :: "'c regex_api \<Rightarrow> uuid \<Rightarrow> monitor_view \<Rightarrow> bool" where
  "prepared rx i u \<longleftrightarrow> mv_id u = i \<and> validate_spec rx (mv_spec u) = Inr ()"

definition same_counts :: "monitor_view \<Rightarrow> monitor_view \<Rightarrow> bool" where
  "same_counts m u \<longleftrightarrow>
     mv_incident_count u = mv_incident_count m \<and> mv_unacked_incident_count u = mv_unacked_incident_count m"

definition renewed :: "'c regex_api \<Rightarrow> monitor_view \<Rightarrow> monitor_view \<Rightarrow> bool" where
  "renewed rx m u \<longleftrightarrow>
     mv_id u = mv_id m \<and> same_counts m u \<and> validate_spec rx (mv_spec u) = Inr () \<and>
     mv_revision u = saturating_add_u64 (mv_revision m) 1 \<and> mv_status u = MonRunning"

lemma update_prepare_renews:
  assumes "update_prepare env slots now i r d = Inr (u, cursor)"
  shows "\<exists>m. bt_get (mp_monitors (md_state d)) i = Some m \<and> mv_revision m = um_expected_revision r \<and>
    renewed (me_rx env) m u \<and> mv_spec u = (um_spec r)\<lparr>sp_start_cursor := Some cursor\<rparr>"
  using assms
  by (auto simp: update_prepare_def res_simps get_view_def renewed_def same_counts_def validate_spec_cursor
      split: if_splits)

lemma update_prepare_ready:
  assumes "update_prepare env slots now i r d = Inr (u, cursor)" "monitors_inv ord (me_rx env) (md_state d)"
  shows "prepared (me_rx env) i u"
proof -
  obtain m where m: "bt_get (mp_monitors (md_state d)) i = Some m" "renewed (me_rx env) m u"
    using update_prepare_renews [OF assms(1)] by blast
  have "catalog_ok ord (me_rx env) (md_state d)" using assms(2) by (simp add: monitors_inv_def)
  from monitor_okD [OF this m(1)] m show ?thesis by (simp add: prepared_def renewed_def monitor_ok_def)
qed

lemma update_change_inv:
  assumes s: "monitors_inv ord rx s" and u: "prepared rx i u"
    and o: "\<And>m. ord \<Longrightarrow> bt_get (mp_monitors s) i = Some m \<Longrightarrow> mv_revision m = revision \<Longrightarrow> same_counts m u"
    and c: "update_change i revision u cursor s = (r, s')"
  shows "monitors_inv ord rx s'"
proof (cases "bt_get (mp_monitors s) i")
  case (Some m)
  have "catalog_ok ord rx s" using s by (simp add: monitors_inv_def)
  from monitor_okD [OF this Some] have "mv_id m = i" by (simp add: monitor_ok_def)
  then have "monitors_inv ord rx (s\<lparr>mp_monitors := bt_insert i u (mp_monitors s)\<rparr>)"
    if "mv_revision m = revision" "\<not> (mv_status m \<noteq> MonRunning \<and> MAX_ACTIVE_MONITORS \<le> running_count s)"
    using that u o [OF _ Some] by (intro inv_replace [OF s Some]) (auto simp: prepared_def same_counts_def)
  from inv_checkpoint [OF this] c s Some show ?thesis
    by (auto simp: update_change_def split: if_splits)
qed (use s c in \<open>simp add: update_change_def\<close>)

lemma stop_change_inv:
  assumes s: "monitors_inv ord rx s" and c: "stop_change i revision now s = (r, s')"
  shows "monitors_inv ord rx s'"
proof (cases "bt_get (mp_monitors s) i")
  case (Some m)
  have "validate_spec rx (mv_spec m) = Inr ()"
    using s Some by (auto simp: monitors_inv_def monitor_ok_def dest: monitor_okD)
  then have "monitors_inv ord rx (s\<lparr>mp_monitors :=
      bt_insert i (m\<lparr>mv_status := MonStopped, mv_stopped_wall_time_ns := Some now,
        mv_revision := saturating_add_u64 (mv_revision m) 1\<rparr>) (mp_monitors s)\<rparr>)"
    by (intro inv_replace [OF s Some]) auto
  with s c Some show ?thesis by (auto simp: stop_change_def split: if_splits)
qed (use s c in \<open>auto simp: stop_change_def\<close>)

section \<open>Removal\<close>

lemma incidents_of_remove [simp]: "incidents_of (remove_monitor i s) j = (if j = i then [] else incidents_of s j)"
  by (simp add: incidents_of_def remove_monitor_def bt_get_remove)

lemma remove_monitor_inv:
  assumes s: "monitors_inv ord rx s"
  shows "monitors_inv ord rx (remove_monitor i s)"
proof -
  have w: "bt_wf (mp_monitors s)" "bt_wf (mp_incidents s)" "bt_wf (mp_checkpoints s)"
    using s by (auto simp: monitors_inv_def catalog_ok_def)
  have "length (mp_monitors (remove_monitor i s)) \<le> length (mp_monitors s)"
    "running_count (remove_monitor i s) \<le> running_count s" "incident_total (remove_monitor i s) \<le> incident_total s"
    using bt_sum_remove [OF w(1), of "\<lambda>_. 1" i] bt_sum_remove [OF w(1), of "\<lambda>m. of_bool (mv_status m = MonRunning)" i]
      bt_sum_remove [OF w(2), of length i]
    by (simp_all add: remove_monitor_def length_bt_sum running_count_sum incident_total_sum)
  moreover have "bt_get (mp_monitors (remove_monitor i s)) j = (if j = i then None else bt_get (mp_monitors s) j)"
    "bt_get (mp_incidents (remove_monitor i s)) j = (if j = i then None else bt_get (mp_incidents s) j)" for j
    by (simp_all add: remove_monitor_def bt_get_remove)
  moreover have "bt_wf (mp_monitors (remove_monitor i s))" "bt_wf (mp_incidents (remove_monitor i s))"
    "bt_wf (mp_checkpoints (remove_monitor i s))" "mp_schema_version (remove_monitor i s) = mp_schema_version s"
    using w by (simp_all add: remove_monitor_def bt_wf_remove)
  ultimately show ?thesis using s
    by (auto simp: monitors_inv_def catalog_ok_def counts_exact_def split: if_splits)
qed

lemma delete_change_inv:
  "monitors_inv ord rx s \<Longrightarrow> delete_change i revision s = (r, s') \<Longrightarrow> monitors_inv ord rx s'"
  by (auto simp: delete_change_def remove_monitor_inv split: option.splits if_splits)

lemma min_by_None [simp]: "min_by f xs = None \<longleftrightarrow> xs = []"
  by (cases xs) (auto split: option.splits)

lemma min_by_Some: "min_by f xs = Some y \<Longrightarrow> y \<in> set xs \<and> (\<forall>x \<in> set xs. f y \<le> f x)"
proof (induction xs arbitrary: y)
  case (Cons x xs)
  show ?case
  proof (cases "min_by f xs")
    case (Some z)
    with Cons.IH [of z] Cons.prems show ?thesis by (auto split: if_splits)
  qed (use Cons.prems in auto)
qed simp

lemma bt_values_get:
  assumes "bt_wf m" "v \<in> set (bt_values m)"
  shows "\<exists>k. bt_get m k = Some v"
  using assms by (auto simp: bt_values_def bt_get_eq)

text \<open>Making room takes only finished jobs, the whole of each, and succeeds unless all are running.\<close>

definition pruned_of :: "monitor_state \<Rightarrow> monitor_state \<Rightarrow> bool" where
  "pruned_of s s' \<longleftrightarrow>
     (\<forall>i. (bt_get (mp_monitors s') i = bt_get (mp_monitors s) i \<and> incidents_of s' i = incidents_of s i) \<or>
          (bt_get (mp_monitors s') i = None \<and>
           (\<exists>m. bt_get (mp_monitors s) i = Some m \<and> mv_status m \<noteq> MonRunning)))"

lemma pruned_of_refl: "pruned_of s s"
  by (simp add: pruned_of_def)

lemma pruned_of_trans: "pruned_of s t \<Longrightarrow> pruned_of t u \<Longrightarrow> pruned_of s u"
  unfolding pruned_of_def by (metis option.distinct(1))

lemma prune_monitor_capacity_ok:
  "monitors_inv ord rx s \<Longrightarrow>
   \<exists>s'. prune_monitor_capacity s = Some s' \<and> monitors_inv ord rx s' \<and> pruned_of s s' \<and>
     running_count s' = running_count s \<and> (running_count s < MAX_MONITORS \<longrightarrow> length (mp_monitors s') < MAX_MONITORS)"
proof (induction "length (mp_monitors s)" arbitrary: s rule: less_induct)
  case less
  have w: "bt_wf (mp_monitors s)" using less.prems by (simp add: monitors_inv_def catalog_ok_def)
  let ?stopped = "filter (\<lambda>m. mv_status m \<noteq> MonRunning) (bt_values (mp_monitors s))"
  show ?case
  proof (cases "MAX_MONITORS \<le> length (mp_monitors s)")
    case False
    then show ?thesis using less.prems by (simp add: prune_monitor_capacity.simps [of s] pruned_of_refl)
  next
    case True
    show ?thesis
    proof (cases "min_by (prune_key s) ?stopped")
      case None
      then have "\<forall>m \<in> set (bt_values (mp_monitors s)). mv_status m = MonRunning" by (simp add: filter_empty_conv)
      then have "running_count s = length (mp_monitors s)"
        by (simp add: running_count_def filter_True bt_values_def)
      with None True less.prems show ?thesis
        by (simp add: prune_monitor_capacity.simps [of s] pruned_of_refl)
    next
      case (Some m)
      then have m: "m \<in> set (bt_values (mp_monitors s))" "mv_status m \<noteq> MonRunning"
        using min_by_Some by fastforce+
      then obtain i where i: "bt_get (mp_monitors s) i = Some m" using bt_values_get [OF w] by blast
      then have id: "mv_id m = i" using less.prems by (auto simp: monitors_inv_def monitor_ok_def dest: monitor_okD)
      let ?t = "remove_monitor i s"
      have t: "monitors_inv ord rx ?t" by (rule remove_monitor_inv [OF less.prems])
      have "length (mp_monitors ?t) < length (mp_monitors s)" "running_count ?t = running_count s"
        using bt_sum_remove [OF w, of "\<lambda>_. 1" i] bt_sum_remove [OF w, of "\<lambda>m. of_bool (mv_status m = MonRunning)" i] i m(2)
        by (simp_all add: remove_monitor_def length_bt_sum running_count_sum at_key_def)
      note IH = less.hyps [OF this(1) t] and r = this(2)
      have "pruned_of s ?t" using i m(2) by (auto simp: pruned_of_def remove_monitor_def bt_get_remove incidents_of_def)
      with IH r Some True show ?thesis
        by (auto simp: prune_monitor_capacity.simps [of s] id intro: pruned_of_trans)
    qed
  qed
qed

lemma insert_monitor_inv:
  assumes s: "monitors_inv ord rx s" and i: "bt_get (mp_monitors s) (mv_id m) = None"
    and n: "length (mp_monitors s) < MAX_MONITORS" "running_count s < MAX_ACTIVE_MONITORS"
    and m: "validate_spec rx (mv_spec m) = Inr ()" "mv_unacked_incident_count m = 0"
  shows "monitors_inv ord rx (insert_monitor m cursor s)"
proof -
  have w: "bt_wf (mp_monitors s)" "bt_wf (mp_incidents s)" "bt_wf (mp_checkpoints s)"
    using s by (auto simp: monitors_inv_def catalog_ok_def)
  have none: "bt_get (mp_incidents s) (mv_id m) = None" using s i by (auto simp: monitors_inv_def catalog_ok_def)
  let ?t = "insert_monitor m cursor s"
  have t: "?t = s\<lparr>mp_monitors := bt_insert (mv_id m) m (mp_monitors s),
      mp_incidents := bt_insert (mv_id m) [] (mp_incidents s),
      mp_checkpoints := bt_insert (mv_id m) (fresh_checkpoint cursor) (mp_checkpoints s)\<rparr>"
    using none by (simp add: insert_monitor_def bt_contains_def)
  have "length (mp_monitors ?t) = Suc (length (mp_monitors s))"
    using length_bt_insert [OF w(1)] i by (simp add: t bt_contains_def)
  moreover have "running_count ?t \<le> Suc (running_count s)" "incident_total ?t = incident_total s"
    using bt_sum_insert [OF w(1), of "\<lambda>m. of_bool (mv_status m = MonRunning)" "mv_id m" m]
      bt_sum_insert [OF w(2), of length "mv_id m" "[]"] i none
    by (simp_all add: t running_count_sum incident_total_sum at_key_def)
  moreover have "incidents_of ?t j = incidents_of s j" "incidents_of s (mv_id m) = []" for j
    using none by (auto simp: t incidents_of_def bt_get_insert)
  moreover have "bt_get (mp_monitors ?t) j = (if j = mv_id m then Some m else bt_get (mp_monitors s) j)"
    "bt_get (mp_incidents ?t) j = (if j = mv_id m then Some [] else bt_get (mp_incidents s) j)" for j
    by (simp_all add: t bt_get_insert)
  moreover have "bt_wf (mp_monitors ?t)" "bt_wf (mp_incidents ?t)" "bt_wf (mp_checkpoints ?t)"
    "mp_schema_version ?t = mp_schema_version s"
    using w by (simp_all add: t bt_wf_insert)
  ultimately show ?thesis using s n m
    by (auto simp: monitors_inv_def catalog_ok_def counts_exact_def monitor_ok_def unacked_def split: if_splits)
qed

section \<open>Acknowledgement\<close>

lemma acknowledge_first_spec:
  "acknowledge_first i now is = Some (fresh, is') \<Longrightarrow>
   (if fresh then unacked is = Suc (unacked is') else is' = is) \<and> length is' = length is \<and>
   map mi_incident_seq is' = map mi_incident_seq is \<and> map mi_monitor_id is' = map mi_monitor_id is \<and>
   map mi_id is' = map mi_id is \<and> map mi_created_wall_time_ns is' = map mi_created_wall_time_ns is"
  by (induction i now "is" arbitrary: fresh is' rule: acknowledge_first.induct)
    (auto simp: unacked_def split: if_splits)

lemma monitor_ok_same:
  assumes "map mi_incident_seq is' = map mi_incident_seq is" "map mi_monitor_id is' = map mi_monitor_id is"
    "monitor_ok ord rx is i m"
  shows "monitor_ok ord rx is' i m"
proof -
  have "length is' = length is" using assms(1) map_eq_imp_length_eq by blast
  moreover have eq: "monitor_ok ord rx xs i m \<longleftrightarrow>
      mv_id m = i \<and> validate_spec rx (mv_spec m) = Inr () \<and> length xs \<le> MAX_INCIDENTS_PER_MONITOR \<and>
      (\<forall>x \<in> set (map mi_monitor_id xs). x = i) \<and>
      (ord \<longrightarrow> sorted_wrt (<) (map mi_incident_seq xs) \<and>
         (\<forall>x \<in> set (map mi_incident_seq xs). 0 < x \<and> x \<le> mv_incident_count m))" for xs
    by (auto simp: monitor_ok_def)
  ultimately show ?thesis using assms(3) unfolding eq assms(1,2) by simp
qed

lemma ack_change_inv:
  assumes s: "monitors_inv ord rx s" and c: "ack_change i incident now s = (r, s')"
  shows "monitors_inv ord rx s'"
proof (cases "bt_get (mp_incidents s) i")
  case (Some "is")
  have w: "bt_wf (mp_incidents s)" "bt_wf (mp_monitors s)" using s by (auto simp: monitors_inv_def catalog_ok_def)
  show ?thesis
  proof (cases "acknowledge_first incident now is")
    case None
    with s c Some show ?thesis by (simp add: ack_change_def)
  next
    case (Some a)
    obtain fresh is' where a: "a = (fresh, is')" by (cases a)
    note k = acknowledge_first_spec [OF Some [unfolded a]]
    obtain m where m: "bt_get (mp_monitors s) i = Some m"
      using s \<open>bt_get (mp_incidents s) i = Some is\<close> by (fastforce simp: monitors_inv_def catalog_ok_def)
    show ?thesis
    proof (cases fresh)
      case False
      with s c Some a \<open>bt_get (mp_incidents s) i = Some is\<close> show ?thesis by (simp add: ack_change_def)
    next
      case True
      let ?m = "m\<lparr>mv_unacked_incident_count := mv_unacked_incident_count m - 1\<rparr>"
      let ?t = "s\<lparr>mp_incidents := bt_insert i is' (mp_incidents s)\<rparr>"
      have s': "s' = ?t\<lparr>mp_monitors := bt_insert i ?m (mp_monitors ?t)\<rparr>"
        using c Some a True m \<open>bt_get (mp_incidents s) i = Some is\<close> by (simp add: ack_change_def)
      have stored: "incidents_of s i = is" using \<open>bt_get (mp_incidents s) i = Some is\<close> by (simp add: incidents_of_def)
      have "incident_total ?t = incident_total s"
        using bt_sum_insert [OF w(1), of length i is'] k \<open>bt_get (mp_incidents s) i = Some is\<close>
        by (simp add: incident_total_sum at_key_def)
      then have t: "catalog_ok ord rx ?t"
        using s k stored monitor_ok_same [of is' "is" ord rx i] \<open>bt_get (mp_incidents s) i = Some is\<close>
        by (auto simp: monitors_inv_def catalog_ok_def bt_wf_insert bt_get_insert split: if_splits)
      have "monitor_ok ord rx (incidents_of ?t i) i m" using m by (intro monitor_okD [OF t]) simp
      then have "monitor_ok ord rx (incidents_of ?t i) i ?m" by (simp add: monitor_ok_def)
      then have "catalog_ok ord rx s'" unfolding s' using m by (intro catalog_replace [OF t, of i m]) simp_all
      moreover have "ord \<longrightarrow> counts_exact s'"
        using s m k True stored unfolding s'
        by (auto simp: monitors_inv_def counts_exact_def bt_get_insert)
      ultimately show ?thesis by (simp add: monitors_inv_def)
    qed
  qed
qed (use s c in \<open>auto simp: ack_change_def\<close>)

section \<open>Recording an incident\<close>

text \<open>What pruning an incident leaves of the jobs: all but the gap counter and the last error.\<close>

definition same_job :: "monitor_view \<Rightarrow> monitor_view \<Rightarrow> bool" where
  "same_job m m' \<longleftrightarrow>
     mv_id m' = mv_id m \<and> mv_spec m' = mv_spec m \<and> mv_status m' = mv_status m \<and> mv_revision m' = mv_revision m \<and>
     mv_incident_count m' = mv_incident_count m"

definition same_jobs :: "monitor_state \<Rightarrow> monitor_state \<Rightarrow> bool" where
  "same_jobs s s' \<longleftrightarrow> (\<forall>i. rel_option same_job (bt_get (mp_monitors s) i) (bt_get (mp_monitors s') i))"

lemma same_jobs_refl [simp]: "same_jobs s s"
  by (auto simp: same_jobs_def same_job_def intro: option.rel_refl)

lemma same_jobs_trans: "same_jobs s t \<Longrightarrow> same_jobs t u \<Longrightarrow> same_jobs s u"
proof -
  have "rel_option same_job a b \<Longrightarrow> rel_option same_job b c \<Longrightarrow> rel_option same_job a c" for a b c
    by (cases a; cases b; cases c) (simp_all add: same_job_def)
  then show "same_jobs s t \<Longrightarrow> same_jobs t u \<Longrightarrow> same_jobs s u" unfolding same_jobs_def by blast
qed

lemma mark_gap:
  assumes "catalog_ok ord rx s"
  shows "catalog_ok ord rx (mark_incident_retention_gap i t s)" "same_jobs s (mark_incident_retention_gap i t s)"
    "mp_incidents (mark_incident_retention_gap i t s) = mp_incidents s"
proof -
  show "mp_incidents (mark_incident_retention_gap i t s) = mp_incidents s"
    by (simp add: mark_incident_retention_gap_def split: option.splits)
  show "catalog_ok ord rx (mark_incident_retention_gap i t s)"
  proof (cases "bt_get (mp_monitors s) i")
    case (Some m)
    have "monitor_ok ord rx (incidents_of s i) i m" by (rule monitor_okD [OF assms Some])
    then have "monitor_ok ord rx (incidents_of s i) i
        (m\<lparr>mv_gap_count := saturating_add_u64 (mv_gap_count m) 1, mv_last_error := Some t\<rparr>)"
      by (simp add: monitor_ok_def)
    from catalog_replace [OF assms Some this] Some show ?thesis by (simp add: mark_incident_retention_gap_def)
  qed (use assms in \<open>simp add: mark_incident_retention_gap_def\<close>)
  show "same_jobs s (mark_incident_retention_gap i t s)"
    by (auto simp: same_jobs_def mark_incident_retention_gap_def bt_get_insert same_job_def
        intro: option.rel_refl split: option.splits)
qed

definition without :: "nat \<Rightarrow> 'a list \<Rightarrow> 'a list" where
  "without j xs = take j xs @ drop (Suc j) xs"

lemma without_simps [simp]: "without 0 (x # xs) = xs" "without (Suc j) (x # xs) = x # without j xs" "without j [] = []"
  by (simp_all add: without_def)

lemma length_without: "j < length xs \<Longrightarrow> Suc (length (without j xs)) = length xs"
  by (simp add: without_def)

lemma without_subseq: "set (without j xs) \<subseteq> set xs" "sorted_wrt P xs \<Longrightarrow> sorted_wrt P (without j xs)"
  "map f (without j xs) = without j (map f xs)"
proof -
  show "set (without j xs) \<subseteq> set xs" by (auto simp: without_def dest: in_set_takeD in_set_dropD)
  show "sorted_wrt P xs \<Longrightarrow> sorted_wrt P (without j xs)"
    by (induction xs arbitrary: j) (case_tac j; auto simp: without_def dest: in_set_takeD in_set_dropD)+
  show "map f (without j xs) = without j (map f xs)" by (simp add: without_def take_map drop_map)
qed

lemma drop_incident:
  assumes s: "catalog_ok ord rx s" and i: "bt_get (mp_incidents s) i = Some is" "j < length is"
  defines "t \<equiv> s\<lparr>mp_incidents := bt_insert i (without j is) (mp_incidents s)\<rparr>"
  shows "catalog_ok ord rx t" "Suc (incident_total t) = incident_total s" "same_jobs s t"
proof -
  have w: "bt_wf (mp_incidents s)" using s by (simp add: catalog_ok_def)
  show total: "Suc (incident_total t) = incident_total s"
    using bt_sum_insert [OF w, of length i "without j is"] i length_without [OF i(2)]
    by (simp add: t_def incident_total_sum at_key_def)
  show "same_jobs s t" by (simp add: same_jobs_def t_def same_job_def option.rel_refl)
  have stored: "incidents_of s i = is" by (simp add: incidents_of_def i)
  have "monitor_ok ord rx (without j is) i m" if "monitor_ok ord rx is i m" for m
    using that length_without [OF i(2)]
    by (auto simp: monitor_ok_def without_subseq dest!: subsetD [OF without_subseq(1)])
  then show "catalog_ok ord rx t"
    using s i total stored
    by (auto simp: catalog_ok_def t_def bt_wf_insert bt_get_insert split: if_splits)
qed

lemma prune_one_monitor_ok:
  fixes i :: uuid
  assumes s: "catalog_ok ord rx s"
  defines "t \<equiv> prune_one_monitor_incident i s"
  shows "catalog_ok ord rx t" "same_jobs s t" "incidents_of t i = tl (incidents_of s i)"
    "j \<noteq> i \<Longrightarrow> incidents_of t j = incidents_of s j"
    "incident_total t \<le> incident_total s"
proof -
  have "catalog_ok ord rx t \<and> same_jobs s t \<and> incidents_of t i = tl (incidents_of s i) \<and>
    (\<forall>j. j \<noteq> i \<longrightarrow> incidents_of t j = incidents_of s j) \<and> incident_total t \<le> incident_total s"
  proof (cases "bt_get (mp_incidents s) i")
    case None
    with s show ?thesis by (simp add: t_def prune_one_monitor_incident_def incidents_of_def)
  next
    case (Some "is")
    show ?thesis
    proof (cases "is")
      case Nil
      with Some s show ?thesis by (simp add: t_def prune_one_monitor_incident_def incidents_of_def)
    next
      case (Cons x xs)
      note d = drop_incident [OF s Some, of 0, unfolded Cons without_simps]
      let ?u = "s\<lparr>mp_incidents := bt_insert i xs (mp_incidents s)\<rparr>"
      have t: "t = mark_incident_retention_gap i (lit ''oldest retained Incident was pruned at the per-Monitor capacity'') ?u"
        using Some Cons by (simp add: t_def prune_one_monitor_incident_def)
      have "catalog_ok ord rx ?u" "same_jobs s ?u" "incident_total ?u \<le> incident_total s" using d by simp_all
      moreover have "incidents_of t j = incidents_of ?u j" "incident_total t = incident_total ?u" for j
        using mark_gap(3) [OF \<open>catalog_ok ord rx ?u\<close>] by (simp_all add: t incidents_of_def incident_total_def)
      ultimately show ?thesis
        using mark_gap(1,2) [OF \<open>catalog_ok ord rx ?u\<close>] Some Cons
        by (auto simp: t incidents_of_def bt_get_insert intro: same_jobs_trans)
    qed
  qed
  then show "catalog_ok ord rx t" "same_jobs s t" "incidents_of t i = tl (incidents_of s i)"
    "j \<noteq> i \<Longrightarrow> incidents_of t j = incidents_of s j" "incident_total t \<le> incident_total s"
    by blast+
qed

lemma first_split: "us @ y # vs = us' @ y # vs' \<Longrightarrow> y \<notin> set us \<Longrightarrow> y \<notin> set us' \<Longrightarrow> us = us'"
proof (induction us arbitrary: us')
  case Nil
  then show ?case by (cases us') auto
next
  case (Cons u us)
  then show ?case by (cases us') auto
qed

text \<open>The first of the oldest: what precedes it is younger.\<close>

lemma min_by_first:
  "min_by f xs = Some y \<Longrightarrow> \<exists>us vs. xs = us @ y # vs \<and> (\<forall>u \<in> set us. f y < f u) \<and> (\<forall>v \<in> set vs. f y \<le> f v)"
proof (induction xs arbitrary: y)
  case (Cons x xs)
  show ?case
  proof (cases "min_by f xs")
    case None
    with Cons.prems show ?thesis by (intro exI [of _ "[]"]) simp
  next
    case (Some z)
    then obtain us vs where z: "xs = us @ z # vs" "\<forall>u \<in> set us. f z < f u" "\<forall>v \<in> set vs. f z \<le> f v"
      using Cons.IH by blast
    show ?thesis
    proof (cases "f x \<le> f z")
      case True
      with Cons.prems Some z show ?thesis by (intro exI [of _ "[]"] exI [of _ xs]) auto
    next
      case False
      with Cons.prems Some z show ?thesis by (intro exI [of _ "x # us"] exI [of _ vs]) auto
    qed
  qed
qed simp

lemma incident_ages_get:
  assumes "bt_wf (mp_incidents s)"
  shows "(i, index, age) \<in> set (incident_ages s) \<longleftrightarrow>
    (\<exists>is. bt_get (mp_incidents s) i = Some is \<and> index < length is \<and> age = mi_created_wall_time_ns (is ! index))"
  using bt_get_eq [OF assms] by (force simp: incident_ages_def in_set_enumerate_eq)

lemma prune_one_global_ok:
  assumes s: "catalog_ok ord rx s" and n: "0 < incident_total s"
  defines "t \<equiv> prune_one_global_incident s"
  shows "catalog_ok ord rx t \<and> same_jobs s t \<and> Suc (incident_total t) = incident_total s \<and>
    (\<exists>i j. j < length (incidents_of s i) \<and> incidents_of t i = without j (incidents_of s i) \<and>
       (\<forall>k. k \<noteq> i \<longrightarrow> incidents_of t k = incidents_of s k) \<and>
       (\<forall>k < j. mi_created_wall_time_ns (incidents_of s i ! j) < mi_created_wall_time_ns (incidents_of s i ! k)))"
proof -
  have w: "bt_wf (mp_incidents s)" using s by (simp add: catalog_ok_def)
  have "incident_ages s \<noteq> []"
  proof
    assume "incident_ages s = []"
    then have "\<forall>i is. bt_get (mp_incidents s) i = Some is \<longrightarrow> is = []"
      using incident_ages_get [OF w] by (metis empty_iff empty_set length_greater_0_conv)
    then have "\<forall>is \<in> set (bt_values (mp_incidents s)). is = []" using bt_values_get [OF w] by blast
    then have "incident_total s = 0" by (simp add: incident_total_def)
    with n show False by simp
  qed
  then obtain i j age where a: "min_by (snd \<circ> snd) (incident_ages s) = Some (i, j, age)"
    by (metis min_by_None option.exhaust prod_cases3)
  have m: "(i, j, age) \<in> set (incident_ages s)" using min_by_Some [OF a] by simp
  then obtain "is" where i: "bt_get (mp_incidents s) i = Some is" "j < length is"
    "age = mi_created_wall_time_ns (is ! j)"
    using incident_ages_get [OF w] by blast
  have stored: "incidents_of s i = is" by (simp add: incidents_of_def i)
  let ?u = "s\<lparr>mp_incidents := bt_insert i (without j is) (mp_incidents s)\<rparr>"
  note d = drop_incident [OF s i(1,2)]
  have t: "t = mark_incident_retention_gap i (lit ''oldest retained Incident was pruned at the global capacity'') ?u"
    by (simp add: t_def prune_one_global_incident_def a i(1) without_def)
  have o: "incidents_of t k = incidents_of ?u k" "incident_total t = incident_total ?u" for k
    using mark_gap(3) [OF d(1)] by (simp_all add: t incidents_of_def incident_total_def)
  have "mi_created_wall_time_ns (is ! j) < mi_created_wall_time_ns (is ! k)" if k: "k < j" for k
  proof -
    obtain us vs where u: "incident_ages s = us @ (i, j, age) # vs" "\<forall>u \<in> set us. age < snd (snd u)"
      using min_by_first [OF a] by auto
    obtain xs ys where xs: "mp_incidents s = xs @ (i, is) # ys"
      using bt_get_Some_in [OF i(1)] by (metis split_list)
    let ?f = "\<lambda>(i, is). map (\<lambda>(index, x). (i, index, mi_created_wall_time_ns x)) (enumerate 0 is)"
    let ?l = "?f (i, is)"
    have "distinct (map fst (mp_incidents s))" using bt_wf_distinct [OF w] by (simp add: bt_keys_def)
    then have fresh: "i \<notin> fst ` set xs" by (simp add: xs)
    have "incident_ages s = concat (map ?f xs) @ ?l @ concat (map ?f ys)" by (simp add: incident_ages_def xs)
    moreover have l: "?l = take j ?l @ (i, j, age) # drop (Suc j) ?l"
      using id_take_nth_drop [of j ?l] i(2,3) by (simp add: nth_enumerate_eq)
    ultimately have "incident_ages s = (concat (map ?f xs) @ take j ?l) @ (i, j, age) # drop (Suc j) ?l @ concat (map ?f ys)"
      by simp
    moreover have "(i, j, age) \<notin> set (concat (map ?f xs) @ take j ?l)"
      using fresh by (auto simp: in_set_conv_nth nth_enumerate_eq rev_image_eqI)
    moreover have "(i, j, age) \<notin> set us" using u(2) by auto
    ultimately have "us = concat (map ?f xs) @ take j ?l"
      using first_split u(1) by metis
    moreover have "?l ! k \<in> set (take j ?l)" using k i(2) by (auto simp: in_set_conv_nth)
    ultimately have "?l ! k \<in> set us" by simp
    then have "age < snd (snd (?l ! k))" using u(2) by blast
    then show ?thesis using i k by (simp add: nth_enumerate_eq)
  qed
  with d o stored mark_gap(1,2) [OF d(1)] i(2) show ?thesis
    by (auto simp: t intro: same_jobs_trans)
qed

lemma prune_incidents_ok:
  fixes i :: uuid
  assumes s: "catalog_ok ord rx s"
  defines "t \<equiv> prune_incidents i s"
  shows "catalog_ok ord rx t" "same_jobs s t" "length (incidents_of t i) < MAX_INCIDENTS_PER_MONITOR"
    "incident_total t < MAX_INCIDENTS_TOTAL"
proof -
  let ?u = "if MAX_INCIDENTS_PER_MONITOR \<le> length (incidents_of s i) then prune_one_monitor_incident i s else s"
  have t: "t = (if MAX_INCIDENTS_TOTAL \<le> incident_total ?u then prune_one_global_incident ?u else ?u)"
    by (simp add: t_def prune_incidents_def Let_def)
  have le: "length (incidents_of s i) \<le> MAX_INCIDENTS_PER_MONITOR"
  proof (cases "bt_get (mp_monitors s) i")
    case None
    then have "bt_get (mp_incidents s) i = None" using s by (auto simp: catalog_ok_def)
    then show ?thesis by (simp add: incidents_of_def)
  next
    case (Some m)
    from monitor_okD [OF s Some] show ?thesis by (simp add: monitor_ok_def)
  qed
  have u: "catalog_ok ord rx ?u" "same_jobs s ?u" "length (incidents_of ?u i) < MAX_INCIDENTS_PER_MONITOR"
    using s prune_one_monitor_ok(1-3) [OF s, of i] le by (auto simp: MAX_INCIDENTS_PER_MONITOR_def)
  then have total: "incident_total ?u \<le> MAX_INCIDENTS_TOTAL" by (simp only: catalog_ok_def)
  have "catalog_ok ord rx t \<and> same_jobs s t \<and> length (incidents_of t i) < MAX_INCIDENTS_PER_MONITOR \<and>
    incident_total t < MAX_INCIDENTS_TOTAL"
  proof (cases "MAX_INCIDENTS_TOTAL \<le> incident_total ?u")
    case False
    with u show ?thesis unfolding t if_not_P [OF False] by simp
  next
    case True
    then have "0 < incident_total ?u" by (simp add: MAX_INCIDENTS_TOTAL_def)
    from prune_one_global_ok [OF u(1) this] obtain k j where g:
      "catalog_ok ord rx t" "same_jobs ?u t" "Suc (incident_total t) = incident_total ?u" "j < length (incidents_of ?u k)"
      "incidents_of t k = without j (incidents_of ?u k)" "\<forall>l. l \<noteq> k \<longrightarrow> incidents_of t l = incidents_of ?u l"
      unfolding t if_P [OF True] by blast
    have "length (incidents_of t i) \<le> length (incidents_of ?u i)"
      using g(4-6) by (cases "k = i") (auto simp: without_def)
    with g u total show ?thesis by (auto intro: same_jobs_trans)
  qed
  then show "catalog_ok ord rx t" "same_jobs s t" "length (incidents_of t i) < MAX_INCIDENTS_PER_MONITOR"
    "incident_total t < MAX_INCIDENTS_TOTAL"
    by blast+
qed

lemma same_jobs_get:
  "same_jobs s t \<Longrightarrow> bt_get (mp_monitors s) i = Some m \<Longrightarrow> \<exists>m'. bt_get (mp_monitors t) i = Some m' \<and> same_job m m'"
  unfolding same_jobs_def by (metis option_rel_Some1)

text \<open>Counting again makes the counters exact and changes nothing else.\<close>

lemma recompute_get:
  "bt_get (mp_monitors (recompute_unacked_counts s)) i =
     map_option (\<lambda>m. m\<lparr>mv_unacked_incident_count := unacked (incidents_of s (mv_id m))\<rparr>) (bt_get (mp_monitors s) i)"
  by (simp add: recompute_unacked_counts_def bt_get_def map_of_map prod.case_eq_if split_beta comp_def)

lemma recompute_inv:
  assumes "catalog_ok ord rx s"
  shows "monitors_inv ord rx (recompute_unacked_counts s)"
proof -
  let ?t = "recompute_unacked_counts s"
  have "bt_keys (mp_monitors ?t) = bt_keys (mp_monitors s)"
    by (simp add: recompute_unacked_counts_def bt_keys_def comp_def case_prod_beta)
  then have w: "bt_wf (mp_monitors ?t) = bt_wf (mp_monitors s)" by (simp add: bt_wf_def)
  have "bt_sum f (map (\<lambda>(i, m). (i, g m)) xs) = bt_sum f xs" if "\<And>m. f (g m) = f m"
    for f :: "monitor_view \<Rightarrow> nat" and g and xs :: "(uuid \<times> monitor_view) list"
    using that by (induction xs) auto
  then have r: "running_count ?t = running_count s"
    by (simp add: running_count_sum recompute_unacked_counts_def)
  have i: "incidents_of ?t = incidents_of s" "mp_incidents ?t = mp_incidents s" "incident_total ?t = incident_total s"
    "mp_checkpoints ?t = mp_checkpoints s" "mp_schema_version ?t = mp_schema_version s"
    "length (mp_monitors ?t) = length (mp_monitors s)"
    by (simp_all add: recompute_unacked_counts_def)
  have "monitor_ok ord rx is j (m\<lparr>mv_unacked_incident_count := n\<rparr>) = monitor_ok ord rx is j m" for "is" j m n
    by (simp add: monitor_ok_def)
  then have "catalog_ok ord rx ?t"
    using assms w r i by (auto simp: catalog_ok_def recompute_get)
  moreover have "counts_exact ?t"
    using assms i by (auto simp: counts_exact_def recompute_get monitor_ok_def dest!: monitor_okD [OF assms])
  ultimately show ?thesis by (simp add: monitors_inv_def)
qed

lemma push_incident_ok:
  assumes s: "catalog_ok ord rx s" and m: "bt_get (mp_monitors s) i = Some m"
    and room: "length (incidents_of s i) < MAX_INCIDENTS_PER_MONITOR" "incident_total s < MAX_INCIDENTS_TOTAL"
    and n: "ord \<Longrightarrow> n = Suc (mv_incident_count m)" and x: "mi_incident_seq x = n" "mi_monitor_id x = i"
    and m': "m' = m\<lparr>mv_incident_count := n, mv_unacked_incident_count := k\<rparr>"
  shows "catalog_ok ord rx (s\<lparr>mp_monitors := bt_insert i m' (mp_monitors s),
      mp_incidents := bt_insert i (incidents_of s i @ [x]) (mp_incidents s),
      mp_checkpoints := bt_insert i c (mp_checkpoints s)\<rparr>)"
proof -
  let ?is = "incidents_of s i @ [x]"
  have ok: "monitor_ok ord rx (incidents_of s i) i m" by (rule monitor_okD [OF s m])
  then have ok': "monitor_ok ord rx ?is i m'"
    using room(1) x n by (auto simp: monitor_ok_def m' sorted_wrt_append less_Suc_eq_le)
  let ?t = "s\<lparr>mp_monitors := bt_insert i m' (mp_monitors s)\<rparr>"
  let ?u = "?t\<lparr>mp_incidents := bt_insert i ?is (mp_incidents ?t)\<rparr>"
  have w: "bt_wf (mp_monitors s)" "bt_wf (mp_incidents s)" using s by (auto simp: catalog_ok_def)
  have "mv_status m' = mv_status m" by (simp add: m')
  then have r: "running_count ?t = running_count s" using running_replace [OF w(1) m, of m'] by simp
  have "incident_total ?u = Suc (incident_total s)"
    using bt_sum_insert [OF w(2), of length i ?is]
    by (simp add: incident_total_sum at_key_def incidents_of_def split: option.splits)
  moreover have "incidents_of ?u j = (if j = i then ?is else incidents_of s j)" for j
    by (simp add: incidents_of_def bt_get_insert)
  ultimately have "catalog_ok ord rx ?u"
    using s m ok' room(2) r w length_replace [OF w(1) m, of m']
    by (auto simp: catalog_ok_def bt_get_insert bt_wf_insert split: if_splits)
  from catalog_checkpoint [OF this, of i c] show ?thesis by simp
qed

lemma incident_change_inv:
  assumes s: "monitors_inv ord rx s" and c: "incident_change env call i revision p checkpoint s = (r, s')"
    and n: "\<And>m. ord \<Longrightarrow> bt_get (mp_monitors s) i = Some m \<Longrightarrow> mv_incident_count m < U64_MAX"
  shows "monitors_inv ord rx s'"
proof (cases "bt_get (mp_monitors s) i")
  case None
  with s c show ?thesis by (simp add: incident_change_def)
next
  case (Some m)
  let ?t = "prune_incidents i s"
  note t = prune_incidents_ok [OF s [unfolded monitors_inv_def, THEN conjunct1], of i]
  show ?thesis
  proof (cases "mv_status m \<noteq> MonRunning \<or> mv_revision m \<noteq> revision")
    case True
    with Some s c show ?thesis by (simp add: incident_change_def)
  next
    case False
    obtain m2 where m2: "bt_get (mp_monitors ?t) i = Some m2" "same_job m m2"
      using same_jobs_get [OF t(2) Some] by blast
    let ?n = "saturating_add_u64 (mv_incident_count m2) 1"
    have n2: "?n = Suc (mv_incident_count m2)" if ord
      using n [OF that Some] m2(2) by (simp add: same_job_def saturating_add_u64_def)
    have s': "s' = recompute_unacked_counts
        (?t\<lparr>mp_monitors := bt_insert i (m2\<lparr>mv_incident_count := ?n,
               mv_unacked_incident_count := saturating_add_u64 (mv_unacked_incident_count m2) 1\<rparr>) (mp_monitors ?t),
            mp_incidents := bt_insert i (incidents_of ?t i @ [new_incident env call i m2 ?n p]) (mp_incidents ?t),
            mp_checkpoints := bt_insert i checkpoint (mp_checkpoints ?t)\<rparr>)"
      using c Some False m2(1) by (simp add: incident_change_def Let_def)
    show ?thesis unfolding s'
      by (intro recompute_inv push_incident_ok [OF t(1) m2(1) t(3,4) n2]) (simp_all add: new_incident_def)
  qed
qed

end
