(* ===== verification/MonitorSteps.thy ===== *)
theory MonitorSteps
  imports MonitorProps
begin

text \<open>
  The monitors at work: every operation as a step of the daemon, in any order, with the two halves of an
  update as steps of their own; what a failed operation leaves, and the numbering that pollers rely on.
\<close>

section \<open>Changing and saving\<close>

lemma mutate_cases:
  assumes "mutate_and_persist env os f d = Some (r, d')"
  obtains (refused) e s where "f (md_state d) = (Inl e, s)" "r = Inl e" "d' = d\<lparr>md_state := s\<rparr>"
  | (unsaved) v s e fs where "f (md_state d) = (Inr v, s)" "persist env os s (md_files d) = Some (Inl e, fs)"
      "r = Inl e" "d' = d\<lparr>md_files := fs\<rparr>"
  | (saved) v s fs where "f (md_state d) = (Inr v, s)" "persist env os s (md_files d) = Some (Inr (), fs)"
      "r = Inr v" "d' = d\<lparr>md_state := s, md_files := fs\<rparr>"
  using assms unfolding mutate_and_persist_def
  by (auto split: prod.splits sum.splits option.splits)

text \<open>A change that is refused has changed nothing.\<close>

definition refuses_clean :: "(monitor_state \<Rightarrow> (monitor_error + 'a) \<times> monitor_state) \<Rightarrow> monitor_state \<Rightarrow> bool" where
  "refuses_clean f s \<longleftrightarrow> (\<forall>e s'. f s = (Inl e, s') \<longrightarrow> s' = s)"

lemma refuses_clean_changes:
  "refuses_clean (update_change i revision u cursor) s" "refuses_clean (stop_change i revision now) s"
  "refuses_clean (delete_change i revision) s" "refuses_clean (ack_change i incident now) s"
  "refuses_clean (change_running i revision f) s"
  by (auto simp: refuses_clean_def update_change_def stop_change_def delete_change_def ack_change_def
      change_running_def split: option.splits if_splits prod.splits bool.splits)

lemma refuses_clean_incident:
  assumes "catalog_ok ord rx s"
  shows "refuses_clean (incident_change env call i revision p checkpoint) s"
  using same_jobs_get [OF prune_incidents_ok(2) [OF assms], of i _ i]
  by (fastforce simp: refuses_clean_def incident_change_def Let_def split: option.splits if_splits)

lemma mutate_failed:
  "mutate_and_persist env os f d = Some (Inl e, d') \<Longrightarrow> refuses_clean f (md_state d) \<Longrightarrow>
   md_state d' = md_state d \<and> md_workers d' = md_workers d \<and> md_shutdown d' = md_shutdown d"
  by (erule mutate_cases) (auto simp: refuses_clean_def)

lemma mutate_state:
  "mutate_and_persist env os f d = Some (r, d') \<Longrightarrow> refuses_clean f (md_state d) \<Longrightarrow>
   (md_state d' = md_state d \<or> (\<exists>v. f (md_state d) = (Inr v, md_state d') \<and> r = Inr v)) \<and>
   md_workers d' = md_workers d \<and> md_shutdown d' = md_shutdown d"
  by (erule mutate_cases) (auto simp: refuses_clean_def)

lemma mutate_inv:
  assumes "mutate_and_persist env os f d = Some (r, d')" "refuses_clean f (md_state d)"
    and "P (md_state d)" "\<And>v s'. f (md_state d) = (Inr v, s') \<Longrightarrow> P s'"
  shows "P (md_state d')"
  using mutate_state [OF assms(1,2)] assms(3,4) by auto

section \<open>Workers change no catalog\<close>

lemma spawn_state [simp]:
  "md_state (spawn_worker token i revision d) = md_state d" "md_files (spawn_worker token i revision d) = md_files d"
  "md_shutdown (spawn_worker token i revision d) = md_shutdown d"
  by (auto simp: spawn_worker_def spawn_reserve_def spawn_start_def clear_worker_if_token_def split: option.splits)

lemma stop_worker_state [simp]:
  "md_state (stop_worker i revision d) = md_state d" "md_files (stop_worker i revision d) = md_files d"
  "md_shutdown (stop_worker i revision d) = md_shutdown d"
  by (auto simp: stop_worker_def split: option.splits)

lemma clear_worker_state [simp]:
  "md_state (clear_worker_if_token i token d) = md_state d"
  "md_shutdown (clear_worker_if_token i token d) = md_shutdown d"
  by (auto simp: clear_worker_if_token_def split: option.splits)

lemma ensure_worker_state [simp]: "md_state (ensure_current_worker token i d) = md_state d"
  by (auto simp: ensure_current_worker_def split: option.splits)

section \<open>Outcomes of the operations\<close>

lemma create_cases:
  assumes "monitor_create env slots call r d = Some (res, d')" and inv: "monitors_inv ord (me_rx env) (md_state d)"
  obtains (same) "md_state d' = md_state d" "d' = d \<or> (\<exists>e. res = Inl e \<and> md_workers d' = md_workers d \<and> md_shutdown d' = md_shutdown d)"
  | (created) s cursor fs where "prune_monitor_capacity (md_state d) = Some s"
      "slot_cursor slots (cm_spec r) = Inr cursor" "validate_spec (me_rx env) (cm_spec r) = Inr ()"
      "bt_get (mp_monitors (md_state d)) (cm_request_id r) = None"
      "running_count (md_state d) < MAX_ACTIVE_MONITORS" "length (mp_monitors s) < MAX_MONITORS"
      "persist env (mc_os call) (insert_monitor (new_monitor r cursor (mc_now call)) cursor s) (md_files d) = Some (Inr (), fs)"
      "res = Inr (new_monitor r cursor (mc_now call))"
      "d' = spawn_worker (mc_uuid call) (cm_request_id r) 1
         (d\<lparr>md_state := insert_monitor (new_monitor r cursor (mc_now call)) cursor s, md_files := fs\<rparr>)"
proof (cases "validate_spec (me_rx env) (cm_spec r)")
  case (Inl e)
  with assms(1) show ?thesis by (intro same) (auto simp: monitor_create_def)
next
  case valid: (Inr u)
  show ?thesis
  proof (cases "bt_get (mp_monitors (md_state d)) (cm_request_id r)")
    case (Some m)
    with assms(1) valid show ?thesis by (intro same) (auto simp: monitor_create_def Let_def)
  next
    case None
    show ?thesis
    proof (cases "slot_cursor slots (cm_spec r)")
      case (Inl e)
      with assms(1) valid None show ?thesis by (intro same) (auto simp: monitor_create_def Let_def)
    next
      case cursor: (Inr cursor)
      show ?thesis
      proof (cases "MAX_ACTIVE_MONITORS \<le> running_count (md_state d)")
        case True
        with assms(1) valid None cursor show ?thesis by (intro same) (auto simp: monitor_create_def Let_def)
      next
        case False
        then have active: "running_count (md_state d) < MAX_ACTIVE_MONITORS" by simp
        then have "running_count (md_state d) < MAX_MONITORS" by (simp add: MAX_ACTIVE_MONITORS_def MAX_MONITORS_def)
        then obtain s where s: "prune_monitor_capacity (md_state d) = Some s" "length (mp_monitors s) < MAX_MONITORS"
          using prune_monitor_capacity_ok [OF inv] by blast
        let ?s = "insert_monitor (new_monitor r cursor (mc_now call)) cursor s"
        have "u = ()" by simp
        note eq = valid [unfolded this] None cursor active s
        show ?thesis
        proof (cases "persist env (mc_os call) ?s (md_files d)")
          case None
          with assms(1) eq show ?thesis by (simp add: monitor_create_def Let_def not_le [symmetric])
        next
          case (Some p)
          obtain o1 fs where p: "p = (o1, fs)" by (cases p)
          show ?thesis
          proof (cases o1)
            case (Inl e)
            with assms(1) eq Some p show ?thesis
              by (intro same) (auto simp: monitor_create_def Let_def not_le [symmetric])
          next
            case (Inr w)
            with assms(1) eq Some p show ?thesis
              by (intro created [OF s(1) cursor _ \<open>bt_get (mp_monitors (md_state d)) (cm_request_id r) = None\<close> active s(2), of fs])
                (auto simp: monitor_create_def Let_def not_le [symmetric])
          qed
        qed
      qed
    qed
  qed
qed

lemma update_cases:
  assumes "monitor_update env slots call i r d = Some (res, d')"
  obtains (refused) e where "update_prepare env slots (mc_now call) i r d = Inl e" "res = Inl e" "d' = d"
  | (prepared) u cursor m o1 d1 where "update_prepare env slots (mc_now call) i r d = Inr (u, cursor)"
      "bt_get (mp_monitors (md_state d)) i = Some m" "mv_revision m = um_expected_revision r" "renewed (me_rx env) m u"
      "mutate_and_persist env (mc_os call) (update_change i (um_expected_revision r) u cursor)
         (stop_worker i (um_expected_revision r) d) = Some (o1, d1)"
      "(\<exists>e. o1 = Inl e \<and> res = Inl e \<and> d' = spawn_worker (mc_uuid call) i (um_expected_revision r) d1) \<or>
       (o1 = Inr () \<and> res = Inr u \<and> d' = spawn_worker (mc_uuid call) i (mv_revision u) d1)"
proof (cases "update_prepare env slots (mc_now call) i r d")
  case (Inl e)
  with assms show ?thesis by (intro refused) (auto simp: monitor_update_def)
next
  case (Inr x)
  obtain u cursor where x: "x = (u, cursor)" by (cases x)
  obtain m where m: "bt_get (mp_monitors (md_state d)) i = Some m" "mv_revision m = um_expected_revision r"
    "renewed (me_rx env) m u"
    using update_prepare_renews [OF Inr [unfolded x]] by blast
  obtain o1 d1 where d1: "mutate_and_persist env (mc_os call) (update_change i (um_expected_revision r) u cursor)
         (stop_worker i (um_expected_revision r) d) = Some (o1, d1)"
    using assms Inr x by (auto simp: monitor_update_def update_commit_def split: option.splits)
  show ?thesis
    by (rule prepared [OF Inr [unfolded x] m d1])
      (use assms Inr x d1 in \<open>auto simp: monitor_update_def update_commit_def split: sum.splits\<close>)
qed

lemma stop_cases:
  assumes "monitor_stop env call i revision d = Some (res, d')"
  obtains (refused) e where "res = Inl e" "d' = d"
  | (tried) m o1 d1 where "bt_get (mp_monitors (md_state d)) i = Some m" "mv_revision m = revision"
      "mutate_and_persist env (mc_os call) (stop_change i revision (mc_now call)) (stop_worker i revision d) = Some (o1, d1)"
      "(\<exists>e. o1 = Inl e \<and> res = Inl e \<and> d' = spawn_worker (mc_uuid call) i revision d1) \<or>
       (o1 = Inr () \<and> res = get_view i (stop_worker i revision d1) \<and> d' = stop_worker i revision d1)"
  using assms
  by (auto simp: monitor_stop_def get_view_def ok_or_def Let_def split: option.splits if_splits sum.splits)

lemma fail_cases:
  assumes "fail_monitor env call i revision error d = Some (res, d')"
  obtains f o1 d1 where "keeps_counts f" "\<And>m. mv_status (f m) = MonFailed \<and> mv_revision (f m) = mv_revision m"
      "mutate_and_persist env (mc_os call) (change_running i revision f) d = Some (o1, d1)"
      "(\<exists>e. o1 = Inl e \<and> d' = ensure_current_worker (mc_uuid call) i d1) \<or> (o1 = Inr () \<and> d' = d1)" "o1 = res"
proof -
  let ?f = "\<lambda>m. m\<lparr>mv_status := MonFailed, mv_stopped_wall_time_ns := Some (mc_now call),
                  mv_last_error := Some (truncate_text error MAX_DESCRIPTION_BYTES)\<rparr>"
  have "keeps_counts ?f" "\<And>m. mv_status (?f m) = MonFailed \<and> mv_revision (?f m) = mv_revision m"
    by (simp_all add: keeps_counts_def)
  then show ?thesis
    using assms
    by (auto simp: fail_monitor_def split: option.splits sum.splits intro!: that [of ?f])
qed

section \<open>Steps\<close>

text \<open>
  One operation that makes its change under the mutation lock. What \<open>stop\<close> reads before the lock it
  checks again under it. In an orderly run (\<open>ord\<close>) an incident is recorded below the last sequence
  number, at a time that is not before the incidents of its job: the wall clock does not go back.
\<close>

inductive monitor_operation ::
  "('c, 'z) monitor_env_scheme \<Rightarrow> bool \<Rightarrow> monitor_daemon \<Rightarrow> monitor_daemon \<Rightarrow> bool" for env ord where
  step_create: "monitor_create env slots call r d = Some (c, d') \<Longrightarrow> monitor_operation env ord d d'"
| step_stop: "monitor_stop env call i n d = Some (c, d') \<Longrightarrow> monitor_operation env ord d d'"
| step_delete: "delete_stopped env call i n d = Some (c, d') \<Longrightarrow> monitor_operation env ord d d'"
| step_ack: "acknowledge_incident env call i incident d = Some (x, d') \<Longrightarrow> monitor_operation env ord d d'"
| step_fail: "fail_monitor env call i n t d = Some (o1, d') \<Longrightarrow> monitor_operation env ord d d'"
| step_complete: "complete_monitor env call i n d = Some (o1, d') \<Longrightarrow> monitor_operation env ord d d'"
| step_progress: "monitor_operation env ord d (update_progress i n cursor d)"
| step_checkpoint: "checkpoint_progress env os i n cp d = Some (o1, d') \<Longrightarrow> monitor_operation env ord d d'"
| step_gap: "record_gap env os i n t d = Some (o1, d') \<Longrightarrow> monitor_operation env ord d d'"
| step_incident:
    "record_incident env call i n p cp d = Some (o1, d') \<Longrightarrow>
     (\<And>m. ord \<Longrightarrow> bt_get (mp_monitors (md_state d)) i = Some m \<Longrightarrow> mv_incident_count m < U64_MAX) \<Longrightarrow>
     (\<And>x. ord \<Longrightarrow> x \<in> set (incidents_of (md_state d) i) \<Longrightarrow> mi_created_wall_time_ns x \<le> mc_now call) \<Longrightarrow>
     monitor_operation env ord d d'"
| step_exit: "worker_exit env call i n token o1 d = Some d' \<Longrightarrow> monitor_operation env ord d d'"
| step_spawn: "monitor_operation env ord d (spawn_worker token i n d)"
| step_unspawn: "monitor_operation env ord d (stop_worker i n d)"

text \<open>
  The daemon together with the updates that have read their job and not yet written it: the job, the
  revision they expect, the view they will write and the cursor. Between the two halves of an update
  any operation may come, and any half of another update. In an orderly run no incident of the job was
  recorded and none acknowledged in between: the counters the view carries are still those of the job
  (if the job still has the expected revision; otherwise the second half changes nothing).
\<close>

type_synonym update_in_flight = "uuid \<times> nat \<times> monitor_view \<times> cursor"
type_synonym monitor_system = "monitor_daemon \<times> update_in_flight list"

inductive monitor_step ::
  "('c, 'z) monitor_env_scheme \<Rightarrow> bool \<Rightarrow> monitor_system \<Rightarrow> monitor_system \<Rightarrow> bool" for env ord where
  step_operation: "monitor_operation env ord d d' \<Longrightarrow> monitor_step env ord (d, us) (d', us)"
| step_prepare:
    "update_prepare env slots now i r d = Inr (u, cursor) \<Longrightarrow>
     monitor_step env ord (d, us)
       (stop_worker i (um_expected_revision r) d, (i, um_expected_revision r, u, cursor) # us)"
| step_commit:
    "update_commit env call i n u cursor d = Some (c, d') \<Longrightarrow>
     (\<And>m. ord \<Longrightarrow> bt_get (mp_monitors (md_state d)) i = Some m \<Longrightarrow> mv_revision m = n \<Longrightarrow> same_counts m u) \<Longrightarrow>
     monitor_step env ord (d, us @ (i, n, u, cursor) # vs) (d', us @ vs)"

text \<open>An update that nothing interrupts is its two halves.\<close>

lemma update_is_two_steps:
  assumes "monitor_update env slots call i r d = Some (c, d')"
  shows "rtranclp (monitor_step env ord) (d, us) (d', us)"
proof (cases "update_prepare env slots (mc_now call) i r d")
  case (Inl e)
  with assms show ?thesis by (simp add: monitor_update_def)
next
  case (Inr x)
  obtain u cursor where x: "x = (u, cursor)" by (cases x)
  let ?n = "um_expected_revision r" and ?d = "stop_worker i (um_expected_revision r) d"
  have "monitor_step env ord (d, us) (?d, (i, ?n, u, cursor) # us)"
    by (rule step_prepare [where slots = slots and now = "mc_now call"]) (simp add: Inr x)
  moreover obtain m where m: "bt_get (mp_monitors (md_state d)) i = Some m" "renewed (me_rx env) m u"
    using update_prepare_renews [OF Inr [unfolded x]] by blast
  have "monitor_step env ord (?d, [] @ (i, ?n, u, cursor) # us) (d', [] @ us)"
    by (rule step_commit [where c = c])
      (use assms Inr x m in \<open>auto simp: monitor_update_def renewed_def\<close>)
  ultimately show ?thesis by (simp add: converse_rtranclp_into_rtranclp)
qed

text \<open>What every update in flight is, whatever has happened since it read its job.\<close>

definition updates_ready :: "'c regex_api \<Rightarrow> monitor_system \<Rightarrow> bool" where
  "updates_ready rx sys \<longleftrightarrow> (\<forall>(i, n, u, cursor) \<in> set (snd sys). prepared rx i u)"

lemma updates_ready_start [simp]: "updates_ready rx (d, [])"
  by (simp add: updates_ready_def)

lemma new_monitor_fields [simp]:
  "mv_id (new_monitor r cursor now) = cm_request_id r" "mv_incident_count (new_monitor r cursor now) = 0"
  "mv_unacked_incident_count (new_monitor r cursor now) = 0" "mv_revision (new_monitor r cursor now) = 1"
  "mv_spec (new_monitor r cursor now) = (cm_spec r)\<lparr>sp_start_cursor := Some cursor\<rparr>"
  "mv_status (new_monitor r cursor now) = MonRunning"
  by (simp_all add: new_monitor_def)

text \<open>
  The contract of a property of the catalog that survives every operation: each change of the catalog
  that an operation makes, on its own, keeps it.
\<close>

locale catalog_invariant =
  fixes env :: "('c, 'z) monitor_env_scheme" and ord :: bool and P :: "monitor_state \<Rightarrow> bool"
  assumes keeps_running: "monitors_inv ord (me_rx env) s \<Longrightarrow> P s \<Longrightarrow> keeps_counts f \<Longrightarrow> change_running i n f s = (v, s') \<Longrightarrow> P s'"
    and keeps_update: "monitors_inv ord (me_rx env) s \<Longrightarrow> P s \<Longrightarrow> prepared (me_rx env) i u \<Longrightarrow>
      (\<And>m. ord \<Longrightarrow> bt_get (mp_monitors s) i = Some m \<Longrightarrow> mv_revision m = n \<Longrightarrow> same_counts m u) \<Longrightarrow>
      update_change i n u cursor s = (v, s') \<Longrightarrow> P s'"
    and keeps_stop: "monitors_inv ord (me_rx env) s \<Longrightarrow> P s \<Longrightarrow> stop_change i n now s = (v, s') \<Longrightarrow> P s'"
    and keeps_remove: "monitors_inv ord (me_rx env) s \<Longrightarrow> P s \<Longrightarrow> P (remove_monitor i s)"
    and keeps_ack: "monitors_inv ord (me_rx env) s \<Longrightarrow> P s \<Longrightarrow> ack_change i x now s = (v, s') \<Longrightarrow> P s'"
    and keeps_checkpoint: "P s \<Longrightarrow> P (s\<lparr>mp_checkpoints := bt_insert i c (mp_checkpoints s)\<rparr>)"
    and keeps_prune: "monitors_inv ord (me_rx env) s \<Longrightarrow> P s \<Longrightarrow> prune_monitor_capacity s = Some s' \<Longrightarrow> P s'"
    and keeps_insert: "monitors_inv ord (me_rx env) s \<Longrightarrow> P s \<Longrightarrow> bt_get (mp_monitors s) (mv_id m) = None \<Longrightarrow>
      mv_incident_count m = 0 \<Longrightarrow> mv_unacked_incident_count m = 0 \<Longrightarrow> length (mp_monitors s) < MAX_MONITORS \<Longrightarrow>
      running_count s < MAX_ACTIVE_MONITORS \<Longrightarrow> validate_spec (me_rx env) (mv_spec m) = Inr () \<Longrightarrow>
      P (insert_monitor m cursor s)"
    and keeps_incident: "monitors_inv ord (me_rx env) s \<Longrightarrow> P s \<Longrightarrow> incident_change env call i n p cp s = (v, s') \<Longrightarrow>
      (\<And>m. ord \<Longrightarrow> bt_get (mp_monitors s) i = Some m \<Longrightarrow> mv_incident_count m < U64_MAX) \<Longrightarrow>
      (\<And>x. ord \<Longrightarrow> x \<in> set (incidents_of s i) \<Longrightarrow> mi_created_wall_time_ns x \<le> mc_now call) \<Longrightarrow> P s'"
begin

lemma operation_keeps:
  assumes st: "monitor_operation env ord d d'" and inv: "monitors_inv ord (me_rx env) (md_state d)" and P: "P (md_state d)"
  shows "P (md_state d')"
  using st
proof cases
  case (step_create slots call r c)
  then show ?thesis
  proof (cases rule: create_cases [OF _ inv, consumes 1, case_names same created])
    case (created s cursor fs)
    have "monitors_inv ord (me_rx env) s" "running_count s = running_count (md_state d)" "pruned_of (md_state d) s"
      using prune_monitor_capacity_ok [OF inv] created(1) by auto
    moreover have "P s" by (rule keeps_prune [OF inv P created(1)])
    moreover have "bt_get (mp_monitors s) (cm_request_id r) = None"
      using calculation(3) created(4) by (auto simp: pruned_of_def) (metis option.distinct(1))
    ultimately have "P (insert_monitor (new_monitor r cursor (mc_now call)) cursor s)"
      using created(3,5,6) by (intro keeps_insert) (simp_all add: validate_spec_cursor)
    then show ?thesis by (simp add: created(9))
  qed (use P in auto)
next
  case (step_stop call i n c)
  then show ?thesis
  proof (cases rule: stop_cases)
    case (tried m o1 d1)
    have "P (md_state d1)"
      by (rule mutate_inv [OF tried(3), of P]) (use P inv in \<open>auto simp: refuses_clean_changes intro: keeps_stop\<close>)
    then show ?thesis using tried(4) by auto
  qed (use P in auto)
next
  case (step_delete call i n c)
  have "P s'" if "delete_change i n (md_state d) = (Inr v, s')" for v s'
    using that keeps_remove [OF inv P] by (auto simp: delete_change_def split: option.splits if_splits)
  then show ?thesis
    using step_delete P by (intro mutate_inv [of env "mc_os call" "delete_change i n" d _ d' P])
      (auto simp: delete_stopped_def refuses_clean_changes)
next
  case (step_ack call i incident x)
  then obtain o1 where m: "mutate_and_persist env (mc_os call) (ack_change i incident (mc_now call)) d = Some (o1, d')"
    by (auto simp: acknowledge_incident_def split: option.splits sum.splits)
  show ?thesis
    by (rule mutate_inv [OF m, of P]) (use P inv in \<open>auto simp: refuses_clean_changes intro: keeps_ack\<close>)
next
  case (step_fail call i n t o1)
  then show ?thesis
  proof (cases rule: fail_cases)
    case (1 f o2 d1)
    have "P (md_state d1)"
      by (rule mutate_inv [OF 1(3), of P]) (use P inv 1(1) in \<open>auto simp: refuses_clean_changes intro: keeps_running\<close>)
    then show ?thesis using 1(4) by auto
  qed
next
  case (step_complete call i n o1)
  have "keeps_counts (\<lambda>m. m\<lparr>mv_status := MonCompleted, mv_stopped_wall_time_ns := Some (mc_now call)\<rparr>)"
    by (simp add: keeps_counts_def)
  note f = keeps_running [OF inv P this]
  show ?thesis
    by (rule mutate_inv [OF step_complete [unfolded complete_monitor_def], of P, OF refuses_clean_changes(5) P]) (rule f)
next
  case (step_progress i n cursor)
  have "keeps_counts (\<lambda>m. m\<lparr>mv_current_cursor := Some cursor\<rparr>)" by (simp add: keeps_counts_def)
  moreover obtain v s where "change_running i n (\<lambda>m. m\<lparr>mv_current_cursor := Some cursor\<rparr>) (md_state d) = (v, s)"
    by fastforce
  ultimately show ?thesis using keeps_running [OF inv P] by (simp add: step_progress update_progress_def)
next
  case (step_checkpoint os i n cp o1)
  then show ?thesis
    using P keeps_checkpoint [OF P, of i cp]
    by (auto simp: checkpoint_progress_def Let_def
        split: option.splits if_splits prod.splits sum.splits)
next
  case (step_gap os i n t o1)
  have "keeps_counts (\<lambda>m. m\<lparr>mv_gap_count := saturating_add_u64 (mv_gap_count m) 1,
            mv_last_error := Some (truncate_text t MAX_DESCRIPTION_BYTES)\<rparr>)"
    by (simp add: keeps_counts_def)
  note f = keeps_running [OF inv P this]
  show ?thesis
    by (rule mutate_inv [OF step_gap [unfolded record_gap_def], of P, OF refuses_clean_changes(5) P]) (rule f)
next
  case (step_incident call i n p cp o1)
  have "refuses_clean (incident_change env call i n p cp) (md_state d)"
    using inv by (auto simp: monitors_inv_def intro: refuses_clean_incident)
  then show ?thesis
    by (rule mutate_inv [OF step_incident(1) [unfolded record_incident_def], of P, OF _ P])
      (rule keeps_incident [OF inv P _ step_incident(2,3)])
next
  case (step_exit call i n token o1)
  let ?d = "clear_worker_if_token i token d"
  show ?thesis
  proof (cases "o1 = Inr () \<or> md_shutdown ?d")
    case True
    with step_exit P show ?thesis by (auto simp: worker_exit_def Let_def split: sum.splits if_splits)
  next
    case False
    then obtain e where e: "o1 = Inl e" by (cases o1) auto
    then obtain r where "fail_monitor env call i n (monitor_error_text env e) ?d = Some (r, d')"
      using step_exit False by (auto simp: worker_exit_def Let_def)
    then show ?thesis
    proof (cases rule: fail_cases)
      case (1 f o2 d1)
      have "P (md_state d1)"
        by (rule mutate_inv [OF 1(3), of P]) (use P inv 1(1) in \<open>auto simp: refuses_clean_changes intro: keeps_running\<close>)
      then show ?thesis using 1(4) by auto
    qed
  qed
qed (use P in auto)

lemma commit_keeps:
  assumes c: "update_commit env call i n u cursor d = Some (c, d')" and inv: "monitors_inv ord (me_rx env) (md_state d)"
    and P: "P (md_state d)" and u: "prepared (me_rx env) i u"
    and o: "\<And>m. ord \<Longrightarrow> bt_get (mp_monitors (md_state d)) i = Some m \<Longrightarrow> mv_revision m = n \<Longrightarrow> same_counts m u"
  shows "P (md_state d')"
proof -
  obtain o1 d1 where m: "mutate_and_persist env (mc_os call) (update_change i n u cursor) d = Some (o1, d1)"
    and d': "md_state d' = md_state d1"
    using c by (auto simp: update_commit_def split: option.splits sum.splits)
  have "P (md_state d1)"
    by (rule mutate_inv [OF m refuses_clean_changes(1), of P, OF P]) (rule keeps_update [OF inv P u o])
  then show ?thesis by (simp add: d')
qed

lemma step_keeps:
  assumes "monitor_step env ord sys sys'" and "monitors_inv ord (me_rx env) (md_state (fst sys))"
    and "updates_ready (me_rx env) sys" and "P (md_state (fst sys))"
  shows "P (md_state (fst sys'))"
  using assms(1)
proof cases
  case (step_operation d d' us)
  with assms(2,4) operation_keeps show ?thesis by simp
next
  case (step_prepare slots now i r d u cursor us)
  with assms(4) show ?thesis by simp
next
  case (step_commit call i n u cursor d c d' us vs)
  have u: "prepared (me_rx env) i u" using assms(3) step_commit(1) by (simp add: updates_ready_def)
  have inv: "monitors_inv ord (me_rx env) (md_state d)" and P: "P (md_state d)"
    using assms(2,4) step_commit(1) by simp_all
  have "P (md_state d')" by (rule commit_keeps [OF step_commit(3) inv P u step_commit(4)])
  then show ?thesis by (simp add: step_commit(2))
qed

end

interpretation bounded: catalog_invariant env ord "monitors_inv ord (me_rx env)" for env ord
proof unfold_locales
  show "monitors_inv ord (me_rx env) s'" if "monitors_inv ord (me_rx env) s" "prune_monitor_capacity s = Some s'" for s s'
    using prune_monitor_capacity_ok [OF that(1)] that(2) by auto
qed (blast intro: change_running_inv update_change_inv stop_change_inv remove_monitor_inv ack_change_inv inv_checkpoint
    insert_monitor_inv incident_change_inv)+

text \<open>The updates in flight stay ready: they read a job of the invariant, and are not changed by others.\<close>

lemma step_ready:
  assumes "monitor_step env ord sys sys'" "monitors_inv ord (me_rx env) (md_state (fst sys))" "updates_ready (me_rx env) sys"
  shows "updates_ready (me_rx env) sys'"
  using assms(1)
proof cases
  case (step_prepare slots now i r d u cursor us)
  with update_prepare_ready [OF step_prepare(3)] assms(2,3) show ?thesis by (auto simp: updates_ready_def)
qed (use assms(3) in \<open>auto simp: updates_ready_def\<close>)

lemma reachable_inv:
  assumes "rtranclp (monitor_step env ord) sys sys'" "monitors_inv ord (me_rx env) (md_state (fst sys))"
    "updates_ready (me_rx env) sys"
  shows "monitors_inv ord (me_rx env) (md_state (fst sys')) \<and> updates_ready (me_rx env) sys'"
  using assms(1)
  by (induction rule: rtranclp_induct) (use assms(2,3) bounded.step_keeps step_ready in blast)+

text \<open>What the contract promises of every reachable system.\<close>

context catalog_invariant
begin

lemma reachable_keeps:
  assumes "rtranclp (monitor_step env ord) sys sys'" "monitors_inv ord (me_rx env) (md_state (fst sys))"
    "updates_ready (me_rx env) sys" "P (md_state (fst sys))"
  shows "P (md_state (fst sys'))"
  using assms(1)
proof (induction rule: rtranclp_induct)
  case (step sys1 sys2)
  from reachable_inv [OF step.hyps(1) assms(2,3)] step_keeps [OF step.hyps(2)] step.IH show ?case by blast
qed (rule assms(4))

end

section \<open>Numbering\<close>

text \<open>The retained incidents of a job are the most recent ones, numbered without a hole.\<close>

definition numbered_from :: "nat \<Rightarrow> monitor_incident list \<Rightarrow> bool" where
  "numbered_from count is \<longleftrightarrow>
     length is \<le> count \<and> map mi_incident_seq is = [Suc (count - length is) ..< Suc count] \<and>
     sorted (map mi_created_wall_time_ns is)"

definition numbered :: "monitor_state \<Rightarrow> bool" where
  "numbered s \<longleftrightarrow> (\<forall>i m. bt_get (mp_monitors s) i = Some m \<longrightarrow> numbered_from (mv_incident_count m) (incidents_of s i))"

lemma numbered_tl: "numbered_from n is \<Longrightarrow> numbered_from n (tl is)"
proof (cases "is")
  case (Cons x xs)
  assume n: "numbered_from n is"
  then have "length (x # xs) \<le> n" "map mi_incident_seq (x # xs) = [Suc (n - length (x # xs)) ..< Suc n]"
    by (simp_all add: numbered_from_def Cons)
  moreover have "Suc (n - length (x # xs)) < Suc n" "Suc (Suc (n - length (x # xs))) = Suc (n - length xs)"
    using \<open>length (x # xs) \<le> n\<close> by (simp_all add: Suc_diff_Suc)
  then have "[Suc (n - length (x # xs)) ..< Suc n] = Suc (n - length (x # xs)) # [Suc (n - length xs) ..< Suc n]"
    by (metis upt_conv_Cons)
  ultimately show ?thesis using n by (simp add: numbered_from_def Cons)
qed (simp add: numbered_from_def)

lemma numbered_push:
  assumes n: "numbered_from n is" and x: "mi_incident_seq x = Suc n" "\<And>y. y \<in> set is \<Longrightarrow> mi_created_wall_time_ns y \<le> mi_created_wall_time_ns x"
  shows "numbered_from (Suc n) (is @ [x])"
  using assms by (auto simp: numbered_from_def sorted_append)

lemma numbered_same:
  "numbered_from n is \<Longrightarrow> map mi_incident_seq is' = map mi_incident_seq is \<Longrightarrow>
   map mi_created_wall_time_ns is' = map mi_created_wall_time_ns is \<Longrightarrow> numbered_from n is'"
  unfolding numbered_from_def by (metis map_eq_imp_length_eq)

definition prunes_front :: "monitor_state \<Rightarrow> monitor_state \<Rightarrow> bool" where
  "prunes_front s t \<longleftrightarrow>
     same_jobs s t \<and> (\<forall>i. incidents_of t i = incidents_of s i \<or> incidents_of t i = tl (incidents_of s i))"

lemma numbered_front:
  assumes "numbered s" "prunes_front s t"
  shows "numbered t"
  unfolding numbered_def
proof (intro allI impI)
  fix i m assume m: "bt_get (mp_monitors t) i = Some m"
  then obtain m0 where "bt_get (mp_monitors s) i = Some m0" "same_job m0 m"
    using assms(2) unfolding prunes_front_def same_jobs_def by (metis option_rel_Some2)
  then have "numbered_from (mv_incident_count m) (incidents_of s i)"
    using assms(1) by (auto simp: numbered_def same_job_def)
  then show "numbered_from (mv_incident_count m) (incidents_of t i)"
    using assms(2) numbered_tl unfolding prunes_front_def by metis
qed

lemma without_0: "without 0 xs = tl xs"
  by (cases xs) (simp_all add: without_def)

lemma prune_global_front:
  assumes s: "catalog_ok ord rx s" "numbered s" and n: "0 < incident_total s"
  shows "prunes_front s (prune_one_global_incident s)"
proof -
  let ?t = "prune_one_global_incident s"
  from prune_one_global_ok [OF s(1) n] obtain i j where g: "same_jobs s ?t" "j < length (incidents_of s i)"
    "incidents_of ?t i = without j (incidents_of s i)" "\<forall>k. k \<noteq> i \<longrightarrow> incidents_of ?t k = incidents_of s k"
    "\<forall>k < j. mi_created_wall_time_ns (incidents_of s i ! j) < mi_created_wall_time_ns (incidents_of s i ! k)"
    by blast
  have "bt_get (mp_incidents s) i \<noteq> None" using g(2) by (auto simp: incidents_of_def split: option.splits)
  then obtain m where "bt_get (mp_monitors s) i = Some m" using s(1) by (auto simp: catalog_ok_def)
  then have "sorted (map mi_created_wall_time_ns (incidents_of s i))"
    using s(2) by (auto simp: numbered_def numbered_from_def)
  then have "mi_created_wall_time_ns (incidents_of s i ! 0) \<le> mi_created_wall_time_ns (incidents_of s i ! j)"
    using g(2) sorted_nth_mono [of "map mi_created_wall_time_ns (incidents_of s i)" 0 j]
      nth_map [of 0 "incidents_of s i" mi_created_wall_time_ns] by fastforce
  then have "j = 0" using g(5) by force
  with g show ?thesis by (auto simp: prunes_front_def without_0)
qed

lemma prune_incidents_front:
  assumes s: "catalog_ok ord rx s" "numbered s"
  shows "numbered (prune_incidents i s)"
    "\<And>x. x \<in> set (incidents_of (prune_incidents i s) j) \<Longrightarrow> x \<in> set (incidents_of s j)"
proof -
  let ?u = "if MAX_INCIDENTS_PER_MONITOR \<le> length (incidents_of s i) then prune_one_monitor_incident i s else s"
  have t: "prune_incidents i s = (if MAX_INCIDENTS_TOTAL \<le> incident_total ?u then prune_one_global_incident ?u else ?u)"
    by (simp add: prune_incidents_def Let_def)
  have "prunes_front s (prune_one_monitor_incident i s)"
    using prune_one_monitor_ok(2,3) [OF s(1), of i] prune_one_monitor_ok(4) [OF s(1), of _ i]
    unfolding prunes_front_def by metis
  then have u: "prunes_front s ?u" "catalog_ok ord rx ?u"
    using s prune_one_monitor_ok(1) [OF s(1)] by (auto simp: prunes_front_def)
  have nu: "numbered ?u" by (rule numbered_front [OF s(2) u(1)])
  have tu: "prunes_front ?u (prune_incidents i s)"
  proof (cases "MAX_INCIDENTS_TOTAL \<le> incident_total ?u")
    case True
    then have "0 < incident_total ?u" by (simp add: MAX_INCIDENTS_TOTAL_def)
    from prune_global_front [OF u(2) nu this] show ?thesis unfolding t if_P [OF True] .
  next
    case False
    show ?thesis unfolding t if_not_P [OF False] by (simp add: prunes_front_def)
  qed
  show "numbered (prune_incidents i s)" by (rule numbered_front [OF nu tu])
  have sub: "prunes_front a b \<Longrightarrow> set (incidents_of b j) \<subseteq> set (incidents_of a j)" for a b
    unfolding prunes_front_def by (metis list.set_sel(2) subsetI tl_Nil)
  show "\<And>x. x \<in> set (incidents_of (prune_incidents i s) j) \<Longrightarrow> x \<in> set (incidents_of s j)"
    using sub [OF tu] sub [OF u(1)] by blast
qed

lemma recompute_numbered: "numbered (recompute_unacked_counts s) = numbered s"
proof -
  have "incidents_of (recompute_unacked_counts s) = incidents_of s"
    by (simp add: recompute_unacked_counts_def)
  moreover have "(\<forall>m. map_option g x = Some m \<longrightarrow> Q m) \<longleftrightarrow> (\<forall>z. x = Some z \<longrightarrow> Q (g z))"
    for x and g :: "monitor_view \<Rightarrow> monitor_view" and Q
    by (cases x) auto
  ultimately show ?thesis by (simp add: numbered_def recompute_get)
qed

lemma incident_change_numbered:
  assumes s: "monitors_inv ord rx s" "numbered s" and c: "incident_change env call i revision p checkpoint s = (r, s')"
    and n: "\<And>m. bt_get (mp_monitors s) i = Some m \<Longrightarrow> mv_incident_count m < U64_MAX"
    and now: "\<And>x. x \<in> set (incidents_of s i) \<Longrightarrow> mi_created_wall_time_ns x \<le> mc_now call"
  shows "numbered s'"
proof (cases "\<exists>m. bt_get (mp_monitors s) i = Some m \<and> mv_status m = MonRunning \<and> mv_revision m = revision")
  case False
  with s c show ?thesis by (auto simp: incident_change_def split: option.splits if_splits)
next
  case True
  then obtain m where m: "bt_get (mp_monitors s) i = Some m" "mv_status m = MonRunning" "mv_revision m = revision"
    by blast
  let ?t = "prune_incidents i s"
  have cat: "catalog_ok ord rx s" using s(1) by (simp add: monitors_inv_def)
  obtain m2 where m2: "bt_get (mp_monitors ?t) i = Some m2" "same_job m m2"
    using same_jobs_get [OF prune_incidents_ok(2) [OF cat] m(1)] by blast
  have "mv_incident_count m2 < U64_MAX" using n [OF m(1)] m2(2) by (simp add: same_job_def)
  then have sat: "saturating_add_u64 (mv_incident_count m2) 1 = Suc (mv_incident_count m2)"
    by (simp add: saturating_add_u64_def)
  have t: "numbered ?t" by (rule prune_incidents_front(1) [OF cat s(2)])
  let ?x = "new_incident env call i m2 (Suc (mv_incident_count m2)) p"
  have "numbered_from (Suc (mv_incident_count m2)) (incidents_of ?t i @ [?x])"
    using t m2(1) prune_incidents_front(2) [OF cat s(2)] now
    by (intro numbered_push) (auto simp: numbered_def new_incident_def)
  moreover let ?u = "?t\<lparr>mp_monitors := bt_insert i (m2\<lparr>mv_incident_count := Suc (mv_incident_count m2),
             mv_unacked_incident_count := saturating_add_u64 (mv_unacked_incident_count m2) 1\<rparr>) (mp_monitors ?t),
          mp_incidents := bt_insert i (incidents_of ?t i @ [?x]) (mp_incidents ?t),
          mp_checkpoints := bt_insert i checkpoint (mp_checkpoints ?t)\<rparr>"
  have "incidents_of ?u j = (if j = i then incidents_of ?t i @ [?x] else incidents_of ?t j)" for j
    by (simp add: incidents_of_def bt_get_insert)
  ultimately have "numbered ?u" using t by (simp add: numbered_def bt_get_insert)
  moreover have "s' = recompute_unacked_counts ?u"
    using c m m2(1) sat by (simp add: incident_change_def Let_def)
  ultimately show ?thesis by (simp add: recompute_numbered)
qed

lemma ack_change_numbered:
  assumes s: "numbered s" and c: "ack_change i x now s = (v, s')"
  shows "numbered s'"
proof (cases "\<exists>is is'. bt_get (mp_incidents s) i = Some is \<and> acknowledge_first x now is = Some (True, is')")
  case False
  with c have "s' = s" by (auto simp: ack_change_def split: option.splits prod.splits bool.splits)
  with s show ?thesis by simp
next
  case True
  then obtain "is" is' where f: "bt_get (mp_incidents s) i = Some is" "acknowledge_first x now is = Some (True, is')"
    by blast
  have get: "incidents_of s' k = (if k = i then is' else incidents_of s k)" for k
    using c f by (auto simp: ack_change_def incidents_of_def bt_get_insert)
  have count: "\<exists>m0. bt_get (mp_monitors s) k = Some m0 \<and> mv_incident_count m = mv_incident_count m0"
    if "bt_get (mp_monitors s') k = Some m" for k m
    using that c f by (auto simp: ack_change_def bt_get_insert split: option.splits if_splits)
  have old: "incidents_of s i = is" using f(1) by (simp add: incidents_of_def)
  show ?thesis
    unfolding numbered_def
  proof (intro allI impI)
    fix k m
    assume "bt_get (mp_monitors s') k = Some m"
    then obtain m0 where m0: "bt_get (mp_monitors s) k = Some m0" "mv_incident_count m = mv_incident_count m0"
      using count by blast
    have n: "numbered_from (mv_incident_count m) (incidents_of s k)" using s m0 by (simp add: numbered_def)
    show "numbered_from (mv_incident_count m) (incidents_of s' k)"
    proof (cases "k = i")
      case True
      then show ?thesis
        using acknowledge_first_spec [OF f(2)] numbered_same [OF n, of is'] by (simp add: get old)
    qed (simp add: get n)
  qed
qed

interpretation numbering: catalog_invariant env True numbered for env
proof unfold_locales
  fix s f i n v s'
  assume "numbered s" "keeps_counts f" "change_running i n f s = (v, s')"
  then show "numbered s'"
    by (auto simp: change_running_def numbered_def keeps_counts_def bt_get_insert split: option.splits if_splits)
next
  fix s i u n cursor v s'
  assume "numbered s" "\<And>m. True \<Longrightarrow> bt_get (mp_monitors s) i = Some m \<Longrightarrow> mv_revision m = n \<Longrightarrow> same_counts m u"
    "update_change i n u cursor s = (v, s')"
  then show "numbered s'"
    by (auto simp: update_change_def numbered_def same_counts_def bt_get_insert split: if_splits option.splits)
next
  fix s i n now v s'
  assume "numbered s" "stop_change i n now s = (v, s')"
  then show "numbered s'"
    by (auto simp: stop_change_def numbered_def bt_get_insert split: option.splits if_splits)
next
  fix s i
  assume "numbered s"
  then show "numbered (remove_monitor i s)"
    by (auto simp: numbered_def remove_monitor_def bt_get_remove incidents_of_def split: if_splits)
next
  fix s i x now v s'
  assume s: "monitor_inv (me_rx env) s" "numbered s" and c: "ack_change i x now s = (v, s')"
  show "numbered s'" by (rule ack_change_numbered [OF s(2) c])
next
  fix s s'
  assume "monitor_inv (me_rx env) s" "numbered s" "prune_monitor_capacity s = Some s'"
  then show "numbered s'"
    using prune_monitor_capacity_ok [of True "me_rx env" s] unfolding numbered_def pruned_of_def
    by (metis option.distinct(1) option.inject)
next
  fix s and m :: monitor_view and cursor
  assume s: "monitor_inv (me_rx env) s" "numbered s" "bt_get (mp_monitors s) (mv_id m) = None" "mv_incident_count m = 0"
  then have "bt_get (mp_incidents s) (mv_id m) = None" by (auto simp: monitors_inv_def catalog_ok_def)
  with s show "numbered (insert_monitor m cursor s)"
    by (auto simp: insert_monitor_def numbered_def numbered_from_def bt_get_insert incidents_of_def bt_contains_def)
next
  show "numbered (s\<lparr>mp_checkpoints := bt_insert i c (mp_checkpoints s)\<rparr>)" if "numbered s" for s i c
    using that by (simp add: numbered_def)
next
  fix s call i n p cp v s'
  assume s: "monitor_inv (me_rx env) s" "numbered s" and c: "incident_change env call i n p cp s = (v, s')"
    and n: "\<And>m. True \<Longrightarrow> bt_get (mp_monitors s) i = Some m \<Longrightarrow> mv_incident_count m < U64_MAX"
    and now: "\<And>x. True \<Longrightarrow> x \<in> set (incidents_of s i) \<Longrightarrow> mi_created_wall_time_ns x \<le> mc_now call"
  show "numbered s'" by (rule incident_change_numbered [OF s c n [OF TrueI] now [OF TrueI]])
qed

lemma reachable_numbered:
  "rtranclp (monitor_step env True) sys sys' \<Longrightarrow> monitor_inv (me_rx env) (md_state (fst sys)) \<Longrightarrow>
   updates_ready (me_rx env) sys \<Longrightarrow> numbered (md_state (fst sys)) \<Longrightarrow> numbered (md_state (fst sys'))"
  by (rule numbering.reachable_keeps)

section \<open>Polling\<close>

lemma take_sorted_by:
  assumes "sorted_wrt (<) (map f xs)" "0 < k" "k < length xs"
  shows "take k xs = filter (\<lambda>x. f x \<le> (f (last (take k xs)) :: nat)) xs"
  using assms
proof (induction xs arbitrary: k)
  case (Cons x xs)
  then obtain l where l: "k = Suc l" by (cases k) auto
  show ?case
  proof (cases "l = 0")
    case True
    have "filter (\<lambda>y. f y \<le> f x) xs = []" using Cons.prems(1) by (auto simp: filter_empty_conv)
    with True l show ?thesis by simp
  next
    case False
    then have "take l xs \<noteq> []" using Cons.prems(3) l by auto
    then have "last (take l xs) \<in> set xs" by (meson in_set_takeD last_in_set)
    then have "f x \<le> f (last (take l xs))" using Cons.prems(1) by (auto intro: less_imp_le)
    with Cons False l \<open>take l xs \<noteq> []\<close> show ?thesis by simp
  qed
qed simp

text \<open>A page after a cursor: everything it may show up to the next cursor, and no further.\<close>

lemma incident_page_exact:
  assumes n: "numbered_from count is" and p: "incident_page count is (Some after) limit include_acked = page"
  shows "\<exists>upto. mg_next_cursor page = Some upto \<and> after \<le> upto \<and>
    mg_incidents page = filter (\<lambda>x. after < mi_incident_seq x \<and> mi_incident_seq x \<le> upto \<and>
        (include_acked \<or> mi_acked_wall_time_ns x = None)) is \<and>
    (if mg_truncated page then after < upto else count \<le> upto)"
    and "mg_retention_gap page \<longleftrightarrow> (\<exists>k. after < k \<and> k \<le> count \<and> k \<notin> mi_incident_seq ` set is)"
proof -
  define lim where "lim = max 1 (min (case limit of None \<Rightarrow> MONITOR_DEFAULT_PAGE | Some n \<Rightarrow> n) MONITOR_MAX_PAGE)"
  then have lim: "0 < lim" by simp
  let ?ok = "\<lambda>x. include_acked \<or> mi_acked_wall_time_ns x = None"
  let ?sel = "filter (\<lambda>x. after < mi_incident_seq x) (filter ?ok is)"
  have seqs: "map mi_incident_seq is = [Suc (count - length is) ..< Suc count]" "length is \<le> count"
    using n by (auto simp: numbered_from_def)
  have le: "mi_incident_seq x \<le> count" if "x \<in> set is" for x
    using that seqs(1) by (metis atLeastLessThan_iff image_eqI less_Suc_eq_le set_map set_upt)
  have sorted: "sorted_wrt (<) (map mi_incident_seq is)" unfolding seqs(1) by (rule sorted_wrt_upt)
  have sub: "sorted_wrt (<) (map mi_incident_seq (filter P is))" for P
    using sorted by (simp add: sorted_wrt_map sorted_wrt_filter)
  have sel: "sorted_wrt (<) (map mi_incident_seq ?sel)" unfolding filter_filter by (rule sub)
  have page: "mg_incidents page = take lim ?sel" "mg_truncated page \<longleftrightarrow> lim < length ?sel"
    "mg_next_cursor page =
       (if lim < length ?sel
        then (if take lim ?sel = [] then None else Some (mi_incident_seq (last (take lim ?sel))))
        else Some (max after count))"
    unfolding p [symmetric] incident_page_def Let_def lim_def [symmetric] by simp_all
  show "\<exists>upto. mg_next_cursor page = Some upto \<and> after \<le> upto \<and>
    mg_incidents page = filter (\<lambda>x. after < mi_incident_seq x \<and> mi_incident_seq x \<le> upto \<and> ?ok x) is \<and>
    (if mg_truncated page then after < upto else count \<le> upto)"
  proof (cases "lim < length ?sel")
    case True
    let ?l = "mi_incident_seq (last (take lim ?sel))"
    have ne: "take lim ?sel \<noteq> []" using True lim by auto
    then have "last (take lim ?sel) \<in> set ?sel" by (meson in_set_takeD last_in_set)
    then have after: "after < ?l" by simp
    have "take lim ?sel = filter (\<lambda>x. mi_incident_seq x \<le> ?l) ?sel"
      by (rule take_sorted_by [OF sel lim True])
    also have "\<dots> = filter (\<lambda>x. after < mi_incident_seq x \<and> mi_incident_seq x \<le> ?l \<and> ?ok x) is"
      unfolding filter_filter by (rule filter_cong) auto
    finally have "take lim ?sel = \<dots>" .
    moreover have "mg_next_cursor page = Some ?l" "mg_truncated page" "mg_incidents page = take lim ?sel"
      using True ne page by simp_all
    ultimately show ?thesis using after by (intro exI [of _ ?l]) simp
  next
    case False
    have "mg_next_cursor page = Some (max after count)" "\<not> mg_truncated page" "mg_incidents page = ?sel"
      using False page by simp_all
    moreover have "?sel = filter (\<lambda>x. after < mi_incident_seq x \<and> mi_incident_seq x \<le> max after count \<and> ?ok x) is"
      unfolding filter_filter using le by (intro filter_cong) (auto simp: max.coboundedI2)
    ultimately show ?thesis by (intro exI [of _ "max after count"]) simp
  qed
  have set: "mi_incident_seq ` set is = {count - length is <.. count}"
    using arg_cong [OF seqs(1), of set] by (auto simp: atLeastLessThanSuc_atLeastAtMost atLeastSucAtMost_greaterThanAtMost simp del: upt_Suc)
  have "mg_retention_gap page \<longleftrightarrow> after < count - length is"
  proof (cases "is")
    case Nil
    then show ?thesis by (simp add: p [symmetric] incident_page_def Let_def)
  next
    case (Cons x xs)
    have "mi_incident_seq x = Suc (count - length is)"
      using seqs Cons upt_conv_Cons [of "Suc (count - length is)" "Suc count"] by simp
    then show ?thesis using Cons by (simp add: p [symmetric] incident_page_def Let_def)
  qed
  also have "\<dots> \<longleftrightarrow> (\<exists>k. after < k \<and> k \<le> count \<and> k \<notin> mi_incident_seq ` set is)"
    unfolding set using seqs(2) by (auto intro: exI [of _ "Suc after"])
  finally show "mg_retention_gap page \<longleftrightarrow> (\<exists>k. after < k \<and> k \<le> count \<and> k \<notin> mi_incident_seq ` set is)" .
qed

section \<open>Failures\<close>

text \<open>An operation that reports an error has left the catalog as it was.\<close>

lemma create_failed:
  assumes "monitor_create env slots call r d = Some (Inl e, d')" "monitors_inv ord (me_rx env) (md_state d)"
  shows "md_state d' = md_state d"
  using assms(1) by (cases rule: create_cases [OF _ assms(2), consumes 1]) auto

lemma update_failed:
  assumes "monitor_update env slots call i r d = Some (Inl e, d')"
  shows "md_state d' = md_state d"
  using assms
proof (cases rule: update_cases)
  case (prepared u cursor m o1 d1)
  from prepared(6) obtain e1 where o1: "o1 = Inl e1" "d' = spawn_worker (mc_uuid call) i (um_expected_revision r) d1"
    by auto
  from mutate_failed [OF prepared(5) [unfolded o1(1)] refuses_clean_changes(1)] show ?thesis by (simp add: o1(2))
qed simp

lemma stop_change_present: "stop_change i n now s = (Inr v, s') \<Longrightarrow> bt_get (mp_monitors s') i \<noteq> None"
  by (auto simp: stop_change_def bt_get_insert split: option.splits if_splits)

lemma stop_failed:
  assumes "monitor_stop env call i n d = Some (Inl e, d')" "md_state d' \<noteq> md_state d"
  shows False
  using assms(1)
proof (cases rule: stop_cases)
  case (tried m o1 d1)
  show ?thesis
  proof (cases o1)
    case (Inl e1)
    from mutate_failed [OF tried(3) [unfolded Inl] refuses_clean_changes(2)] tried(4) Inl assms(2) show ?thesis by auto
  next
    case (Inr u)
    with tried(4) have g: "Inl e = get_view i (stop_worker i n d1)" by simp
    have "bt_get (mp_monitors (md_state d1)) i \<noteq> None"
      using mutate_state [OF tried(3) refuses_clean_changes(2)] tried(1) stop_change_present
      by (metis option.distinct(1) stop_worker_state(1))
    with g show ?thesis by (auto simp: get_view_def)
  qed
qed (use assms(2) in simp)

lemma delete_failed:
  assumes "delete_stopped env call i n d = Some (Inl e, d')"
  shows "md_state d' = md_state d"
  using assms mutate_failed refuses_clean_changes(3) unfolding delete_stopped_def by blast

end
