(* ===== verification/MonitorGuarantees.thy ===== *)
theory MonitorGuarantees
  imports MonitorSteps
begin

text \<open>
  What clients of the monitors rely on across failures: a change that was reported is what the next
  start reads, a retried \<open>create\<close> is answered and not repeated, and a running job has its worker even
  when the file cannot be written.
\<close>

section \<open>Restart\<close>

text \<open>What the code relies on of \<open>serde_json\<close>: a state reads back, and so does its version alone.\<close>

definition state_codec_ok :: "('c, 'z) monitor_env_scheme \<Rightarrow> bool" where
  "state_codec_ok env \<longleftrightarrow>
     codec_ok (me_state env) \<and>
     (\<forall>s bs. encode_json (me_state env) s = Inr bs \<longrightarrow> decode_json (me_header env) bs = Inr (mp_schema_version s))"

definition stored :: "('c, 'z) monitor_env_scheme \<Rightarrow> files \<Rightarrow> monitor_state \<Rightarrow> bool" where
  "stored env fs s \<longleftrightarrow>
     (\<exists>bs. bt_get fs (me_path env) = Some (Regular bs) \<and> encode_json (me_state env) s = Inr bs \<and>
           length bs \<le> MAX_STATE_FILE_BYTES)"

lemma persist_stored: "persist env os s fs = Some (Inr u, fs') \<Longrightarrow> stored env fs' s"
  by (auto simp: persist_def stored_def atomic_write_ok split: sum.splits if_splits option.splits prod.splits)

lemma persist_failed:
  "persist env os s fs = Some (Inl e, fs') \<Longrightarrow> os_fault os (FsSyncDir (fst (me_path env))) = None \<Longrightarrow>
   bt_get fs' (me_path env) = bt_get fs (me_path env)"
  by (auto simp: persist_def atomic_write_err split: sum.splits if_splits option.splits prod.splits)

lemma monitor_inv_valid: "monitors_inv ord rx s \<Longrightarrow> validate_loaded_state rx s = Inr ()"
proof -
  assume s: "monitors_inv ord rx s"
  then have w: "bt_wf (mp_monitors s)" "bt_wf (mp_incidents s)" by (auto simp: monitors_inv_def catalog_ok_def)
  have "length is \<le> MAX_INCIDENTS_PER_MONITOR" if v: "is \<in> set (bt_values (mp_incidents s))" for "is"
  proof -
    obtain i where i: "bt_get (mp_incidents s) i = Some is" using bt_values_get [OF w(2) v] by blast
    then obtain m where "bt_get (mp_monitors s) i = Some m" using s by (fastforce simp: monitors_inv_def catalog_ok_def)
    with s i show ?thesis by (fastforce simp: monitors_inv_def catalog_ok_def monitor_ok_def incidents_of_def)
  qed
  moreover have "validate_spec rx (mv_spec m) = Inr ()" if "m \<in> set (bt_values (mp_monitors s))" for m
    using bt_values_get [OF w(1) that] s by (auto simp: monitors_inv_def catalog_ok_def monitor_ok_def)
  ultimately show ?thesis using s
    by (auto simp: validate_loaded_state_def each_ok_Inr_iff monitors_inv_def catalog_ok_def not_less)
qed

lemma open_stored:
  assumes "stored env fs s" "state_codec_ok env" "monitors_inv ord (me_rx env) s" "\<And>c. os_fault os c = None"
  shows "monitor_open env os fs = Inr \<lparr>md_state = s, md_files = fs, md_workers = bt_empty, md_shutdown = False\<rparr>"
proof -
  obtain bs where bs: "bt_get fs (me_path env) = Some (Regular bs)" "encode_json (me_state env) s = Inr bs"
    "length bs \<le> MAX_STATE_FILE_BYTES"
    using assms(1) by (auto simp: stored_def)
  have "mp_schema_version s = STATE_SCHEMA_VERSION" using assms(3) by (simp add: monitors_inv_def catalog_ok_def)
  then have "load_state env os fs = Inr s"
    using assms(2,4) bs by (auto simp: load_state_def fs_metadata_def fs_read_def state_codec_ok_def codec_ok_def)
  then show ?thesis by (simp add: monitor_open_def monitor_inv_valid [OF assms(3)])
qed

lemma mutate_restart:
  assumes "mutate_and_persist env os f d = Some (r, d')" "refuses_clean f (md_state d)"
    and "state_codec_ok env" "monitors_inv ord (me_rx env) (md_state d')" "\<And>c. os_fault os' c = None"
  shows "case r of
      Inr v \<Rightarrow> monitor_open env os' (md_files d') =
        Inr \<lparr>md_state = md_state d', md_files = md_files d', md_workers = bt_empty, md_shutdown = False\<rparr>
    | Inl e \<Rightarrow> md_state d' = md_state d \<and>
        (os_fault os (FsSyncDir (fst (me_path env))) = None \<longrightarrow>
         bt_get (md_files d') (me_path env) = bt_get (md_files d) (me_path env))"
  using assms(1)
proof (cases rule: mutate_cases)
  case (refused e s)
  with assms(2) show ?thesis by (auto simp: refuses_clean_def)
next
  case (unsaved v s e fs)
  then show ?thesis by (auto dest: persist_failed)
next
  case (saved v s fs)
  then have "stored env (md_files d') (md_state d')" by (auto dest: persist_stored)
  with open_stored [OF this assms(3,4,5)] saved show ?thesis by simp
qed

section \<open>Retries\<close>

lemma create_same_spec:
  assumes "monitor_create env slots call r d = Some (Inr m, d')"
  shows "validate_spec (me_rx env) (cm_spec r) = Inr () \<and> same_create_spec (mv_spec m) (cm_spec r)"
proof -
  have "same_create_spec ((cm_spec r)\<lparr>sp_start_cursor := Some c\<rparr>) (cm_spec r)" if "slot_cursor slots (cm_spec r) = Inr c" for c
    using that same_create_resolved by (auto simp: slot_cursor_def res_simps)
  with assms show ?thesis
    by (auto simp: monitor_create_def Let_def split: sum.splits option.splits if_splits prod.splits)
qed

lemma create_again:
  assumes "monitor_create env slots call r d = Some (Inr m, d')"
    and "bt_get (mp_monitors (md_state d2)) (cm_request_id r) = Some m2" "mv_spec m2 = mv_spec m"
  shows "monitor_create env slots2 call2 r d2 = Some (Inr m2, d2)"
  using create_same_spec [OF assms(1)] assms(2,3) by (simp add: monitor_create_def Let_def)

section \<open>Supervision\<close>

text \<open>Every running job has a started worker of its revision, and no worker is ahead of its job.\<close>

definition supervised :: "monitor_daemon \<Rightarrow> bool" where
  "supervised d \<longleftrightarrow>
     (\<not> md_shutdown d \<longrightarrow>
        (\<forall>i m. bt_get (mp_monitors (md_state d)) i = Some m \<longrightarrow> mv_status m = MonRunning \<longrightarrow>
           (\<exists>w. bt_get (md_workers d) i = Some w \<and> wh_revision w = mv_revision m))) \<and>
     (\<forall>i m w. bt_get (mp_monitors (md_state d)) i = Some m \<longrightarrow> bt_get (md_workers d) i = Some w \<longrightarrow>
        wh_started w \<and> wh_revision w \<le> mv_revision m)"

text \<open>The same, but for one job.\<close>

definition supervised_but :: "uuid \<Rightarrow> monitor_daemon \<Rightarrow> bool" where
  "supervised_but j d \<longleftrightarrow>
     (\<not> md_shutdown d \<longrightarrow>
        (\<forall>i m. i \<noteq> j \<longrightarrow> bt_get (mp_monitors (md_state d)) i = Some m \<longrightarrow> mv_status m = MonRunning \<longrightarrow>
           (\<exists>w. bt_get (md_workers d) i = Some w \<and> wh_revision w = mv_revision m))) \<and>
     (\<forall>i m w. bt_get (mp_monitors (md_state d)) i = Some m \<longrightarrow> bt_get (md_workers d) i = Some w \<longrightarrow>
        wh_started w \<and> wh_revision w \<le> mv_revision m)"

lemma supervised_weaken: "supervised d \<Longrightarrow> supervised_but j d"
  by (auto simp: supervised_def supervised_but_def)

lemma supervisedI:
  assumes "supervised_but j d"
    and "\<And>m. \<not> md_shutdown d \<Longrightarrow> bt_get (mp_monitors (md_state d)) j = Some m \<Longrightarrow> mv_status m = MonRunning \<Longrightarrow>
           \<exists>w. bt_get (md_workers d) j = Some w \<and> wh_revision w = mv_revision m"
  shows "supervised d"
  unfolding supervised_def
proof (intro conjI impI allI)
  fix i m
  assume "\<not> md_shutdown d" "bt_get (mp_monitors (md_state d)) i = Some m" "mv_status m = MonRunning"
  then show "\<exists>w. bt_get (md_workers d) i = Some w \<and> wh_revision w = mv_revision m"
    using assms by (cases "i = j") (auto simp: supervised_but_def)
qed (use assms(1) in \<open>auto simp: supervised_but_def\<close>)

lemma supervised_but_cong:
  "md_state d' = md_state d \<Longrightarrow> md_workers d' = md_workers d \<Longrightarrow> md_shutdown d' = md_shutdown d \<Longrightarrow>
   supervised_but j d' = supervised_but j d"
  by (simp add: supervised_but_def)

lemma supervised_idle:
  "supervised_but j d \<Longrightarrow> (\<And>m. bt_get (mp_monitors (md_state d)) j = Some m \<Longrightarrow> mv_status m \<noteq> MonRunning) \<Longrightarrow>
   supervised d"
  by (erule supervisedI) auto

text \<open>\<open>spawn_worker\<close> supervises the job when it is called with the current revision, and else does nothing.\<close>

lemma spawn_workers:
  "md_workers (spawn_worker token i revision d) =
     (if md_shutdown d \<or> \<not> authoritative i revision d \<or>
         (\<exists>w. bt_get (md_workers d) i = Some w \<and> revision \<le> wh_revision w)
      then md_workers d
      else bt_insert i \<lparr>wh_token = token, wh_revision = revision, wh_started = True\<rparr>
             (bt_insert i \<lparr>wh_token = token, wh_revision = revision, wh_started = False\<rparr> (md_workers d)))"
proof -
  have "authoritative i revision (d\<lparr>md_workers := ws\<rparr>) = authoritative i revision d" for ws
    by (simp add: authoritative_def)
  then show ?thesis
    by (auto simp: spawn_worker_def spawn_reserve_def spawn_start_def bt_get_insert split: option.splits)
qed

lemma spawn_supervises:
  assumes "supervised_but i d" "bt_get (mp_monitors (md_state d)) i = Some m" "mv_revision m = revision"
  shows "supervised (spawn_worker token i revision d)"
proof (cases "mv_status m = MonRunning \<and> \<not> md_shutdown d")
  case False
  then have "md_workers (spawn_worker token i revision d) = md_workers d"
    using assms(2) by (auto simp: spawn_workers authoritative_def)
  then have "supervised_but i (spawn_worker token i revision d)"
    using assms(1) supervised_but_cong [of "spawn_worker token i revision d" d i] by simp
  then show ?thesis by (rule supervisedI) (use assms(2) False in auto)
next
  case True
  then have a: "authoritative i revision d" using assms by (simp add: authoritative_def)
  show ?thesis
  proof (cases "\<exists>w. bt_get (md_workers d) i = Some w \<and> revision \<le> wh_revision w")
    case w: True
    then have "md_workers (spawn_worker token i revision d) = md_workers d" by (simp add: spawn_workers)
    moreover have "\<exists>w. bt_get (md_workers d) i = Some w \<and> wh_revision w = mv_revision m"
      using w assms by (metis supervised_but_def le_antisym)
    moreover have "supervised_but i (spawn_worker token i revision d)"
      using calculation(1) assms(1) supervised_but_cong [of "spawn_worker token i revision d" d i] by simp
    ultimately show ?thesis using assms(2) by (intro supervisedI [of i]) auto
  next
    case False
    define w where "w = \<lparr>wh_token = token, wh_revision = revision, wh_started = True\<rparr>"
    from False a True have get: "bt_get (md_workers (spawn_worker token i revision d)) j =
        (if j = i then Some w else bt_get (md_workers d) j)" for j
      by (auto simp: spawn_workers bt_get_insert w_def)
    have w: "wh_started w" "wh_revision w = mv_revision m" by (simp_all add: w_def assms(3))
    show ?thesis
      using assms(1,2) w unfolding supervised_def supervised_but_def get spawn_state by simp
  qed
qed

lemma ensure_supervises:
  "supervised_but i d \<Longrightarrow> supervised (ensure_current_worker token i d)"
  by (auto simp: ensure_current_worker_def intro: spawn_supervises supervised_idle split: option.splits)

text \<open>Changes of the catalog after which a job is no more than it was.\<close>

definition calms :: "uuid \<Rightarrow> monitor_state \<Rightarrow> monitor_state \<Rightarrow> bool" where
  "calms j s s' \<longleftrightarrow>
     (\<forall>i m'. bt_get (mp_monitors s') i = Some m' \<longrightarrow>
        (\<exists>m. bt_get (mp_monitors s) i = Some m \<and> mv_revision m \<le> mv_revision m' \<and>
           (i \<noteq> j \<longrightarrow> mv_status m' = MonRunning \<longrightarrow> mv_status m = MonRunning \<and> mv_revision m' = mv_revision m)))"

lemma calms_supervised:
  assumes "supervised_but j d" "calms j (md_state d) (md_state d')" "md_workers d' = md_workers d" "md_shutdown d' = md_shutdown d"
  shows "supervised_but j d'"
  unfolding supervised_but_def
proof (intro conjI allI impI)
  fix i m
  assume "\<not> md_shutdown d'" "i \<noteq> j" "bt_get (mp_monitors (md_state d')) i = Some m" "mv_status m = MonRunning"
  with assms show "\<exists>w. bt_get (md_workers d') i = Some w \<and> wh_revision w = mv_revision m"
    unfolding supervised_but_def calms_def by metis
next
  fix i m w
  assume "bt_get (mp_monitors (md_state d')) i = Some m" "bt_get (md_workers d') i = Some w"
  with assms show "wh_started w" "wh_revision w \<le> mv_revision m"
    unfolding supervised_but_def calms_def by (metis le_trans)+
qed

lemma calms_refl: "calms j s s"
  by (simp add: calms_def)

lemma stop_worker_but: "supervised_but i d \<Longrightarrow> supervised_but i (stop_worker i revision d)"
  by (auto simp: supervised_but_def stop_worker_def bt_get_remove split: option.splits if_splits)

lemma clear_worker_but: "supervised_but i d \<Longrightarrow> supervised_but i (clear_worker_if_token i token d)"
  by (auto simp: supervised_but_def clear_worker_if_token_def bt_get_remove split: option.splits if_splits)

lemma mutate_supervised:
  assumes "mutate_and_persist env os f d = Some (r, d')" "refuses_clean f (md_state d)" "supervised_but j d"
    and "\<And>v s'. f (md_state d) = (Inr v, s') \<Longrightarrow> calms j (md_state d) s'"
  shows "supervised_but j d'"
  using mutate_state [OF assms(1,2)] assms(3,4) calms_refl by (intro calms_supervised [of j d d']) metis+

lemma calms_update: "renewed rx m u \<Longrightarrow> bt_get (mp_monitors s) i = Some m \<Longrightarrow> mv_revision m < U64_MAX \<Longrightarrow>
  update_change i n u cursor s = (Inr v, s') \<Longrightarrow> calms i s s'"
  by (auto simp: update_change_def calms_def renewed_def same_counts_def bt_get_insert saturating_add_u64_def split: if_splits)

lemma calms_stop: "\<forall>m. bt_get (mp_monitors s) i = Some m \<longrightarrow> mv_revision m < U64_MAX \<Longrightarrow>
  stop_change i n now s = (Inr v, s') \<Longrightarrow> calms j s s'"
  by (auto simp: stop_change_def calms_def bt_get_insert saturating_add_u64_def split: option.splits if_splits)

lemma calms_running: "(\<And>m. mv_revision (f m) = mv_revision m \<and> mv_status (f m) \<noteq> MonRunning) \<Longrightarrow>
  change_running i n f s = (Inr v, s') \<Longrightarrow> calms j s s'"
  by (auto simp: change_running_def calms_def bt_get_insert split: option.splits if_splits)

lemma update_supervised:
  assumes "supervised d" "monitor_update env slots call i r d = Some (res, d')"
    and "um_expected_revision r < U64_MAX"
  shows "supervised d'"
  using assms(2)
proof (cases rule: update_cases)
  case (prepared u cursor m o1 d1)
  let ?d = "stop_worker i (um_expected_revision r) d"
  have "supervised_but i ?d" using assms(1) by (intro stop_worker_but supervised_weaken)
  then have d1: "supervised_but i d1"
    using prepared(2,3,4) assms(3) by (intro mutate_supervised [OF prepared(5) refuses_clean_changes(1)]) (auto intro: calms_update)
  note st = mutate_state [OF prepared(5) refuses_clean_changes(1)]
  show ?thesis
  proof (cases o1)
    case (Inl e)
    then have "md_state d1 = md_state d" using st by auto
    with prepared Inl d1 show ?thesis by (auto intro: spawn_supervises)
  next
    case (Inr w)
    then obtain s where "update_change i (um_expected_revision r) u cursor (md_state d) = (Inr (), md_state d1)"
      using prepared(5) by (auto elim!: mutate_cases)
    then have "bt_get (mp_monitors (md_state d1)) i = Some u"
      by (auto simp: update_change_def bt_get_insert split: option.splits if_splits dest!: sym [of _ "md_state d1"])
    with prepared Inr d1 show ?thesis by (auto intro: spawn_supervises)
  qed
qed (use assms(1) in simp)

lemma stop_supervised:
  assumes "supervised d" "monitor_stop env call i n d = Some (res, d')" "n < U64_MAX"
  shows "supervised d'"
  using assms(2)
proof (cases rule: stop_cases)
  case (tried m o1 d1)
  have "supervised_but i (stop_worker i n d)" using assms(1) by (intro stop_worker_but supervised_weaken)
  then have d1: "supervised_but i d1"
  proof (rule mutate_supervised [OF tried(3) refuses_clean_changes(2)])
    show "calms i (md_state (stop_worker i n d)) s'"
      if "stop_change i n (mc_now call) (md_state (stop_worker i n d)) = (Inr v, s')" for v s'
      using tried(1,2) assms(3) by (intro calms_stop [OF _ that]) simp
  qed
  show ?thesis
  proof (cases o1)
    case (Inl e)
    then have "md_state d1 = md_state d" using mutate_state [OF tried(3) refuses_clean_changes(2)] by auto
    with tried Inl d1 show ?thesis by (auto intro: spawn_supervises)
  next
    case (Inr u)
    then have "stop_change i n (mc_now call) (md_state d) = (Inr (), md_state d1)"
      using tried(3) by (auto elim!: mutate_cases)
    then have "\<And>m. bt_get (mp_monitors (md_state d1)) i = Some m \<Longrightarrow> mv_status m \<noteq> MonRunning"
      using tried(1)
      by (auto simp: stop_change_def bt_get_insert split: if_splits dest!: sym [of _ "md_state d1"])
    with tried Inr d1 show ?thesis by (auto intro!: supervised_idle [of i] stop_worker_but)
  qed
qed (use assms(1) in simp)

text \<open>
  A worker that ends in an error takes its own handle and no other: \<open>token\<close> is drawn fresh for each
  worker, so that the handle that carries it is of the revision the worker was started for.
\<close>

lemma exit_supervised:
  assumes "supervised d" "worker_exit env call i n token (Inl e) d = Some d'"
    and own: "\<And>w. bt_get (md_workers d) i = Some w \<Longrightarrow> wh_token w = token \<Longrightarrow> wh_revision w = n"
  shows "supervised d'"
proof -
  let ?d = "clear_worker_if_token i token d"
  have but: "supervised_but i ?d" using assms(1) by (intro clear_worker_but supervised_weaken)
  have same: "md_state ?d = md_state d" "md_shutdown ?d = md_shutdown d"
    by (auto simp: clear_worker_if_token_def split: option.splits)
  have kept: "\<exists>w. bt_get (md_workers ?d) i = Some w \<and> wh_revision w = mv_revision m"
    if "bt_get (mp_monitors (md_state d)) i = Some m" "mv_status m = MonRunning" "mv_revision m \<noteq> n" "\<not> md_shutdown d" for m
  proof -
    from assms(1) that obtain w where w: "bt_get (md_workers d) i = Some w" "wh_revision w = mv_revision m"
      unfolding supervised_def by blast
    with own that(3) have "wh_token w \<noteq> token" by auto
    with w show ?thesis by (auto simp: clear_worker_if_token_def)
  qed
  show ?thesis
  proof (cases "md_shutdown d")
    case True
    then have "d' = ?d" using assms(2) same by (simp add: worker_exit_def Let_def)
    with but same True show ?thesis by (simp add: supervised_def supervised_but_def)
  next
    case False
    then obtain r where "fail_monitor env call i n (monitor_error_text env e) ?d = Some (r, d')"
      using assms(2) same by (auto simp: worker_exit_def Let_def)
    then show ?thesis
    proof (cases rule: fail_cases)
      case (1 f o1 d1)
      have f: "\<And>m. mv_revision (f m) = mv_revision m \<and> mv_status (f m) \<noteq> MonRunning"
        using 1(2) by simp
      have d1: "supervised_but i d1"
        by (rule mutate_supervised [OF 1(3) refuses_clean_changes(5) but]) (rule calms_running [OF f])
      show ?thesis
      proof (cases o1)
        case (Inl x)
        with 1(4) d1 show ?thesis by (auto intro: ensure_supervises)
      next
        case (Inr u)
        have run: "change_running i n f (md_state d) = (Inr (), md_state d1)"
          and workers: "md_workers d1 = md_workers ?d" "md_shutdown d1 = md_shutdown d"
          using 1(3) Inr same by (auto elim!: mutate_cases)
        have "supervised d1"
        proof (rule supervisedI [OF d1])
          fix m
          assume j: "\<not> md_shutdown d1" "bt_get (mp_monitors (md_state d1)) i = Some m" "mv_status m = MonRunning"
          with run f have "bt_get (mp_monitors (md_state d)) i = Some m \<and> mv_revision m \<noteq> n"
            by (auto simp: change_running_def bt_get_insert split: option.splits if_splits dest!: sym [of _ "md_state d1"])
          with j workers kept show "\<exists>w. bt_get (md_workers d1) i = Some w \<and> wh_revision w = mv_revision m" by simp
        qed
        with 1(4) Inr show ?thesis by simp
      qed
    qed
  qed
qed

section \<open>An update that forgets\<close>

text \<open>
  \<open>update\<close> reads the view before it stops the worker and takes the lock, and writes it back whole. An
  incident the worker recorded in between is kept, but the counter that numbered it is the old one: the
  number is above the counter, and the next incident gets it again.
\<close>

lemma recorded_incident:
  assumes "monitors_inv ord rx s" "bt_get (mp_monitors s) i = Some m" "mv_status m = MonRunning" "mv_revision m = n"
    and "mv_incident_count m < U64_MAX" "incident_change env call i n p cp s = (Inr (), t)"
  shows "\<exists>x \<in> set (incidents_of t i). mi_incident_seq x = Suc (mv_incident_count m) \<and>
    mi_epoch x = pi_epoch p \<and> mi_seq_start x = pi_seq_start p \<and> mi_seq_end x = pi_seq_end p"
    "bt_get (mp_checkpoints t) i = Some cp"
proof -
  obtain m2 where m2: "bt_get (mp_monitors (prune_incidents i s)) i = Some m2" "same_job m m2"
    using same_jobs_get [OF prune_incidents_ok(2) assms(2)] assms(1) unfolding monitors_inv_def by blast
  have c: "saturating_add_u64 (mv_incident_count m2) 1 = Suc (mv_incident_count m)"
    using m2(2) assms(5) by (simp add: same_job_def saturating_add_u64_def)
  have "incidents_of (recompute_unacked_counts u) = incidents_of u" for u
    by (simp add: recompute_unacked_counts_def)
  moreover have "incidents_of (u\<lparr>mp_monitors := a, mp_incidents := bt_insert i b (mp_incidents u), mp_checkpoints := c\<rparr>) i = b"
    for u a b c
    by (simp add: incidents_of_def bt_get_insert)
  ultimately have
    "incidents_of t i = incidents_of (prune_incidents i s) i @ [new_incident env call i m2 (Suc (mv_incident_count m)) p]"
    using assms(2-4,6) m2(1) c by (auto simp: incident_change_def Let_def)
  then show "\<exists>x \<in> set (incidents_of t i). mi_incident_seq x = Suc (mv_incident_count m) \<and>
    mi_epoch x = pi_epoch p \<and> mi_seq_start x = pi_seq_start p \<and> mi_seq_end x = pi_seq_end p"
    by (simp add: new_incident_def)
  show "bt_get (mp_checkpoints t) i = Some cp"
    using assms(2-4,6) m2(1)
    by (auto simp: incident_change_def Let_def recompute_unacked_counts_def bt_get_insert)
qed

lemma update_forgets_incident:
  assumes "monitors_inv ord (me_rx env) (md_state d)" "update_prepare env slots now i r d = Inr (u, cursor)"
    and "bt_get (mp_monitors (md_state d)) i = Some m" "mv_status m = MonRunning" "mv_incident_count m < U64_MAX"
    and "record_incident env call i (mv_revision m) p cp d = Some (Inr (), d1)"
    and "update_commit env call2 i (mv_revision m) u cursor (stop_worker i (mv_revision m) d1) = Some (Inr v, d2)"
  shows "\<exists>m2. bt_get (mp_monitors (md_state d2)) i = Some m2 \<and>
    (\<exists>x \<in> set (incidents_of (md_state d2) i). mi_incident_seq x = Suc (mv_incident_count m2))"
proof -
  have "incident_change env call i (mv_revision m) p cp (md_state d) = (Inr (), md_state d1)"
    using assms(6) by (auto simp: record_incident_def elim!: mutate_cases)
  then obtain x where x: "x \<in> set (incidents_of (md_state d1) i)" "mi_incident_seq x = Suc (mv_incident_count m)"
    using recorded_incident(1) [OF assms(1,3,4) refl assms(5)] by blast
  have u: "mv_incident_count u = mv_incident_count m"
    using update_prepare_renews [OF assms(2)] assms(3) by (auto simp: renewed_def same_counts_def)
  have "update_change i (mv_revision m) u cursor (md_state d1) = (Inr (), md_state d2)"
    using assms(7) by (auto simp: update_commit_def split: option.splits sum.splits elim!: mutate_cases)
  then have "bt_get (mp_monitors (md_state d2)) i = Some u" "incidents_of (md_state d2) i = incidents_of (md_state d1) i"
    by (auto simp: update_change_def bt_get_insert incidents_of_def split: option.splits if_splits
        dest!: sym [of _ "md_state d2"])
  with x u show ?thesis by auto
qed

end
