(* ===== verification/MonitorWorkerProps.thy ===== *)
theory MonitorWorkerProps
  imports MonitorWorker MonitorGuarantees
begin

text \<open>
  What the worker owes its job. A match that was accepted is in the job's durable checkpoint before the
  worker goes on, and stays there until an incident reports it, whatever the clients do in between; a
  worker that begins with such a checkpoint reports it first. The steps of the others are a rely
  condition (\<open>undisturbed\<close>), which the operations of the clients satisfy.
\<close>

section \<open>What the manager's operations do to a checkpoint\<close>

definition running_at :: "uuid \<Rightarrow> nat \<Rightarrow> monitor_daemon \<Rightarrow> bool" where
  "running_at i n d \<longleftrightarrow>
     (\<exists>m. bt_get (mp_monitors (md_state d)) i = Some m \<and> mv_status m = MonRunning \<and> mv_revision m = n)"

abbreviation checkpoint_of :: "uuid \<Rightarrow> monitor_daemon \<Rightarrow> monitor_checkpoint option" where
  "checkpoint_of i d \<equiv> bt_get (mp_checkpoints (md_state d)) i"

text \<open>A change that leaves the checkpoint alone, unless the job no longer runs at this revision.\<close>

definition undisturbed :: "uuid \<Rightarrow> nat \<Rightarrow> monitor_daemon \<Rightarrow> monitor_daemon \<Rightarrow> bool" where
  "undisturbed i n d d' \<longleftrightarrow> (running_at i n d' \<longrightarrow> running_at i n d \<and> checkpoint_of i d' = checkpoint_of i d)"

text \<open>What the worker still has to report is in the checkpoint, from the same event on.\<close>

definition durable :: "uuid \<Rightarrow> nat \<Rightarrow> worker_runtime \<Rightarrow> monitor_daemon \<Rightarrow> bool" where
  "durable i n rt d \<longleftrightarrow>
     (running_at i n d \<longrightarrow>
        (\<forall>p t. wr_pending rt = Some (p, t) \<longrightarrow>
           (\<exists>cp q. checkpoint_of i d = Some cp \<and> mk_pending cp = Some q \<and> pi_epoch q = pi_epoch p \<and>
              pi_seq_start q = pi_seq_start p)))"

lemma durable_none: "wr_pending rt = None \<Longrightarrow> durable i n rt d"
  by (simp add: durable_def)

lemma durable_undisturbed: "durable i n rt d \<Longrightarrow> undisturbed i n d d' \<Longrightarrow> durable i n rt d'"
  unfolding durable_def undisturbed_def by metis

lemma durable_same: "durable i n rt d \<Longrightarrow> wr_pending rt' = wr_pending rt \<Longrightarrow> durable i n rt' d"
  by (simp add: durable_def)

lemma durable_saved:
  "(running_at i n d \<Longrightarrow> checkpoint_of i d = Some (runtime_checkpoint rt cursor)) \<Longrightarrow> durable i n rt d"
  by (auto simp: durable_def runtime_checkpoint_def)

lemma durable_merge:
  "durable i n rt d \<Longrightarrow> wr_pending rt = Some (p, t) \<Longrightarrow> wr_pending rt' = Some (merge_pending p c, t') \<Longrightarrow> durable i n rt' d"
  by (auto simp: durable_def merge_pending_def)

lemma undisturbed_refl [simp]: "undisturbed i n d d"
  by (simp add: undisturbed_def)

lemma undisturbed_trans: "undisturbed i n d1 d2 \<Longrightarrow> undisturbed i n d2 d3 \<Longrightarrow> undisturbed i n d1 d3"
  by (auto simp: undisturbed_def)

lemma change_running_undisturbed:
  assumes "\<And>m. mv_status (f m) = mv_status m \<and> mv_revision (f m) = mv_revision m"
    and "change_running i n f (md_state d) = (r, md_state d')"
  shows "undisturbed j k d d'"
  using assms
  by (auto simp: change_running_def undisturbed_def running_at_def bt_get_insert split: option.splits if_splits
      dest!: sym [of _ "md_state d'"])

lemma progress_undisturbed: "undisturbed j k d (update_progress i n cursor d)"
proof -
  let ?f = "\<lambda>m. m\<lparr>mv_current_cursor := Some cursor\<rparr>"
  have "mv_status (?f m) = mv_status m \<and> mv_revision (?f m) = mv_revision m" for m by simp
  moreover have "change_running i n ?f (md_state d) =
      (fst (change_running i n ?f (md_state d)), md_state (update_progress i n cursor d))"
    by (simp add: update_progress_def)
  ultimately show ?thesis by (rule change_running_undisturbed)
qed

lemma progress_incidents [simp]:
  "incidents_of (md_state (update_progress i n cursor d)) = incidents_of (md_state d)"
  "checkpoint_of j (update_progress i n cursor d) = checkpoint_of j d"
  by (auto simp: update_progress_def change_running_def split: option.splits)

lemma gap_state:
  assumes "record_gap env os i n t d = Some (Inr u, d')"
  shows "undisturbed j k d d'" "incidents_of (md_state d') = incidents_of (md_state d)" "checkpoint_of j d' = checkpoint_of j d"
proof -
  let ?f = "\<lambda>m. m\<lparr>mv_gap_count := saturating_add_u64 (mv_gap_count m) 1,
      mv_last_error := Some (truncate_text t MAX_DESCRIPTION_BYTES)\<rparr>"
  have c: "change_running i n ?f (md_state d) = (Inr u, md_state d')"
    using assms by (auto simp: record_gap_def elim!: mutate_cases)
  have "mv_status (?f m) = mv_status m \<and> mv_revision (?f m) = mv_revision m" for m by simp
  from change_running_undisturbed [OF this c] show "undisturbed j k d d'" .
  show "incidents_of (md_state d') = incidents_of (md_state d)" "checkpoint_of j d' = checkpoint_of j d"
    using c by (auto simp: change_running_def split: option.splits if_splits dest!: sym [of _ "md_state d'"])
qed

lemma record_saves:
  assumes "record_incident env call i n p cp d = Some (Inr u, d')" "running_at i n d'"
  shows "checkpoint_of i d' = Some cp"
proof -
  have "incident_change env call i n p cp (md_state d) = (Inr u, md_state d')"
    using assms(1) by (auto simp: record_incident_def elim!: mutate_cases)
  with assms(2) show ?thesis
    by (auto simp: incident_change_def Let_def running_at_def recompute_unacked_counts_def bt_get_insert
        split: option.splits if_splits dest!: sym [of _ "md_state d'"])
qed

lemma checkpoint_saves:
  assumes "checkpoint_progress env os i n cp d = Some (Inr u, d')" "running_at i n d'"
  shows "checkpoint_of i d' = Some cp"
  using assms
  by (auto simp: checkpoint_progress_def Let_def running_at_def bt_get_insert
      split: option.splits if_splits sum.splits prod.splits)

section \<open>The worker keeps its pending match durable\<close>

lemma worker_bind_Inr:
  "worker_bind r k = Some (Inr v, d') \<longleftrightarrow> (\<exists>u d1. r = Some (Inr u, d1) \<and> k u d1 = Some (Inr v, d'))"
  by (auto simp: worker_bind_def split: option.splits sum.splits)

lemma emit_durable:
  assumes "emit_incident env call i n x w d = Some (Inr u, d')" "x = None \<Longrightarrow> durable i n (wk_runtime w) d"
  shows "durable i n (wk_runtime w) d'"
proof (cases x)
  case (Some p)
  with assms(1) record_saves show ?thesis by (intro durable_saved) (fastforce simp: emit_incident_def)
qed (use assms in \<open>simp add: emit_incident_def\<close>)

lemma checkpoint_durable:
  assumes "checkpoint_worker env os i n w d = Some (Inr u, d')"
  shows "durable i n (wk_runtime w) d'"
  using checkpoint_saves assms unfolding checkpoint_worker_def by (intro durable_saved) blast

lemma due_durable:
  assumes "checkpoint_if_due env x i n w d = Some (Inr w', d')" "durable i n (wk_runtime w) d"
  shows "durable i n (wk_runtime w') d'"
  using assms checkpoint_durable [of env "wn_due x" i n w d]
  by (fastforce simp: checkpoint_if_due_def worker_bind_Inr split: if_splits)

text \<open>The cases of \<open>accept_match\<close>, by what happens to the pending match.\<close>

lemma accept_cases:
  assumes "accept_match c now wall rt = (x, rt')"
  obtains (kept) "wr_pending rt' = wr_pending rt"
  | (merged) p t where "x = None" "wr_pending rt = Some (p, t)" "wr_pending rt' = Some (merge_pending p c, t)"
  | (first_match) "x = None" "wr_pending rt = None" "wr_pending rt' = Some (c, now + wr_debounce rt)"
  using assms by (auto simp: accept_match_def split: if_splits option.splits)

lemma bytes_durable:
  assumes "process_bytes env x i n e w d = Some (Inr w', d')" "durable i n (wk_runtime w) d"
  shows "durable i n (wk_runtime w') d'"
proof -
  obtain candidate matcher where push: "matcher_push e (wr_matcher (wk_runtime w)) = (candidate, matcher)" by fastforce
  let ?rt = "(wk_runtime w)\<lparr>wr_matcher := matcher\<rparr>"
  have rt: "durable i n ?rt d" by (rule durable_same [OF assms(2)]) simp
  show ?thesis
  proof (cases candidate)
    case None
    with assms(1) push rt show ?thesis by (auto simp: process_bytes_def Let_def)
  next
    case (Some c)
    obtain incident rt' where acc: "accept_match c (wn_now x) (wn_wall x) ?rt = (incident, rt')" by fastforce
    let ?w = "w\<lparr>wk_runtime := rt'\<rparr>"
    from assms(1) obtain u d1 where emit: "emit_incident env (wn_emit x) i n incident ?w d = Some (Inr u, d1)"
      and rest: "(if wr_pending (wk_runtime w) = None \<and> wr_pending rt' \<noteq> None
        then worker_bind (checkpoint_worker env (wn_save x) i n ?w d1) (\<lambda>_ d. Some (Inr ?w, d))
        else Some (Inr ?w, d1)) = Some (Inr w', d')"
      using push Some acc by (auto simp: process_bytes_def Let_def worker_bind_Inr simp del: not_None_eq not_Some_eq)
    have w': "w' = ?w" using rest by (auto simp: worker_bind_Inr split: if_splits)
    show ?thesis
    proof (cases "wr_pending (wk_runtime w) = None \<and> wr_pending rt' \<noteq> None")
      case True
      with rest w' show ?thesis using checkpoint_durable by (fastforce simp: worker_bind_Inr)
    next
      case False
      from rest [unfolded if_not_P [OF False]] have d': "d' = d1" by simp
      have "durable i n rt' d" if "incident = None"
        using acc
      proof (cases rule: accept_cases)
        case kept
        with rt show ?thesis by (rule durable_same)
      next
        case (merged p t)
        then show ?thesis using durable_merge [OF rt, of p t rt' c t] by simp
      next
        case first_match
        with False show ?thesis by simp
      qed
      with emit_durable [OF emit] w' d' show ?thesis by simp
    qed
  qed
qed

lemma event_durable:
  assumes "process_monitor_event env x i n e w d = Some (Inr w', d')" "durable i n (wk_runtime w) d"
  shows "durable i n (wk_runtime w') d'"
proof -
  let ?c = "\<lparr>cu_epoch = ev_epoch e, cu_after_seq = ev_seq e\<rparr>"
  let ?d = "update_progress i n ?c d"
  have d: "durable i n (wk_runtime w) ?d" by (rule durable_undisturbed [OF assms(2) progress_undisturbed])
  show ?thesis
  proof (cases "ev_kind e = KGap")
    case True
    obtain incident rt where reset: "reset_for_gap (wk_runtime w) = (incident, rt)" by fastforce
    then have "wr_pending rt = None" by (auto simp: reset_for_gap_def)
    moreover from assms(1) True reset have "wk_runtime w' = rt"
      by (auto simp: process_monitor_event_def Let_def worker_bind_Inr)
    ultimately show ?thesis by (simp add: durable_none)
  next
    case False
    obtain incident rt where seen: "observes_boundary e (wk_runtime w) = (incident, rt)" by fastforce
    let ?w = "w\<lparr>wk_cursor := ?c, wk_runtime := rt\<rparr>"
    from assms(1) False seen obtain u d1 where emit: "emit_incident env (wn_flush x) i n incident ?w ?d = Some (Inr u, d1)"
      and rest: "(if ev_kind e \<noteq> KRx \<or> ev_direction e \<noteq> DRx then Some (Inr ?w, d1)
        else process_bytes env x i n e ?w d1) = Some (Inr w', d')"
      by (auto simp: process_monitor_event_def Let_def worker_bind_Inr)
    have "wr_pending rt = None \<or> wr_pending rt = wr_pending (wk_runtime w)"
      using seen by (auto simp: observes_boundary_def reset_for_boundary_def Let_def split: if_splits)
    with d have "durable i n rt ?d" using durable_none durable_same by metis
    then have "durable i n (wk_runtime ?w) d1" using emit_durable [OF emit] by simp
    with rest show ?thesis using bytes_durable [of env x i n e ?w d1 w' d'] by (auto split: if_splits)
  qed
qed

text \<open>The steps of the loop that leave the worker running, and any step of others that is \<open>undisturbed\<close>.\<close>

lemma replay_durable:
  "replay_events env m es w d = Some (Inr w', d') \<Longrightarrow> durable (mv_id m) (mv_revision m) (wk_runtime w) d \<Longrightarrow>
   durable (mv_id m) (mv_revision m) (wk_runtime w') d'"
proof (induction env m es w d rule: replay_events.induct)
  case (2 env m x e es w d)
  then show ?case unfolding replay_events.simps worker_bind_Inr using event_durable due_durable by metis
qed simp

lemma attach_durable:
  assumes "worker_attach env x m attached w d = Some (Inr w', d')" "durable (mv_id m) (mv_revision m) (wk_runtime w) d"
  shows "durable (mv_id m) (mv_revision m) (wk_runtime w') d'"
proof -
  obtain gap es where a: "attached = Inr (gap, es)" using assms(1) by (cases attached) (auto simp: worker_attach_def)
  show ?thesis
  proof (cases gap)
    case None
    with assms a replay_durable show ?thesis by (fastforce simp: worker_attach_def worker_bind_Inr)
  next
    case (Some g)
    obtain incident rt where reset: "reset_for_gap (wk_runtime w) = (incident, rt)" by fastforce
    then have "wr_pending rt = None" by (auto simp: reset_for_gap_def)
    moreover from assms(1) a Some reset obtain d1 where "replay_events env m es (w\<lparr>wk_runtime := rt\<rparr>) d1 = Some (Inr w', d')"
      by (auto simp: worker_attach_def worker_bind_Inr Let_def)
    ultimately show ?thesis by (elim replay_durable) (simp add: durable_none)
  qed
qed

lemma receive_durable:
  assumes "worker_receive env x m ready_head e w d = Some (Inr w', d')" "durable (mv_id m) (mv_revision m) (wk_runtime w) d"
  shows "durable (mv_id m) (mv_revision m) (wk_runtime w') d'"
  using assms event_durable due_durable unfolding worker_receive_def
  by (fastforce simp: worker_bind_Inr split: if_splits)

lemma tick_durable:
  assumes "worker_tick env x m w d = Some (Inr (Some w'), d')" "durable (mv_id m) (mv_revision m) (wk_runtime w) d"
  shows "durable (mv_id m) (mv_revision m) (wk_runtime w') d'"
proof -
  obtain incident rt where due: "take_due (wn_now x) (wn_wall x) (wk_runtime w) = (incident, rt)" by fastforce
  from assms(1) due obtain u d1 w2 d2
    where emit: "emit_incident env (wn_emit x) (mv_id m) (mv_revision m) incident (w\<lparr>wk_runtime := rt\<rparr>) d = Some (Inr u, d1)"
      and save: "checkpoint_if_due env x (mv_id m) (mv_revision m) (w\<lparr>wk_runtime := rt\<rparr>) d1 = Some (Inr w2, d2)"
      and expire: "worker_expire env x m w2 d2 = Some (Inr (Some w'), d')"
    by (auto simp: worker_tick_def worker_bind_Inr Let_def)
  have "durable (mv_id m) (mv_revision m) rt d"
    using due assms(2) by (auto simp: take_due_def durable_none split: option.splits if_splits)
  with emit_durable [OF emit] have "durable (mv_id m) (mv_revision m) rt d1" by simp
  with due_durable [OF save] have "durable (mv_id m) (mv_revision m) (wk_runtime w2) d2" by simp
  moreover have "w' = w2 \<and> d' = d2" using expire by (auto simp: worker_expire_def worker_bind_Inr Let_def split: if_splits)
  ultimately show ?thesis by simp
qed

inductive worker_moves ::
  "('c, 'z) monitor_env_scheme \<Rightarrow> monitor_view \<Rightarrow> ('j timeline_event \<Rightarrow> bool) \<Rightarrow> worker \<times> monitor_daemon \<Rightarrow>
   worker \<times> monitor_daemon \<Rightarrow> bool"
  for env m of_port where
  moves_attach: "worker_attach env x m (Inr (gap, es)) w d = Some (Inr w', d') \<Longrightarrow> \<forall>(x, e) \<in> set es. of_port e \<Longrightarrow>
    worker_moves env m of_port (w, d) (w', d')"
| moves_receive: "worker_receive env x m ready_head e w d = Some (Inr w', d') \<Longrightarrow> of_port e \<Longrightarrow>
    worker_moves env m of_port (w, d) (w', d')"
| moves_tick: "worker_tick env x m w d = Some (Inr (Some w'), d') \<Longrightarrow> worker_moves env m of_port (w, d) (w', d')"
| moves_other: "undisturbed (mv_id m) (mv_revision m) d d' \<Longrightarrow> worker_moves env m of_port (w, d) (w, d')"

lemma moves_durable:
  assumes "rtranclp (worker_moves env m of_port) c c'"
    and "durable (mv_id m) (mv_revision m) (wk_runtime (fst c)) (snd c)"
  shows "durable (mv_id m) (mv_revision m) (wk_runtime (fst c')) (snd c')"
  using assms
proof (induction rule: rtranclp_induct)
  case (step c2 c3)
  then have "durable (mv_id m) (mv_revision m) (wk_runtime (fst c2)) (snd c2)" by blast
  with step(2) show ?case
    by cases (auto dest: attach_durable receive_durable tick_durable durable_undisturbed)
qed

text \<open>What clients do is undisturbed.\<close>

lemma undisturbed_jobs:
  assumes "\<And>m'. bt_get (mp_monitors (md_state d')) i = Some m' \<Longrightarrow> mv_status m' = MonRunning \<Longrightarrow> mv_revision m' = n \<Longrightarrow>
      \<exists>m. bt_get (mp_monitors (md_state d)) i = Some m \<and> mv_status m = MonRunning \<and> mv_revision m = n \<and>
        checkpoint_of i d' = checkpoint_of i d"
  shows "undisturbed i n d d'"
  using assms unfolding undisturbed_def running_at_def by blast

lemma mutate_undisturbed:
  assumes "mutate_and_persist env os f d = Some (r, d')" "refuses_clean f (md_state d)"
    and "\<And>v d2. f (md_state d) = (Inr v, md_state d2) \<Longrightarrow> undisturbed i n d d2"
  shows "undisturbed i n d d'"
  using mutate_state [OF assms(1,2)] assms(3) by (auto simp: undisturbed_def running_at_def)

lemma undisturbed_cong:
  "undisturbed i n d1 d2 \<Longrightarrow> md_state d1' = md_state d1 \<Longrightarrow> md_state d2' = md_state d2 \<Longrightarrow> undisturbed i n d1' d2'"
  by (simp add: undisturbed_def running_at_def)

lemma ack_undisturbed:
  assumes "acknowledge_incident env call j incident d = Some (x, d')"
  shows "undisturbed i n d d'"
proof -
  obtain r where run: "mutate_and_persist env (mc_os call) (ack_change j incident (mc_now call)) d = Some (r, d')"
    using assms by (auto simp: acknowledge_incident_def split: option.splits sum.splits prod.splits)
  show ?thesis
    by (rule mutate_undisturbed [OF run refuses_clean_changes(4)], rule undisturbed_jobs)
      (auto simp: ack_change_def bt_get_insert split: option.splits prod.splits bool.splits if_splits
        dest!: sym [of _ "md_state _"])
qed

lemma stop_undisturbed:
  assumes "monitor_stop env call j k d = Some (res, d')"
  shows "undisturbed i n d d'"
  using assms
proof (cases rule: stop_cases)
  case (tried m o1 d1)
  have "undisturbed i n (stop_worker j k d) d1"
    by (rule mutate_undisturbed [OF tried(3) refuses_clean_changes(2)], rule undisturbed_jobs)
      (auto simp: stop_change_def bt_get_insert split: option.splits if_splits dest!: sym [of _ "md_state _"])
  then show ?thesis by (rule undisturbed_cong) (use tried(4) in auto)
qed simp

lemma update_undisturbed:
  assumes "monitor_update env slots call j r d = Some (res, d')" "um_expected_revision r < U64_MAX"
    and "\<And>m. bt_get (mp_monitors (md_state d)) j = Some m \<Longrightarrow> i = j \<Longrightarrow> mv_revision m \<le> n \<and> n \<le> mv_revision m"
  shows "undisturbed i n d d'"
  using assms(1)
proof (cases rule: update_cases)
  case (prepared u cursor m o1 d1)
  have "mv_revision u = Suc (mv_revision m)"
    using prepared(3,4) assms(2) by (simp add: renewed_def same_counts_def saturating_add_u64_def)
  moreover have "i = j \<Longrightarrow> n = mv_revision m" using assms(3) [OF prepared(2)] by simp
  ultimately have "undisturbed i n (stop_worker j (um_expected_revision r) d) d1"
    by (intro mutate_undisturbed [OF prepared(5) refuses_clean_changes(1)] undisturbed_jobs)
      (auto simp: update_change_def bt_get_insert split: option.splits if_splits dest!: sym [of _ "md_state _"])
  then show ?thesis by (rule undisturbed_cong) (use prepared(6) in auto)
qed simp

text \<open>The second half of an update, whenever it comes after the first.\<close>

lemma commit_undisturbed:
  assumes "update_commit env call j k u cursor d = Some (res, d')" "mv_revision u = Suc k" "i = j \<Longrightarrow> n \<le> k"
  shows "undisturbed i n d d'"
proof -
  obtain o1 d1 where m: "mutate_and_persist env (mc_os call) (update_change j k u cursor) d = Some (o1, d1)"
    and d': "md_state d' = md_state d1"
    using assms(1) by (auto simp: update_commit_def split: option.splits sum.splits)
  have "undisturbed i n d d1"
    using assms(2,3)
    by (intro mutate_undisturbed [OF m refuses_clean_changes(1)] undisturbed_jobs)
      (auto simp: update_change_def bt_get_insert split: option.splits if_splits dest!: sym [of _ "md_state _"])
  then show ?thesis by (rule undisturbed_cong) (simp_all add: d')
qed

section \<open>A restart reports what was pending\<close>

lemma bind_gap_state:
  assumes "worker_bind (record_gap env os i n t d) (\<lambda>_ d. Some (Inr w, d)) = Some (Inr w', d')"
  shows "incidents_of (md_state d') = incidents_of (md_state d)" "checkpoint_of j d' = checkpoint_of j d"
  using assms gap_state(2,3) by (auto simp: worker_bind_Inr)

lemma resume_state:
  assumes "worker_bind (resume_epoch env os m epoch w d) (\<lambda>w d. worker_bind (resume_head env os' m h w d) (\<lambda>w d.
      Some (Inr (Some w), update_progress (mv_id m) (mv_revision m) (wk_cursor w) d))) = Some (Inr v, d')"
  shows "incidents_of (md_state d') = incidents_of (md_state d) \<and> checkpoint_of j d' = checkpoint_of j d"
proof -
  from assms obtain w1 d1 w2 d2 where
    one: "resume_epoch env os m epoch w d = Some (Inr w1, d1)" "resume_head env os' m h w1 d1 = Some (Inr w2, d2)"
    and d': "d' = update_progress (mv_id m) (mv_revision m) (wk_cursor w2) d2"
    by (auto simp: worker_bind_Inr)
  have "incidents_of (md_state d1) = incidents_of (md_state d) \<and> checkpoint_of j d1 = checkpoint_of j d"
    using one(1) by (cases "cu_epoch (wk_cursor w) = epoch")
      (auto simp: resume_epoch_def dest: bind_gap_state(1) bind_gap_state(2) [of _ _ _ _ _ _ _ _ _ j])
  moreover have "incidents_of (md_state d2) = incidents_of (md_state d1) \<and> checkpoint_of j d2 = checkpoint_of j d1"
    using one(2) by (cases "cu_after_seq (wk_cursor w1) \<le> h")
      (auto simp: resume_head_def dest: bind_gap_state(1) bind_gap_state(2) [of _ _ _ _ _ _ _ _ _ j])
  ultimately show ?thesis by (simp add: d')
qed

lemma begin_reports:
  assumes "worker_begin env x slots m d = Some (Inr (Some w), d')" "monitors_inv ord (me_rx env) (md_state d)"
    and "bt_get (mp_monitors (md_state d)) (mv_id m) = Some m0" "mv_status m0 = MonRunning" "mv_revision m0 = mv_revision m"
    and "mv_incident_count m0 < U64_MAX"
    and "checkpoint_of (mv_id m) d = Some cp" "mk_pending cp = Some q"
  shows "(\<exists>y \<in> set (incidents_of (md_state d') (mv_id m)).
      mi_incident_seq y = Suc (mv_incident_count m0) \<and> mi_epoch y = pi_epoch q \<and> mi_seq_start y = pi_seq_start q) \<and>
    (\<exists>cp'. checkpoint_of (mv_id m) d' = Some cp' \<and> mk_pending cp' = None \<and>
       mk_cursor cp' = \<lparr>cu_epoch = pi_epoch q, cu_after_seq = pi_seq_end q\<rparr>)"
proof -
  obtain epoch h where slot: "slots (sp_port (mv_spec m)) = Some (epoch, h)"
    using assms(1) by (auto simp: worker_begin_def split: if_splits option.splits prod.splits)
  obtain rt where rt: "runtime_new (me_rx env) (mv_spec m) (mk_cooldown_until cp) (Some q) (wn_now x) = Inr rt"
    using assms(1,7,8) slot
    by (auto simp: worker_begin_def checkpoint_for_def Let_def split: if_splits option.splits prod.splits sum.splits)
  have pending: "wr_pending rt = Some (q, wn_now x)" using rt by (auto simp: runtime_new_def res_simps)
  define rt1 where "rt1 = rt\<lparr>wr_pending := None, wr_cooldown_until := Some (cooldown_deadline (wn_wall x) rt)\<rparr>"
  define w1 where "w1 = \<lparr>wk_runtime = rt1, wk_cursor = \<lparr>cu_epoch = pi_epoch q, cu_after_seq = pi_seq_end q\<rparr>,
      wk_last_checkpoint = wn_saved_now x\<rparr>"
  have taken: "take_recovered_pending (mk_cursor cp) (wn_wall x) rt = (Some q, wk_cursor w1, rt1)"
    by (simp add: take_recovered_pending_def pending rt1_def w1_def)
  have "worker_bind (emit_incident env (wn_emit x) (mv_id m) (mv_revision m) (Some q) w1 d) (\<lambda>_ d.
      worker_bind (resume_epoch env (wn_save x) m epoch w1 d) (\<lambda>w d.
      worker_bind (resume_head env (wn_due x) m h w d) (\<lambda>w d.
      Some (Inr (Some w), update_progress (mv_id m) (mv_revision m) (wk_cursor w) d)))) = Some (Inr (Some w), d')"
    using assms(1) unfolding worker_begin_def checkpoint_for_def slot assms(7) Let_def
    by (simp add: assms(8) rt taken w1_def split: if_splits)
  then obtain u d1 where
    emit: "emit_incident env (wn_emit x) (mv_id m) (mv_revision m) (Some q) w1 d = Some (Inr u, d1)"
    and resume: "worker_bind (resume_epoch env (wn_save x) m epoch w1 d1) (\<lambda>w d.
      worker_bind (resume_head env (wn_due x) m h w d) (\<lambda>w d.
      Some (Inr (Some w), update_progress (mv_id m) (mv_revision m) (wk_cursor w) d))) = Some (Inr (Some w), d')"
    by (subst (asm) worker_bind_Inr) (elim exE conjE)
  let ?cp = "runtime_checkpoint rt1 (wk_cursor w1)"
  have "incident_change env (wn_emit x) (mv_id m) (mv_revision m) q ?cp (md_state d) = (Inr (), md_state d1)"
    using emit by (auto simp: emit_incident_def record_incident_def w1_def elim!: mutate_cases)
  note recorded = recorded_incident [OF assms(2,3,4,5,6) this]
  from recorded(1) obtain y where y: "y \<in> set (incidents_of (md_state d1) (mv_id m))"
    "mi_incident_seq y = Suc (mv_incident_count m0)" "mi_epoch y = pi_epoch q" "mi_seq_start y = pi_seq_start q"
    by (elim bexE conjE)
  moreover note recorded(2)
  moreover have "mk_pending ?cp = None" "mk_cursor ?cp = \<lparr>cu_epoch = pi_epoch q, cu_after_seq = pi_seq_end q\<rparr>"
    by (simp_all add: runtime_checkpoint_def rt1_def w1_def)
  ultimately show ?thesis using resume_state [OF resume] by metis
qed

lemma pending_reported:
  assumes "rtranclp (worker_moves env m of_port) (w0, d0) (w, d)" "wr_pending (wk_runtime w0) = None"
    and "wr_pending (wk_runtime w) = Some (p, t)" "running_at (mv_id m) (mv_revision m) d"
    and "checkpoint_of (mv_id m) d2 = checkpoint_of (mv_id m) d" "monitors_inv ord (me_rx env) (md_state d2)"
    and "bt_get (mp_monitors (md_state d2)) (mv_id m) = Some m2" "mv_status m2 = MonRunning" "mv_incident_count m2 < U64_MAX"
    and "worker_begin env x slots m2 d2 = Some (Inr (Some w2), d3)"
  shows "(\<exists>y \<in> set (incidents_of (md_state d3) (mv_id m)).
      mi_incident_seq y = Suc (mv_incident_count m2) \<and> mi_epoch y = pi_epoch p \<and> mi_seq_start y = pi_seq_start p) \<and>
    (\<exists>cp. checkpoint_of (mv_id m) d3 = Some cp \<and> mk_pending cp = None)"
proof -
  have "durable (mv_id m) (mv_revision m) (wk_runtime w) d"
    using moves_durable [OF assms(1)] assms(2) by (simp add: durable_none)
  then obtain cp q where cp: "checkpoint_of (mv_id m) d2 = Some cp" "mk_pending cp = Some q"
    "pi_epoch q = pi_epoch p" "pi_seq_start q = pi_seq_start p"
    using assms(3-5) unfolding durable_def by metis
  have "mv_id m2 = mv_id m" using assms(6,7) by (auto simp: monitors_inv_def catalog_ok_def monitor_ok_def)
  with begin_reports [OF assms(10,6) _ assms(8) refl assms(9) _ cp(2)] assms(7) cp show ?thesis by metis
qed

section \<open>Cooldown\<close>

text \<open>The matches of a job and the ticks of its worker, each with the two clocks; and when incidents come out.\<close>

datatype pace_input = Candidate pending_incident nat int | Due nat int

fun wall_of :: "pace_input \<Rightarrow> int" where
  "wall_of (Candidate c now wall) = wall"
| "wall_of (Due now wall) = wall"

fun pace_step :: "pace_input \<Rightarrow> worker_runtime \<Rightarrow> pending_incident option \<times> worker_runtime" where
  "pace_step (Candidate c now wall) rt = accept_match c now wall rt"
| "pace_step (Due now wall) rt = take_due now wall rt"

fun pace :: "pace_input list \<Rightarrow> worker_runtime \<Rightarrow> int list" where
  "pace [] rt = []"
| "pace (x # xs) rt =
     (let (incident, rt) = pace_step x rt in (if incident = None then pace xs rt else wall_of x # pace xs rt))"

definition cooldown_ns :: "worker_runtime \<Rightarrow> int" where
  "cooldown_ns rt = ms_to_ns (wr_cooldown rt div 1000000)"

lemma cooldown_deadline_exact:
  "I64_MIN \<le> now \<Longrightarrow> now + cooldown_ns rt \<le> I64_MAX \<Longrightarrow> cooldown_deadline now rt = now + cooldown_ns rt"
  by (simp add: cooldown_deadline_def cooldown_ns_def saturating_add_i64_def ms_to_ns_def I64_MAX_def)

lemma cooldown_ns_nonneg: "0 \<le> cooldown_ns rt"
  by (simp add: cooldown_ns_def ms_to_ns_def I64_MAX_def)

text \<open>A match is accepted only after the cooldown, so that what is pending is due after it.\<close>

definition rested :: "int \<Rightarrow> worker_runtime \<Rightarrow> bool" where
  "rested now rt \<longleftrightarrow>
     (wr_pending rt \<noteq> None \<longrightarrow> wr_debounce rt \<noteq> 0 \<and> (\<forall>t. wr_cooldown_until rt = Some t \<longrightarrow> t \<le> now))"

lemma pace_step_cases:
  assumes "pace_step x rt = (incident, rt')" "rested now rt" "now \<le> wall_of x"
  shows "cooldown_ns rt' = cooldown_ns rt \<and> rested (wall_of x) rt' \<and>
    (if incident = None then wr_cooldown_until rt' = wr_cooldown_until rt
     else wr_cooldown_until rt' = Some (cooldown_deadline (wall_of x) rt) \<and>
       (\<forall>t. wr_cooldown_until rt = Some t \<longrightarrow> t \<le> wall_of x))"
  using assms
  by (cases x)
    (auto simp: accept_match_def take_due_def rested_def cooldown_ns_def cooling_def
      split: if_splits option.splits)

lemma pace_spaced:
  assumes "sorted (now # map wall_of xs)" "\<forall>x \<in> set xs. I64_MIN \<le> wall_of x \<and> wall_of x + cooldown_ns rt \<le> I64_MAX"
    and "rested now rt"
  shows "sorted_wrt (\<lambda>a b. a + cooldown_ns rt \<le> b) (pace xs rt) \<and>
    (\<forall>t \<in> set (pace xs rt). \<forall>s. wr_cooldown_until rt = Some s \<longrightarrow> s \<le> t)"
  using assms
proof (induction xs arbitrary: rt now)
  case (Cons x xs)
  obtain incident rt' where st: "pace_step x rt = (incident, rt')" by fastforce
  have "now \<le> wall_of x" using Cons.prems(1) by simp
  note step = pace_step_cases [OF st Cons.prems(3) this]
  then have cd: "cooldown_ns rt' = cooldown_ns rt" and rest: "rested (wall_of x) rt'" by blast+
  have IH: "sorted_wrt (\<lambda>a b. a + cooldown_ns rt \<le> b) (pace xs rt') \<and>
    (\<forall>t \<in> set (pace xs rt'). \<forall>s. wr_cooldown_until rt' = Some s \<longrightarrow> s \<le> t)"
    using Cons.IH [OF _ _ rest] Cons.prems(1,2) unfolding cd by simp
  show ?case
  proof (cases incident)
    case None
    with step st IH show ?thesis by simp
  next
    case (Some p)
    then have until: "wr_cooldown_until rt' = Some (cooldown_deadline (wall_of x) rt)"
      and due: "\<forall>t. wr_cooldown_until rt = Some t \<longrightarrow> t \<le> wall_of x"
      using step by simp_all
    have "cooldown_deadline (wall_of x) rt = wall_of x + cooldown_ns rt"
      using Cons.prems(2) by (intro cooldown_deadline_exact) simp_all
    with IH until have later: "\<forall>t \<in> set (pace xs rt'). wall_of x + cooldown_ns rt \<le> t" by simp
    moreover have "s \<le> t" if "t \<in> set (pace xs rt')" "wr_cooldown_until rt = Some s" for s t
      using later due that cooldown_ns_nonneg [of rt] by fastforce
    ultimately show ?thesis using IH due st Some by simp
  qed
qed simp

end
