(* ===== verification/Spec2Isabelle.thy ===== *)
theory Spec2Isabelle
  imports MacroBudgets MacroCatalogProps ControlProps EventRing Wire JournalEndToEnd HumanHistory RunHistoryProps
    MonitorMatcherProps MonitorWorkerProps
begin

text \<open>
  A verification development for \<^bold>\<open>serial-platform\<close>, a daemon that shares serial ports between
  people and agents. It models the parts of the Rust workspace that decide what happens on the
  wire and what is remembered of it, definition by definition, and proves what makes them correct.

  \<^bold>\<open>The program.\<close> \<open>crates/seriald\<close> owns the ports. A client acquires a control lease
  (\<open>control.rs\<close>), writes through it, and reads a timeline of events from a bounded ring (\<open>ring.rs\<close>).
  Three stores live beside the journal: the commands people typed (\<open>human_history.rs\<close>), the index of
  Agent Runs (\<open>run_history.rs\<close>) and the catalog of Macro Scripts (\<open>macros.rs\<close>); all are written with
  \<open>atomic_write\<close> of \<open>config.rs\<close>. \<open>crates/serial-macro\<close> is the macro language: a lexer and parser
  (\<open>syntax.rs\<close>), a typed compiler (\<open>compiler.rs\<close>) and a virtual machine (\<open>vm.rs\<close>) that yields its
  effects (commands, watches, waits, delays) to the driver in the daemon. \<open>crates/serial-protocol\<close>
  holds the types they share.

  \<^bold>\<open>The theories.\<close>
  \<^item> \<open>Prelude\<close>: results as sums with the \<open>?\<close> operator (\<open>sbind\<close>), bounded machine integers, strings as
    lists of Unicode scalar values with their UTF-8 length. \<open>BTreeMap\<close>: ordered maps, with the
    interface \<open>ordered_map\<close>. \<open>Steps\<close>: the contracts \<open>machine\<close> (an invariant and a counter that never
    goes back) and \<open>versioned_store\<close> (data changes only with its revision).
  \<^item> \<open>MacroBase\<close> (\<open>lib.rs\<close>), \<open>MacroLexer\<close>, \<open>MacroAst\<close>, \<open>MacroParser\<close> (\<open>syntax.rs\<close>), \<open>MacroCompiler\<close>
    (\<open>compiler.rs\<close>), \<open>MacroVm\<close> (\<open>vm.rs\<close>): one definition per function, in the order of the code. A
    mutable \<open>&mut self\<close> is a state that is passed and returned; a Rust panic is a value of the result
    (\<open>Panic\<close>), so that its absence is a theorem and not an assumption.
  \<^item> \<open>MacroLexerProps\<close>, \<open>MacroParserProps\<close>: totality, well-formed syntax trees, spans, round trips of
    literals. \<open>MacroTyping\<close>, \<open>MacroExprTyping\<close>, \<open>MacroStmtTyping\<close>: a type system for the bytecode
    (a stack and variable typing at every instruction) and the proof that the compiler's output has
    one. \<open>MacroSafety\<close>: typed programs never reach an internal error, for every order of driver
    calls (\<open>reaches\<close>). \<open>MacroBudgets\<close>: budgets, numbering of effects, termination of runs.
  \<^item> \<open>Protocol\<close> (\<open>serial-protocol/src/lib.rs\<close>), \<open>Control\<close> and \<open>ControlProps\<close> (\<open>control.rs\<close>),
    \<open>EventRing\<close> (\<open>ring.rs\<close>, with the contract \<open>bounded_log\<close>).
  \<^item> \<open>Bytes\<close>, \<open>Wire\<close> (the frames of the WebSocket protocol, the end of \<open>serial-protocol/src/lib.rs\<close>,
    and what the capture client of \<open>serial-mcp/src/capture.rs\<close> makes of one).
  \<^item> \<open>FileHandle\<close> (an open file with a position, and short and failing reads), \<open>JournalRecords\<close>
    (the format of \<open>journal.rs\<close>: segment headers and records), \<open>JournalRecovery\<close> (what happens to a
    segment that was open at a crash), \<open>JournalGaps\<close> (sets of missing sequence numbers as ranges),
    \<open>GapLedger\<close> (the file that records them, and the budget of a query), \<open>StreamSearch\<close> (text and
    expressions across events), \<open>JournalQuery\<close> and \<open>JournalQueryProps\<close> (the page of an epoch).
  \<^item> \<open>JournalFiles\<close> and \<open>JournalPaths\<close> (directories, the names of segments, the walk through a tree),
    \<open>JournalDiscovery\<close> (the segments a query finds, and the whole query), \<open>JournalStore\<close> (the segments
    and events of a stream as its files hold them), \<open>JournalWriter\<close> (appending, rotation, retention,
    opening and closing), \<open>JournalFrames\<close>, \<open>JournalLog\<close>, \<open>JournalEviction\<close> and \<open>JournalAppend\<close>
    (what each step leaves alone, and how it changes the log of a stream, which is the abstract state
    \<open>journal_holds\<close> refers to), \<open>JournalEndToEnd\<close> (queries over those logs, and the space they take).
  \<^item> \<open>MonitorLiterals\<close> (the literals every match of an expression must have), \<open>MonitorTypes\<close> (the
    terms, views, incidents and checkpoints of monitor jobs, and their validation), \<open>MonitorMatcher\<close> (matching
    the conditions of a job over receive events in a bounded window) and \<open>MonitorMatcherProps\<close> (a search of
    the whole stream as its specification); \<open>MonitorStore\<close> (\<open>MonitorManager\<close>: the catalog, its file, the
    incidents and the handles of the workers), \<open>MonitorProps\<close> (the invariant of the catalog and each
    change of it, for orderly runs and for all), \<open>MonitorSteps\<close> (all operations as one step relation
    in which an update is two steps, with the contract \<open>catalog_invariant\<close>), \<open>MonitorGuarantees\<close> (restarts, retries, supervision), \<open>MonitorWorker\<close> (the runtime
    of a job's worker and the arms of its loop) and \<open>MonitorWorkerProps\<close> (what it owes its job, with the
    steps of the clients as a rely condition).
  \<^item> \<open>Storage\<close> (\<open>atomic_write\<close> over a file system whose every call may fail), \<open>HumanHistory\<close>,
    \<open>RunHistory\<close> and \<open>RunHistoryProps\<close>, \<open>MacroCatalog\<close> and \<open>MacroCatalogProps\<close>.

  \<^bold>\<open>Correspondence.\<close> A struct is a record, an enum a datatype, a \<open>Result\<close> a sum with the error on
  the left. \<open>u64\<close> and \<open>usize\<close> are natural numbers whose checked and saturating operations have the
  bound of 64 bits, \<open>i64\<close> is an integer with its bounds. \<open>Instant\<close> and \<open>Duration\<close> are nanoseconds. A
  method behind a mutex is one step on the state the mutex protects. Time, random identifiers and
  the answers of the operating system are arguments. Third-party code is a parameter: the JSON
  codec (\<open>codec\<close>, of which \<open>codec_ok\<close> states the round trip), the accessors of a JSON value
  (\<open>json_api\<close>), the text of a UUID (\<open>run_formats\<close>), Unicode case mapping (\<open>lower\<close>), capacities of
  vectors (\<open>size_api\<close>), the parser and compiler of regular expressions (\<open>regex_api\<close>, and \<open>hir\<close> for its syntax trees), the CRC of a record (\<open>je_crc\<close>), a compiled expression (its \<open>find_at\<close>) and the
  rounding of IEEE 754 (\<open>we_round\<close>). What the writer relies on of them is \<open>writer_env_ok\<close>.

  \<^bold>\<open>Fuel and bounds.\<close> The lexer, the depth check and the field loop of the parser terminate by
  measures. The mutually recursive parser takes fuel; \<open>parse_fuel\<close> gives it eight units per token
  and eight more, and \<open>parse_total\<close> proves that it never runs out. \<open>open_temporary\<close> consumes the
  random identifiers drawn and returns \<open>None\<close> when all collided; one free identifier is enough
  (\<open>atomic_write_returns\<close>). \<open>drive_all\<close> counts calls of the driver; one more than the instruction
  budget is enough. \<open>read_pages\<close> and \<open>read_list\<close> count requests; one more than the matches is enough.

  \<^bold>\<open>What the lemmas show.\<close> Below, in order: from a request to run a macro to its last effect
  (C1 to C8), the control lease (C9 to
  C12), the ring (C13 to C15),
  the stores (C16 to C18), the index of Runs
  (C19 to C22), the catalog (C23
  to C24), the wire (C25) and the journal
  (C26 to C31), and the monitors
  (C32 to C40). Results on the same parts that are not
  numbered (the text of literals, pages of the command history, transfers of the lease, ...) stand beside them.

  \<^bold>\<open>Not modelled.\<close> The slot actor (\<open>slot.rs\<close>) and the driver of macros inside it, the archive listing
  of the journal, the channel to its writer thread and the rebuilding of the Run index at startup, the
  channels between which a monitor's worker chooses its next step, and the configuration file. A
  monitor operation is one step under the mutation lock, except \<open>update\<close>, which reads its job before it
  takes the lock: in \<open>monitor_step\<close> its halves (\<open>update_prepare\<close>, \<open>update_commit\<close>) are steps of their own, with
  any others between them, and \<open>update_race_repeats_number\<close> is a run in which that loses the count of
  an incident. The flag of \<open>monitor_step\<close> says whether a run is orderly; the theorems name which one they
  are about. HTTP routing, the agent server, the terminal client and the installers are input and output around these parts. The text of error messages of the macro language is
  display only and left out; where a store builds a message, it is modelled. File permissions and
  the Windows variants of the file operations are left out.
\<close>

section \<open>Macro Script: from the catalog to the last effect\<close>

text \<open>A script, its program and its machine, for the concrete runs below.\<close>

definition demo_source :: rstring where
  "demo_source = lit ''cmd(\"ls\"); delay(5);''"

definition demo_span :: "nat \<Rightarrow> nat \<Rightarrow> nat \<Rightarrow> span" where
  "demo_span a b c = \<lparr>span_offset = a, span_end = b, span_line = 1, span_column = c\<rparr>"

definition demo_program :: program where
  "demo_program =
     \<lparr>p_code =
        [\<lparr>iop = OPush (VString [108, 115]), ispan = demo_span 4 8 5\<rparr>,
         \<lparr>iop = OCall Cmd, ispan = demo_span 0 3 1\<rparr>,
         \<lparr>iop = OPush (VInteger 5), ispan = demo_span 17 18 18\<rparr>,
         \<lparr>iop = OCall BDelay, ispan = demo_span 11 16 12\<rparr>],
      p_params = [], p_prompts = [], p_variables = 0, p_limits = default_limits\<rparr>"

definition demo_vm :: vm where
  "demo_vm =
     \<lparr>prog = demo_program, vm_args = [], vm_prompts = [], variables = [], stack = [], watchers = [],
      pc = 0, instructions = 0, command_bytes = 0, command_effects = 0, next_effect = 1,
      pending = None, failure = None, last_span = span_start\<rparr>"

definition demo_json :: "unit json_api" where
  "demo_json = \<lparr>as_bool = \<lambda>_. None, as_str = \<lambda>_. None, as_i64 = \<lambda>_. None\<rparr>"

text \<open>An encoder that knows one value.\<close>

definition one_codec :: "'a \<Rightarrow> 'a codec" where
  "one_codec x =
     \<lparr>encode_json = \<lambda>y. if y = x then Inr [1] else Inl (io_fail IoOther []),
      decode_json = \<lambda>bs. if bs = [1] then Inr x else Inl (io_fail IoInvalidData [])\<rparr>"

lemma one_codec_ok: "codec_ok (one_codec x)"
  by (simp add: codec_ok_def one_codec_def)

definition demo_spec :: "unit macro_run_spec" where
  "demo_spec =
     \<lparr>mx_macro_id = None, mx_revision = None, mx_script = Some demo_source, mx_description = None,
      mx_args = [], mx_timeout_seconds = 30\<rparr>"

definition demo_prepared :: "unit prepared_macro" where
  "demo_prepared =
     \<lparr>pm_spec = demo_spec, pm_definition = None, pm_program = demo_program, pm_arguments = [],
      pm_description = lit ''Run inline Macro Script v1''\<rparr>"

lemma demo_compile: "compile demo_source [] default_limits = Inr demo_program"
  by code_simp

lemma demo_start: "vm_new demo_program [] [] = Inr demo_vm"
  by (simp add: vm_new_def demo_program_def demo_vm_def)

lemma demo_prepare:
  "macro_prepare d demo_json (one_codec catalog_default) path demo_spec fs None = (Inr demo_prepared, None)"
proof -
  have "validate_label (lit ''description'') (lit ''Run inline Macro Script v1'') 256 = Inr ()"
    by code_simp
  then show ?thesis
    by (simp add: macro_prepare_def run_source_def prepare_source_def demo_spec_def demo_prepared_def
        MAX_MACRO_TIMEOUT_SECONDS_def parameter_types_def arguments_def bt_empty_def demo_compile map_error_def)
qed

lemma demo_codec: "catalog_codec_ok (one_codec catalog_default)"
  by (simp add: catalog_codec_ok_def one_codec_ok)
    (simp add: one_codec_def catalog_default_def bt_empty_def)

text \<open>
  C1: whatever request the macro catalog prepares, an inline script or a stored macro, the virtual
  machine runs it without a Rust panic and never fails on an internal error (a broken invariant,
  an overflowing expression stack, an unknown watcher), in whatever order and however wrongly the
  driver answers its effects.
\<close>

theorem prepared_macro_safe:
  assumes "macro_prepare d j json path spec fs state = (Inr pm, state')"
    and "catalog_codec_ok json" and "state_inv j state" and "json_ok j"
    and "vm_new (pm_program pm) (pm_arguments pm) texts = Inr s0" and "reaches s0 s"
  shows "(case fst (drive call s) of Some Panic \<Rightarrow> False | Some Out_of_fuel \<Rightarrow> False | _ \<Rightarrow> True) \<and>
    (case failure s of Some e \<Rightarrow> \<not> internal (err_code e) | None \<Rightarrow> True)"
proof -
  obtain \<Phi> where "typed_by (pm_program pm) \<Phi>" "safe (pm_program pm) \<Phi> s"
    using prepared_safe [OF assms] by blast
  from drive_safe [OF this, of call] this(2) show ?thesis
    by (auto simp: safe_def split: option.splits fault.splits)
qed

theorem prepared_macro_safe_witness:
  "(case fst (drive Call_advance demo_vm) of Some Panic \<Rightarrow> False | Some Out_of_fuel \<Rightarrow> False | _ \<Rightarrow> True) \<and>
   (case failure demo_vm of Some e \<Rightarrow> \<not> internal (err_code e) | None \<Rightarrow> True)"
  by (rule prepared_macro_safe [OF demo_prepare demo_codec, where s0 = demo_vm and texts = "[]"])
    (simp_all add: state_inv_def json_ok_def demo_json_def demo_prepared_def demo_start, rule reaches_refl)

text \<open>
  C2: the compiler is total: on every source, parameter list and limits it returns a program or an
  error of the script, never a panic (the index, \<open>unwrap\<close> and \<open>unreachable!\<close> sites of the crate)
  and never for lack of fuel. Its programs are well typed: every instruction has a stack and
  variable typing that its successors agree with. They stay within the variable limit.
\<close>

theorem compiler_total_and_typed:
  "case compile source ps l of
     Inl f \<Rightarrow> f \<noteq> Panic \<and> f \<noteq> Out_of_fuel
   | Inr p \<Rightarrow> typed_program p \<and> p_variables p \<le> max_variables l \<and> p_limits p = l \<and> p_params p = ps"
  using compile_total [of source ps l] unfolding cwp_def .

text \<open>
  C3: a slice of a compiled program, in any state a driver can reach, fails only with an error of
  the script, and when it reports completion the expression stack is empty.
\<close>

theorem compiled_run_completes_clean:
  assumes "compile source ps l = Inr p" and "vm_new p args texts = Inr s0" and "args_in_range args"
    and "max_string_bytes l < U64_MAX" and "reaches s0 s"
  shows "case advance s of
      (Inl f, s') \<Rightarrow> (case f of Fail e \<Rightarrow> \<not> internal (err_code e) \<and> failure s' = Some e | _ \<Rightarrow> False)
    | (Inr Complete, s') \<Rightarrow> stack s' = [] \<and> length (p_code p) \<le> pc s'
    | (Inr _, s') \<Rightarrow> failure s' = None"
  by (rule compiled_advance [OF assms])

theorem compiled_run_completes_clean_witness:
  "case advance demo_vm of
      (Inl f, s') \<Rightarrow> (case f of Fail e \<Rightarrow> \<not> internal (err_code e) \<and> failure s' = Some e | _ \<Rightarrow> False)
    | (Inr Complete, s') \<Rightarrow> stack s' = [] \<and> length (p_code demo_program) \<le> pc s'
    | (Inr _, s') \<Rightarrow> failure s' = None"
  by (rule compiled_run_completes_clean [OF demo_compile demo_start])
    (simp_all add: args_in_range_def default_limits_def U64_MAX_def reaches_refl)

text \<open>
  C4: every run ends. A driver that keeps advancing a compiled program and answers each effect,
  however it answers, sees it complete or fail after at most one call more than the instruction
  budget.
\<close>

theorem every_run_ends:
  assumes "compile source ps l = Inr p" and "vm_new p args texts = Inr s" and "max_instructions l < n"
  shows "\<exists>r s'. drive_all n answer s = Some (r, s')"
  using run_returns [OF assms] by auto

theorem every_run_ends_witness:
  "\<exists>r s'. drive_all 100001 (\<lambda>_. Done) demo_vm = Some (r, s')"
  by (rule every_run_ends [OF demo_compile demo_start]) (simp add: default_limits_def)

text \<open>
  C5: the budgets hold in every reachable state: instructions, bytes of commands and watchers, and
  a pending effect respects the limits of its kind (a command is bounded and free of control
  characters, a pattern is not empty, a duration is within its maximum).
\<close>

theorem budgets_hold:
  assumes "vm_new p args texts = Inr s0" and "reaches s0 s"
  shows "instructions s \<le> max_instructions (p_limits p) \<and>
    command_bytes s \<le> max_total_command_bytes (p_limits p) \<and>
    length (watchers s) \<le> max_watchers (p_limits p) \<and>
    (case pending s of None \<Rightarrow> True | Some e \<Rightarrow> eff_id e < next_effect s \<and> effect_ok (p_limits p) (eff_kind e))"
  using within_reaches [OF assms(2) within_new [OF assms(1)]] prog_reaches [OF assms(2)] vm_new_fields [OF assms(1)]
  by (auto simp: within_def budget_def split: option.splits)

theorem budgets_hold_witness:
  "command_bytes (snd (drive Call_advance demo_vm)) \<le> 1048576"
  using budgets_hold [OF demo_start reaches_step [OF reaches_refl], of Call_advance]
  by (simp add: demo_program_def default_limits_def)

text \<open>
  C6: effects are numbered in the order they are issued: an effect issued later has a larger
  identifier. And until an effect is answered, by a \<open>resume\<close> that names it or by the end of the
  machine in a failure, no call of the driver displaces it: \<open>advance\<close> returns the same effect and
  changes nothing.
\<close>

theorem effects_numbered_once:
  assumes "advance s = (Inr (Step_effect e), s')" and "pending s = None"
  shows "(\<forall>t e2 t'. reaches s' t \<longrightarrow> pending t = None \<longrightarrow> advance t = (Inr (Step_effect e2), t') \<longrightarrow>
      eff_id e < eff_id e2) \<and>
    (\<forall>calls. (\<forall>r. Call_resume (eff_id e) r \<notin> set calls) \<longrightarrow> failure (drive_calls calls s') = None \<longrightarrow>
      advance (drive_calls calls s') = (Inr (Step_effect e), drive_calls calls s'))"
  using later_effect [OF assms] advance_issues [OF assms] unanswered_effect_stays advance_again by blast

definition demo_first :: vm where "demo_first = snd (advance demo_vm)"
definition demo_second :: vm where "demo_second = snd (drive (Call_resume 1 Done) demo_first)"

theorem effects_numbered_once_witness:
  "eff_id (\<lparr>eff_id = 1, eff_span = demo_span 0 3 1, eff_kind = Command [108, 115] True\<rparr> :: effect) <
   eff_id (\<lparr>eff_id = 2, eff_span = demo_span 11 16 12, eff_kind = Delay 5\<rparr> :: effect) \<and>
   advance (drive_calls [Call_matched 4, Call_advance] demo_first) =
     (Inr (Step_effect \<lparr>eff_id = 1, eff_span = demo_span 0 3 1, eff_kind = Command [108, 115] True\<rparr>),
      drive_calls [Call_matched 4, Call_advance] demo_first)"
proof -
  have a: "advance demo_vm =
      (Inr (Step_effect \<lparr>eff_id = 1, eff_span = demo_span 0 3 1, eff_kind = Command [108, 115] True\<rparr>), demo_first)"
    by code_simp
  have p: "pending demo_vm = None" "pending demo_second = None" by code_simp+
  have r: "reaches demo_first demo_second" unfolding demo_second_def by (rule reaches_step [OF reaches_refl])
  have b: "advance demo_second =
      (Inr (Step_effect \<lparr>eff_id = 2, eff_span = demo_span 11 16 12, eff_kind = Delay 5\<rparr>), snd (advance demo_second))"
    by code_simp
  have f: "failure (drive_calls [Call_matched 4, Call_advance] demo_first) = None" by code_simp
  note both = effects_numbered_once [OF a p(1)]
  show ?thesis
    using both [THEN conjunct1, rule_format, OF r p(2) b]
      both [THEN conjunct2, rule_format, of "[Call_matched 4, Call_advance]", OF _ f] by simp
qed

text \<open>
  C7: a failure is terminal: after any further calls of the driver the machine has not moved, and
  every call it can make (\<open>advance\<close>, \<open>resume\<close>, \<open>fail_effect\<close>, \<open>interrupt\<close>, \<open>mark_matched\<close>) reports the
  first error again and changes nothing.
\<close>

theorem failure_is_terminal:
  assumes "failure s = Some e" and "reaches s t"
  shows "t = s \<and> advance t = (Inl (Fail e), t) \<and> resume n r t = (Inl (Fail e), t) \<and>
    fail_effect n t = (Inl (Fail e), t) \<and> interrupt t = (e, t) \<and> mark_matched w t = (Inl (Fail e), t)"
  using failed_reaches [OF assms(2,1)] assms(1)
  by (simp add: advance_def resume_def fail_effect_def interrupt_def mark_matched_def)

definition demo_interrupted :: vm where "demo_interrupted = snd (interrupt demo_vm)"

theorem failure_is_terminal_witness:
  "snd (drive (Call_matched 0) demo_interrupted) = demo_interrupted \<and>
   fst (resume 1 Done (snd (drive (Call_matched 0) demo_interrupted))) =
     Inl (Fail \<lparr>err_code = Interrupted, err_span = span_start\<rparr>)"
proof -
  have "failure demo_interrupted = Some \<lparr>err_code = Interrupted, err_span = span_start\<rparr>"
    by (simp add: demo_interrupted_def interrupt_def demo_vm_def Let_def)
  from failure_is_terminal [OF this reaches_step [OF reaches_refl, of _ "Call_matched 0"], of 1 Done 0]
  show ?thesis by (elim conjE) simp
qed

text \<open>
  C8: the parser is total: no panic, and its fuel (\<open>8 * tokens + 8\<close>) is always enough. What it
  accepts is well formed: strings within the byte limit, integers in 64 bits, blocks where the
  grammar asks for blocks, and expressions at most one level deeper than the nesting limit. That
  one level is the code's: \<open>x += e\<close> is checked at \<open>e\<close> and then built as \<open>x = x + e\<close>.
\<close>

theorem parser_total_and_wf:
  "case parse source l of
     Inl f \<Rightarrow> f \<noteq> Panic \<and> f \<noteq> Out_of_fuel
   | Inr ss \<Rightarrow> wf_stmts (max_string_bytes l) (Suc (max_nesting l)) ss"
  using crash_free_parse [of source l] parse_wf [of source l]
  by (auto simp: crash_free_def split: sum.splits)

text \<open>
  Literals round trip. The decimal text of every integer up to the signed 64-bit maximum lexes
  to that integer, and every string within the byte limit, written with the escapes of the
  language, lexes to itself.
\<close>

theorem literals_round_trip:
  assumes "int n \<le> I64_MAX" and "str_len s \<le> ms"
  shows "(\<exists>t e. lex_tokens (lexer_new (digits_of n) ms) = Inr [t, e] \<and> kind t = TInt (int n) \<and> kind e = Eof) \<and>
    (\<exists>t e. lex_tokens (lexer_new (quote s) ms) = Inr [t, e] \<and> kind t = TStr s \<and> kind e = Eof)"
  using lex_digits_of [OF assms(1)] lex_quote [OF assms(2)] by blast

theorem literals_round_trip_witness:
  "(\<exists>t e. lex_tokens (lexer_new (digits_of 42) 8) = Inr [t, e] \<and> kind t = TInt (int 42) \<and> kind e = Eof) \<and>
    (\<exists>t e. lex_tokens (lexer_new (quote (lit ''a\"b'')) 8) = Inr [t, e] \<and> kind t = TStr (lit ''a\"b'') \<and> kind e = Eof)"
  by (rule literals_round_trip) (simp_all add: I64_MAX_def lit_def len_utf8_def)

text \<open>
  Token spans are in source order, do not overlap, cover at least one byte each and end within
  the source.
\<close>

theorem token_spans_ordered:
  "case lex_tokens (lexer_new source ms) of
     Inl _ \<Rightarrow> True
   | Inr ts \<Rightarrow> spans_within 0 ts (str_len source)"
  using lex_tokens_spans [of "lexer_new source ms"] by (simp add: lexer_new_def split: sum.splits)

text \<open>
  The explicit work list with which the parser bounds an expression computes its structural
  depth: it accepts exactly the expressions whose tree is no deeper than the limit.
\<close>

theorem depth_check_exact: "check_expression_depth m e = Inr () \<longleftrightarrow> expr_depth e \<le> m"
  by (rule check_expression_depth_iff)

section \<open>The control lease\<close>

definition demo_actor :: "string \<Rightarrow> actor" where
  "demo_actor s = \<lparr>actor_id = lit s, actor_label = lit s, actor_kind = Human\<rparr>"

definition demo_control :: control_state where
  "demo_control = control_new 7 1 control_limits_default"

definition demo_calls :: "control_call list" where
  "demo_calls =
     [Call_acquire 100 (demo_actor ''a'') Queue 5000 0 0,
      Call_acquire 101 (demo_actor ''b'') Takeover 5000 0 10]"

lemma demo_control_inv: "control_inv demo_control"
  unfolding demo_control_def by (rule control_inv_new)

text \<open>
  C9: fencing tokens order the grants: along every sequence of calls on a slot's control state the
  fences of the leases granted are strictly increasing.
\<close>

theorem fences_strictly_increase:
  assumes "control_inv s" and "cs_next_fence s + length calls \<le> U64_MAX"
  shows "sorted_wrt (<) (map ls_fence (grants imax calls s))"
  using grants_fences [OF assms] by blast

theorem fences_strictly_increase_witness:
  "sorted_wrt (<) (map ls_fence (grants (10 ^ 20) demo_calls demo_control))"
  by (rule fences_strictly_increase [OF demo_control_inv])
    (simp add: demo_control_def control_new_def demo_calls_def U64_MAX_def)

text \<open>
  C10: a credential that validates after any sequence of calls carries the newest fence: no lease
  granted in that sequence has a larger one. A holder that lost control cannot write with an
  earlier lease.
\<close>

theorem validated_lease_is_newest:
  assumes "control_inv s" and "cs_next_fence s + length calls < U64_MAX"
    and "validate who cid fence now (fold (control_step imax) calls s) = Inr l"
    and "l' \<in> set (grants imax calls s)"
  shows "ls_fence l' \<le> fence"
  by (rule validated_is_latest [OF assms])

definition demo_newest :: control_lease where
  "demo_newest = hd (grants (10 ^ 20) (drop 1 demo_calls) (control_step (10 ^ 20) (hd demo_calls) demo_control))"

theorem validated_lease_is_newest_witness:
  "ls_fence (hd (grants (10 ^ 20) demo_calls demo_control)) \<le> 2"
proof (rule validated_lease_is_newest [OF demo_control_inv, where calls = demo_calls and imax = "10 ^ 20"
      and who = "lit ''b''" and cid = 101 and now = 20])
  show "cs_next_fence demo_control + length demo_calls < U64_MAX"
    by (simp add: demo_control_def control_new_def demo_calls_def U64_MAX_def)
  show "validate (lit ''b'') 101 2 20 (fold (control_step (10 ^ 20)) demo_calls demo_control) = Inr demo_newest"
    by code_simp
  show "hd (grants (10 ^ 20) demo_calls demo_control) \<in> set (grants (10 ^ 20) demo_calls demo_control)"
    by code_simp
qed

text \<open>
  Validation accepts exactly the current lease: same identifier, fence, daemon epoch,
  generation and owner, before its deadline. Acceptance excludes expiry in the same instant.
\<close>

theorem validation_exact:
  "validate who cid fence now s = Inr l \<longleftrightarrow>
     (\<exists>cur. cs_current s = Some cur \<and> l = al_lease cur \<and> ls_id l = cid \<and> ls_fence l = fence \<and>
        ls_epoch l = cs_epoch s \<and> ls_generation l = cs_generation s \<and> actor_id (ls_owner l) = who \<and>
        now < al_deadline cur)"
  by (rule validate_Inr_iff)

text \<open>
  C11: along every sequence of calls the current lease is the latest grant, of this daemon and of
  this generation, and it lives no longer than the configured ceiling: unless it is still the
  lease of the start, one of the calls set its expiry, at most \<open>max_ttl_ms\<close> after that call's
  instant and wall time.
\<close>

theorem control_invariant_kept:
  assumes "control_inv s"
  shows "control_inv (fold (control_step imax) calls s) \<and>
    (\<forall>cur. cs_current (fold (control_step imax) calls s) = Some cur \<longrightarrow>
       cs_current s = Some cur \<or>
       (\<exists>call \<in> set calls. \<exists>wall now. call_clock call = Some (wall, now) \<and>
          al_deadline cur \<le> now + max_ttl_ms (cs_limits s) * 1000000 \<and>
          (I64_MIN \<le> wall \<longrightarrow>
             ls_expires_wall_time_ns (al_lease cur) \<le> wall + int (max_ttl_ms (cs_limits s)) * 1000000)))"
  using control.run_inv [OF assms] lease_life [OF assms] by (fastforce simp: within_ttl_def)

definition demo_lease_held :: active_lease where
  "demo_lease_held = the (cs_current (fold (control_step (10 ^ 20)) demo_calls demo_control))"

theorem control_invariant_kept_witness:
  "control_inv (fold (control_step (10 ^ 20)) demo_calls demo_control) \<and>
   al_deadline demo_lease_held \<le> 10 + MAX_TTL_MS * 1000000"
proof -
  have c: "cs_current (fold (control_step (10 ^ 20)) demo_calls demo_control) = Some demo_lease_held" by code_simp
  note both = control_invariant_kept [OF demo_control_inv, where calls = demo_calls and imax = "10 ^ 20"]
  have start: "cs_current demo_control = None" and limits: "max_ttl_ms (cs_limits demo_control) = MAX_TTL_MS"
    by (simp_all add: demo_control_def control_new_def bounded_def control_limits_default_def ttl_defs)
  from both [THEN conjunct2, rule_format, OF c] start limits
  have "al_deadline demo_lease_held \<le> 10 + MAX_TTL_MS * 1000000" by (auto simp: demo_calls_def)
  with both show ?thesis by blast
qed

text \<open>
  C12: the control state refines an abstract lock with a fence counter: each call leaves the lock,
  frees it, or gives it to a holder with the next fence.
\<close>

theorem control_refines_lock:
  assumes "cs_next_fence s < U64_MAX"
  shows "lock_step (lock_of s) (lock_of (control_step imax call s))"
  by (rule lock_refinement [OF assms])

theorem control_refines_lock_witness:
  "lock_step (lock_of demo_control) (lock_of (control_step (10 ^ 20) (hd demo_calls) demo_control))"
  by (rule control_refines_lock) (simp add: demo_control_def control_new_def U64_MAX_def)

text \<open>
  A transfer is atomic: it fails and changes nothing exactly as validation of the holder fails,
  or it revokes the lease it was given and the new owner holds the next fence.
\<close>

theorem transfer_is_atomic:
  "case transfer_exact imax u owner cid fence who ttl wall now s of
     (Inl e, s') \<Rightarrow> validate owner cid fence now s = Inl e \<and> s' = s
   | (Inr (revoked, granted), s') \<Rightarrow> current s = Some revoked \<and> ls_id revoked = cid \<and> ls_fence revoked = fence \<and>
        actor_id (ls_owner revoked) = owner \<and> current s' = Some granted \<and>
        actor_id (ls_owner granted) = actor_id who \<and> ls_fence granted = cs_next_fence s"
  using transfer_exact_atomic by (fastforce split: prod.splits sum.splits)

text \<open>
  The lease a grant issues is valid for exactly its clamped duration: at every later instant
  the time left is what remains of it, and afterwards the lease is expired.
\<close>

theorem grant_lasts_its_ttl:
  assumes "control_inv s" and "grant imax u who ttl wall now s = (l, s')"
    and "now + MAX_CONTROL_TTL_MS * 1000000 \<le> imax" and "now \<le> now'"
  shows "remaining_ttl (actor_id who) u (cs_next_fence s) now' s' =
    (if now' < now + clamp_ttl ttl s * 1000000 then Inr (now + clamp_ttl ttl s * 1000000 - now') else Inl Expired)"
  by (rule grant_remaining [OF assms])

theorem grant_lasts_its_ttl_witness:
  "remaining_ttl (lit ''a'') 100 1 4000000000 (snd (grant (10 ^ 20) 100 (demo_actor ''a'') 1 0 0 demo_control))
   = Inr 1000000000"
proof -
  let ?g = "grant (10 ^ 20) 100 (demo_actor ''a'') 1 0 0 demo_control"
  have "remaining_ttl (actor_id (demo_actor ''a'')) 100 (cs_next_fence demo_control) 4000000000 (snd ?g) =
      (if (4000000000 :: nat) < 0 + clamp_ttl 1 demo_control * 1000000
       then Inr (0 + clamp_ttl 1 demo_control * 1000000 - 4000000000) else Inl Expired)"
    by (rule grant_lasts_its_ttl [OF demo_control_inv prod.collapse [symmetric]])
      (simp_all add: MAX_CONTROL_TTL_MS_def)
  moreover have "clamp_ttl 1 demo_control = 5000" "cs_next_fence demo_control = 1" by code_simp+
  ultimately show ?thesis by (simp add: demo_actor_def)
qed

section \<open>The ring of recent events\<close>

definition demo_event :: "nat \<Rightarrow> unit timeline_event" where
  "demo_event n =
     \<lparr>ev_port = [], ev_epoch = 7, ev_seq = n, ev_generation = 1, ev_wall_time_ns = 0,
      ev_monotonic_time_ns = 0, ev_kind = KRx, ev_direction = DRx, ev_actor = None, ev_run_id = None,
      ev_operation_id = None, ev_offset_start = None, ev_offset_end = None, ev_data = [],
      ev_metadata = [], ev_durable = False\<rparr>"

definition demo_sizes :: "unit size_api" where
  "demo_sizes = \<lparr>vec_capacity = length, str_capacity = length, json_len = \<lambda>_. Some 2\<rparr>"

definition demo_ring :: "unit ring" where
  "demo_ring = fold (ring_push demo_sizes) (map demo_event [1, 2, 3]) (ring_new 2 1000)"

text \<open>
  C13: a push keeps the ring within its limits on events and bytes, with the byte count exact, and
  evicts no more than it has to: every recent window of the log that fits the limits is still there.
\<close>

theorem ring_keeps_largest_window:
  assumes "ring_inv api r" and "rg_bytes r + event_size api e \<le> U64_MAX"
    and "suffix zs (rg_events r @ [e])" and "length zs \<le> rg_max_events r"
    and "sum_list (map (event_size api) zs) \<le> rg_max_bytes r"
  shows "ring_inv api (ring_push api e r) \<and> suffix zs (rg_events (ring_push api e r))"
  using ring_push_inv [OF assms(1,2)] ring_push_maximal [OF assms] by blast

theorem ring_keeps_largest_window_witness:
  "ring_inv demo_sizes (ring_push demo_sizes (demo_event 1) (ring_new 2 1000)) \<and>
   suffix [demo_event 1] (rg_events (ring_push demo_sizes (demo_event 1) (ring_new 2 1000)))"
  by (rule ring_keeps_largest_window)
    (simp_all add: ring_inv_new, simp_all add: ring_new_def event_size_def demo_event_def demo_sizes_def Let_def
      saturating_add_u64_def saturating_mul_u64_def EVENT_OVERHEAD_ESTIMATE_def U64_MAX_def)

text \<open>
  C14: however many events are pushed, the ring holds a most recent part of the log, in order and
  without holes, if the log has none.
\<close>

theorem ring_is_recent_log:
  "suffix (rg_events (fold (ring_push api) es r)) (rg_events r @ es)"
  by (rule ring.log_suffix)

text \<open>
  C15: a replay that reports no gap is complete: it delivers every sequence number after the cursor
  up to the head, once and in order.
\<close>

theorem replay_without_gap_is_complete:
  assumes "contiguous (rg_events r)" and "head_seq r = Some newest" and "head \<le> newest"
    and "cu_after_seq cu < U64_MAX" and "replay epoch (Some cu) head t r = Inr w" and "rw_gap w = None"
  shows "map ev_seq (rw_events w) = [Suc (cu_after_seq cu) ..< Suc head]"
  by (rule replay_complete [OF assms(1) _ assms(4-6)]) (use assms(2,3) in simp)

theorem replay_without_gap_is_complete_witness:
  "map ev_seq (rw_events \<lparr>rw_events = [demo_event 3], rw_gap = None\<rparr>) = [Suc 2 ..< Suc 3]"
proof -
  have r: "rg_events demo_ring = [demo_event 2, demo_event 3]" by code_simp
  have "map ev_seq (rw_events \<lparr>rw_events = [demo_event 3], rw_gap = None\<rparr>) =
      [Suc (cu_after_seq \<lparr>cu_epoch = 7, cu_after_seq = 2\<rparr>) ..< Suc 3]"
  proof (rule replay_without_gap_is_complete [where r = demo_ring and epoch = 7 and t = 5 and newest = 3])
    show "contiguous (rg_events demo_ring)"
      by (auto simp: contiguous_def r demo_event_def upt_rec intro!: exI [of _ 2])
    show "head_seq demo_ring = Some 3" by (simp add: head_seq_def r demo_event_def)
    show "replay 7 (Some \<lparr>cu_epoch = 7, cu_after_seq = 2\<rparr>) 3 5 demo_ring =
        Inr \<lparr>rw_events = [demo_event 3], rw_gap = None\<rparr>"
      by (simp add: replay_def oldest_seq_def r demo_event_def saturating_add_u64_def U64_MAX_def)
  qed (simp_all add: U64_MAX_def)
  then show ?thesis by simp
qed

text \<open>
  A replay is refused exactly when a cursor of this daemon is ahead of the head.
\<close>

theorem replay_refused_iff_ahead:
  "(\<exists>e. replay epoch (Some cu) head t r = Inl e) \<longleftrightarrow> cu_epoch cu = epoch \<and> head < cu_after_seq cu"
  by (rule replay_ahead)

section \<open>The stores\<close>

definition demo_path :: path where "demo_path = (lit ''dir'', lit ''store.json'')"

text \<open>
  C16: an atomic write is all or nothing: whatever call of the operating system fails, a reader of
  the target finds the old contents or the new ones, every other file that existed is untouched,
  and success means the new contents.
\<close>

theorem atomic_write_all_or_nothing:
  assumes "atomic_write d target contents fs = Some (r, fs')" and "p \<noteq> target" and "bt_get fs p = Some n"
  shows "(bt_get fs' target = bt_get fs target \<or> bt_get fs' target = Some (Regular contents)) \<and>
    bt_get fs' p = Some n \<and>
    (case r of Inr _ \<Rightarrow> bt_get fs' target = Some (Regular contents) | Inl _ \<Rightarrow> True)"
  using atomic_write_target [OF assms(1)] atomic_write_frame [OF assms] atomic_write_ok [of d target contents fs _ fs' target] assms(1)
  by (auto split: sum.splits)

definition demo_files :: files where
  "demo_files = bt_insert (lit ''dir'', lit ''other'') (Regular [9]) bt_empty"

theorem atomic_write_all_or_nothing_witness:
  "bt_get (snd (the (atomic_write (os_ok [lit ''u'']) demo_path [1, 2] demo_files))) (lit ''dir'', lit ''other'')
   = Some (Regular [9])"
proof -
  let ?w = "atomic_write (os_ok [lit ''u'']) demo_path [1, 2] demo_files"
  have w: "?w = Some (fst (the ?w), snd (the ?w))" by code_simp
  have "(lit ''dir'', lit ''other'') \<noteq> demo_path" by (simp add: demo_path_def)
  moreover have "bt_get demo_files (lit ''dir'', lit ''other'') = Some (Regular [9])"
    by (simp add: demo_files_def bt_get_def bt_empty_def)
  ultimately show ?thesis using atomic_write_all_or_nothing [OF w] by blast
qed

text \<open>
  An error does not mean that nothing was written: when only the last flush of the directory fails,
  the target already has the new contents, and the store above keeps its old state in memory.
\<close>

lemma failed_write_may_commit:
  "\<exists>d e fs'. atomic_write d demo_path [1, 2] demo_files = Some (Inl e, fs') \<and>
     bt_get fs' demo_path = Some (Regular [1, 2])"
proof -
  define e where "e = io_fail IoOther []"
  define d where "d = (os_ok [lit ''u''])\<lparr>os_fault := \<lambda>c. if c = FsSyncDir (lit ''dir'') then Some e else None\<rparr>"
  have "map_option (\<lambda>(r, fs). (r, bt_get fs demo_path)) (atomic_write d demo_path [1, 2] demo_files) =
      Some (Inl e, Some (Regular [1, 2]))"
    unfolding d_def e_def by code_simp
  then show ?thesis by auto
qed

text \<open>
  C17: the human history keeps its invariant under every event the journal worker records: distinct
  valid commands in order of their revisions, at most ten thousand, and a bounded window of
  distinct operation identifiers.
\<close>

theorem history_invariant_kept:
  assumes "history_inv (hs_data (fst sf))"
  shows "history_inv (hs_data (fst (fold (history_commit json show_io j path) cs sf)))"
  by (rule history.run_inv [OF assms])

definition demo_history :: history_state where
  "demo_history = \<lparr>hs_data = persisted_default, hs_warning = None\<rparr>"

definition text_json :: "rstring json_api" where
  "text_json = \<lparr>as_bool = \<lambda>_. None, as_str = Some, as_i64 = \<lambda>_. None\<rparr>"

definition line_event :: "rstring timeline_event" where
  "line_event =
     \<lparr>ev_port = lit ''p'', ev_epoch = 7, ev_seq = 1, ev_generation = 1, ev_wall_time_ns = 0,
      ev_monotonic_time_ns = 0, ev_kind = KTx, ev_direction = DTx, ev_actor = Some (demo_actor ''a''),
      ev_run_id = None, ev_operation_id = Some 55, ev_offset_start = None, ev_offset_end = None,
      ev_data = [], ev_metadata = [(lit ''human_line_input'', lit ''ls'')], ev_durable = True\<rparr>"

definition demo_persisted :: persisted where
  "demo_persisted = history_next (lit ''ls'') 55 line_event 1 persisted_default"

definition demo_saved :: history_state where
  "demo_saved = \<lparr>hs_data = demo_persisted, hs_warning = None\<rparr>"

definition demo_history_files :: files where
  "demo_history_files = bt_insert demo_path (Regular [1]) bt_empty"

lemma demo_history_inv: "history_inv (hs_data demo_history)"
  by (simp add: demo_history_def persisted_default_def history_inv_def)

lemma demo_record:
  "history_record (os_ok [lit ''u'']) (one_codec demo_persisted) io_text text_json demo_path line_event demo_history bt_empty
   = Some (Inr (), demo_saved, demo_history_files)"
  by code_simp

theorem history_invariant_kept_witness:
  "history_inv (hs_data (fst (fold (history_commit (one_codec demo_persisted) io_text text_json demo_path)
     [\<lparr>rc_os = os_ok [lit ''u''], rc_event = line_event\<rparr>] (demo_history, bt_empty))))"
  by (rule history_invariant_kept) (simp add: demo_history_inv)

text \<open>
  Recording is idempotent: the journal may deliver an event again, and nothing changes.
\<close>

theorem history_record_twice:
  assumes "history_record d json show_io j path ev s fs = Some (Inr (), s', fs')"
  shows "history_record d' json show_io j path ev s' fs' = Some (Inr (), s', fs')"
  by (rule history_record_idempotent [OF assms])

theorem history_record_twice_witness:
  "history_record (os_ok []) (one_codec demo_persisted) io_text text_json demo_path line_event demo_saved demo_history_files
   = Some (Inr (), demo_saved, demo_history_files)"
  by (rule history_record_twice [OF demo_record])

text \<open>
  C18: what was recorded survives a restart, within the bound of \<open>open\<close>: the file holds the
  encoding of the recorded state, and the daemon that opens it finds exactly that state if the
  encoding is at most 48 MiB. \<open>record\<close> itself does not check that bound: a longer file is written
  all the same, and the next start refuses it as invalid.
\<close>

theorem history_survives_restart:
  assumes "history_record d json show_io j path ev s fs = Some (Inr (), s', fs')"
    and "hs_data s' \<noteq> hs_data s" and "history_inv (hs_data s)" and "codec_ok json"
  shows "\<exists>bs. encode_json json (hs_data s') = Inr bs \<and> bt_get fs' path = Some (Regular bs) \<and>
    history_open (os_ok us) json path fs' =
      (if length bs \<le> 48 * 1024 * 1024 then Inr s'
       else Inl (io_fail IoInvalidData (lit ''invalid history file'')))"
  by (rule history_reopen [OF assms])

theorem history_survives_restart_witness:
  "history_open (os_ok []) (one_codec demo_persisted) demo_path demo_history_files = Inr demo_saved"
proof -
  have new: "hs_data demo_saved \<noteq> hs_data demo_history" by code_simp
  obtain bs where bs: "encode_json (one_codec demo_persisted) (hs_data demo_saved) = Inr bs"
    "history_open (os_ok []) (one_codec demo_persisted) demo_path demo_history_files =
      (if length bs \<le> 48 * 1024 * 1024 then Inr demo_saved
       else Inl (io_fail IoInvalidData (lit ''invalid history file'')))"
    using history_survives_restart [OF demo_record new demo_history_inv one_codec_ok] by blast
  have "length bs \<le> 48 * 1024 * 1024" using bs(1) by (auto simp: one_codec_def split: if_splits)
  then show ?thesis using bs(2) by simp
qed

text \<open>
  Following \<open>next_before_revision\<close> reads every matching command exactly once, newest first.
\<close>

theorem history_pages_complete:
  assumes "history_inv (hs_data s)" and "length (matching q (hs_data s)) < n"
  shows "read_pages n server_id q s = Some (matching q (hs_data s))"
  by (rule read_pages_complete [OF assms])

theorem history_pages_complete_witness:
  "read_pages 2 1 \<lparr>hq_prefix = Some (lit ''l''), hq_contains = None, hq_before_revision = None, hq_limit = Some 1\<rparr> demo_saved
   = Some (matching \<lparr>hq_prefix = Some (lit ''l''), hq_contains = None, hq_before_revision = None, hq_limit = Some 1\<rparr>
       (hs_data demo_saved))"
  by (rule history_pages_complete [OF history_record_inv [OF demo_record demo_history_inv]]) code_simp

text \<open>
  An unchanged revision certifies unchanged suggestions: no sequence of records can alter the
  history and leave its revision as it was.
\<close>

theorem history_revision_certifies:
  assumes "history_inv (hs_data s)"
    and "pe_revision (hs_data (fst (fold (history_commit json show_io j path) cs (s, fs)))) = pe_revision (hs_data s)"
  shows "hs_data (fst (fold (history_commit json show_io j path) cs (s, fs))) = hs_data s"
  using history.same_revision_same_data [of "(s, fs)"] assms by simp

theorem history_revision_certifies_witness:
  "hs_data (fst (fold (history_commit (one_codec demo_persisted) io_text text_json demo_path)
     [\<lparr>rc_os = os_ok [], rc_event = line_event\<rparr>] (demo_saved, demo_history_files))) = hs_data demo_saved"
proof (rule history_revision_certifies [OF history_record_inv [OF demo_record demo_history_inv]])
  show "pe_revision (hs_data (fst (fold (history_commit (one_codec demo_persisted) io_text text_json demo_path)
     [\<lparr>rc_os = os_ok [], rc_event = line_event\<rparr>] (demo_saved, demo_history_files)))) = pe_revision (hs_data demo_saved)"
    by code_simp
qed

section \<open>The index of Agent Runs\<close>

definition demo_run :: "unit run_info" where
  "demo_run =
     \<lparr>run_uuid = 5, run_owner = \<lparr>actor_id = lit ''bot'', actor_label = lit ''bot'', actor_kind = Agent\<rparr>,
      run_label = lit ''r'', run_status = Completed, run_start_seq = 1, run_end_seq = Some 2,
      run_metadata = []\<rparr>"

definition run_event :: "unit timeline_event" where
  "run_event = (demo_event 2)\<lparr>ev_port := lit ''p'', ev_kind := KRunEnded, ev_metadata := [(lit ''run'', ())]\<rparr>"

definition demo_visibility :: agent_history_visibility where
  "demo_visibility = \<lparr>av_revision = 1, av_hidden = [5]\<rparr>"

definition demo_formats :: "unit run_formats" where
  "demo_formats =
     \<lparr>rf_uuid_text = digits_of,
      rf_uuid_parse = \<lambda>s. if s \<noteq> [] \<and> list_all is_ascii_digit s then Some (digits_value s) else None,
      rf_run_of = \<lambda>_. Some demo_run,
      rf_record = one_codec (updated_record run_event demo_run None),
      rf_visibility = one_codec demo_visibility\<rparr>"

definition demo_runs :: run_history where "demo_runs = run_history_new (lit ''root'')"

definition demo_run_files :: files where
  "demo_run_files = snd (the (run_record (os_ok [lit ''u'']) demo_formats demo_runs run_event bt_empty))"

definition demo_hidden_files :: files where
  "demo_hidden_files =
     snd (the (run_hide (os_ok [lit ''v'']) demo_formats demo_runs (lit ''p'') (Some [5]) 7 (Some 6) demo_run_files))"

lemma demo_run_record:
  "run_record (os_ok [lit ''u'']) demo_formats demo_runs run_event bt_empty = Some (Inr (), demo_run_files)"
  by code_simp

lemma demo_run_hide:
  "run_hide (os_ok [lit ''v'']) demo_formats demo_runs (lit ''p'') (Some [5]) 7 (Some 6) demo_run_files
   = Some (Inr demo_visibility, demo_hidden_files)"
  by code_simp

lemma honest_ok: "honest (os_ok us)"
  by (simp add: honest_def os_ok_def)

lemma demo_formats_ok: "codec_ok (rf_visibility demo_formats)" "codec_ok (rf_record demo_formats)"
  by (simp_all add: demo_formats_def one_codec_ok)

text \<open>
  C19: hiding succeeds only as a whole. When it succeeds, the selection is every identifier the
  client named or, when it named none, every listed Run that is over and does not hold control
  (and then the index was complete); the visibility stored afterwards is the old one plus the
  whole selection, sorted and without duplicates, at the next revision; and every selected Run
  was listed and over, so that one unknown or active Run in the request fails the call.
\<close>

theorem hide_commits_whole_selection:
  assumes "run_hide d f h port ids c active fs = Some (Inr v, fs')" and "honest d" and "codec_ok (rf_visibility f)"
  shows "\<exists>rs sel old. run_list d f h port c fs = Inr rs \<and>
    (case ids of
       Some named \<Rightarrow> set sel = set named
     | None \<Rightarrow> \<not> rh_indexing h \<and> rh_warning h = None \<and>
         set sel = {run_uuid (ar_run r) | r. r \<in> set rs \<and> run_status (ar_run r) \<noteq> Active \<and>
           Some (run_uuid (ar_run r)) \<noteq> active}) \<and>
    stored_visibility (rf_visibility f) (visibility_path h port) fs = Some old \<and>
    stored_visibility (rf_visibility f) (visibility_path h port) fs' = Some v \<and>
    av_revision v = Suc (av_revision old) \<and> set (av_hidden v) = set (av_hidden old) \<union> set sel \<and>
    sorted (av_hidden v) \<and> distinct (av_hidden v) \<and>
    (\<forall>i \<in> set sel. Some i \<noteq> active \<and> (\<exists>r. r \<in> set rs \<and> run_uuid (ar_run r) = i \<and> run_status (ar_run r) \<noteq> Active))"
proof -
  obtain sel old where sel: "hide_selection d f h port ids c active fs = Inr sel"
    and ok: "stored_visibility (rf_visibility f) (visibility_path h port) fs = Some old"
      "stored_visibility (rf_visibility f) (visibility_path h port) fs' = Some v"
      "av_revision v = Suc (av_revision old)" "set (av_hidden v) = set (av_hidden old) \<union> set sel"
      "sorted (av_hidden v)" "distinct (av_hidden v)"
    using run_hide_ok [OF assms] by blast
  obtain rs where "run_list d f h port c fs = Inr rs"
    and "case ids of Some named \<Rightarrow> set sel = set named
      | None \<Rightarrow> \<not> rh_indexing h \<and> rh_warning h = None \<and>
         set sel = {run_uuid (ar_run r) | r. r \<in> set rs \<and> run_status (ar_run r) \<noteq> Active \<and>
           Some (run_uuid (ar_run r)) \<noteq> active}"
    using hide_selection_requested [OF sel] by blast
  moreover have "\<forall>i \<in> set sel. Some i \<noteq> active \<and>
      (\<exists>r. r \<in> set rs \<and> run_uuid (ar_run r) = i \<and> run_status (ar_run r) \<noteq> Active)"
    using hide_selection_over [OF sel] calculation(1) by fastforce
  ultimately show ?thesis using ok by blast
qed

theorem hide_commits_whole_selection_witness:
  "5 \<in> set (av_hidden demo_visibility)"
  using hide_commits_whole_selection [OF demo_run_hide honest_ok demo_formats_ok(1)] by auto

text \<open>
  Hiding is a mark: no other file is touched, and a call that fails leaves the visibility as it
  was, unless only the final flush of the directory failed.
\<close>

theorem hide_touches_only_visibility:
  assumes "run_hide d f h port ids c active fs = Some (r, fs')" and "p \<noteq> visibility_path h port"
    and "bt_get fs p = Some n" and "os_fault d (FsSyncDir (port_dir h port)) = None"
  shows "bt_get fs' p = Some n \<and>
    (case r of Inr _ \<Rightarrow> True
     | Inl _ \<Rightarrow> bt_get fs' (visibility_path h port) = bt_get fs (visibility_path h port))"
  using run_hide_frame [OF assms(1-3)] run_hide_err [of d f h port ids c active fs _ fs'] assms(1,4)
  by (auto split: sum.splits)

theorem hide_touches_only_visibility_witness:
  "bt_get demo_hidden_files (record_path demo_formats demo_runs (lit ''p'') 5) =
   Some (the (bt_get demo_run_files (record_path demo_formats demo_runs (lit ''p'') 5)))"
proof -
  have "record_path demo_formats demo_runs (lit ''p'') 5 \<noteq> visibility_path demo_runs (lit ''p'')" by code_simp
  moreover have "bt_get demo_run_files (record_path demo_formats demo_runs (lit ''p'') 5) =
      Some (the (bt_get demo_run_files (record_path demo_formats demo_runs (lit ''p'') 5)))" by code_simp
  moreover have "os_fault (os_ok [lit ''v'']) (FsSyncDir (port_dir demo_runs (lit ''p''))) = None"
    by (simp add: os_ok_def)
  ultimately show ?thesis using hide_touches_only_visibility [OF demo_run_hide] by blast
qed

text \<open>
  C20: the Run that holds physical control is never hidden, whatever selection is asked for.
\<close>

theorem active_run_never_hidden:
  assumes "run_hide d f h port ids c (Some i) fs = Some (Inr v, fs')" and "honest d"
    and "codec_ok (rf_visibility f)"
    and "stored_visibility (rf_visibility f) (visibility_path h port) fs = Some old" and "i \<notin> set (av_hidden old)"
  shows "i \<notin> set (av_hidden v)"
  by (rule run_hide_active [OF assms])

theorem active_run_never_hidden_witness: "6 \<notin> set (av_hidden demo_visibility)"
proof (rule active_run_never_hidden [OF demo_run_hide honest_ok demo_formats_ok(1), where old = visibility_default])
  show "stored_visibility (rf_visibility demo_formats) (visibility_path demo_runs (lit ''p'')) demo_run_files
    = Some visibility_default"
    by code_simp
qed (simp add: visibility_default_def)

text \<open>
  C21: an accepted lifecycle event leaves a record of its Run that is at least as recent; the first
  start time and the hidden flag survive, and within one daemon the record never goes back.
\<close>

theorem lifecycle_record_progresses:
  assumes "run_record d f h ev fs = Some (Inr (), fs')" and "lifecycle_run f ev = Some run"
    and "honest d" and "codec_ok (rf_record f)"
  shows "\<exists>new. stored_record f (record_path f h (ev_port ev) (run_uuid run)) fs' = Some new \<and>
    ar_epoch new = ev_epoch ev \<and> ev_seq ev \<le> ar_through_seq new \<and>
    (\<forall>old. stored_record f (record_path f h (ev_port ev) (run_uuid run)) fs = Some old \<longrightarrow>
      ar_started_wall_time_ns new = ar_started_wall_time_ns old \<and> ar_hidden new = ar_hidden old \<and>
      (ar_epoch old = ar_epoch new \<longrightarrow> ar_through_seq old \<le> ar_through_seq new))"
  by (rule run_record_ok [OF assms])

theorem lifecycle_record_progresses_witness:
  "\<exists>new. stored_record demo_formats (record_path demo_formats demo_runs (ev_port run_event) (run_uuid demo_run)) demo_run_files
     = Some new \<and> ar_epoch new = ev_epoch run_event"
proof -
  have "lifecycle_run demo_formats run_event = Some demo_run" by code_simp
  from lifecycle_record_progresses [OF demo_run_record this honest_ok demo_formats_ok(2)] show ?thesis by blast
qed

text \<open>
  C22: a listing is sorted by start time and identifier, holds only Runs of its port, shows no Run
  of an earlier daemon as active, and contains every stored record.
\<close>

theorem listing_complete_and_settled:
  assumes "run_list d f h port c fs = Inr rs" and "honest d" and "os_fault d (FsReadDir (port_dir h port)) = None"
    and "stored_record f (record_path f h port i) fs = Some r"
    and "rf_uuid_parse f (rf_uuid_text f i) = Some i" and "rf_uuid_text f i \<noteq> []"
  shows "settled c r \<in> set rs \<and> sorted (map record_key rs) \<and> list_all (listed_ok port c) rs"
  using run_list_finds [OF assms] run_list_ok [OF assms(1)] by (simp add: list_all_iff)

theorem listing_complete_and_settled_witness:
  "settled 8 (updated_record run_event demo_run None) \<in>
     set (case run_list (os_ok []) demo_formats demo_runs (lit ''p'') 8 demo_run_files of Inr rs \<Rightarrow> rs | Inl _ \<Rightarrow> [])"
proof -
  let ?l = "run_list (os_ok []) demo_formats demo_runs (lit ''p'') 8 demo_run_files"
  have l: "?l = Inr (case ?l of Inr rs \<Rightarrow> rs | Inl _ \<Rightarrow> [])" by code_simp
  have s: "stored_record demo_formats (record_path demo_formats demo_runs (lit ''p'') 5) demo_run_files
      = Some (updated_record run_event demo_run None)" by code_simp
  have "rf_uuid_parse demo_formats (rf_uuid_text demo_formats 5) = Some 5" by code_simp
  with listing_complete_and_settled [OF l honest_ok _ s] show ?thesis
    by (simp add: os_ok_def demo_formats_def)
qed

section \<open>The catalog of macros\<close>

definition demo_request :: "unit macro_save_request" where
  "demo_request =
     \<lparr>mr_id = lit ''m'', mr_name = lit ''M'', mr_description = lit ''d'', mr_parameters = [],
      mr_script = demo_source, mr_expected_revision = None, mr_shared = None, mr_applies_to = None\<rparr>"

definition demo_macro :: "unit macro_definition" where
  "demo_macro = requested_definition demo_request (Some 0) 1 catalog_default"

definition demo_catalog :: "unit catalog" where
  "demo_catalog = \<lparr>ct_revision = 1, ct_macros = [(lit ''m'', demo_macro)]\<rparr>"

definition demo_catalog_files :: files where
  "demo_catalog_files = bt_insert demo_path (Regular [1]) bt_empty"

lemma demo_save:
  "macro_save (os_ok [lit ''u'']) demo_json (one_codec demo_catalog) demo_path demo_request (Some 0) bt_empty (Some catalog_default)
   = Some (Inr \<lparr>mv_catalog_revision = 1, mv_definition = demo_macro\<rparr>, Some demo_catalog, demo_catalog_files)"
  by code_simp

lemma demo_catalog_codec: "catalog_codec_ok (one_codec demo_catalog)"
  by (simp add: catalog_codec_ok_def one_codec_ok)
    (simp add: one_codec_def demo_catalog_def demo_macro_def requested_definition_def demo_request_def)

text \<open>
  C23: a save that succeeds changes exactly the macro it names, from the revision the client expects
  (or from absence) to the next one, stores a definition that validates and compiles, and moves the
  catalog to its next revision.
\<close>

theorem save_is_optimistic:
  assumes "macro_save d j json p r now fs (Some c) = Some (Inr resp, state', fs')"
  shows "\<exists>c' m. state' = Some c' \<and> ct_revision c' = Suc (ct_revision c) \<and>
    mv_catalog_revision resp = ct_revision c' \<and> mv_definition resp = m \<and>
    ct_macros c' = bt_insert (mr_id r) m (ct_macros c) \<and>
    validate_definition j m = Inr () \<and> md_id m = mr_id r \<and> md_script m = mr_script r \<and>
    (case bt_get (ct_macros c) (mr_id r) of
       None \<Rightarrow> mr_expected_revision r = None \<and> md_revision m = 1
     | Some old \<Rightarrow> mr_expected_revision r = Some (md_revision old) \<and> md_revision m = Suc (md_revision old))"
  by (rule macro_save_ok [OF assms])

theorem save_is_optimistic_witness:
  "\<exists>c'. Some demo_catalog = Some c' \<and> ct_revision c' = Suc (ct_revision (catalog_default :: unit catalog))"
  using save_is_optimistic [OF demo_save] by blast

text \<open>
  Two clients that start from the same revision of a macro cannot both succeed: the second is
  told the revision the first one made.
\<close>

theorem concurrent_save_conflicts:
  assumes "macro_save d j json p r now fs (Some c) = Some (Inr resp, state', fs')"
    and "mr_id r' = mr_id r" and "mr_expected_revision r' = mr_expected_revision r"
  shows "macro_save d' j json p r' now' fs' state' =
    Some (Inl (MConflict (mr_id r) (mr_expected_revision r) (md_revision (mv_definition resp))), state', fs')"
  by (rule macro_save_once [OF assms])

theorem concurrent_save_conflicts_witness:
  "macro_save (os_ok []) demo_json (one_codec demo_catalog) demo_path demo_request None demo_catalog_files (Some demo_catalog) =
    Some (Inl (MConflict (mr_id demo_request) (mr_expected_revision demo_request) (md_revision demo_macro)),
      Some demo_catalog, demo_catalog_files)"
  using concurrent_save_conflicts [OF demo_save refl refl] by simp

text \<open>
  What a save reported is what a restarted daemon loads.
\<close>

theorem save_survives_restart:
  assumes "macro_save d j json p r now fs (Some c) = Some (Inr resp, Some c', fs')"
    and "catalog_inv j c" and "catalog_codec_ok json" and "bt_wf (mr_parameters r)"
  shows "catalog_load (os_ok us) j json p fs' = Inr c'"
  by (rule macro_save_reload [OF assms])

theorem save_survives_restart_witness:
  "catalog_load (os_ok []) demo_json (one_codec demo_catalog) demo_path demo_catalog_files = Inr demo_catalog"
  by (rule save_survives_restart [OF demo_save catalog_inv_default demo_catalog_codec])
    (simp add: demo_request_def)

text \<open>
  C24: a stored macro can be run: preparing its current revision with its own description fails
  only on the arguments, never in validation or compilation.
\<close>

theorem stored_macro_can_run:
  assumes "catalog_inv j c" and "bt_get (ct_macros c) name = Some m"
    and "mx_macro_id spec = Some name" and "mx_revision spec = Some (md_revision m)" and "mx_script spec = None"
    and "mx_description spec = None" and "1 \<le> mx_timeout_seconds spec" and "mx_timeout_seconds spec \<le> 120"
    and "arguments j (md_parameters m) (mx_args spec) = Inr args"
  shows "\<exists>pm. macro_prepare d j json p spec fs (Some c) = (Inr pm, Some c) \<and>
    pm_definition pm = Some m \<and> pm_arguments pm = args \<and> typed_program (pm_program pm)"
  by (rule stored_macro_prepares [OF assms])

theorem stored_macro_can_run_witness:
  "\<exists>pm. macro_prepare (os_ok []) demo_json (one_codec demo_catalog) demo_path
      \<lparr>mx_macro_id = Some (lit ''m''), mx_revision = Some 1, mx_script = None, mx_description = None,
       mx_args = [], mx_timeout_seconds = 30\<rparr> bt_empty (Some demo_catalog) = (Inr pm, Some demo_catalog) \<and>
    pm_definition pm = Some demo_macro \<and> pm_arguments pm = [] \<and> typed_program (pm_program pm)"
proof (rule stored_macro_can_run)
  show "catalog_inv demo_json demo_catalog"
    using macro_save_inv [OF demo_save _ demo_catalog_codec] catalog_inv_default
    by (auto simp: state_inv_def demo_request_def)
  show "arguments demo_json (md_parameters demo_macro) (mx_args \<lparr>mx_macro_id = Some (lit ''m''), mx_revision = Some 1,
      mx_script = None, mx_description = None, mx_args = [], mx_timeout_seconds = 30\<rparr>) = Inr []"
    by code_simp
qed (simp_all add: demo_catalog_def bt_get_def demo_macro_def requested_definition_def)

text \<open>
  following \<open>next_offset\<close> from any offset lists every candidate from there on, once and in
  order.
\<close>

theorem catalog_pages_complete:
  assumes "mq_id q = None" and "length (list_candidates lower q c) \<le> U64_MAX"
    and "length (list_candidates lower q c) - k < n"
  shows "read_list n lower (q\<lparr>mq_offset := Some k\<rparr>) c =
    Some (map macro_summary (drop k (list_candidates lower q c)))"
  by (rule read_list_from [OF assms])

definition demo_query :: macro_list_query where
  "demo_query = \<lparr>mq_id = None, mq_query = None, mq_include_drafts = True, mq_offset = None, mq_limit = Some 1\<rparr>"

theorem catalog_pages_complete_witness:
  "read_list 2 (\<lambda>s. s) (demo_query\<lparr>mq_offset := Some 0\<rparr>) demo_catalog =
    Some (map macro_summary (drop 0 (list_candidates (\<lambda>s. s) demo_query demo_catalog)))"
  by (rule catalog_pages_complete) code_simp+

section \<open>The wire\<close>

definition journal_event :: "nat \<Rightarrow> unit timeline_event" where
  "journal_event n = (demo_event n)\<lparr>ev_port := lit ''p'', ev_data := [65], ev_durable := True\<rparr>"

definition demo_codecs :: "(unit, unit, unit, unit) wire_codecs" where
  "demo_codecs =
     \<lparr>wc_header = one_codec ((header_of_event (journal_event 1))\<lparr>fh_replay := True\<rparr>),
      wc_server = one_codec (Ready (lit ''p'') 1), wc_client = one_codec ()\<rparr>"

text \<open>
  C25: an event survives the WebSocket protocol. The bytes of its frame decode to the frame of its
  direction: a data frame with the event's own header, its replay mark and its bytes, or a control
  message with the event. The capture client that listens to the event's port gets exactly that
  event from them, and a client of another port passes over it. And the bytes that split into a
  tag, a header and a payload are exactly those an encoder lays out within the limits.
\<close>

theorem wire_round_trip:
  assumes "codec_ok (wc_server w)" and "codec_ok (wc_header w)" and "encode_event w e replayed = Inr bs"
  shows "decode_wire_frame w bs = Inr (case ev_direction e of
      DNone \<Rightarrow> Control (Timeline e replayed)
    | DRx \<Rightarrow> RxFrame ((header_of_event e)\<lparr>fh_replay := replayed\<rparr>) (ev_data e)
    | DTx \<Rightarrow> TxFrame ((header_of_event e)\<lparr>fh_replay := replayed\<rparr>) (ev_data e)) \<and>
    into_event (header_of_event e) (ev_data e) = e \<and>
    capture_next w port bs = Inr (if ev_port e = port then Some (CapEvent e) else None) \<and>
    (\<forall>frame tag header payload. split_envelope frame = Inr (tag, header, payload) \<longleftrightarrow>
       frame = tag # to_be_bytes (word_of_nat (length header)) @ header @ payload \<and>
       length header \<le> MAX_HEADER_BYTES \<and> length payload \<le> MAX_PAYLOAD_BYTES)"
  using decode_encoded_event [OF assms] capture_encoded_event [OF assms] envelope_exact
  by (simp add: envelope_def event_frame_def)

theorem wire_round_trip_witness:
  "capture_next demo_codecs (lit ''p'') [2, 0, 0, 0, 1, 1, 65] = Inr (Some (CapEvent (journal_event 1))) \<and>
   capture_next demo_codecs (lit ''q'') [2, 0, 0, 0, 1, 1, 65] = Inr None"
proof -
  have ok: "codec_ok (wc_server demo_codecs)" "codec_ok (wc_header demo_codecs)"
    by (simp_all add: demo_codecs_def one_codec_ok)
  have bs: "encode_event demo_codecs (journal_event 1) True = Inr [2, 0, 0, 0, 1, 1, 65]" by code_simp
  have port: "ev_port (journal_event 1) = lit ''p''" "lit ''p'' \<noteq> lit ''q''" by code_simp+
  show ?thesis
    using wire_round_trip [OF ok bs, of "lit ''p''"] wire_round_trip [OF ok bs, of "lit ''q''"] port by simp
qed

section \<open>The journal\<close>

definition demo_header :: segment_header where
  "demo_header =
     \<lparr>sh_port = lit ''p'', sh_epoch = 7, sh_segment_id = 9, sh_created_wall_time_ns = 0, sh_first_seq = 1\<rparr>"

definition demo_gap :: stored_gap where
  "demo_gap =
     \<lparr>sg_port = lit ''p'', sg_epoch = 7, sg_first_seq = 2, sg_last_seq = 4, sg_reason = LoggingFault,
      sg_recorded_wall_time_ns = 0\<rparr>"

definition demo_env :: "unit journal_env" where
  "demo_env =
     \<lparr>je_crc = \<lambda>bs. word_of_nat (length bs), je_header = one_codec (header_of_event (journal_event 1)),
      je_segment = one_codec demo_header, je_gap = one_codec demo_gap, je_uuid_text = digits_of\<rparr>"

definition demo_head :: bytes where
  "demo_head = (case encode_segment_header demo_env demo_header of Inr bs \<Rightarrow> bs | Inl _ \<Rightarrow> [])"

definition demo_record :: bytes where
  "demo_record = (case encode_record demo_env (journal_event 1) of Inr bs \<Rightarrow> bs | Inl _ \<Rightarrow> [])"

definition demo_segment :: path where
  "demo_segment = (lit ''d'', open_name demo_env demo_header)"

lemma demo_env_ok:
  "codec_ok (je_header demo_env)" "codec_ok (je_segment demo_env)" "gap_codec_ok demo_env"
  by (simp_all add: demo_env_def one_codec_ok gap_codec_ok_def) (simp add: one_codec_def)

lemma demo_segment_bytes: "segment_bytes demo_env demo_header demo_head"
  unfolding segment_bytes_def by code_simp

lemma demo_encode_record: "encode_record demo_env (journal_event 1) = Inr demo_record"
  by (simp add: encode_record_def demo_record_def demo_env_def one_codec_def journal_event_def demo_event_def
      header_of_event_def MAX_PAYLOAD_BYTES_def MAX_HEADER_BYTES_def Let_def sbind_def)

lemma demo_records: "records_of demo_env [journal_event 1] [demo_record]"
  by (simp add: records_of_def demo_encode_record del: One_nat_def)

lemma single_file [simp]: "bt_get [(p, v)] p = Some v"
  by (simp add: bt_get_def)

lemma os_ok_quiet [simp]: "os_fault (os_ok us) c = None" "os_reads (os_ok us) p = []"
  by (simp_all add: os_ok_def)

lemma demo_stream: "in_stream demo_header 0 [journal_event 1]"
  by code_simp

text \<open>
  C26: a crash loses no complete record. A segment that was open when the daemon stopped, in the
  middle of appending, is sealed with exactly the records that had been written whole, under the
  name that announces the last of them; the torn bytes are gone and no other file is touched.
\<close>

theorem crash_keeps_complete_records:
  assumes "codec_ok (je_header env)" and "codec_ok (je_segment env)" and "segment_bytes env h head"
    and "records_of env es recs" and "in_stream h 0 es" and "es \<noteq> []" and "torn env tail"
    and "\<forall>c. os_fault d c = None" and "\<forall>e. ReadFails e \<in> set (os_reads d p) \<longrightarrow> io_kind e = IoInterrupted"
    and "bt_get fs p = Some (Regular (head @ concat recs @ tail))" and "snd p = open_name env h"
  shows "case recover_open_segment env d p fs of (r, fs') \<Rightarrow>
    r = Inr () \<and> bt_get fs' p = None \<and>
    bt_get fs' (sealed_path env p h (ev_seq (last es))) = Some (Regular (head @ concat recs)) \<and>
    (\<forall>q. q \<noteq> p \<and> q \<noteq> sealed_path env p h (ev_seq (last es)) \<longrightarrow> bt_get fs' q = bt_get fs q)"
proof (cases "recover_open_segment env d p fs")
  case (Pair r fs')
  have q: "quiet d p" using assms(8,9) by (simp add: quiet_def)
  have f: "bt_get fs p = Some (Regular (segment_file head recs @ tail))"
    using assms(10) by (simp add: segment_file_def)
  note rec = recovery_keeps_records [OF assms(1-7) q f assms(11) Pair]
  show ?thesis using rec(1-3) rec(4) by (auto simp: Pair segment_file_def)
qed

theorem crash_keeps_complete_records_witness:
  "bt_get (snd (recover_open_segment demo_env (os_ok []) demo_segment
     [(demo_segment, Regular (demo_head @ demo_record @ take 5 demo_record))]))
     (sealed_path demo_env demo_segment demo_header 1) = Some (Regular (demo_head @ demo_record))"
proof -
  let ?fs = "[(demo_segment, Regular (demo_head @ demo_record @ take 5 demo_record))]"
  have "torn demo_env (take 5 demo_record)"
    by (rule torn_take [OF demo_encode_record]) code_simp
  from crash_keeps_complete_records [OF demo_env_ok(1,2) demo_segment_bytes demo_records demo_stream _ this,
      where p = demo_segment and d = "os_ok []" and fs = ?fs]
  have "case recover_open_segment demo_env (os_ok []) demo_segment ?fs of (r, fs') \<Rightarrow>
      bt_get fs' (sealed_path demo_env demo_segment demo_header (ev_seq (last [journal_event 1]))) =
      Some (Regular (demo_head @ concat [demo_record]))"
    by (simp add: demo_segment_def split: prod.splits)
  then show ?thesis by (simp add: journal_event_def demo_event_def split: prod.splits)
qed

text \<open>
  C27: a gap recorded in the ledger survives: after a torn append the ledger is cut back to its last
  complete line, the next gap follows it, and nothing recorded before is lost.
\<close>

theorem gap_ledger_heals:
  assumes "gap_codec_ok env" and "list_all2 (gap_line env) gs ls" and "10 \<notin> set tail"
    and "bt_get fs (ledger_path root_dir) = Some (Regular (ledger_bytes ls @ tail))"
    and "length (ledger_bytes ls) \<le> U64_MAX" and "\<forall>c. os_fault d c = None" and "gap_line env g l"
  shows "\<exists>fs'. append_gap_ledger env d root_dir g fs =
      (Inr \<lparr>gl_appended_bytes = length l + 1, gl_truncated_bytes = length tail\<rparr>, fs') \<and>
    bt_get fs' (ledger_path root_dir) = Some (Regular (ledger_bytes (ls @ [l]))) \<and>
    (\<forall>q. q \<noteq> ledger_path root_dir \<longrightarrow> bt_get fs' q = bt_get fs q)"
  by (rule ledger_append_recovers [OF assms])

lemma demo_gap_line: "gap_line demo_env demo_gap [1]"
  unfolding gap_line_def by code_simp

theorem gap_ledger_heals_witness:
  "\<exists>fs'. append_gap_ledger demo_env (os_ok []) (lit ''r'') demo_gap
      [(ledger_path (lit ''r''), Regular [1, 10, 1, 1])] =
      (Inr \<lparr>gl_appended_bytes = 2, gl_truncated_bytes = 2\<rparr>, fs') \<and>
    bt_get fs' (ledger_path (lit ''r'')) = Some (Regular [1, 10, 1, 10])"
proof -
  let ?fs = "[(ledger_path (lit ''r''), Regular [1, 10, 1, 1])]"
  have "list_all2 (gap_line demo_env) [demo_gap] [[1]]" "10 \<notin> set [1, 1 :: byte]"
      "bt_get ?fs (ledger_path (lit ''r'')) = Some (Regular (ledger_bytes [[1]] @ [1, 1]))"
      "length (ledger_bytes [[1]]) \<le> U64_MAX" "\<forall>c. os_fault (os_ok []) c = None"
    by (simp_all add: demo_gap_line U64_MAX_def)
  from gap_ledger_heals [OF demo_env_ok(3) this demo_gap_line] show ?thesis
    by (simp add: numeral_2_eq_2) blast
qed

text \<open>
  The gaps a query loads are exactly the recorded ones, for its port and epoch and clipped to
  its window; ranges of one reason neither overlap nor touch.
\<close>

theorem loaded_gaps_exact:
  assumes "gap_codec_ok env" and "decode_json (je_gap env) [] = Inl e0" and "list_all2 (gap_line env) gs ls"
    and "bt_get fs (ledger_path root_dir) = Some (Regular (ledger_bytes ls))"
    and "\<forall>g \<in> set gs. sg_last_seq g \<le> U64_MAX" and "\<forall>c. os_fault d c = None"
    and "load_query_gap_ranges env d root_dir fs port epoch after_seq through_seq b = Inr (b', gaps)"
  shows "(\<forall>e r n. gap_at e r n gaps \<longleftrightarrow>
      (\<exists>g \<in> set gs. e = epoch \<and> stored_at port e r n g \<and> in_window after_seq through_seq n)) \<and>
    sorted_wrt apart gaps \<and> length gaps \<le> MAX_QUERY_GAPS"
  using query_gaps_exact [OF assms(1-4) _ assms(6,7)] assms(5) by blast

definition demo_budget :: query_budget where
  "demo_budget =
     \<lparr>qb_max_scan_bytes = 1000, qb_max_scan_time = 10, qb_clock = \<lambda>_. 0, qb_readings = 0, qb_scanned_bytes = 0\<rparr>"

definition demo_ledger :: files where
  "demo_ledger = [(ledger_path (lit ''r''), Regular [1, 10])]"

definition demo_gaps :: "gap_range list" where
  "demo_gaps = [\<lparr>gr_epoch = 7, gr_first_seq = 3, gr_last_seq = 4, gr_reason = LoggingFault\<rparr>]"

lemma demo_load:
  "\<exists>b. load_query_gap_ranges demo_env (os_ok []) (lit ''r'') demo_ledger (lit ''p'') 7 (Some 2) None demo_budget =
   Inr (b, demo_gaps)"
proof -
  have "case load_query_gap_ranges demo_env (os_ok []) (lit ''r'') demo_ledger (lit ''p'') 7 (Some 2) None
      demo_budget of Inl _ \<Rightarrow> False | Inr (b, gaps) \<Rightarrow> gaps = demo_gaps"
    by code_simp
  then show ?thesis by (auto split: sum.splits)
qed

lemma demo_gap_undecodable: "decode_json (je_gap demo_env) [] = Inl (io_fail IoInvalidData [])"
  by (simp add: demo_env_def one_codec_def)

lemma demo_gap_bounds: "sg_last_seq demo_gap \<le> U64_MAX"
  by (simp add: demo_gap_def U64_MAX_def)

theorem loaded_gaps_exact_witness:
  "gap_at 7 LoggingFault 3 demo_gaps \<and> \<not> gap_at 7 LoggingFault 2 demo_gaps"
proof -
  have l: "list_all2 (gap_line demo_env) [demo_gap] [[1]]"
      "bt_get demo_ledger (ledger_path (lit ''r'')) = Some (Regular (ledger_bytes [[1]]))"
      "\<forall>g \<in> set [demo_gap]. sg_last_seq g \<le> U64_MAX" "\<forall>c. os_fault (os_ok []) c = None"
    by (simp_all add: demo_gap_line demo_ledger_def demo_gap_bounds)
  obtain b where "load_query_gap_ranges demo_env (os_ok []) (lit ''r'') demo_ledger (lit ''p'') 7 (Some 2) None
      demo_budget = Inr (b, demo_gaps)" using demo_load ..
  from loaded_gaps_exact [OF demo_env_ok(3) demo_gap_undecodable l this]
  have "gap_at e r n demo_gaps \<longleftrightarrow>
      (\<exists>g \<in> set [demo_gap]. e = 7 \<and> stored_at (lit ''p'') e r n g \<and> in_window (Some 2) None n)" for e r n
    by blast
  then show ?thesis by (simp add: stored_at_def in_window_def demo_gap_def)
qed

text \<open>
  Adding a conservative range to the gaps of a query reports exactly the numbers of the range
  that no gap of that epoch explained before, and forgets nothing.
\<close>

theorem uncovered_gap_exact:
  assumes "push_uncovered_gap c gaps = Inr gaps'" and "bounded_gaps (c # gaps)"
  shows "gap_at e r n gaps' \<longleftrightarrow> gap_at e r n gaps \<or> (in_gap e r n c \<and> \<not> missing_at e n gaps)"
  by (rule push_uncovered_exact(1) [OF assms])

theorem uncovered_gap_exact_witness:
  "gap_at 7 SequenceDiscontinuity 5
     [\<lparr>gr_epoch = 7, gr_first_seq = 3, gr_last_seq = 4, gr_reason = LoggingFault\<rparr>,
      \<lparr>gr_epoch = 7, gr_first_seq = 1, gr_last_seq = 2, gr_reason = SequenceDiscontinuity\<rparr>,
      \<lparr>gr_epoch = 7, gr_first_seq = 5, gr_last_seq = 6, gr_reason = SequenceDiscontinuity\<rparr>]"
proof -
  let ?g = "\<lparr>gr_epoch = 7, gr_first_seq = 3, gr_last_seq = 4, gr_reason = LoggingFault\<rparr>"
  let ?c = "\<lparr>gr_epoch = 7, gr_first_seq = 1, gr_last_seq = 6, gr_reason = SequenceDiscontinuity\<rparr>"
  have "push_uncovered_gap ?c [?g] =
      Inr [?g, ?c\<lparr>gr_last_seq := 2\<rparr>, ?c\<lparr>gr_first_seq := 5\<rparr>]" by code_simp
  from uncovered_gap_exact [OF this, of 7 SequenceDiscontinuity 5] show ?thesis
    by (simp add: U64_MAX_def in_gap_def missing_at_def)
qed

text \<open>
  C28: the text search over a stream of events agrees with a search of the whole stream: event by
  event it reports a match exactly when an occurrence of the needle ends in that event's bytes,
  however the occurrence is split over the events before it, and never across a break of the stream.
\<close>

theorem stream_search_agrees:
  assumes "needle \<noteq> []"
  shows "fst (matches_run needle carry_clear es) = stream_matches needle [] es"
  by (rule stream_search_exact [OF assms carry_inv_clear])

theorem stream_search_agrees_witness:
  "fst (matches_run [1, 2] carry_clear
     [(journal_event 1)\<lparr>ev_data := [0, 1], ev_offset_start := Some 0, ev_offset_end := Some 2\<rparr>,
      (journal_event 2)\<lparr>ev_data := [2, 0], ev_offset_start := Some 2, ev_offset_end := Some 4\<rparr>])
   = stream_matches [1, 2] []
     [(journal_event 1)\<lparr>ev_data := [0, 1], ev_offset_start := Some 0, ev_offset_end := Some 2\<rparr>,
      (journal_event 2)\<lparr>ev_data := [2, 0], ev_offset_start := Some 2, ev_offset_end := Some 4\<rparr>]"
  by (rule stream_search_agrees) simp

definition demo_scope :: query_scope where
  "demo_scope =
     \<lparr>qc_query = \<lparr>eq_epoch = Some 7, eq_after_seq = None, eq_through_seq = None, eq_before_wall_time_ns = None,
        eq_after_wall_time_ns = None, eq_direction = None, eq_kind = None, eq_actor_id = None, eq_run_id = None,
        eq_operation_id = None, eq_contains = None, eq_regex = None, eq_limit_events = None,
        eq_limit_bytes = None\<rparr>,
      qc_port = lit ''p'', qc_epoch = 7, qc_expression = None\<rparr>"

definition demo_descriptor :: segment_descriptor where
  "demo_descriptor =
     \<lparr>sd_header = demo_header, sd_path = demo_segment, sd_last_seq = Some 1, sd_sealed = True\<rparr>"

definition demo_store :: files where
  "demo_store = [(demo_segment, Regular (segment_file demo_head [demo_record]))]"

lemma demo_segment_holds: "segment_holds demo_env demo_store demo_descriptor [journal_event 1]"
  using demo_segment_bytes demo_records demo_stream
  by (auto simp: segment_holds_def demo_descriptor_def demo_store_def demo_header_def journal_event_def
      demo_event_def intro!: exI [of _ "[demo_record]"])


section \<open>The journal from both ends\<close>

text \<open>
  C29: an append that returns an event has extended the log of its stream by exactly that event, now
  durable and the head of its stream; what else is in the logs are the events they held, without
  those that the new Retention gaps of the ledger name, in this stream and in every other; and the
  ledger holds what it held, the range of sequence numbers the event skipped, and those gaps.
\<close>

theorem append_extends_log:
  assumes "journal_append we i g e w = Some (Inr e', w')" and "journal_holds (we_journal we) (jc_root g) w logs gs"
    and "writer_env_ok we" and "is_text (ev_port e)" and "ev_seq e \<le> U64_MAX" and "jc_max_segment_bytes g < U64_MAX"
    and "ledger_room (jc_root g) (segment_count (snd w) + 2) (snd w)"
    and "\<forall>s. bt_get (ws_open (fst w)) (event_key e) = Some s \<and> og_last_seq s = 0 \<longrightarrow>
       sh_first_seq (og_header s) \<le> ev_seq e"
  shows "e' = e\<lparr>ev_durable := True\<rparr> \<and> head_of (fst w') (event_key e) = ev_seq e \<and>
    (\<exists>logs' new. journal_holds (we_journal we) (jc_root g) w' logs'
        (gs @ skipped_gaps (wi_gap_wall i) (head_of (fst w) (event_key e)) e @ new) \<and>
      (\<forall>gap \<in> set new. sg_reason gap = Retention) \<and>
      (\<forall>k. log_events (logs' k) = filter (\<lambda>e. \<not> evicted new k (ev_seq e)) (log_events (logs k)) @
         (if k = event_key e then [e'] else [])))"
  using append_keeps_journal [OF assms(1-7)] assms(8) by blast

definition demo_writer_env :: "unit writer_env" where
  "demo_writer_env =
     \<lparr>we_journal = demo_env, we_history = one_codec demo_persisted, we_json = \<lparr>as_bool = \<lambda>_. None, as_str = \<lambda>_. None, as_i64 = \<lambda>_. None\<rparr>, we_formats = demo_formats,
      we_show_io = io_text, we_round = (\<lambda>r. r)\<rparr>"

definition demo_config :: journal_config where
  "demo_config =
     \<lparr>jc_root = lit ''r'', jc_queue_capacity = 1, jc_max_segment_bytes = 1000, jc_max_segment_age = 10,
      jc_max_total_bytes = 10000, jc_low_watermark = Some 1, jc_ack_timeout = 1\<rparr>"

definition demo_inputs :: writer_inputs where
  "demo_inputs =
     \<lparr>wi_os = os_ok [], wi_append_os = os_ok [], wi_index_os = os_ok [], wi_gap_wall = 0, wi_rotate_now = 0,
      wi_capacity_now = 0, wi_retention_wall = \<lambda>_. 0, wi_segment_id = 9, wi_created_wall = 0, wi_opened_now = 0\<rparr>"

definition demo_writer :: writer_store where
  "demo_writer =
     (\<lparr>ws_history = demo_history, ws_runs = demo_runs, ws_open = bt_empty, ws_heads = bt_empty, ws_total_bytes = 0,
       ws_retry_at = None, ws_failures = 0\<rparr>, bt_empty)"

definition demo_appended :: writer_store where
  "demo_appended =
     snd (the (journal_append demo_writer_env demo_inputs demo_config (journal_event 1) demo_writer))"

lemma demo_append:
  "journal_append demo_writer_env demo_inputs demo_config (journal_event 1) demo_writer =
     Some (Inr (journal_event 1), demo_appended)"
proof -
  have "map_option fst (journal_append demo_writer_env demo_inputs demo_config (journal_event 1) demo_writer) =
      Some (Inr (journal_event 1))" by code_simp
  then show ?thesis by (auto simp: demo_appended_def)
qed

lemma empty_stream_holds: "stream_holds env root_dir demo_writer k []"
  by (simp add: stream_holds_def stream_store_def in_order_def ends_open_def head_of_def demo_writer_def is_regular_def
      bt_empty_def bt_get_def)

lemma demo_writer_holds: "journal_holds (we_journal demo_writer_env) (jc_root demo_config) demo_writer (\<lambda>_. []) []"
proof -
  have "snd demo_writer = []" by (simp add: demo_writer_def bt_empty_def)
  then show ?thesis
    by (simp add: empty_stream_holds journal_holds_def is_regular_def bt_get_def ledger_records_def ledger_holds_def
        del: split_paired_All)
qed

lemma demo_writer_env_ok: "writer_env_ok demo_writer_env"
proof -
  have "inj digits_of" by (metis digits_value_of injI)
  then show ?thesis
    using demo_env_ok
    by (simp add: writer_env_ok_def demo_writer_env_def short_gap_lines_def demo_env_def one_codec_def
        MAX_GAP_LEDGER_LINE_BYTES_def demo_formats_def)
qed

lemma demo_append_ready:
  "is_text (ev_port (journal_event 1))" "ev_seq (journal_event 1) \<le> U64_MAX" "jc_max_segment_bytes demo_config < U64_MAX"
  "ledger_room (jc_root demo_config) (segment_count (snd demo_writer) + 2) (snd demo_writer)"
  "bt_get (ws_open (fst demo_writer)) k = None"
  "event_key (journal_event 1) = (lit ''p'', 7)"
  by (simp_all add: journal_event_def demo_event_def is_text_def lit_def U64_MAX_def demo_config_def demo_writer_def
      bt_empty_def bt_get_def ledger_room_def segment_count_def MAX_GAP_LEDGER_LINE_BYTES_def event_key_def)

lemma demo_extended:
  assumes "\<exists>logs new. journal_holds env root_dir w logs (f new) \<and> Q new \<and>
      (\<forall>k. log_events (logs k) = filter (P new k) (log_events []) @ (if k = event_key e then [e] else []))"
  shows "\<exists>logs gs. journal_holds env root_dir w logs gs \<and> log_events (logs (event_key e)) = [e]"
proof -
  obtain logs new where held: "journal_holds env root_dir w logs (f new)"
    and events: "\<forall>k. log_events (logs k) =
      filter (P new k) (log_events []) @ (if k = event_key e then [e] else [])"
    using assms by blast
  have "log_events (logs (event_key e)) = [e]" using events [rule_format, of "event_key e"] by simp
  with held show ?thesis by blast
qed

theorem append_extends_log_witness:
  "\<exists>logs gs. journal_holds (we_journal demo_writer_env) (jc_root demo_config) demo_appended logs gs \<and>
     log_events (logs (event_key (journal_event 1))) = [journal_event 1]"
proof -
  have "\<forall>s. bt_get (ws_open (fst demo_writer)) (event_key (journal_event 1)) = Some s \<and> og_last_seq s = 0 \<longrightarrow>
       sh_first_seq (og_header s) \<le> ev_seq (journal_event 1)" by (simp add: demo_append_ready(5))
  from append_extends_log [OF demo_append demo_writer_holds demo_writer_env_ok demo_append_ready(1-4) this]
  show ?thesis by (elim conjE) (rule demo_extended)
qed

lemma demo_journal:
  "\<exists>logs gs. journal_holds demo_env (lit ''r'') demo_appended logs gs \<and>
     log_events (logs (lit ''p'', 7)) = [journal_event 1]"
proof -
  have "sh_first_seq (og_header s) \<le> ev_seq (journal_event 1)"
    if "bt_get (ws_open (fst demo_writer)) (event_key (journal_event 1)) = Some s" for s
    using that by (simp add: demo_append_ready(5))
  then have "\<exists>logs gs. journal_holds (we_journal demo_writer_env) (jc_root demo_config) demo_appended logs gs \<and>
     log_events (logs (event_key (journal_event 1))) = [journal_event 1]"
    by (rule demo_extended [OF append_keeps_journal(3) [OF demo_append demo_writer_holds demo_writer_env_ok
      demo_append_ready(1-4)]])
  moreover have "we_journal demo_writer_env = demo_env" "jc_root demo_config = lit ''r''"
    by (simp_all add: demo_writer_env_def demo_config_def)
  ultimately show ?thesis by (simp only: demo_append_ready(6))
qed

text \<open>
  C30: what a query returns is the log. A page of a query without a text filter, over the files as the
  writer keeps them, holds exactly the events of the log in its scope up to where it ends; unless it is
  truncated, that is all of them; no sequence number up to its end is missing silently; and a gap it
  reports at an event that is there is one the ledger records.
\<close>

theorem query_returns_log:
  assumes "codec_ok (je_header env)" and "codec_ok (je_segment env)" and "gap_codec_ok env"
    and "decode_json (je_gap env) [] = Inl e0" and "\<forall>c. os_fault d c = None"
    and "journal_holds env root_dir w logs gs" and "is_text port"
    and "eq_epoch q = Some epoch" and "eq_contains q = None" and "eq_regex q = None"
    and "c = \<lparr>qc_query = q, qc_port = port, qc_epoch = epoch, qc_expression = None\<rparr>"
    and "sequence_floor c \<le> U64_MAX" and "sequence_ceiling c \<le> U64_MAX"
    and "query_files env regex d root_dir (snd w) port q b = Inr resp"
  shows "er_events resp = filter (\<lambda>e. in_scope c e \<and> ev_seq e \<le> page_end resp) (log_events (logs (port, epoch))) \<and>
    (\<not> er_truncated resp \<longrightarrow> er_events resp = filter (in_scope c) (log_events (logs (port, epoch)))) \<and>
    (\<forall>n. sequence_floor c < n \<and> n \<le> page_end resp \<longrightarrow>
       missing_at epoch n (er_gaps resp) \<or> n \<in> ev_seq ` set (log_events (logs (port, epoch)))) \<and>
    (\<forall>e r n. gap_at e r n (er_gaps resp) \<and> in_query_window c n \<and> n \<in> ev_seq ` set (log_events (logs (port, epoch))) \<longrightarrow>
       (\<exists>g \<in> set gs. e = epoch \<and> stored_at port e r n g))"
  using journal_query [OF assms] by blast

text \<open>The one file: \<open>r/slots/slot-70/7/00000000000000000001-9.open\<close>.\<close>

definition demo_journal_files :: files where
  "demo_journal_files =
     [(([114, 47, 115, 108, 111, 116, 115, 47, 115, 108, 111, 116, 45, 55, 48, 47, 55],
        [48, 48, 48, 48, 48, 48, 48, 48, 48, 48, 48, 48, 48, 48, 48, 48, 48, 48, 48, 49,
         45, 57, 46, 111, 112, 101, 110]),
       Regular (segment_file demo_head [demo_record]))]"

lemma demo_journal_files: "snd demo_appended = demo_journal_files"
  by code_simp

lemma demo_query:
  "\<exists>resp. query_files demo_env (\<lambda>_. Inl []) (os_ok []) (lit ''r'') demo_journal_files (lit ''p'') (qc_query demo_scope)
     demo_budget = Inr resp \<and> \<not> er_truncated resp"
proof -
  have "case query_files demo_env (\<lambda>_. Inl []) (os_ok []) (lit ''r'') demo_journal_files (lit ''p'')
      (qc_query demo_scope) demo_budget of Inl _ \<Rightarrow> False | Inr resp \<Rightarrow> \<not> er_truncated resp"
    by code_simp
  then show ?thesis by (auto split: sum.splits)
qed

theorem query_returns_log_witness:
  "\<exists>resp. query_files demo_env (\<lambda>_. Inl []) (os_ok []) (lit ''r'') demo_journal_files (lit ''p'') (qc_query demo_scope)
     demo_budget = Inr resp \<and> er_events resp = [journal_event 1]"
proof -
  obtain logs gs where held: "journal_holds demo_env (lit ''r'') demo_appended logs gs"
    "log_events (logs (lit ''p'', 7)) = [journal_event 1]"
    using demo_journal by blast
  obtain resp where q: "query_files demo_env (\<lambda>_. Inl []) (os_ok []) (lit ''r'') demo_journal_files (lit ''p'')
      (qc_query demo_scope) demo_budget = Inr resp" "\<not> er_truncated resp" using demo_query by blast
  have scope: "is_text (lit ''p'')" "eq_epoch (qc_query demo_scope) = Some 7" "eq_contains (qc_query demo_scope) = None"
    "eq_regex (qc_query demo_scope) = None"
    "demo_scope = \<lparr>qc_query = qc_query demo_scope, qc_port = lit ''p'', qc_epoch = 7, qc_expression = None\<rparr>"
    "sequence_floor demo_scope \<le> U64_MAX" "sequence_ceiling demo_scope \<le> U64_MAX"
    by (simp_all add: demo_scope_def is_text_def lit_def sequence_floor_def sequence_ceiling_def U64_MAX_def)
  have "\<forall>c. os_fault (os_ok []) c = None" by simp
  from query_returns_log [OF demo_env_ok demo_gap_undecodable this held(1) scope q(1) [folded demo_journal_files]] q(2)
  have "er_events resp = filter (in_scope demo_scope) (log_events (logs (lit ''p'', 7)))" by blast
  then have "er_events resp = filter (in_scope demo_scope) [journal_event 1]" unfolding held(2) .
  moreover have "in_scope demo_scope (journal_event 1)" by code_simp
  ultimately show ?thesis using q(1) by simp
qed

text \<open>
  C31: the journal keeps within its space, or says so. After an append that succeeds, the size the
  writer accounts for is within the configured total. Before it writes to a segment it asks for
  room (\<open>ensure_capacity\<close>): if there is room, no file is touched; if there is none and retention
  failed so recently that its next attempt is not due, the request is refused and nothing at all
  changes; otherwise retention is tried, and either it makes the room, the size being then
  what the directory holds, or the request is refused and the next attempt set to a later time at
  most a minute away. The gap ledger, which an append may extend first, is written without asking.
\<close>

theorem capacity_kept:
  "(\<forall>i e e' w'. journal_append we i g e w = Some (Inr e', w') \<longrightarrow> ws_total_bytes (fst w') \<le> jc_max_total_bytes g) \<and>
   (if fits_within g (ws_total_bytes (fst w)) additional
    then ensure_capacity we d g wall now additional w =
      (Inr (), ((fst w)\<lparr>ws_retry_at := None, ws_failures := 0\<rparr>, snd w))
    else if \<exists>t. ws_retry_at (fst w) = Some t \<and> now < t
    then \<exists>e. ensure_capacity we d g wall now additional w = (Inl e, w)
    else case ensure_capacity we d g wall now additional w of
        (Inr _, w') \<Rightarrow> fits_within g (ws_total_bytes (fst w')) additional \<and>
          directory_size d (jc_root g) (snd w') = Inr (ws_total_bytes (fst w')) \<and> ws_retry_at (fst w') = None
      | (Inl e, w') \<Rightarrow> \<exists>t. ws_retry_at (fst w') = Some t \<and> now < t \<and> t \<le> now + 60 * 1000000000)"
proof (intro conjI allI impI, goal_cases)
  case (1 i e e' w')
  then show ?case by (rule append_within_capacity)
next
  case 2
  show ?case
  proof (cases "fits_within g (ws_total_bytes (fst w)) additional")
    case True
    then show ?thesis using ensure_capacity_room by (simp add: clear_backoff_def)
  next
    case False
    show ?thesis
    proof (cases "\<exists>t. ws_retry_at (fst w) = Some t \<and> now < t")
      case True
      with ensure_capacity_backoff [OF False] show ?thesis by (simp only: False if_False if_True) blast
    next
      case due: False
      from ensure_capacity_tried [OF False due surjective_pairing, of we d wall] show ?thesis
        by (simp only: False due if_False split_beta)
    qed
  qed
qed

definition demo_backed_off :: writer_store where
  "demo_backed_off =
     snd (ensure_capacity demo_writer_env (os_ok []) demo_config (\<lambda>_. 0) 5 10001 demo_writer)"

theorem capacity_kept_witness:
  "ws_total_bytes (fst demo_appended) \<le> 10000 \<and> ws_retry_at (fst demo_backed_off) = Some 1000000005 \<and>
   (\<exists>e. ensure_capacity demo_writer_env (os_ok []) demo_config (\<lambda>_. 0) 6 10001 demo_backed_off = (Inl e, demo_backed_off))"
proof -
  have t: "ws_retry_at (fst demo_backed_off) = Some 1000000005" by code_simp
  have full: "\<not> fits_within demo_config (ws_total_bytes (fst demo_backed_off)) 10001" by code_simp
  have limit: "jc_max_total_bytes demo_config = 10000" by (simp add: demo_config_def)
  show ?thesis
    using capacity_kept [of demo_writer_env demo_config demo_writer, THEN conjunct1, rule_format, OF demo_append]
      capacity_kept [of demo_writer_env demo_config demo_backed_off 10001 "os_ok []" "\<lambda>_. 0" 6, THEN conjunct2]
      t full limit by simp
qed


section \<open>Monitors\<close>

text \<open>
  C32: what a monitor reports for each receive event is what a search of the whole stream would. The
  occurrences of each literal condition are those found from left to right without overlap, each search
  resuming after the occurrence before; an incident comes exactly when such an occurrence, not complete
  before, is complete now, with every condition that matched, the first and last events that hold it,
  and its preview. The bounded window of the matcher, the offsets it resumes from and the chunks it drops
  change nothing, across resets and jumps of the stream.
\<close>

theorem matcher_equals_stream_search:
  assumes "validate_spec rx spec = Inr ()" and "\<forall>m \<in> set (sp_matchers spec). \<exists>v. m = Contains v"
    and "matcher_compile rx spec = Inr m" and "offsets_advance 0 xs"
  shows "fst (matcher_run xs m) = stream_run (sp_matchers spec) [] xs"
  using matcher_run_exact compile_matcher_at [OF assms(1-3)] assms(4) by metis

definition demo_regex :: "unit regex_api" where
  "demo_regex =
     \<lparr>rx_parse = \<lambda>_. Inl [], rx_minimum_len = \<lambda>_. None, rx_maximum_len = \<lambda>_. None, rx_class_literal = \<lambda>_. None,
      rx_build = \<lambda>_. Inl []\<rparr>"

definition demo_watch :: monitor_spec where
  "demo_watch =
     \<lparr>sp_port = lit ''p'', sp_matchers = [Contains (lit ''OOPS''), Contains (lit ''x'')], sp_start_cursor = None,
      sp_severity = SevWarning, sp_description = None, sp_debounce_ms = 0, sp_cooldown_ms = 10,
      sp_duration_ms = None\<rparr>"

definition demo_rx :: "nat \<Rightarrow> nat \<Rightarrow> bytes \<Rightarrow> unit timeline_event" where
  "demo_rx n start bs =
     (journal_event n)\<lparr>ev_data := bs, ev_offset_start := Some start, ev_offset_end := Some (start + length bs)\<rparr>"

text \<open>The bytes \<open>OO\<close>, then \<open>PS\<close>.\<close>

definition demo_inputs_rx :: "unit matcher_input list" where
  "demo_inputs_rx = [Feed (demo_rx 1 0 [79, 79]), Feed (demo_rx 2 2 [80, 83])]"

lemma demo_watch_valid: "validate_spec demo_regex demo_watch = Inr ()"
  by (simp add: validate_spec_def demo_watch_def lit_def check_matcher_def matcher_value_def total_pattern_bytes_def
      MAX_MONITOR_MATCHERS_def MAX_MONITOR_PATTERN_BYTES_def MAX_MONITOR_TOTAL_PATTERN_BYTES_def MAX_DEBOUNCE_MS_def
      MAX_COOLDOWN_MS_def str_len_def len_utf8_def saturating_add_u64_def U64_MAX_def)

lemma demo_offsets: "offsets_advance 0 demo_inputs_rx"
  by (simp add: demo_inputs_rx_def demo_rx_def U64_MAX_def)

lemma demo_watch_matcher:
  "\<exists>m. matcher_compile demo_regex demo_watch = Inr m \<and>
     map (map_option (\<lambda>p. (pi_seq_start p, pi_seq_end p))) (fst (matcher_run demo_inputs_rx m)) =
       [None, Some (1, 2)]"
proof -
  have "(case matcher_compile demo_regex demo_watch of Inl _ \<Rightarrow> False | Inr m \<Rightarrow>
     map (map_option (\<lambda>p. (pi_seq_start p, pi_seq_end p))) (fst (matcher_run demo_inputs_rx m)) =
       [None, Some (1, 2)])" by code_simp
  then show ?thesis by (auto split: sum.splits)
qed

theorem matcher_equals_stream_search_witness:
  "map (map_option (\<lambda>p. (pi_seq_start p, pi_seq_end p))) (stream_run (sp_matchers demo_watch) [] demo_inputs_rx) =
     [None, Some (1, 2)]"
proof -
  obtain m where m: "matcher_compile demo_regex demo_watch = Inr m"
    "map (map_option (\<lambda>p. (pi_seq_start p, pi_seq_end p))) (fst (matcher_run demo_inputs_rx m)) =
       [None, Some (1, 2)]"
    using demo_watch_matcher by (elim exE conjE)
  have "\<forall>m \<in> set (sp_matchers demo_watch). \<exists>v. m = Contains v" by (simp add: demo_watch_def)
  then have "fst (matcher_run demo_inputs_rx m) = stream_run (sp_matchers demo_watch) [] demo_inputs_rx"
    using matcher_equals_stream_search [OF demo_watch_valid _ m(1) demo_offsets] by blast
  with m(2) show ?thesis by simp
qed

text \<open>
  C33: the literals a monitor derives from an expression are true of every match. Whatever the
  expression can match begins with the prefix, holds the required literal, and is the prefix when the
  analysis calls it exact; so that skipping input without them never skips a match.
\<close>

theorem regex_literals_sound:
  assumes "literal_classes class_literal class_matches" and "spells class_matches h w"
  shows "prefix (la_prefix (analyze_regex_literals class_literal h)) w \<and>
    (la_exact (analyze_regex_literals class_literal h) \<longrightarrow> w = la_prefix (analyze_regex_literals class_literal h)) \<and>
    (\<forall>r. la_required (analyze_regex_literals class_literal h) = Some r \<longrightarrow> sublist r w)"
  using analysis_describes [OF assms] unfolding describes_def .

text \<open>The expression \<open>a(b|c)+ed\<close>, where only the class \<open>()\<close> is not a literal.\<close>

definition demo_hir :: "unit hir" where
  "demo_hir =
     HConcat [HLiteral [97], HRepetition 1 None (HCapture (HAlternation [HLiteral [98], HLiteral [99]])),
              HLiteral [101, 100]]"

theorem regex_literals_sound_witness: "sublist [101, 100] ([97, 99, 98, 101, 100] :: bytes)"
proof -
  let ?bc = "HCapture (HAlternation [HLiteral [98], HLiteral [99]]) :: unit hir"
  have bc: "spells (\<lambda>_ _. False) ?bc [99]" "spells (\<lambda>_ _. False) ?bc [98]"
    by (intro spells_capture spells_alternation [OF _ spells_literal]; simp)+
  have "spells (\<lambda>_ _. False) (HRepetition 1 None ?bc) [99, 98]"
    using spells_repetition [of "[[99], [98]]" "\<lambda>_ _. False" ?bc 1 None] bc by simp
  moreover have "spells (\<lambda>_ _. False) (HLiteral l :: unit hir) l" for l by (rule spells_literal)
  ultimately have "spells (\<lambda>_ _. False) demo_hir [97, 99, 98, 101, 100]"
    unfolding demo_hir_def
    using spells_concat [of "\<lambda>_ _. False" "[HLiteral [97], HRepetition 1 None ?bc, HLiteral [101, 100]]"
        "[[97], [99, 98], [101, 100]]"] by simp
  moreover have "la_required (analyze_regex_literals (\<lambda>_. None) demo_hir) = Some [101, 100]" by code_simp
  moreover have "literal_classes (\<lambda>_. None) (\<lambda>_ _. False)" by (simp add: literal_classes_def)
  ultimately show ?thesis using regex_literals_sound [of "\<lambda>_. None" "\<lambda>_ _. False" demo_hir] by blast
qed

text \<open>A daemon with no jobs, and the same with one, created through \<open>create\<close>.\<close>

definition demo_monitor_env :: "monitor_state \<Rightarrow> unit monitor_env" where
  "demo_monitor_env s =
     \<lparr>me_rx = demo_regex, me_state = one_codec s, me_header = one_codec (mp_schema_version s), me_uuid_text = digits_of,
      me_server_id = 0, me_path = (lit ''d'', lit ''m'')\<rparr>"

definition demo_call :: mon_call where
  "demo_call = \<lparr>mc_os = os_ok [lit ''u''], mc_now = 5, mc_uuid = 3\<rparr>"

definition demo_create :: create_monitor_request where
  "demo_create = \<lparr>cm_request_id = 1, cm_spec = demo_watch\<rparr>"

definition demo_cursor :: cursor where "demo_cursor = \<lparr>cu_epoch = 7, cu_after_seq = 0\<rparr>"

definition demo_job :: monitor_view where "demo_job = new_monitor demo_create demo_cursor 5"

definition demo_jobs :: monitor_state where "demo_jobs = insert_monitor demo_job demo_cursor monitor_state_default"

definition demo_idle :: monitor_daemon where
  "demo_idle = \<lparr>md_state = monitor_state_default, md_files = bt_empty, md_workers = bt_empty, md_shutdown = False\<rparr>"

definition demo_watching :: monitor_daemon where
  "demo_watching =
     \<lparr>md_state = demo_jobs, md_files = [((lit ''d'', lit ''m''), Regular [1])],
      md_workers = bt_insert 1 \<lparr>wh_token = 3, wh_revision = 1, wh_started = True\<rparr> bt_empty, md_shutdown = False\<rparr>"

lemma demo_monitor_persist:
  "persist (demo_monitor_env s) (os_ok [lit ''u'']) s bt_empty = Some (Inr (), [((lit ''d'', lit ''m''), Regular [1])])"
proof -
  have "atomic_write (os_ok [lit ''u'']) (lit ''d'', lit ''m'') [1] bt_empty = Some (Inr (), [((lit ''d'', lit ''m''), Regular [1])])"
    by code_simp
  then show ?thesis by (simp add: persist_def demo_monitor_env_def one_codec_def MAX_STATE_FILE_BYTES_def)
qed

lemma demo_create_steps:
  "monitor_create (demo_monitor_env s) (\<lambda>_. Some (7, 0)) demo_call demo_create demo_idle =
     (case persist (demo_monitor_env s) (os_ok [lit ''u'']) demo_jobs bt_empty of
        None \<Rightarrow> None
      | Some (Inl e, fs) \<Rightarrow> Some (Inl e, demo_idle\<lparr>md_files := fs\<rparr>)
      | Some (Inr _, fs) \<Rightarrow>
          Some (Inr demo_job, spawn_worker 3 1 1 (demo_idle\<lparr>md_state := demo_jobs, md_files := fs\<rparr>)))"
proof -
  have "prune_monitor_capacity monitor_state_default = Some monitor_state_default"
    by (subst prune_monitor_capacity.simps) (simp add: monitor_state_default_def MAX_MONITORS_def bt_empty_def)
  moreover have "slot_cursor (\<lambda>_. Some (7, 0)) demo_watch = Inr demo_cursor"
    by (simp add: slot_cursor_def resolve_start_cursor_def demo_watch_def ok_or_def demo_cursor_def)
  moreover have "bt_get (mp_monitors monitor_state_default) i = None" "running_count monitor_state_default = 0"
      "length (mp_monitors monitor_state_default) = 0" for i
    by (simp_all add: monitor_state_default_def running_count_def bt_get_def bt_empty_def bt_values_def)
  moreover have "insert_monitor (new_monitor demo_create demo_cursor 5) demo_cursor monitor_state_default = demo_jobs"
    by (simp add: demo_jobs_def demo_job_def)
  moreover have "me_rx (demo_monitor_env s) = demo_regex" by (simp add: demo_monitor_env_def)
  moreover have "cm_spec demo_create = demo_watch" "cm_request_id demo_create = 1" by (simp_all add: demo_create_def)
  moreover have "mc_os demo_call = os_ok [lit ''u'']" "mc_now demo_call = 5" "mc_uuid demo_call = 3"
    by (simp_all add: demo_call_def)
  moreover have "\<not> MAX_ACTIVE_MONITORS \<le> 0" "\<not> MAX_MONITORS \<le> 0"
    by (simp_all add: MAX_ACTIVE_MONITORS_def MAX_MONITORS_def)
  moreover have "md_state demo_idle = monitor_state_default" "md_files demo_idle = bt_empty" by (simp_all add: demo_idle_def)
  ultimately show ?thesis
    using demo_watch_valid unfolding monitor_create_def Let_def
    by (simp add: demo_job_def split: option.split sum.split prod.split)
qed

lemma demo_monitor_create:
  "monitor_create (demo_monitor_env demo_jobs) (\<lambda>_. Some (7, 0)) demo_call demo_create demo_idle = Some (Inr demo_job, demo_watching)"
proof -
  have "spawn_worker 3 1 1 (demo_idle\<lparr>md_state := demo_jobs, md_files := [((lit ''d'', lit ''m''), Regular [1])]\<rparr>) =
      demo_watching"
    by code_simp
  then show ?thesis unfolding demo_create_steps demo_monitor_persist by simp
qed

lemma demo_persist_failed:
  "s \<noteq> monitor_state_default \<Longrightarrow>
   persist (demo_monitor_env monitor_state_default) d s fs = Some (Inl MonSerialization, fs)"
  by (simp add: persist_def demo_monitor_env_def one_codec_def)

lemma demo_idle_ok: "monitor_inv rx (md_state demo_idle)" "numbered (md_state demo_idle)"
proof -
  have "md_state demo_idle = monitor_state_default" by (simp add: demo_idle_def)
  then show "monitor_inv rx (md_state demo_idle)" "numbered (md_state demo_idle)"
    by (simp_all add: monitor_inv_default numbered_def) (simp add: monitor_state_default_def bt_get_def bt_empty_def)
qed

lemma demo_watching_inv: "monitor_inv demo_regex demo_jobs"
proof -
  have "monitor_operation (demo_monitor_env demo_jobs) True demo_idle demo_watching"
    by (rule step_create, rule demo_monitor_create)
  moreover have "me_rx (demo_monitor_env demo_jobs) = demo_regex" "md_state demo_watching = demo_jobs"
    by (simp_all add: demo_monitor_env_def demo_watching_def)
  ultimately show ?thesis
    using bounded.operation_keeps [of "demo_monitor_env demo_jobs" True demo_idle demo_watching] demo_idle_ok(1) by metis
qed

lemma demo_watching_job: "bt_get (mp_monitors (md_state demo_watching)) 1 = Some demo_job"
  by code_simp

text \<open>
  A job whose matches wait for a millisecond, an environment whose codec writes every state, and an
  incident of the job.
\<close>

definition demo_slow_watch :: monitor_spec where
  "demo_slow_watch = demo_watch\<lparr>sp_matchers := [Contains (lit ''x'')], sp_debounce_ms := 1\<rparr>"

definition demo_slow_job :: monitor_view where
  "demo_slow_job = new_monitor (demo_create\<lparr>cm_spec := demo_slow_watch\<rparr>) demo_cursor 5"

definition demo_slow_daemon :: monitor_daemon where
  "demo_slow_daemon = demo_idle\<lparr>md_state := insert_monitor demo_slow_job demo_cursor monitor_state_default\<rparr>"

definition demo_worker_env :: "unit monitor_env" where
  "demo_worker_env = (demo_monitor_env monitor_state_default)\<lparr>me_state :=
     \<lparr>encode_json = \<lambda>_. Inr [1], decode_json = \<lambda>_. Inl (io_fail IoInvalidData [])\<rparr>\<rparr>"

definition demo_report :: "nat \<Rightarrow> monitor_daemon \<Rightarrow> ((monitor_error + unit) \<times> monitor_daemon) option" where
  "demo_report n =
     record_incident demo_worker_env demo_call 1 n
       \<lparr>pi_epoch = 7, pi_seq_start = 1, pi_seq_end = 1, pi_wall_time_start_ns = 0, pi_wall_time_end_ns = 0,
        pi_matches = [], pi_preview = []\<rparr>
       (fresh_checkpoint demo_cursor)"

definition demo_reported :: monitor_daemon where "demo_reported = snd (the (demo_report 1 demo_slow_daemon))"

lemma demo_slow_watch_valid: "validate_spec demo_regex demo_slow_watch = Inr ()"
  by (simp add: validate_spec_def demo_slow_watch_def demo_watch_def lit_def check_matcher_def matcher_value_def
      total_pattern_bytes_def MAX_MONITOR_MATCHERS_def MAX_MONITOR_PATTERN_BYTES_def MAX_MONITOR_TOTAL_PATTERN_BYTES_def
      MAX_DEBOUNCE_MS_def MAX_COOLDOWN_MS_def str_len_def len_utf8_def saturating_add_u64_def U64_MAX_def)

lemma demo_slow_spec: "mv_spec demo_slow_job = demo_slow_watch\<lparr>sp_start_cursor := Some demo_cursor\<rparr>"
  by (simp add: demo_slow_job_def demo_create_def)

lemma demo_worker_rx [simp]: "me_rx demo_worker_env = demo_regex"
  by (simp add: demo_worker_env_def demo_monitor_env_def)

lemma demo_slow_inv: "monitor_inv demo_regex (md_state demo_slow_daemon)" "numbered (md_state demo_slow_daemon)"
proof -
  have new: "bt_get (mp_monitors monitor_state_default) (mv_id demo_slow_job) = None"
    "length (mp_monitors monitor_state_default) < MAX_MONITORS" "running_count monitor_state_default < MAX_ACTIVE_MONITORS"
    "validate_spec demo_regex (mv_spec demo_slow_job) = Inr ()"
    "mv_incident_count demo_slow_job = 0" "mv_unacked_incident_count demo_slow_job = 0"
    using demo_slow_watch_valid
    by (simp_all add: monitor_state_default_def bt_get_def bt_empty_def bt_values_def running_count_def MAX_MONITORS_def
        MAX_ACTIVE_MONITORS_def demo_slow_spec validate_spec_cursor) (simp_all add: demo_slow_job_def)
  have start: "monitor_inv demo_regex monitor_state_default" "numbered monitor_state_default"
    using demo_idle_ok by (simp_all add: demo_idle_def)
  have d: "md_state demo_slow_daemon = insert_monitor demo_slow_job demo_cursor monitor_state_default"
    by (simp add: demo_slow_daemon_def)
  show "monitor_inv demo_regex (md_state demo_slow_daemon)"
    unfolding d by (rule insert_monitor_inv [OF start(1) new(1-4,6)])
  show "numbered (md_state demo_slow_daemon)"
    unfolding d using numbering.keeps_insert [of demo_worker_env] start new by simp
qed

lemma demo_report_done:
  "map_option fst (demo_report n d) = Some (Inr ()) \<Longrightarrow> demo_report n d = Some (Inr (), snd (the (demo_report n d)))"
  by auto

lemma demo_reported: "demo_report 1 demo_slow_daemon = Some (Inr (), demo_reported)"
  unfolding demo_reported_def by (rule demo_report_done) code_simp

lemma demo_reported_step: "monitor_step demo_worker_env True (demo_slow_daemon, us) (demo_reported, us)"
proof (rule step_operation, rule step_incident, rule demo_reported [unfolded demo_report_def])
  show "mv_incident_count m < U64_MAX" if "bt_get (mp_monitors (md_state demo_slow_daemon)) 1 = Some m" for m
  proof -
    have "bt_get (mp_monitors (md_state demo_slow_daemon)) 1 = Some demo_slow_job" by code_simp
    with that show ?thesis by (simp add: demo_slow_job_def U64_MAX_def)
  qed
  show "mi_created_wall_time_ns x \<le> mc_now demo_call" if "x \<in> set (incidents_of (md_state demo_slow_daemon) 1)" for x
  proof -
    have "incidents_of (md_state demo_slow_daemon) 1 = []" by code_simp
    with that show ?thesis by simp
  qed
qed

text \<open>
  The race of an update: the view is read, an incident is recorded (the worker was about to end), and the
  view is written back with the count from before the incident.
\<close>

definition demo_race_request :: update_monitor_request where
  "demo_race_request = \<lparr>um_spec = demo_slow_watch, um_expected_revision = 1\<rparr>"

definition demo_renewed :: monitor_view where
  "demo_renewed = demo_slow_job\<lparr>mv_revision := 2, mv_started_wall_time_ns := 6,
     mv_expires_wall_time_ns := duration_deadline 6 None, mv_last_error := None\<rparr>"

definition demo_overwritten :: monitor_daemon where
  "demo_overwritten = snd (the (update_commit demo_worker_env demo_call 1 1 demo_renewed demo_cursor demo_reported))"

lemma demo_race_prepared:
  "update_prepare demo_worker_env (\<lambda>_. Some (7, 0)) 6 1 demo_race_request demo_slow_daemon = Inr (demo_renewed, demo_cursor)"
proof -
  have "slot_cursor (\<lambda>_. Some (7, 0)) demo_slow_watch = Inr demo_cursor"
    by (simp add: slot_cursor_def resolve_start_cursor_def demo_slow_watch_def demo_watch_def ok_or_def demo_cursor_def)
  moreover have "bt_get (mp_monitors (md_state demo_slow_daemon)) 1 = Some demo_slow_job" by code_simp
  moreover have "sp_duration_ms demo_slow_watch = None" by (simp add: demo_slow_watch_def demo_watch_def)
  ultimately show ?thesis
    by (simp add: update_prepare_def demo_race_request_def demo_slow_watch_valid get_view_def ok_or_def demo_renewed_def
        demo_slow_job_def demo_create_def saturating_add_u64_def U64_MAX_def new_monitor_def)
qed

lemma demo_race_commit:
  "\<exists>c. update_commit demo_worker_env demo_call 1 1 demo_renewed demo_cursor demo_reported = Some (c, demo_overwritten)"
proof -
  have "update_commit demo_worker_env demo_call 1 1 demo_renewed demo_cursor demo_reported \<noteq> None" by code_simp
  then show ?thesis by (auto simp: demo_overwritten_def)
qed

lemma demo_race: "rtranclp (monitor_step demo_worker_env False) (demo_slow_daemon, []) (demo_overwritten, [])"
proof -
  have stopped: "stop_worker 1 1 demo_slow_daemon = demo_slow_daemon" by code_simp
  have "monitor_step demo_worker_env False (demo_slow_daemon, []) (demo_slow_daemon, [(1, 1, demo_renewed, demo_cursor)])"
    using step_prepare [OF demo_race_prepared, of False "[]"] by (simp add: demo_race_request_def stopped del: One_nat_def)
  moreover have "monitor_step demo_worker_env False (demo_slow_daemon, [(1, 1, demo_renewed, demo_cursor)])
      (demo_reported, [(1, 1, demo_renewed, demo_cursor)])"
    by (rule step_operation, rule step_incident, rule demo_reported [unfolded demo_report_def]) simp_all
  moreover obtain c where "update_commit demo_worker_env demo_call 1 1 demo_renewed demo_cursor demo_reported = Some (c, demo_overwritten)"
    using demo_race_commit by blast
  then have "monitor_step demo_worker_env False (demo_reported, [] @ (1, 1, demo_renewed, demo_cursor) # []) (demo_overwritten, [] @ [])"
    by (rule step_commit) simp
  ultimately show ?thesis by (simp add: converse_rtranclp_into_rtranclp)
qed

text \<open>
  C34: whatever clients and workers do, in any order, with other steps between the two halves of an update
  and with any storage failures, the catalog of monitors stays within its bounds and consistent: at most
  so many jobs, running jobs and incidents, in all and per job, every job under its own identifier with
  a valid specification, and incidents of known jobs only; so that a restart accepts what it finds. In an
  orderly run, moreover, the retained incidents of a job are in the order of their numbers, none above its
  count, and its count of those not acknowledged is exact. A run is orderly when no incident of a job is
  recorded or acknowledged between the halves of an update of it (which the code does not prevent, see
  the finding on \<open>monitor.rs:288\<close>), the clock does not go back, and no job runs out of numbers.
\<close>

theorem monitor_catalog_bounded:
  assumes "rtranclp (monitor_step env ord) (d, []) (d', us)" and "monitors_inv ord (me_rx env) (md_state d)"
  shows "monitors_inv False (me_rx env) (md_state d') \<and> validate_loaded_state (me_rx env) (md_state d') = Inr () \<and>
    (ord \<longrightarrow> monitors_inv True (me_rx env) (md_state d'))"
proof -
  have "monitors_inv ord (me_rx env) (md_state d')" using reachable_inv [OF assms(1)] assms(2) by simp
  then show ?thesis using monitors_inv_weaken monitor_inv_valid by (cases ord) auto
qed

theorem monitor_catalog_bounded_witness: "validate_loaded_state demo_regex (md_state demo_overwritten) = Inr ()"
proof -
  have "monitors_inv False (me_rx demo_worker_env) (md_state demo_slow_daemon)"
    using monitors_inv_weaken [OF demo_slow_inv(1)] by simp
  from monitor_catalog_bounded [OF demo_race this] show ?thesis by simp
qed

text \<open>What the race costs: the next incident has the number of the one before.\<close>

definition demo_repeated :: monitor_daemon where "demo_repeated = snd (the (demo_report 2 demo_overwritten))"

theorem update_race_repeats_number:
  "rtranclp (monitor_step demo_worker_env False) (demo_slow_daemon, []) (demo_repeated, []) \<and>
   monitor_inv demo_regex (md_state demo_slow_daemon) \<and>
   map mi_incident_seq (incidents_of (md_state demo_repeated) 1) = [1, 1]"
proof -
  have r: "demo_report 2 demo_overwritten = Some (Inr (), demo_repeated)"
    unfolding demo_repeated_def by (rule demo_report_done) code_simp
  have "monitor_step demo_worker_env False (demo_overwritten, []) (demo_repeated, [])"
    by (rule step_operation, rule step_incident, rule r [unfolded demo_report_def]) simp_all
  with demo_race have "rtranclp (monitor_step demo_worker_env False) (demo_slow_daemon, []) (demo_repeated, [])" by simp
  moreover have "map mi_incident_seq (incidents_of (md_state demo_repeated) 1) = [1, 1]" by code_simp
  ultimately show ?thesis using demo_slow_inv(1) by blast
qed

text \<open>
  C35: a client that polls a job's incidents misses none silently, in an orderly run: as long as no incident
  of a job is recorded or acknowledged between the two halves of an update of it, the clock does not go
  back and no job runs out of numbers. (The code ensures neither of the first two: see the findings on
  \<open>monitor.rs:288\<close> and \<open>monitor.rs:2199\<close>.) A page after a cursor holds exactly the retained incidents with a
  number above the cursor and up to the next cursor (only the unacknowledged ones if it asks for those);
  unless it is truncated the next cursor covers all numbers given out; and it reports a retention gap
  exactly when a number after the cursor is no longer retained.
\<close>

theorem incident_polls_complete:
  assumes "rtranclp (monitor_step env True) (d, []) (d', us)" and "monitor_inv (me_rx env) (md_state d)"
    and "numbered (md_state d)" and "bt_get (mp_monitors (md_state d')) i = Some m"
    and "monitor_incidents i (Some after) page_limit include_acked d' = Inr page"
  shows "(\<exists>upto. mg_next_cursor page = Some upto \<and> after \<le> upto \<and>
      mg_incidents page = filter (\<lambda>x. after < mi_incident_seq x \<and> mi_incident_seq x \<le> upto \<and>
          (include_acked \<or> mi_acked_wall_time_ns x = None)) (incidents_of (md_state d') i) \<and>
      (if mg_truncated page then after < upto else mv_incident_count m \<le> upto)) \<and>
    (mg_retention_gap page \<longleftrightarrow>
       (\<exists>k. after < k \<and> k \<le> mv_incident_count m \<and> k \<notin> mi_incident_seq ` set (incidents_of (md_state d') i)))"
proof -
  have "numbered_from (mv_incident_count m) (incidents_of (md_state d') i)"
    using reachable_numbered [OF assms(1)] assms(2-4) by (simp add: numbered_def)
  moreover have "incident_page (mv_incident_count m) (incidents_of (md_state d') i) (Some after) page_limit include_acked = page"
    using assms(4,5) by (simp add: monitor_incidents_def ok_or_def)
  ultimately show ?thesis by (intro conjI incident_page_exact)
qed

text \<open>One incident, polled from the start and from behind it.\<close>

theorem incident_polls_complete_witness:
  "\<exists>page. monitor_incidents 1 (Some 0) None True demo_reported = Inr page \<and>
     map mi_incident_seq (mg_incidents page) = [1] \<and> \<not> mg_retention_gap page"
proof -
  have "case monitor_incidents 1 (Some 0) None True demo_reported of Inl _ \<Rightarrow> False | Inr page \<Rightarrow> \<not> mg_truncated page"
    by code_simp
  then obtain page where page: "monitor_incidents 1 (Some 0) None True demo_reported = Inr page" "\<not> mg_truncated page"
    by (auto split: sum.splits)
  have "case bt_get (mp_monitors (md_state demo_reported)) 1 of None \<Rightarrow> False | Some m \<Rightarrow> mv_incident_count m = 1" by code_simp
  then obtain m where m: "bt_get (mp_monitors (md_state demo_reported)) 1 = Some m" "mv_incident_count m = 1"
    by (auto split: option.splits)
  have one: "map mi_incident_seq (incidents_of (md_state demo_reported) 1) = [1]" by code_simp
  have run: "rtranclp (monitor_step demo_worker_env True) (demo_slow_daemon, []) (demo_reported, [])"
    using demo_reported_step by (rule r_into_rtranclp)
  have inv: "monitor_inv (me_rx demo_worker_env) (md_state demo_slow_daemon)" using demo_slow_inv(1) by simp
  obtain x where x: "incidents_of (md_state demo_reported) 1 = [x]" "mi_incident_seq x = 1"
    using one by auto
  note polled = incident_polls_complete [OF run inv demo_slow_inv(2) m(1) page(1)]
  obtain upto where upto: "mg_incidents page = filter (\<lambda>y. 0 < mi_incident_seq y \<and> mi_incident_seq y \<le> upto \<and>
      (True \<or> mi_acked_wall_time_ns y = None)) [x]" "1 \<le> upto"
    using polled [THEN conjunct1] page(2) m(2) unfolding x(1) by (elim exE conjE) (simp only: if_False)
  have "mg_incidents page = [x]" using upto x(2) by simp
  moreover have "\<not> (\<exists>k. 0 < k \<and> k \<le> mv_incident_count m \<and> k \<notin> mi_incident_seq ` set [x])"
    unfolding m(2) by (simp add: x(2)) arith
  then have "\<not> mg_retention_gap page" using polled [THEN conjunct2] unfolding x(1) by (simp only: not_False_eq_True)
  ultimately show ?thesis using page(1) x(2) by simp
qed

text \<open>
  C36: what was reported survives a restart. A change of the catalog that returns a value is exactly what the
  next start reads, with no worker yet; one that reports an error has changed nothing, in memory, nor in
  the file unless the final flush of the directory was what failed.
\<close>

theorem monitor_change_survives_restart:
  assumes "mutate_and_persist env os f d = Some (r, d')" and "refuses_clean f (md_state d)"
    and "state_codec_ok env" and "monitors_inv ord (me_rx env) (md_state d')" and "\<And>c. os_fault os' c = None"
  shows "case r of
      Inr v \<Rightarrow> monitor_open env os' (md_files d') =
        Inr \<lparr>md_state = md_state d', md_files = md_files d', md_workers = bt_empty, md_shutdown = False\<rparr>
    | Inl e \<Rightarrow> md_state d' = md_state d \<and>
        (os_fault os (FsSyncDir (fst (me_path env))) = None \<longrightarrow>
         bt_get (md_files d') (me_path env) = bt_get (md_files d) (me_path env))"
  by (rule mutate_restart [OF assms])

text \<open>The change of \<open>stop\<close>.\<close>

definition demo_stopped :: monitor_state where
  "demo_stopped = snd (stop_change 1 1 5 demo_jobs)"

lemma demo_stop_change: "stop_change 1 1 5 demo_jobs = (Inr (), demo_stopped)"
proof -
  have "fst (stop_change 1 1 5 demo_jobs) = Inr ()" by code_simp
  then show ?thesis by (metis demo_stopped_def prod.collapse)
qed

theorem monitor_change_survives_restart_witness:
  "\<exists>d'. mutate_and_persist (demo_monitor_env demo_stopped) (os_ok [lit ''u'']) (stop_change 1 1 5)
       (demo_watching\<lparr>md_files := bt_empty\<rparr>) = Some (Inr (), d') \<and>
     monitor_open (demo_monitor_env demo_stopped) (os_ok []) (md_files d') =
       Inr \<lparr>md_state = demo_stopped, md_files = md_files d', md_workers = bt_empty, md_shutdown = False\<rparr>"
proof -
  let ?env = "demo_monitor_env demo_stopped"
  let ?d = "demo_watching\<lparr>md_files := bt_empty\<rparr>"
  obtain d' where run: "mutate_and_persist ?env (os_ok [lit ''u'']) (stop_change 1 1 5) ?d = Some (Inr (), d')"
    "md_state d' = demo_stopped"
    using demo_stop_change demo_monitor_persist [of demo_stopped] by (simp add: mutate_and_persist_def demo_watching_def)
  note inv = demo_watching_inv
  have "monitor_inv (me_rx ?env) (md_state d')"
    using stop_change_inv [OF inv demo_stop_change] run(2) by (simp add: demo_monitor_env_def)
  moreover have "state_codec_ok ?env"
    using one_codec_ok [of demo_stopped]
    by (simp add: state_codec_ok_def demo_monitor_env_def) (simp add: one_codec_def)
  moreover have "refuses_clean (stop_change 1 1 5) (md_state ?d)" by (rule refuses_clean_changes)
  ultimately show ?thesis
    using monitor_change_survives_restart [OF run(1), where os' = "os_ok []"] run by simp
qed

text \<open>
  C37: an operation on monitors that reports an error has left the catalog as it was: \<open>create\<close>, whose pruning
  of old jobs is undone with it, \<open>update\<close>, \<open>stop\<close> and the deletion of a stopped job.
\<close>

theorem failed_monitor_change_undone:
  assumes "monitors_inv ord (me_rx env) (md_state d)"
    and "monitor_create env slots call r d = Some (Inl e, d') \<or> monitor_update env slots call i u d = Some (Inl e, d') \<or>
      monitor_stop env call i n d = Some (Inl e, d') \<or> delete_stopped env call i n d = Some (Inl e, d')"
  shows "md_state d' = md_state d"
  using assms(2)
proof (elim disjE)
  show "md_state d' = md_state d" if "monitor_create env slots call r d = Some (Inl e, d')"
    by (rule create_failed [OF that assms(1)])
  show "md_state d' = md_state d" if "monitor_update env slots call i u d = Some (Inl e, d')"
    by (rule update_failed [OF that])
  show "md_state d' = md_state d" if "monitor_stop env call i n d = Some (Inl e, d')"
    using stop_failed [OF that] by blast
  show "md_state d' = md_state d" if "delete_stopped env call i n d = Some (Inl e, d')"
    by (rule delete_failed [OF that])
qed

theorem failed_monitor_change_undone_witness:
  "\<exists>d'. monitor_create (demo_monitor_env monitor_state_default) (\<lambda>_. Some (7, 0)) demo_call demo_create demo_idle =
     Some (Inl MonSerialization, d') \<and> md_state d' = md_state demo_idle"
proof -
  have "mp_monitors demo_jobs \<noteq> mp_monitors monitor_state_default" by code_simp
  then have "demo_jobs \<noteq> monitor_state_default" by metis
  then have run: "monitor_create (demo_monitor_env monitor_state_default) (\<lambda>_. Some (7, 0)) demo_call demo_create demo_idle =
      Some (Inl MonSerialization, demo_idle\<lparr>md_files := bt_empty\<rparr>)"
    unfolding demo_create_steps by (simp add: demo_persist_failed)
  then show ?thesis using failed_monitor_change_undone [OF demo_idle_ok(1) disjI1, OF run] by blast
qed

text \<open>
  C38: a running job has its worker. \<open>update\<close> and \<open>stop\<close> take the worker away before they change the catalog,
  and a worker that ends in an error takes itself away; whether the change is then saved or fails, every
  running job again has a started worker of its current revision, and no worker is ahead of its job.
\<close>

theorem running_jobs_supervised:
  assumes "supervised d"
    and "(um_expected_revision r < U64_MAX \<and> monitor_update env slots call i r d = Some (res, d')) \<or>
      (n < U64_MAX \<and> monitor_stop env call i n d = Some (res, d')) \<or>
      ((\<forall>w. bt_get (md_workers d) i = Some w \<longrightarrow> wh_token w = token \<longrightarrow> wh_revision w = n) \<and>
       worker_exit env call i n token (Inl e) d = Some d')"
  shows "supervised d'"
  using assms update_supervised stop_supervised exit_supervised by metis

theorem running_jobs_supervised_witness:
  "\<exists>d'. monitor_stop (demo_monitor_env monitor_state_default) demo_call 1 1 demo_watching = Some (Inl MonSerialization, d') \<and>
     supervised d'"
proof -
  have "mp_monitors demo_stopped \<noteq> mp_monitors monitor_state_default" by code_simp
  then have new: "demo_stopped \<noteq> monitor_state_default" by metis
  have one: "mv_revision demo_job = 1" "mc_now demo_call = 5" "mc_os demo_call = os_ok [lit ''u'']"
    by (simp_all add: demo_job_def demo_call_def)
  have view: "get_view 1 demo_watching = Inr demo_job" using demo_watching_job by (simp add: get_view_def ok_or_def)
  have change: "stop_change 1 1 5 (md_state (stop_worker 1 1 demo_watching)) = (Inr (), demo_stopped)"
    using demo_stop_change by (simp add: demo_watching_def)
  have "mutate_and_persist (demo_monitor_env monitor_state_default) (os_ok [lit ''u'']) (stop_change 1 1 5)
      (stop_worker 1 1 demo_watching) =
    Some (Inl MonSerialization, stop_worker 1 1 demo_watching)"
    using change new by (simp add: mutate_and_persist_def demo_persist_failed)
  then obtain d' where run:
    "monitor_stop (demo_monitor_env monitor_state_default) demo_call 1 1 demo_watching = Some (Inl MonSerialization, d')"
    by (simp add: monitor_stop_def view one del: One_nat_def)
  have "supervised demo_watching"
    by (auto simp: supervised_def demo_watching_def bt_get_insert demo_jobs_def insert_monitor_def bt_get_def bt_empty_def
        monitor_state_default_def demo_job_def demo_create_def split: if_splits)
  moreover have "1 < U64_MAX" by (simp add: U64_MAX_def)
  ultimately show ?thesis using run running_jobs_supervised [OF _ disjI2, OF _ disjI1, OF _ conjI] by blast
qed

text \<open>
  C39: a match that was accepted is not lost in a crash. From the moment the worker goes on after a match
  it holds back, through every further step of it and of the clients, the job's checkpoint names the event the
  match began with; so that a worker that begins from this checkpoint while the job still runs reports one
  incident from that event on, with the next number, and its new checkpoint no longer holds it.
\<close>

theorem accepted_match_survives_restart:
  assumes "rtranclp (worker_moves env m of_port) (w0, d0) (w, d)" and "wr_pending (wk_runtime w0) = None"
    and "wr_pending (wk_runtime w) = Some (p, t)" and "running_at (mv_id m) (mv_revision m) d"
    and "checkpoint_of (mv_id m) d2 = checkpoint_of (mv_id m) d" and "monitors_inv ord (me_rx env) (md_state d2)"
    and "bt_get (mp_monitors (md_state d2)) (mv_id m) = Some m2" and "mv_status m2 = MonRunning"
    and "mv_incident_count m2 < U64_MAX" and "worker_begin env x slots m2 d2 = Some (Inr (Some w2), d3)"
  shows "(\<exists>y \<in> set (incidents_of (md_state d3) (mv_id m)).
      mi_incident_seq y = Suc (mv_incident_count m2) \<and> mi_epoch y = pi_epoch p \<and> mi_seq_start y = pi_seq_start p) \<and>
    (\<exists>cp. checkpoint_of (mv_id m) d3 = Some cp \<and> mk_pending cp = None)"
  by (rule pending_reported [OF assms])

text \<open>The worker of the job that holds matches back for a millisecond.\<close>

definition demo_worker :: worker where
  "demo_worker =
     \<lparr>wk_runtime =
        \<lparr>wr_matcher = \<lparr>sm_conditions = [condition_new (Contains (lit ''x'')) (CLiteral [120])], sm_bytes = [],
                       sm_chunks = [], sm_base_offset = 0, sm_next_offset = 0\<rparr>,
         wr_pending = None, wr_cooldown_until = None, wr_debounce = 3, wr_cooldown = 0, wr_generation = None\<rparr>,
      wk_cursor = demo_cursor, wk_last_checkpoint = 0\<rparr>"

definition demo_worker_inputs :: worker_inputs where
  "demo_worker_inputs =
     \<lparr>wn_now = 0, wn_wall = 0, wn_check_now = 0, wn_check_wall = 0, wn_flush = demo_call, wn_emit = demo_call,
      wn_save = os_ok [lit ''u''], wn_due = os_ok [lit ''u''], wn_saved_now = 0, wn_done = demo_call\<rparr>"

definition demo_receipt :: "worker worker_result" where
  "demo_receipt = worker_receive demo_worker_env demo_worker_inputs demo_slow_job 0 (demo_rx 1 0 [120]) demo_worker demo_slow_daemon"

definition demo_held :: monitor_checkpoint where
  "demo_held =
     (case demo_receipt of
        None \<Rightarrow> fresh_checkpoint demo_cursor
      | Some (_, d) \<Rightarrow> the (checkpoint_of 1 d))"

text \<open>The daemon after a crash: the job as it was, with the checkpoint the event left.\<close>

definition demo_crashed :: monitor_daemon where
  "demo_crashed = demo_slow_daemon\<lparr>md_state :=
     (md_state demo_slow_daemon)\<lparr>mp_checkpoints := bt_insert 1 demo_held (mp_checkpoints (md_state demo_slow_daemon))\<rparr>\<rparr>"

lemma running_result:
  "(case r of None \<Rightarrow> False | Some (Inl _, d) \<Rightarrow> False | Some (Inr w, d) \<Rightarrow> P w d) \<Longrightarrow>
   \<exists>w d. r = Some (Inr w, d) \<and> P w d"
proof (cases r)
  case (Some x)
  obtain y d where "x = (y, d)" by (cases x)
  then show "(case r of None \<Rightarrow> False | Some (Inl _, d) \<Rightarrow> False | Some (Inr w, d) \<Rightarrow> P w d) \<Longrightarrow> ?thesis"
    using Some by (cases y) simp_all
qed simp

lemma demo_receipt:
  "\<exists>w d p t. demo_receipt = Some (Inr w, d) \<and> wr_pending (wk_runtime w) = Some (p, t) \<and> pi_seq_start p = 1 \<and>
     running_at 1 1 d \<and> checkpoint_of 1 d = Some demo_held"
proof -
  have "(case demo_receipt of None \<Rightarrow> False | Some (Inl _, d) \<Rightarrow> False | Some (Inr w, d) \<Rightarrow>
     (case wr_pending (wk_runtime w) of None \<Rightarrow> False | Some (p, t) \<Rightarrow> pi_seq_start p = 1) \<and>
     (case bt_get (mp_monitors (md_state d)) 1 of None \<Rightarrow> False | Some m \<Rightarrow> mv_status m = MonRunning \<and> mv_revision m = 1) \<and>
     checkpoint_of 1 d \<noteq> None)"
    by code_simp
  from running_result [OF this] obtain w d where r: "demo_receipt = Some (Inr w, d)" and
    "(case wr_pending (wk_runtime w) of None \<Rightarrow> False | Some (p, t) \<Rightarrow> pi_seq_start p = 1) \<and>
     (case bt_get (mp_monitors (md_state d)) 1 of None \<Rightarrow> False | Some m \<Rightarrow> mv_status m = MonRunning \<and> mv_revision m = 1) \<and>
     checkpoint_of 1 d \<noteq> None"
    by blast
  then show ?thesis by (auto simp: demo_held_def running_at_def r split: option.splits)
qed

lemma demo_crashed_jobs:
  "bt_get (mp_monitors (md_state demo_crashed)) 1 = Some demo_slow_job" "checkpoint_of 1 demo_crashed = Some demo_held"
  by (simp_all add: demo_crashed_def bt_get_insert) (code_simp)

lemma demo_crashed_inv: "monitor_inv demo_regex (md_state demo_crashed)"
  using demo_slow_inv(1) by (simp add: demo_crashed_def inv_checkpoint)

lemma demo_begin:
  "\<exists>w d. worker_begin demo_worker_env demo_worker_inputs (\<lambda>_. Some (7, 5)) demo_slow_job demo_crashed = Some (Inr (Some w), d)"
proof -
  have "(case worker_begin demo_worker_env demo_worker_inputs (\<lambda>_. Some (7, 5)) demo_slow_job demo_crashed of
      Some (Inr (Some w), d) \<Rightarrow> True | _ \<Rightarrow> False)"
    by code_simp
  then show ?thesis by (auto split: option.splits sum.splits prod.splits)
qed

theorem accepted_match_survives_restart_witness:
  "\<exists>w d. worker_begin demo_worker_env demo_worker_inputs (\<lambda>_. Some (7, 5)) demo_slow_job demo_crashed = Some (Inr (Some w), d) \<and>
     (\<exists>y \<in> set (incidents_of (md_state d) 1). mi_incident_seq y = 1 \<and> mi_seq_start y = 1)"
proof -
  obtain w d p t where seen: "demo_receipt = Some (Inr w, d)" "wr_pending (wk_runtime w) = Some (p, t)" "pi_seq_start p = 1"
    "running_at 1 1 d" "checkpoint_of 1 d = Some demo_held"
    using demo_receipt by blast
  obtain w2 d3 where begun:
    "worker_begin demo_worker_env demo_worker_inputs (\<lambda>_. Some (7, 5)) demo_slow_job demo_crashed = Some (Inr (Some w2), d3)"
    using demo_begin by blast
  have "worker_moves demo_worker_env demo_slow_job (\<lambda>_ :: unit timeline_event. True) (demo_worker, demo_slow_daemon) (w, d)"
    using seen(1) unfolding demo_receipt_def by (rule moves_receive) simp
  then have moves: "rtranclp (worker_moves demo_worker_env demo_slow_job (\<lambda>_ :: unit timeline_event. True)) (demo_worker, demo_slow_daemon) (w, d)" ..
  have job: "mv_id demo_slow_job = 1" "mv_revision demo_slow_job = 1" "mv_status demo_slow_job = MonRunning"
    "mv_incident_count demo_slow_job = 0"
    by (simp_all add: demo_slow_job_def demo_create_def)
  have "wr_pending (wk_runtime demo_worker) = None" by (simp add: demo_worker_def)
  moreover have "0 < U64_MAX" by (simp add: U64_MAX_def)
  ultimately show ?thesis
    using accepted_match_survives_restart [OF moves _ seen(2) _ _ _ _ job(3) _ begun] seen begun demo_crashed_jobs demo_crashed_inv
    unfolding job by auto
qed

text \<open>
  C40: incidents keep their distance. Whenever matches come and the worker ticks, two incidents of a job that
  come out on a match or after its debounce are at least the cooldown of the job apart, on a clock that
  does not go back.
\<close>

theorem incidents_paced:
  assumes "sorted (now # map wall_of xs)" and "wr_pending rt = None"
    and "\<forall>x \<in> set xs. I64_MIN \<le> wall_of x \<and> wall_of x + cooldown_ns rt \<le> I64_MAX"
  shows "sorted_wrt (\<lambda>a b. a + cooldown_ns rt \<le> b) (pace xs rt)"
  using pace_spaced [OF assms(1,3)] assms(2) by (simp add: rested_def)

text \<open>A cooldown of 2 ms: the second match is dropped, the third reported.\<close>

definition demo_pace :: "pace_input list" where
  "demo_pace =
     (let p = \<lparr>pi_epoch = 7, pi_seq_start = 1, pi_seq_end = 1, pi_wall_time_start_ns = 0, pi_wall_time_end_ns = 0,
               pi_matches = [], pi_preview = []\<rparr>
      in [Candidate p 0 0, Candidate p 1 1000000, Due 2 1000000, Candidate p 3 2000000])"

theorem incidents_paced_witness:
  "sorted_wrt (\<lambda>a b. a + 2000000 \<le> b)
     (pace demo_pace ((wk_runtime demo_worker)\<lparr>wr_debounce := 0, wr_cooldown := 2000000\<rparr>)) \<and>
   pace demo_pace ((wk_runtime demo_worker)\<lparr>wr_debounce := 0, wr_cooldown := 2000000\<rparr>) = [0, 2000000]"
proof -
  let ?rt = "(wk_runtime demo_worker)\<lparr>wr_debounce := 0, wr_cooldown := 2000000\<rparr>"
  have ns: "cooldown_ns ?rt = 2000000" by code_simp
  have "sorted (0 # map wall_of demo_pace)" by (simp add: demo_pace_def Let_def)
  moreover have "wr_pending ?rt = None" by (simp add: demo_worker_def)
  moreover have "\<forall>x \<in> set demo_pace. I64_MIN \<le> wall_of x \<and> wall_of x + cooldown_ns ?rt \<le> I64_MAX"
    unfolding ns by (simp add: demo_pace_def Let_def I64_MIN_def I64_MAX_def)
  ultimately have "sorted_wrt (\<lambda>a b. a + cooldown_ns ?rt \<le> b) (pace demo_pace ?rt)" by (rule incidents_paced)
  moreover have "pace demo_pace ?rt = [0, 2000000]" by code_simp
  ultimately show ?thesis unfolding ns by blast
qed

end
